(* ===== verification/Dwt_Prelude.thy ===== *)
theory Dwt_Prelude
  imports Main "HOL-Library.Word"
begin

text \<open>
  What the components share: the machine types of \<open>comm_def.h\<close>, the ways in which the C++ code
  can fail, results that are either a failure or a value, the memory primitives of
  \<open>std::vector<char>\<close> and raw byte ranges, and the collections of rules the component proofs use.
\<close>

unbundle bit_operations_syntax

section \<open>Machine types (\<open>comm_def.h\<close>)\<close>

type_synonym byte = "8 word"
type_synonym size_t = "64 word"
type_synonym u16 = "16 word"
type_synonym u32 = "32 word"

section \<open>Failures and results\<close>

text \<open>
  The ways a run of the code can stop other than by returning: \<open>Aborted\<close> is \<open>LOG_FATAL\<close>
  (\<open>std::abort\<close>); \<open>LengthError\<close> is the exception \<open>std::length_error\<close> of \<open>std::vector\<close>;
  \<open>BadFunctionCall\<close> is the exception an empty \<open>std::function\<close> throws; \<open>OutOfBounds\<close>,
  \<open>UseAfterFree\<close> and \<open>NullDeref\<close> are the undefined behaviours of reading or writing outside an
  object, through a pointer to a destroyed object, and through a null pointer; \<open>Terminated\<close> is
  \<open>std::terminate\<close> (destroying a joinable \<open>std::thread\<close>); \<open>SystemError\<close> is the exception
  \<open>std::system_error\<close> of joining or detaching a thread that is not joinable; \<open>FormatError\<close> is the
  exception \<open>fmt::format_error\<close> with its message.
\<close>

datatype fault =
    Aborted
  | LengthError
  | BadFunctionCall
  | OutOfBounds
  | UseAfterFree
  | NullDeref
  | Terminated
  | SystemError
  | FormatError string

type_synonym 'a res = "fault + 'a"

definition bindR :: "'a res \<Rightarrow> ('a \<Rightarrow> 'b res) \<Rightarrow> 'b res" where
  "bindR r f = (case r of Inl e \<Rightarrow> Inl e | Inr x \<Rightarrow> f x)"

named_theorems frame \<open>fields an operation leaves alone\<close>
named_theorems keeps \<open>invariants an operation preserves\<close>

lemma bindR_Inl [simp]: "bindR (Inl e) f = Inl e"
  by (simp add: bindR_def)

lemma bindR_Inr [simp]: "bindR (Inr x) f = f x"
  by (simp add: bindR_def)

lemma bindR_return [simp]: "bindR r Inr = r"
  by (cases r) simp_all

lemma bindR_eq_Inr: "bindR r f = Inr y \<longleftrightarrow> (\<exists>x. r = Inr x \<and> f x = Inr y)"
  by (cases r) simp_all

lemma bindR_eq_Inl: "bindR r f = Inl e \<longleftrightarrow> r = Inl e \<or> (\<exists>x. r = Inr x \<and> f x = Inl e)"
  by (cases r) simp_all

lemma bindR_InrE [elim!]:
  assumes "bindR r f = Inr y"
  obtains x where "r = Inr x" and "f x = Inr y"
  using assms by (auto simp: bindR_eq_Inr)

lemma bindR_assoc: "bindR (bindR r f) g = bindR r (\<lambda>x. bindR (f x) g)"
  by (cases r) simp_all

lemma bindR_cong [fundef_cong]:
  "r = r' \<Longrightarrow> (\<And>x. r' = Inr x \<Longrightarrow> f x = f' x) \<Longrightarrow> bindR r f = bindR r' f'"
  by (cases r') simp_all

text \<open>Looking up an object through a raw pointer: a destroyed object is undefined behaviour.\<close>

definition deref :: "('p \<rightharpoonup> 'o) \<Rightarrow> 'p \<Rightarrow> 'o res" where
  "deref m p = (case m p of None \<Rightarrow> Inl UseAfterFree | Some x \<Rightarrow> Inr x)"

lemma deref_Some [simp]: "m p = Some x \<Longrightarrow> deref m p = Inr x"
  by (simp add: deref_def)

lemma deref_None [simp]: "m p = None \<Longrightarrow> deref m p = Inl UseAfterFree"
  by (simp add: deref_def)

lemma deref_eq_Inr [simp]: "deref m p = Inr x \<longleftrightarrow> m p = Some x"
  by (simp add: deref_def split: option.splits)

section \<open>Bytes in memory\<close>

text \<open>
  Reading \<open>n\<close> bytes at offset \<open>off\<close> of an object and overwriting bytes of an object; both are
  undefined behaviour outside the object. The largest object of the platform has
  \<open>PTRDIFF_MAX\<close> bytes, which is also \<open>std::vector<char>::max_size()\<close>.
\<close>

definition max_object :: nat where
  "max_object = 2 ^ 63 - 1"

definition mem_read :: "byte list \<Rightarrow> size_t \<Rightarrow> size_t \<Rightarrow> byte list res" where
  "mem_read obj off n =
     (if unat off + unat n \<le> length obj then Inr (take (unat n) (drop (unat off) obj))
      else Inl OutOfBounds)"

definition mem_write :: "byte list \<Rightarrow> size_t \<Rightarrow> byte list \<Rightarrow> byte list res" where
  "mem_write obj off xs =
     (if unat off + length xs \<le> length obj
      then Inr (take (unat off) obj @ xs @ drop (unat off + length xs) obj)
      else Inl OutOfBounds)"

text \<open>\<open>std::vector<char>::resize\<close>: new elements are zero, a length over \<open>max_size()\<close> throws.\<close>

definition vec_resize :: "size_t \<Rightarrow> byte list \<Rightarrow> byte list res" where
  "vec_resize n xs =
     (if max_object < unat n then Inl LengthError
      else Inr (take (unat n) xs @ replicate (unat n - length xs) 0))"

lemma length_mem_write: "mem_write obj off xs = Inr obj' \<Longrightarrow> length obj' = length obj"
  by (auto simp: mem_write_def split: if_splits)

lemma mem_read_prefix_write:
  "mem_write obj off xs = Inr obj' \<Longrightarrow> n \<le> unat off \<Longrightarrow> take n obj' = take n obj"
  by (auto simp: mem_write_def split: if_splits)

section \<open>Words as sizes\<close>

lemma unat_of_nat_size [simp]: "n \<le> max_object \<Longrightarrow> unat (of_nat n :: size_t) = n"
  by (simp add: max_object_def unat_of_nat take_bit_nat_eq_self)

lemma max_object_less: "n \<le> max_object \<Longrightarrow> n < 2 ^ 63"
  by (simp add: max_object_def)

lemma unat_sub_le: "unat b \<le> unat a \<Longrightarrow> unat (a - b :: 'a::len word) = unat a - unat b"
  by (rule unat_sub) (simp add: word_le_nat_alt)

lemma unat_add_small:
  "unat a + unat b < 2 ^ 64 \<Longrightarrow> unat (a + b :: size_t) = unat a + unat b"
  by (simp add: unat_word_ariths)

lemma unat_size_bound: "unat (a :: size_t) < 2 ^ 64"
  using unsigned_less [of a] by simp

lemma not_less_zero_word [simp]: "\<not> (n :: size_t) < 0"
  by simp


section \<open>Transition systems\<close>

text \<open>
  The contract a state machine's invariant has to meet, shared by the components whose correctness
  is about all interleavings: it holds initially and every step keeps it; then it holds in every
  state a run reaches.
\<close>

locale invariant_system =
  fixes init :: "'s \<Rightarrow> bool"
    and step :: "'s \<Rightarrow> 's \<Rightarrow> bool"
    and inv :: "'s \<Rightarrow> bool"
  assumes init_inv: "init s \<Longrightarrow> inv s"
    and step_inv: "inv s \<Longrightarrow> step s t \<Longrightarrow> inv t"
begin

lemma run_inv: "step\<^sup>*\<^sup>* s t \<Longrightarrow> inv s \<Longrightarrow> inv t"
  by (induction rule: rtranclp_induct) (auto intro: step_inv)

lemma reachable_inv: "init s \<Longrightarrow> step\<^sup>*\<^sup>* s t \<Longrightarrow> inv t"
  by (blast intro: run_inv init_inv)

end

end
