(* ===== verification/Kernel.thy ===== *)
theory Kernel
  imports Dwt_Prelude
begin

text \<open>
  The system calls the sources make, as parameters of the model: a record of functions over an
  abstract kernel state, each returning what the call stores (return value, output buffers, errno)
  and the next kernel state. Nothing is assumed of them here; what a proof relies on is one of the
  named contracts below, each a documented behaviour of the manual page, stated over an observation
  of the kernel state. \<open>demo_kernel\<close> satisfies them and serves the witnesses.
\<close>

section \<open>Names\<close>

type_synonym fd = int
type_synonym errno = int
type_synonym chan_ptr = nat
type_synonym loop_ptr = nat
type_synonym conn_ptr = nat
type_synonym addr = nat
type_synonym timestamp = int

definition EINTR :: errno where "EINTR = 4"
definition EWOULDBLOCK :: errno where "EWOULDBLOCK = 11"
definition EMFILE :: errno where "EMFILE = 24"
definition EPIPE :: errno where "EPIPE = 32"
definition ECONNRESET :: errno where "ECONNRESET = 104"

definition EPOLLIN :: u32 where "EPOLLIN = 1"
definition EPOLLPRI :: u32 where "EPOLLPRI = 2"
definition EPOLLOUT :: u32 where "EPOLLOUT = 4"
definition EPOLLERR :: u32 where "EPOLLERR = 8"
definition EPOLLHUP :: u32 where "EPOLLHUP = 16"

lemmas epoll_bits = EPOLLIN_def EPOLLPRI_def EPOLLOUT_def EPOLLERR_def EPOLLHUP_def

datatype ctl_op = EPOLL_CTL_ADD | EPOLL_CTL_MOD | EPOLL_CTL_DEL

datatype sockopt = TCP_NODELAY | SO_REUSEADDR | SO_REUSEPORT | SO_KEEPALIVE

text \<open>A \<open>struct sockaddr_in\<close>: the port in network byte order and the address.\<close>

record sockaddr_in =
  sin_family :: nat
  sin_port :: u16
  s_addr :: u32

text \<open>An \<open>epoll_event\<close>: the mask and \<open>data.ptr\<close>, which always holds a channel.\<close>

type_synonym epoll_event = "u32 \<times> chan_ptr"

section \<open>System calls\<close>

record 'k kernel =
  sys_epoll_create1 :: "'k \<Rightarrow> (int \<times> errno) \<times> 'k"
  sys_epoll_ctl :: "fd \<Rightarrow> ctl_op \<Rightarrow> fd \<Rightarrow> epoll_event \<Rightarrow> 'k \<Rightarrow> int \<times> 'k"
  sys_epoll_wait :: "fd \<Rightarrow> nat \<Rightarrow> int \<Rightarrow> 'k \<Rightarrow> (int \<times> epoll_event list \<times> errno) \<times> 'k"
  sys_eventfd :: "'k \<Rightarrow> int \<times> 'k"
  sys_readv :: "fd \<Rightarrow> size_t list \<Rightarrow> 'k \<Rightarrow> (size_t \<times> byte list \<times> errno) \<times> 'k"
  sys_read :: "fd \<Rightarrow> size_t \<Rightarrow> 'k \<Rightarrow> (int \<times> byte list \<times> errno) \<times> 'k"
  sys_write :: "fd \<Rightarrow> byte list \<Rightarrow> 'k \<Rightarrow> (size_t \<times> errno) \<times> 'k"
  sys_socket :: "'k \<Rightarrow> int \<times> 'k"
  sys_bind :: "fd \<Rightarrow> sockaddr_in \<Rightarrow> 'k \<Rightarrow> int \<times> 'k"
  sys_listen :: "fd \<Rightarrow> nat \<Rightarrow> 'k \<Rightarrow> int \<times> 'k"
  sys_accept4 :: "fd \<Rightarrow> 'k \<Rightarrow> (int \<times> sockaddr_in \<times> errno) \<times> 'k"
  sys_shutdown_wr :: "fd \<Rightarrow> 'k \<Rightarrow> int \<times> 'k"
  sys_setsockopt :: "fd \<Rightarrow> sockopt \<Rightarrow> int \<Rightarrow> 'k \<Rightarrow> int \<times> 'k"
  sys_getsockname :: "fd \<Rightarrow> 'k \<Rightarrow> (int \<times> sockaddr_in) \<times> 'k"
  sys_so_error :: "fd \<Rightarrow> 'k \<Rightarrow> (int \<times> int \<times> errno) \<times> 'k"
  sys_close :: "fd \<Rightarrow> 'k \<Rightarrow> 'k"
  sys_now :: "'k \<Rightarrow> timestamp \<times> 'k"

section \<open>Contracts\<close>

text \<open>
  \<open>epoll_ctl(2)\<close> over the interest lists \<open>reg k epfd fd\<close>: adding an absent descriptor and changing
  or deleting a present one succeed and do so; the other combinations are refused (EEXIST, ENOENT)
  and change nothing.
\<close>

definition epoll_contract ::
    "'k kernel \<Rightarrow> ('k \<Rightarrow> fd \<Rightarrow> fd \<Rightarrow> epoll_event option) \<Rightarrow> bool" where
  "epoll_contract K reg \<longleftrightarrow>
     (\<forall>ep op f ev k. case sys_epoll_ctl K ep op f ev k of (r, k') \<Rightarrow>
        (if (op = EPOLL_CTL_ADD) = (reg k ep f = None)
         then r = 0 \<and>
              reg k' = (reg k)(ep := (reg k ep)(f := if op = EPOLL_CTL_DEL then None else Some ev))
         else r = -1 \<and> reg k' = reg k))"

text \<open>\<open>readv(2)\<close>: -1 and no bytes, or as many bytes as returned, at most the vectors' total.\<close>

definition readv_contract ::
    "(size_t list \<Rightarrow> 'k \<Rightarrow> (size_t \<times> byte list \<times> errno) \<times> 'k) \<Rightarrow> bool" where
  "readv_contract readv \<longleftrightarrow>
     (\<forall>iov k n d e k'. readv iov k = ((n, d, e), k') \<longrightarrow>
        (n = -1 \<and> d = []) \<or>
        (unat n = length d \<and> length d \<le> sum_list (map unat iov)))"

text \<open>
  \<open>write(2)\<close> on the connected socket \<open>f\<close>, over the bytes \<open>wire k\<close> it has accepted so far: -1 and
  no effect, or the length of the prefix it took. The other calls the code makes leave the accepted
  bytes alone.
\<close>

definition write_contract :: "'k kernel \<Rightarrow> ('k \<Rightarrow> byte list) \<Rightarrow> fd \<Rightarrow> bool" where
  "write_contract K wire f \<longleftrightarrow>
     (\<forall>xs k n e k'. sys_write K f xs k = ((n, e), k') \<longrightarrow>
        (n = -1 \<and> wire k' = wire k) \<or>
        (unat n \<le> length xs \<and> wire k' = wire k @ take (unat n) xs))"

definition quiet_contract :: "'k kernel \<Rightarrow> ('k \<Rightarrow> byte list) \<Rightarrow> fd \<Rightarrow> bool" where
  "quiet_contract K wire f \<longleftrightarrow>
     (\<forall>ep op g ev k. wire (snd (sys_epoll_ctl K ep op g ev k)) = wire k) \<and>
     (\<forall>g k. wire (snd (sys_shutdown_wr K g k)) = wire k) \<and>
     (\<forall>g xs k. g \<noteq> f \<longrightarrow> wire (snd (sys_write K g xs k)) = wire k)"

text \<open>Input, output and shutdown leave the interest lists alone.\<close>

definition io_contract ::
    "'k kernel \<Rightarrow> ('k \<Rightarrow> fd \<Rightarrow> fd \<Rightarrow> epoll_event option) \<Rightarrow> bool" where
  "io_contract K reg \<longleftrightarrow>
     (\<forall>f xs k. reg (snd (sys_write K f xs k)) = reg k) \<and>
     (\<forall>f iov k. reg (snd (sys_readv K f iov k)) = reg k) \<and>
     (\<forall>f n k. reg (snd (sys_read K f n k)) = reg k) \<and>
     (\<forall>f k. reg (snd (sys_shutdown_wr K f k)) = reg k) \<and>
     (\<forall>f k. reg (snd (sys_so_error K f k)) = reg k)"

text \<open>
  \<open>epoll_wait(2)\<close>: a positive result is the number of events delivered, at most \<open>maxevents\<close>; the
  events come from the interest list of the instance. Otherwise nothing is delivered. The call
  leaves the interest lists alone, and so does reading the clock.
\<close>

definition epoll_wait_contract ::
    "'k kernel \<Rightarrow> ('k \<Rightarrow> fd \<Rightarrow> fd \<Rightarrow> epoll_event option) \<Rightarrow> bool" where
  "epoll_wait_contract K reg \<longleftrightarrow>
     (\<forall>ep m t k r evs e k'. sys_epoll_wait K ep m t k = ((r, evs, e), k') \<longrightarrow>
        int (length evs) = max r 0 \<and> length evs \<le> m \<and> reg k' = reg k \<and>
        (\<forall>(ev, c) \<in> set evs. \<exists>f mask. reg k ep f = Some (mask, c))) \<and>
     (\<forall>k. reg (snd (sys_now K k)) = reg k)"

text \<open>
  \<open>eventfd(2)\<close> (non-blocking) on the descriptor \<open>f\<close>, over its counter \<open>cnt k\<close>: writing 1 adds it and
  returns 8, unless the counter would pass its maximum; reading a positive counter returns 8 bytes
  and resets it.
\<close>

definition eventfd_one :: "byte list" where
  "eventfd_one = [1, 0, 0, 0, 0, 0, 0, 0]"

definition eventfd_contract :: "'k kernel \<Rightarrow> ('k \<Rightarrow> nat) \<Rightarrow> fd \<Rightarrow> bool" where
  "eventfd_contract K cnt f \<longleftrightarrow>
     (\<forall>k n e k'. sys_write K f eventfd_one k = ((n, e), k') \<longrightarrow>
        (if cnt k + 1 < 2 ^ 64 - 1 then n = 8 \<and> cnt k' = cnt k + 1
         else n = -1 \<and> cnt k' = cnt k)) \<and>
     (\<forall>k n d e k'. sys_read K f 8 k = ((n, d, e), k') \<longrightarrow>
        (if 0 < cnt k then n = 8 \<and> length d = 8 \<and> cnt k' = 0
         else n = -1 \<and> d = [] \<and> cnt k' = cnt k))"

lemma eventfd_write_positive:
  assumes "eventfd_contract K cnt f"
  shows "0 < cnt (snd (sys_write K f eventfd_one k))"
proof -
  obtain n e k' where w: "sys_write K f eventfd_one k = ((n, e), k')"
    by (metis surj_pair)
  from assms have "if cnt k + 1 < 2 ^ 64 - 1 then n = 8 \<and> cnt k' = cnt k + 1
      else n = -1 \<and> cnt k' = cnt k"
    unfolding eventfd_contract_def using w by blast
  then show ?thesis using w by (simp split: if_splits)
qed

text \<open>
  \<open>epoll_create1(2)\<close> and \<open>eventfd(2)\<close> with descriptors left to give: the new epoll instance watches
  nothing, and creating either leaves the other interest lists alone.
\<close>

definition startup_contract ::
    "'k kernel \<Rightarrow> ('k \<Rightarrow> fd \<Rightarrow> fd \<Rightarrow> epoll_event option) \<Rightarrow> bool" where
  "startup_contract K reg \<longleftrightarrow>
     (\<forall>k ep e k'. sys_epoll_create1 K k = ((ep, e), k') \<longrightarrow>
        0 \<le> ep \<and> reg k' = (reg k)(ep := Map.empty)) \<and>
     (\<forall>k f k'. sys_eventfd K k = (f, k') \<longrightarrow> 0 \<le> f \<and> reg k' = reg k)"

end
