(* ===== verification/Buffer.thy ===== *)
theory Buffer
  imports Kernel
begin

text \<open>
  The byte buffer of \<open>src/src/Buffer.h\<close> and \<open>src/src/Buffer.cpp\<close>: a \<open>std::vector<char>\<close> with a
  reader and a writer index of type \<open>size_t\<close>, whose arithmetic wraps as the code's does.
  \<open>contents\<close> abstracts a buffer to the bytes between the indices; the operations implement a
  queue of bytes, which the locale \<open>byte_queue\<close> states as an interface for \<open>TcpConnection\<close>.
\<close>

section \<open>State and operations\<close>

record buffer =
  m_buffer :: "byte list"
  m_readerIdx :: size_t
  m_writerIdx :: size_t

definition kCheapPrepend :: size_t where
  "kCheapPrepend = 8"

definition kInitialSize :: size_t where
  "kInitialSize = 1024"

text \<open>The constructor: its parameter does not reach the member initialisers.\<close>

definition newBuffer :: "size_t \<Rightarrow> buffer" where
  "newBuffer initialSize =
     \<lparr>m_buffer = replicate (unat (kCheapPrepend + kInitialSize)) 0,
      m_readerIdx = kCheapPrepend, m_writerIdx = kCheapPrepend\<rparr>"

abbreviation vsize :: "buffer \<Rightarrow> size_t" where
  "vsize b \<equiv> of_nat (length (m_buffer b))"

definition readableBytes :: "buffer \<Rightarrow> size_t" where
  "readableBytes b = m_writerIdx b - m_readerIdx b"

definition writableBytes :: "buffer \<Rightarrow> size_t" where
  "writableBytes b = vsize b - m_writerIdx b"

definition prependableBytes :: "buffer \<Rightarrow> size_t" where
  "prependableBytes b = m_readerIdx b"

definition retrieveAll :: "buffer \<Rightarrow> buffer" where
  "retrieveAll b = b\<lparr>m_readerIdx := kCheapPrepend, m_writerIdx := kCheapPrepend\<rparr>"

definition retrieve :: "size_t \<Rightarrow> buffer \<Rightarrow> buffer" where
  "retrieve len b =
     (if len < readableBytes b then b\<lparr>m_readerIdx := m_readerIdx b + len\<rparr> else retrieveAll b)"

text \<open>\<open>std::string res(peek(), len)\<close> reads \<open>len\<close> bytes from the reader index, whatever is readable.\<close>

definition retrieveAsString :: "size_t \<Rightarrow> buffer \<Rightarrow> (byte list \<times> buffer) res" where
  "retrieveAsString len b =
     bindR (mem_read (m_buffer b) (m_readerIdx b) len) (\<lambda>s. Inr (s, retrieve len b))"

definition retrieveAllAsString :: "buffer \<Rightarrow> (byte list \<times> buffer) res" where
  "retrieveAllAsString b = retrieveAsString (readableBytes b) b"

definition hasWritten :: "size_t \<Rightarrow> buffer \<Rightarrow> buffer" where
  "hasWritten len b = b\<lparr>m_writerIdx := m_writerIdx b + len\<rparr>"

definition makeSpace :: "size_t \<Rightarrow> buffer \<Rightarrow> buffer res" where
  "makeSpace len b =
     (if writableBytes b + prependableBytes b < len + kCheapPrepend
      then bindR (vec_resize (m_writerIdx b + len) (m_buffer b))
             (\<lambda>v. Inr (b\<lparr>m_buffer := v\<rparr>))
      else let readable = readableBytes b in
           bindR (mem_read (m_buffer b) (m_readerIdx b) readable) (\<lambda>xs.
           bindR (mem_write (m_buffer b) kCheapPrepend xs) (\<lambda>v.
             Inr (b\<lparr>m_buffer := v, m_readerIdx := kCheapPrepend,
                    m_writerIdx := kCheapPrepend + readable\<rparr>))))"

definition ensureWritableBytes :: "size_t \<Rightarrow> buffer \<Rightarrow> buffer res" where
  "ensureWritableBytes len b = (if writableBytes b < len then makeSpace len b else Inr b)"

text \<open>
  \<open>append(data, len)\<close>: \<open>data\<close> is the address \<open>off\<close> bytes into the object \<open>obj\<close>; the copy reads
  \<open>len\<close> bytes of it.
\<close>

definition append_data :: "byte list \<Rightarrow> size_t \<Rightarrow> size_t \<Rightarrow> buffer \<Rightarrow> buffer res" where
  "append_data obj off len b =
     bindR (ensureWritableBytes len b) (\<lambda>b1.
     bindR (mem_read obj off len) (\<lambda>xs.
     bindR (mem_write (m_buffer b1) (m_writerIdx b1) xs) (\<lambda>v.
       Inr (hasWritten len (b1\<lparr>m_buffer := v\<rparr>)))))"

definition appendStr :: "byte list \<Rightarrow> buffer \<Rightarrow> buffer res" where
  "appendStr str b = append_data str 0 (of_nat (length str)) b"

section \<open>Reading from and writing to a descriptor (\<open>Buffer.cpp\<close>)\<close>

text \<open>
  \<open>::readv\<close> is a parameter: given the lengths of the I/O vectors it returns the value, as the
  \<open>size_t\<close> the code stores it in (so -1 is \<open>max_word\<close>), the bytes it delivered and \<open>errno\<close>. The
  delivered bytes fill the first vector (the writable part of the buffer) and then the 65536 zeroed
  bytes of \<open>extrabuf\<close>.
\<close>

definition extrabuf_size :: nat where
  "extrabuf_size = 65536"

definition readFd_iov :: "buffer \<Rightarrow> size_t list" where
  "readFd_iov b =
     (if writableBytes b < of_nat extrabuf_size
      then [writableBytes b, of_nat extrabuf_size] else [writableBytes b])"

definition readFd ::
    "(size_t list \<Rightarrow> 'k \<Rightarrow> (size_t \<times> byte list \<times> int) \<times> 'k) \<Rightarrow> int \<Rightarrow> 'k \<Rightarrow> buffer
     \<Rightarrow> (size_t \<times> int \<times> buffer \<times> 'k) res" where
  "readFd readv saveErrno k b =
     (let writable = writableBytes b;
          ((n, delivered, errno), k') = readv (readFd_iov b) k;
          first_vec = take (unat writable) delivered;
          rest = take extrabuf_size (drop (unat writable) delivered);
          extrabuf = rest @ replicate (extrabuf_size - length rest) 0
      in bindR (mem_write (m_buffer b) (m_writerIdx b) first_vec) (\<lambda>v.
         let b1 = b\<lparr>m_buffer := v\<rparr> in
         if n < 0 then Inr (n, errno, b1, k')
         else if n < writable then Inr (n, saveErrno, hasWritten n b1, k')
         else bindR (append_data extrabuf 0 (n - writable) (b1\<lparr>m_writerIdx := vsize b1\<rparr>))
                (\<lambda>b2. Inr (n, saveErrno, b2, k'))))"

definition writeFd ::
    "(byte list \<Rightarrow> 'k \<Rightarrow> (size_t \<times> int) \<times> 'k) \<Rightarrow> int \<Rightarrow> 'k \<Rightarrow> buffer
     \<Rightarrow> (size_t \<times> int \<times> 'k) res" where
  "writeFd write saveErrno k b =
     bindR (mem_read (m_buffer b) (m_readerIdx b) (readableBytes b)) (\<lambda>xs.
       let ((n, errno), k') = write xs k
       in Inr (n, if n < 0 then errno else saveErrno, k'))"

section \<open>Invariant and abstraction\<close>

definition buffer_inv :: "buffer \<Rightarrow> bool" where
  "buffer_inv b \<longleftrightarrow>
     8 \<le> unat (m_readerIdx b) \<and> unat (m_readerIdx b) \<le> unat (m_writerIdx b) \<and>
     unat (m_writerIdx b) \<le> length (m_buffer b) \<and> length (m_buffer b) \<le> max_object"

definition contents :: "buffer \<Rightarrow> byte list" where
  "contents b = take (unat (readableBytes b)) (drop (unat (m_readerIdx b)) (m_buffer b))"

lemma buffer_inv_newBuffer [simp, keeps]: "buffer_inv (newBuffer n)"
  by (simp add: buffer_inv_def newBuffer_def kCheapPrepend_def kInitialSize_def max_object_def)

lemma contents_newBuffer [simp]: "contents (newBuffer n) = []"
  by (simp add: contents_def newBuffer_def readableBytes_def)


section \<open>The sizes of a buffer that satisfies the invariant\<close>

lemma buffer_invD:
  assumes "buffer_inv b"
  shows "8 \<le> unat (m_readerIdx b)" and "unat (m_readerIdx b) \<le> unat (m_writerIdx b)"
    and "unat (m_writerIdx b) \<le> length (m_buffer b)" and "length (m_buffer b) \<le> max_object"
  using assms by (simp_all add: buffer_inv_def)

lemma unat_readable:
  "buffer_inv b \<Longrightarrow> unat (readableBytes b) = unat (m_writerIdx b) - unat (m_readerIdx b)"
  by (simp add: readableBytes_def buffer_inv_def unat_sub_le)

lemma unat_writable:
  "buffer_inv b \<Longrightarrow> unat (writableBytes b) = length (m_buffer b) - unat (m_writerIdx b)"
  by (simp add: writableBytes_def buffer_inv_def unat_sub_le)

lemma unat_prependable: "unat (prependableBytes b) = unat (m_readerIdx b)"
  by (simp add: prependableBytes_def)

lemma unat_kCheapPrepend [simp]: "unat kCheapPrepend = 8"
  by (simp add: kCheapPrepend_def)

lemma buffer_size_bounds:
  assumes "buffer_inv b"
  shows "unat (m_readerIdx b) < 2 ^ 63" and "unat (m_writerIdx b) < 2 ^ 63"
    and "length (m_buffer b) < 2 ^ 63"
  using buffer_invD [OF assms] by (simp_all add: max_object_def)

lemma length_contents: "buffer_inv b \<Longrightarrow> length (contents b) = unat (readableBytes b)"
  using buffer_invD [of b] by (simp add: contents_def unat_readable)

lemma readable_zero_iff: "buffer_inv b \<Longrightarrow> readableBytes b = 0 \<longleftrightarrow> contents b = []"
  by (metis length_contents length_0_conv unat_eq_zero)

lemma mem_read_contents:
  "buffer_inv b \<Longrightarrow> mem_read (m_buffer b) (m_readerIdx b) (readableBytes b) = Inr (contents b)"
  using buffer_invD [of b] by (simp add: mem_read_def contents_def unat_readable)

text \<open>The contents do not depend on bytes outside the readable range.\<close>

lemma contents_eqI:
  assumes "m_readerIdx b' = m_readerIdx b" and "m_writerIdx b' = m_writerIdx b"
    and "take (unat (m_writerIdx b)) (m_buffer b') = take (unat (m_writerIdx b)) (m_buffer b)"
    and "buffer_inv b"
  shows "contents b' = contents b"
proof -
  let ?r = "unat (m_readerIdx b)" and ?w = "unat (m_writerIdx b)"
  have n: "unat (readableBytes b) = ?w - ?r" "readableBytes b' = readableBytes b"
    using assms by (simp_all add: unat_readable) (simp add: readableBytes_def)
  have "take (?w - ?r) (drop ?r xs) = drop ?r (take ?w xs)" for xs :: "byte list"
    by (simp add: drop_take)
  with assms n show ?thesis by (simp add: contents_def)
qed

section \<open>Retrieving\<close>

lemma retrieveAll_inv [simp, keeps]: "buffer_inv b \<Longrightarrow> buffer_inv (retrieveAll b)"
  by (simp add: buffer_inv_def retrieveAll_def)

lemma contents_retrieveAll [simp]: "contents (retrieveAll b) = []"
  by (simp add: contents_def retrieveAll_def readableBytes_def)

lemma retrieve_idx:
  assumes "buffer_inv b" and "len < readableBytes b"
  shows "unat (m_readerIdx b + len) = unat (m_readerIdx b) + unat len"
    and "unat (m_readerIdx b) + unat len < unat (m_writerIdx b)"
proof -
  have l: "unat len < unat (m_writerIdx b) - unat (m_readerIdx b)"
    using assms by (simp add: word_less_nat_alt unat_readable)
  then show "unat (m_readerIdx b) + unat len < unat (m_writerIdx b)" by linarith
  with buffer_size_bounds [OF assms(1)]
  show "unat (m_readerIdx b + len) = unat (m_readerIdx b) + unat len"
    by (intro unat_add_small) simp
qed

lemma retrieve_inv [simp, keeps]: "buffer_inv b \<Longrightarrow> buffer_inv (retrieve len b)"
  using buffer_invD [of b] retrieve_idx [of b len]
  by (cases "len < readableBytes b") (simp_all add: retrieve_def, simp add: buffer_inv_def)

lemma contents_retrieve:
  assumes "buffer_inv b"
  shows "contents (retrieve len b) = drop (unat len) (contents b)"
proof (cases "len < readableBytes b")
  case True
  let ?b = "b\<lparr>m_readerIdx := m_readerIdx b + len\<rparr>"
  have inv: "buffer_inv ?b" using retrieve_inv [OF assms, of len] True by (simp add: retrieve_def)
  have "unat (readableBytes ?b) = unat (m_writerIdx b) - (unat (m_readerIdx b) + unat len)"
    using unat_readable [OF inv] retrieve_idx [OF assms True] by simp
  with True show ?thesis
    using retrieve_idx [OF assms True]
    by (simp add: retrieve_def contents_def unat_readable [OF assms] drop_take add.commute)
next
  case False
  then have "length (contents b) \<le> unat len"
    using assms by (simp add: length_contents word_le_nat_alt not_less)
  with False show ?thesis by (simp add: retrieve_def)
qed

lemma retrieveAsString_ok:
  assumes "buffer_inv b" and "unat len \<le> unat (readableBytes b)"
  shows "retrieveAsString len b = Inr (take (unat len) (contents b), retrieve len b)"
  using assms buffer_invD [OF assms(1)]
  by (simp add: retrieveAsString_def mem_read_def contents_def unat_readable min_absorb1)

lemma retrieveAllAsString_ok:
  assumes "buffer_inv b"
  shows "retrieveAllAsString b = Inr (contents b, retrieveAll b)"
  using retrieveAsString_ok [OF assms, of "readableBytes b"] length_contents [OF assms]
  by (simp add: retrieveAllAsString_def retrieve_def)

section \<open>Making space and appending\<close>

text \<open>When an append of \<open>len\<close> bytes succeeds: there is room, room can be made by moving the
  contents to the front, or the vector may grow.\<close>

definition fits :: "nat \<Rightarrow> buffer \<Rightarrow> bool" where
  "fits len b \<longleftrightarrow>
     len \<le> unat (writableBytes b) \<or>
     len + 8 \<le> unat (writableBytes b) + unat (prependableBytes b) \<or>
     unat (m_writerIdx b) + len \<le> max_object"

lemma space_sum:
  assumes "buffer_inv b"
  shows "unat (writableBytes b + prependableBytes b)
           = unat (writableBytes b) + unat (prependableBytes b)"
  using buffer_invD [OF assms] buffer_size_bounds [OF assms]
  by (intro unat_add_small) (simp add: unat_writable [OF assms] unat_prependable)

lemma unat_len_prepend: "unat len \<le> max_object \<Longrightarrow> unat (len + kCheapPrepend) = unat len + 8"
  using max_object_less [of "unat len"] by (subst unat_add_small) simp_all

lemma makeSpace_branch:
  assumes "buffer_inv b" and "unat len \<le> max_object"
  shows "writableBytes b + prependableBytes b < len + kCheapPrepend \<longleftrightarrow>
         unat (writableBytes b) + unat (prependableBytes b) < unat len + 8"
  using assms by (simp add: word_less_nat_alt space_sum unat_len_prepend)

lemma unat_writer_len:
  assumes "buffer_inv b" and "unat len \<le> max_object"
  shows "unat (m_writerIdx b + len) = unat (m_writerIdx b) + unat len"
  using buffer_size_bounds [OF assms(1)] max_object_less [OF assms(2)]
  by (intro unat_add_small) simp

lemma makeSpace_grow:
  assumes inv: "buffer_inv b" and len: "unat len \<le> max_object"
    and branch: "unat (writableBytes b) + unat (prependableBytes b) < unat len + 8"
    and room: "unat (m_writerIdx b) + unat len \<le> max_object"
  shows "makeSpace len b =
    Inr (b\<lparr>m_buffer := m_buffer b @
             replicate (unat (m_writerIdx b) + unat len - length (m_buffer b)) 0\<rparr>)"
proof -
  have "length (m_buffer b) < unat (m_writerIdx b) + unat len"
    using branch buffer_invD [OF inv] by (simp add: unat_writable [OF inv] unat_prependable)
  then show ?thesis
    using assms by (simp add: makeSpace_def makeSpace_branch vec_resize_def unat_writer_len)
qed

lemma makeSpace_too_long:
  assumes "buffer_inv b" and "unat len \<le> max_object"
    and "unat (writableBytes b) + unat (prependableBytes b) < unat len + 8"
    and "max_object < unat (m_writerIdx b) + unat len"
  shows "makeSpace len b = Inl LengthError"
  using assms by (simp add: makeSpace_def makeSpace_branch vec_resize_def unat_writer_len)

lemma makeSpace_compact:
  assumes inv: "buffer_inv b" and len: "unat len \<le> max_object"
    and branch: "unat len + 8 \<le> unat (writableBytes b) + unat (prependableBytes b)"
  shows "makeSpace len b =
    Inr (b\<lparr>m_buffer := take 8 (m_buffer b) @ contents b
                         @ drop (8 + length (contents b)) (m_buffer b),
           m_readerIdx := kCheapPrepend, m_writerIdx := kCheapPrepend + readableBytes b\<rparr>)"
proof -
  have "8 + length (contents b) \<le> length (m_buffer b)"
    using buffer_invD [OF inv] by (simp add: length_contents [OF inv] unat_readable [OF inv])
  then show ?thesis
    using assms
    by (simp add: makeSpace_def makeSpace_branch not_less mem_read_contents mem_write_def Let_def)
qed


lemma ensureWritable_ok:
  assumes inv: "buffer_inv b" and len: "unat len \<le> max_object" and fits: "fits (unat len) b"
  shows "\<exists>b'. ensureWritableBytes len b = Inr b' \<and> buffer_inv b' \<and> contents b' = contents b \<and>
              unat (m_writerIdx b') + unat len \<le> length (m_buffer b') \<and>
              length (m_buffer b) \<le> length (m_buffer b')"
proof (cases "unat len \<le> unat (writableBytes b)")
  case True
  then show ?thesis using inv buffer_invD [OF inv]
    by (simp add: ensureWritableBytes_def word_less_nat_alt not_less unat_writable)
next
  case no_room: False
  then have call: "ensureWritableBytes len b = makeSpace len b"
    by (simp add: ensureWritableBytes_def word_less_nat_alt)
  show ?thesis
  proof (cases "unat len + 8 \<le> unat (writableBytes b) + unat (prependableBytes b)")
    case True
    let ?b = "b\<lparr>m_buffer := take 8 (m_buffer b) @ contents b
                         @ drop (8 + length (contents b)) (m_buffer b),
           m_readerIdx := kCheapPrepend, m_writerIdx := kCheapPrepend + readableBytes b\<rparr>"
    have r: "unat (readableBytes b) + 8 \<le> length (m_buffer b)"
      using buffer_invD [OF inv] by (simp add: unat_readable [OF inv])
    then have w: "unat (kCheapPrepend + readableBytes b) = 8 + unat (readableBytes b)"
      using buffer_size_bounds [OF inv] by (subst unat_add_small) simp_all
    have inv': "buffer_inv ?b"
      using r w buffer_invD [OF inv] by (simp add: buffer_inv_def length_contents [OF inv])
    have rb: "readableBytes (b\<lparr>m_buffer := v, m_readerIdx := i, m_writerIdx := i + n\<rparr>) = n"
      for v i n by (simp add: readableBytes_def)
    have "contents ?b = contents b"
      using r by (subst contents_def) (simp add: rb length_contents [OF inv])
    moreover have "8 + unat (readableBytes b) + unat len \<le> length (m_buffer b)"
      using True buffer_invD [OF inv] r
      by (simp add: unat_writable [OF inv] unat_prependable unat_readable [OF inv])
    ultimately show ?thesis
      using makeSpace_compact [OF inv len True] call inv' w r by (simp add: length_contents [OF inv])
  next
    case False
    then have branch: "unat (writableBytes b) + unat (prependableBytes b) < unat len + 8" by simp
    have room: "unat (m_writerIdx b) + unat len \<le> max_object"
      using fits no_room False by (simp add: fits_def)
    let ?b = "b\<lparr>m_buffer := m_buffer b @
             replicate (unat (m_writerIdx b) + unat len - length (m_buffer b)) 0\<rparr>"
    have "buffer_inv ?b"
      using buffer_invD [OF inv] room by (simp add: buffer_inv_def)
    moreover have "contents ?b = contents b"
      using buffer_invD [OF inv] by (intro contents_eqI [OF _ _ _ inv]) simp_all
    ultimately show ?thesis
      using makeSpace_grow [OF inv len branch room] call by simp
  qed
qed

lemma ensureWritable_too_long:
  assumes inv: "buffer_inv b" and len: "unat len \<le> max_object" and full: "\<not> fits (unat len) b"
  shows "ensureWritableBytes len b = Inl LengthError"
  using assms makeSpace_too_long [OF inv len]
  by (simp add: ensureWritableBytes_def fits_def word_less_nat_alt)

text \<open>Writing past the writer index and advancing it extends the contents.\<close>

lemma write_at_writer:
  assumes inv: "buffer_inv b" and room: "unat (m_writerIdx b) + length xs \<le> length (m_buffer b)"
  defines "w \<equiv> unat (m_writerIdx b)"
  defines "v \<equiv> take w (m_buffer b) @ xs @ drop (w + length xs) (m_buffer b)"
  defines "b' \<equiv> hasWritten (of_nat (length xs)) (b\<lparr>m_buffer := v\<rparr>)"
  shows "mem_write (m_buffer b) (m_writerIdx b) xs = Inr v" and "buffer_inv b'"
    and "contents b' = contents b @ xs" and "length (m_buffer b') = length (m_buffer b)"
proof -
  show "mem_write (m_buffer b) (m_writerIdx b) xs = Inr v"
    using room by (simp add: mem_write_def v_def w_def)
  have len: "length xs \<le> max_object" using room buffer_invD [OF inv] by linarith
  have w': "unat (m_writerIdx b') = w + length xs"
    using unat_writer_len [OF inv, of "of_nat (length xs)"] len
    by (simp add: b'_def hasWritten_def w_def)
  have fields: "m_buffer b' = v" "m_readerIdx b' = m_readerIdx b"
    by (simp_all add: b'_def hasWritten_def)
  have lv: "length v = length (m_buffer b)" using room by (simp add: v_def w_def)
  show inv': "buffer_inv b'"
    using buffer_invD [OF inv] room by (simp add: buffer_inv_def w' fields lv w_def)
  show "length (m_buffer b') = length (m_buffer b)" by (simp add: fields lv)
  have "take (w + length xs - unat (m_readerIdx b)) (drop (unat (m_readerIdx b)) v)
      = take (w - unat (m_readerIdx b)) (drop (unat (m_readerIdx b)) (m_buffer b)) @ xs"
    using buffer_invD [OF inv] room by (simp add: v_def w_def drop_take [symmetric] take_drop)
  then show "contents b' = contents b @ xs"
    by (simp add: contents_def unat_readable [OF inv] unat_readable [OF inv'] w' fields
        w_def [symmetric])
qed

lemma append_ok:
  assumes inv: "buffer_inv b" and obj: "length obj \<le> max_object"
    and range: "unat off + unat len \<le> length obj" and fits: "fits (unat len) b"
  shows "\<exists>b'. append_data obj off len b = Inr b' \<and> buffer_inv b' \<and>
              contents b' = contents b @ take (unat len) (drop (unat off) obj) \<and>
              length (m_buffer b) \<le> length (m_buffer b')"
proof -
  have len: "unat len \<le> max_object" using obj range by linarith
  from ensureWritable_ok [OF inv len fits] obtain b1 where b1:
    "ensureWritableBytes len b = Inr b1" "buffer_inv b1" "contents b1 = contents b"
    "unat (m_writerIdx b1) + unat len \<le> length (m_buffer b1)"
    "length (m_buffer b) \<le> length (m_buffer b1)" by blast
  let ?xs = "take (unat len) (drop (unat off) obj)"
  have n: "length ?xs = unat len" using range by simp
  then have l: "of_nat (length ?xs) = len" by simp
  have room: "unat (m_writerIdx b1) + length ?xs \<le> length (m_buffer b1)" using b1(4) n by simp
  show ?thesis
    using write_at_writer [OF b1(2) room] b1 range
    by (simp add: append_data_def mem_read_def l n)
qed

lemma append_too_long:
  assumes "buffer_inv b" and "length obj \<le> max_object"
    and "unat off + unat len \<le> length obj" and "\<not> fits (unat len) b"
  shows "append_data obj off len b = Inl LengthError"
  using assms by (simp add: append_data_def ensureWritable_too_long)

lemma appendStr_ok:
  assumes "buffer_inv b" and "length s \<le> max_object" and "fits (length s) b"
  shows "\<exists>b'. appendStr s b = Inr b' \<and> buffer_inv b' \<and> contents b' = contents b @ s"
  using append_ok [OF assms(1,2), of 0 "of_nat (length s)"] assms(2,3)
  by (auto simp: appendStr_def)


section \<open>Reading from a descriptor\<close>

lemma readFd_iov_sum:
  assumes "buffer_inv b"
  shows "sum_list (map unat (readFd_iov b)) =
    (if unat (writableBytes b) < extrabuf_size then unat (writableBytes b) + extrabuf_size
     else unat (writableBytes b))"
  by (simp add: readFd_iov_def word_less_nat_alt extrabuf_size_def)

lemma readFd_fits_vector:
  assumes inv: "buffer_inv b" and rd: "readv (readFd_iov b) k = ((n, d, e), k')"
    and n: "unat n = length d" and small: "n < writableBytes b"
  shows "\<exists>b'. readFd readv se k b = Inr (n, se, b', k') \<and> buffer_inv b' \<and>
              contents b' = contents b @ d"
proof -
  have l: "length d < unat (writableBytes b)" using small n by (simp add: word_less_nat_alt)
  then have room: "unat (m_writerIdx b) + length d \<le> length (m_buffer b)"
    using buffer_invD [OF inv] by (simp add: unat_writable [OF inv])
  from n have "n = of_nat (length d)" by (simp flip: n)
  then show ?thesis
    using write_at_writer [OF inv room] l small rd
    by (simp add: readFd_def Let_def take_all_iff less_imp_le)
qed

lemma readFd_overflows_vector:
  assumes inv: "buffer_inv b" and rd: "readv (readFd_iov b) k = ((n, d, e), k')"
    and n: "unat n = length d" and iov: "length d \<le> sum_list (map unat (readFd_iov b))"
    and big: "\<not> n < writableBytes b"
    and room: "length (m_buffer b) + extrabuf_size \<le> max_object"
  shows "\<exists>b'. readFd readv se k b = Inr (n, se, b', k') \<and> buffer_inv b' \<and>
              contents b' = contents b @ d"
proof -
  let ?w = "unat (writableBytes b)"
  let ?xs = "take ?w d" and ?ys = "drop ?w d"
  have ge: "?w \<le> length d" using big n by (simp add: word_less_nat_alt)
  then have lx: "length ?xs = ?w" by simp
  have r0: "unat (m_writerIdx b) + length ?xs \<le> length (m_buffer b)"
    using buffer_invD [OF inv] ge by (simp add: unat_writable [OF inv])
  define v where "v = take (unat (m_writerIdx b)) (m_buffer b) @ ?xs
                        @ drop (unat (m_writerIdx b) + length ?xs) (m_buffer b)"
  define b1 where "b1 = hasWritten (of_nat (length ?xs)) (b\<lparr>m_buffer := v\<rparr>)"
  have w1: "mem_write (m_buffer b) (m_writerIdx b) ?xs = Inr v"
    and i1: "buffer_inv b1" and c1: "contents b1 = contents b @ ?xs"
    and l1: "length (m_buffer b1) = length (m_buffer b)"
    using write_at_writer [OF inv r0] by (simp_all add: v_def b1_def)
  have lv: "length v = length (m_buffer b)" using l1 by (simp add: b1_def hasWritten_def)
  have b1_eq: "b\<lparr>m_buffer := v, m_writerIdx := of_nat (length v)\<rparr> = b1"
    unfolding b1_def hasWritten_def lx
    by (simp add: lv writableBytes_def)
  have ly: "length ?ys \<le> extrabuf_size"
    using iov readFd_iov_sum [OF inv] ge by (simp split: if_splits)
  define extra where "extra = ?ys @ replicate (extrabuf_size - length ?ys) 0"
  have le: "length extra = extrabuf_size" using ly by (simp add: extra_def)
  have ex: "drop ?w d @ replicate (extrabuf_size - (length d - ?w)) 0 = extra"
    by (simp add: extra_def)
  have un: "unat (n - writableBytes b) = length ?ys"
    using ge n by (simp add: unat_sub_le)
  have fits: "fits (unat (n - writableBytes b)) b1"
    using room ly buffer_invD [OF i1] l1 by (simp add: fits_def un)
  obtain b2 where b2: "append_data extra 0 (n - writableBytes b) b1 = Inr b2" "buffer_inv b2"
      "contents b2 = contents b1 @ take (length ?ys) extra"
    using append_ok [OF i1, of extra 0 "n - writableBytes b"] fits ly le un
    by (auto simp: extrabuf_size_def max_object_def)
  have tk: "take extrabuf_size ?ys = ?ys" using ly by simp
  have "readFd readv se k b = Inr (n, se, b2, k')"
    using rd w1 big b2(1)
    by (simp add: readFd_def Let_def b1_eq ex tk)
  moreover have "contents b2 = contents b @ d"
    using b2(3) c1 by (simp add: extra_def)
  ultimately show ?thesis using b2(2) by blast
qed

lemma readFd_minus_one:
  assumes inv: "buffer_inv b" and rd: "readv (readFd_iov b) k = ((-1, [], e), k')"
  shows "readFd readv se k b = Inl OutOfBounds"
proof -
  let ?b = "b\<lparr>m_writerIdx := vsize b\<rparr>" and ?len = "- 1 - writableBytes b"
  have w: "mem_write (m_buffer b) (m_writerIdx b) [] = Inr (m_buffer b)"
    using buffer_invD [OF inv] by (simp add: mem_write_def)
  have inv': "buffer_inv ?b" using inv by (simp add: buffer_inv_def)
  have wr: "unat (writableBytes b) < 2 ^ 63"
    using buffer_size_bounds [OF inv] by (simp add: unat_writable [OF inv])
  then have len: "2 ^ 63 \<le> unat ?len"
    by (subst unat_sub_le) (simp_all add: unsigned_minus_1_eq_mask mask_eq_exp_minus_1)
  have big: "\<not> (-1 :: size_t) < writableBytes b" by (simp add: word_not_simps)
  have sum: "vsize b + ?len = m_writerIdx b - 1" by (simp add: writableBytes_def)
  have m1: "unat (vsize b + ?len) \<le> max_object"
    unfolding sum using buffer_invD [OF inv] by (subst unat_sub_le) simp_all
  have rd8: "8 + unat (readableBytes ?b) \<le> length (m_buffer b)"
    using buffer_invD [OF inv'] by (simp add: unat_readable [OF inv'])
  have "\<exists>b1. makeSpace ?len ?b = Inr b1"
    using m1 mem_read_contents [OF inv'] rd8
    by (simp add: makeSpace_def vec_resize_def Let_def mem_write_def length_contents [OF inv'])
  then have "\<exists>b1. ensureWritableBytes ?len ?b = Inr b1"
    by (simp add: ensureWritableBytes_def)
  then obtain b1 where b1: "ensureWritableBytes ?len ?b = Inr b1" ..
  have "mem_read (replicate extrabuf_size 0) 0 ?len = Inl OutOfBounds"
    using len by (simp add: mem_read_def extrabuf_size_def)
  with b1 w rd big show ?thesis
    by (simp add: readFd_def Let_def append_data_def)
qed

section \<open>The buffer as a queue of bytes\<close>

text \<open>
  What a client of the buffer relies on: \<open>put\<close> appends a part of an object when there is room,
  \<open>discard\<close> drops bytes from the front. Its lemmas are the two steps of an output stream: the bytes
  already sent followed by the bytes queued grow by what is put, and do not change when sent bytes
  are discarded.
\<close>

locale byte_queue =
  fixes inv :: "'q \<Rightarrow> bool"
    and bytes :: "'q \<Rightarrow> byte list"
    and room :: "nat \<Rightarrow> 'q \<Rightarrow> bool"
    and put :: "byte list \<Rightarrow> size_t \<Rightarrow> size_t \<Rightarrow> 'q \<Rightarrow> 'q res"
    and discard :: "size_t \<Rightarrow> 'q \<Rightarrow> 'q"
  assumes put_bytes: "inv q \<Longrightarrow> length obj \<le> max_object \<Longrightarrow> unat off + unat len \<le> length obj
      \<Longrightarrow> room (unat len) q
      \<Longrightarrow> \<exists>q'. put obj off len q = Inr q' \<and> inv q' \<and>
               bytes q' = bytes q @ take (unat len) (drop (unat off) obj)"
    and discard_inv: "inv q \<Longrightarrow> inv (discard n q)"
    and discard_bytes: "inv q \<Longrightarrow> bytes (discard n q) = drop (unat n) (bytes q)"
begin

lemma put_stream:
  assumes "inv q" and "length obj \<le> max_object" and "unat off + unat len = length obj"
    and "room (unat len) q" and "put obj off len q = Inr q'"
  shows "inv q'" and "sent @ bytes q' = (sent @ bytes q) @ drop (unat off) obj"
  using put_bytes [of q obj off len] assms by auto

lemma discard_stream:
  assumes "inv q" and "unat n \<le> length (bytes q)"
  shows "(sent @ take (unat n) (bytes q)) @ bytes (discard n q) = sent @ bytes q"
  using discard_bytes [OF assms(1)] by simp

lemma discard_all: "inv q \<Longrightarrow> unat n = length (bytes q) \<Longrightarrow> bytes (discard n q) = []"
  by (simp add: discard_bytes)

end

interpretation outq: byte_queue buffer_inv contents fits append_data retrieve
proof
  fix q :: buffer and obj :: "byte list" and off len :: size_t
  assume "buffer_inv q" "length obj \<le> max_object" "unat off + unat len \<le> length obj"
    "fits (unat len) q"
  then show "\<exists>q'. append_data obj off len q = Inr q' \<and> buffer_inv q' \<and>
               contents q' = contents q @ take (unat len) (drop (unat off) obj)"
    using append_ok [of q obj off len] by blast
qed (simp_all add: contents_retrieve)

end
