(* ===== verification/Channel.thy ===== *)
theory Channel
  imports Kernel
begin

text \<open>
  \<open>src/src/Channel.h\<close> and \<open>Channel.cpp\<close>: a channel binds a descriptor to the events its loop
  watches it for and to the callbacks to run. Callbacks are the values the code binds into
  \<open>std::function\<close>; what running one does is a parameter of \<open>handleEvent\<close>. The operations that end
  in \<open>loop_->updateChannel(this)\<close> are in the theory Poller, with the poller they call.
\<close>

section \<open>Callbacks and state\<close>

text \<open>The targets bound by \<open>setReadCallback\<close> and its kin in EventLoop, Acceptor, TcpConnection.\<close>

datatype chan_cb =
    WakeupHandleRead loop_ptr
  | AcceptorHandleRead
  | ConnHandleRead conn_ptr
  | ConnHandleWrite conn_ptr
  | ConnHandleClose conn_ptr
  | ConnHandleError conn_ptr

record channel =
  chan_loop :: loop_ptr
  m_fd :: fd
  m_events :: u32
  m_revents :: u32
  m_index :: int
  m_tie :: "conn_ptr option"
  m_tied :: bool
  m_readCallback :: "chan_cb option"
  m_writeCallback :: "chan_cb option"
  m_closeCallback :: "chan_cb option"
  m_errorCallback :: "chan_cb option"

record chan_world =
  chans :: "chan_ptr \<rightharpoonup> channel"

definition kNoneEvent :: u32 where "kNoneEvent = 0"
definition kReadEvent :: u32 where "kReadEvent = EPOLLIN OR EPOLLPRI"
definition kWriteEvent :: u32 where "kWriteEvent = EPOLLOUT"

lemmas event_masks = kNoneEvent_def kReadEvent_def kWriteEvent_def

definition newChannel :: "loop_ptr \<Rightarrow> fd \<Rightarrow> channel" where
  "newChannel loop f =
     \<lparr>chan_loop = loop, m_fd = f, m_events = 0, m_revents = 0, m_index = -1,
      m_tie = None, m_tied = False,
      m_readCallback = None, m_writeCallback = None, m_closeCallback = None,
      m_errorCallback = None\<rparr>"

definition tie :: "conn_ptr \<Rightarrow> channel \<Rightarrow> channel" where
  "tie obj ch = ch\<lparr>m_tie := Some obj, m_tied := True\<rparr>"

definition isNoneEvent :: "channel \<Rightarrow> bool" where
  "isNoneEvent ch \<longleftrightarrow> m_events ch = kNoneEvent"

definition isWriting :: "channel \<Rightarrow> bool" where
  "isWriting ch \<longleftrightarrow> m_events ch AND kWriteEvent \<noteq> 0"

definition isReading :: "channel \<Rightarrow> bool" where
  "isReading ch \<longleftrightarrow> m_events ch AND kReadEvent \<noteq> 0"

text \<open>Updating the object a pointer designates.\<close>

definition modify_chan ::
    "chan_ptr \<Rightarrow> (channel \<Rightarrow> channel) \<Rightarrow> 'a chan_world_scheme \<Rightarrow> 'a chan_world_scheme" where
  "modify_chan c f w = w\<lparr>chans := (chans w)(c := map_option f (chans w c))\<rparr>"

section \<open>Event dispatch\<close>

type_synonym 'w run_cb = "chan_cb \<Rightarrow> timestamp \<Rightarrow> 'w \<Rightarrow> 'w res"

text \<open>One \<open>if(m_revents & ...) if(callback) callback();\<close>: the fields are read when it is reached.\<close>

definition dispatch ::
    "'a chan_world_scheme run_cb \<Rightarrow> (u32 \<Rightarrow> bool) \<Rightarrow> (channel \<Rightarrow> chan_cb option) \<Rightarrow> chan_ptr
     \<Rightarrow> timestamp \<Rightarrow> 'a chan_world_scheme \<Rightarrow> 'a chan_world_scheme res" where
  "dispatch run cond cb c t w =
     bindR (deref (chans w) c) (\<lambda>ch.
       if cond (m_revents ch)
       then (case cb ch of None \<Rightarrow> Inr w | Some f \<Rightarrow> run f t w)
       else Inr w)"

definition closeCond :: "u32 \<Rightarrow> bool" where
  "closeCond r \<longleftrightarrow> r AND EPOLLHUP \<noteq> 0 \<and> \<not> r AND EPOLLIN \<noteq> 0"

definition errorCond :: "u32 \<Rightarrow> bool" where
  "errorCond r \<longleftrightarrow> r AND EPOLLERR \<noteq> 0"

definition readCond :: "u32 \<Rightarrow> bool" where
  "readCond r \<longleftrightarrow> r AND (EPOLLIN OR EPOLLPRI) \<noteq> 0"

definition writeCond :: "u32 \<Rightarrow> bool" where
  "writeCond r \<longleftrightarrow> r AND EPOLLOUT \<noteq> 0"

definition handelEventWithGuard ::
    "'a chan_world_scheme run_cb \<Rightarrow> chan_ptr \<Rightarrow> timestamp \<Rightarrow> 'a chan_world_scheme
     \<Rightarrow> 'a chan_world_scheme res" where
  "handelEventWithGuard run c t w =
     bindR (dispatch run closeCond m_closeCallback c t w) (\<lambda>w.
     bindR (dispatch run errorCond m_errorCallback c t w) (\<lambda>w.
     bindR (dispatch run readCond m_readCallback c t w) (\<lambda>w.
            dispatch run writeCond m_writeCallback c t w)))"

text \<open>
  \<open>m_tie.lock()\<close> succeeds as long as somebody owns the connection: \<open>owned\<close> is a parameter, defined
  where the owners are (theory TcpServer).
\<close>

definition handleEvent ::
    "(conn_ptr \<Rightarrow> 'a chan_world_scheme \<Rightarrow> bool) \<Rightarrow> 'a chan_world_scheme run_cb \<Rightarrow> chan_ptr
     \<Rightarrow> timestamp \<Rightarrow> 'a chan_world_scheme \<Rightarrow> 'a chan_world_scheme res" where
  "handleEvent owned run c t w =
     bindR (deref (chans w) c) (\<lambda>ch.
       if m_tied ch
       then (case m_tie ch of
               Some obj \<Rightarrow> if owned obj w then handelEventWithGuard run c t w else Inr w
             | None \<Rightarrow> Inr w)
       else handelEventWithGuard run c t w)"

section \<open>Facts\<close>

lemma kReadEvent_val: "kReadEvent = 3"
  by (simp add: kReadEvent_def epoll_bits)

lemma kWriteEvent_val: "kWriteEvent = 4"
  by (simp add: kWriteEvent_def epoll_bits)

lemma chans_modify_chan [simp]:
  "chans (modify_chan c f w) = (chans w)(c := map_option f (chans w c))"
  by (simp add: modify_chan_def)

lemma more_modify_chan [simp]: "chan_world.more (modify_chan c f w) = chan_world.more w"
  by (simp add: modify_chan_def)

lemma isWriting_newChannel [simp]: "\<not> isWriting (newChannel l f)"
  by (simp add: isWriting_def newChannel_def)

lemma isNone_not_writing: "isNoneEvent ch \<Longrightarrow> \<not> isWriting ch \<and> \<not> isReading ch"
  by (simp add: isNoneEvent_def isWriting_def isReading_def kNoneEvent_def)

text \<open>
  The callbacks a readiness mask selects, in the order the code calls them, as a specification of
  the four tests.
\<close>

definition pick :: "bool \<Rightarrow> 'f option \<Rightarrow> 'f list" where
  "pick cond cb = (if cond then (case cb of None \<Rightarrow> [] | Some f \<Rightarrow> [f]) else [])"

definition selected :: "channel \<Rightarrow> chan_cb list" where
  "selected ch =
     pick (closeCond (m_revents ch)) (m_closeCallback ch) @
     pick (errorCond (m_revents ch)) (m_errorCallback ch) @
     pick (readCond (m_revents ch)) (m_readCallback ch) @
     pick (writeCond (m_revents ch)) (m_writeCallback ch)"

fun run_all :: "'w run_cb \<Rightarrow> timestamp \<Rightarrow> chan_cb list \<Rightarrow> 'w \<Rightarrow> 'w res" where
  "run_all run t [] w = Inr w"
| "run_all run t (f # fs) w = bindR (run f t w) (run_all run t fs)"

text \<open>A callback runner that leaves the dispatch fields of a channel alone.\<close>

definition same_dispatch :: "channel \<Rightarrow> channel \<Rightarrow> bool" where
  "same_dispatch ch ch' \<longleftrightarrow>
     m_revents ch' = m_revents ch \<and> m_closeCallback ch' = m_closeCallback ch \<and>
     m_errorCallback ch' = m_errorCallback ch \<and> m_readCallback ch' = m_readCallback ch \<and>
     m_writeCallback ch' = m_writeCallback ch"

definition keeps_dispatch :: "'a chan_world_scheme run_cb \<Rightarrow> chan_ptr \<Rightarrow> bool" where
  "keeps_dispatch run c \<longleftrightarrow>
     (\<forall>f t w w' ch. run f t w = Inr w' \<longrightarrow> chans w c = Some ch \<longrightarrow>
        (\<exists>ch'. chans w' c = Some ch' \<and> same_dispatch ch ch'))"

lemma same_dispatch_refl [simp]: "same_dispatch ch ch"
  by (simp add: same_dispatch_def)

lemma same_dispatch_trans:
  "same_dispatch a b \<Longrightarrow> same_dispatch b c \<Longrightarrow> same_dispatch a c"
  by (simp add: same_dispatch_def)

lemma keeps_dispatchD:
  "keeps_dispatch run c \<Longrightarrow> run f t w = Inr w' \<Longrightarrow> chans w c = Some ch \<Longrightarrow>
   \<exists>ch'. chans w' c = Some ch' \<and> same_dispatch ch ch'"
  unfolding keeps_dispatch_def by blast

lemma dispatch_step:
  assumes keep: "keeps_dispatch run c"
    and ch: "chans w c = Some ch0" "same_dispatch ch ch0"
    and cb: "cb ch0 = cb ch"
    and rest: "\<And>w' ch'. chans w' c = Some ch' \<Longrightarrow> same_dispatch ch ch' \<Longrightarrow> g w' = run_all run t fs w'"
  shows "bindR (dispatch run cond cb c t w) g =
    run_all run t (pick (cond (m_revents ch)) (cb ch) @ fs) w"
proof (cases "pick (cond (m_revents ch)) (cb ch)")
  case Nil
  then have "dispatch run cond cb c t w = Inr w"
    using ch cb by (auto simp: pick_def dispatch_def same_dispatch_def split: if_splits option.splits)
  with Nil show ?thesis using rest [OF ch] by simp
next
  case (Cons f fs')
  then have d: "dispatch run cond cb c t w = run f t w" and nil: "fs' = []"
    using ch cb by (auto simp: pick_def dispatch_def same_dispatch_def split: if_splits option.splits)
  have "g w' = run_all run t fs w'" if r: "run f t w = Inr w'" for w'
  proof -
    from keeps_dispatchD [OF keep r ch(1)] obtain ch' where
      "chans w' c = Some ch'" "same_dispatch ch0 ch'" by blast
    with ch(2) show ?thesis using rest same_dispatch_trans by blast
  qed
  then have "bindR (run f t w) g = bindR (run f t w) (run_all run t fs)"
    by (cases "run f t w") simp_all
  with d nil Cons show ?thesis by simp
qed

lemma handelEventWithGuard_selected:
  assumes "keeps_dispatch run c" and "chans w c = Some ch"
  shows "handelEventWithGuard run c t w = run_all run t (selected ch) w"
proof -
  note step = dispatch_step [OF assms(1), where ch = ch]
  have same: "m_closeCallback ch' = m_closeCallback ch" "m_errorCallback ch' = m_errorCallback ch"
    "m_readCallback ch' = m_readCallback ch" "m_writeCallback ch' = m_writeCallback ch"
    if "same_dispatch ch ch'" for ch'
    using that by (simp_all add: same_dispatch_def)
  have w4: "dispatch run writeCond m_writeCallback c t w' =
      run_all run t (pick (writeCond (m_revents ch)) (m_writeCallback ch)) w'"
    if "chans w' c = Some ch'" "same_dispatch ch ch'" for w' ch'
  proof -
    have "bindR (dispatch run writeCond m_writeCallback c t w') Inr =
        run_all run t (pick (writeCond (m_revents ch)) (m_writeCallback ch) @ []) w'"
      by (rule step [OF that same(4) [OF that(2)]]) simp
    then show ?thesis by simp
  qed
  have w3: "bindR (dispatch run readCond m_readCallback c t w')
        (\<lambda>w. dispatch run writeCond m_writeCallback c t w) =
      run_all run t (pick (readCond (m_revents ch)) (m_readCallback ch) @
        pick (writeCond (m_revents ch)) (m_writeCallback ch)) w'"
    if "chans w' c = Some ch'" "same_dispatch ch ch'" for w' ch'
    by (rule step [OF that same(3) [OF that(2)] w4])
  have w2: "bindR (dispatch run errorCond m_errorCallback c t w') (\<lambda>w.
        bindR (dispatch run readCond m_readCallback c t w)
        (\<lambda>w. dispatch run writeCond m_writeCallback c t w)) =
      run_all run t (pick (errorCond (m_revents ch)) (m_errorCallback ch) @
        pick (readCond (m_revents ch)) (m_readCallback ch) @
        pick (writeCond (m_revents ch)) (m_writeCallback ch)) w'"
    if "chans w' c = Some ch'" "same_dispatch ch ch'" for w' ch'
    by (rule step [OF that same(2) [OF that(2)] w3])
  show ?thesis
    unfolding handelEventWithGuard_def selected_def
    by (rule step [OF assms(2) same_dispatch_refl refl w2])
qed

end
