(* ===== verification/Poller.thy ===== *)
theory Poller
  imports Channel
begin

text \<open>
  \<open>src/src/Poller.h\<close>, \<open>Poller.cpp\<close>, \<open>DefaultPoller.cpp\<close>, \<open>EpollPoller.h\<close> and \<open>EpollPoller.cpp\<close>,
  with the operations of \<open>Channel.cpp\<close> that call them through \<open>EventLoop::updateChannel\<close> and
  \<open>EventLoop::removeChannel\<close>. A poller keeps a map from descriptors to channels and the kernel's
  interest list; \<open>interest\<close> computes the second from the first, and \<open>poller_inv\<close> says that the
  kernel agrees. The locale \<open>interest_set\<close> is what channels rely on.
\<close>

section \<open>State\<close>

record poller =
  m_epfd :: fd
  m_evlist :: "epoll_event list"
  m_channels :: "fd \<rightharpoonup> chan_ptr"

text \<open>\<open>pollers w L\<close> is the \<open>m_poller\<close> of the loop \<open>L\<close>, \<open>None\<close> for a null pointer.\<close>

record 'k poll_world = chan_world +
  kst :: 'k
  pollers :: "loop_ptr \<rightharpoonup> poller"

definition kNew :: int where "kNew = -1"
definition kAdded :: int where "kAdded = 1"
definition kDeleted :: int where "kDeleted = 2"

lemmas chan_index = kNew_def kAdded_def kDeleted_def

definition kInitEventListSize :: nat where "kInitEventListSize = 16"

definition the_poller :: "('k, 'a) poll_world_scheme \<Rightarrow> loop_ptr \<Rightarrow> poller res" where
  "the_poller w L = (case pollers w L of None \<Rightarrow> Inl NullDeref | Some p \<Rightarrow> Inr p)"

section \<open>Construction\<close>

definition newEpollPoller ::
    "'k kernel \<Rightarrow> ('k, 'a) poll_world_scheme \<Rightarrow> (poller \<times> ('k, 'a) poll_world_scheme) res" where
  "newEpollPoller K w =
     (case sys_epoll_create1 K (kst w) of ((epfd, _), k') \<Rightarrow>
        if epfd < 0 then Inl Aborted
        else Inr (\<lparr>m_epfd = epfd, m_evlist = replicate kInitEventListSize (0, 0),
                   m_channels = Map.empty\<rparr>, w\<lparr>kst := k'\<rparr>))"

text \<open>\<open>Poller::newDefaultPoller\<close>; \<open>use_poll\<close> says whether \<open>MUDUO_USE_POLL\<close> is in the environment.\<close>

definition newDefaultPoller ::
    "'k kernel \<Rightarrow> bool \<Rightarrow> ('k, 'a) poll_world_scheme
     \<Rightarrow> (poller option \<times> ('k, 'a) poll_world_scheme) res" where
  "newDefaultPoller K use_poll w =
     (if use_poll then Inr (None, w)
      else bindR (newEpollPoller K w) (\<lambda>(p, w'). Inr (Some p, w')))"

definition hasChannel :: "loop_ptr \<Rightarrow> chan_ptr \<Rightarrow> ('k, 'a) poll_world_scheme \<Rightarrow> bool res" where
  "hasChannel L c w =
     bindR (the_poller w L) (\<lambda>p.
     bindR (deref (chans w) c) (\<lambda>ch.
       Inr (m_channels p (m_fd ch) = Some c)))"

section \<open>Updating the interest list\<close>

definition epoll_update ::
    "'k kernel \<Rightarrow> ctl_op \<Rightarrow> loop_ptr \<Rightarrow> chan_ptr \<Rightarrow> ('k, 'a) poll_world_scheme
     \<Rightarrow> ('k, 'a) poll_world_scheme res" where
  "epoll_update K op L c w =
     bindR (the_poller w L) (\<lambda>p.
     bindR (deref (chans w) c) (\<lambda>ch.
       case sys_epoll_ctl K (m_epfd p) op (m_fd ch) (m_events ch, c) (kst w) of (r, k') \<Rightarrow>
         if r < 0
         then (if op = EPOLL_CTL_DEL then Inr (w\<lparr>kst := k'\<rparr>) else Inl Aborted)
         else Inr (w\<lparr>kst := k'\<rparr>)))"

definition updateChannel ::
    "'k kernel \<Rightarrow> loop_ptr \<Rightarrow> chan_ptr \<Rightarrow> ('k, 'a) poll_world_scheme
     \<Rightarrow> ('k, 'a) poll_world_scheme res" where
  "updateChannel K L c w =
     bindR (the_poller w L) (\<lambda>p.
     bindR (deref (chans w) c) (\<lambda>ch.
       if m_index ch = kNew \<or> m_index ch = kDeleted
       then let w1 = (if m_index ch = kNew
                      then w\<lparr>pollers := (pollers w)(L \<mapsto>
                              p\<lparr>m_channels := (m_channels p)(m_fd ch \<mapsto> c)\<rparr>)\<rparr>
                      else w);
                w2 = modify_chan c (\<lambda>ch. ch\<lparr>m_index := kAdded\<rparr>) w1
            in epoll_update K EPOLL_CTL_ADD L c w2
       else if isNoneEvent ch
       then bindR (epoll_update K EPOLL_CTL_DEL L c w)
              (\<lambda>w'. Inr (modify_chan c (\<lambda>ch. ch\<lparr>m_index := kDeleted\<rparr>) w'))
       else epoll_update K EPOLL_CTL_MOD L c w))"

definition removeChannel ::
    "'k kernel \<Rightarrow> loop_ptr \<Rightarrow> chan_ptr \<Rightarrow> ('k, 'a) poll_world_scheme
     \<Rightarrow> ('k, 'a) poll_world_scheme res" where
  "removeChannel K L c w =
     bindR (the_poller w L) (\<lambda>p.
     bindR (deref (chans w) c) (\<lambda>ch.
       let w1 = w\<lparr>pollers := (pollers w)(L \<mapsto>
                   p\<lparr>m_channels := (m_channels p)(m_fd ch := None)\<rparr>)\<rparr>
       in bindR (if m_index ch = kAdded then epoll_update K EPOLL_CTL_DEL L c w1 else Inr w1)
            (\<lambda>w2. Inr (modify_chan c (\<lambda>ch. ch\<lparr>m_index := kNew\<rparr>) w2))))"

text \<open>
  The channel operations that change the mask and call \<open>update()\<close>, which reaches
  \<open>EpollPoller::updateChannel\<close> through the channel's loop.
\<close>

definition update_events ::
    "'k kernel \<Rightarrow> chan_ptr \<Rightarrow> (u32 \<Rightarrow> u32) \<Rightarrow> ('k, 'a) poll_world_scheme
     \<Rightarrow> ('k, 'a) poll_world_scheme res" where
  "update_events K c f w =
     bindR (deref (chans w) c) (\<lambda>ch.
       updateChannel K (chan_loop ch) c (modify_chan c (\<lambda>ch. ch\<lparr>m_events := f (m_events ch)\<rparr>) w))"

definition enableReading ::
    "'k kernel \<Rightarrow> chan_ptr \<Rightarrow> ('k, 'a) poll_world_scheme \<Rightarrow> ('k, 'a) poll_world_scheme res" where
  "enableReading K c = update_events K c (\<lambda>e. e OR kReadEvent)"

definition disableReading ::
    "'k kernel \<Rightarrow> chan_ptr \<Rightarrow> ('k, 'a) poll_world_scheme \<Rightarrow> ('k, 'a) poll_world_scheme res" where
  "disableReading K c = update_events K c (\<lambda>e. e AND NOT kReadEvent)"

definition enableWriting ::
    "'k kernel \<Rightarrow> chan_ptr \<Rightarrow> ('k, 'a) poll_world_scheme \<Rightarrow> ('k, 'a) poll_world_scheme res" where
  "enableWriting K c = update_events K c (\<lambda>e. e OR kWriteEvent)"

definition disableWriting ::
    "'k kernel \<Rightarrow> chan_ptr \<Rightarrow> ('k, 'a) poll_world_scheme \<Rightarrow> ('k, 'a) poll_world_scheme res" where
  "disableWriting K c = update_events K c (\<lambda>e. e AND NOT kWriteEvent)"

definition disableAll ::
    "'k kernel \<Rightarrow> chan_ptr \<Rightarrow> ('k, 'a) poll_world_scheme \<Rightarrow> ('k, 'a) poll_world_scheme res" where
  "disableAll K c = update_events K c (\<lambda>e. kNoneEvent)"


definition channel_remove ::
    "'k kernel \<Rightarrow> chan_ptr \<Rightarrow> ('k, 'a) poll_world_scheme \<Rightarrow> ('k, 'a) poll_world_scheme res" where
  "channel_remove K c w =
     bindR (deref (chans w) c) (\<lambda>ch. removeChannel K (chan_loop ch) c w)"

lemmas channel_ops = enableReading_def disableReading_def enableWriting_def disableWriting_def
  disableAll_def

section \<open>Polling\<close>

text \<open>The loop over \<open>m_events[0 .. numEvents)\<close>, which also pushes each channel on the active list.\<close>

fun fill_loop ::
    "epoll_event list \<Rightarrow> chan_ptr list \<Rightarrow> 'a chan_world_scheme
     \<Rightarrow> (chan_ptr list \<times> 'a chan_world_scheme) res" where
  "fill_loop [] active w = Inr (active, w)"
| "fill_loop ((ev, c) # evs) active w =
     bindR (deref (chans w) c) (\<lambda>_.
       fill_loop evs (active @ [c]) (modify_chan c (\<lambda>ch. ch\<lparr>m_revents := ev\<rparr>) w))"

definition fillActiveChannels ::
    "nat \<Rightarrow> poller \<Rightarrow> chan_ptr list \<Rightarrow> 'a chan_world_scheme
     \<Rightarrow> (chan_ptr list \<times> 'a chan_world_scheme) res" where
  "fillActiveChannels numEvents p active w =
     (if length (m_evlist p) < numEvents then Inl OutOfBounds
      else fill_loop (take numEvents (m_evlist p)) active w)"

text \<open>
  \<open>EpollPoller::poll\<close>: the kernel writes the events it delivers over the front of \<open>m_events\<close>; after
  a full list the vector doubles. A failed call only logs.
\<close>

definition poll ::
    "'k kernel \<Rightarrow> loop_ptr \<Rightarrow> int \<Rightarrow> chan_ptr list \<Rightarrow> ('k, 'a) poll_world_scheme
     \<Rightarrow> (timestamp \<times> chan_ptr list \<times> ('k, 'a) poll_world_scheme) res" where
  "poll K L timeOutMs active w =
     bindR (the_poller w L) (\<lambda>p.
       let size = length (m_evlist p);
           ((numEvents, evs, _), k1) = sys_epoll_wait K (m_epfd p) size timeOutMs (kst w);
           (now, k2) = sys_now K k1;
           p1 = p\<lparr>m_evlist := take size (evs @ drop (length evs) (m_evlist p))\<rparr>;
           w1 = w\<lparr>kst := k2, pollers := (pollers w)(L \<mapsto> p1)\<rparr>
       in if 0 < numEvents
          then bindR (fillActiveChannels (nat numEvents) p1 active w1) (\<lambda>(active', w2).
                 let p2 = (if nat numEvents = size
                           then p1\<lparr>m_evlist := m_evlist p1 @ replicate size (0, 0)\<rparr> else p1)
                 in Inr (now, active', w2\<lparr>pollers := (pollers w2)(L \<mapsto> p2)\<rparr>))
          else Inr (now, active, w1))"

section \<open>Invariant\<close>

text \<open>The channels registered in the map and those that say they are registered agree.\<close>

definition booked :: "loop_ptr \<Rightarrow> poller \<Rightarrow> (chan_ptr \<rightharpoonup> channel) \<Rightarrow> bool" where
  "booked L p C \<longleftrightarrow>
     (\<forall>f c. m_channels p f = Some c \<longrightarrow>
        (\<exists>ch. C c = Some ch \<and> chan_loop ch = L \<and> m_fd ch = f \<and> m_index ch \<in> {kAdded, kDeleted})) \<and>
     (\<forall>c ch. C c = Some ch \<longrightarrow> chan_loop ch = L \<longrightarrow>
        m_index ch = kNew \<or> (m_index ch \<in> {kAdded, kDeleted} \<and> m_channels p (m_fd ch) = Some c))"

text \<open>The interest list the library believes in.\<close>

definition interest :: "poller \<Rightarrow> (chan_ptr \<rightharpoonup> channel) \<Rightarrow> fd \<Rightarrow> epoll_event option" where
  "interest p C f =
     (case m_channels p f of None \<Rightarrow> None
      | Some c \<Rightarrow> (case C c of None \<Rightarrow> None
                 | Some ch \<Rightarrow> if m_index ch = kAdded then Some (m_events ch, c) else None))"

definition poller_inv ::
    "('k \<Rightarrow> fd \<Rightarrow> fd \<Rightarrow> epoll_event option) \<Rightarrow> loop_ptr \<Rightarrow> ('k, 'a) poll_world_scheme \<Rightarrow> bool" where
  "poller_inv reg L w \<longleftrightarrow>
     (\<exists>p. pollers w L = Some p \<and> booked L p (chans w) \<and>
          reg (kst w) (m_epfd p) = interest p (chans w))"

text \<open>A channel the loop may update: its own, and its descriptor is not another channel's.\<close>

definition usable :: "loop_ptr \<Rightarrow> ('k, 'a) poll_world_scheme \<Rightarrow> chan_ptr \<Rightarrow> bool" where
  "usable L w c \<longleftrightarrow>
     (\<exists>p ch. pollers w L = Some p \<and> chans w c = Some ch \<and> chan_loop ch = L \<and>
        (m_index ch = kNew \<longrightarrow> m_channels p (m_fd ch) = None))"

lemma index_distinct [simp]: "kNew \<noteq> kAdded" "kNew \<noteq> kDeleted" "kAdded \<noteq> kDeleted"
  "kAdded \<noteq> kNew" "kDeleted \<noteq> kNew" "kDeleted \<noteq> kAdded"
  by (simp_all add: chan_index)

lemma bookedD1:
  "booked L p C \<Longrightarrow> m_channels p f = Some c \<Longrightarrow>
   \<exists>ch. C c = Some ch \<and> chan_loop ch = L \<and> m_fd ch = f \<and> m_index ch \<in> {kAdded, kDeleted}"
  by (simp add: booked_def)

lemma bookedD2:
  "booked L p C \<Longrightarrow> C c = Some ch \<Longrightarrow> chan_loop ch = L \<Longrightarrow>
   m_index ch = kNew \<or> (m_index ch \<in> {kAdded, kDeleted} \<and> m_channels p (m_fd ch) = Some c)"
  unfolding booked_def by blast

lemma booked_add:
  assumes "booked L p C" and "C c = Some ch" and "m_channels p (m_fd ch) = None"
    and "m_fd ch' = m_fd ch" and "chan_loop ch' = L" and "m_index ch' \<in> {kAdded, kDeleted}"
  shows "booked L (p\<lparr>m_channels := (m_channels p)(m_fd ch \<mapsto> c)\<rparr>) (C(c \<mapsto> ch'))"
  using assms bookedD1 [OF assms(1)] bookedD2 [OF assms(1)]
  unfolding booked_def by (auto split: if_splits) (metis option.distinct(1) option.inject)+

lemma booked_reindex:
  assumes "booked L p C" and "C c = Some ch" and "m_index ch \<noteq> kNew" and "chan_loop ch = L"
    and "m_fd ch' = m_fd ch" and "chan_loop ch' = L" and "m_index ch' \<in> {kAdded, kDeleted}"
  shows "booked L p (C(c \<mapsto> ch'))"
  using assms bookedD1 [OF assms(1)] bookedD2 [OF assms(1)]
  unfolding booked_def by (auto split: if_splits) (metis option.inject)+

lemma booked_remove:
  assumes "booked L p C" and "C c = Some ch" and "chan_loop ch = L"
    and "m_index ch = kNew \<longrightarrow> m_channels p (m_fd ch) = None"
    and "m_fd ch' = m_fd ch" and "chan_loop ch' = L" and "m_index ch' = kNew"
  shows "booked L (p\<lparr>m_channels := (m_channels p)(m_fd ch := None)\<rparr>) (C(c \<mapsto> ch'))"
  using assms bookedD1 [OF assms(1)] bookedD2 [OF assms(1)]
  unfolding booked_def by (auto split: if_splits) (metis option.inject option.distinct(1))+


section \<open>The effect of an update\<close>

lemma epoll_ctl_ok:
  assumes "epoll_contract K reg" and "(op = EPOLL_CTL_ADD) = (reg k ep f = None)"
  shows "\<exists>k'. sys_epoll_ctl K ep op f ev k = (0, k') \<and>
    reg k' = (reg k)(ep := (reg k ep)(f := if op = EPOLL_CTL_DEL then None else Some ev))"
proof -
  have "case sys_epoll_ctl K ep op f ev k of (r, k') \<Rightarrow>
        (if (op = EPOLL_CTL_ADD) = (reg k ep f = None)
         then r = 0 \<and>
              reg k' = (reg k)(ep := (reg k ep)(f := if op = EPOLL_CTL_DEL then None else Some ev))
         else r = -1 \<and> reg k' = reg k)"
    by (rule assms(1) [unfolded epoll_contract_def, THEN spec, THEN spec, THEN spec, THEN spec,
          THEN spec])
  with assms(2) show ?thesis by (cases "sys_epoll_ctl K ep op f ev k") simp
qed

lemma epoll_update_ok:
  assumes K: "epoll_contract K reg" and "pollers w L = Some p" and "chans w c = Some ch"
    and "(op = EPOLL_CTL_ADD) = (reg (kst w) (m_epfd p) (m_fd ch) = None)"
  shows "\<exists>k'. epoll_update K op L c w = Inr (w\<lparr>kst := k'\<rparr>) \<and>
    reg k' = (reg (kst w))(m_epfd p := (reg (kst w) (m_epfd p))
      (m_fd ch := if op = EPOLL_CTL_DEL then None else Some (m_events ch, c)))"
proof -
  from epoll_ctl_ok [OF K assms(4), of "(m_events ch, c)"] obtain k' where
    "sys_epoll_ctl K (m_epfd p) op (m_fd ch) (m_events ch, c) (kst w) = (0, k')"
    "reg k' = (reg (kst w))(m_epfd p := (reg (kst w) (m_epfd p))
      (m_fd ch := if op = EPOLL_CTL_DEL then None else Some (m_events ch, c)))" by blast
  with assms(2,3) show ?thesis
    by (intro exI [of _ k']) (simp add: epoll_update_def the_poller_def)
qed

definition next_index :: "int \<Rightarrow> u32 \<Rightarrow> int" where
  "next_index i ev = (if i = kAdded \<and> ev = kNoneEvent then kDeleted else kAdded)"

definition updated_channel :: "channel \<Rightarrow> u32 \<Rightarrow> channel" where
  "updated_channel ch ev = ch\<lparr>m_events := ev, m_index := next_index (m_index ch) ev\<rparr>"

definition updated_entry :: "channel \<Rightarrow> u32 \<Rightarrow> chan_ptr \<Rightarrow> epoll_event option" where
  "updated_entry ch ev c =
     (if next_index (m_index ch) ev = kDeleted then None else Some (ev, c))"

lemma next_index_in: "next_index i ev \<in> {kAdded, kDeleted}"
  by (simp add: next_index_def)

lemma updated_channel_sel [simp]:
  "m_fd (updated_channel ch ev) = m_fd ch" "chan_loop (updated_channel ch ev) = chan_loop ch"
  "m_events (updated_channel ch ev) = ev" "m_index (updated_channel ch ev) = next_index (m_index ch) ev"
  "m_tied (updated_channel ch ev) = m_tied ch" "m_tie (updated_channel ch ev) = m_tie ch"
  by (simp_all add: updated_channel_def)

text \<open>What an update does to the world: the channel, the map, the interest list, nothing else.\<close>

definition register ::
    "loop_ptr \<Rightarrow> poller \<Rightarrow> chan_ptr \<Rightarrow> channel \<Rightarrow> u32 \<Rightarrow> 'k \<Rightarrow> ('k, 'a) poll_world_scheme
     \<Rightarrow> ('k, 'a) poll_world_scheme" where
  "register L p c ch ev k' w =
     w\<lparr>chans := (chans w)(c \<mapsto> updated_channel ch ev),
       pollers := (pollers w)(L \<mapsto> p\<lparr>m_channels := (m_channels p)(m_fd ch \<mapsto> c)\<rparr>),
       kst := k'\<rparr>"

lemma interest_not_added:
  "C c = Some ch \<Longrightarrow> m_channels p (m_fd ch) = Some c \<Longrightarrow>
   interest p C (m_fd ch) = (if m_index ch = kAdded then Some (m_events ch, c) else None)"
  by (simp add: interest_def)

lemma booked_index_cases:
  assumes "booked L p C" and "C c = Some ch" and "chan_loop ch = L"
  obtains "m_index ch = kNew" | "m_index ch = kDeleted" "m_channels p (m_fd ch) = Some c"
    | "m_index ch = kAdded" "m_channels p (m_fd ch) = Some c"
  using bookedD2 [OF assms] by blast

lemma update_events_effect:
  assumes K: "epoll_contract K reg" and p: "pollers w L = Some p" and b: "booked L p (chans w)"
    and r: "reg (kst w) (m_epfd p) = interest p (chans w)"
    and ch: "chans w c = Some ch" and L: "chan_loop ch = L"
    and free: "m_index ch = kNew \<longrightarrow> m_channels p (m_fd ch) = None"
  shows "\<exists>k'. update_events K c f w = Inr (register L p c ch (f (m_events ch)) k' w) \<and>
    reg k' = (reg (kst w))(m_epfd p := (reg (kst w) (m_epfd p))
      (m_fd ch := updated_entry ch (f (m_events ch)) c))"
proof -
  let ?ev = "f (m_events ch)"
  let ?w1 = "modify_chan c (\<lambda>ch. ch\<lparr>m_events := f (m_events ch)\<rparr>) w"
  have w1: "pollers ?w1 = pollers w" "kst ?w1 = kst w" "chans ?w1 c = Some (ch\<lparr>m_events := ?ev\<rparr>)"
    using ch by (simp_all add: modify_chan_def)
  have call: "update_events K c f w = updateChannel K L c ?w1"
    using ch L by (simp add: update_events_def)
  have triv: "m_channels p (m_fd ch) = Some c \<Longrightarrow>
      p\<lparr>m_channels := (m_channels p)(m_fd ch \<mapsto> c)\<rparr> = p" by (simp add: fun_upd_idem)
  show ?thesis
    using b ch L
  proof (cases rule: booked_index_cases)
    case 1
    let ?w2 = "modify_chan c (\<lambda>ch. ch\<lparr>m_index := kAdded\<rparr>)
      (?w1\<lparr>pollers := (pollers w)(L \<mapsto> p\<lparr>m_channels := (m_channels p)(m_fd ch \<mapsto> c)\<rparr>)\<rparr>)"
    have none: "reg (kst w) (m_epfd p) (m_fd ch) = None"
      using 1 free r by (simp add: interest_def)
    have "updateChannel K L c ?w1 = epoll_update K EPOLL_CTL_ADD L c ?w2"
      using 1 p w1 by (simp add: updateChannel_def the_poller_def)
    moreover have "pollers ?w2 L = Some (p\<lparr>m_channels := (m_channels p)(m_fd ch \<mapsto> c)\<rparr>)"
        "chans ?w2 c = Some (updated_channel ch ?ev)" "kst ?w2 = kst w"
      using 1 ch w1(1,2) by (simp_all add: modify_chan_def updated_channel_def next_index_def)
    moreover have "?w2\<lparr>kst := k'\<rparr> = register L p c ch ?ev k' w" for k'
      using 1 ch by (simp add: modify_chan_def register_def updated_channel_def next_index_def)
    ultimately show ?thesis
      using epoll_update_ok [OF K, of ?w2 L _ c _ EPOLL_CTL_ADD] none call 1
      by (fastforce simp: updated_entry_def next_index_def)
  next
    case 2
    let ?w2 = "modify_chan c (\<lambda>ch. ch\<lparr>m_index := kAdded\<rparr>) ?w1"
    have none: "reg (kst w) (m_epfd p) (m_fd ch) = None"
      using 2 r ch by (simp add: interest_not_added)
    have "updateChannel K L c ?w1 = epoll_update K EPOLL_CTL_ADD L c ?w2"
      using 2 p w1 by (simp add: updateChannel_def the_poller_def)
    moreover have "pollers ?w2 L = Some p"
        "chans ?w2 c = Some (updated_channel ch ?ev)" "kst ?w2 = kst w"
      using 2 ch w1(1,2) p by (simp_all add: modify_chan_def updated_channel_def next_index_def)
    moreover have "?w2\<lparr>kst := k'\<rparr> = register L p c ch ?ev k' w" for k'
      using 2 ch p triv
      by (simp add: modify_chan_def register_def updated_channel_def next_index_def fun_upd_idem)
    ultimately show ?thesis
      using epoll_update_ok [OF K, of ?w2 L _ c _ EPOLL_CTL_ADD] none call 2
      by (fastforce simp: updated_entry_def next_index_def)
  next
    case 3
    have some: "reg (kst w) (m_epfd p) (m_fd ch) \<noteq> None"
      using 3 r ch by (simp add: interest_not_added)
    have eq: "(?w1\<lparr>kst := k'\<rparr>)\<lparr>chans := (chans ?w1)(c \<mapsto> updated_channel ch ?ev)\<rparr>
        = register L p c ch ?ev k' w" for k'
      using 3 ch p triv by (simp add: modify_chan_def register_def fun_upd_idem)
    show ?thesis
    proof (cases "?ev = kNoneEvent")
      case True
      from epoll_update_ok [OF K, of ?w1 L p c "ch\<lparr>m_events := ?ev\<rparr>" EPOLL_CTL_DEL] some w1 p
      obtain k' where k': "epoll_update K EPOLL_CTL_DEL L c ?w1 = Inr (?w1\<lparr>kst := k'\<rparr>)"
        "reg k' = (reg (kst w))(m_epfd p := (reg (kst w) (m_epfd p))(m_fd ch := None))" by auto
      have "updateChannel K L c ?w1 = Inr (register L p c ch ?ev k' w)"
        using 3 p w1 k'(1) True eq [of k'] ch
        by (simp add: updateChannel_def the_poller_def isNoneEvent_def modify_chan_def
            updated_channel_def next_index_def)
      with k'(2) call 3 True show ?thesis
        by (auto simp: updated_entry_def next_index_def)
    next
      case False
      from epoll_update_ok [OF K, of ?w1 L p c "ch\<lparr>m_events := ?ev\<rparr>" EPOLL_CTL_MOD] some w1 p
      obtain k' where k': "epoll_update K EPOLL_CTL_MOD L c ?w1 = Inr (?w1\<lparr>kst := k'\<rparr>)"
        "reg k' = (reg (kst w))(m_epfd p := (reg (kst w) (m_epfd p))(m_fd ch \<mapsto> (?ev, c)))" by auto
      have upd: "updated_channel ch ?ev = ch\<lparr>m_events := ?ev\<rparr>"
        using 3 False by (simp add: updated_channel_def next_index_def)
      have "?w1\<lparr>kst := k'\<rparr> = register L p c ch ?ev k' w"
        using 3 ch p triv by (simp add: modify_chan_def register_def upd fun_upd_idem)
      then have "updateChannel K L c ?w1 = Inr (register L p c ch ?ev k' w)"
        using 3 p w1 k'(1) False
        by (simp add: updateChannel_def the_poller_def isNoneEvent_def)
      with k'(2) call 3 False show ?thesis
        by (auto simp: updated_entry_def next_index_def)
    qed
  qed
qed


lemma interest_register:
  assumes "booked L p C" and "C c = Some ch" and "chan_loop ch = L"
  shows "interest (p\<lparr>m_channels := (m_channels p)(m_fd ch \<mapsto> c)\<rparr>) (C(c \<mapsto> updated_channel ch ev))
       = (interest p C)(m_fd ch := updated_entry ch ev c)"
proof
  fix f
  have "f \<noteq> m_fd ch \<Longrightarrow> m_channels p f \<noteq> Some c"
    using bookedD1 [OF assms(1), of f c] assms(2) by auto
  then show "interest (p\<lparr>m_channels := (m_channels p)(m_fd ch \<mapsto> c)\<rparr>)
       (C(c \<mapsto> updated_channel ch ev)) f = ((interest p C)(m_fd ch := updated_entry ch ev c)) f"
    by (auto simp: interest_def updated_entry_def next_index_def split: option.splits)
qed

lemma booked_register:
  assumes "booked L p C" and "C c = Some ch" and "chan_loop ch = L"
    and "m_index ch = kNew \<longrightarrow> m_channels p (m_fd ch) = None"
  shows "booked L (p\<lparr>m_channels := (m_channels p)(m_fd ch \<mapsto> c)\<rparr>) (C(c \<mapsto> updated_channel ch ev))"
  using assms(1-3)
proof (cases rule: booked_index_cases)
  case 1
  with assms next_index_in show ?thesis by (intro booked_add) auto
next
  case 2
  have "booked L p (C(c \<mapsto> updated_channel ch ev))"
    using assms 2 next_index_in by (intro booked_reindex [OF assms(1,2)]) auto
  with 2 show ?thesis by (simp add: fun_upd_idem)
next
  case 3
  have "booked L p (C(c \<mapsto> updated_channel ch ev))"
    using assms 3 next_index_in by (intro booked_reindex [OF assms(1,2)]) auto
  with 3 show ?thesis by (simp add: fun_upd_idem)
qed

text \<open>The invariant, its poller and the kernel's list of it, in the form the proofs use.\<close>

lemma poller_invE:
  assumes "poller_inv reg L w"
  obtains p where "pollers w L = Some p" and "booked L p (chans w)"
    and "reg (kst w) (m_epfd p) = interest p (chans w)"
  using assms unfolding poller_inv_def by blast

lemma usableE:
  assumes "usable L w c" and "pollers w L = Some p"
  obtains ch where "chans w c = Some ch" and "chan_loop ch = L"
    and "m_index ch = kNew \<longrightarrow> m_channels p (m_fd ch) = None"
  using assms unfolding usable_def by auto

lemma update_events_ok:
  assumes K: "epoll_contract K reg" and inv: "poller_inv reg L w" and ok: "usable L w c"
    and p: "pollers w L = Some p" and ch: "chans w c = Some ch"
  shows "\<exists>k'. update_events K c f w = Inr (register L p c ch (f (m_events ch)) k' w) \<and>
    reg k' = (reg (kst w))(m_epfd p := (reg (kst w) (m_epfd p))
      (m_fd ch := updated_entry ch (f (m_events ch)) c)) \<and>
    poller_inv reg L (register L p c ch (f (m_events ch)) k' w)"
proof -
  from inv p have b: "booked L p (chans w)" and r: "reg (kst w) (m_epfd p) = interest p (chans w)"
    by (auto elim: poller_invE)
  from ok p ch have L: "chan_loop ch = L"
    and free: "m_index ch = kNew \<longrightarrow> m_channels p (m_fd ch) = None" by (auto elim!: usableE)
  from update_events_effect [OF K p b r ch L free] obtain k' where k':
    "update_events K c f w = Inr (register L p c ch (f (m_events ch)) k' w)"
    "reg k' = (reg (kst w))(m_epfd p := (reg (kst w) (m_epfd p))
      (m_fd ch := updated_entry ch (f (m_events ch)) c))" by blast
  have "poller_inv reg L (register L p c ch (f (m_events ch)) k' w)"
    using booked_register [OF b ch L free, of "f (m_events ch)"]
      interest_register [OF b ch L, of "f (m_events ch)"] k'(2) r
    by (simp add: poller_inv_def register_def)
  with k' show ?thesis by blast
qed

lemma usable_register:
  "chan_loop ch = L \<Longrightarrow> usable L (register L p c ch ev k' w) c"
  using next_index_in [of "m_index ch" ev] by (auto simp: usable_def register_def)

subsection \<open>Removal\<close>

definition unregister ::
    "loop_ptr \<Rightarrow> poller \<Rightarrow> chan_ptr \<Rightarrow> channel \<Rightarrow> 'k \<Rightarrow> ('k, 'a) poll_world_scheme
     \<Rightarrow> ('k, 'a) poll_world_scheme" where
  "unregister L p c ch k' w =
     w\<lparr>chans := (chans w)(c \<mapsto> ch\<lparr>m_index := kNew\<rparr>),
       pollers := (pollers w)(L \<mapsto> p\<lparr>m_channels := (m_channels p)(m_fd ch := None)\<rparr>),
       kst := k'\<rparr>"

lemma register_poll_sel [simp]:
  "chans (register L p c ch ev k' w) = (chans w)(c \<mapsto> updated_channel ch ev)"
  "kst (register L p c ch ev k' w) = k'"
  "pollers (register L p c ch ev k' w) =
     (pollers w)(L \<mapsto> p\<lparr>m_channels := (m_channels p)(m_fd ch \<mapsto> c)\<rparr>)"
  "chans (unregister L p c ch k' w) = (chans w)(c \<mapsto> ch\<lparr>m_index := kNew\<rparr>)"
  "kst (unregister L p c ch k' w) = k'"
  "pollers (unregister L p c ch k' w) =
     (pollers w)(L \<mapsto> p\<lparr>m_channels := (m_channels p)(m_fd ch := None)\<rparr>)"
  by (simp_all add: register_def unregister_def)

lemma removeChannel_effect:
  assumes K: "epoll_contract K reg" and p: "pollers w L = Some p" and b: "booked L p (chans w)"
    and r: "reg (kst w) (m_epfd p) = interest p (chans w)"
    and ch: "chans w c = Some ch" and L: "chan_loop ch = L"
    and free: "m_index ch = kNew \<longrightarrow> m_channels p (m_fd ch) = None"
  shows "\<exists>k'. removeChannel K L c w = Inr (unregister L p c ch k' w) \<and>
    reg k' = (reg (kst w))(m_epfd p := (reg (kst w) (m_epfd p))(m_fd ch := None))"
proof -
  let ?w1 = "w\<lparr>pollers := (pollers w)(L \<mapsto> p\<lparr>m_channels := (m_channels p)(m_fd ch := None)\<rparr>)\<rparr>"
  have eq: "modify_chan c (\<lambda>ch. ch\<lparr>m_index := kNew\<rparr>) (?w1\<lparr>kst := k'\<rparr>) = unregister L p c ch k' w"
    for k' using ch by (simp add: modify_chan_def unregister_def)
  show ?thesis
  proof (cases "m_index ch = kAdded")
    case True
    then have some: "reg (kst w) (m_epfd p) (m_fd ch) \<noteq> None"
      using bookedD2 [OF b ch L] r ch by (simp add: interest_not_added)
    from epoll_update_ok [OF K, of ?w1 L _ c ch EPOLL_CTL_DEL] ch some obtain k' where
      "epoll_update K EPOLL_CTL_DEL L c ?w1 = Inr (?w1\<lparr>kst := k'\<rparr>)"
      "reg k' = (reg (kst w))(m_epfd p := (reg (kst w) (m_epfd p))(m_fd ch := None))" by auto
    with True p ch eq [of k'] show ?thesis
      by (auto simp: removeChannel_def the_poller_def)
  next
    case False
    have none: "reg (kst w) (m_epfd p) (m_fd ch) = None"
      using False bookedD2 [OF b ch L] free r ch by (auto simp: interest_def)
    have "removeChannel K L c w = Inr (unregister L p c ch (kst w) w)"
      using False p ch eq [of "kst w"] by (simp add: removeChannel_def the_poller_def)
    moreover have "reg (kst w) = (reg (kst w))(m_epfd p :=
        (reg (kst w) (m_epfd p))(m_fd ch := None))"
      using none by (simp add: fun_upd_idem)
    ultimately show ?thesis by blast
  qed
qed

lemma removeChannel_ok:
  assumes K: "epoll_contract K reg" and inv: "poller_inv reg L w" and ok: "usable L w c"
    and p: "pollers w L = Some p" and ch: "chans w c = Some ch"
  shows "\<exists>k'. channel_remove K c w = Inr (unregister L p c ch k' w) \<and>
    reg k' = (reg (kst w))(m_epfd p := (reg (kst w) (m_epfd p))(m_fd ch := None)) \<and>
    poller_inv reg L (unregister L p c ch k' w)"
proof -
  from inv p have b: "booked L p (chans w)" and r: "reg (kst w) (m_epfd p) = interest p (chans w)"
    by (auto elim: poller_invE)
  from ok p ch have L: "chan_loop ch = L"
    and free: "m_index ch = kNew \<longrightarrow> m_channels p (m_fd ch) = None" by (auto elim!: usableE)
  from removeChannel_effect [OF K p b r ch L free] obtain k' where k':
    "removeChannel K L c w = Inr (unregister L p c ch k' w)"
    "reg k' = (reg (kst w))(m_epfd p := (reg (kst w) (m_epfd p))(m_fd ch := None))" by blast
  have "booked L (p\<lparr>m_channels := (m_channels p)(m_fd ch := None)\<rparr>)
      ((chans w)(c \<mapsto> ch\<lparr>m_index := kNew\<rparr>))"
    using free L by (intro booked_remove [OF b ch]) simp_all
  moreover have "interest (p\<lparr>m_channels := (m_channels p)(m_fd ch := None)\<rparr>)
      ((chans w)(c \<mapsto> ch\<lparr>m_index := kNew\<rparr>)) = (interest p (chans w))(m_fd ch := None)"
  proof
    fix f
    have "f \<noteq> m_fd ch \<Longrightarrow> m_channels p f \<noteq> Some c"
      using bookedD1 [OF b, of f c] ch by auto
    then show "interest (p\<lparr>m_channels := (m_channels p)(m_fd ch := None)\<rparr>)
      ((chans w)(c \<mapsto> ch\<lparr>m_index := kNew\<rparr>)) f = ((interest p (chans w))(m_fd ch := None)) f"
      by (auto simp: interest_def split: option.splits)
  qed
  ultimately have "poller_inv reg L (unregister L p c ch k' w)"
    using k'(2) r by (simp add: poller_inv_def unregister_def)
  with k' ch L show ?thesis by (auto simp: channel_remove_def)
qed

lemma usable_unregister: "chan_loop ch = L \<Longrightarrow> usable L (unregister L p c ch k' w) c"
  by (auto simp: usable_def unregister_def)


section \<open>The interface channels rely on\<close>

text \<open>
  \<open>change\<close> edits the mask of a channel and tells the poller, \<open>withdraw\<close> removes the channel;
  \<open>watched\<close> is the mask the kernel watches the channel's descriptor with, if it does.
\<close>

locale interest_set =
  fixes inv :: "'w \<Rightarrow> bool"
    and ok :: "'w \<Rightarrow> chan_ptr \<Rightarrow> bool"
    and mask :: "'w \<Rightarrow> chan_ptr \<Rightarrow> u32"
    and watched :: "'w \<Rightarrow> chan_ptr \<Rightarrow> u32 option"
    and change :: "chan_ptr \<Rightarrow> (u32 \<Rightarrow> u32) \<Rightarrow> 'w \<Rightarrow> 'w res"
    and withdraw :: "chan_ptr \<Rightarrow> 'w \<Rightarrow> 'w res"
  assumes change_ok: "inv w \<Longrightarrow> ok w c \<Longrightarrow>
      \<exists>w'. change c f w = Inr w' \<and> inv w' \<and> ok w' c \<and> mask w' c = f (mask w c) \<and>
           watched w' c = (if f (mask w c) = kNoneEvent \<and> watched w c \<noteq> None then None
                           else Some (f (mask w c))) \<and>
           (\<forall>d. d \<noteq> c \<longrightarrow> ok w d \<longrightarrow> watched w' d = watched w d)"
    and withdraw_ok: "inv w \<Longrightarrow> ok w c \<Longrightarrow>
      \<exists>w'. withdraw c w = Inr w' \<and> inv w' \<and> ok w' c \<and> mask w' c = mask w c \<and>
           watched w' c = None \<and> (\<forall>d. d \<noteq> c \<longrightarrow> ok w d \<longrightarrow> watched w' d = watched w d)"
begin

lemma change_nonzero:
  assumes "inv w" and "ok w c" and "f (mask w c) \<noteq> kNoneEvent"
  shows "\<exists>w'. change c f w = Inr w' \<and> inv w' \<and> ok w' c \<and> mask w' c = f (mask w c) \<and>
           watched w' c = Some (f (mask w c)) \<and>
           (\<forall>d. d \<noteq> c \<longrightarrow> ok w d \<longrightarrow> watched w' d = watched w d)"
  using change_ok [OF assms(1,2), of f] assms(3) by auto

text \<open>Clearing the mask and withdrawing, as a destructor does, ends the watch, whatever it was.\<close>

lemma clear_withdraw:
  assumes "inv w" and "ok w c"
  shows "\<exists>w'. bindR (change c (\<lambda>_. kNoneEvent) w) (withdraw c) = Inr w' \<and> inv w' \<and>
              watched w' c = None \<and> mask w' c = kNoneEvent"
proof -
  from change_ok [OF assms, of "\<lambda>_. kNoneEvent"] obtain w1 where w1:
    "change c (\<lambda>_. kNoneEvent) w = Inr w1" "inv w1" "ok w1 c" "mask w1 c = kNoneEvent" by auto
  from withdraw_ok [OF w1(2,3)] w1 show ?thesis by auto
qed

text \<open>Clearing the mask twice: a watched channel ends unwatched, then watched for nothing.\<close>

lemma clear_twice:
  assumes "inv w" and "ok w c" and "watched w c \<noteq> None"
  shows "\<exists>w'. bindR (change c (\<lambda>_. kNoneEvent) w) (change c (\<lambda>_. kNoneEvent)) = Inr w' \<and> inv w' \<and>
              watched w' c = Some kNoneEvent"
proof -
  from change_ok [OF assms(1,2), of "\<lambda>_. kNoneEvent"] assms(3) obtain w1 where w1:
    "change c (\<lambda>_. kNoneEvent) w = Inr w1" "inv w1" "ok w1 c" "watched w1 c = None" by auto
  from change_ok [OF w1(2,3), of "\<lambda>_. kNoneEvent"] w1 show ?thesis by auto
qed

end

definition chan_mask :: "'a chan_world_scheme \<Rightarrow> chan_ptr \<Rightarrow> u32" where
  "chan_mask w c = (case chans w c of None \<Rightarrow> 0 | Some ch \<Rightarrow> m_events ch)"

definition kernel_watch ::
    "('k \<Rightarrow> fd \<Rightarrow> fd \<Rightarrow> epoll_event option) \<Rightarrow> loop_ptr \<Rightarrow> ('k, 'a) poll_world_scheme
     \<Rightarrow> chan_ptr \<Rightarrow> u32 option" where
  "kernel_watch reg L w c =
     (case (pollers w L, chans w c) of
        (Some p, Some ch) \<Rightarrow>
          (case reg (kst w) (m_epfd p) (m_fd ch) of
             Some (ev, d) \<Rightarrow> if d = c then Some ev else None
           | None \<Rightarrow> None)
      | _ \<Rightarrow> None)"

lemma kernel_watch_eq:
  assumes "poller_inv reg L w" and "usable L w c" and "chans w c = Some ch"
  shows "kernel_watch reg L w c = (if m_index ch = kAdded then Some (m_events ch) else None)"
proof -
  from assms(1) obtain p where p: "pollers w L = Some p" "booked L p (chans w)"
    "reg (kst w) (m_epfd p) = interest p (chans w)" by (rule poller_invE)
  from assms(2) p(1) assms(3) have L: "chan_loop ch = L"
    and free: "m_index ch = kNew \<longrightarrow> m_channels p (m_fd ch) = None" by (auto elim!: usableE)
  from p(2) assms(3) L show ?thesis
    by (cases rule: booked_index_cases)
      (use p assms(3) free in \<open>auto simp: kernel_watch_def interest_def\<close>)
qed

lemma kernel_watch_other:
  assumes inv: "poller_inv reg L w" and c: "usable L w c" and d: "usable L w d" and ne: "d \<noteq> c"
    and p: "pollers w L = Some p" and ch: "chans w c = Some ch"
    and w': "pollers w' L = Some p'" "m_epfd p' = m_epfd p" "chans w' d = chans w d"
    and reg: "reg (kst w') (m_epfd p) = (reg (kst w) (m_epfd p))(m_fd ch := e)"
    and e: "\<forall>ev d. e = Some (ev, d) \<longrightarrow> d = c"
  shows "kernel_watch reg L w' d = kernel_watch reg L w d"
proof -
  from inv p have b: "booked L p (chans w)" and r: "reg (kst w) (m_epfd p) = interest p (chans w)"
    by (auto elim: poller_invE)
  from d p obtain dh where dh: "chans w d = Some dh" "chan_loop dh = L"
    "m_index dh = kNew \<longrightarrow> m_channels p (m_fd dh) = None" by (auto elim!: usableE)
  from c p ch have L: "chan_loop ch = L"
    and free: "m_index ch = kNew \<longrightarrow> m_channels p (m_fd ch) = None" by (auto elim!: usableE)
  show ?thesis
  proof (cases "m_fd dh = m_fd ch")
    case True
    then have "m_index dh = kNew"
      using bookedD2 [OF b dh(1,2)] bookedD2 [OF b ch L] free ne by auto
    then have "kernel_watch reg L w d = None"
      using kernel_watch_eq [OF inv d dh(1)] by simp
    moreover have "kernel_watch reg L w' d = None"
      using True w' dh(1) reg e ne by (auto simp: kernel_watch_def split: option.splits)
    ultimately show ?thesis by simp
  next
    case False
    with w' dh reg p show ?thesis by (simp add: kernel_watch_def)
  qed
qed

interpretation epoll: interest_set
  "\<lambda>w. epoll_contract K reg \<and> poller_inv reg L w" "usable L" chan_mask "kernel_watch reg L"
  "update_events K" "channel_remove K"
  for K :: "'k kernel" and reg :: "'k \<Rightarrow> fd \<Rightarrow> fd \<Rightarrow> epoll_event option" and L :: loop_ptr
proof
  fix w :: "('k, 'a) poll_world_scheme" and c :: chan_ptr and f :: "u32 \<Rightarrow> u32"
  assume inv: "epoll_contract K reg \<and> poller_inv reg L w" and ok: "usable L w c"
  from inv obtain p where p: "pollers w L = Some p" by (auto elim: poller_invE)
  from ok p obtain ch where ch: "chans w c = Some ch" "chan_loop ch = L" by (auto elim: usableE)
  from update_events_ok [OF conjunct1 [OF inv] conjunct2 [OF inv] ok p ch(1), of f] obtain k' where
    k': "update_events K c f w = Inr (register L p c ch (f (m_events ch)) k' w)"
    "reg k' = (reg (kst w))(m_epfd p := (reg (kst w) (m_epfd p))
      (m_fd ch := updated_entry ch (f (m_events ch)) c))"
    "poller_inv reg L (register L p c ch (f (m_events ch)) k' w)" by blast
  let ?w = "register L p c ch (f (m_events ch)) k' w"
  have sel: "chans ?w c = Some (updated_channel ch (f (m_events ch)))" "kst ?w = k'"
    "pollers ?w L = Some (p\<lparr>m_channels := (m_channels p)(m_fd ch \<mapsto> c)\<rparr>)"
    "d \<noteq> c \<Longrightarrow> chans ?w d = chans w d" for d
    by (simp_all add: register_def)
  have "kernel_watch reg L ?w d = kernel_watch reg L w d" if "d \<noteq> c" "usable L w d" for d
    by (rule kernel_watch_other [OF conjunct2 [OF inv] ok that(2,1) p ch(1) sel(3) _
          sel(4) [OF that(1)], where e = "updated_entry ch (f (m_events ch)) c"])
      (simp_all add: sel(2) k'(2), simp add: updated_entry_def)
  then show "\<exists>w'. update_events K c f w = Inr w' \<and>
      (epoll_contract K reg \<and> poller_inv reg L w') \<and> usable L w' c \<and>
      chan_mask w' c = f (chan_mask w c) \<and>
      kernel_watch reg L w' c = (if f (chan_mask w c) = kNoneEvent \<and> kernel_watch reg L w c \<noteq> None
        then None else Some (f (chan_mask w c))) \<and>
      (\<forall>d. d \<noteq> c \<longrightarrow> usable L w d \<longrightarrow> kernel_watch reg L w' d = kernel_watch reg L w d)"
    using k' inv usable_register [OF ch(2), of p c "f (m_events ch)" k' w] sel ch
      kernel_watch_eq [OF k'(3) usable_register [OF ch(2)] sel(1)]
      kernel_watch_eq [OF conjunct2 [OF inv] ok ch(1)]
    by (intro exI [of _ ?w]) (simp add: chan_mask_def next_index_def)
next
  fix w :: "('k, 'a) poll_world_scheme" and c :: chan_ptr
  assume inv: "epoll_contract K reg \<and> poller_inv reg L w" and ok: "usable L w c"
  from inv obtain p where p: "pollers w L = Some p" by (auto elim: poller_invE)
  from ok p obtain ch where ch: "chans w c = Some ch" "chan_loop ch = L" by (auto elim: usableE)
  from removeChannel_ok [OF conjunct1 [OF inv] conjunct2 [OF inv] ok p ch(1)] obtain k' where
    k': "channel_remove K c w = Inr (unregister L p c ch k' w)"
    "reg k' = (reg (kst w))(m_epfd p := (reg (kst w) (m_epfd p))(m_fd ch := None))"
    "poller_inv reg L (unregister L p c ch k' w)" by blast
  let ?w = "unregister L p c ch k' w"
  have sel: "chans ?w c = Some (ch\<lparr>m_index := kNew\<rparr>)" "kst ?w = k'"
    "pollers ?w L = Some (p\<lparr>m_channels := (m_channels p)(m_fd ch := None)\<rparr>)"
    "d \<noteq> c \<Longrightarrow> chans ?w d = chans w d" for d
    by (simp_all add: unregister_def)
  have "kernel_watch reg L ?w d = kernel_watch reg L w d" if "d \<noteq> c" "usable L w d" for d
    by (rule kernel_watch_other [OF conjunct2 [OF inv] ok that(2,1) p ch(1) sel(3) _
          sel(4) [OF that(1)], where e = None]) (simp_all add: sel(2) k'(2))
  then show "\<exists>w'. channel_remove K c w = Inr w' \<and>
      (epoll_contract K reg \<and> poller_inv reg L w') \<and> usable L w' c \<and>
      chan_mask w' c = chan_mask w c \<and> kernel_watch reg L w' c = None \<and>
      (\<forall>d. d \<noteq> c \<longrightarrow> usable L w d \<longrightarrow> kernel_watch reg L w' d = kernel_watch reg L w d)"
    using k' inv usable_unregister [OF ch(2), of p c k' w] sel ch
      kernel_watch_eq [OF k'(3) usable_unregister [OF ch(2)] sel(1)]
    by (intro exI [of _ ?w]) (simp add: chan_mask_def)
qed


section \<open>Polling\<close>

text \<open>What the poller's books depend on in a channel; changing the rest of it is harmless.\<close>

definition reg_view :: "channel \<Rightarrow> loop_ptr \<times> fd \<times> int \<times> u32" where
  "reg_view ch = (chan_loop ch, m_fd ch, m_index ch, m_events ch)"

definition same_view :: "(chan_ptr \<rightharpoonup> channel) \<Rightarrow> (chan_ptr \<rightharpoonup> channel) \<Rightarrow> bool" where
  "same_view C C' \<longleftrightarrow> (\<forall>c. map_option reg_view (C' c) = map_option reg_view (C c))"

lemma same_view_refl [simp]: "same_view C C"
  by (simp add: same_view_def)

lemma same_view_trans: "same_view A B \<Longrightarrow> same_view B C \<Longrightarrow> same_view A C"
  by (simp add: same_view_def)

lemma same_view_sym: "same_view A B \<Longrightarrow> same_view B A"
  by (simp add: same_view_def)

lemma same_view_upd: "reg_view ch' = reg_view ch \<Longrightarrow> C c = Some ch \<Longrightarrow> same_view C (C(c \<mapsto> ch'))"
  by (simp add: same_view_def)

lemma same_viewD:
  assumes "same_view C C'" and "C c = Some ch"
  shows "\<exists>ch'. C' c = Some ch' \<and> chan_loop ch' = chan_loop ch \<and> m_fd ch' = m_fd ch \<and>
    m_index ch' = m_index ch \<and> m_events ch' = m_events ch"
proof -
  from assms have "map_option reg_view (C' c) = Some (reg_view ch)" by (simp add: same_view_def)
  then show ?thesis by (auto simp: reg_view_def)
qed

lemma booked_same_view: "same_view C C' \<Longrightarrow> booked L p C \<Longrightarrow> booked L p C'"
proof -
  assume v: "same_view C C'" and b: "booked L p C"
  show "booked L p C'"
    unfolding booked_def
  proof (intro conjI allI impI)
    fix f c assume "m_channels p f = Some c"
    from bookedD1 [OF b this] same_viewD [OF v, of c]
    show "\<exists>ch. C' c = Some ch \<and> chan_loop ch = L \<and> m_fd ch = f \<and> m_index ch \<in> {kAdded, kDeleted}"
      by metis
  next
    fix c ch assume "C' c = Some ch" "chan_loop ch = L"
    from same_viewD [OF same_view_sym [OF v] this(1)] this bookedD2 [OF b, of c]
    show "m_index ch = kNew \<or> m_index ch \<in> {kAdded, kDeleted} \<and> m_channels p (m_fd ch) = Some c"
      by metis
  qed
qed

lemma interest_same_view: "same_view C C' \<Longrightarrow> interest p C' = interest p C"
proof
  fix f assume v: "same_view C C'"
  show "interest p C' f = interest p C f"
  proof (cases "m_channels p f")
    case None then show ?thesis by (simp add: interest_def)
  next
    case (Some c)
    show ?thesis
      using Some same_viewD [OF v, of c] same_viewD [OF same_view_sym [OF v], of c]
      by (cases "C c"; cases "C' c") (auto simp: interest_def)
  qed
qed

lemma poller_inv_same_view:
  assumes "poller_inv reg L w" and "same_view (chans w) (chans w')"
    and "pollers w' L = Some p'" and "pollers w L = Some p" and "m_epfd p' = m_epfd p"
    and "m_channels p' = m_channels p" and "reg (kst w') = reg (kst w)"
  shows "poller_inv reg L w'"
proof -
  from assms(1,4) have b: "booked L p (chans w)" and r: "reg (kst w) (m_epfd p) = interest p (chans w)"
    by (auto elim: poller_invE)
  from booked_same_view [OF assms(2) b] have "booked L p' (chans w')"
    using assms(6) by (simp add: booked_def)
  moreover have "interest p' (chans w') = interest p (chans w)"
    using interest_same_view [OF assms(2), of p] assms(6) by (simp add: interest_def fun_eq_iff)
  ultimately show ?thesis using assms r by (simp add: poller_inv_def)
qed

definition set_revents_all :: "epoll_event list \<Rightarrow> (chan_ptr \<rightharpoonup> channel) \<Rightarrow> (chan_ptr \<rightharpoonup> channel)" where
  "set_revents_all evs C =
     fold (\<lambda>(ev, c) C. C(c := map_option (\<lambda>ch. ch\<lparr>m_revents := ev\<rparr>) (C c))) evs C"

lemma set_revents_all_simps [simp]:
  "set_revents_all [] C = C"
  "set_revents_all ((ev, c) # evs) C =
     set_revents_all evs (C(c := map_option (\<lambda>ch. ch\<lparr>m_revents := ev\<rparr>) (C c)))"
  by (simp_all add: set_revents_all_def)

lemma fill_loop_ok:
  "\<forall>(ev, c) \<in> set evs. chans w c \<noteq> None \<Longrightarrow>
   fill_loop evs active w = Inr (active @ map snd evs, w\<lparr>chans := set_revents_all evs (chans w)\<rparr>)"
proof (induction evs active w rule: fill_loop.induct)
  case (1 active w)
  then show ?case by simp
next
  case (2 ev c evs active w)
  then obtain ch where ch: "chans w c = Some ch" by auto
  let ?w = "modify_chan c (\<lambda>ch. ch\<lparr>m_revents := ev\<rparr>) w"
  have "\<forall>(ev, d) \<in> set evs. chans ?w d \<noteq> None" using 2(2) ch by auto
  with ch have "fill_loop evs (active @ [c]) ?w =
      Inr ((active @ [c]) @ map snd evs, ?w\<lparr>chans := set_revents_all evs (chans ?w)\<rparr>)"
    by (intro 2(1)) simp_all
  moreover have "fill_loop ((ev, c) # evs) active w = fill_loop evs (active @ [c]) ?w"
    using ch by simp
  ultimately have "fill_loop ((ev, c) # evs) active w =
      Inr (active @ map snd ((ev, c) # evs), ?w\<lparr>chans := set_revents_all evs (chans ?w)\<rparr>)"
    by (simp only: append_assoc append_Cons append_Nil list.map snd_conv)
  also have "?w\<lparr>chans := set_revents_all evs (chans ?w)\<rparr> =
      w\<lparr>chans := set_revents_all ((ev, c) # evs) (chans w)\<rparr>"
    by (simp only: set_revents_all_simps chans_modify_chan) (simp add: modify_chan_def)
  finally show ?case .
qed

lemma set_revents_all_view: "same_view C (set_revents_all evs C)"
proof (induction evs arbitrary: C)
  case Nil
  then show ?case by simp
next
  case (Cons e evs)
  obtain ev c where e: "e = (ev, c)" by (cases e)
  let ?C = "C(c := map_option (\<lambda>ch. ch\<lparr>m_revents := ev\<rparr>) (C c))"
  have "same_view C ?C"
    by (cases "C c") (simp_all add: same_view_def reg_view_def)
  moreover have "same_view ?C (set_revents_all evs ?C)" by (rule Cons.IH)
  ultimately show ?case by (auto simp: e elim: same_view_trans)
qed

text \<open>The channels the kernel reports are registered and alive.\<close>

lemma registered_alive:
  assumes "poller_inv reg L w" and "pollers w L = Some p" and "reg (kst w) (m_epfd p) f = Some (m, c)"
  shows "\<exists>ch. chans w c = Some ch \<and> chan_loop ch = L \<and> m_index ch = kAdded"
proof -
  from assms have b: "booked L p (chans w)" and "interest p (chans w) f = Some (m, c)"
    by (auto elim: poller_invE)
  then obtain ch where "m_channels p f = Some c" "chans w c = Some ch" "m_index ch = kAdded"
    by (auto simp: interest_def split: option.splits if_splits)
  with bookedD1 [OF b, of f c] show ?thesis by auto
qed

lemma take_drop_front: "length evs \<le> n \<Longrightarrow> length xs = n \<Longrightarrow>
    take n (evs @ drop (length evs) xs) = evs @ drop (length evs) xs"
  by simp

definition events_capacity :: "poller \<Rightarrow> nat" where
  "events_capacity p = length (m_evlist p)"

lemma poll_ok:
  assumes W: "epoll_wait_contract K reg" and inv: "poller_inv reg L w" and p: "pollers w L = Some p"
    and call: "sys_epoll_wait K (m_epfd p) (length (m_evlist p)) t (kst w) = ((r, evs, e), k1)"
  shows "\<exists>now w' p'. poll K L t active w = Inr (now, active @ map snd evs, w') \<and>
    poller_inv reg L w' \<and> chans w' = set_revents_all evs (chans w) \<and>
    pollers w' = (pollers w)(L \<mapsto> p') \<and> m_channels p' = m_channels p \<and> m_epfd p' = m_epfd p \<and>
    events_capacity p' = (if evs \<noteq> [] \<and> length evs = events_capacity p then 2 * events_capacity p
                          else events_capacity p)"
proof -
  obtain now k2 where now: "sys_now K k1 = (now, k2)" by (cases "sys_now K k1")
  have all: "\<forall>ep m t k r evs e k'. sys_epoll_wait K ep m t k = ((r, evs, e), k') \<longrightarrow>
        int (length evs) = max r 0 \<and> length evs \<le> m \<and> reg k' = reg k \<and>
        (\<forall>(ev, c) \<in> set evs. \<exists>f mask. reg k ep f = Some (mask, c))"
    and clock: "\<forall>k. reg (snd (sys_now K k)) = reg k"
    using W unfolding epoll_wait_contract_def by blast+
  from all [rule_format, OF call] have n: "int (length evs) = max r 0"
    and le: "length evs \<le> length (m_evlist p)" and k1: "reg k1 = reg (kst w)"
    and rep: "\<forall>(ev, c) \<in> set evs. \<exists>f mask. reg (kst w) (m_epfd p) f = Some (mask, c)" by blast+
  have k2: "reg k2 = reg (kst w)" using clock [rule_format, of k1] now k1 by simp
  have live: "\<forall>(ev, c) \<in> set evs. chans w c \<noteq> None"
    using rep registered_alive [OF inv p] by fastforce
  let ?p1 = "p\<lparr>m_evlist := evs @ drop (length evs) (m_evlist p)\<rparr>"
  let ?w1 = "w\<lparr>kst := k2, pollers := (pollers w)(L \<mapsto> ?p1)\<rparr>"
  show ?thesis
  proof (cases "0 < r")
    case False
    then have nil: "evs = []" using n by simp
    have "poll K L t active w = Inr (now, active, ?w1)"
      using call now p False nil by (simp add: poll_def the_poller_def)
    moreover have "poller_inv reg L ?w1"
      by (rule poller_inv_same_view [OF inv _ _ p, where p' = ?p1]) (simp_all add: k2)
    ultimately show ?thesis using nil
      by (intro exI [of _ now] exI [of _ ?w1] exI [of _ ?p1])
        (simp add: events_capacity_def set_revents_all_def)
  next
    case True
    then have r: "nat r = length evs" "evs \<noteq> []" using n by auto
    let ?w2 = "?w1\<lparr>chans := set_revents_all evs (chans w)\<rparr>"
    let ?p2 = "if length evs = length (m_evlist p)
      then ?p1\<lparr>m_evlist := m_evlist ?p1 @ replicate (length (m_evlist p)) (0, 0)\<rparr> else ?p1"
    let ?w3 = "?w2\<lparr>pollers := (pollers ?w2)(L \<mapsto> ?p2)\<rparr>"
    have "fillActiveChannels (nat r) ?p1 active ?w1 = Inr (active @ map snd evs, ?w2)"
      using fill_loop_ok [of evs ?w1 active] live le r
      by (simp add: fillActiveChannels_def)
    then have "poll K L t active w = Inr (now, active @ map snd evs, ?w3)"
      using call now p True le r by (simp add: poll_def the_poller_def)
    moreover have "poller_inv reg L ?w3"
      by (rule poller_inv_same_view [OF inv _ _ p, where p' = ?p2])
        (simp_all add: k2 set_revents_all_view)
    moreover have "m_channels ?p2 = m_channels p" "m_epfd ?p2 = m_epfd p"
        "events_capacity ?p2 = (if length evs = events_capacity p then 2 * events_capacity p
                          else events_capacity p)"
      using le by (simp_all add: events_capacity_def)
    ultimately show ?thesis using r(2)
      by (intro exI [of _ now] exI [of _ ?w3] exI [of _ ?p2]) simp
  qed
qed


section \<open>What the operations leave alone\<close>

lemma more_epoll_update [frame]:
  "epoll_update K op L c w = Inr w' \<Longrightarrow> poll_world.more w' = poll_world.more w"
  by (auto simp: epoll_update_def split: prod.splits if_splits)

lemma poll_more_modify_chan [simp]: "poll_world.more (modify_chan c f w) = poll_world.more w"
  by (simp add: modify_chan_def)

lemma more_updateChannel [frame]:
  "updateChannel K L c w = Inr w' \<Longrightarrow> poll_world.more w' = poll_world.more w"
  by (auto simp: updateChannel_def Let_def dest!: more_epoll_update split: if_splits)

lemma more_removeChannel [frame]:
  "removeChannel K L c w = Inr w' \<Longrightarrow> poll_world.more w' = poll_world.more w"
  by (auto simp: removeChannel_def Let_def dest!: more_epoll_update split: if_splits)

lemma more_update_events [frame]:
  "update_events K c f w = Inr w' \<Longrightarrow> poll_world.more w' = poll_world.more w"
  by (auto simp: update_events_def dest!: more_updateChannel)

lemma more_channel_remove [frame]:
  "channel_remove K c w = Inr w' \<Longrightarrow> poll_world.more w' = poll_world.more w"
  by (auto simp: channel_remove_def dest!: more_removeChannel)

lemma more_fill_loop [frame]:
  fixes w :: "('k, 'a) poll_world_scheme"
  shows "fill_loop evs active w = Inr (a, w') \<Longrightarrow> poll_world.more w' = poll_world.more w"
  by (induction evs active w rule: fill_loop.induct) auto

lemma more_poll [frame]:
  "poll K L t active w = Inr (now, a, w') \<Longrightarrow> poll_world.more w' = poll_world.more w"
  by (auto simp: poll_def fillActiveChannels_def Let_def dest!: more_fill_loop
      split: prod.splits if_splits)

end
