(* ===== verification/EventLoop.thy ===== *)
theory EventLoop
  imports Poller
begin

text \<open>
  \<open>src/src/EventLoop.h\<close> and \<open>EventLoop.cpp\<close>: one loop per thread, which polls, dispatches events
  and runs the functors other code queued for it. Functors are the values the sources bind into
  \<open>std::function<void()>\<close>; running one is a parameter (\<open>exec\<close>), instantiated in TcpServer.
  \<open>queueInLoop\<close> and \<open>doPendingFunctors\<close> are also given as the atomic steps they consist of, for the
  step relation in which a loop and other threads interleave.
\<close>

section \<open>State\<close>

datatype functor_t =
    ConnectEstablished conn_ptr
  | ConnectDestoryed conn_ptr
  | SendInLoop conn_ptr addr size_t
  | ShutdownInLoop conn_ptr
  | WriteCompleteCb nat conn_ptr
  | HighWaterMarkCb nat conn_ptr size_t
  | RemoveConnectionInLoop conn_ptr
  | AcceptorListen
  | UserFunctor nat

record event_loop =
  m_looping :: bool
  m_quit :: bool
  m_threadId :: int
  m_pollReturnTime :: timestamp
  m_wakeupFd :: fd
  m_wakeupChannel :: chan_ptr
  m_activeChannels :: "chan_ptr list"
  m_callingPendingFunctors :: bool
  m_pendingFunctors :: "functor_t list"
  loop_name :: string

text \<open>
  The loops that exist, the thread that is running (the value of \<open>CurrentThread::tid()\<close>) and the
  thread-local \<open>t_loopInThisThread\<close>.
\<close>

record 'k loop_world = "'k poll_world" +
  loops :: "loop_ptr \<rightharpoonup> event_loop"
  cur_tid :: int
  t_loopInThisThread :: "int \<Rightarrow> loop_ptr option"

definition kPollTimeMs :: int where
  "kPollTimeMs = 10000"

definition modify_loop ::
    "loop_ptr \<Rightarrow> (event_loop \<Rightarrow> event_loop) \<Rightarrow> ('k, 'a) loop_world_scheme
     \<Rightarrow> ('k, 'a) loop_world_scheme" where
  "modify_loop L f w = w\<lparr>loops := (loops w)(L := map_option f (loops w L))\<rparr>"

definition isInLoopThread :: "event_loop \<Rightarrow> ('k, 'a) loop_world_scheme \<Rightarrow> bool" where
  "isInLoopThread l w \<longleftrightarrow> m_threadId l = cur_tid w"

section \<open>Waking up\<close>

text \<open>The number of bytes written or read is only compared to 8 for a log line.\<close>

definition wakeup ::
    "'k kernel \<Rightarrow> loop_ptr \<Rightarrow> ('k, 'a) loop_world_scheme \<Rightarrow> ('k, 'a) loop_world_scheme res" where
  "wakeup K L w =
     bindR (deref (loops w) L) (\<lambda>l.
       case sys_write K (m_wakeupFd l) eventfd_one (kst w) of (_, k') \<Rightarrow> Inr (w\<lparr>kst := k'\<rparr>))"

definition loop_handleRead ::
    "'k kernel \<Rightarrow> loop_ptr \<Rightarrow> ('k, 'a) loop_world_scheme \<Rightarrow> ('k, 'a) loop_world_scheme res" where
  "loop_handleRead K L w =
     bindR (deref (loops w) L) (\<lambda>l.
       case sys_read K (m_wakeupFd l) 8 (kst w) of (_, k') \<Rightarrow> Inr (w\<lparr>kst := k'\<rparr>))"

definition quit ::
    "'k kernel \<Rightarrow> loop_ptr \<Rightarrow> ('k, 'a) loop_world_scheme \<Rightarrow> ('k, 'a) loop_world_scheme res" where
  "quit K L w =
     bindR (deref (loops w) L) (\<lambda>l.
       let w1 = modify_loop L (\<lambda>l. l\<lparr>m_quit := True\<rparr>) w
       in if \<not> isInLoopThread l w1 then wakeup K L w1 else Inr w1)"

section \<open>Queueing functors\<close>

text \<open>The two steps of \<open>queueInLoop\<close>: the push under the mutex, then the test and the wake-up.\<close>

definition queue_push ::
    "loop_ptr \<Rightarrow> functor_t \<Rightarrow> ('k, 'a) loop_world_scheme \<Rightarrow> ('k, 'a) loop_world_scheme res" where
  "queue_push L f w =
     bindR (deref (loops w) L) (\<lambda>_.
       Inr (modify_loop L (\<lambda>l. l\<lparr>m_pendingFunctors := m_pendingFunctors l @ [f]\<rparr>) w))"

definition queue_signal ::
    "'k kernel \<Rightarrow> loop_ptr \<Rightarrow> ('k, 'a) loop_world_scheme \<Rightarrow> ('k, 'a) loop_world_scheme res" where
  "queue_signal K L w =
     bindR (deref (loops w) L) (\<lambda>l.
       if \<not> isInLoopThread l w \<or> m_callingPendingFunctors l then wakeup K L w else Inr w)"

definition queueInLoop ::
    "'k kernel \<Rightarrow> loop_ptr \<Rightarrow> functor_t \<Rightarrow> ('k, 'a) loop_world_scheme
     \<Rightarrow> ('k, 'a) loop_world_scheme res" where
  "queueInLoop K L f w = bindR (queue_push L f w) (queue_signal K L)"

text \<open>\<open>runInLoop(cb)\<close>: \<open>now\<close> is what calling \<open>cb\<close> does, \<open>f\<close> the functor that stands for it.\<close>

definition runInLoop ::
    "'k kernel \<Rightarrow> loop_ptr \<Rightarrow> functor_t
     \<Rightarrow> (('k, 'a) loop_world_scheme \<Rightarrow> ('k, 'a) loop_world_scheme res)
     \<Rightarrow> ('k, 'a) loop_world_scheme \<Rightarrow> ('k, 'a) loop_world_scheme res" where
  "runInLoop K L f now w =
     bindR (deref (loops w) L) (\<lambda>l.
       if isInLoopThread l w then now w else queueInLoop K L f w)"

section \<open>Running functors\<close>

type_synonym 'w exec = "functor_t \<Rightarrow> 'w \<Rightarrow> 'w res"

definition set_calling ::
    "bool \<Rightarrow> loop_ptr \<Rightarrow> ('k, 'a) loop_world_scheme \<Rightarrow> ('k, 'a) loop_world_scheme res" where
  "set_calling b L w =
     bindR (deref (loops w) L) (\<lambda>_. Inr (modify_loop L (\<lambda>l. l\<lparr>m_callingPendingFunctors := b\<rparr>) w))"

definition swap_pending ::
    "loop_ptr \<Rightarrow> ('k, 'a) loop_world_scheme \<Rightarrow> (functor_t list \<times> ('k, 'a) loop_world_scheme) res" where
  "swap_pending L w =
     bindR (deref (loops w) L) (\<lambda>l.
       Inr (m_pendingFunctors l, modify_loop L (\<lambda>l. l\<lparr>m_pendingFunctors := []\<rparr>) w))"

fun run_functors :: "'w exec \<Rightarrow> functor_t list \<Rightarrow> 'w \<Rightarrow> 'w res" where
  "run_functors exec [] w = Inr w"
| "run_functors exec (f # fs) w = bindR (exec f w) (run_functors exec fs)"

definition doPendingFunctors ::
    "('k, 'a) loop_world_scheme exec \<Rightarrow> loop_ptr \<Rightarrow> ('k, 'a) loop_world_scheme
     \<Rightarrow> ('k, 'a) loop_world_scheme res" where
  "doPendingFunctors exec L w =
     bindR (set_calling True L w) (\<lambda>w.
     bindR (swap_pending L w) (\<lambda>(funcs, w).
     bindR (run_functors exec funcs w) (set_calling False L)))"

section \<open>The loop\<close>

fun handle_active ::
    "(chan_ptr \<Rightarrow> timestamp \<Rightarrow> 'w \<Rightarrow> 'w res) \<Rightarrow> timestamp \<Rightarrow> chan_ptr list \<Rightarrow> 'w \<Rightarrow> 'w res" where
  "handle_active h t [] w = Inr w"
| "handle_active h t (c # cs) w = bindR (h c t w) (handle_active h t cs)"

text \<open>The three phases of an iteration; \<open>h\<close> is \<open>Channel::handleEvent\<close>.\<close>

definition poll_phase ::
    "'k kernel \<Rightarrow> loop_ptr \<Rightarrow> ('k, 'a) loop_world_scheme \<Rightarrow> ('k, 'a) loop_world_scheme res" where
  "poll_phase K L w =
     bindR (poll K L kPollTimeMs [] w) (\<lambda>(now, active, w1).
     bindR (deref (loops w1) L) (\<lambda>_.
       Inr (modify_loop L (\<lambda>l. l\<lparr>m_activeChannels := active, m_pollReturnTime := now\<rparr>) w1)))"

definition loop_iteration ::
    "'k kernel \<Rightarrow> (chan_ptr \<Rightarrow> timestamp \<Rightarrow> ('k, 'a) loop_world_scheme \<Rightarrow> ('k, 'a) loop_world_scheme res)
     \<Rightarrow> ('k, 'a) loop_world_scheme exec \<Rightarrow> loop_ptr \<Rightarrow> ('k, 'a) loop_world_scheme
     \<Rightarrow> ('k, 'a) loop_world_scheme res" where
  "loop_iteration K h exec L w =
     bindR (poll_phase K L w) (\<lambda>w.
     bindR (deref (loops w) L) (\<lambda>l.
     bindR (handle_active h (m_pollReturnTime l) (m_activeChannels l) w)
       (doPendingFunctors exec L)))"

text \<open>\<open>while(!m_quit)\<close> with fuel: \<open>None\<close> when the loop is still running after that many iterations.\<close>

fun loop_while ::
    "nat \<Rightarrow> loop_ptr \<Rightarrow> (('k, 'a) loop_world_scheme \<Rightarrow> ('k, 'a) loop_world_scheme res)
     \<Rightarrow> ('k, 'a) loop_world_scheme \<Rightarrow> ('k, 'a) loop_world_scheme res option" where
  "loop_while 0 L body w = None"
| "loop_while (Suc fuel) L body w =
     (case deref (loops w) L of
        Inl e \<Rightarrow> Some (Inl e)
      | Inr l \<Rightarrow>
          if m_quit l then Some (Inr w)
          else (case body w of Inl e \<Rightarrow> Some (Inl e) | Inr w' \<Rightarrow> loop_while fuel L body w'))"

definition loop_start :: "loop_ptr \<Rightarrow> ('k, 'a) loop_world_scheme \<Rightarrow> ('k, 'a) loop_world_scheme" where
  "loop_start L w = modify_loop L (\<lambda>l. l\<lparr>m_looping := True, m_quit := False\<rparr>) w"

definition loop ::
    "nat \<Rightarrow> 'k kernel
     \<Rightarrow> (chan_ptr \<Rightarrow> timestamp \<Rightarrow> ('k, 'a) loop_world_scheme \<Rightarrow> ('k, 'a) loop_world_scheme res)
     \<Rightarrow> ('k, 'a) loop_world_scheme exec \<Rightarrow> loop_ptr \<Rightarrow> ('k, 'a) loop_world_scheme
     \<Rightarrow> ('k, 'a) loop_world_scheme res option" where
  "loop fuel K h exec L w =
     map_option (\<lambda>r. bindR r (\<lambda>w. Inr (modify_loop L (\<lambda>l. l\<lparr>m_looping := False\<rparr>) w)))
       (loop_while fuel L (loop_iteration K h exec L) (loop_start L w))"

section \<open>Construction and destruction\<close>

definition createEventFd ::
    "'k kernel \<Rightarrow> ('k, 'a) loop_world_scheme \<Rightarrow> (fd \<times> ('k, 'a) loop_world_scheme) res" where
  "createEventFd K w =
     (case sys_eventfd K (kst w) of (evfd, k') \<Rightarrow>
        if evfd < 0 then Inl Aborted else Inr (evfd, w\<lparr>kst := k'\<rparr>))"

text \<open>The constructor of a loop at address \<open>L\<close> whose wake-up channel is allocated at \<open>c\<close>.\<close>

definition newEventLoop ::
    "'k kernel \<Rightarrow> bool \<Rightarrow> string \<Rightarrow> loop_ptr \<Rightarrow> chan_ptr \<Rightarrow> ('k, 'a) loop_world_scheme
     \<Rightarrow> ('k, 'a) loop_world_scheme res" where
  "newEventLoop K use_poll name L c w =
     bindR (newDefaultPoller K use_poll w) (\<lambda>(po, w).
     bindR (createEventFd K w) (\<lambda>(evfd, w).
       let l = \<lparr>m_looping = False, m_quit = False, m_threadId = cur_tid w,
                m_pollReturnTime = 0, m_wakeupFd = evfd, m_wakeupChannel = c,
                m_activeChannels = [], m_callingPendingFunctors = False,
                m_pendingFunctors = [], loop_name = name\<rparr>;
           w1 = w\<lparr>pollers := (pollers w)(L := po), loops := (loops w)(L \<mapsto> l),
                  chans := (chans w)(c \<mapsto> newChannel L evfd)\<rparr>
       in if t_loopInThisThread w1 (cur_tid w1) \<noteq> None then Inl Aborted
          else let w2 = w1\<lparr>t_loopInThisThread := (t_loopInThisThread w1)(cur_tid w1 := Some L)\<rparr>;
                   w3 = modify_chan c (\<lambda>ch. ch\<lparr>m_readCallback := Some (WakeupHandleRead L)\<rparr>) w2
               in enableReading K c w3))"

text \<open>The destructor, with those of the members: the wake-up channel, then the poller.\<close>

definition destroyEventLoop ::
    "'k kernel \<Rightarrow> loop_ptr \<Rightarrow> ('k, 'a) loop_world_scheme \<Rightarrow> ('k, 'a) loop_world_scheme res" where
  "destroyEventLoop K L w =
     bindR (deref (loops w) L) (\<lambda>l.
     bindR (disableAll K (m_wakeupChannel l) w) (\<lambda>w.
     bindR (channel_remove K (m_wakeupChannel l) w) (\<lambda>w.
     bindR (the_poller w L) (\<lambda>p.
       let k1 = sys_close K (m_wakeupFd l) (kst w);
           k2 = sys_close K (m_epfd p) k1
       in Inr (w\<lparr>kst := k2, t_loopInThisThread := (t_loopInThisThread w)(cur_tid w := None),
                 chans := (chans w)(m_wakeupChannel l := None),
                 pollers := (pollers w)(L := None), loops := (loops w)(L := None)\<rparr>)))))"

section \<open>Facts\<close>

lemma loops_modify_loop [simp]:
  "loops (modify_loop L f w) = (loops w)(L := map_option f (loops w L))"
  by (simp add: modify_loop_def)

lemma modify_loop_sel [simp]:
  "kst (modify_loop L f w) = kst w" "cur_tid (modify_loop L f w) = cur_tid w"
  "chans (modify_loop L f w) = chans w" "pollers (modify_loop L f w) = pollers w"
  "loop_world.more (modify_loop L f w) = loop_world.more w"
  by (simp_all add: modify_loop_def)

text \<open>The fields above the poller's are a function of \<open>poll_world.more\<close>.\<close>

lemma loop_fields_more:
  assumes "poll_world.more w' = poll_world.more (w :: ('k, 'a) loop_world_scheme)"
  shows "loops w' = loops w" and "cur_tid w' = cur_tid w"
    and "loop_world.more w' = loop_world.more w"
  using assms by (cases w; cases w'; simp)+


lemma modify_loop_some:
  "loops w L = Some l \<Longrightarrow> modify_loop L f w = w\<lparr>loops := (loops w)(L \<mapsto> f l)\<rparr>"
  by (simp add: modify_loop_def)

section \<open>The queue of a loop\<close>

definition pendings :: "('k, 'a) loop_world_scheme \<Rightarrow> loop_ptr \<Rightarrow> functor_t list" where
  "pendings w L = (case loops w L of None \<Rightarrow> [] | Some l \<Rightarrow> m_pendingFunctors l)"

definition wakes :: "event_loop \<Rightarrow> ('k, 'a) loop_world_scheme \<Rightarrow> bool" where
  "wakes l w \<longleftrightarrow> m_threadId l \<noteq> cur_tid w \<or> m_callingPendingFunctors l"

text \<open>Queueing never fails on a live loop; it writes the wake-up descriptor exactly when \<open>wakes\<close>.\<close>

lemma queueInLoop_eq:
  assumes "loops w L = Some l"
  shows "queueInLoop K L f w =
    Inr (w\<lparr>loops := (loops w)(L \<mapsto> l\<lparr>m_pendingFunctors := m_pendingFunctors l @ [f]\<rparr>),
           kst := if wakes l w then snd (sys_write K (m_wakeupFd l) eventfd_one (kst w))
                  else kst w\<rparr>)"
  using assms
  by (auto simp: queueInLoop_def queue_push_def queue_signal_def modify_loop_some isInLoopThread_def
      wakes_def wakeup_def split: prod.splits)

lemma swap_pending_eq:
  "loops w L = Some l \<Longrightarrow>
   swap_pending L w = Inr (pendings w L, w\<lparr>loops := (loops w)(L \<mapsto> l\<lparr>m_pendingFunctors := []\<rparr>)\<rparr>)"
  by (simp add: swap_pending_def pendings_def modify_loop_some)

text \<open>
  What TcpConnection and TcpServer rely on: functors given to a loop are taken from it in the order
  they were given, by one swap, and other loops' queues are not touched.
\<close>

locale functor_queue =
  fixes alive :: "'w \<Rightarrow> loop_ptr \<Rightarrow> bool"
    and items :: "'w \<Rightarrow> loop_ptr \<Rightarrow> functor_t list"
    and push :: "loop_ptr \<Rightarrow> functor_t \<Rightarrow> 'w \<Rightarrow> 'w res"
    and take_all :: "loop_ptr \<Rightarrow> 'w \<Rightarrow> (functor_t list \<times> 'w) res"
  assumes push_ok: "alive w L \<Longrightarrow>
      \<exists>w'. push L f w = Inr w' \<and> alive w' = alive w \<and> items w' = (items w)(L := items w L @ [f])"
    and take_all_ok: "alive w L \<Longrightarrow>
      \<exists>w'. take_all L w = Inr (items w L, w') \<and> alive w' = alive w \<and> items w' = (items w)(L := [])"
begin

lemma push_all:
  "alive w L \<Longrightarrow>
   \<exists>w'. run_functors (push L) fs w = Inr w' \<and> alive w' = alive w \<and>
        items w' = (items w)(L := items w L @ fs)"
proof (induction fs arbitrary: w)
  case Nil
  then show ?case by simp
next
  case (Cons f fs)
  from push_ok [OF Cons.prems, of f] obtain w1 where w1:
    "push L f w = Inr w1" "alive w1 = alive w" "items w1 = (items w)(L := items w L @ [f])" by blast
  with Cons.prems have "alive w1 L" by simp
  from Cons.IH [OF this] w1 show ?case by (auto simp: fun_eq_iff)
qed

lemma fifo:
  assumes "alive w L"
  shows "\<exists>w'. bindR (run_functors (push L) fs w) (take_all L) = Inr (items w L @ fs, w') \<and>
              items w' = (items w)(L := [])"
proof -
  from push_all [OF assms, of fs] obtain w1 where w1: "run_functors (push L) fs w = Inr w1"
    "alive w1 = alive w" "items w1 = (items w)(L := items w L @ fs)" by blast
  with assms have "alive w1 L" by simp
  from take_all_ok [OF this] w1 show ?thesis by (auto simp: fun_eq_iff)
qed

end

definition loop_alive :: "('k, 'a) loop_world_scheme \<Rightarrow> loop_ptr \<Rightarrow> bool" where
  "loop_alive w L \<longleftrightarrow> loops w L \<noteq> None"

interpretation loopq: functor_queue loop_alive pendings "queueInLoop K" swap_pending
  for K :: "'k kernel"
proof
  fix w :: "('k, 'a) loop_world_scheme" and L f
  assume "loop_alive w L"
  then obtain l where l: "loops w L = Some l" by (auto simp: loop_alive_def)
  then show "\<exists>w'. queueInLoop K L f w = Inr w' \<and> loop_alive w' = loop_alive w \<and>
      pendings w' = (pendings w)(L := pendings w L @ [f])"
    by (auto simp: queueInLoop_eq loop_alive_def pendings_def fun_eq_iff)
  from l show "\<exists>w'. swap_pending L w = Inr (pendings w L, w') \<and> loop_alive w' = loop_alive w \<and>
      pendings w' = (pendings w)(L := [])"
    by (auto simp: swap_pending_eq loop_alive_def pendings_def fun_eq_iff)
qed

section \<open>A drain runs the functors that were pending when it began\<close>

lemma run_functors_append:
  "run_functors exec (fs @ gs) w = bindR (run_functors exec fs w) (run_functors exec gs)"
  by (induction fs arbitrary: w) (auto split: sum.splits simp: bindR_def)

definition appending :: "('k, 'a) loop_world_scheme exec \<Rightarrow> loop_ptr \<Rightarrow> bool" where
  "appending exec L \<longleftrightarrow>
     (\<forall>f w w'. exec f w = Inr w' \<longrightarrow> loops w L \<noteq> None \<longrightarrow>
        loops w' L \<noteq> None \<and> (\<exists>new. pendings w' L = pendings w L @ new))"

lemma run_functors_appending:
  assumes "appending exec L"
  shows "run_functors exec fs w = Inr w' \<Longrightarrow> loops w L \<noteq> None \<Longrightarrow>
    loops w' L \<noteq> None \<and> (\<exists>new. pendings w' L = pendings w L @ new)"
proof (induction fs arbitrary: w)
  case Nil
  then show ?case by simp
next
  case (Cons f fs)
  then obtain w1 where w1: "exec f w = Inr w1" "run_functors exec fs w1 = Inr w'" by auto
  with assms Cons.prems(2) obtain new where "loops w1 L \<noteq> None" "pendings w1 L = pendings w L @ new"
    unfolding appending_def by blast
  with Cons.IH [OF w1(2)] show ?case by auto
qed

lemma pendings_modify_calling [simp]:
  "pendings (modify_loop L (\<lambda>l. l\<lparr>m_callingPendingFunctors := b\<rparr>) w) = pendings w"
  by (auto simp: pendings_def fun_eq_iff split: option.splits)

lemma doPendingFunctors_eq:
  assumes "loops w L = Some l"
  shows "doPendingFunctors exec L w =
    bindR (run_functors exec (pendings w L)
             (w\<lparr>loops := (loops w)(L \<mapsto> l\<lparr>m_callingPendingFunctors := True, m_pendingFunctors := []\<rparr>)\<rparr>))
      (set_calling False L)"
proof -
  let ?w1 = "w\<lparr>loops := (loops w)(L \<mapsto> l\<lparr>m_callingPendingFunctors := True\<rparr>)\<rparr>"
  have "set_calling True L w = Inr ?w1" using assms by (simp add: set_calling_def modify_loop_some)
  moreover have "swap_pending L ?w1 = Inr (pendings w L, ?w1\<lparr>loops := (loops w)(L \<mapsto>
      l\<lparr>m_callingPendingFunctors := True, m_pendingFunctors := []\<rparr>)\<rparr>)"
    using assms by (simp add: swap_pending_eq pendings_def)
  ultimately show ?thesis by (simp add: doPendingFunctors_def)
qed

section \<open>When the loop ends\<close>

fun iterate :: "nat \<Rightarrow> ('w \<Rightarrow> 'w res) \<Rightarrow> 'w \<Rightarrow> 'w res" where
  "iterate 0 body w = Inr w"
| "iterate (Suc n) body w = bindR (body w) (iterate n body)"

definition quitting :: "loop_ptr \<Rightarrow> ('k, 'a) loop_world_scheme \<Rightarrow> bool" where
  "quitting L w \<longleftrightarrow> (case loops w L of None \<Rightarrow> False | Some l \<Rightarrow> m_quit l)"

definition running :: "loop_ptr \<Rightarrow> ('k, 'a) loop_world_scheme \<Rightarrow> bool" where
  "running L w \<longleftrightarrow> (case loops w L of None \<Rightarrow> False | Some l \<Rightarrow> \<not> m_quit l)"

lemma loop_while_steps:
  assumes "\<forall>m < n. \<exists>v. iterate m body w = Inr v \<and> running L v"
    and "iterate n body w = Inr w'" and "quitting L w'" and "n < fuel"
  shows "loop_while fuel L body w = Some (Inr w')"
  using assms
proof (induction n arbitrary: w fuel)
  case 0
  then obtain f where "fuel = Suc f" by (cases fuel) auto
  with 0 show ?case by (auto simp: quitting_def split: option.splits)
next
  case (Suc n)
  then obtain f where f: "fuel = Suc f" by (cases fuel) auto
  from Suc.prems(1) [rule_format, of 0] obtain l where l: "loops w L = Some l" "\<not> m_quit l"
    by (auto simp: running_def split: option.splits)
  from Suc.prems(2) obtain w1 where w1: "body w = Inr w1" "iterate n body w1 = Inr w'" by auto
  have "\<exists>v. iterate m body w1 = Inr v \<and> running L v" if "m < n" for m
    using Suc.prems(1) [rule_format, of "Suc m"] that w1(1) by auto
  with Suc.IH [of w1 f] Suc.prems(3,4) f w1 have "loop_while f L body w1 = Some (Inr w')" by simp
  with f l w1 show ?case by simp
qed

lemma loop_while_result:
  assumes "loop_while fuel L body w = Some (Inr w')"
  shows "\<exists>n < fuel. iterate n body w = Inr w' \<and> quitting L w' \<and>
    (\<forall>m < n. \<exists>v. iterate m body w = Inr v \<and> running L v)"
  using assms
proof (induction fuel arbitrary: w)
  case 0
  then show ?case by simp
next
  case (Suc fuel)
  then obtain l where l: "loops w L = Some l" by (cases "loops w L") auto
  show ?case
  proof (cases "m_quit l")
    case True
    with Suc.prems l show ?thesis by (intro exI [of _ 0]) (simp add: quitting_def)
  next
    case False
    with Suc.prems l obtain w1 where w1: "body w = Inr w1" "loop_while fuel L body w1 = Some (Inr w')"
      by (auto split: sum.splits)
    from Suc.IH [OF w1(2)] obtain n where n: "n < fuel" "iterate n body w1 = Inr w'" "quitting L w'"
      "\<forall>m < n. \<exists>v. iterate m body w1 = Inr v \<and> running L v" by blast
    have "\<exists>v. iterate m body w = Inr v \<and> running L v" if "m < Suc n" for m
      using that n(4) w1(1) l False by (cases m) (auto simp: running_def)
    with n w1 show ?thesis by (intro exI [of _ "Suc n"]) simp
  qed
qed

section \<open>A new loop\<close>

lemma register_loop_sel [simp]:
  "loops (register L p c ch ev k' (w :: ('k, 'a) loop_world_scheme)) = loops w"
  "cur_tid (register L p c ch ev k' (w :: ('k, 'a) loop_world_scheme)) = cur_tid w"
  "t_loopInThisThread (register L p c ch ev k' (w :: ('k, 'a) loop_world_scheme)) = t_loopInThisThread w"
  "loop_world.more (register L p c ch ev k' (w :: ('k, 'a) loop_world_scheme)) = loop_world.more w"
  "loops (unregister L p c ch k' (w :: ('k, 'a) loop_world_scheme)) = loops w"
  "cur_tid (unregister L p c ch k' (w :: ('k, 'a) loop_world_scheme)) = cur_tid w"
  "t_loopInThisThread (unregister L p c ch k' (w :: ('k, 'a) loop_world_scheme)) = t_loopInThisThread w"
  "loop_world.more (unregister L p c ch k' (w :: ('k, 'a) loop_world_scheme)) = loop_world.more w"
  by (simp_all add: register_def unregister_def)

text \<open>
  The address of the new loop is not that of a loop some channel belongs to, and the thread has no
  loop yet.
\<close>

definition fresh_loop :: "loop_ptr \<Rightarrow> chan_ptr \<Rightarrow> ('k, 'a) loop_world_scheme \<Rightarrow> bool" where
  "fresh_loop L c w \<longleftrightarrow>
     t_loopInThisThread w (cur_tid w) = None \<and> (\<forall>d ch. chans w d = Some ch \<longrightarrow> d \<noteq> c \<longrightarrow> chan_loop ch \<noteq> L)"

lemma newEventLoop_ok:
  assumes K: "epoll_contract K reg" "startup_contract K reg" and fresh: "fresh_loop L c w"
  shows "\<exists>w' l ch. newEventLoop K False name L c w = Inr w' \<and>
    loops w' = (loops w)(L \<mapsto> l) \<and> m_threadId l = cur_tid w \<and> \<not> m_quit l \<and>
    m_pendingFunctors l = [] \<and> m_wakeupChannel l = c \<and> loop_name l = name \<and>
    chans w' = (chans w)(c \<mapsto> ch) \<and> chan_loop ch = L \<and> m_fd ch = m_wakeupFd l \<and>
    m_events ch = kReadEvent \<and> m_readCallback ch = Some (WakeupHandleRead L) \<and>
    poller_inv reg L w' \<and> cur_tid w' = cur_tid w \<and>
    t_loopInThisThread w' = (t_loopInThisThread w)(cur_tid w := Some L) \<and>
    loop_world.more w' = loop_world.more w"
proof -
  obtain ep e k1 where c1: "sys_epoll_create1 K (kst w) = ((ep, e), k1)"
    by (metis surj_pair)
  obtain ef k2 where c2: "sys_eventfd K k1 = (ef, k2)" by (metis surj_pair)
  from K(2) c1 c2 have s: "0 \<le> ep" "reg k1 = (reg (kst w))(ep := Map.empty)" "0 \<le> ef" "reg k2 = reg k1"
    unfolding startup_contract_def by blast+
  let ?p = "\<lparr>m_epfd = ep, m_evlist = replicate kInitEventListSize (0, 0), m_channels = Map.empty\<rparr>"
  let ?l = "\<lparr>m_looping = False, m_quit = False, m_threadId = cur_tid w,
                m_pollReturnTime = 0, m_wakeupFd = ef, m_wakeupChannel = c,
                m_activeChannels = [], m_callingPendingFunctors = False,
                m_pendingFunctors = [], loop_name = name\<rparr>"
  let ?ch = "(newChannel L ef)\<lparr>m_readCallback := Some (WakeupHandleRead L)\<rparr>"
  let ?w = "w\<lparr>kst := k2, pollers := (pollers w)(L \<mapsto> ?p), loops := (loops w)(L \<mapsto> ?l),
      t_loopInThisThread := (t_loopInThisThread w)(cur_tid w := Some L), chans := (chans w)(c \<mapsto> ?ch)\<rparr>"
  have "newEventLoop K False name L c w = update_events K c (\<lambda>e. e OR kReadEvent) ?w"
    using c1 c2 s(1,3) fresh
    by (simp add: newEventLoop_def newDefaultPoller_def newEpollPoller_def createEventFd_def
        Let_def enableReading_def modify_chan_def fresh_loop_def cong: if_cong)
  moreover
  have b: "booked L ?p (chans ?w)"
    using fresh by (auto simp: booked_def fresh_loop_def newChannel_def kNew_def)
  have i: "reg (kst ?w) (m_epfd ?p) = interest ?p (chans ?w)"
    using s by (simp add: interest_def fun_eq_iff)
  have "poller_inv reg L ?w" using b i by (auto simp: poller_inv_def)
  moreover have "usable L ?w c" by (simp add: usable_def newChannel_def)
  ultimately obtain k' where k': "newEventLoop K False name L c w = Inr (register L ?p c ?ch (0 OR kReadEvent) k' ?w)"
      "poller_inv reg L (register L ?p c ?ch (0 OR kReadEvent) k' ?w)"
    using update_events_ok [OF K(1), where w = ?w and p = ?p and ch = ?ch and c = c and L = L
        and f = "\<lambda>e. e OR kReadEvent"]
    by (auto simp: newChannel_def)
  show ?thesis
    apply (rule exI [of _ "register L ?p c ?ch (0 OR kReadEvent) k' ?w"])
    apply (rule exI [of _ ?l])
    apply (rule exI [of _ "updated_channel ?ch (0 OR kReadEvent)"])
    using k'
    apply (simp add: newChannel_def)
    apply (simp add: register_def updated_channel_def)
    done
qed

end
