(* ===== verification/LoopProtocol.thy ===== *)
theory LoopProtocol
  imports EventLoop
begin

text \<open>
  The interleaving of one loop of \<open>EventLoop.cpp\<close> with other threads that queue functors for it.
  The loop's thread moves through the phases of \<open>EventLoop::loop\<close>; another thread runs
  \<open>queueInLoop\<close> in its two steps, the push under the mutex and the wake-up, between which anything
  may happen. Events and functors run the parameters \<open>h\<close> and \<open>exec\<close>.
\<close>

section \<open>States and steps\<close>

datatype pc =
    PcPoll
  | PcHandle "chan_ptr list"
  | PcCall
  | PcSwap
  | PcRun "functor_t list"

record 'w loop_sys =
  pc :: pc
  world :: 'w
  owing :: nat

abbreviation as_thread :: "int \<Rightarrow> ('k, 'a) loop_world_scheme \<Rightarrow> ('k, 'a) loop_world_scheme" where
  "as_thread t w \<equiv> w\<lparr>cur_tid := t\<rparr>"

inductive loop_step ::
    "'k kernel
     \<Rightarrow> (chan_ptr \<Rightarrow> timestamp \<Rightarrow> ('k, 'a) loop_world_scheme \<Rightarrow> ('k, 'a) loop_world_scheme res)
     \<Rightarrow> ('k, 'a) loop_world_scheme exec \<Rightarrow> loop_ptr
     \<Rightarrow> ('k, 'a) loop_world_scheme loop_sys \<Rightarrow> ('k, 'a) loop_world_scheme loop_sys \<Rightarrow> bool"
  for K h exec L where
  poll_returns:
    "pc s = PcPoll \<Longrightarrow> loops (world s) L = Some l \<Longrightarrow> \<not> m_quit l \<Longrightarrow>
     poll_phase K L (as_thread (m_threadId l) (world s)) = Inr w' \<Longrightarrow>
     loops w' L = Some l' \<Longrightarrow>
     loop_step K h exec L s (s\<lparr>pc := PcHandle (m_activeChannels l'), world := w'\<rparr>)"
| handle_one:
    "pc s = PcHandle (c # cs) \<Longrightarrow> loops (world s) L = Some l \<Longrightarrow>
     h c (m_pollReturnTime l) (as_thread (m_threadId l) (world s)) = Inr w' \<Longrightarrow>
     loop_step K h exec L s (s\<lparr>pc := PcHandle cs, world := w'\<rparr>)"
| handled_all:
    "pc s = PcHandle [] \<Longrightarrow> loop_step K h exec L s (s\<lparr>pc := PcCall\<rparr>)"
| call_pending:
    "pc s = PcCall \<Longrightarrow> set_calling True L (world s) = Inr w' \<Longrightarrow>
     loop_step K h exec L s (s\<lparr>pc := PcSwap, world := w'\<rparr>)"
| swap_queue:
    "pc s = PcSwap \<Longrightarrow> swap_pending L (world s) = Inr (funcs, w') \<Longrightarrow>
     loop_step K h exec L s (s\<lparr>pc := PcRun funcs, world := w'\<rparr>)"
| run_one:
    "pc s = PcRun (f # fs) \<Longrightarrow> loops (world s) L = Some l \<Longrightarrow>
     exec f (as_thread (m_threadId l) (world s)) = Inr w' \<Longrightarrow>
     loop_step K h exec L s (s\<lparr>pc := PcRun fs, world := w'\<rparr>)"
| ran_all:
    "pc s = PcRun [] \<Longrightarrow> set_calling False L (world s) = Inr w' \<Longrightarrow>
     loop_step K h exec L s (s\<lparr>pc := PcPoll, world := w'\<rparr>)"
| foreign_push:
    "loops (world s) L = Some l \<Longrightarrow> t \<noteq> m_threadId l \<Longrightarrow>
     queue_push L f (as_thread t (world s)) = Inr w' \<Longrightarrow>
     loop_step K h exec L s (s\<lparr>world := w', owing := Suc (owing s)\<rparr>)"
| foreign_signal:
    "loops (world s) L = Some l \<Longrightarrow> t \<noteq> m_threadId l \<Longrightarrow> owing s = Suc n \<Longrightarrow>
     queue_signal K L (as_thread t (world s)) = Inr w' \<Longrightarrow>
     loop_step K h exec L s (s\<lparr>world := w', owing := n\<rparr>)"

section \<open>Code that runs in the loop's thread\<close>

text \<open>
  What the argument needs of an event handler \<open>g\<close>, which runs before the functors: it leaves the loop's
  identity alone and only adds to the queue. It may reset the wake-up counter, as \<open>handleRead\<close> does.
\<close>

definition tame ::
    "loop_ptr \<Rightarrow> (('k, 'a) loop_world_scheme \<Rightarrow> ('k, 'a) loop_world_scheme res) \<Rightarrow> bool" where
  "tame L g \<longleftrightarrow>
     (\<forall>w w' l. g w = Inr w' \<longrightarrow> loops w L = Some l \<longrightarrow>
        (\<exists>l' new. loops w' L = Some l' \<and> m_wakeupFd l' = m_wakeupFd l \<and>
           m_callingPendingFunctors l' = m_callingPendingFunctors l \<and>
           m_pendingFunctors l' = m_pendingFunctors l @ new))"

lemma tame_id [simp]: "tame L Inr"
  by (simp add: tame_def)

lemma tame_wakeup_read: "tame L (loop_handleRead K L')"
  by (auto simp: tame_def loop_handleRead_def split: prod.splits)

text \<open>
  What it needs of a functor: besides that, while functors are being run, an addition comes with a
  positive wake-up counter and a positive counter stays positive. \<open>polite_queueInLoop\<close> below says that
  \<open>queueInLoop\<close> is such code.
\<close>

definition polite ::
    "('k \<Rightarrow> nat) \<Rightarrow> fd \<Rightarrow> loop_ptr
     \<Rightarrow> (('k, 'a) loop_world_scheme \<Rightarrow> ('k, 'a) loop_world_scheme res) \<Rightarrow> bool" where
  "polite cnt f L g \<longleftrightarrow>
     (\<forall>w w' l. g w = Inr w' \<longrightarrow> loops w L = Some l \<longrightarrow> m_wakeupFd l = f \<longrightarrow>
        cur_tid w = m_threadId l \<longrightarrow>
        (\<exists>l' new. loops w' L = Some l' \<and> m_threadId l' = m_threadId l \<and> m_wakeupFd l' = f \<and>
           m_callingPendingFunctors l' = m_callingPendingFunctors l \<and> cur_tid w' = cur_tid w \<and>
           m_pendingFunctors l' = m_pendingFunctors l @ new \<and>
           (m_callingPendingFunctors l \<longrightarrow> new \<noteq> [] \<or> 0 < cnt (kst w) \<longrightarrow> 0 < cnt (kst w'))))"

lemma politeD:
  assumes "polite cnt f L g" and "g w = Inr w'" and "loops w L = Some l" and "m_wakeupFd l = f"
    and "cur_tid w = m_threadId l"
  shows "\<exists>l' new. loops w' L = Some l' \<and> m_threadId l' = m_threadId l \<and> m_wakeupFd l' = f \<and>
    m_callingPendingFunctors l' = m_callingPendingFunctors l \<and> cur_tid w' = cur_tid w \<and>
    m_pendingFunctors l' = m_pendingFunctors l @ new \<and>
    (m_callingPendingFunctors l \<longrightarrow> new \<noteq> [] \<or> 0 < cnt (kst w) \<longrightarrow> 0 < cnt (kst w'))"
  using assms unfolding polite_def by blast

lemma polite_id [intro, simp]: "polite cnt f L Inr"
  by (auto simp: polite_def)

lemma polite_queueInLoop [intro]:
  assumes "eventfd_contract K cnt f"
  shows "polite cnt f L (queueInLoop K L x)"
  using eventfd_write_positive [OF assms]
  by (auto simp: polite_def queueInLoop_eq wakes_def)

lemma polite_bind [intro]:
  assumes g1: "polite cnt f L g1" and g2: "polite cnt f L g2"
  shows "polite cnt f L (\<lambda>w. bindR (g1 w) g2)"
  unfolding polite_def
proof (intro allI impI)
  fix w w' l
  assume r: "bindR (g1 w) g2 = Inr w'" and l: "loops w L = Some l" "m_wakeupFd l = f"
    "cur_tid w = m_threadId l"
  from r obtain w1 where w1: "g1 w = Inr w1" "g2 w1 = Inr w'" by auto
  from politeD [OF g1 w1(1) l] obtain l1 n1 where 1: "loops w1 L = Some l1"
    "m_threadId l1 = m_threadId l" "m_wakeupFd l1 = f" "cur_tid w1 = cur_tid w"
    "m_callingPendingFunctors l1 = m_callingPendingFunctors l"
    "m_pendingFunctors l1 = m_pendingFunctors l @ n1"
    "m_callingPendingFunctors l \<longrightarrow> n1 \<noteq> [] \<or> 0 < cnt (kst w) \<longrightarrow> 0 < cnt (kst w1)" by metis
  with l(3) have "cur_tid w1 = m_threadId l1" by simp
  from politeD [OF g2 w1(2) 1(1,3) this] obtain l2 n2 where 2: "loops w' L = Some l2"
    "m_threadId l2 = m_threadId l1" "m_wakeupFd l2 = f" "cur_tid w' = cur_tid w1"
    "m_callingPendingFunctors l2 = m_callingPendingFunctors l1"
    "m_pendingFunctors l2 = m_pendingFunctors l1 @ n2"
    "m_callingPendingFunctors l1 \<longrightarrow> n2 \<noteq> [] \<or> 0 < cnt (kst w1) \<longrightarrow> 0 < cnt (kst w')" by metis
  from 1 2 show "\<exists>l' new. loops w' L = Some l' \<and> m_threadId l' = m_threadId l \<and>
      m_wakeupFd l' = f \<and> m_callingPendingFunctors l' = m_callingPendingFunctors l \<and>
      cur_tid w' = cur_tid w \<and> m_pendingFunctors l' = m_pendingFunctors l @ new \<and>
      (m_callingPendingFunctors l \<longrightarrow> new \<noteq> [] \<or> 0 < cnt (kst w) \<longrightarrow> 0 < cnt (kst w'))"
    by (intro exI [of _ l2] exI [of _ "n1 @ n2"]) auto
qed

section \<open>The invariant\<close>

fun running_functors :: "pc \<Rightarrow> bool" where
  "running_functors PcSwap = True"
| "running_functors (PcRun fs) = True"
| "running_functors _ = False"

text \<open>The phases in which a functor left in the queue must have a wake-up due.\<close>

fun must_wake :: "pc \<Rightarrow> bool" where
  "must_wake PcPoll = True"
| "must_wake (PcRun fs) = True"
| "must_wake _ = False"

definition wake_inv ::
    "('k \<Rightarrow> nat) \<Rightarrow> fd \<Rightarrow> loop_ptr \<Rightarrow> ('k, 'a) loop_world_scheme loop_sys \<Rightarrow> bool" where
  "wake_inv cnt f L s \<longleftrightarrow>
     (\<exists>l. loops (world s) L = Some l \<and> m_wakeupFd l = f \<and>
        m_callingPendingFunctors l = running_functors (pc s) \<and>
        (must_wake (pc s) \<longrightarrow> m_pendingFunctors l \<noteq> [] \<longrightarrow>
           0 < cnt (kst (world s)) \<or> 0 < owing s))"

definition loop_init :: "fd \<Rightarrow> loop_ptr \<Rightarrow> ('k, 'a) loop_world_scheme loop_sys \<Rightarrow> bool" where
  "loop_init f L s \<longleftrightarrow>
     pc s = PcPoll \<and> owing s = 0 \<and>
     (\<exists>l. loops (world s) L = Some l \<and> m_wakeupFd l = f \<and> \<not> m_callingPendingFunctors l \<and>
          m_pendingFunctors l = [])"

lemma poll_phase_loop:
  assumes "poll_phase K L w = Inr w'" and "loops w L = Some l"
  shows "\<exists>l'. loops w' L = Some l' \<and> m_wakeupFd l' = m_wakeupFd l \<and>
    m_callingPendingFunctors l' = m_callingPendingFunctors l \<and>
    m_pendingFunctors l' = m_pendingFunctors l \<and> m_threadId l' = m_threadId l"
proof -
  from assms(1) obtain now active w1 where p: "poll K L kPollTimeMs [] w = Inr (now, active, w1)"
    and w': "w' = modify_loop L (\<lambda>l. l\<lparr>m_activeChannels := active, m_pollReturnTime := now\<rparr>) w1"
    by (auto simp: poll_phase_def)
  from loop_fields_more(1) [OF more_poll [OF p]] assms(2) w' show ?thesis by simp
qed

lemma queue_push_eq:
  "loops w L = Some l \<Longrightarrow> queue_push L f w =
   Inr (w\<lparr>loops := (loops w)(L \<mapsto> l\<lparr>m_pendingFunctors := m_pendingFunctors l @ [f]\<rparr>)\<rparr>)"
  by (simp add: queue_push_def modify_loop_some)

lemma queue_signal_eq:
  "loops w L = Some l \<Longrightarrow> queue_signal K L w =
   Inr (if wakes l w then w\<lparr>kst := snd (sys_write K (m_wakeupFd l) eventfd_one (kst w))\<rparr> else w)"
  by (auto simp: queue_signal_def wakes_def isInLoopThread_def wakeup_def split: prod.splits)

lemma wake_inv_run:
  assumes inv: "wake_inv cnt f L s" and g: "polite cnt f L g"
    and l: "loops (world s) L = Some l"
    and r: "g (as_thread (m_threadId l) (world s)) = Inr w'"
    and pc: "pc s = PcRun (x # xs)"
  shows "wake_inv cnt f L (s\<lparr>pc := PcRun xs, world := w'\<rparr>)"
proof -
  from inv l pc have i: "m_wakeupFd l = f" "m_callingPendingFunctors l"
    "m_pendingFunctors l \<noteq> [] \<longrightarrow> 0 < cnt (kst (world s)) \<or> 0 < owing s"
    by (simp_all add: wake_inv_def)
  have "loops (as_thread (m_threadId l) (world s)) L = Some l"
    "cur_tid (as_thread (m_threadId l) (world s)) = m_threadId l" using l by simp_all
  from politeD [OF g r this(1) i(1) this(2)] obtain l' new where n: "loops w' L = Some l'"
    "m_wakeupFd l' = f" "m_callingPendingFunctors l' = m_callingPendingFunctors l"
    "m_pendingFunctors l' = m_pendingFunctors l @ new"
    "m_callingPendingFunctors l \<longrightarrow> new \<noteq> [] \<or> 0 < cnt (kst (world s)) \<longrightarrow> 0 < cnt (kst w')"
    by (simp; blast)
  with i show ?thesis by (auto simp: wake_inv_def)
qed

lemma wake_inv_handle:
  assumes inv: "wake_inv cnt f L s" and g: "tame L g"
    and l: "loops (world s) L = Some l"
    and r: "g (as_thread (m_threadId l) (world s)) = Inr w'"
    and pc: "pc s = PcHandle (c # cs)"
  shows "wake_inv cnt f L (s\<lparr>pc := PcHandle cs, world := w'\<rparr>)"
proof -
  have "loops (as_thread (m_threadId l) (world s)) L = Some l" using l by simp
  with g r obtain l' new where "loops w' L = Some l'" "m_wakeupFd l' = m_wakeupFd l"
    "m_callingPendingFunctors l' = m_callingPendingFunctors l"
    unfolding tame_def by blast
  with inv l pc show ?thesis by (auto simp: wake_inv_def)
qed

lemma wake_inv_step:
  assumes K: "eventfd_contract K cnt f" and h: "\<forall>c t. tame L (h c t)"
    and e: "\<forall>x. polite cnt f L (exec x)"
    and inv: "wake_inv cnt f L s" and step: "loop_step K h exec L s t"
  shows "wake_inv cnt f L t"
  using step inv
proof (cases rule: loop_step.cases)
  case (poll_returns l w' l')
  from poll_phase_loop [OF poll_returns(5)] poll_returns inv show ?thesis
    by (auto simp: wake_inv_def)
next
  case (handle_one c cs l w')
  then show ?thesis
    using wake_inv_handle [OF inv h [rule_format], of l c "m_pollReturnTime l" w' c cs] by simp
next
  case handled_all
  then show ?thesis using inv by (auto simp: wake_inv_def)
next
  case (call_pending w')
  then show ?thesis using inv by (auto simp: wake_inv_def set_calling_def)
next
  case (swap_queue funcs w')
  then show ?thesis using inv by (auto simp: wake_inv_def swap_pending_eq)
next
  case (run_one x xs l w')
  then show ?thesis
    using wake_inv_run [OF inv e [rule_format], of l x w' x xs] by simp
next
  case (ran_all w')
  then show ?thesis using inv by (auto simp: wake_inv_def set_calling_def)
next
  case (foreign_push l t x w')
  then show ?thesis using inv by (auto simp: wake_inv_def queue_push_eq)
next
  case (foreign_signal l t n w')
  with inv have f: "m_wakeupFd l = f" by (auto simp: wake_inv_def)
  have "w' = (as_thread t (world s))\<lparr>kst := snd (sys_write K f eventfd_one (kst (world s)))\<rparr>"
    using foreign_signal f by (simp add: queue_signal_eq wakes_def)
  with foreign_signal inv show ?thesis
    using eventfd_write_positive [OF K, of "kst (world s)"] by (auto simp: wake_inv_def)
qed

text \<open>The invariant of the interleaving, with the contracts the steps rely on.\<close>

interpretation wake: invariant_system
  "\<lambda>s. loop_init f L s \<and> eventfd_contract K cnt f \<and> (\<forall>c t. tame L (h c t)) \<and>
       (\<forall>x. polite cnt f L (exec x))"
  "loop_step K h exec L"
  "\<lambda>s. wake_inv cnt f L s \<and> eventfd_contract K cnt f \<and> (\<forall>c t. tame L (h c t)) \<and>
       (\<forall>x. polite cnt f L (exec x))"
  for K :: "'k kernel" and cnt :: "'k \<Rightarrow> nat" and f :: fd and L :: loop_ptr
    and h :: "chan_ptr \<Rightarrow> timestamp \<Rightarrow> ('k, 'a) loop_world_scheme \<Rightarrow> ('k, 'a) loop_world_scheme res"
    and exec :: "('k, 'a) loop_world_scheme exec"
proof
  fix s :: "('k, 'a) loop_world_scheme loop_sys"
  assume "loop_init f L s \<and> eventfd_contract K cnt f \<and> (\<forall>c t. tame L (h c t)) \<and>
      (\<forall>x. polite cnt f L (exec x))"
  then show "wake_inv cnt f L s \<and> eventfd_contract K cnt f \<and> (\<forall>c t. tame L (h c t)) \<and>
      (\<forall>x. polite cnt f L (exec x))"
    by (auto simp: loop_init_def wake_inv_def)
next
  fix s t :: "('k, 'a) loop_world_scheme loop_sys"
  assume "wake_inv cnt f L s \<and> eventfd_contract K cnt f \<and> (\<forall>c t. tame L (h c t)) \<and>
      (\<forall>x. polite cnt f L (exec x))" and "loop_step K h exec L s t"
  then show "wake_inv cnt f L t \<and> eventfd_contract K cnt f \<and> (\<forall>c t. tame L (h c t)) \<and>
      (\<forall>x. polite cnt f L (exec x))"
    using wake_inv_step by blast
qed

end
