(* ===== verification/Decimal.thy ===== *)
theory Decimal
  imports Dwt_Prelude
begin

text \<open>
  How \<open>fmt::format("{}", n)\<close> prints the integers the sources format (connection ids, ports, thread
  numbers): \<open>digits2\<close>, \<open>write2digits\<close>, \<open>count_digits\<close> in its three versions, \<open>do_format_decimal\<close> and
  \<open>write\<close> of \<open>src/src/include/spdlog/fmt/bundled/format.h\<close> (and of \<open>src/thirdparty/fmt\<close>, which has the same). The optimised routines are proved equal to
  the schoolbook digits \<open>dec\<close>, whose parser \<open>undec\<close> gives that distinct numbers print differently.
\<close>

section \<open>The code\<close>

definition digits2_data :: string where
  "digits2_data =
     ''0001020304050607080910111213141516171819'' @
     ''2021222324252627282930313233343536373839'' @
     ''4041424344454647484950515253545556575859'' @
     ''6061626364656667686970717273747576777879'' @
     ''8081828384858687888990919293949596979899''"

definition digits2 :: "nat \<Rightarrow> string" where
  "digits2 value = take 2 (drop (value * 2) digits2_data)"

definition write2digits :: "nat \<Rightarrow> nat \<Rightarrow> string \<Rightarrow> string" where
  "write2digits n value out = take n out @ digits2 value @ drop (n + 2) out"

definition ascii_digit :: "nat \<Rightarrow> char" where
  "ascii_digit d = char_of (48 + d)"

fun count_digits_fallback :: "nat \<Rightarrow> nat \<Rightarrow> nat" where
  "count_digits_fallback n count =
     (if n < 10 then count
      else if n < 100 then count + 1
      else if n < 1000 then count + 2
      else if n < 10000 then count + 3
      else count_digits_fallback (n div 10000) (count + 4))"

declare count_digits_fallback.simps [simp del]

text \<open>The position of the highest set bit, \<open>CLZ(n) ^ (w - 1)\<close>.\<close>

fun bsr :: "nat \<Rightarrow> nat" where
  "bsr n = (if n \<le> 1 then 0 else Suc (bsr (n div 2)))"

declare bsr.simps [simp del]

definition bsr2log10 :: "nat list" where
  "bsr2log10 =
     [1,  1,  1,  2,  2,  2,  3,  3,  3,  4,  4,  4,  4,  5,  5,  5,
      6,  6,  6,  7,  7,  7,  7,  8,  8,  8,  9,  9,  9,  10, 10, 10,
      10, 11, 11, 11, 12, 12, 12, 13, 13, 13, 13, 14, 14, 14, 15, 15,
      15, 16, 16, 16, 16, 17, 17, 17, 18, 18, 18, 19, 19, 19, 19, 20]"

definition powers_of_10 :: "nat \<Rightarrow> nat list" where
  "powers_of_10 factor =
     [factor * 10, factor * 100, factor * 1000, factor * 10000, factor * 100000,
      factor * 1000000, factor * 10000000, factor * 100000000, factor * 1000000000]"

definition zero_or_powers_of_10 :: "nat list" where
  "zero_or_powers_of_10 =
     [0, 0] @ powers_of_10 1 @ powers_of_10 1000000000 @ [10000000000000000000]"

definition do_count_digits64 :: "nat \<Rightarrow> nat" where
  "do_count_digits64 n =
     (let t = bsr2log10 ! bsr (n OR 1)
      in t - (if n < zero_or_powers_of_10 ! t then 1 else 0))"

text \<open>\<open>FMT_INC(T)\<close> with the number \<open>d\<close> of digits of the literal \<open>T\<close>.\<close>

definition fmt_inc :: "nat \<times> nat \<Rightarrow> nat" where
  "fmt_inc dT = fst dT * 2 ^ 32 - snd dT"

definition inc_literals :: "(nat \<times> nat) list" where
  "inc_literals =
     [(1, 0), (1, 0), (1, 0),
      (2, 10), (2, 10), (2, 10),
      (3, 100), (3, 100), (3, 100),
      (4, 1000), (4, 1000), (4, 1000),
      (5, 10000), (5, 10000), (5, 10000),
      (6, 100000), (6, 100000), (6, 100000),
      (7, 1000000), (7, 1000000), (7, 1000000),
      (8, 10000000), (8, 10000000), (8, 10000000),
      (9, 100000000), (9, 100000000), (9, 100000000),
      (10, 1000000000), (10, 1000000000), (10, 1000000000),
      (10, 1000000000), (10, 1000000000)]"

definition do_count_digits32 :: "nat \<Rightarrow> nat" where
  "do_count_digits32 n =
     (let inc = fmt_inc (inc_literals ! bsr (n OR 1))
      in (n + inc) mod 2 ^ 64 div 2 ^ 32)"

text \<open>The loop of \<open>do_format_decimal\<close>: two digits at a time, from the end of the buffer.\<close>

function format_pairs :: "nat \<Rightarrow> nat \<Rightarrow> string \<Rightarrow> (nat \<times> nat \<times> string) res" where
  "format_pairs value n out =
     (if 100 \<le> value
      then if n < 2 then Inl OutOfBounds
           else format_pairs (value div 100) (n - 2) (write2digits (n - 2) (value mod 100) out)
      else Inr (value, n, out))"
  by pat_completeness auto
termination
  by (relation "measure (\<lambda>(value, n, out). value)") auto

declare format_pairs.simps [simp del]

text \<open>
  \<open>count\<close> is \<open>count_digits\<close> of the type of the value, which the assertion compares with. The result is
  the position of the first digit and the buffer. The sources print \<open>int\<close> and \<open>uint16_t\<close> values with the
  32-bit version.
\<close>

definition format_decimal_by :: "(nat \<Rightarrow> nat) \<Rightarrow> string \<Rightarrow> nat \<Rightarrow> nat \<Rightarrow> (nat \<times> string) res" where
  "format_decimal_by count out value sz =
     (if sz < count value then Inl Aborted
      else bindR (format_pairs value sz out) (\<lambda>(value, n, out).
        if 10 \<le> value
        then (if n < 2 then Inl OutOfBounds else Inr (n - 2, write2digits (n - 2) value out))
        else (if n < 1 then Inl OutOfBounds else Inr (n - 1, out[n - 1 := ascii_digit value]))))"

definition do_format_decimal :: "string \<Rightarrow> nat \<Rightarrow> nat \<Rightarrow> (nat \<times> string) res" where
  "do_format_decimal = format_decimal_by do_count_digits32"

text \<open>\<open>write(out, value)\<close> for an \<open>int\<close>, and the same for an unsigned value.\<close>

definition fmt_uint :: "nat \<Rightarrow> string res" where
  "fmt_uint value =
     (let num_digits = do_count_digits32 value
      in bindR (do_format_decimal (replicate num_digits (CHR 0x00)) value num_digits)
           (\<lambda>(n, out). Inr out))"

definition fmt_int :: "int \<Rightarrow> string res" where
  "fmt_int value =
     (if value < 0 then bindR (fmt_uint (nat (- value))) (\<lambda>s. Inr (CHR ''-'' # s))
      else fmt_uint (nat value))"

section \<open>The digits of a number\<close>

fun dec :: "nat \<Rightarrow> string" where
  "dec n = (if n < 10 then [ascii_digit n] else dec (n div 10) @ [ascii_digit (n mod 10)])"

declare dec.simps [simp del]

definition digit_value :: "char \<Rightarrow> nat" where
  "digit_value c = of_char c - 48"

definition undec :: "string \<Rightarrow> nat" where
  "undec s = foldl (\<lambda>a c. 10 * a + digit_value c) 0 s"

lemma char_digits: "char_of (48::nat) = CHR ''0''" "char_of (49::nat) = CHR ''1''"
  "char_of (50::nat) = CHR ''2''" "char_of (51::nat) = CHR ''3''" "char_of (52::nat) = CHR ''4''"
  "char_of (53::nat) = CHR ''5''" "char_of (54::nat) = CHR ''6''" "char_of (55::nat) = CHR ''7''"
  "char_of (56::nat) = CHR ''8''" "char_of (57::nat) = CHR ''9''"
  by code_simp+

lemma digit_value_ascii: "d < 10 \<Longrightarrow> digit_value (ascii_digit d) = d"
  by (simp add: digit_value_def ascii_digit_def of_char_of)

lemma undec_dec: "undec (dec n) = n"
proof (induction n rule: dec.induct)
  case (1 n)
  show ?case
  proof (cases "n < 10")
    case True
    then show ?thesis by (simp add: dec.simps [of n] undec_def digit_value_ascii)
  next
    case False
    with 1 have "undec (dec (n div 10)) = n div 10" by simp
    with False show ?thesis
      by (simp add: dec.simps [of n] undec_def digit_value_ascii)
  qed
qed

lemma dec_inject: "dec m = dec n \<longleftrightarrow> m = n"
  by (metis undec_dec)

lemma dec_nonempty [simp]: "dec n \<noteq> []"
  by (simp add: dec.simps [of n])

lemma dec_digits: "c \<in> set (dec n) \<Longrightarrow> \<exists>d < 10. c = ascii_digit d"
proof (induction n rule: dec.induct)
  case (1 n)
  then have c: "c = ascii_digit (n mod 10) \<or> (\<not> n < 10 \<and> c \<in> set (dec (n div 10)))"
    by (cases "n < 10") (auto simp: dec.simps [of n])
  have "n mod 10 < 10" by simp
  with c 1 show ?case by blast
qed

lemma length_dec: "length (dec n) = Suc m \<longleftrightarrow> (n < 10 ^ Suc m \<and> (m = 0 \<or> 10 ^ m \<le> n))"
proof (induction n arbitrary: m rule: dec.induct)
  case (1 n)
  show ?case
  proof (cases "n < 10")
    case True
    then have "10 ^ m \<le> n \<Longrightarrow> m = 0"
    proof (cases m)
      case (Suc k)
      have "(1::nat) \<le> 10 ^ k" by simp
      with True Suc show "10 ^ m \<le> n \<Longrightarrow> m = 0" by simp
    qed simp
    moreover have "n < 10 * 10 ^ m" using True
      by (metis less_le_trans mult.right_neutral mult_le_mono2 one_le_numeral one_le_power)
    ultimately show ?thesis using True by (auto simp: dec.simps [of n])
  next
    case False
    show ?thesis
    proof (cases m)
      case 0
      with False show ?thesis by (simp add: dec.simps [of n])
    next
      case (Suc k)
      have "length (dec n) = Suc m \<longleftrightarrow> length (dec (n div 10)) = Suc k"
        using False Suc by (simp add: dec.simps [of n])
      also have "\<dots> \<longleftrightarrow> n div 10 < 10 ^ Suc k \<and> (k = 0 \<or> 10 ^ k \<le> n div 10)"
        using False by (intro 1) simp
      also have "n div 10 < 10 ^ Suc k \<longleftrightarrow> n < 10 ^ Suc m"
        using Suc by (simp add: div_less_iff_less_mult)
      also have "(k = 0 \<or> 10 ^ k \<le> n div 10) \<longleftrightarrow> 10 ^ m \<le> n"
        using Suc False by (auto simp: less_eq_div_iff_mult_less_eq mult.commute)
      finally show ?thesis using Suc by simp
    qed
  qed
qed

section \<open>The optimised routines compute them\<close>

lemma digits2_table:
  "list_all (\<lambda>v. digits2 v = [ascii_digit (v div 10), ascii_digit (v mod 10)]) [0..<100]"
  by code_simp

lemma digits2_eq: "v < 100 \<Longrightarrow> digits2 v = [ascii_digit (v div 10), ascii_digit (v mod 10)]"
  using digits2_table by (simp add: list_all_iff)

lemma dec_two_digits: "10 \<le> v \<Longrightarrow> v < 100 \<Longrightarrow> dec v = digits2 v"
  by (simp add: dec.simps [of v] dec.simps [of "v div 10"] digits2_eq)

lemma dec_hundred: "100 \<le> v \<Longrightarrow> dec v = dec (v div 100) @ digits2 (v mod 100)"
proof -
  assume v: "100 \<le> v"
  have "v div 10 div 10 = v div 100" using div_mult2_eq [of v 10 10] by simp
  moreover have "v mod 100 div 10 = v div 10 mod 10"
    using mod_mult2_eq [of v 10 10] by simp
  moreover have "v mod 100 mod 10 = v mod 10" using mod_mod_cancel [of 10 100 v] by simp
  moreover have "\<not> v div 10 < 10" using v by linarith
  ultimately show ?thesis using v
    by (simp add: dec.simps [of v] dec.simps [of "v div 10"] digits2_eq)
qed

lemma count_digits_fallback_eq: "count_digits_fallback n count + 1 = count + length (dec n)"
proof (induction n count rule: count_digits_fallback.induct)
  case (1 n count)
  have l: "length (dec n) = Suc m" if "n < 10 ^ Suc m" "m = 0 \<or> 10 ^ m \<le> n" for m
    using that by (simp add: length_dec)
  show ?case
  proof (cases "n < 10000")
    case True
    then consider "n < 10" | "10 \<le> n" "n < 100" | "100 \<le> n" "n < 1000" | "1000 \<le> n" by linarith
    then show ?thesis
      using True l [of 0] l [of 1] l [of 2] l [of 3]
      by cases (simp_all add: count_digits_fallback.simps [of n])
  next
    case False
    have "dec n = dec (n div 100 div 100) @ digits2 (n div 100 mod 100) @ digits2 (n mod 100)"
      using False by (simp add: dec_hundred [of n] dec_hundred [of "n div 100"])
    moreover have "n div 100 div 100 = n div 10000" by (simp flip: div_mult2_eq)
    ultimately have "length (dec n) = length (dec (n div 10000)) + 4"
      by (simp add: digits2_eq)
    with 1 False show ?thesis by (simp add: count_digits_fallback.simps [of n])
  qed
qed

lemma bsr_bounds: "0 < n \<Longrightarrow> 2 ^ bsr n \<le> n \<and> n < 2 ^ Suc (bsr n)"
proof (induction n rule: bsr.induct)
  case (1 n)
  show ?case
  proof (cases "n \<le> 1")
    case True
    with 1 show ?thesis by (simp add: bsr.simps [of n])
  next
    case False
    with 1 have "2 ^ bsr (n div 2) \<le> n div 2 \<and> n div 2 < 2 ^ Suc (bsr (n div 2))" by simp
    with False show ?thesis by (simp add: bsr.simps [of n]) linarith
  qed
qed

text \<open>Setting the lowest bit does not change the highest one, except for 0.\<close>

lemma bsr_or_one:
  fixes n :: nat
  defines "k \<equiv> bsr (n OR 1)"
  shows "n < 2 ^ Suc k" and "k = 0 \<or> 2 ^ k \<le> n"
proof -
  have o: "n OR 1 = (if even n then n + 1 else n)"
    using or_one_eq [of n] by (simp add: even_or_iff split: if_splits)
  have b: "2 ^ k \<le> n OR 1" "n OR 1 < 2 ^ Suc k"
    using bsr_bounds [of "n OR 1"] o unfolding k_def by (cases "n OR 1 = 0", simp_all split: if_splits)+
  then show "n < 2 ^ Suc k" using o by (simp split: if_splits)
  show "k = 0 \<or> 2 ^ k \<le> n"
  proof (cases "even n \<and> k \<noteq> 0")
    case True
    then have "even ((2::nat) ^ k)" "2 ^ k \<le> n + 1" using b(1) o by simp_all
    with True have "2 ^ k \<noteq> n + 1" by (metis even_plus_one_iff)
    with \<open>2 ^ k \<le> n + 1\<close> show ?thesis by simp
  next
    case False
    with b(1) o show ?thesis by auto
  qed
qed

lemma bsr_less: "n < 2 ^ w \<Longrightarrow> 0 < w \<Longrightarrow> bsr (n OR 1) < w"
proof -
  assume n: "n < (2::nat) ^ w" and w: "0 < w"
  from bsr_or_one(2) [of n] have "bsr (n OR 1) = 0 \<or> (2::nat) ^ bsr (n OR 1) < 2 ^ w"
    using n by linarith
  with w show ?thesis by auto
qed

lemma log_table64:
  "list_all (\<lambda>k. let t = bsr2log10 ! k in 0 < t \<and> 2 ^ Suc k \<le> (10::nat) ^ t \<and>
     (if t = 1 then zero_or_powers_of_10 ! t = 0
      else zero_or_powers_of_10 ! t = 10 ^ (t - 1) \<and> 10 ^ (t - 2) \<le> (2::nat) ^ k)) [0..<64]"
  by (simp add: upt_rec bsr2log10_def zero_or_powers_of_10_def powers_of_10_def)

lemma length_dec_between:
  assumes "0 < t" and "n < 10 ^ t" and "t = 1 \<or> 10 ^ (t - 2) \<le> n"
  shows "length (dec n) = (if t \<noteq> 1 \<and> n < 10 ^ (t - 1) then t - 1 else t)"
proof -
  obtain m where t: "t = Suc m" using assms(1) by (cases t) auto
  show ?thesis
  proof (cases "t \<noteq> 1 \<and> n < 10 ^ (t - 1)")
    case True
    then obtain j where "m = Suc j" using t by (cases m) auto
    with True assms t show ?thesis using length_dec [of n j] by auto
  next
    case False
    with assms t show ?thesis using length_dec [of n m] by auto
  qed
qed

lemma do_count_digits64_eq:
  assumes "n < 2 ^ 64"
  shows "do_count_digits64 n = length (dec n)"
proof -
  define k where "k = bsr (n OR 1)"
  have kb: "n < 2 ^ Suc k" "k = 0 \<or> 2 ^ k \<le> n"
    using bsr_or_one [of n] by (simp_all only: k_def)
  define t where "t = bsr2log10 ! k"
  have "k < 64" using bsr_less [OF assms] by (simp add: k_def)
  with log_table64 have t: "0 < t" "2 ^ Suc k \<le> (10::nat) ^ t"
    "t = 1 \<Longrightarrow> zero_or_powers_of_10 ! t = 0"
    "t \<noteq> 1 \<Longrightarrow> zero_or_powers_of_10 ! t = 10 ^ (t - 1) \<and> 10 ^ (t - 2) \<le> (2::nat) ^ k"
    by (auto simp: list_all_iff t_def Let_def split: if_splits)
  have "n < 10 ^ t" using kb(1) t(2) by (rule less_le_trans)
  moreover have "t = 1 \<or> 10 ^ (t - 2) \<le> n"
  proof (cases "t = 1")
    case False
    then have le: "10 ^ (t - 2) \<le> (2::nat) ^ k" using t(4) by blast
    show ?thesis
    proof (cases "k = 0")
      case True
      then have "t = 1" by (simp add: t_def bsr2log10_def)
      then show ?thesis ..
    next
      case False
      with kb(2) le show ?thesis by auto
    qed
  qed simp
  ultimately have len: "length (dec n) = (if t \<noteq> 1 \<and> n < 10 ^ (t - 1) then t - 1 else t)"
    by (rule length_dec_between [OF t(1)])
  have "do_count_digits64 n = t - (if n < zero_or_powers_of_10 ! t then 1 else 0)"
    by (simp only: do_count_digits64_def Let_def k_def t_def)
  with len t(3,4) show ?thesis by (cases "t = 1") auto
qed

lemma log_table32:
  "list_all (\<lambda>k. let (d, T) = inc_literals ! k in 0 < d \<and> d \<le> 10 \<and> 2 ^ Suc k \<le> (10::nat) ^ d \<and>
     (if d = 1 then T = 0 else T = 10 ^ (d - 1) \<and> 10 ^ (d - 2) \<le> (2::nat) ^ k)) [0..<32]"
  by (simp add: upt_rec inc_literals_def)

lemma do_count_digits32_eq:
  assumes "n < 2 ^ 32"
  shows "do_count_digits32 n = length (dec n)"
proof -
  define k where "k = bsr (n OR 1)"
  have kb: "n < 2 ^ Suc k" "k = 0 \<or> 2 ^ k \<le> n"
    using bsr_or_one [of n] by (simp_all only: k_def)
  obtain d T where dT: "inc_literals ! k = (d, T)" by fastforce
  have "k < 32" using bsr_less [OF assms] by (simp add: k_def)
  then have "k \<in> set [0..<32]" by simp
  with log_table32 have "let (d, T) = inc_literals ! k in 0 < d \<and> d \<le> 10 \<and> 2 ^ Suc k \<le> (10::nat) ^ d \<and>
     (if d = 1 then T = 0 else T = 10 ^ (d - 1) \<and> 10 ^ (d - 2) \<le> (2::nat) ^ k)"
    unfolding list_all_iff by blast
  with dT have t: "0 < d" "d \<le> 10" "2 ^ Suc k \<le> (10::nat) ^ d" "d = 1 \<Longrightarrow> T = 0"
    "d \<noteq> 1 \<Longrightarrow> T = 10 ^ (d - 1) \<and> 10 ^ (d - 2) \<le> (2::nat) ^ k"
    by (auto split: if_splits)
  have "n < 10 ^ d" using kb(1) t(3) by (rule less_le_trans)
  moreover have "d = 1 \<or> 10 ^ (d - 2) \<le> n"
  proof (cases "k = 0")
    case True
    with dT have "d = 1" by (simp add: inc_literals_def)
    then show ?thesis ..
  next
    case False
    with kb(2) t(5) show ?thesis by (cases "d = 1") auto
  qed
  ultimately have len: "length (dec n) = (if d \<noteq> 1 \<and> n < 10 ^ (d - 1) then d - 1 else d)"
    by (rule length_dec_between [OF t(1)])
  have "(10::nat) ^ (d - 1) \<le> 10 ^ 9" using t(2) by (intro power_increasing) auto
  then have T: "T \<le> 10 ^ 9" using t(4,5) by (cases "d = 1") auto
  have "(n + (d * 2 ^ 32 - T)) mod 2 ^ 64 div 2 ^ 32 = (if n < T then d - 1 else d)"
  proof -
    have le: "T \<le> d * 2 ^ 32" using T t(1) by simp
    have "n + (d * 2 ^ 32 - T) < 2 ^ 64" using assms t(2) by simp
    then have m: "(n + (d * 2 ^ 32 - T)) mod 2 ^ 64 = n + (d * 2 ^ 32 - T)" by simp
    show ?thesis
    proof (cases "n < T")
      case True
      then have "n + (d * 2 ^ 32 - T) = (d - 1) * 2 ^ 32 + (2 ^ 32 - (T - n))"
        using t(1) T le by (simp add: algebra_simps)
      moreover have "((d - 1) * 2 ^ 32 + (2 ^ 32 - (T - n))) div 2 ^ 32 = d - 1"
        using True T by (intro div_nat_eqI) auto
      ultimately show ?thesis using True m by simp
    next
      case False
      then have "n + (d * 2 ^ 32 - T) = d * 2 ^ 32 + (n - T)" using le by simp
      then show ?thesis using False assms m by simp
    qed
  qed
  moreover have "do_count_digits32 n = (n + (d * 2 ^ 32 - T)) mod 2 ^ 64 div 2 ^ 32"
    using dT by (simp only: do_count_digits32_def fmt_inc_def Let_def k_def fst_conv snd_conv)
  ultimately show ?thesis using len t(4,5) by (cases "d = 1") auto
qed

section \<open>The printed text\<close>

text \<open>
  The buffer holds the digits already printed at its end, and the rest of it is as long as the digits
  still to be printed.
\<close>

lemma write2digits_end:
  assumes "length pre = n + 2" and "v < 100"
  shows "write2digits n v (pre @ post) = take n pre @ digits2 v @ post"
  using assms by (simp add: write2digits_def)

lemma format_pairs_eq:
  assumes "length pre = length (dec v)"
  shows "\<exists>v' pre'. format_pairs v (length pre) (pre @ post) = Inr (v', length pre', pre' @ drop (length pre') (dec v) @ post)
    \<and> v' < 100 \<and> length pre' = length (dec v') \<and> dec v = dec v' @ drop (length pre') (dec v)
    \<and> (100 \<le> v \<or> v' = v)"
  using assms
proof (induction v arbitrary: pre post rule: less_induct)
  case (less v)
  show ?case
  proof (cases "100 \<le> v")
    case False
    then show ?thesis using less.prems
      by (intro exI [of _ v] exI [of _ pre]) (simp add: format_pairs.simps)
  next
    case True
    define n where "n = length (dec (v div 100))"
    have d: "dec v = dec (v div 100) @ digits2 (v mod 100)" using True by (rule dec_hundred)
    then have l: "length pre = n + 2" using less.prems by (simp add: digits2_eq n_def)
    have step: "format_pairs v (length pre) (pre @ post) =
        format_pairs (v div 100) (length (take n pre)) (take n pre @ digits2 (v mod 100) @ post)"
      using True l by (simp add: format_pairs.simps [of v] write2digits_end)
    have "v div 100 < v" "length (take n pre) = length (dec (v div 100))"
      using True l by (simp_all add: n_def)
    from less.IH [OF this, of "digits2 (v mod 100) @ post"] obtain v' pre'
      where IH: "format_pairs (v div 100) (length (take n pre)) (take n pre @ digits2 (v mod 100) @ post)
          = Inr (v', length pre', pre' @ drop (length pre') (dec (v div 100)) @ digits2 (v mod 100) @ post)"
        "v' < 100" "length pre' = length (dec v')"
        "dec (v div 100) = dec v' @ drop (length pre') (dec (v div 100))"
      by blast
    have "length pre' \<le> length (dec (v div 100))" using IH(3,4) by (metis le_add1 length_append)
    then have "drop (length pre') (dec v) = drop (length pre') (dec (v div 100)) @ digits2 (v mod 100)"
      using d by simp
    with IH step d True show ?thesis
      by (intro exI [of _ v'] exI [of _ pre']) (metis append.assoc)
  qed
qed

text \<open>The buffer may be longer than the digits: they end at the given size, whatever is before them.\<close>

lemma write2digits_prefix:
  "n + 2 \<le> length out \<Longrightarrow> write2digits (length g + n) v (g @ out) = g @ write2digits n v out"
  by (simp add: write2digits_def)

lemma format_pairs_prefix:
  assumes "n \<le> length out" and "format_pairs v n out = Inr (v', n', out')"
  shows "format_pairs v (length g + n) (g @ out) = Inr (v', length g + n', g @ out') \<and> length out' = length out"
  using assms
proof (induction v n out rule: format_pairs.induct)
  case (1 v n out)
  show ?case
  proof (cases "100 \<le> v")
    case False
    with 1(3) have e: "v' = v" "n' = n" "out' = out" by (simp_all add: format_pairs.simps [of v n out])
    show ?thesis unfolding e using False by (simp add: format_pairs.simps [of v "length g + n"])
  next
    case True
    with 1(3) have n: "2 \<le> n" and f: "format_pairs (v div 100) (n - 2) (write2digits (n - 2) (v mod 100) out) = Inr (v', n', out')"
      by (auto simp: format_pairs.simps [of v] split: if_splits)
    have l: "length (write2digits (n - 2) (v mod 100) out) = length out" and fit: "n - 2 + 2 \<le> length out"
      using n 1(2) by (simp_all add: write2digits_def digits2_eq)
    have "n - 2 \<le> length (write2digits (n - 2) (v mod 100) out)" using l fit by simp
    from 1(1) [OF True _ this f] n l fit True show ?thesis
      by (simp add: format_pairs.simps [of v] write2digits_prefix [symmetric])
  qed
qed

lemma format_decimal_by_eq:
  assumes v: "count v \<le> length g + length (dec v)" and out: "length out = length (dec v)"
  shows "format_decimal_by count (g @ out) v (length g + length out) = Inr (length g, g @ dec v)"
proof -
  from format_pairs_eq [OF out, of "[]"] obtain v' pre'
    where f: "format_pairs v (length out) out = Inr (v', length pre', pre' @ drop (length pre') (dec v))"
      "v' < 100" "length pre' = length (dec v')" "dec v = dec v' @ drop (length pre') (dec v)"
    by auto
  from format_pairs_prefix [OF order_refl f(1), of g]
  have p: "format_pairs v (length g + length out) (g @ out) =
    Inr (v', length g + length pre', g @ pre' @ drop (length pre') (dec v))" by simp
  have c: "\<not> length g + length out < count v" using v out by simp
  show ?thesis
  proof (cases "10 \<le> v'")
    case True
    then have d: "dec v' = digits2 v'" "length pre' = 2"
      using f(2,3) by (simp_all add: dec_two_digits digits2_eq)
    have "write2digits (length g) v' (g @ pre' @ drop (length pre') (dec v)) = g @ dec v"
      using write2digits_prefix [of 0 "pre' @ drop (length pre') (dec v)" g v'] d f(4)
        write2digits_end [of pre' 0 v'] f(2) by simp
    with p c d True show ?thesis by (simp add: format_decimal_by_def)
  next
    case False
    then have d: "dec v' = [ascii_digit v']" by (simp add: dec.simps)
    then obtain c' where "pre' = [c']" using f(3) by (cases pre') auto
    with p c d False f(4) show ?thesis by (simp add: format_decimal_by_def list_update_append)
  qed
qed

lemma do_format_decimal_eq:
  assumes "v < 2 ^ 32" and "length out = length (dec v)"
  shows "do_format_decimal out v (length out) = Inr (0, dec v)"
  using format_decimal_by_eq [of do_count_digits32 v "[]" out] assms
  by (simp add: do_format_decimal_def do_count_digits32_eq)

lemma fmt_uint_eq: "v < 2 ^ 32 \<Longrightarrow> fmt_uint v = Inr (dec v)"
  using do_format_decimal_eq [of v "replicate (length (dec v)) (CHR 0x00)"]
  by (simp add: fmt_uint_def do_count_digits32_eq Let_def)

definition show_int :: "int \<Rightarrow> string" where
  "show_int i = (if i < 0 then CHR ''-'' # dec (nat (- i)) else dec (nat i))"

lemma fmt_int_eq: "- (2 ^ 31) \<le> i \<Longrightarrow> i < 2 ^ 31 \<Longrightarrow> fmt_int i = Inr (show_int i)"
  by (auto simp: fmt_int_def show_int_def fmt_uint_eq nat_less_iff)

lemma minus_not_digit: "CHR ''-'' \<notin> set (dec n)"
proof
  assume "CHR ''-'' \<in> set (dec n)"
  then obtain d where "d < 10" "CHR ''-'' = ascii_digit d" using dec_digits by blast
  then have "of_char (CHR ''-'') = (48 + d) mod (256::nat)" by (simp add: ascii_digit_def)
  with \<open>d < 10\<close> show False by simp
qed

lemma show_int_inject: "show_int i = show_int j \<longleftrightarrow> i = j"
proof
  assume e: "show_int i = show_int j"
  have "hd (dec n) \<noteq> CHR ''-''" for n using minus_not_digit [of n] hd_in_set [of "dec n"] by fastforce
  then have "(i < 0) = (j < 0)" using e
    by (metis show_int_def list.sel(1))
  then show "i = j" using e by (auto simp: show_int_def dec_inject split: if_splits)
qed simp

end
