(* ===== verification/Net.thy ===== *)
theory Net
  imports EventLoop Decimal "HOL-Library.Char_ord"
begin

text \<open>
  \<open>InetAddress\<close>, \<open>Timestamp\<close>, \<open>Socket\<close> and \<open>Acceptor\<close> of \<open>src/src\<close>. Of the C library, \<open>htons\<close>, \<open>ntohs\<close>,
  \<open>inet_pton\<close> and \<open>inet_ntop\<close> are modelled for a little-endian host; \<open>localtime\<close> is a parameter.
\<close>

section \<open>The C library\<close>

definition htons :: "u16 \<Rightarrow> u16" where
  "htons p = push_bit 8 p OR drop_bit 8 p"

definition ntohs :: "u16 \<Rightarrow> u16" where
  "ntohs p = push_bit 8 p OR drop_bit 8 p"

text \<open>The bytes of an address in network order are those of the word from its lowest up.\<close>

definition addr_byte :: "nat \<Rightarrow> u32 \<Rightarrow> nat" where
  "addr_byte i a = unat a div 256 ^ i mod 256"

definition inet_ntop :: "u32 \<Rightarrow> string" where
  "inet_ntop a = dec (addr_byte 0 a) @ ''.'' @ dec (addr_byte 1 a) @ ''.'' @
     dec (addr_byte 2 a) @ ''.'' @ dec (addr_byte 3 a)"

text \<open>The part of a string before the next \<open>c\<close>, and what follows that \<open>c\<close>.\<close>

definition field :: "char \<Rightarrow> string \<Rightarrow> string \<times> string" where
  "field c s = (takeWhile (\<lambda>x. x \<noteq> c) s, drop 1 (dropWhile (\<lambda>x. x \<noteq> c) s))"

definition octet :: "string \<Rightarrow> nat option" where
  "octet s = (if s \<noteq> [] \<and> length s \<le> 3 \<and> list_all (\<lambda>c. CHR ''0'' \<le> c \<and> c \<le> CHR ''9'') s \<and> undec s < 256
              then Some (undec s) else None)"

text \<open>The dotted decimal notation; \<open>None\<close> is the result 0, which leaves the address as it was.\<close>

definition inet_pton :: "string \<Rightarrow> u32 option" where
  "inet_pton s =
     (let (f0, s1) = field CHR ''.'' s; (f1, s2) = field CHR ''.'' s1; (f2, f3) = field CHR ''.'' s2
      in case (octet f0, octet f1, octet f2, octet f3) of
           (Some b0, Some b1, Some b2, Some b3) \<Rightarrow>
             Some (of_nat (b0 + 256 * b1 + 256 ^ 2 * b2 + 256 ^ 3 * b3))
         | _ \<Rightarrow> None)"

section \<open>InetAddress\<close>

definition AF_INET :: nat where "AF_INET = 2"

definition zero_addr :: sockaddr_in where
  "zero_addr = \<lparr>sin_family = 0, sin_port = 0, s_addr = 0\<rparr>"

definition newInetAddress :: "string \<Rightarrow> u16 \<Rightarrow> sockaddr_in" where
  "newInetAddress IP port =
     (let m_addr = zero_addr\<lparr>sin_family := AF_INET, sin_port := htons port\<rparr>
      in case inet_pton IP of None \<Rightarrow> m_addr | Some a \<Rightarrow> m_addr\<lparr>s_addr := a\<rparr>)"

definition toIp :: "sockaddr_in \<Rightarrow> string" where
  "toIp m_addr = inet_ntop (s_addr m_addr)"

definition toPort :: "sockaddr_in \<Rightarrow> u16" where
  "toPort m_addr = ntohs (sin_port m_addr)"

definition toIpPort :: "sockaddr_in \<Rightarrow> string res" where
  "toIpPort m_addr = bindR (fmt_uint (unat (toPort m_addr))) (\<lambda>s. Inr (toIp m_addr @ '':'' @ s))"

section \<open>Timestamp\<close>

definition timestamp_now :: "'k kernel \<Rightarrow> 'k \<Rightarrow> timestamp \<times> 'k" where
  "timestamp_now K k = sys_now K k"

record tm =
  tm_year :: int
  tm_mon :: int
  tm_mday :: int
  tm_hour :: int
  tm_min :: int
  tm_sec :: int

text \<open>\<open>{:0w}\<close>: the sign first, then zeros up to the width.\<close>

definition fmt_pad :: "nat \<Rightarrow> int \<Rightarrow> string res" where
  "fmt_pad w i =
     bindR (fmt_uint (nat \<bar>i\<bar>)) (\<lambda>s.
       let sign = if i < 0 then ''-'' else []
       in Inr (sign @ replicate (w - (length sign + length s)) CHR ''0'' @ s))"

definition timestamp_toString :: "(timestamp \<Rightarrow> tm) \<Rightarrow> timestamp \<Rightarrow> string res" where
  "timestamp_toString localtime t =
     (let tm_time = localtime t
      in bindR (fmt_pad 4 (tm_year tm_time + 1900)) (\<lambda>y.
         bindR (fmt_pad 2 (tm_mon tm_time + 1)) (\<lambda>mo.
         bindR (fmt_pad 2 (tm_mday tm_time)) (\<lambda>d.
         bindR (fmt_pad 2 (tm_hour tm_time)) (\<lambda>h.
         bindR (fmt_pad 2 (tm_min tm_time)) (\<lambda>mi.
         bindR (fmt_pad 2 (tm_sec tm_time)) (\<lambda>s.
           Inr (y @ ''/'' @ mo @ ''/'' @ d @ '' '' @ h @ '':'' @ mi @ '':'' @ s))))))))"

section \<open>Socket\<close>

definition sock_destroy :: "'k kernel \<Rightarrow> fd \<Rightarrow> 'k \<Rightarrow> 'k" where
  "sock_destroy K f k = sys_close K f k"

definition bindAddress :: "'k kernel \<Rightarrow> fd \<Rightarrow> sockaddr_in \<Rightarrow> 'k \<Rightarrow> 'k res" where
  "bindAddress K f localaddr k =
     (case sys_bind K f localaddr k of (n, k') \<Rightarrow> if n \<noteq> 0 then Inl Aborted else Inr k')"

definition sock_listen :: "'k kernel \<Rightarrow> fd \<Rightarrow> 'k \<Rightarrow> 'k res" where
  "sock_listen K f k =
     (case sys_listen K f 10 k of (n, k') \<Rightarrow> if n \<noteq> 0 then Inl Aborted else Inr k')"

text \<open>\<open>accept\<close>: the descriptor, errno, and the address written to \<open>*peerAddr\<close>.\<close>

definition sock_accept ::
    "'k kernel \<Rightarrow> fd \<Rightarrow> sockaddr_in \<Rightarrow> 'k \<Rightarrow> (int \<times> sockaddr_in \<times> errno) \<times> 'k" where
  "sock_accept K f peerAddr k =
     (case sys_accept4 K f k of ((connfd, addr, e), k') \<Rightarrow>
        ((connfd, if 0 \<le> connfd then addr else peerAddr, e), k'))"

definition shutdownWrite :: "'k kernel \<Rightarrow> fd \<Rightarrow> 'k \<Rightarrow> 'k" where
  "shutdownWrite K f k = snd (sys_shutdown_wr K f k)"

definition set_option :: "'k kernel \<Rightarrow> sockopt \<Rightarrow> fd \<Rightarrow> bool \<Rightarrow> 'k \<Rightarrow> 'k" where
  "set_option K opt f on k = snd (sys_setsockopt K f opt (if on then 1 else 0) k)"

definition setTcpNoDelay :: "'k kernel \<Rightarrow> fd \<Rightarrow> bool \<Rightarrow> 'k \<Rightarrow> 'k" where
  "setTcpNoDelay K = set_option K TCP_NODELAY"

definition setReuseAddr :: "'k kernel \<Rightarrow> fd \<Rightarrow> bool \<Rightarrow> 'k \<Rightarrow> 'k" where
  "setReuseAddr K = set_option K SO_REUSEADDR"

definition setReusePort :: "'k kernel \<Rightarrow> fd \<Rightarrow> bool \<Rightarrow> 'k \<Rightarrow> 'k" where
  "setReusePort K = set_option K SO_REUSEPORT"

definition setKeepAlive :: "'k kernel \<Rightarrow> fd \<Rightarrow> bool \<Rightarrow> 'k \<Rightarrow> 'k" where
  "setKeepAlive K = set_option K SO_KEEPALIVE"

section \<open>Acceptor\<close>

record acceptor =
  acc_loop :: loop_ptr
  acc_fd :: fd
  acc_chan :: chan_ptr
  listening :: bool
  has_newConnectionCallback :: bool

definition createNonBlockingFd :: "'k kernel \<Rightarrow> 'k \<Rightarrow> (fd \<times> 'k) res" where
  "createNonBlockingFd K k =
     (case sys_socket K k of (sockfd, k') \<Rightarrow> if sockfd = -1 then Inl Aborted else Inr (sockfd, k'))"

text \<open>The constructor; \<open>c\<close> is the address of the member \<open>acceptChannel_\<close>.\<close>

definition newAcceptor ::
    "'k kernel \<Rightarrow> chan_ptr \<Rightarrow> loop_ptr \<Rightarrow> sockaddr_in \<Rightarrow> bool \<Rightarrow> ('k, 'a) loop_world_scheme
     \<Rightarrow> (acceptor \<times> ('k, 'a) loop_world_scheme) res" where
  "newAcceptor K c L listenAddr reusePort w =
     bindR (createNonBlockingFd K (kst w)) (\<lambda>(sockfd, k).
       let a = \<lparr>acc_loop = L, acc_fd = sockfd, acc_chan = c, listening = False,
                has_newConnectionCallback = False\<rparr>;
           k = setReusePort K sockfd reusePort (setReuseAddr K sockfd True k)
       in bindR (bindAddress K sockfd listenAddr k) (\<lambda>k.
            Inr (a, w\<lparr>kst := k,
                      chans := (chans w)(c \<mapsto>
                        (newChannel L sockfd)\<lparr>m_readCallback := Some AcceptorHandleRead\<rparr>)\<rparr>)))"

text \<open>The destructor, then those of the members \<open>acceptChannel_\<close> and \<open>acceptSocket_\<close>.\<close>

definition destroyAcceptor ::
    "'k kernel \<Rightarrow> acceptor \<Rightarrow> ('k, 'a) loop_world_scheme \<Rightarrow> ('k, 'a) loop_world_scheme res" where
  "destroyAcceptor K a w =
     bindR (disableAll K (acc_chan a) w) (\<lambda>w.
     bindR (channel_remove K (acc_chan a) w) (\<lambda>w.
       Inr (w\<lparr>chans := (chans w)(acc_chan a := None), kst := sock_destroy K (acc_fd a) (kst w)\<rparr>)))"

definition acceptor_listen ::
    "'k kernel \<Rightarrow> acceptor \<Rightarrow> ('k, 'a) loop_world_scheme
     \<Rightarrow> (acceptor \<times> ('k, 'a) loop_world_scheme) res" where
  "acceptor_listen K a w =
     (let a = a\<lparr>listening := True\<rparr>
      in bindR (sock_listen K (acc_fd a) (kst w)) (\<lambda>k.
         bindR (enableReading K (acc_chan a) (w\<lparr>kst := k\<rparr>)) (\<lambda>w. Inr (a, w))))"

text \<open>\<open>handleRead\<close>; \<open>ncb\<close> is what the new-connection callback does when it is set.\<close>

definition acceptor_handleRead ::
    "'k kernel \<Rightarrow> (fd \<Rightarrow> sockaddr_in \<Rightarrow> ('k, 'a) loop_world_scheme \<Rightarrow> ('k, 'a) loop_world_scheme res)
     \<Rightarrow> acceptor \<Rightarrow> ('k, 'a) loop_world_scheme \<Rightarrow> ('k, 'a) loop_world_scheme res" where
  "acceptor_handleRead K ncb a w =
     (case sock_accept K (acc_fd a) zero_addr (kst w) of ((connfd, peerAddr, e), k) \<Rightarrow>
        let w = w\<lparr>kst := k\<rparr>
        in if 0 \<le> connfd
           then (if has_newConnectionCallback a then ncb connfd peerAddr w
                 else Inr (w\<lparr>kst := sys_close K connfd (kst w)\<rparr>))
           else Inr w)"

section \<open>Ports\<close>

lemma ntohs_htons: "ntohs (htons p) = p"
  by (rule bit_word_eqI) (auto simp: ntohs_def htons_def bit_or_iff bit_push_bit_iff bit_drop_bit_eq
      dest: bit_imp_le_length)

lemma toPort_new: "toPort (newInetAddress IP port) = port"
  by (simp add: newInetAddress_def toPort_def ntohs_htons Let_def split: option.splits)

section \<open>Addresses print and parse\<close>

lemma addr_byte_less: "addr_byte i a < 256"
  by (simp add: addr_byte_def)

lemma addr_bytes:
  "of_nat (addr_byte 0 a + 256 * addr_byte 1 a + 256 ^ 2 * addr_byte 2 a + 256 ^ 3 * addr_byte 3 a) = a"
proof -
  define x where "x = unat a"
  define q where "q = x div 256" 
  define r where "r = q div 256"
  define s where "s = r div 256"
  have "x < 2 ^ 32" using unsigned_less [of a] by (simp add: x_def)
  then have "s < 256" by (simp add: s_def r_def q_def flip: div_mult2_eq)
  moreover have "x div 256 ^ 2 = r" "x div 256 ^ 3 = s"
    by (simp_all add: r_def q_def s_def flip: div_mult2_eq)
  ultimately have "addr_byte 0 a = x mod 256" "addr_byte 1 a = q mod 256" "addr_byte 2 a = r mod 256"
    "addr_byte 3 a = s"
    by (simp_all add: addr_byte_def x_def q_def)
  moreover have "x = x mod 256 + 256 * q" "q = q mod 256 + 256 * r" "r = r mod 256 + 256 * s"
    by (simp_all add: q_def r_def s_def)
  ultimately have "addr_byte 0 a + 256 * addr_byte 1 a + 256 ^ 2 * addr_byte 2 a + 256 ^ 3 * addr_byte 3 a = unat a"
    by (simp add: x_def)
  then show ?thesis by (simp only:) simp
qed

lemma dec_no_dot: "x \<in> set (dec n) \<Longrightarrow> x \<noteq> CHR ''.''"
proof
  assume "x \<in> set (dec n)" and "x = CHR ''.''"
  with dec_digits obtain d where "d < 10" "CHR ''.'' = ascii_digit d" by blast
  then have "of_char (CHR ''.'') = (48 + d) mod (256::nat)" by (simp add: ascii_digit_def)
  with \<open>d < 10\<close> show False by simp
qed

lemma dec_char_range: "x \<in> set (dec n) \<Longrightarrow> CHR ''0'' \<le> x \<and> x \<le> CHR ''9''"
proof -
  assume "x \<in> set (dec n)"
  then obtain d where d: "d < 10" "x = ascii_digit d" using dec_digits by blast
  then have "of_char x = (48 + d :: nat)" by (simp add: ascii_digit_def of_char_of)
  with d(1) show ?thesis by (simp add: less_eq_char_def)
qed

lemma field_dec: "field CHR ''.'' (dec n @ CHR ''.'' # s) = (dec n, s)"
  using dec_no_dot by (auto simp: field_def takeWhile_append dropWhile_append)

lemma octet_dec: "n < 256 \<Longrightarrow> octet (dec n) = Some n"
proof -
  assume n: "n < 256"
  have "length (dec n) \<le> 3"
  proof (cases "length (dec n)")
    case (Suc m)
    with n have "m = 0 \<or> 10 ^ m \<le> n" using length_dec [of n m] by simp
    with n have "m = 0 \<or> 10 ^ m < (10::nat) ^ 3" by auto
    then have "m < 3" using power_less_imp_less_exp [of 10 m 3] by auto
    with Suc show ?thesis by simp
  qed simp
  with n show ?thesis using dec_char_range by (auto simp: octet_def undec_dec list_all_iff)
qed

lemma inet_pton_ntop: "inet_pton (inet_ntop a) = Some a"
  by (simp add: inet_pton_def inet_ntop_def field_dec octet_dec addr_byte_less addr_bytes [simplified])

lemma toIp_new: "inet_pton IP = Some a \<Longrightarrow> toIp (newInetAddress IP port) = inet_ntop a"
  by (simp add: newInetAddress_def toIp_def)

text \<open>Distinct addresses have distinct texts, so the text identifies the socket address.\<close>

lemma inet_ntop_inject: "inet_ntop a = inet_ntop b \<longleftrightarrow> a = b"
  by (metis inet_pton_ntop option.inject)

lemma toIpPort_eq: "toIpPort m = Inr (toIp m @ '':'' @ dec (unat (toPort m)))"
proof -
  have "unat (toPort m) < 2 ^ 16" using unsigned_less [of "toPort m"] by simp
  then have "unat (toPort m) < 2 ^ 32" by simp
  then show ?thesis by (simp add: toIpPort_def fmt_uint_eq)
qed

lemma ntop_no_colon: "x \<in> set (inet_ntop a) \<Longrightarrow> x \<noteq> CHR '':''"
  using dec_char_range by (fastforce simp: inet_ntop_def less_eq_char_def)

section \<open>Padded numbers\<close>

lemma colon_split:
  assumes "a @ CHR '':'' # b = c @ CHR '':'' # d" and "CHR '':'' \<notin> set a" and "CHR '':'' \<notin> set c"
  shows "a = c \<and> b = d"
  using assms
proof (induction a arbitrary: c)
  case Nil
  then show ?case by (cases c) auto
next
  case (Cons z a)
  then show ?case by (cases c) auto
qed

lemma undec_append_zeros: "undec (replicate n CHR ''0'' @ s) = undec s"
proof (induction n)
  case (Suc n)
  have "undec (CHR ''0'' # s) = undec s" for s by (simp add: undec_def digit_value_def)
  with Suc show ?case by simp
qed simp

lemma length_dec_le: "n < 10 ^ w \<Longrightarrow> 0 < w \<Longrightarrow> length (dec n) \<le> w"
proof (cases "length (dec n)")
  case (Suc m)
  assume n: "n < 10 ^ w" and w: "0 < w"
  have "m = 0 \<or> 10 ^ m \<le> n" using length_dec [of n m] Suc by simp
  then have "m = 0 \<or> 10 ^ m < (10::nat) ^ w" using n by (meson order_le_less_trans)
  then have "m = 0 \<or> m < w" using power_less_imp_less_exp [of 10 m w] by auto
  with Suc w show ?thesis by auto
qed simp

lemma fmt_pad_ok:
  assumes "0 \<le> i" and "i < 10 ^ w" and "0 < w" and "w \<le> 9"
  shows "\<exists>s. fmt_pad w i = Inr s \<and> length s = w \<and> int (undec s) = i"
proof -
  have n: "nat i < 10 ^ w" using assms(1,2) by (simp add: nat_less_iff)
  have "(10::nat) ^ w \<le> 10 ^ 9" using assms(4) by (intro power_increasing) auto
  with n have "nat i < 10 ^ 9" by (rule less_le_trans)
  then have "nat i < 2 ^ 32" by (rule less_trans) simp
  then have f: "fmt_uint (nat \<bar>i\<bar>) = Inr (dec (nat i))" using assms(1) by (simp add: fmt_uint_eq)
  have "length (dec (nat i)) \<le> w" by (rule length_dec_le [OF n assms(3)])
  with f assms(1) show ?thesis by (simp add: fmt_pad_def undec_append_zeros undec_dec)
qed

text \<open>The fields a calendar date and time have.\<close>

definition tm_ok :: "tm \<Rightarrow> bool" where
  "tm_ok t \<longleftrightarrow> -1900 \<le> tm_year t \<and> tm_year t < 8100 \<and> 0 \<le> tm_mon t \<and> tm_mon t < 12 \<and>
     1 \<le> tm_mday t \<and> tm_mday t \<le> 31 \<and> 0 \<le> tm_hour t \<and> tm_hour t < 24 \<and>
     0 \<le> tm_min t \<and> tm_min t < 60 \<and> 0 \<le> tm_sec t \<and> tm_sec t \<le> 60"

lemma timestamp_toString_ok:
  assumes "tm_ok (localtime t)"
  shows "\<exists>s. timestamp_toString localtime t = Inr s \<and> length s = 19 \<and>
    int (undec (take 4 s)) = tm_year (localtime t) + 1900 \<and>
    int (undec (take 2 (drop 5 s))) = tm_mon (localtime t) + 1 \<and>
    int (undec (take 2 (drop 8 s))) = tm_mday (localtime t) \<and>
    int (undec (take 2 (drop 11 s))) = tm_hour (localtime t) \<and>
    int (undec (take 2 (drop 14 s))) = tm_min (localtime t) \<and>
    int (undec (take 2 (drop 17 s))) = tm_sec (localtime t)"
proof -
  let ?t = "localtime t"
  note a = assms [unfolded tm_ok_def]
  from fmt_pad_ok [of "tm_year ?t + 1900" 4] a obtain y where y: "fmt_pad 4 (tm_year ?t + 1900) = Inr y"
    "length y = 4" "int (undec y) = tm_year ?t + 1900" by auto
  from fmt_pad_ok [of "tm_mon ?t + 1" 2] a obtain mo where mo: "fmt_pad 2 (tm_mon ?t + 1) = Inr mo"
    "length mo = 2" "int (undec mo) = tm_mon ?t + 1" by auto
  from fmt_pad_ok [of "tm_mday ?t" 2] a obtain d where d: "fmt_pad 2 (tm_mday ?t) = Inr d"
    "length d = 2" "int (undec d) = tm_mday ?t" by auto
  from fmt_pad_ok [of "tm_hour ?t" 2] a obtain h where h: "fmt_pad 2 (tm_hour ?t) = Inr h"
    "length h = 2" "int (undec h) = tm_hour ?t" by auto
  from fmt_pad_ok [of "tm_min ?t" 2] a obtain mi where mi: "fmt_pad 2 (tm_min ?t) = Inr mi"
    "length mi = 2" "int (undec mi) = tm_min ?t" by auto
  from fmt_pad_ok [of "tm_sec ?t" 2] a obtain s where s: "fmt_pad 2 (tm_sec ?t) = Inr s"
    "length s = 2" "int (undec s) = tm_sec ?t" by auto
  have "timestamp_toString localtime t =
      Inr (y @ ''/'' @ mo @ ''/'' @ d @ '' '' @ h @ '':'' @ mi @ '':'' @ s)"
    by (simp add: timestamp_toString_def y mo d h mi s Let_def)
  with y mo d h mi s show ?thesis by simp
qed

section \<open>The acceptor\<close>

text \<open>Listening registers the acceptor's descriptor for reading and nothing else.\<close>

lemma acceptor_listen_ok:
  assumes K: "epoll_contract K reg" and inv: "poller_inv reg L w" and u: "usable L w (acc_chan a)"
    and ok: "sys_listen K (acc_fd a) 10 (kst w) = (0, k)" "reg k = reg (kst w)"
  shows "\<exists>w'. acceptor_listen K a w = Inr (a\<lparr>listening := True\<rparr>, w') \<and> poller_inv reg L w' \<and>
    kernel_watch reg L w' (acc_chan a) = Some (chan_mask w (acc_chan a) OR kReadEvent)"
proof -
  let ?w = "w\<lparr>kst := k\<rparr>"
  have inv': "poller_inv reg L ?w" using inv ok(2) by (simp add: poller_inv_def)
  have u': "usable L ?w (acc_chan a)" using u by (simp add: usable_def)
  have m: "chan_mask ?w (acc_chan a) = chan_mask w (acc_chan a)" by (simp add: chan_mask_def)
  have ne: "chan_mask ?w (acc_chan a) OR kReadEvent \<noteq> kNoneEvent"
  proof
    assume "chan_mask ?w (acc_chan a) OR kReadEvent = kNoneEvent"
    then have "(chan_mask ?w (acc_chan a) OR kReadEvent) AND kReadEvent = 0" by (simp add: kNoneEvent_def)
    then show False by (simp add: kReadEvent_val word_ao_absorbs)
  qed
  have pre: "epoll_contract K reg \<and> poller_inv reg L ?w" using K inv' by simp
  from epoll.change_nonzero [OF pre u', where f = "\<lambda>e. e OR kReadEvent", OF ne] obtain w' where
    "enableReading K (acc_chan a) ?w = Inr w'" "poller_inv reg L w'"
    "kernel_watch reg L w' (acc_chan a) = Some (chan_mask ?w (acc_chan a) OR kReadEvent)"
    by (auto simp: enableReading_def)
  with ok(1) m show ?thesis by (simp add: acceptor_listen_def sock_listen_def)
qed

end
