(* ===== verification/TcpConnection.thy ===== *)
theory TcpConnection
  imports Net Buffer
begin

text \<open>
  \<open>src/src/TcpConnection.h\<close> and \<open>TcpConnection.cpp\<close>: one connected socket, its channel, its two
  buffers and its state. The callbacks the user installs are numbers; what calling one does is the
  parameter \<open>U\<close>, so that a proof states what it needs of them.
\<close>

section \<open>State\<close>

datatype StateE = kDisconnected | kConnecting | kConnected | kDisconnecting

datatype close_cb = ServerRemoveConnection | UserClose nat

record tcp_conn =
  conn_loop :: loop_ptr
  conn_name :: string
  m_state :: StateE
  m_reading :: bool
  conn_fd :: fd
  conn_chan :: chan_ptr
  m_localAddr :: sockaddr_in
  m_peerAddr :: sockaddr_in
  connectionCallback :: "nat option"
  messageCallback :: "nat option"
  conn_closeCallback :: "close_cb option"
  writeCompleteCallback :: "nat option"
  highWaterMarkCallback :: "nat option"
  m_highWaterMark :: size_t
  m_inputBuffer :: buffer
  m_outputBuffer :: buffer

text \<open>The connections that exist, and the memory the \<open>message\<close> pointers of \<open>send\<close> point into.\<close>

record 'k conn_world = "'k loop_world" +
  conns :: "conn_ptr \<rightharpoonup> tcp_conn"
  mem :: "addr \<rightharpoonup> byte list"

record 'w user_callbacks =
  on_connection :: "nat \<Rightarrow> conn_ptr \<Rightarrow> 'w \<Rightarrow> 'w res"
  on_message :: "nat \<Rightarrow> conn_ptr \<Rightarrow> timestamp \<Rightarrow> 'w \<Rightarrow> 'w res"
  on_close :: "close_cb \<Rightarrow> conn_ptr \<Rightarrow> 'w \<Rightarrow> 'w res"
  on_writeComplete :: "nat \<Rightarrow> conn_ptr \<Rightarrow> 'w \<Rightarrow> 'w res"
  on_highWaterMark :: "nat \<Rightarrow> conn_ptr \<Rightarrow> size_t \<Rightarrow> 'w \<Rightarrow> 'w res"

text \<open>Calling a \<open>std::function\<close>: an empty one throws.\<close>

definition call_fn :: "'f option \<Rightarrow> ('f \<Rightarrow> 'w res) \<Rightarrow> 'w res" where
  "call_fn cb run = (case cb of None \<Rightarrow> Inl BadFunctionCall | Some i \<Rightarrow> run i)"

definition modify_conn ::
    "conn_ptr \<Rightarrow> (tcp_conn \<Rightarrow> tcp_conn) \<Rightarrow> ('k, 'a) conn_world_scheme \<Rightarrow> ('k, 'a) conn_world_scheme" where
  "modify_conn x f w = w\<lparr>conns := (conns w)(x := map_option f (conns w x))\<rparr>"

definition setState :: "conn_ptr \<Rightarrow> StateE \<Rightarrow> ('k, 'a) conn_world_scheme \<Rightarrow> ('k, 'a) conn_world_scheme" where
  "setState x s = modify_conn x (\<lambda>co. co\<lparr>m_state := s\<rparr>)"

section \<open>Construction and destruction\<close>

definition checkLoopNotNull :: "loop_ptr option \<Rightarrow> loop_ptr res" where
  "checkLoopNotNull lp = (case lp of None \<Rightarrow> Inl Aborted | Some L \<Rightarrow> Inr L)"

text \<open>The constructor of a connection at address \<open>x\<close> whose channel is allocated at \<open>c\<close>.\<close>

definition newTcpConnection ::
    "'k kernel \<Rightarrow> conn_ptr \<Rightarrow> chan_ptr \<Rightarrow> loop_ptr option \<Rightarrow> string \<Rightarrow> fd \<Rightarrow> sockaddr_in \<Rightarrow> sockaddr_in
     \<Rightarrow> ('k, 'a) conn_world_scheme \<Rightarrow> ('k, 'a) conn_world_scheme res" where
  "newTcpConnection K x c ioLoop name sockfd localAddr peerAddr w =
     bindR (checkLoopNotNull ioLoop) (\<lambda>L.
       let co = \<lparr>conn_loop = L, conn_name = name, m_state = kConnecting, m_reading = True,
                 conn_fd = sockfd, conn_chan = c, m_localAddr = localAddr, m_peerAddr = peerAddr,
                 connectionCallback = None, messageCallback = None, conn_closeCallback = None,
                 writeCompleteCallback = None, highWaterMarkCallback = None,
                 m_highWaterMark = 64 * 1024 * 1024,
                 m_inputBuffer = newBuffer kInitialSize, m_outputBuffer = newBuffer kInitialSize\<rparr>;
           ch = (newChannel L sockfd)\<lparr>m_readCallback := Some (ConnHandleRead x),
                 m_writeCallback := Some (ConnHandleWrite x),
                 m_closeCallback := Some (ConnHandleClose x),
                 m_errorCallback := Some (ConnHandleError x)\<rparr>
       in Inr (w\<lparr>conns := (conns w)(x \<mapsto> co), chans := (chans w)(c \<mapsto> ch),
                 kst := setKeepAlive K sockfd True (kst w)\<rparr>))"

text \<open>The destructor: the channel, then the socket, which is closed.\<close>

definition destroyTcpConnection ::
    "'k kernel \<Rightarrow> conn_ptr \<Rightarrow> ('k, 'a) conn_world_scheme \<Rightarrow> ('k, 'a) conn_world_scheme res" where
  "destroyTcpConnection K x w =
     bindR (deref (conns w) x) (\<lambda>co.
       Inr (w\<lparr>chans := (chans w)(conn_chan co := None), kst := sock_destroy K (conn_fd co) (kst w),
              conns := (conns w)(x := None)\<rparr>))"

section \<open>Sending\<close>

definition read_mem :: "('k, 'a) conn_world_scheme \<Rightarrow> addr \<Rightarrow> size_t \<Rightarrow> byte list res" where
  "read_mem w a len =
     (if len = 0 then Inr [] else bindR (deref (mem w) a) (\<lambda>obj. mem_read obj 0 len))"

text \<open>
  The direct attempt: \<open>(nwrote, remaining, faultError)\<close>. \<open>nwrote\<close> is a \<open>size_t\<close>, so the test
  \<open>nwrote >= 0\<close> always succeeds.
\<close>

definition send_direct ::
    "'k kernel \<Rightarrow> conn_ptr \<Rightarrow> addr \<Rightarrow> size_t \<Rightarrow> tcp_conn \<Rightarrow> channel \<Rightarrow> ('k, 'a) conn_world_scheme
     \<Rightarrow> (size_t \<times> size_t \<times> bool \<times> ('k, 'a) conn_world_scheme) res" where
  "send_direct K x message len co ch w =
     bindR (read_mem w message len) (\<lambda>msg.
       case sys_write K (m_fd ch) msg (kst w) of ((nwrote, err), k) \<Rightarrow>
         let w = w\<lparr>kst := k\<rparr>
         in if 0 \<le> nwrote
            then let remaining = len - nwrote
                 in bindR (case writeCompleteCallback co of
                             Some wc \<Rightarrow> if remaining = 0
                                        then queueInLoop K (conn_loop co) (WriteCompleteCb wc x) w
                                        else Inr w
                           | None \<Rightarrow> Inr w) (\<lambda>w. Inr (nwrote, remaining, False, w))
            else Inr (0, len, err \<noteq> EWOULDBLOCK \<and> (err = EPIPE \<or> err = ECONNRESET), w))"

text \<open>Putting what is left into the output buffer.\<close>

definition send_buffered ::
    "'k kernel \<Rightarrow> conn_ptr \<Rightarrow> addr \<Rightarrow> size_t \<Rightarrow> size_t \<Rightarrow> tcp_conn \<Rightarrow> ('k, 'a) conn_world_scheme
     \<Rightarrow> ('k, 'a) conn_world_scheme res" where
  "send_buffered K x message nwrote remaining co w =
     (let oldLen = readableBytes (m_outputBuffer co)
      in bindR (case highWaterMarkCallback co of
                  Some hw \<Rightarrow> if m_highWaterMark co \<le> oldLen + remaining \<and> oldLen < m_highWaterMark co
                             then queueInLoop K (conn_loop co) (HighWaterMarkCb hw x (oldLen + remaining)) w
                             else Inr w
                | None \<Rightarrow> Inr w) (\<lambda>w.
         bindR (deref (mem w) message) (\<lambda>obj.
         bindR (append_data obj nwrote remaining (m_outputBuffer co)) (\<lambda>out.
           let w = modify_conn x (\<lambda>co. co\<lparr>m_outputBuffer := out\<rparr>) w
           in bindR (deref (chans w) (conn_chan co)) (\<lambda>ch.
                if \<not> isWriting ch then enableWriting K (conn_chan co) w else Inr w)))))"

definition sendInLoop ::
    "'k kernel \<Rightarrow> conn_ptr \<Rightarrow> addr \<Rightarrow> size_t \<Rightarrow> ('k, 'a) conn_world_scheme
     \<Rightarrow> ('k, 'a) conn_world_scheme res" where
  "sendInLoop K x message len w =
     bindR (deref (conns w) x) (\<lambda>co.
       if m_state co = kDisconnected then Inr w
       else bindR (deref (chans w) (conn_chan co)) (\<lambda>ch.
            bindR (if \<not> isWriting ch \<and> readableBytes (m_outputBuffer co) = 0
                   then send_direct K x message len co ch w
                   else Inr (0, len, False, w)) (\<lambda>(nwrote, remaining, faultError, w).
              if \<not> faultError \<and> 0 < remaining
              then send_buffered K x message nwrote remaining co w else Inr w)))"

definition send ::
    "'k kernel \<Rightarrow> conn_ptr \<Rightarrow> addr \<Rightarrow> size_t \<Rightarrow> ('k, 'a) conn_world_scheme
     \<Rightarrow> ('k, 'a) conn_world_scheme res" where
  "send K x message len w =
     bindR (deref (conns w) x) (\<lambda>co.
       if m_state co = kConnected
       then bindR (deref (loops w) (conn_loop co)) (\<lambda>l.
              if isInLoopThread l w then sendInLoop K x message len w
              else runInLoop K (conn_loop co) (SendInLoop x message len) (sendInLoop K x message len) w)
       else Inr w)"

text \<open>\<open>send(const std::string&)\<close>: the characters of the string are at \<open>str\<close>.\<close>

definition sendStr ::
    "'k kernel \<Rightarrow> conn_ptr \<Rightarrow> addr \<Rightarrow> ('k, 'a) conn_world_scheme \<Rightarrow> ('k, 'a) conn_world_scheme res" where
  "sendStr K x str w = bindR (deref (mem w) str) (\<lambda>s. send K x str (of_nat (length s)) w)"

section \<open>Shutting down\<close>

definition shutdownInLoop ::
    "'k kernel \<Rightarrow> conn_ptr \<Rightarrow> ('k, 'a) conn_world_scheme \<Rightarrow> ('k, 'a) conn_world_scheme res" where
  "shutdownInLoop K x w =
     bindR (deref (conns w) x) (\<lambda>co.
     bindR (deref (chans w) (conn_chan co)) (\<lambda>ch.
       if \<not> isWriting ch then Inr (w\<lparr>kst := shutdownWrite K (conn_fd co) (kst w)\<rparr>) else Inr w))"

definition conn_shutdown ::
    "'k kernel \<Rightarrow> conn_ptr \<Rightarrow> ('k, 'a) conn_world_scheme \<Rightarrow> ('k, 'a) conn_world_scheme res" where
  "conn_shutdown K x w =
     bindR (deref (conns w) x) (\<lambda>co.
       if m_state co = kConnected
       then runInLoop K (conn_loop co) (ShutdownInLoop x) (shutdownInLoop K x)
              (setState x kDisconnecting w)
       else Inr w)"

section \<open>Establishing and destroying\<close>

definition connectEstablished ::
    "'k kernel \<Rightarrow> ('k, 'a) conn_world_scheme user_callbacks \<Rightarrow> conn_ptr \<Rightarrow> ('k, 'a) conn_world_scheme
     \<Rightarrow> ('k, 'a) conn_world_scheme res" where
  "connectEstablished K U x w =
     bindR (deref (conns w) x) (\<lambda>co.
       let w = modify_chan (conn_chan co) (tie x) (setState x kConnected w)
       in bindR (enableReading K (conn_chan co) w) (\<lambda>w.
            call_fn (connectionCallback co) (\<lambda>i. on_connection U i x w)))"

definition connectDestoryed ::
    "'k kernel \<Rightarrow> ('k, 'a) conn_world_scheme user_callbacks \<Rightarrow> conn_ptr \<Rightarrow> ('k, 'a) conn_world_scheme
     \<Rightarrow> ('k, 'a) conn_world_scheme res" where
  "connectDestoryed K U x w =
     bindR (deref (conns w) x) (\<lambda>co.
     bindR (if m_state co = kConnected
            then bindR (disableAll K (conn_chan co) (setState x kDisconnected w)) (\<lambda>w.
                   call_fn (connectionCallback co) (\<lambda>i. on_connection U i x w))
            else Inr w) (channel_remove K (conn_chan co)))"

section \<open>Events\<close>

definition conn_handleClose ::
    "'k kernel \<Rightarrow> ('k, 'a) conn_world_scheme user_callbacks \<Rightarrow> conn_ptr \<Rightarrow> ('k, 'a) conn_world_scheme
     \<Rightarrow> ('k, 'a) conn_world_scheme res" where
  "conn_handleClose K U x w =
     bindR (deref (conns w) x) (\<lambda>co.
     bindR (disableAll K (conn_chan co) (setState x kDisconnected w)) (\<lambda>w.
     bindR (call_fn (connectionCallback co) (\<lambda>i. on_connection U i x w)) (\<lambda>w.
     bindR (deref (conns w) x) (\<lambda>co.
       call_fn (conn_closeCallback co) (\<lambda>i. on_close U i x w)))))"

text \<open>\<open>handleError\<close> reads the pending socket error and logs it.\<close>

definition conn_handleError ::
    "'k kernel \<Rightarrow> conn_ptr \<Rightarrow> ('k, 'a) conn_world_scheme \<Rightarrow> ('k, 'a) conn_world_scheme res" where
  "conn_handleError K x w =
     bindR (deref (conns w) x) (\<lambda>co.
     bindR (deref (chans w) (conn_chan co)) (\<lambda>ch.
       Inr (w\<lparr>kst := snd (sys_so_error K (m_fd ch) (kst w))\<rparr>)))"

definition conn_handleRead ::
    "'k kernel \<Rightarrow> ('k, 'a) conn_world_scheme user_callbacks \<Rightarrow> conn_ptr \<Rightarrow> timestamp
     \<Rightarrow> ('k, 'a) conn_world_scheme \<Rightarrow> ('k, 'a) conn_world_scheme res" where
  "conn_handleRead K U x t w =
     bindR (deref (conns w) x) (\<lambda>co.
     bindR (deref (chans w) (conn_chan co)) (\<lambda>ch.
     bindR (readFd (sys_readv K (m_fd ch)) 0 (kst w) (m_inputBuffer co)) (\<lambda>(n, saveErrno, b, k).
       let w = (modify_conn x (\<lambda>co. co\<lparr>m_inputBuffer := b\<rparr>) w)\<lparr>kst := k\<rparr>
       in if 0 < n then call_fn (messageCallback co) (\<lambda>i. on_message U i x t w)
          else if n = 0 then conn_handleClose K U x w
          else conn_handleError K x w)))"

definition conn_handleWrite ::
    "'k kernel \<Rightarrow> conn_ptr \<Rightarrow> ('k, 'a) conn_world_scheme \<Rightarrow> ('k, 'a) conn_world_scheme res" where
  "conn_handleWrite K x w =
     bindR (deref (conns w) x) (\<lambda>co.
     bindR (deref (chans w) (conn_chan co)) (\<lambda>ch.
       if isWriting ch
       then bindR (writeFd (sys_write K (m_fd ch)) 0 (kst w) (m_outputBuffer co)) (\<lambda>(n, saveErrno, k).
              let w = w\<lparr>kst := k\<rparr>
              in if 0 < n
                 then let out = retrieve n (m_outputBuffer co);
                          w = modify_conn x (\<lambda>co. co\<lparr>m_outputBuffer := out\<rparr>) w
                      in if readableBytes out = 0
                         then bindR (disableWriting K (conn_chan co) w) (\<lambda>w.
                              bindR (case writeCompleteCallback co of
                                       Some wc \<Rightarrow> queueInLoop K (conn_loop co) (WriteCompleteCb wc x) w
                                     | None \<Rightarrow> Inr w) (\<lambda>w.
                                if m_state co = kDisconnecting then shutdownInLoop K x w else Inr w))
                         else Inr w
                 else Inr w)
       else Inr w))"

section \<open>The connection invariant\<close>

text \<open>
  The connection \<open>co\<close> at \<open>x\<close>, its channel \<open>ch\<close>, its live loop and that loop's poller fit together,
  the buffers are well formed, and a connection that is not closed waits for writability exactly when
  it has output to write.
\<close>

definition conn_at ::
    "('k \<Rightarrow> fd \<Rightarrow> fd \<Rightarrow> epoll_event option) \<Rightarrow> conn_ptr \<Rightarrow> tcp_conn \<Rightarrow> channel
     \<Rightarrow> ('k, 'a) conn_world_scheme \<Rightarrow> bool" where
  "conn_at reg x co ch w \<longleftrightarrow>
     conns w x = Some co \<and> chans w (conn_chan co) = Some ch \<and> m_fd ch = conn_fd co \<and>
     chan_loop ch = conn_loop co \<and>
     (\<exists>l. loops w (conn_loop co) = Some l \<and> m_wakeupFd l \<noteq> conn_fd co) \<and>
     poller_inv reg (conn_loop co) w \<and> usable (conn_loop co) w (conn_chan co) \<and>
     buffer_inv (m_inputBuffer co) \<and> buffer_inv (m_outputBuffer co) \<and>
     (m_state co \<noteq> kDisconnected \<longrightarrow> isWriting ch = (contents (m_outputBuffer co) \<noteq> []))"

text \<open>The bytes a connection has been given to send: those on the wire, then those buffered.\<close>

definition outgoing :: "('k \<Rightarrow> byte list) \<Rightarrow> tcp_conn \<Rightarrow> ('k, 'a) conn_world_scheme \<Rightarrow> byte list" where
  "outgoing wire co w = wire (kst w) @ contents (m_outputBuffer co)"

text \<open>What a connection on the descriptor \<open>f\<close> relies on.\<close>

definition conn_kernel ::
    "'k kernel \<Rightarrow> ('k \<Rightarrow> fd \<Rightarrow> fd \<Rightarrow> epoll_event option) \<Rightarrow> ('k \<Rightarrow> byte list) \<Rightarrow> fd \<Rightarrow> bool" where
  "conn_kernel K reg wire f \<longleftrightarrow>
     epoll_contract K reg \<and> io_contract K reg \<and> write_contract K wire f \<and> quiet_contract K wire f"

lemma conn_kernelD:
  assumes "conn_kernel K reg wire f"
  shows "epoll_contract K reg" and "io_contract K reg" and "write_contract K wire f"
    and "quiet_contract K wire f"
  using assms by (simp_all add: conn_kernel_def)

lemma io_reg:
  assumes "io_contract K reg"
  shows "reg (snd (sys_write K f xs k)) = reg k" and "reg (snd (sys_readv K f iov k)) = reg k"
    and "reg (snd (sys_shutdown_wr K f k)) = reg k" and "reg (snd (sys_so_error K f k)) = reg k"
  using assms by (simp_all add: io_contract_def)

lemma quiet_wire:
  assumes "quiet_contract K wire f"
  shows "wire (snd (sys_epoll_ctl K ep op g ev k)) = wire k"
    and "wire (snd (sys_shutdown_wr K g k)) = wire k"
    and "g \<noteq> f \<Longrightarrow> wire (snd (sys_write K g xs k)) = wire k"
  using assms unfolding quiet_contract_def by blast+

lemma write_wire:
  assumes "write_contract K wire f" and "sys_write K f xs k = ((n, e), k')" and "n \<noteq> -1"
  shows "unat n \<le> length xs" and "wire k' = wire k @ take (unat n) xs"
proof -
  have "(n = -1 \<and> wire k' = wire k) \<or> (unat n \<le> length xs \<and> wire k' = wire k @ take (unat n) xs)"
    by (rule assms(1) [unfolded write_contract_def, rule_format]) (rule assms(2))
  with assms(3) show "unat n \<le> length xs" "wire k' = wire k @ take (unat n) xs" by auto
qed

lemma poller_inv_cong:
  assumes "poller_inv reg L w" and "pollers w' L = pollers w L" and "chans w' = chans w"
    and "reg (kst w') = reg (kst w)"
  shows "poller_inv reg L w'"
  using assms by (simp add: poller_inv_def)

lemma usable_cong:
  assumes "usable L w c" and "pollers w' L = pollers w L" and "chans w' c = chans w c"
  shows "usable L w' c"
  using assms by (simp add: usable_def)

lemma conn_at_kst:
  "conn_at reg x co ch w \<Longrightarrow> reg k = reg (kst w) \<Longrightarrow> conn_at reg x co ch (w\<lparr>kst := k\<rparr>)"
  using poller_inv_cong [of reg "conn_loop co" w "w\<lparr>kst := k\<rparr>"]
    usable_cong [of "conn_loop co" w "conn_chan co" "w\<lparr>kst := k\<rparr>"]
  by (auto simp: conn_at_def)

text \<open>The invariant depends on the structures a connection is linked into, and on no more of it.\<close>

lemma conn_at_same:
  assumes at: "conn_at reg x co ch w" and "conns w' x = Some co'" and "chans w' = chans w"
    and "pollers w' = pollers w" and "loops w' = loops w" and "kst w' = kst w"
    and "conn_loop co' = conn_loop co" and "conn_chan co' = conn_chan co" and "conn_fd co' = conn_fd co"
    and "m_inputBuffer co' = m_inputBuffer co" and "m_outputBuffer co' = m_outputBuffer co"
    and "m_state co' = m_state co"
  shows "conn_at reg x co' ch w'"
  using assms poller_inv_cong [of reg "conn_loop co" w w'] usable_cong [of "conn_loop co" w "conn_chan co" w']
  by (simp add: conn_at_def)

text \<open>Queueing a functor in the connection's loop touches the queue and the kernel only.\<close>

definition queue_frame :: "('k, 'a) conn_world_scheme \<Rightarrow> ('k, 'a) conn_world_scheme \<Rightarrow> bool" where
  "queue_frame w w' \<longleftrightarrow> chans w' = chans w \<and> pollers w' = pollers w \<and> conns w' = conns w \<and> mem w' = mem w"

lemma queue_conn:
  assumes K: "conn_kernel K reg wire (conn_fd co)" and at: "conn_at reg x co ch w"
  shows "\<exists>w'. queueInLoop K (conn_loop co) f w = Inr w' \<and> conn_at reg x co ch w' \<and> queue_frame w w' \<and>
    wire (kst w') = wire (kst w) \<and> 
    pendings w' = (pendings w)(conn_loop co := pendings w (conn_loop co) @ [f])"
proof -
  from at obtain l where l: "loops w (conn_loop co) = Some l" "m_wakeupFd l \<noteq> conn_fd co"
    by (auto simp: conn_at_def)
  let ?w = "w\<lparr>loops := (loops w)(conn_loop co \<mapsto> l\<lparr>m_pendingFunctors := m_pendingFunctors l @ [f]\<rparr>),
           kst := if wakes l w then snd (sys_write K (m_wakeupFd l) eventfd_one (kst w)) else kst w\<rparr>"
  have r: "reg (kst ?w) = reg (kst w)" using io_reg(1) [OF conn_kernelD(2) [OF K]] by simp
  have "wire (kst ?w) = wire (kst w)"
    using quiet_wire(3) [OF conn_kernelD(4) [OF K] l(2)] by simp
  moreover have "conn_at reg x co ch ?w"
    using at l poller_inv_cong [of reg "conn_loop co" w ?w] usable_cong [of "conn_loop co" w "conn_chan co" ?w] r
    by (auto simp: conn_at_def)
  moreover have "pendings ?w = (pendings w)(conn_loop co := pendings w (conn_loop co) @ [f])"
    using l by (auto simp: pendings_def fun_eq_iff)
  ultimately show ?thesis using queueInLoop_eq [of w "conn_loop co" l K f] l
    by (intro exI [of _ ?w]) (simp add: queue_frame_def)
qed

text \<open>Changing the events the connection's channel is watched for.\<close>

lemma isWriting_updated [simp]:
  "isWriting (updated_channel ch ev) \<longleftrightarrow> ev AND kWriteEvent \<noteq> 0"
  by (simp add: isWriting_def)

lemma conns_register_sel [simp]:
  "conns (register L p c ch ev k' (w :: ('k, 'a) conn_world_scheme)) = conns w"
  "mem (register L p c ch ev k' (w :: ('k, 'a) conn_world_scheme)) = mem w"
  "conns (unregister L p c ch k' (w :: ('k, 'a) conn_world_scheme)) = conns w"
  "mem (unregister L p c ch k' (w :: ('k, 'a) conn_world_scheme)) = mem w"
  by (simp_all add: register_def unregister_def)

lemma pendings_cong: "loops w' = loops w \<Longrightarrow> pendings w' = pendings w"
  by (simp add: pendings_def fun_eq_iff)

text \<open>The parts of \<open>conn_at\<close> that do not concern the two buffers and the write interest.\<close>

definition conn_links ::
    "('k \<Rightarrow> fd \<Rightarrow> fd \<Rightarrow> epoll_event option) \<Rightarrow> conn_ptr \<Rightarrow> tcp_conn \<Rightarrow> channel
     \<Rightarrow> ('k, 'a) conn_world_scheme \<Rightarrow> bool" where
  "conn_links reg x co ch w \<longleftrightarrow>
     conns w x = Some co \<and> chans w (conn_chan co) = Some ch \<and> m_fd ch = conn_fd co \<and>
     chan_loop ch = conn_loop co \<and>
     (\<exists>l. loops w (conn_loop co) = Some l \<and> m_wakeupFd l \<noteq> conn_fd co) \<and>
     poller_inv reg (conn_loop co) w \<and> usable (conn_loop co) w (conn_chan co)"

lemma conn_at_links: "conn_at reg x co ch w \<longleftrightarrow>
    conn_links reg x co ch w \<and> buffer_inv (m_inputBuffer co) \<and> buffer_inv (m_outputBuffer co) \<and>
    (m_state co \<noteq> kDisconnected \<longrightarrow> isWriting ch = (contents (m_outputBuffer co) \<noteq> []))"
  by (auto simp: conn_at_def conn_links_def)

lemma conn_links_modify:
  assumes "conn_links reg x co ch w" and "conn_loop (f co) = conn_loop co"
    and "conn_chan (f co) = conn_chan co" and "conn_fd (f co) = conn_fd co"
  shows "conn_links reg x (f co) ch (modify_conn x f w)"
  using assms poller_inv_cong [of reg "conn_loop co" w "modify_conn x f w"]
    usable_cong [of "conn_loop co" w "conn_chan co" "modify_conn x f w"]
  by (simp add: conn_links_def modify_conn_def)

lemma modify_conn_sel [simp]:
  "chans (modify_conn x f w) = chans w" "kst (modify_conn x f w) = kst w"
  "loops (modify_conn x f w) = loops w" "mem (modify_conn x f w) = mem w"
  "pollers (modify_conn x f w) = pollers w" "cur_tid (modify_conn x f w) = cur_tid w"
  "conns (modify_conn x f w) = (conns w)(x := map_option f (conns w x))"
  by (simp_all add: modify_conn_def)

lemma update_events_wire:
  assumes "quiet_contract K wire g" and "update_events K c f w = Inr w'"
  shows "wire (kst w') = wire (kst w)"
proof -
  have e: "epoll_update K op L c v = Inr v' \<Longrightarrow> wire (kst v') = wire (kst v)" for op L v v'
    using quiet_wire(1) [OF assms(1)]
    by (auto simp: epoll_update_def split: prod.splits if_splits) (metis snd_conv)+
  show ?thesis using assms(2)
    by (auto simp: update_events_def updateChannel_def Let_def modify_chan_def split: if_splits dest!: e)
qed

lemma update_conn:
  assumes K: "epoll_contract K reg" "quiet_contract K wire g" and at: "conn_links reg x co ch w"
  shows "\<exists>w'. update_events K (conn_chan co) f w = Inr w' \<and>
    conn_links reg x co (updated_channel ch (f (m_events ch))) w' \<and>
    conns w' = conns w \<and> mem w' = mem w \<and> loops w' = loops w \<and> cur_tid w' = cur_tid w \<and>
    wire (kst w') = wire (kst w)"
proof -
  let ?L = "conn_loop co" and ?c = "conn_chan co"
  from at obtain p where p: "pollers w ?L = Some p" by (auto simp: conn_links_def elim: poller_invE)
  from at have ch: "chans w ?c = Some ch" "chan_loop ch = ?L" and inv: "poller_inv reg ?L w" and u: "usable ?L w ?c"
    by (simp_all add: conn_links_def)
  from update_events_ok [OF K(1) inv u p ch(1), of f] obtain k' where k':
    "update_events K ?c f w = Inr (register ?L p ?c ch (f (m_events ch)) k' w)"
    "poller_inv reg ?L (register ?L p ?c ch (f (m_events ch)) k' w)" by blast
  have wire: "wire k' = wire (kst w)"
    using update_events_wire [OF K(2) k'(1)] by simp
  let ?w = "register ?L p ?c ch (f (m_events ch)) k' w"
  have "conn_links reg x co (updated_channel ch (f (m_events ch))) ?w"
    using at k'(2) usable_register [OF ch(2)] by (simp add: conn_links_def)
  with k' wire show ?thesis by (intro exI [of _ ?w]) simp
qed

section \<open>Sending keeps the byte stream\<close>

definition message_at :: "('k, 'a) conn_world_scheme \<Rightarrow> addr \<Rightarrow> byte list \<Rightarrow> bool" where
  "message_at w a msg \<longleftrightarrow> mem w a = Some msg \<and> length msg \<le> max_object"

lemma read_mem_message:
  assumes "message_at w a msg" and "unat len = length msg"
  shows "read_mem w a len = Inr msg"
proof (cases "len = 0")
  case True
  with assms(2) show ?thesis by (simp add: read_mem_def)
next
  case False
  with assms show ?thesis by (simp add: read_mem_def message_at_def mem_read_def)
qed

lemma contents_empty_iff: "buffer_inv b \<Longrightarrow> readableBytes b = 0 \<longleftrightarrow> contents b = []"
  using length_contents [of b] by (metis length_0_conv unat_eq_zero)

text \<open>A conditional notification: nothing, or one functor queued in the connection's loop.\<close>

lemma queue_opt:
  assumes K: "conn_kernel K reg wire (conn_fd co)" and at: "conn_at reg x co ch w"
  shows "\<exists>w'. (case cb of Some i \<Rightarrow> if P then queueInLoop K (conn_loop co) (f i) w else Inr w
        | None \<Rightarrow> Inr w) = Inr w' \<and> conn_at reg x co ch w' \<and> queue_frame w w' \<and>
      wire (kst w') = wire (kst w) \<and>
      pendings w' = (pendings w)(conn_loop co := pendings w (conn_loop co) @
        (case cb of Some i \<Rightarrow> if P then [f i] else [] | None \<Rightarrow> []))"
proof (cases cb)
  case None
  with at show ?thesis by (simp add: queue_frame_def)
next
  case (Some i)
  show ?thesis
  proof (cases P)
    case True
    with queue_conn [OF K at, of "f i"] Some show ?thesis by simp
  next
    case False
    with Some at show ?thesis by (simp add: queue_frame_def)
  qed
qed

lemma send_direct_ok:
  assumes K: "conn_kernel K reg wire (conn_fd co)" and at: "conn_at reg x co ch w"
    and msg: "message_at w a msg" "unat len = length msg"
    and ok: "sys_write K (conn_fd co) msg (kst w) = ((n, e), k)" "n \<noteq> -1"
  shows "\<exists>w'. send_direct K x a len co ch w = Inr (n, len - n, False, w') \<and> conn_at reg x co ch w' \<and>
    queue_frame w w' \<and> wire (kst w') = wire (kst w) @ take (unat n) msg \<and>
    pendings w' = (pendings w)(conn_loop co := pendings w (conn_loop co) @
      (case writeCompleteCallback co of Some i \<Rightarrow> if len - n = 0 then [WriteCompleteCb i x] else [] | None \<Rightarrow> []))"
proof -
  have fd: "m_fd ch = conn_fd co" using at by (simp add: conn_at_def)
  have reg: "reg k = reg (kst w)"
    using io_reg(1) [OF conn_kernelD(2) [OF K], of "conn_fd co" msg "kst w"] ok by simp
  from queue_opt [OF K conn_at_kst [OF at reg], where cb = "writeCompleteCallback co" and P = "len - n = 0"
      and f = "\<lambda>i. WriteCompleteCb i x"] obtain w' where w':
    "(case writeCompleteCallback co of
        Some i \<Rightarrow> if len - n = 0 then queueInLoop K (conn_loop co) (WriteCompleteCb i x) (w\<lparr>kst := k\<rparr>)
                  else Inr (w\<lparr>kst := k\<rparr>) | None \<Rightarrow> Inr (w\<lparr>kst := k\<rparr>)) = Inr w'"
    "conn_at reg x co ch w'" "queue_frame (w\<lparr>kst := k\<rparr>) w'" "wire (kst w') = wire k"
    "pendings w' = (pendings (w\<lparr>kst := k\<rparr>))(conn_loop co := pendings (w\<lparr>kst := k\<rparr>) (conn_loop co) @
      (case writeCompleteCallback co of Some i \<Rightarrow> if len - n = 0 then [WriteCompleteCb i x] else [] | None \<Rightarrow> []))"
    by auto
  have p: "pendings (w\<lparr>kst := k\<rparr>) = pendings w" by (rule pendings_cong) simp
  have "send_direct K x a len co ch w = Inr (n, len - n, False, w')"
    using w'(1) ok fd by (simp add: send_direct_def read_mem_message [OF msg])
  moreover have "queue_frame w w'" using w'(3) by (simp add: queue_frame_def)
  ultimately show ?thesis using w'(2,4,5) write_wire(2) [OF conn_kernelD(3) [OF K] ok] unfolding p
    by (intro exI [of _ w']) simp
qed

lemma writing_or: "(ev OR kWriteEvent) AND kWriteEvent \<noteq> 0"
  by (simp add: kWriteEvent_val word_ao_absorbs)

lemma send_buffered_ok:
  assumes K: "conn_kernel K reg wire (conn_fd co)" and at: "conn_at reg x co ch w"
    and obj: "message_at w a msg" "unat nwrote + unat remaining = length msg" "0 < remaining"
    and room: "fits (unat remaining) (m_outputBuffer co)"
  shows "\<exists>w' co' ch'. send_buffered K x a nwrote remaining co w = Inr w' \<and> conn_at reg x co' ch' w' \<and>
    co' = co\<lparr>m_outputBuffer := m_outputBuffer co'\<rparr> \<and>
    contents (m_outputBuffer co') = contents (m_outputBuffer co) @ drop (unat nwrote) msg \<and>
    wire (kst w') = wire (kst w) \<and> mem w' = mem w \<and>
    pendings w' = (pendings w)(conn_loop co := pendings w (conn_loop co) @
      (case highWaterMarkCallback co of
         Some i \<Rightarrow> if m_highWaterMark co \<le> readableBytes (m_outputBuffer co) + remaining \<and>
                     readableBytes (m_outputBuffer co) < m_highWaterMark co
                  then [HighWaterMarkCb i x (readableBytes (m_outputBuffer co) + remaining)] else []
       | None \<Rightarrow> []))"
proof -
  let ?old = "readableBytes (m_outputBuffer co)" and ?L = "conn_loop co"
  let ?P = "m_highWaterMark co \<le> ?old + remaining \<and> ?old < m_highWaterMark co"
  let ?f = "\<lambda>i. HighWaterMarkCb i x (?old + remaining)"
  from queue_opt [OF K at, where cb = "highWaterMarkCallback co" and P = ?P and f = ?f] obtain w1 where w1:
    "(case highWaterMarkCallback co of Some i \<Rightarrow> if ?P then queueInLoop K ?L (?f i) w else Inr w
        | None \<Rightarrow> Inr w) = Inr w1" "conn_at reg x co ch w1" "queue_frame w w1"
    "wire (kst w1) = wire (kst w)"
    "pendings w1 = (pendings w)(?L := pendings w ?L @
      (case highWaterMarkCallback co of Some i \<Rightarrow> if ?P then [?f i] else [] | None \<Rightarrow> []))" by blast
  from at have bi: "buffer_inv (m_outputBuffer co)" "buffer_inv (m_inputBuffer co)" by (simp_all add: conn_at_def)
  have len: "length msg \<le> max_object" "unat nwrote + unat remaining \<le> length msg"
    using obj by (simp_all add: message_at_def)
  from outq.put_bytes [OF bi(1) len room] obtain out where out:
    "append_data msg nwrote remaining (m_outputBuffer co) = Inr out" "buffer_inv out"
    "contents out = contents (m_outputBuffer co) @ take (unat remaining) (drop (unat nwrote) msg)" by blast
  have all: "take (unat remaining) (drop (unat nwrote) msg) = drop (unat nwrote) msg" using obj(2) by simp
  have ne: "contents out \<noteq> []"
  proof -
    have "unat remaining \<noteq> 0" using obj(3) by (simp add: unat_eq_zero)
    then show ?thesis using out(3) all obj(2) by auto
  qed
  let ?w2 = "modify_conn x (\<lambda>co. co\<lparr>m_outputBuffer := out\<rparr>) w1"
  let ?co = "co\<lparr>m_outputBuffer := out\<rparr>"
  have links: "conn_links reg x ?co ch ?w2"
    using w1(2) by (intro conn_links_modify) (simp_all add: conn_at_links)
  have p2: "pendings ?w2 = pendings w1" by (rule pendings_cong) simp
  have call: "send_buffered K x a nwrote remaining co w =
      (if \<not> isWriting ch then enableWriting K (conn_chan co) ?w2 else Inr ?w2)"
    using w1(1,3) obj(1) out(1) links
    by (simp add: send_buffered_def queue_frame_def message_at_def conn_links_def cong: option.case_cong)
  show ?thesis
  proof (cases "isWriting ch")
    case True
    with links bi out(2) ne have "conn_at reg x ?co ch ?w2" by (simp add: conn_at_links)
    with True call w1(3-5) out(3) all p2 show ?thesis
      by (intro exI [of _ ?w2] exI [of _ ?co] exI [of _ ch]) (simp add: queue_frame_def)
  next
    case False
    from update_conn [OF conn_kernelD(1,4) [OF K] links, of "\<lambda>e. e OR kWriteEvent"]
    obtain w' where w': "enableWriting K (conn_chan co) ?w2 = Inr w'"
      "conn_links reg x ?co (updated_channel ch (m_events ch OR kWriteEvent)) w'"
      "mem w' = mem ?w2" "loops w' = loops ?w2" "wire (kst w') = wire (kst ?w2)"
      by (auto simp: enableWriting_def)
    have "conn_at reg x ?co (updated_channel ch (m_events ch OR kWriteEvent)) w'"
      using w'(2) bi out(2) ne writing_or by (simp add: conn_at_links)
    moreover have "pendings w' = pendings w1" using pendings_cong [OF w'(4)] p2 by simp
    ultimately show ?thesis using False call w1(3-5) w' out(3) all
      by (intro exI [of _ w'] exI [of _ ?co] exI [of _ "updated_channel ch (m_events ch OR kWriteEvent)"])
        (simp add: queue_frame_def)
  qed
qed

text \<open>
  What \<open>sendInLoop\<close> of \<open>msg\<close> does on an open connection: the message is appended to the outgoing
  bytes, whether it is written, buffered or split. \<open>direct\<close> says whether a write is attempted.
\<close>

definition direct :: "tcp_conn \<Rightarrow> channel \<Rightarrow> bool" where
  "direct co ch \<longleftrightarrow> \<not> isWriting ch \<and> readableBytes (m_outputBuffer co) = 0"

definition write_ok :: "'k kernel \<Rightarrow> fd \<Rightarrow> byte list \<Rightarrow> 'k \<Rightarrow> bool" where
  "write_ok K f xs k \<longleftrightarrow> fst (fst (sys_write K f xs k)) \<noteq> -1"

lemma fits_less: "fits m b \<Longrightarrow> n \<le> m \<Longrightarrow> fits n b"
  by (auto simp: fits_def)

lemma direct_iff:
  "conn_at reg x co ch w \<Longrightarrow> m_state co \<noteq> kDisconnected \<Longrightarrow>
   direct co ch \<longleftrightarrow> contents (m_outputBuffer co) = []"
  by (auto simp: direct_def conn_at_def contents_empty_iff)

lemma sendInLoop_direct:
  assumes K: "conn_kernel K reg wire (conn_fd co)" and at: "conn_at reg x co ch w"
    and st: "m_state co \<noteq> kDisconnected" "direct co ch"
    and msg: "message_at w a msg" "unat len = length msg" and room: "fits (length msg) (m_outputBuffer co)"
    and ok: "sys_write K (conn_fd co) msg (kst w) = ((n, e), k)" "n \<noteq> -1"
  shows "\<exists>w' co' ch'. sendInLoop K x a len w = Inr w' \<and> conn_at reg x co' ch' w' \<and>
    co' = co\<lparr>m_outputBuffer := m_outputBuffer co'\<rparr> \<and>
    contents (m_outputBuffer co') = drop (unat n) msg \<and>
    wire (kst w') = wire (kst w) @ take (unat n) msg \<and> mem w' = mem w"
proof -
  from send_direct_ok [OF K at msg ok] obtain w1 where w1:
    "send_direct K x a len co ch w = Inr (n, len - n, False, w1)" "conn_at reg x co ch w1"
    "queue_frame w w1" "wire (kst w1) = wire (kst w) @ take (unat n) msg" by blast
  have n: "unat n \<le> length msg" by (rule write_wire(1) [OF conn_kernelD(3) [OF K] ok])
  then have r: "unat (len - n) = length msg - unat n" using msg(2) by (simp add: unat_sub_le)
  have empty: "contents (m_outputBuffer co) = []" using direct_iff [OF at st(1)] st(2) by simp
  have call: "sendInLoop K x a len w =
      (if 0 < len - n then send_buffered K x a n (len - n) co w1 else Inr w1)"
    using at st w1(1) by (simp add: sendInLoop_def conn_at_def direct_def)
  show ?thesis
  proof (cases "0 < len - n")
    case False
    then have "len - n = 0" using word_neq_0_conv by blast
    then have "unat n = length msg" using r n by simp
    with False call w1 empty show ?thesis
      by (intro exI [of _ w1] exI [of _ co] exI [of _ ch]) (simp add: queue_frame_def)
  next
    case True
    have m: "message_at w1 a msg" using msg(1) w1(3) by (simp add: message_at_def queue_frame_def)
    have s: "unat n + unat (len - n) = length msg" using r n by simp
    have f: "fits (unat (len - n)) (m_outputBuffer co)"
      by (rule fits_less [OF room]) (simp add: r)
    from send_buffered_ok [OF K w1(2) m s True f] obtain w' co' ch' where w':
      "send_buffered K x a n (len - n) co w1 = Inr w'" "conn_at reg x co' ch' w'"
      "co' = co\<lparr>m_outputBuffer := m_outputBuffer co'\<rparr>"
      "contents (m_outputBuffer co') = contents (m_outputBuffer co) @ drop (unat n) msg"
      "wire (kst w') = wire (kst w1)" "mem w' = mem w1"
      by blast
    with True call w1(3,4) empty show ?thesis
      by (intro exI [of _ w'] exI [of _ co'] exI [of _ ch']) (simp add: queue_frame_def)
  qed
qed

lemma sendInLoop_queued:
  assumes K: "conn_kernel K reg wire (conn_fd co)" and at: "conn_at reg x co ch w"
    and st: "m_state co \<noteq> kDisconnected" "\<not> direct co ch"
    and msg: "message_at w a msg" "unat len = length msg" and room: "fits (length msg) (m_outputBuffer co)"
  shows "\<exists>w' co' ch'. sendInLoop K x a len w = Inr w' \<and> conn_at reg x co' ch' w' \<and>
    co' = co\<lparr>m_outputBuffer := m_outputBuffer co'\<rparr> \<and>
    contents (m_outputBuffer co') = contents (m_outputBuffer co) @ msg \<and>
    wire (kst w') = wire (kst w) \<and> mem w' = mem w"
proof -
  have call: "sendInLoop K x a len w = (if 0 < len then send_buffered K x a 0 len co w else Inr w)"
    using at st by (auto simp: sendInLoop_def conn_at_def direct_def)
  show ?thesis
  proof (cases "0 < len")
    case False
    then have "len = 0" using word_neq_0_conv by blast
    then have "msg = []" using msg(2) by simp
    with False call at show ?thesis
      by (intro exI [of _ w] exI [of _ co] exI [of _ ch]) simp
  next
    case True
    from send_buffered_ok [OF K at msg(1) _ True, of 0] msg(2) room call True show ?thesis by auto
  qed
qed

lemma sendInLoop_ok:
  assumes K: "conn_kernel K reg wire (conn_fd co)" and at: "conn_at reg x co ch w"
    and st: "m_state co \<noteq> kDisconnected" 
    and msg: "message_at w a msg" "unat len = length msg" and room: "fits (length msg) (m_outputBuffer co)"
    and ok: "direct co ch \<Longrightarrow> write_ok K (conn_fd co) msg (kst w)"
  shows "\<exists>w' co' ch'. sendInLoop K x a len w = Inr w' \<and> conn_at reg x co' ch' w' \<and>
    co' = co\<lparr>m_outputBuffer := m_outputBuffer co'\<rparr> \<and>
    outgoing wire co' w' = outgoing wire co w @ msg \<and> mem w' = mem w"
proof (cases "direct co ch")
  case False
  from sendInLoop_queued [OF K at st False msg room] obtain w' co' ch' where w':
    "sendInLoop K x a len w = Inr w'" "conn_at reg x co' ch' w'"
    "co' = co\<lparr>m_outputBuffer := m_outputBuffer co'\<rparr>"
    "contents (m_outputBuffer co') = contents (m_outputBuffer co) @ msg"
    "wire (kst w') = wire (kst w)" "mem w' = mem w" by blast
  then show ?thesis by (intro exI [of _ w'] exI [of _ co'] exI [of _ ch']) (simp add: outgoing_def)
next
  case True
  obtain n e k where w: "sys_write K (conn_fd co) msg (kst w) = ((n, e), k)" by (metis surj_pair)
  with ok True have "n \<noteq> -1" by (simp add: write_ok_def)
  from sendInLoop_direct [OF K at st True msg room w this] obtain w' co' ch' where w':
    "sendInLoop K x a len w = Inr w'" "conn_at reg x co' ch' w'"
    "co' = co\<lparr>m_outputBuffer := m_outputBuffer co'\<rparr>" "contents (m_outputBuffer co') = drop (unat n) msg"
    "wire (kst w') = wire (kst w) @ take (unat n) msg" "mem w' = mem w" by blast
  moreover have "contents (m_outputBuffer co) = []" using direct_iff [OF at st] True by simp
  ultimately show ?thesis by (intro exI [of _ w'] exI [of _ co'] exI [of _ ch']) (simp add: outgoing_def)
qed

text \<open>On a closed connection nothing is sent.\<close>

lemma sendInLoop_disconnected:
  "conns w x = Some co \<Longrightarrow> m_state co = kDisconnected \<Longrightarrow> sendInLoop K x a len w = Inr w"
  by (simp add: sendInLoop_def)

text \<open>
  When the direct write fails the count is the \<open>size_t\<close> -1, which passes for a success: the code goes
  on to buffer \<open>len + 1\<close> bytes from one byte before the message.
\<close>

lemma sendInLoop_minus_one:
  assumes at: "conn_at reg x co ch w" and st: "m_state co \<noteq> kDisconnected" "direct co ch"
    and msg: "message_at w a msg" "unat len = length msg"
    and hw: "highWaterMarkCallback co = None" and wc: "writeCompleteCallback co = None"
    and fail: "sys_write K (conn_fd co) msg (kst w) = ((-1, e), k)"
    and room: "fits (length msg + 1) (m_outputBuffer co)"
  shows "sendInLoop K x a len w = Inl OutOfBounds"
proof -
  have len: "length msg \<le> max_object" "unat len < 2 ^ 63" using msg by (simp_all add: message_at_def max_object_def)
  have rem: "unat (len + 1) = length msg + 1"
    using len msg(2) unat_add_small [of len 1] by simp
  then have pos: "0 < len + 1" by (metis add_is_0 one_neq_zero unat_0 word_neq_0_conv)
  have fd: "m_fd ch = conn_fd co" and bi: "buffer_inv (m_outputBuffer co)" using at by (simp_all add: conn_at_def)
  have d: "send_direct K x a len co ch w = Inr (-1, len + 1, False, w\<lparr>kst := k\<rparr>)"
    using fail fd wc by (simp add: send_direct_def read_mem_message [OF msg])
  have "unat (len + 1) \<le> max_object" using rem len room buffer_invD [OF bi]
    by (auto simp: fits_def unat_writable [OF bi] unat_prependable)
  then have "\<exists>b1. ensureWritableBytes (len + 1) (m_outputBuffer co) = Inr b1"
    using ensureWritable_ok [OF bi, of "len + 1"] room rem by auto
  moreover have "mem_read msg (-1) (len + 1) = Inl OutOfBounds"
    using len by (simp add: mem_read_def max_object_def unsigned_minus_1_eq_mask mask_eq_exp_minus_1)
  ultimately have "append_data msg (-1) (len + 1) (m_outputBuffer co) = Inl OutOfBounds"
    by (auto simp: append_data_def)
  with d hw pos at st msg(1) show ?thesis
    by (simp add: sendInLoop_def send_buffered_def conn_at_def direct_def message_at_def)
qed

section \<open>Draining the output\<close>

lemma writeFd_contents:
  assumes "buffer_inv b" and "write (contents b) k = ((n, e), k')"
  shows "writeFd write se k b = Inr (n, se, k')"
proof -
  have "mem_read (m_buffer b) (m_readerIdx b) (readableBytes b) = Inr (contents b)"
    using buffer_invD [OF assms(1)] by (simp add: mem_read_def contents_def unat_readable [OF assms(1)])
  with assms(2) show ?thesis by (simp add: writeFd_def)
qed

lemma contents_drain:
  assumes "buffer_inv b"
  shows "buffer_inv (retrieve n b)" and "contents (retrieve n b) = drop (unat n) (contents b)"
  using outq.discard_inv [OF assms] outq.discard_bytes [OF assms] by blast+

lemma writing_and_not: "(ev AND NOT kWriteEvent) AND kWriteEvent = 0"
  by (simp add: and.assoc)

text \<open>Part of the output was written: the write interest stays.\<close>

lemma handleWrite_part:
  assumes K: "conn_kernel K reg wire (conn_fd co)" and at: "conn_at reg x co ch w"
    and wr: "isWriting ch"
    and ok: "sys_write K (conn_fd co) (contents (m_outputBuffer co)) (kst w) = ((n, e), k)" "n \<noteq> -1"
    and part: "unat n < length (contents (m_outputBuffer co))"
  shows "\<exists>w' co'. conn_handleWrite K x w = Inr w' \<and> conn_at reg x co' ch w' \<and>
    co' = co\<lparr>m_outputBuffer := m_outputBuffer co'\<rparr> \<and>
    contents (m_outputBuffer co') = drop (unat n) (contents (m_outputBuffer co)) \<and>
    wire (kst w') = wire (kst w) @ take (unat n) (contents (m_outputBuffer co)) \<and>
    mem w' = mem w \<and> pendings w' = pendings w"
proof -
  from at have bi: "buffer_inv (m_outputBuffer co)" "buffer_inv (m_inputBuffer co)"
    and co: "conns w x = Some co" "chans w (conn_chan co) = Some ch" "m_fd ch = conn_fd co"
    by (simp_all add: conn_at_def)
  let ?out = "retrieve n (m_outputBuffer co)"
  let ?co = "co\<lparr>m_outputBuffer := ?out\<rparr>" and ?w1 = "w\<lparr>kst := k\<rparr>"
  let ?w2 = "modify_conn x (\<lambda>co. co\<lparr>m_outputBuffer := ?out\<rparr>) ?w1"
  have reg: "reg k = reg (kst w)"
    using io_reg(1) [OF conn_kernelD(2) [OF K], of "conn_fd co" "contents (m_outputBuffer co)" "kst w"] ok by simp
  have w: "writeFd (sys_write K (m_fd ch)) 0 (kst w) (m_outputBuffer co) = Inr (n, 0, k)"
    using writeFd_contents [OF bi(1), of "sys_write K (conn_fd co)" "kst w" n e k 0] ok(1) co(3) by simp
  have wire: "wire k = wire (kst w) @ take (unat n) (contents (m_outputBuffer co))"
    by (rule write_wire(2) [OF conn_kernelD(3) [OF K] ok])
  have out: "buffer_inv ?out" "contents ?out = drop (unat n) (contents (m_outputBuffer co))"
    using contents_drain [OF bi(1)] by blast+
  then have ne: "contents ?out \<noteq> []" "readableBytes ?out \<noteq> 0"
    using part contents_empty_iff [OF out(1)] by simp_all
  show ?thesis
  proof (cases "0 < n")
    case False
    then have "n = 0" using word_neq_0_conv by blast
    with w co wr have "conn_handleWrite K x w = Inr ?w1" by (simp add: conn_handleWrite_def)
    moreover have "pendings ?w1 = pendings w" by (rule pendings_cong) simp
    ultimately show ?thesis using conn_at_kst [OF at reg] wire \<open>n = 0\<close>
      by (intro exI [of _ ?w1] exI [of _ co]) simp
  next
    case True
    have "conn_links reg x co ch ?w1" using conn_at_kst [OF at reg] by (simp add: conn_at_links)
    then have "conn_links reg x ?co ch ?w2" by (rule conn_links_modify) simp_all
    then have "conn_at reg x ?co ch ?w2" using bi out(1) ne(1) wr by (simp add: conn_at_links)
    moreover have "conn_handleWrite K x w = Inr ?w2"
      using w co wr True ne(2) by (simp add: conn_handleWrite_def Let_def)
    moreover have "pendings ?w2 = pendings w" by (rule pendings_cong) simp
    ultimately show ?thesis using wire out(2) by (intro exI [of _ ?w2] exI [of _ ?co]) simp
  qed
qed

text \<open>
  All of the output was written: the write interest is dropped, the write-complete functor is queued,
  and a connection that is shutting down closes its writing side, now that the wire has every byte.
\<close>

lemma handleWrite_all:
  assumes K: "conn_kernel K reg wire (conn_fd co)" and at: "conn_at reg x co ch w"
    and wr: "isWriting ch" and ne: "contents (m_outputBuffer co) \<noteq> []"
    and ok: "sys_write K (conn_fd co) (contents (m_outputBuffer co)) (kst w) = ((n, e), k)" "n \<noteq> -1"
    and all: "unat n = length (contents (m_outputBuffer co))"
  shows "\<exists>w' co' ch' k2. conn_handleWrite K x w = Inr w' \<and> conn_at reg x co' ch' w' \<and>
    co' = co\<lparr>m_outputBuffer := m_outputBuffer co'\<rparr> \<and>
    contents (m_outputBuffer co') = [] \<and> \<not> isWriting ch' \<and>
    wire k2 = wire (kst w) @ contents (m_outputBuffer co) \<and>
    kst w' = (if m_state co = kDisconnecting then shutdownWrite K (conn_fd co) k2 else k2) \<and>
    mem w' = mem w \<and>
    pendings w' = (pendings w)(conn_loop co := pendings w (conn_loop co) @
      (case writeCompleteCallback co of Some i \<Rightarrow> [WriteCompleteCb i x] | None \<Rightarrow> []))"
proof -
  from at have bi: "buffer_inv (m_outputBuffer co)" "buffer_inv (m_inputBuffer co)"
    and co: "conns w x = Some co" "chans w (conn_chan co) = Some ch" "m_fd ch = conn_fd co"
    by (simp_all add: conn_at_def)
  let ?out = "retrieve n (m_outputBuffer co)"
  let ?co = "co\<lparr>m_outputBuffer := ?out\<rparr>" and ?w1 = "w\<lparr>kst := k\<rparr>"
  let ?w2 = "modify_conn x (\<lambda>co. co\<lparr>m_outputBuffer := ?out\<rparr>) ?w1"
  let ?ch = "updated_channel ch (m_events ch AND NOT kWriteEvent)"
  have reg: "reg k = reg (kst w)"
    using io_reg(1) [OF conn_kernelD(2) [OF K], of "conn_fd co" "contents (m_outputBuffer co)" "kst w"] ok by simp
  have w: "writeFd (sys_write K (m_fd ch)) 0 (kst w) (m_outputBuffer co) = Inr (n, 0, k)"
    using writeFd_contents [OF bi(1), of "sys_write K (conn_fd co)" "kst w" n e k 0] ok(1) co(3) by simp
  have wire: "wire k = wire (kst w) @ contents (m_outputBuffer co)"
    using write_wire(2) [OF conn_kernelD(3) [OF K] ok] all by simp
  have out: "buffer_inv ?out" "contents ?out = []"
    using contents_drain [OF bi(1), of n] all by simp_all
  then have r0: "readableBytes ?out = 0" using contents_empty_iff [OF out(1)] by simp
  have pos: "0 < n" using ne all word_neq_0_conv by fastforce
  have l1: "conn_links reg x co ch ?w1" using conn_at_kst [OF at reg] by (simp add: conn_at_links)
  then have l2: "conn_links reg x ?co ch ?w2" by (rule conn_links_modify) simp_all
  from update_conn [OF conn_kernelD(1,4) [OF K] l2, of "\<lambda>e. e AND NOT kWriteEvent"] obtain w3 where w3:
    "disableWriting K (conn_chan co) ?w2 = Inr w3" "conn_links reg x ?co ?ch w3"
    "mem w3 = mem w" "loops w3 = loops w" "wire (kst w3) = wire k"
    by (auto simp: disableWriting_def)
  have nw: "\<not> isWriting ?ch" by (simp add: writing_and_not)
  have at3: "conn_at reg x ?co ?ch w3" using w3(2) bi out nw by (simp add: conn_at_links)
  have p3: "pendings w3 = pendings w" by (rule pendings_cong) (rule w3(4))
  have K': "conn_kernel K reg wire (conn_fd ?co)" using K by simp
  from queue_opt [OF K' at3, where cb = "writeCompleteCallback co" and P = True
      and f = "\<lambda>i. WriteCompleteCb i x"] obtain w4 where w4:
    "(case writeCompleteCallback co of Some i \<Rightarrow> queueInLoop K (conn_loop co) (WriteCompleteCb i x) w3
        | None \<Rightarrow> Inr w3) = Inr w4" "conn_at reg x ?co ?ch w4" "queue_frame w3 w4"
    "wire (kst w4) = wire (kst w3)" "pendings w4 = (pendings w)(conn_loop co := pendings w (conn_loop co) @
      (case writeCompleteCallback co of Some i \<Rightarrow> [WriteCompleteCb i x] | None \<Rightarrow> []))"
    using p3 by (auto cong: option.case_cong)
  have call: "conn_handleWrite K x w =
      (if m_state co = kDisconnecting then shutdownInLoop K x w4 else Inr w4)"
    using w co wr pos r0 w3(1) w4(1) by (simp add: conn_handleWrite_def Let_def cong: option.case_cong)
  let ?w5 = "w4\<lparr>kst := shutdownWrite K (conn_fd co) (kst w4)\<rparr>"
  have sd: "shutdownInLoop K x w4 = Inr ?w5"
    using w4(2) nw by (simp add: shutdownInLoop_def conn_at_def)
  have at5: "conn_at reg x ?co ?ch ?w5"
    using conn_at_kst [OF w4(2)] io_reg(3) [OF conn_kernelD(2) [OF K]] by (simp add: shutdownWrite_def)
  have p5: "pendings ?w5 = pendings w4" by (rule pendings_cong) simp
  have k2: "wire (kst w4) = wire (kst w) @ contents (m_outputBuffer co)"
    using w4(4) w3(5) wire by simp
  show ?thesis
  proof (cases "m_state co = kDisconnecting")
    case True
    with call sd at5 p5 k2 w4(3,5) w3(3) out(2) nw show ?thesis
      by (intro exI [of _ ?w5] exI [of _ ?co] exI [of _ ?ch] exI [of _ "kst w4"]) (simp add: queue_frame_def)
  next
    case False
    with call k2 w4(2,3,5) w3(3) out(2) nw show ?thesis
      by (intro exI [of _ w4] exI [of _ ?co] exI [of _ ?ch] exI [of _ "kst w4"]) (simp add: queue_frame_def)
  qed
qed

lemma handleWrite_ok:
  assumes K: "conn_kernel K reg wire (conn_fd co)" and at: "conn_at reg x co ch w"
    and st: "m_state co \<noteq> kDisconnected" and wr: "isWriting ch"
    and ok: "write_ok K (conn_fd co) (contents (m_outputBuffer co)) (kst w)"
  shows "\<exists>w' co' ch'. conn_handleWrite K x w = Inr w' \<and> conn_at reg x co' ch' w' \<and>
    co' = co\<lparr>m_outputBuffer := m_outputBuffer co'\<rparr> \<and>
    outgoing wire co' w' = outgoing wire co w"
proof -
  obtain n e k where w: "sys_write K (conn_fd co) (contents (m_outputBuffer co)) (kst w) = ((n, e), k)"
    by (metis surj_pair)
  with ok have n: "n \<noteq> -1" by (simp add: write_ok_def)
  have ne: "contents (m_outputBuffer co) \<noteq> []" using at st wr by (simp add: conn_at_def)
  have le: "unat n \<le> length (contents (m_outputBuffer co))"
    by (rule write_wire(1) [OF conn_kernelD(3) [OF K] w n])
  show ?thesis
  proof (cases "unat n < length (contents (m_outputBuffer co))")
    case True
    from handleWrite_part [OF K at wr w n True] obtain w' co' where w': "conn_handleWrite K x w = Inr w'"
      "conn_at reg x co' ch w'" "co' = co\<lparr>m_outputBuffer := m_outputBuffer co'\<rparr>"
      "contents (m_outputBuffer co') = drop (unat n) (contents (m_outputBuffer co))"
      "wire (kst w') = wire (kst w) @ take (unat n) (contents (m_outputBuffer co))" by blast
    then show ?thesis
      by (intro exI [of _ w'] exI [of _ co'] exI [of _ ch]) (simp add: outgoing_def)
  next
    case False
    with le have "unat n = length (contents (m_outputBuffer co))" by simp
    from handleWrite_all [OF K at wr ne w n this] obtain w' co' ch' k2 where w':
      "conn_handleWrite K x w = Inr w'"
      "conn_at reg x co' ch' w'" "co' = co\<lparr>m_outputBuffer := m_outputBuffer co'\<rparr>"
      "contents (m_outputBuffer co') = []" "wire k2 = wire (kst w) @ contents (m_outputBuffer co)"
      "kst w' = (if m_state co = kDisconnecting then shutdownWrite K (conn_fd co) k2 else k2)" by blast
    have "wire (kst w') = wire k2"
      using w'(6) quiet_wire(2) [OF conn_kernelD(4) [OF K]] by (simp add: shutdownWrite_def)
    with w' show ?thesis
      by (intro exI [of _ w'] exI [of _ co'] exI [of _ ch']) (simp add: outgoing_def)
  qed
qed

text \<open>
  A failed write returns the \<open>size_t\<close> -1, which passes for a count: the whole output is discarded
  although none of it reached the wire.
\<close>

lemma handleWrite_minus_one:
  assumes K: "conn_kernel K reg wire (conn_fd co)" and at: "conn_at reg x co ch w"
    and wr: "isWriting ch" and st: "m_state co \<noteq> kDisconnecting" and wc: "writeCompleteCallback co = None"
    and fail: "sys_write K (conn_fd co) (contents (m_outputBuffer co)) (kst w) = ((-1, e), k)"
    and same: "wire k = wire (kst w)"
  shows "\<exists>w' co'. conn_handleWrite K x w = Inr w' \<and> conns w' x = Some co' \<and>
    contents (m_outputBuffer co') = [] \<and> wire (kst w') = wire (kst w)"
proof -
  from at have bi: "buffer_inv (m_outputBuffer co)"
    and co: "conns w x = Some co" "chans w (conn_chan co) = Some ch" "m_fd ch = conn_fd co"
    by (simp_all add: conn_at_def)
  let ?out = "retrieve (-1) (m_outputBuffer co)"
  let ?w2 = "modify_conn x (\<lambda>co. co\<lparr>m_outputBuffer := ?out\<rparr>) (w\<lparr>kst := k\<rparr>)"
  have reg: "reg k = reg (kst w)"
    using io_reg(1) [OF conn_kernelD(2) [OF K], of "conn_fd co" "contents (m_outputBuffer co)" "kst w"] fail by simp
  have w: "writeFd (sys_write K (m_fd ch)) 0 (kst w) (m_outputBuffer co) = Inr (-1, 0, k)"
    using writeFd_contents [OF bi, of "sys_write K (conn_fd co)" "kst w" "-1" e k 0] fail co(3) by simp
  have big: "length (contents (m_outputBuffer co)) \<le> unat (-1 :: size_t)"
    using length_contents [OF bi] unat_size_bound [of "readableBytes (m_outputBuffer co)"]
    by (simp add: unsigned_minus_1_eq_mask mask_eq_exp_minus_1)
  have out: "buffer_inv ?out" "contents ?out = []"
    using contents_drain [OF bi, of "-1"] big by simp_all
  then have r0: "readableBytes ?out = 0" using contents_empty_iff [OF out(1)] by simp
  have l1: "conn_links reg x co ch (w\<lparr>kst := k\<rparr>)" using conn_at_kst [OF at reg] by (simp add: conn_at_links)
  then have l2: "conn_links reg x (co\<lparr>m_outputBuffer := ?out\<rparr>) ch ?w2" by (rule conn_links_modify) simp_all
  from update_conn [OF conn_kernelD(1,4) [OF K] l2, of "\<lambda>e. e AND NOT kWriteEvent"] obtain w3 where w3:
    "disableWriting K (conn_chan co) ?w2 = Inr w3" "conns w3 = conns ?w2" "wire (kst w3) = wire k"
    by (auto simp: disableWriting_def)
  have "0 < (-1 :: size_t)" by (simp add: word_gt_0)
  then have "conn_handleWrite K x w = Inr w3"
    using w co wr r0 w3(1) st wc by (simp add: conn_handleWrite_def Let_def)
  with w3 co out(2) same show ?thesis by auto
qed

section \<open>What every handler respects\<close>

text \<open>
  The allowed changes of a connection's state, and a relation between the worlds before and after an
  operation that the primitive steps respect. Every operation of a connection is a composition of
  those steps and of user callbacks, so it respects the relation when the callbacks do.
\<close>

inductive life :: "StateE \<Rightarrow> StateE \<Rightarrow> bool" where
  established: "life kConnecting kConnected"
| shutting: "life kConnected kDisconnecting"
| closed: "life s kDisconnected"

inductive_cases life_from_disconnected: "life kDisconnected s"

code_pred (modes: i \<Rightarrow> o \<Rightarrow> bool, i \<Rightarrow> i \<Rightarrow> bool) life .

definition conn_state :: "('k, 'a) conn_world_scheme \<Rightarrow> conn_ptr \<Rightarrow> StateE option" where
  "conn_state w x = map_option m_state (conns w x)"

definition user_keeps :: "('w \<Rightarrow> 'w \<Rightarrow> bool) \<Rightarrow> 'w user_callbacks \<Rightarrow> bool" where
  "user_keeps R U \<longleftrightarrow>
     (\<forall>i x w w'. on_connection U i x w = Inr w' \<longrightarrow> R w w') \<and>
     (\<forall>i x t w w'. on_message U i x t w = Inr w' \<longrightarrow> R w w') \<and>
     (\<forall>i x w w'. on_close U i x w = Inr w' \<longrightarrow> R w w') \<and>
     (\<forall>i x w w'. on_writeComplete U i x w = Inr w' \<longrightarrow> R w w') \<and>
     (\<forall>i x n w w'. on_highWaterMark U i x n w = Inr w' \<longrightarrow> R w w')"

lemma user_keepsD:
  assumes "user_keeps R U"
  shows "on_connection U i x w = Inr w' \<Longrightarrow> R w w'" and "on_message U i x t w = Inr w' \<Longrightarrow> R w w'"
    and "on_close U j x w = Inr w' \<Longrightarrow> R w w'" and "on_writeComplete U i x w = Inr w' \<Longrightarrow> R w w'"
    and "on_highWaterMark U i x n w = Inr w' \<Longrightarrow> R w w'"
proof -
  note U = assms [unfolded user_keeps_def]
  show "on_connection U i x w = Inr w' \<Longrightarrow> R w w'" using U by metis
  show "on_message U i x t w = Inr w' \<Longrightarrow> R w w'" using U by metis
  show "on_close U j x w = Inr w' \<Longrightarrow> R w w'" using U by metis
  show "on_writeComplete U i x w = Inr w' \<Longrightarrow> R w w'" using U by metis
  show "on_highWaterMark U i x n w = Inr w' \<Longrightarrow> R w w'" using U by metis
qed

lemma call_fn_InrE [elim!]:
  assumes "call_fn cb run = Inr w'"
  obtains i where "cb = Some i" and "run i = Inr w'"
  using assms by (auto simp: call_fn_def split: option.splits)

locale conn_frame =
  fixes K :: "'k kernel"
    and R :: "('k, 'a) conn_world_scheme \<Rightarrow> ('k, 'a) conn_world_scheme \<Rightarrow> bool"
  assumes R_refl: "R w w"
    and R_trans: "R u v \<Longrightarrow> R v w \<Longrightarrow> R u w"
    and R_kst: "R w (w\<lparr>kst := k\<rparr>)"
    and R_events: "update_events K c f w = Inr w' \<Longrightarrow> R w w'"
    and R_remove: "channel_remove K c w = Inr w' \<Longrightarrow> R w w'"
    and R_queue: "queueInLoop K L g w = Inr w' \<Longrightarrow> R w w'"
    and R_chan: "R w (modify_chan c h w)"
    and R_buffers: "(\<And>co. m_state (f' co) = m_state co) \<Longrightarrow> R w (modify_conn x f' w)"
    and R_state: "conn_state w x = Some s \<Longrightarrow> life s s' \<Longrightarrow> R w (setState x s' w)"
begin

lemma queue_opt_R:
  "(case cb of Some i \<Rightarrow> if P then queueInLoop K L (f i) w else Inr w | None \<Rightarrow> Inr w) = Inr w' \<Longrightarrow> R w w'"
  by (auto split: option.splits if_splits intro: R_queue R_refl)

lemma queue_some_R:
  "(case cb of Some i \<Rightarrow> queueInLoop K L (f i) w | None \<Rightarrow> Inr w) = Inr w' \<Longrightarrow> R w w'"
  by (auto split: option.splits intro: R_queue R_refl)

lemma send_direct_R: "send_direct K x a len co ch w = Inr (n, r, b, w') \<Longrightarrow> R w w'"
  by (auto simp: send_direct_def Let_def split: prod.splits if_splits dest!: queue_opt_R)
    (blast intro: R_kst R_trans)

lemma send_buffered_R: "send_buffered K x a n r co w = Inr w' \<Longrightarrow> R w w'"
proof -
  assume "send_buffered K x a n r co w = Inr w'"
  then obtain w1 out ch where w1: "R w w1"
    "(if \<not> isWriting ch then enableWriting K (conn_chan co) (modify_conn x (\<lambda>co. co\<lparr>m_outputBuffer := out\<rparr>) w1)
      else Inr (modify_conn x (\<lambda>co. co\<lparr>m_outputBuffer := out\<rparr>) w1)) = Inr w'"
    by (auto simp: send_buffered_def Let_def dest!: queue_opt_R)
  have "R w1 (modify_conn x (\<lambda>co. co\<lparr>m_outputBuffer := out\<rparr>) w1)" by (rule R_buffers) simp
  with w1 show ?thesis
    by (auto simp: enableWriting_def split: if_splits dest!: R_events intro: R_trans)
qed

lemma sendInLoop_R: "sendInLoop K x a len w = Inr w' \<Longrightarrow> R w w'"
  by (auto simp: sendInLoop_def split: if_splits dest!: send_direct_R send_buffered_R)
    (blast intro: R_refl R_trans)+

lemma send_R: "send K x a len w = Inr w' \<Longrightarrow> R w w'"
  by (auto simp: send_def runInLoop_def split: if_splits dest!: sendInLoop_R R_queue intro: R_refl)

lemma shutdownInLoop_R: "shutdownInLoop K x w = Inr w' \<Longrightarrow> R w w'"
  by (auto simp: shutdownInLoop_def split: if_splits intro: R_refl R_kst)

lemma conn_shutdown_R: "conn_shutdown K x w = Inr w' \<Longrightarrow> R w w'"
proof -
  assume s: "conn_shutdown K x w = Inr w'"
  then obtain co where co: "conns w x = Some co" by (auto simp: conn_shutdown_def)
  show ?thesis
  proof (cases "m_state co = kConnected")
    case True
    then have "R w (setState x kDisconnecting w)"
      using co R_state [of w x kConnected kDisconnecting] by (simp add: conn_state_def shutting)
    then show ?thesis using s co True
      by (auto simp: conn_shutdown_def runInLoop_def split: if_splits
          dest!: shutdownInLoop_R R_queue intro: R_trans)
  next
    case False
    with s co show ?thesis by (simp add: conn_shutdown_def R_refl)
  qed
qed

lemma close_R: "conns w x = Some co \<Longrightarrow> R w (setState x kDisconnected w)"
  using R_state [of w x _ kDisconnected] by (simp add: conn_state_def life.closed)

lemma connectEstablished_R:
  assumes U: "user_keeps R U" and 1: "R w (setState x kConnected w)"
    and e: "connectEstablished K U x w = Inr w'"
  shows "R w w'"
proof -
  have 2: "R (setState x kConnected w) (modify_chan c (tie x) (setState x kConnected w))" for c
    by (rule R_chan)
  from e 1 2 show ?thesis
    by (auto simp: connectEstablished_def enableReading_def dest!: R_events user_keepsD [OF U]
        intro: R_trans)
qed

lemma connectDestoryed_R:
  assumes U: "user_keeps R U" and e: "connectDestoryed K U x w = Inr w'"
  shows "R w w'"
proof -
  from e obtain co where co: "conns w x = Some co" by (auto simp: connectDestoryed_def)
  from e co close_R [OF co] show ?thesis
    by (auto simp: connectDestoryed_def disableAll_def split: if_splits
        dest!: R_events R_remove user_keepsD [OF U] intro: R_trans)
qed

lemma handleClose_R:
  assumes U: "user_keeps R U" and e: "conn_handleClose K U x w = Inr w'"
  shows "R w w'"
proof -
  from e obtain co where co: "conns w x = Some co" by (auto simp: conn_handleClose_def)
  from e co close_R [OF co] show ?thesis
    by (auto simp: conn_handleClose_def disableAll_def dest!: R_events user_keepsD [OF U] intro: R_trans)
qed

lemma handleError_R: "conn_handleError K x w = Inr w' \<Longrightarrow> R w w'"
  by (auto simp: conn_handleError_def intro: R_kst)

lemma handleRead_R:
  assumes U: "user_keeps R U" and e: "conn_handleRead K U x t w = Inr w'"
  shows "R w w'"
proof -
  have b: "R w (modify_conn x (\<lambda>co. co\<lparr>m_inputBuffer := b\<rparr>) w\<lparr>kst := k\<rparr>)" for b k
    using R_buffers [of "\<lambda>co. co\<lparr>m_inputBuffer := b\<rparr>" w x] R_kst R_trans by (metis (no_types, lifting) tcp_conn.simps(3) tcp_conn.select_convs(3) tcp_conn.surjective tcp_conn.update_convs(15))
  from e show ?thesis
    by (auto simp: conn_handleRead_def Let_def split: if_splits
        dest!: user_keepsD [OF U] handleClose_R [OF U] handleError_R intro: R_trans [OF b])
qed

lemma handleWrite_R:
  assumes e: "conn_handleWrite K x w = Inr w'"
  shows "R w w'"
proof -
  have b: "R w (modify_conn x (\<lambda>co. co\<lparr>m_outputBuffer := b\<rparr>) (w\<lparr>kst := k\<rparr>))" for b k
    by (rule R_trans [OF R_kst R_buffers]) simp
  from e show ?thesis
    by (auto simp: conn_handleWrite_def Let_def disableWriting_def split: if_splits
        dest!: R_events queue_some_R shutdownInLoop_R)
      (blast intro: R_refl R_kst b R_trans [OF b] R_trans)+
qed

end

text \<open>The two relations: connections only advance through \<open>life\<close>; queues of live loops only grow,
  and the loops keep what the wake-up protocol relies on.\<close>

definition advances :: "('k, 'a) conn_world_scheme \<Rightarrow> ('k, 'a) conn_world_scheme \<Rightarrow> bool" where
  "advances w w' \<longleftrightarrow>
     (\<forall>x s. conn_state w x = Some s \<longrightarrow> (\<exists>s'. conn_state w' x = Some s' \<and> life\<^sup>*\<^sup>* s s'))"

definition queues_grow :: "('k, 'a) conn_world_scheme \<Rightarrow> ('k, 'a) conn_world_scheme \<Rightarrow> bool" where
  "queues_grow w w' \<longleftrightarrow>
     (\<forall>L l. loops w L = Some l \<longrightarrow>
        (\<exists>l' new. loops w' L = Some l' \<and> m_wakeupFd l' = m_wakeupFd l \<and>
           m_callingPendingFunctors l' = m_callingPendingFunctors l \<and>
           m_pendingFunctors l' = m_pendingFunctors l @ new))"

lemma conn_fields_more:
  assumes "poll_world.more w' = poll_world.more (w :: ('k, 'a) conn_world_scheme)"
  shows "conns w' = conns w" and "mem w' = mem w" and "loops w' = loops w"
  using assms by (cases w; cases w'; simp)+

lemma conns_queueInLoop:
  assumes "queueInLoop K L g (w :: ('k, 'a) conn_world_scheme) = Inr w'"
  shows "conns w' = conns w" and "mem w' = mem w" and "chans w' = chans w" and "pollers w' = pollers w"
    and "queues_grow w w'"
proof -
  from assms obtain l where l: "loops w L = Some l"
    by (auto simp: queueInLoop_def queue_push_def)
  from assms queueInLoop_eq [OF l, of K g] show "conns w' = conns w" "mem w' = mem w" "chans w' = chans w"
    "pollers w' = pollers w" "queues_grow w w'"
    using l by (auto simp: queues_grow_def pendings_def)
qed

lemma advances_same: "conns w' = conns w \<Longrightarrow> advances w w'"
  by (simp add: advances_def conn_state_def) blast

lemma queues_grow_same: "loops w' = loops w \<Longrightarrow> queues_grow w w'"
  by (simp add: queues_grow_def)

interpretation conn_life: conn_frame K advances
  for K :: "'k kernel"
proof
  fix u v w w' :: "('k, 'a) conn_world_scheme" and k :: 'k and c f L g h f' x s s'
  show "advances w w" by (rule advances_same) simp
  show "advances u v \<Longrightarrow> advances v w \<Longrightarrow> advances u w"
    unfolding advances_def by (meson rtranclp_trans)
  show "advances w (w\<lparr>kst := k\<rparr>)" by (rule advances_same) simp
  show "advances w w'" if "update_events K c f w = Inr w'"
    by (rule advances_same [OF conn_fields_more(1) [OF more_update_events [OF that]]])
  show "advances w w'" if "channel_remove K c w = Inr w'"
    by (rule advances_same [OF conn_fields_more(1) [OF more_channel_remove [OF that]]])
  show "advances w w'" if "queueInLoop K L g w = Inr w'"
    by (rule advances_same [OF conns_queueInLoop(1) [OF that]])
  show "advances w (modify_chan c h w)" by (rule advances_same) (simp add: modify_chan_def)
  show "advances w (modify_conn x f' w)" if "\<And>co. m_state (f' co) = m_state co"
    using that by (auto simp: advances_def conn_state_def)
  show "advances w (setState x s' w)" if "conn_state w x = Some s" "life s s'"
    using that by (auto simp: advances_def conn_state_def setState_def)
qed

interpretation conn_queues: conn_frame K queues_grow
  for K :: "'k kernel"
proof
  fix u v w w' :: "('k, 'a) conn_world_scheme" and k :: 'k and c f L g h f' x s s'
  show "queues_grow w w" by (rule queues_grow_same) simp
  show "queues_grow u v \<Longrightarrow> queues_grow v w \<Longrightarrow> queues_grow u w"
    unfolding queues_grow_def by (metis append.assoc)
  show "queues_grow w (w\<lparr>kst := k\<rparr>)" by (rule queues_grow_same) simp
  show "queues_grow w w'" if "update_events K c f w = Inr w'"
    by (rule queues_grow_same [OF conn_fields_more(3) [OF more_update_events [OF that]]])
  show "queues_grow w w'" if "channel_remove K c w = Inr w'"
    by (rule queues_grow_same [OF conn_fields_more(3) [OF more_channel_remove [OF that]]])
  show "queues_grow w w'" if "queueInLoop K L g w = Inr w'"
    by (rule conns_queueInLoop(5) [OF that])
  show "queues_grow w (modify_chan c h w)" by (rule queues_grow_same) (simp add: modify_chan_def)
  show "queues_grow w (modify_conn x f' w)" by (rule queues_grow_same) simp
  show "queues_grow w (setState x s' w)" by (rule queues_grow_same) (simp add: setState_def)
qed

section \<open>Reading\<close>

text \<open>There is room in the input buffer for everything one \<open>readv\<close> can deliver.\<close>

definition in_room :: "buffer \<Rightarrow> bool" where
  "in_room b \<longleftrightarrow> length (m_buffer b) + extrabuf_size \<le> max_object"

lemma readFd_ok:
  assumes "readv_contract readv" and inv: "buffer_inv b" and room: "in_room b"
    and rd: "readv (readFd_iov b) k = ((n, d, e), k')" and n: "n \<noteq> -1"
  shows "\<exists>b'. readFd readv se k b = Inr (n, se, b', k') \<and> buffer_inv b' \<and> contents b' = contents b @ d"
    and "unat n = length d"
proof -
  have "(n = -1 \<and> d = []) \<or> (unat n = length d \<and> length d \<le> sum_list (map unat (readFd_iov b)))"
    by (rule assms(1) [unfolded readv_contract_def, rule_format]) (rule rd)
  with n have c: "unat n = length d" "length d \<le> sum_list (map unat (readFd_iov b))" by simp_all
  then show "unat n = length d" by simp
  show "\<exists>b'. readFd readv se k b = Inr (n, se, b', k') \<and> buffer_inv b' \<and> contents b' = contents b @ d"
  proof (cases "n < writableBytes b")
    case True
    show ?thesis by (rule readFd_fits_vector [where readv = readv, OF inv rd c(1) True])
  next
    case False
    show ?thesis
      by (rule readFd_overflows_vector [where readv = readv, OF inv rd c False room [unfolded in_room_def]])
  qed
qed

text \<open>
  What the connection does with the bytes of one \<open>readv\<close>: they are appended to the input buffer and the
  message callback runs on that; no byte means the peer has closed.
\<close>

lemma handleRead_ok:
  assumes K: "io_contract K reg" and rc: "readv_contract (sys_readv K (conn_fd co))"
    and at: "conn_at reg x co ch w" and room: "in_room (m_inputBuffer co)"
    and rd: "sys_readv K (conn_fd co) (readFd_iov (m_inputBuffer co)) (kst w) = ((n, d, e), k)" "n \<noteq> -1"
  shows "\<exists>w1 b. conn_handleRead K U x t w =
      (if d = [] then conn_handleClose K U x w1
       else call_fn (messageCallback co) (\<lambda>i. on_message U i x t w1)) \<and>
    conn_at reg x (co\<lparr>m_inputBuffer := b\<rparr>) ch w1 \<and> contents b = contents (m_inputBuffer co) @ d \<and>
    kst w1 = k \<and> mem w1 = mem w \<and> loops w1 = loops w"
proof -
  from at have bi: "buffer_inv (m_inputBuffer co)" "buffer_inv (m_outputBuffer co)"
    and co: "conns w x = Some co" "chans w (conn_chan co) = Some ch" "m_fd ch = conn_fd co"
    by (simp_all add: conn_at_def)
  from readFd_ok(1) [OF rc bi(1) room rd, of 0] readFd_ok(2) [OF rc bi(1) room rd] obtain b where b:
    "readFd (sys_readv K (conn_fd co)) 0 (kst w) (m_inputBuffer co) = Inr (n, 0, b, k)" "buffer_inv b"
    "contents b = contents (m_inputBuffer co) @ d" and n: "unat n = length d" by blast
  let ?w1 = "modify_conn x (\<lambda>co. co\<lparr>m_inputBuffer := b\<rparr>) w\<lparr>kst := k\<rparr>"
  have reg: "reg k = reg (kst w)"
    using io_reg(2) [OF K, of "conn_fd co" "readFd_iov (m_inputBuffer co)" "kst w"] rd(1) by simp
  have "conn_links reg x (co\<lparr>m_inputBuffer := b\<rparr>) ch (modify_conn x (\<lambda>co. co\<lparr>m_inputBuffer := b\<rparr>) w)"
    using at by (intro conn_links_modify) (simp_all add: conn_at_links)
  then have "conn_at reg x (co\<lparr>m_inputBuffer := b\<rparr>) ch (modify_conn x (\<lambda>co. co\<lparr>m_inputBuffer := b\<rparr>) w)"
    using at bi b(2) by (simp add: conn_at_links)
  then have "conn_at reg x (co\<lparr>m_inputBuffer := b\<rparr>) ch ?w1" by (rule conn_at_kst) (simp add: reg)
  moreover have "0 < n \<longleftrightarrow> d \<noteq> []" "n = 0 \<longleftrightarrow> d = []"
    using n by (simp_all add: word_gt_0 flip: unat_eq_zero)
  then have "conn_handleRead K U x t w = (if d = [] then conn_handleClose K U x ?w1
       else call_fn (messageCallback co) (\<lambda>i. on_message U i x t ?w1))"
    using b(1) co by (simp add: conn_handleRead_def Let_def)
  ultimately show ?thesis using b(3) by (intro exI [of _ ?w1] exI [of _ b]) simp
qed

text \<open>A failed read, which a non-blocking socket reports by -1, is undefined behaviour.\<close>

lemma handleRead_minus_one:
  assumes at: "conn_at reg x co ch w"
    and rd: "sys_readv K (conn_fd co) (readFd_iov (m_inputBuffer co)) (kst w) = ((-1, [], e), k)"
  shows "conn_handleRead K U x t w = Inl OutOfBounds"
  using at readFd_minus_one [of "m_inputBuffer co" "sys_readv K (conn_fd co)" "kst w" e k 0] rd
  by (simp add: conn_handleRead_def conn_at_def)

section \<open>Shutting down, establishing, closing\<close>

text \<open>The writing side is closed exactly when nothing is left to write.\<close>

lemma shutdownInLoop_eq:
  assumes "conn_at reg x co ch w" and "m_state co \<noteq> kDisconnected"
  shows "shutdownInLoop K x w =
    Inr (if contents (m_outputBuffer co) = [] then w\<lparr>kst := shutdownWrite K (conn_fd co) (kst w)\<rparr> else w)"
  using assms by (simp add: shutdownInLoop_def conn_at_def)

lemma conn_at_setState:
  assumes "conn_at reg x co ch w" and "s = kDisconnected \<or> m_state co \<noteq> kDisconnected"
  shows "conn_at reg x (co\<lparr>m_state := s\<rparr>) ch (setState x s w)"
proof -
  have "conn_links reg x (co\<lparr>m_state := s\<rparr>) ch (setState x s w)"
    unfolding setState_def using assms(1) by (intro conn_links_modify) (simp_all add: conn_at_links)
  with assms show ?thesis by (auto simp: conn_at_links)
qed

lemma conn_shutdown_ok:
  assumes at: "conn_at reg x co ch w" and st: "m_state co = kConnected"
    and l: "loops w (conn_loop co) = Some l" "isInLoopThread l w"
  shows "\<exists>w1. conn_at reg x (co\<lparr>m_state := kDisconnecting\<rparr>) ch w1 \<and> kst w1 = kst w \<and>
    conn_shutdown K x w =
      Inr (if contents (m_outputBuffer co) = [] then w1\<lparr>kst := shutdownWrite K (conn_fd co) (kst w)\<rparr> else w1)"
proof -
  let ?w1 = "setState x kDisconnecting w"
  have a1: "conn_at reg x (co\<lparr>m_state := kDisconnecting\<rparr>) ch ?w1"
    by (rule conn_at_setState [OF at]) (simp add: st)
  have "loops ?w1 (conn_loop co) = Some l" "isInLoopThread l ?w1" "kst ?w1 = kst w"
    using l by (simp_all add: setState_def isInLoopThread_def)
  then have "conn_shutdown K x w = shutdownInLoop K x ?w1"
    using at st by (simp add: conn_shutdown_def runInLoop_def conn_at_def)
  with shutdownInLoop_eq [OF a1] a1 show ?thesis
    by (intro exI [of _ ?w1]) (simp add: setState_def)
qed

lemma conn_links_chan:
  assumes "conn_links reg x co ch w" and "reg_view ch' = reg_view ch"
  shows "conn_links reg x co ch' (w\<lparr>chans := (chans w)(conn_chan co \<mapsto> ch')\<rparr>)"
proof -
  let ?w = "w\<lparr>chans := (chans w)(conn_chan co \<mapsto> ch')\<rparr>"
  have v: "same_view (chans w) (chans ?w)"
    using assms same_view_upd [of ch' ch "chans w" "conn_chan co"] by (simp add: conn_links_def)
  have f: "m_fd ch' = m_fd ch" "chan_loop ch' = chan_loop ch" "m_index ch' = m_index ch"
    using assms(2) by (simp_all add: reg_view_def)
  obtain p where "pollers w (conn_loop co) = Some p"
    using assms(1) by (auto simp: conn_links_def elim: poller_invE)
  then have "poller_inv reg (conn_loop co) ?w"
    using poller_inv_same_view [of reg "conn_loop co" w ?w p] v assms(1) by (simp add: conn_links_def)
  moreover have "usable (conn_loop co) ?w (conn_chan co)"
    using assms(1) f by (auto simp: conn_links_def usable_def)
  ultimately show ?thesis using assms f by (simp add: conn_links_def)
qed

lemma reading_or: "(ev OR kReadEvent) AND kReadEvent \<noteq> 0"
  by (simp add: kReadEvent_val word_ao_absorbs)

lemma writing_or_read: "(ev OR kReadEvent) AND kWriteEvent = ev AND kWriteEvent"
  by (simp add: kReadEvent_val kWriteEvent_val word_ao_dist)

lemma connectEstablished_ok:
  assumes K: "epoll_contract K reg" and at: "conn_at reg x co ch w" and st: "m_state co \<noteq> kDisconnected"
  shows "\<exists>w1 ch1. connectEstablished K U x w =
      call_fn (connectionCallback co) (\<lambda>i. on_connection U i x w1) \<and>
    conn_at reg x (co\<lparr>m_state := kConnected\<rparr>) ch1 w1 \<and> isReading ch1 \<and>
    m_tied ch1 \<and> m_tie ch1 = Some x \<and> m_index ch1 = kAdded \<and> loops w1 = loops w \<and>
    kernel_watch reg (conn_loop co) w1 (conn_chan co) = Some (m_events ch OR kReadEvent)"
proof -
  let ?co = "co\<lparr>m_state := kConnected\<rparr>" and ?c = "conn_chan co" and ?L = "conn_loop co"
  let ?w1 = "setState x kConnected w"
  let ?w2 = "?w1\<lparr>chans := (chans ?w1)(?c \<mapsto> tie x ch)\<rparr>"
  have a1: "conn_at reg x ?co ch ?w1" by (rule conn_at_setState [OF at]) (simp add: st)
  have l2: "conn_links reg x ?co (tie x ch) ?w2"
    using conn_links_chan [of reg x ?co ch ?w1 "tie x ch"] a1
    by (simp add: conn_at_links tie_def reg_view_def)
  have ch1: "chans ?w2 ?c = Some (tie x ch)" "chan_loop (tie x ch) = ?L"
    and inv: "poller_inv reg ?L ?w2" and u: "usable ?L ?w2 ?c"
    using l2 by (simp_all add: conn_links_def)
  obtain p where p: "pollers ?w2 ?L = Some p" using inv by (auto elim: poller_invE)
  let ?ev = "m_events ch OR kReadEvent"
  have ne: "?ev \<noteq> kNoneEvent"
    using reading_or [of "m_events ch"] by (metis kNoneEvent_def and_zero_eq and.commute)
  have te: "m_events (tie x ch) = m_events ch" by (simp add: tie_def)
  from update_events_ok [OF K inv u p ch1(1), of "\<lambda>e. e OR kReadEvent"] te obtain k' where k':
    "update_events K ?c (\<lambda>e. e OR kReadEvent) ?w2 = Inr (register ?L p ?c (tie x ch) ?ev k' ?w2)"
    "poller_inv reg ?L (register ?L p ?c (tie x ch) ?ev k' ?w2)" by auto
  let ?w3 = "register ?L p ?c (tie x ch) ?ev k' ?w2" and ?ch = "updated_channel (tie x ch) ?ev"
  have idx: "m_index ?ch = kAdded" using ne by (simp add: next_index_def)
  have u3: "usable ?L ?w3 ?c" by (rule usable_register [OF ch1(2)])
  have "conn_links reg x ?co ?ch ?w3"
    using l2 k'(2) u3 by (simp add: conn_links_def)
  moreover have "isWriting ?ch = isWriting ch"
    by (simp add: writing_or_read) (simp add: isWriting_def)
  ultimately have "conn_at reg x ?co ?ch ?w3" using a1 by (simp add: conn_at_links)
  moreover have "connectEstablished K U x w = call_fn (connectionCallback co) (\<lambda>i. on_connection U i x ?w3)"
  proof -
    have "modify_chan ?c (tie x) ?w1 = ?w2" using at by (simp add: modify_chan_def conn_at_def setState_def)
    then show ?thesis using at k'(1) by (simp add: connectEstablished_def enableReading_def conn_at_def)
  qed
  moreover have "kernel_watch reg ?L ?w3 ?c = Some ?ev"
    using kernel_watch_eq [OF k'(2) u3, of ?ch] idx by simp
  moreover have "isReading ?ch" unfolding isReading_def updated_channel_sel by (rule reading_or)
  moreover have "m_tied ?ch" "m_tie ?ch = Some x" by (simp_all add: tie_def)
  moreover have "loops ?w3 = loops w" by (simp add: setState_def)
  ultimately show ?thesis using idx by (intro exI [of _ ?w3] exI [of _ ?ch]) blast
qed

text \<open>
  Closing by the peer, the first time: the connection is disconnected and its descriptor no longer
  watched, then the connection callback and the close callback run.
\<close>

lemma handleClose_ok:
  assumes K: "epoll_contract K reg" and at: "conn_at reg x co ch w" and added: "m_index ch = kAdded"
  shows "\<exists>w1 ch1. conn_handleClose K U x w =
      bindR (call_fn (connectionCallback co) (\<lambda>i. on_connection U i x w1)) (\<lambda>w.
      bindR (deref (conns w) x) (\<lambda>co. call_fn (conn_closeCallback co) (\<lambda>i. on_close U i x w))) \<and>
    conn_at reg x (co\<lparr>m_state := kDisconnected\<rparr>) ch1 w1 \<and> isNoneEvent ch1 \<and>
    kernel_watch reg (conn_loop co) w1 (conn_chan co) = None \<and>
    poll_world.more w1 = poll_world.more (setState x kDisconnected w)"
proof -
  let ?co = "co\<lparr>m_state := kDisconnected\<rparr>" and ?c = "conn_chan co" and ?L = "conn_loop co"
  let ?w1 = "setState x kDisconnected w"
  have a1: "conn_at reg x ?co ch ?w1" by (rule conn_at_setState [OF at]) simp
  then have ch1: "chans ?w1 ?c = Some ch" "chan_loop ch = ?L"
    and inv: "poller_inv reg ?L ?w1" and u: "usable ?L ?w1 ?c" by (simp_all add: conn_at_def)
  obtain p where p: "pollers ?w1 ?L = Some p" using inv by (auto elim: poller_invE)
  from update_events_ok [OF K inv u p ch1(1), of "\<lambda>_. kNoneEvent"] obtain k' where k':
    "disableAll K ?c ?w1 = Inr (register ?L p ?c ch kNoneEvent k' ?w1)"
    "poller_inv reg ?L (register ?L p ?c ch kNoneEvent k' ?w1)" by (auto simp: disableAll_def)
  let ?w3 = "register ?L p ?c ch kNoneEvent k' ?w1" and ?ch = "updated_channel ch kNoneEvent"
  have u3: "usable ?L ?w3 ?c" by (rule usable_register [OF ch1(2)])
  have "conn_at reg x ?co ?ch ?w3"
    using a1 k'(2) u3 by (simp add: conn_at_def)
  moreover have "conn_handleClose K U x w =
      bindR (call_fn (connectionCallback co) (\<lambda>i. on_connection U i x ?w3)) (\<lambda>w.
      bindR (deref (conns w) x) (\<lambda>co. call_fn (conn_closeCallback co) (\<lambda>i. on_close U i x w)))"
    using at k'(1) by (simp add: conn_handleClose_def conn_at_def)
  moreover have "kernel_watch reg ?L ?w3 ?c = None"
    using kernel_watch_eq [OF k'(2) u3, of ?ch] added by (simp add: next_index_def)
  moreover have "poll_world.more ?w3 = poll_world.more ?w1"
    using k'(1) unfolding disableAll_def by (rule more_update_events)
  ultimately show ?thesis
    by (intro exI [of _ ?w3] exI [of _ ?ch]) (simp add: isNoneEvent_def)
qed

text \<open>The end of a connection: whatever it was watched for, its descriptor leaves the poller.\<close>

lemma connectDestoryed_disconnected:
  assumes K: "epoll_contract K reg" and at: "conn_at reg x co ch w" and st: "m_state co \<noteq> kConnected"
  shows "\<exists>w'. connectDestoryed K U x w = Inr w' \<and> conn_at reg x co (ch\<lparr>m_index := kNew\<rparr>) w' \<and>
    kernel_watch reg (conn_loop co) w' (conn_chan co) = None \<and>
    (\<exists>p. pollers w' (conn_loop co) = Some p \<and> m_channels p (conn_fd co) = None) \<and>
    poll_world.more w' = poll_world.more w"
proof -
  let ?c = "conn_chan co" and ?L = "conn_loop co"
  from at have ch: "chans w ?c = Some ch" "chan_loop ch = ?L" "m_fd ch = conn_fd co"
    and inv: "poller_inv reg ?L w" and u: "usable ?L w ?c" by (simp_all add: conn_at_def)
  obtain p where p: "pollers w ?L = Some p" using inv by (auto elim: poller_invE)
  from removeChannel_ok [OF K inv u p ch(1)] obtain k' where k':
    "channel_remove K ?c w = Inr (unregister ?L p ?c ch k' w)"
    "poller_inv reg ?L (unregister ?L p ?c ch k' w)" by blast
  let ?w = "unregister ?L p ?c ch k' w"
  have u': "usable ?L ?w ?c" by (rule usable_unregister [OF ch(2)])
  have "conn_at reg x co (ch\<lparr>m_index := kNew\<rparr>) ?w"
    using at k'(2) u' by (simp add: conn_at_def isWriting_def)
  moreover have "kernel_watch reg ?L ?w ?c = None"
    using kernel_watch_eq [OF k'(2) u', of "ch\<lparr>m_index := kNew\<rparr>"] by simp
  moreover have "connectDestoryed K U x w = Inr ?w"
    using at st k'(1) by (simp add: connectDestoryed_def conn_at_def)
  moreover have "poll_world.more ?w = poll_world.more w"
    using k'(1) by (rule more_channel_remove)
  ultimately show ?thesis using ch(3) by (intro exI [of _ ?w]) simp
qed

section \<open>Sending from another thread\<close>

text \<open>The message pointer is queued, not the message.\<close>

lemma send_other_thread:
  assumes "conns w x = Some co" and "m_state co = kConnected" and "loops w (conn_loop co) = Some l"
    and "\<not> isInLoopThread l w"
  shows "send K x a len w = queueInLoop K (conn_loop co) (SendInLoop x a len) w"
  using assms by (simp add: send_def runInLoop_def)

lemma sendInLoop_dangling:
  assumes "conn_at reg x co ch w" and "m_state co \<noteq> kDisconnected" and "mem w a = None" and "len \<noteq> 0"
    and "highWaterMarkCallback co = None"
  shows "sendInLoop K x a len w = Inl UseAfterFree"
proof -
  have "0 < len" using assms(4) word_neq_0_conv by blast
  with assms show ?thesis
    by (auto simp: sendInLoop_def conn_at_def send_direct_def read_mem_def send_buffered_def)
qed

section \<open>A connection's life of sends and writable events\<close>

text \<open>
  A run of \<open>sendInLoop\<close> calls and writable events, in any order, with the messages it was given; the
  writes it makes do not fail, and each message finds room in the output buffer.
\<close>

inductive stream_run ::
    "'k kernel \<Rightarrow> conn_ptr \<Rightarrow> ('k, 'a) conn_world_scheme \<Rightarrow> byte list list
     \<Rightarrow> ('k, 'a) conn_world_scheme \<Rightarrow> bool"
  for K x where
  stop: "stream_run K x w [] w"
| sends: "conns w x = Some co \<Longrightarrow> chans w (conn_chan co) = Some ch \<Longrightarrow> message_at w a msg \<Longrightarrow>
    unat len = length msg \<Longrightarrow> fits (length msg) (m_outputBuffer co) \<Longrightarrow>
    (direct co ch \<longrightarrow> write_ok K (conn_fd co) msg (kst w)) \<Longrightarrow>
    sendInLoop K x a len w = Inr w1 \<Longrightarrow> stream_run K x w1 ms w2 \<Longrightarrow> stream_run K x w (msg # ms) w2"
| writable: "conns w x = Some co \<Longrightarrow> chans w (conn_chan co) = Some ch \<Longrightarrow> isWriting ch \<Longrightarrow>
    write_ok K (conn_fd co) (contents (m_outputBuffer co)) (kst w) \<Longrightarrow>
    conn_handleWrite K x w = Inr w1 \<Longrightarrow> stream_run K x w1 ms w2 \<Longrightarrow> stream_run K x w ms w2"

lemma conn_at_conns: "conn_at reg x co ch w \<Longrightarrow> conns w x = Some co \<and> chans w (conn_chan co) = Some ch"
  by (simp add: conn_at_def)

lemma stream_run_ok:
  assumes "stream_run K x w ms w'"
  shows "conn_kernel K reg wire (conn_fd co) \<Longrightarrow> conn_at reg x co ch w \<Longrightarrow> m_state co \<noteq> kDisconnected \<Longrightarrow>
    \<exists>co' ch'. conn_at reg x co' ch' w' \<and> outgoing wire co' w' = outgoing wire co w @ concat ms \<and>
      m_state co' = m_state co"
  using assms
proof (induction arbitrary: co ch rule: stream_run.induct)
  case (stop w)
  then show ?case by auto
next
  case (sends w co0 ch0 a msg len w1 ms w2)
  then have same: "co0 = co" "ch0 = ch" by (auto dest!: conn_at_conns)
  from sends.prems(1-3) sends.hyps same obtain w1' co1 ch1 where s: "sendInLoop K x a len w = Inr w1'"
    "conn_at reg x co1 ch1 w1'" "co1 = co\<lparr>m_outputBuffer := m_outputBuffer co1\<rparr>"
    "outgoing wire co1 w1' = outgoing wire co w @ msg"
    using sendInLoop_ok [of K reg wire co x ch w a msg len] by blast
  have f: "conn_fd co1 = conn_fd co" "m_state co1 = m_state co" by (subst s(3), simp)+
  from s(1,2) sends.hyps(7) have "conn_at reg x co1 ch1 w1" by simp
  with sends.IH [of co1 ch1] sends.prems(1,3) f obtain co' ch' where
    "conn_at reg x co' ch' w2" "outgoing wire co' w2 = outgoing wire co1 w1 @ concat ms"
    "m_state co' = m_state co" by auto
  with s(1,4) sends.hyps(7) show ?case by auto
next
  case (writable w co0 ch0 w1 ms w2)
  then have same: "co0 = co" "ch0 = ch" by (auto dest!: conn_at_conns)
  from handleWrite_ok [OF writable.prems(1-3)] writable.hyps same obtain w1' co1 ch1 where
    s: "conn_handleWrite K x w = Inr w1'"
    "conn_at reg x co1 ch1 w1'" "co1 = co\<lparr>m_outputBuffer := m_outputBuffer co1\<rparr>"
    "outgoing wire co1 w1' = outgoing wire co w" by blast
  have f: "conn_fd co1 = conn_fd co" "m_state co1 = m_state co" by (subst s(3), simp)+
  from s(1,2) writable.hyps(5) have "conn_at reg x co1 ch1 w1" by simp
  with writable.IH [of co1 ch1] writable.prems(1,3) f obtain co' ch' where
    "conn_at reg x co' ch' w2" "outgoing wire co' w2 = outgoing wire co1 w1 @ concat ms"
    "m_state co' = m_state co" by auto
  with s(1,4) writable.hyps(5) show ?case by auto
qed

end
