(* ===== verification/ThreadPool.thy ===== *)
theory ThreadPool
  imports EventLoop Decimal
begin

text \<open>
  \<open>CurrentThread.h/.cpp\<close>, \<open>Thread.h/.cpp\<close>, \<open>EventLoopThread.h/.cpp\<close> (the inheriting version, which
  is the one compiled) and \<open>EventLoopThreadPool.h/.cpp\<close> of \<open>src/src\<close>. What the system provides when
  a thread starts (its id, the address of the loop on its stack and of that loop's channel) is a
  parameter. A started thread runs up to the point its creator waits for; what it does afterwards,
  \<open>loop.loop()\<close>, is in the theories EventLoop and LoopProtocol.
\<close>

section \<open>CurrentThread\<close>

definition cachedTid :: "('t \<Rightarrow> int) \<Rightarrow> 't \<Rightarrow> ('t \<Rightarrow> int) \<Rightarrow> 't \<Rightarrow> int" where
  "cachedTid gettid th t_cacheTid = t_cacheTid(th := gettid th)"

definition tid :: "('t \<Rightarrow> int) \<Rightarrow> 't \<Rightarrow> ('t \<Rightarrow> int) \<Rightarrow> int \<times> ('t \<Rightarrow> int)" where
  "tid gettid th t_cacheTid =
     (let t_cacheTid = if t_cacheTid th = 0 then cachedTid gettid th t_cacheTid else t_cacheTid
      in (t_cacheTid th, t_cacheTid))"

text \<open>The caches that calls of \<open>tid\<close> can produce from the initial zeros.\<close>

definition cache_inv :: "('t \<Rightarrow> int) \<Rightarrow> ('t \<Rightarrow> int) \<Rightarrow> bool" where
  "cache_inv gettid cache \<longleftrightarrow> (\<forall>th. cache th = 0 \<or> cache th = gettid th)"

lemma tid_cached:
  "cache_inv gettid cache \<Longrightarrow>
   fst (tid gettid th cache) = gettid th \<and> cache_inv gettid (snd (tid gettid th cache))"
  by (auto simp: tid_def cachedTid_def cache_inv_def Let_def)

section \<open>Thread\<close>

text \<open>\<open>m_thread\<close> is null or holds a \<open>std::thread\<close>, of which only whether it is joinable matters.\<close>

record thread_obj =
  thr_started :: bool
  m_joined :: bool
  m_thread :: "bool option"
  m_tid :: int
  thr_name :: string

definition setDefaultName :: "int \<Rightarrow> string \<Rightarrow> (string \<times> int) res" where
  "setDefaultName m_numCreated name =
     (let num = m_numCreated + 1
      in if name = [] then bindR (fmt_int num) (\<lambda>s. Inr (''Thread-'' @ s, num)) else Inr (name, num))"

definition newThread :: "string \<Rightarrow> int \<Rightarrow> (thread_obj \<times> int) res" where
  "newThread name m_numCreated =
     bindR (setDefaultName m_numCreated name) (\<lambda>(name, num).
       Inr (\<lparr>thr_started = False, m_joined = False, m_thread = None, m_tid = 0, thr_name = name\<rparr>, num))"

text \<open>
  \<open>start\<close>: storing the new \<open>std::thread\<close> destroys the one \<open>m_thread\<close> held, which terminates the program
  if that one is joinable. The new thread's id is awaited through the promise before \<open>start\<close> returns.
\<close>

definition thread_start :: "int \<Rightarrow> 'a thread_obj_scheme \<Rightarrow> 'a thread_obj_scheme res" where
  "thread_start newtid t =
     (let t = t\<lparr>thr_started := True\<rparr>
      in if m_thread t = Some True then Inl Terminated
         else Inr (t\<lparr>m_thread := Some True, m_tid := newtid\<rparr>))"

definition thread_join :: "'a thread_obj_scheme \<Rightarrow> 'a thread_obj_scheme res" where
  "thread_join t =
     (let t = t\<lparr>m_joined := True\<rparr>
      in case m_thread t of
           None \<Rightarrow> Inl NullDeref
         | Some False \<Rightarrow> Inl SystemError
         | Some True \<Rightarrow> Inr (t\<lparr>m_thread := Some False\<rparr>))"

definition thread_detach :: "'a thread_obj_scheme \<Rightarrow> 'a thread_obj_scheme res" where
  "thread_detach t =
     (case m_thread t of
        None \<Rightarrow> Inl NullDeref
      | Some False \<Rightarrow> Inl SystemError
      | Some True \<Rightarrow> Inr (t\<lparr>m_thread := Some False\<rparr>))"

text \<open>The destructor, then that of the member \<open>m_thread\<close>.\<close>

definition thread_destroy :: "'a thread_obj_scheme \<Rightarrow> unit res" where
  "thread_destroy t =
     bindR (if thr_started t \<and> \<not> m_joined t then thread_detach t else Inr t) (\<lambda>t.
       if m_thread t = Some True then Inl Terminated else Inr ())"

text \<open>The states of a thread object that is started at most once, and joined only then.\<close>

definition thread_inv :: "'a thread_obj_scheme \<Rightarrow> bool" where
  "thread_inv t \<longleftrightarrow>
     (m_thread t = (if thr_started t then Some (\<not> m_joined t) else None)) \<and>
     (m_joined t \<longrightarrow> thr_started t)"

lemma newThread_inv:
  "newThread name n = Inr (t, m) \<Longrightarrow> thread_inv t \<and> \<not> thr_started t \<and> \<not> m_joined t \<and> m = n + 1"
  by (auto simp: newThread_def setDefaultName_def thread_inv_def Let_def split: if_splits)

lemma newThread_named:
  "name \<noteq> [] \<Longrightarrow> newThread name n =
     Inr (\<lparr>thr_started = False, m_joined = False, m_thread = None, m_tid = 0, thr_name = name\<rparr>, n + 1)"
  by (simp add: newThread_def setDefaultName_def)

lemma thread_start_inv:
  "thread_inv t \<Longrightarrow> \<not> thr_started t \<Longrightarrow>
   \<exists>t'. thread_start i t = Inr t' \<and> thread_inv t' \<and> thr_started t' \<and> \<not> m_joined t' \<and> m_tid t' = i"
  by (auto simp: thread_start_def thread_inv_def Let_def)

lemma thread_join_inv:
  "thread_inv t \<Longrightarrow> thr_started t \<Longrightarrow> \<not> m_joined t \<Longrightarrow>
   \<exists>t'. thread_join t = Inr t' \<and> thread_inv t' \<and> thr_started t' \<and> m_joined t'"
  by (auto simp: thread_join_def thread_inv_def Let_def)

lemma thread_destroy_ok: "thread_inv t \<Longrightarrow> thread_destroy t = Inr ()"
  by (auto simp: thread_destroy_def thread_detach_def thread_inv_def)

section \<open>EventLoopThread\<close>

record event_loop_thread = thread_obj +
  elt_loop :: "loop_ptr option"
  exiting :: bool

definition newEventLoopThread :: "string \<Rightarrow> int \<Rightarrow> (event_loop_thread \<times> int) res" where
  "newEventLoopThread name m_numCreated =
     bindR (newThread name m_numCreated) (\<lambda>(t, num).
       Inr (thread_obj.extend t (event_loop_thread.fields None False), num))"

type_synonym 'w init_cb = "(loop_ptr \<Rightarrow> 'w \<Rightarrow> 'w res) option"

text \<open>
  \<open>threadFunc\<close> up to \<open>loop_created_promise_.set_value()\<close>, run by the thread \<open>newtid\<close> on whose stack
  the loop is at \<open>L\<close>; and its end, after \<open>loop.loop()\<close> returned, when that loop is destroyed.
\<close>

definition threadFunc_begin ::
    "'k kernel \<Rightarrow> bool \<Rightarrow> ('k, 'a) loop_world_scheme init_cb \<Rightarrow> loop_ptr \<Rightarrow> chan_ptr \<Rightarrow> event_loop_thread
     \<Rightarrow> ('k, 'a) loop_world_scheme \<Rightarrow> (event_loop_thread \<times> ('k, 'a) loop_world_scheme) res" where
  "threadFunc_begin K use_poll cb L c e w =
     bindR (newEventLoop K use_poll (''eventloop_from_'' @ thr_name e) L c w) (\<lambda>w.
     bindR (case cb of None \<Rightarrow> Inr w | Some f \<Rightarrow> f L w) (\<lambda>w.
       Inr (e\<lparr>elt_loop := Some L\<rparr>, w)))"

definition threadFunc_end ::
    "'k kernel \<Rightarrow> loop_ptr \<Rightarrow> event_loop_thread \<Rightarrow> ('k, 'a) loop_world_scheme
     \<Rightarrow> (event_loop_thread \<times> ('k, 'a) loop_world_scheme) res" where
  "threadFunc_end K L e w = bindR (destroyEventLoop K L w) (\<lambda>w. Inr (e\<lparr>elt_loop := None\<rparr>, w))"

definition startLoop ::
    "'k kernel \<Rightarrow> bool \<Rightarrow> ('k, 'a) loop_world_scheme init_cb \<Rightarrow> int \<Rightarrow> loop_ptr \<Rightarrow> chan_ptr
     \<Rightarrow> event_loop_thread \<Rightarrow> ('k, 'a) loop_world_scheme
     \<Rightarrow> (loop_ptr \<times> event_loop_thread \<times> ('k, 'a) loop_world_scheme) res" where
  "startLoop K use_poll cb newtid L c e w =
     bindR (thread_start newtid e) (\<lambda>e.
     bindR (threadFunc_begin K use_poll cb L c e (w\<lparr>cur_tid := newtid\<rparr>)) (\<lambda>(e, w').
       case elt_loop e of
         None \<Rightarrow> Inl Aborted
       | Some l \<Rightarrow> Inr (l, e, w'\<lparr>cur_tid := cur_tid w\<rparr>)))"

text \<open>
  The destructor: with a loop still running, ask it to quit and join the thread, which meanwhile
  does what is left of \<open>loop.loop()\<close> (the parameter \<open>rest\<close>) and runs to its end; then the destructor
  of the base class.
\<close>

definition destroyEventLoopThread ::
    "'k kernel \<Rightarrow> (loop_ptr \<Rightarrow> ('k, 'a) loop_world_scheme \<Rightarrow> ('k, 'a) loop_world_scheme res)
     \<Rightarrow> event_loop_thread \<Rightarrow> ('k, 'a) loop_world_scheme \<Rightarrow> ('k, 'a) loop_world_scheme res" where
  "destroyEventLoopThread K rest e w =
     (let e = e\<lparr>exiting := True\<rparr>
      in bindR (case elt_loop e of
                  None \<Rightarrow> Inr (e, w)
                | Some L \<Rightarrow>
                    bindR (quit K L w) (\<lambda>w1.
                    bindR (rest L (w1\<lparr>cur_tid := m_tid e\<rparr>)) (\<lambda>w2.
                    bindR (threadFunc_end K L e w2) (\<lambda>(e, w3).
                    bindR (thread_join e) (\<lambda>e. Inr (e, w3\<lparr>cur_tid := cur_tid w\<rparr>)))))) (\<lambda>(e, w).
         bindR (thread_destroy e) (\<lambda>_. Inr w)))"

section \<open>EventLoopThreadPool\<close>

record thread_pool =
  baseLoop :: loop_ptr
  pool_name :: string
  pool_started :: bool
  numThreads :: int
  pool_next :: int
  pool_threads :: "event_loop_thread list"
  pool_loops :: "loop_ptr list"

definition newThreadPool :: "loop_ptr \<Rightarrow> string \<Rightarrow> thread_pool" where
  "newThreadPool base name =
     \<lparr>baseLoop = base, pool_name = name, pool_started = False, numThreads = 0, pool_next = 0,
      pool_threads = [], pool_loops = []\<rparr>"

definition setThreadNum :: "int \<Rightarrow> thread_pool \<Rightarrow> thread_pool" where
  "setThreadNum n p = p\<lparr>numThreads := n\<rparr>"

text \<open>
  The body of the \<open>for\<close> loop of \<open>start\<close> and the loop itself. \<open>env i\<close> is what the system gives the
  \<open>i\<close>-th thread: its id, the address of its loop and of the loop's channel. \<open>num\<close> is the static
  \<open>Thread::m_numCreated\<close>.
\<close>

type_synonym thread_env = "nat \<Rightarrow> int \<times> loop_ptr \<times> chan_ptr"

definition start_one ::
    "'k kernel \<Rightarrow> bool \<Rightarrow> ('k, 'a) loop_world_scheme init_cb \<Rightarrow> thread_env \<Rightarrow> nat
     \<Rightarrow> thread_pool \<times> int \<times> ('k, 'a) loop_world_scheme
     \<Rightarrow> (thread_pool \<times> int \<times> ('k, 'a) loop_world_scheme) res" where
  "start_one K use_poll cb env i s =
     (case s of (p, num, w) \<Rightarrow>
        bindR (fmt_int (int i)) (\<lambda>istr.
        let sub_name = ''EventLoopThread_'' @ pool_name p @ ''-'' @ istr
        in bindR (newEventLoopThread sub_name num) (\<lambda>(elt, num).
           case env i of (newtid, L, c) \<Rightarrow>
           bindR (startLoop K use_poll cb newtid L c elt w) (\<lambda>(l, elt, w).
             Inr (p\<lparr>pool_threads := pool_threads p @ [elt], pool_loops := pool_loops p @ [l]\<rparr>,
                  num, w)))))"

fun start_from ::
    "'k kernel \<Rightarrow> bool \<Rightarrow> ('k, 'a) loop_world_scheme init_cb \<Rightarrow> thread_env \<Rightarrow> nat \<Rightarrow> nat
     \<Rightarrow> thread_pool \<times> int \<times> ('k, 'a) loop_world_scheme
     \<Rightarrow> (thread_pool \<times> int \<times> ('k, 'a) loop_world_scheme) res" where
  "start_from K use_poll cb env i 0 s = Inr s"
| "start_from K use_poll cb env i (Suc n) s =
     bindR (start_one K use_poll cb env i s) (start_from K use_poll cb env (Suc i) n)"

definition pool_start ::
    "'k kernel \<Rightarrow> bool \<Rightarrow> ('k, 'a) loop_world_scheme init_cb \<Rightarrow> thread_env \<Rightarrow> thread_pool \<Rightarrow> int
     \<Rightarrow> ('k, 'a) loop_world_scheme \<Rightarrow> (thread_pool \<times> int \<times> ('k, 'a) loop_world_scheme) res" where
  "pool_start K use_poll cb env p num w =
     (let p = p\<lparr>pool_started := True, pool_loops := pool_loops p @ [baseLoop p]\<rparr>
      in bindR (start_from K use_poll cb env 0 (nat (numThreads p)) (p, num, w)) (\<lambda>(p, num, w).
         bindR (case cb of
                  Some f \<Rightarrow> if numThreads p = 0 then f (baseLoop p) w else Inr w
                | None \<Rightarrow> Inr w) (\<lambda>w. Inr (p, num, w))))"

text \<open>\<open>getNextLoop\<close>; \<open>None\<close> is the null pointer. \<open>loops_\<close> is indexed as a \<open>size_t\<close>.\<close>

definition getNextLoop :: "thread_pool \<Rightarrow> (loop_ptr option \<times> thread_pool) res" where
  "getNextLoop p =
     (if length (pool_loops p) = 1 then Inr (Some (baseLoop p), p)
      else if pool_loops p \<noteq> []
      then let p = (if pool_next p = 0 then p\<lparr>pool_next := 1\<rparr> else p);
               i = pool_next p
           in if 0 \<le> i \<and> nat i < length (pool_loops p)
              then Inr (Some (pool_loops p ! nat i),
                        p\<lparr>pool_next := (i + 1) mod int (length (pool_loops p))\<rparr>)
              else Inl OutOfBounds
      else Inr (None, p))"

section \<open>Round robin\<close>

text \<open>
  What TcpServer relies on: each call yields the next of a fixed, non-empty list of loops, cyclically.
\<close>

locale loop_selector =
  fixes ok :: "'s \<Rightarrow> bool"
    and targets :: "'s \<Rightarrow> loop_ptr list"
    and pos :: "'s \<Rightarrow> nat"
    and next_loop :: "'s \<Rightarrow> (loop_ptr option \<times> 's) res"
  assumes targets_nonempty: "ok s \<Longrightarrow> targets s \<noteq> []"
    and next_ok: "ok s \<Longrightarrow> \<exists>s'. next_loop s = Inr (Some (targets s ! (pos s mod length (targets s))), s') \<and>
      ok s' \<and> targets s' = targets s \<and> pos s' = (pos s + 1) mod length (targets s)"
begin

fun picks :: "nat \<Rightarrow> 's \<Rightarrow> (loop_ptr option list \<times> 's) res" where
  "picks 0 s = Inr ([], s)"
| "picks (Suc n) s = bindR (next_loop s) (\<lambda>(l, s). bindR (picks n s) (\<lambda>(ls, s). Inr (l # ls, s)))"

lemma picks_nth:
  "ok s \<Longrightarrow> \<exists>s'. picks n s = Inr (map (\<lambda>i. Some (targets s ! ((pos s + i) mod length (targets s)))) [0..<n], s') \<and>
     ok s' \<and> targets s' = targets s \<and> pos s' mod length (targets s) = (pos s + n) mod length (targets s)"
proof (induction n arbitrary: s)
  case 0
  then show ?case by simp
next
  case (Suc n)
  from next_ok [OF Suc.prems] obtain s1 where s1: "next_loop s = Inr (Some (targets s ! (pos s mod length (targets s))), s1)"
    "ok s1" "targets s1 = targets s" "pos s1 = (pos s + 1) mod length (targets s)" by blast
  from Suc.IH [OF s1(2)] s1(3,4) obtain s' where s': "picks n s1 =
      Inr (map (\<lambda>i. Some (targets s ! (((pos s + 1) mod length (targets s) + i) mod length (targets s)))) [0..<n], s')"
    "ok s'" "targets s' = targets s"
    "pos s' mod length (targets s) = ((pos s + 1) mod length (targets s) + n) mod length (targets s)"
    by auto
  have "[0..<Suc n] = 0 # map Suc [0..<n]" by (simp add: upt_conv_Cons map_Suc_upt del: upt_Suc)
  with s1(1) s' show ?case by (auto simp: mod_add_left_eq simp del: upt_Suc)
qed

lemma picks_round:
  assumes "ok s"
  shows "\<exists>s'. picks (length (targets s)) s = Inr (map Some (rotate (pos s) (targets s)), s') \<and>
     ok s' \<and> targets s' = targets s \<and> pos s' mod length (targets s) = pos s mod length (targets s)"
proof -
  have "map (\<lambda>i. Some (targets s ! ((pos s + i) mod length (targets s)))) [0..<length (targets s)] =
      map Some (rotate (pos s) (targets s))"
    by (rule nth_equalityI) (simp_all add: nth_rotate)
  with picks_nth [OF assms, of "length (targets s)"] show ?thesis by simp
qed

end

definition pool_targets :: "thread_pool \<Rightarrow> loop_ptr list" where
  "pool_targets p = (if length (pool_loops p) = 1 then [baseLoop p] else tl (pool_loops p))"

definition pool_pos :: "thread_pool \<Rightarrow> nat" where
  "pool_pos p = (if length (pool_loops p) = 1 \<or> pool_next p = 0 then 0 else nat (pool_next p) - 1)"

definition pool_ok :: "thread_pool \<Rightarrow> bool" where
  "pool_ok p \<longleftrightarrow> pool_loops p \<noteq> [] \<and> 0 \<le> pool_next p \<and> pool_next p < int (length (pool_loops p))"

interpretation pool: loop_selector pool_ok pool_targets pool_pos getNextLoop
proof
  fix p
  assume ok: "pool_ok p"
  then show "pool_targets p \<noteq> []"
    by (cases "pool_loops p") (auto simp: pool_targets_def pool_ok_def)
  show "\<exists>p'. getNextLoop p = Inr (Some (pool_targets p ! (pool_pos p mod length (pool_targets p))), p') \<and>
      pool_ok p' \<and> pool_targets p' = pool_targets p \<and>
      pool_pos p' = (pool_pos p + 1) mod length (pool_targets p)"
  proof (cases "length (pool_loops p) = 1")
    case True
    with ok show ?thesis by (auto simp: getNextLoop_def pool_targets_def pool_pos_def pool_ok_def)
  next
    case False
    with ok obtain b x xs where ls: "pool_loops p = b # x # xs"
      by (cases "pool_loops p"; cases "tl (pool_loops p)") (auto simp: pool_ok_def)
    define i where "i = (if pool_next p = 0 then 1 else nat (pool_next p))"
    have i: "1 \<le> i" "i < length (pool_loops p)" "int i = (if pool_next p = 0 then 1 else pool_next p)"
      using ok ls by (auto simp: i_def pool_ok_def)
    let ?p' = "p\<lparr>pool_next := (int i + 1) mod int (length (pool_loops p))\<rparr>"
    have n: "getNextLoop p = Inr (Some (pool_loops p ! i), ?p')"
      using ok ls i by (auto simp: getNextLoop_def Let_def pool_ok_def i_def)
    have pos: "pool_pos p = i - 1" "pool_pos p < length (pool_targets p)"
      using ls i by (auto simp: pool_pos_def i_def pool_targets_def)
    have "pool_loops p ! i = pool_targets p ! pool_pos p"
      using pos ls i by (simp add: pool_targets_def nth_tl)
    moreover have "pool_ok ?p'" using ok by (auto simp: pool_ok_def)
    moreover have "pool_targets ?p' = pool_targets p" by (simp add: pool_targets_def)
    moreover have "pool_pos ?p' = (pool_pos p + 1) mod length (pool_targets p)"
    proof (cases "i + 1 = length (pool_loops p)")
      case True
      then have "(int i + 1) mod int (length (pool_loops p)) = 0"
        by (metis mod_self of_nat_1 of_nat_add)
      with True ls pos(1) i show ?thesis by (simp add: pool_pos_def pool_targets_def)
    next
      case F: False
      with i have "(int i + 1) mod int (length (pool_loops p)) = int i + 1" by simp
      with F ls pos(1) i show ?thesis by (simp add: pool_pos_def pool_targets_def)
    qed
    ultimately show ?thesis using n pos(2) by auto
  qed
qed

text \<open>The loops of \<open>n\<close> successive calls of \<open>getNextLoop\<close>.\<close>

fun next_loops :: "nat \<Rightarrow> thread_pool \<Rightarrow> (loop_ptr option list \<times> thread_pool) res" where
  "next_loops 0 p = Inr ([], p)"
| "next_loops (Suc n) p =
     bindR (getNextLoop p) (\<lambda>(l, p). bindR (next_loops n p) (\<lambda>(ls, p). Inr (l # ls, p)))"

lemma next_loops_picks: "next_loops n p = pool.picks n p"
  by (induction n arbitrary: p) (simp_all add: pool.picks.simps)

section \<open>Starting the pool\<close>

abbreviation env_tid :: "thread_env \<Rightarrow> nat \<Rightarrow> int" where
  "env_tid env i \<equiv> fst (env i)"

abbreviation env_loop :: "thread_env \<Rightarrow> nat \<Rightarrow> loop_ptr" where
  "env_loop env i \<equiv> fst (snd (env i))"

abbreviation env_chan :: "thread_env \<Rightarrow> nat \<Rightarrow> chan_ptr" where
  "env_chan env i \<equiv> snd (snd (env i))"

text \<open>An initialisation callback that touches no loop and no channel.\<close>

definition quiet_init :: "('k, 'a) loop_world_scheme init_cb \<Rightarrow> bool" where
  "quiet_init cb \<longleftrightarrow>
     (\<forall>f L w. cb = Some f \<longrightarrow>
        (\<exists>w'. f L w = Inr w' \<and> loops w' = loops w \<and> chans w' = chans w \<and> cur_tid w' = cur_tid w \<and>
              t_loopInThisThread w' = t_loopInThisThread w))"

text \<open>The threads \<open>i \<in> I\<close> to be started have ids and addresses of their own.\<close>

definition fresh_env :: "thread_env \<Rightarrow> nat set \<Rightarrow> ('k, 'a) loop_world_scheme \<Rightarrow> bool" where
  "fresh_env env I w \<longleftrightarrow>
     inj_on (env_tid env) I \<and> inj_on (env_loop env) I \<and>
     (\<forall>i\<in>I. t_loopInThisThread w (env_tid env i) = None \<and>
        (\<forall>d ch. chans w d = Some ch \<longrightarrow> chan_loop ch \<noteq> env_loop env i))"

definition worker_name :: "thread_pool \<Rightarrow> nat \<Rightarrow> string" where
  "worker_name p i = ''EventLoopThread_'' @ pool_name p @ ''-'' @ show_int (int i)"

definition worker_thread :: "thread_pool \<Rightarrow> thread_env \<Rightarrow> nat \<Rightarrow> event_loop_thread" where
  "worker_thread p env i =
     \<lparr>thr_started = True, m_joined = False, m_thread = Some True, m_tid = env_tid env i,
      thr_name = worker_name p i, elt_loop = Some (env_loop env i), exiting = False\<rparr>"

definition runs_worker :: "thread_env \<Rightarrow> ('k, 'a) loop_world_scheme \<Rightarrow> nat \<Rightarrow> bool" where
  "runs_worker env w i \<longleftrightarrow>
     (\<exists>l. loops w (env_loop env i) = Some l \<and> m_threadId l = env_tid env i) \<and>
     t_loopInThisThread w (env_tid env i) = Some (env_loop env i)"

lemma fresh_env_other:
  assumes "fresh_env env {i..<j} w" and "k \<in> {Suc i..<j}"
  shows "env_loop env k \<noteq> env_loop env i" "env_tid env k \<noteq> env_tid env i"
proof -
  have "k \<noteq> i" "k \<in> {i..<j}" "i \<in> {i..<j}" using assms(2) by auto
  moreover have "inj_on (env_tid env) {i..<j}" "inj_on (env_loop env) {i..<j}"
    using assms(1) by (simp_all add: fresh_env_def)
  ultimately show "env_loop env k \<noteq> env_loop env i" "env_tid env k \<noteq> env_tid env i"
    by (auto dest: inj_onD)
qed

lemma start_one_ok:
  assumes K: "epoll_contract K reg" "startup_contract K reg" and cb: "quiet_init cb"
    and fresh: "fresh_env env {i..<j} w" "i < j" and small: "int i < 2 ^ 31"
  shows "\<exists>w'. start_one K False cb env i (p, num, w) =
      Inr (p\<lparr>pool_threads := pool_threads p @ [worker_thread p env i],
             pool_loops := pool_loops p @ [env_loop env i]\<rparr>, num + 1, w') \<and>
    runs_worker env w' i \<and> fresh_env env {Suc i..<j} w' \<and>
    (\<forall>L. L \<noteq> env_loop env i \<longrightarrow> loops w' L = loops w L) \<and>
    (\<forall>t. t \<noteq> env_tid env i \<longrightarrow> t_loopInThisThread w' t = t_loopInThisThread w t) \<and>
    cur_tid w' = cur_tid w"
proof -
  obtain t L c where e: "env i = (t, L, c)" by (metis surj_pair)
  let ?w = "w\<lparr>cur_tid := t\<rparr>"
  let ?nm = "''eventloop_from_'' @ worker_name p i"
  from fresh have f: "t_loopInThisThread w t = None" "\<forall>d ch. chans w d = Some ch \<longrightarrow> chan_loop ch \<noteq> L"
    using e by (auto simp: fresh_env_def dest!: bspec [of _ _ i]) blast
  then have "fresh_loop L c ?w" by (simp add: fresh_loop_def)
  from newEventLoop_ok [OF K this, of ?nm] obtain w1 l ch where w1:
    "newEventLoop K False ?nm L c ?w = Inr w1" "loops w1 = (loops w)(L \<mapsto> l)" "m_threadId l = t"
    "chans w1 = (chans w)(c \<mapsto> ch)" "chan_loop ch = L" "cur_tid w1 = t"
    "t_loopInThisThread w1 = (t_loopInThisThread w)(t := Some L)" by auto
  obtain w2 where w2: "(case cb of None \<Rightarrow> Inr w1 | Some f \<Rightarrow> f L w1) = Inr w2" "loops w2 = loops w1"
      "chans w2 = chans w1" "t_loopInThisThread w2 = t_loopInThisThread w1"
    using cb by (cases cb) (auto simp: quiet_init_def)
  let ?w' = "w2\<lparr>cur_tid := cur_tid w\<rparr>"
  have "start_one K False cb env i (p, num, w) =
      Inr (p\<lparr>pool_threads := pool_threads p @ [worker_thread p env i],
             pool_loops := pool_loops p @ [L]\<rparr>, num + 1, ?w')"
    using e w1(1) w2(1) small
    by (simp add: start_one_def fmt_int_eq newEventLoopThread_def newThread_named thread_obj.extend_def
        event_loop_thread.fields_def startLoop_def thread_start_def threadFunc_begin_def worker_name_def
        worker_thread_def)
  moreover have "runs_worker env ?w' i" using w1 w2 e by (simp add: runs_worker_def)
  moreover have "fresh_env env {Suc i..<j} ?w'"
  proof -
    have d: "env_loop env k \<noteq> L" "env_tid env k \<noteq> t" if "k \<in> {Suc i..<j}" for k
      using fresh_env_other [OF fresh(1) that] e by simp_all
    have "inj_on (env_tid env) {Suc i..<j}" "inj_on (env_loop env) {Suc i..<j}"
      using fresh(1) by (auto simp: fresh_env_def elim: inj_on_subset)
    moreover have "t_loopInThisThread ?w' (env_tid env k) = None"
      "chans ?w' x = Some y \<Longrightarrow> chan_loop y \<noteq> env_loop env k" if k: "k \<in> {Suc i..<j}" for k x y
    proof -
      have "k \<in> {i..<j}" using k by auto
      then have "t_loopInThisThread w (env_tid env k) = None"
        "\<forall>d ch. chans w d = Some ch \<longrightarrow> chan_loop ch \<noteq> env_loop env k"
        using fresh(1) unfolding fresh_env_def by blast+
      then show "t_loopInThisThread ?w' (env_tid env k) = None"
        "chans ?w' x = Some y \<Longrightarrow> chan_loop y \<noteq> env_loop env k"
        using d [OF k] w1 w2 by (auto split: if_splits)
    qed
    ultimately show ?thesis unfolding fresh_env_def by blast
  qed
  ultimately show ?thesis using e w1 w2 by (intro exI [of _ ?w']) simp
qed

lemma runs_worker_kept:
  assumes "runs_worker env w i" and "\<forall>L\<in>{env_loop env i}. loops w' L = loops w L"
    and "\<forall>t\<in>{env_tid env i}. t_loopInThisThread w' t = t_loopInThisThread w t"
  shows "runs_worker env w' i"
  using assms by (simp add: runs_worker_def)

lemma start_from_ok:
  assumes K: "epoll_contract K reg" "startup_contract K reg" and cb: "quiet_init cb"
  shows "fresh_env env {i..<i + n} w \<Longrightarrow> int (i + n) < 2 ^ 31 \<Longrightarrow>
    \<exists>w'. start_from K False cb env i n (p, num, w) =
      Inr (p\<lparr>pool_threads := pool_threads p @ map (worker_thread p env) [i..<i + n],
             pool_loops := pool_loops p @ map (env_loop env) [i..<i + n]\<rparr>, num + int n, w') \<and>
    (\<forall>k\<in>{i..<i + n}. runs_worker env w' k) \<and>
    (\<forall>L. L \<notin> env_loop env ` {i..<i + n} \<longrightarrow> loops w' L = loops w L) \<and>
    (\<forall>t. t \<notin> env_tid env ` {i..<i + n} \<longrightarrow> t_loopInThisThread w' t = t_loopInThisThread w t) \<and>
    cur_tid w' = cur_tid w"
proof (induction n arbitrary: i p num w)
  case 0
  then show ?case by simp
next
  case (Suc n)
  let ?j = "i + Suc n"
  have j: "Suc i + n = ?j" by simp
  have "i < ?j" "int i < 2 ^ 31" using Suc.prems(2) by simp_all
  from start_one_ok [OF K cb Suc.prems(1) this] obtain w1 where w1:
    "start_one K False cb env i (p, num, w) =
      Inr (p\<lparr>pool_threads := pool_threads p @ [worker_thread p env i],
             pool_loops := pool_loops p @ [env_loop env i]\<rparr>, num + 1, w1)"
    "runs_worker env w1 i" "fresh_env env {Suc i..<Suc i + n} w1"
    "\<forall>L. L \<noteq> env_loop env i \<longrightarrow> loops w1 L = loops w L"
    "\<forall>t. t \<noteq> env_tid env i \<longrightarrow> t_loopInThisThread w1 t = t_loopInThisThread w t"
    "cur_tid w1 = cur_tid w" unfolding j by blast
  let ?p1 = "p\<lparr>pool_threads := pool_threads p @ [worker_thread p env i],
             pool_loops := pool_loops p @ [env_loop env i]\<rparr>"
  have same: "worker_thread ?p1 env = worker_thread p env"
    by (simp add: fun_eq_iff worker_thread_def worker_name_def)
  from Suc.IH [OF w1(3), of ?p1 "num + 1"] Suc.prems(2) obtain w' where w':
    "start_from K False cb env (Suc i) n (?p1, num + 1, w1) =
      Inr (?p1\<lparr>pool_threads := pool_threads ?p1 @ map (worker_thread p env) [Suc i..<Suc i + n],
             pool_loops := pool_loops ?p1 @ map (env_loop env) [Suc i..<Suc i + n]\<rparr>, num + 1 + int n, w')"
    "\<forall>k\<in>{Suc i..<Suc i + n}. runs_worker env w' k"
    "\<forall>L. L \<notin> env_loop env ` {Suc i..<Suc i + n} \<longrightarrow> loops w' L = loops w1 L"
    "\<forall>t. t \<notin> env_tid env ` {Suc i..<Suc i + n} \<longrightarrow> t_loopInThisThread w' t = t_loopInThisThread w1 t"
    "cur_tid w' = cur_tid w1"
    unfolding same by auto
  have notin: "env_loop env i \<notin> env_loop env ` {Suc i..<Suc i + n}" "env_tid env i \<notin> env_tid env ` {Suc i..<Suc i + n}"
    using fresh_env_other [OF Suc.prems(1)] unfolding j by fastforce+
  have "runs_worker env w' i"
    by (rule runs_worker_kept [OF w1(2)]) (use w'(3,4) notin in simp_all)
  moreover have "{i..<?j} = insert i {Suc i..<Suc i + n}" by auto
  moreover have "[i..<?j] = i # [Suc i..<Suc i + n]" by (simp add: upt_conv_Cons del: upt_Suc)
  ultimately show ?case using w1 w'
    by (intro exI [of _ w']) (simp del: upt_Suc)
qed

lemma pool_start_ok:
  assumes K: "epoll_contract K reg" "startup_contract K reg" and cb: "quiet_init cb"
    and new: "pool_loops p = []" "numThreads p = int n" and n: "n < 2 ^ 31"
    and fresh: "fresh_env env {..<n} w"
  shows "\<exists>p' w'. pool_start K False cb env p num w = Inr (p', num + int n, w') \<and>
    pool_started p' \<and> pool_loops p' = baseLoop p # map (env_loop env) [0..<n] \<and>
    pool_threads p' = pool_threads p @ map (worker_thread p env) [0..<n] \<and>
    baseLoop p' = baseLoop p \<and> pool_next p' = pool_next p \<and>
    (\<forall>k < n. runs_worker env w' k)"
proof -
  let ?p = "p\<lparr>pool_started := True, pool_loops := [baseLoop p]\<rparr>"
  have same: "worker_thread ?p env = worker_thread p env"
    by (simp add: fun_eq_iff worker_thread_def worker_name_def)
  have "fresh_env env {0..<0 + n} w" using fresh by (simp add: lessThan_atLeast0)
  moreover have "int (0 + n) < 2 ^ 31" using n by (simp add: nat_less_iff flip: of_nat_less_iff)
  ultimately obtain w' where w': "start_from K False cb env 0 n (?p, num, w) =
      Inr (?p\<lparr>pool_threads := pool_threads ?p @ map (worker_thread p env) [0..<n],
             pool_loops := pool_loops ?p @ map (env_loop env) [0..<n]\<rparr>, num + int n, w')"
    "\<forall>k\<in>{0..<n}. runs_worker env w' k"
    using start_from_ok [OF K cb, of env 0 n w ?p num] unfolding same by auto
  obtain w2 where w2: "(case cb of Some f \<Rightarrow> if numThreads p = 0 then f (baseLoop p) w' else Inr w'
      | None \<Rightarrow> Inr w') = Inr w2"
    "loops w2 = loops w'" "t_loopInThisThread w2 = t_loopInThisThread w'"
    using cb by (cases cb; cases "numThreads p = 0") (auto simp: quiet_init_def)
  have "\<forall>k<n. runs_worker env w2 k"
    using w'(2) w2(2,3) by (auto simp: runs_worker_def)
  with w' w2(1) new show ?thesis
    by (cases cb; cases "numThreads p = 0") (auto simp: pool_start_def)
qed

end
