(* ===== verification/TcpServer.thy ===== *)
theory TcpServer
  imports TcpConnection ThreadPool LoopProtocol
begin

text \<open>
  \<open>src/src/TcpServer.h\<close> and \<open>TcpServer.cpp\<close>: the acceptor, the thread pool, the map of connections and
  their life. The functors and callbacks of the other theories get their meaning here (\<open>exec\<close>,
  \<open>run_chan_cb\<close>), and so does the ownership of connections by \<open>shared_ptr\<close>s (\<open>owned\<close>, \<open>release\<close>).
  Addresses of new objects come from the parameter \<open>alloc\<close>, user code from \<open>U\<close> and \<open>user\<close>.
\<close>

section \<open>State\<close>

record tcp_server =
  srv_loop :: loop_ptr
  ipPort :: string
  srv_name :: string
  srv_acceptor :: acceptor
  threadPool :: thread_pool
  srv_connectionCallback :: "nat option"
  srv_messageCallback :: "nat option"
  srv_writeCompleteCallback :: "nat option"
  threadInitCallback :: "nat option"
  srv_started :: int
  connections :: "string \<rightharpoonup> conn_ptr"
  nextConnId :: int

text \<open>The server, the counter \<open>Thread::m_numCreated\<close> and the connections the user holds pointers to.\<close>

record 'k server_world = "'k conn_world" +
  server :: tcp_server
  num_created :: int
  user_refs :: "conn_ptr list"

definition modify_server ::
    "(tcp_server \<Rightarrow> tcp_server) \<Rightarrow> ('k, 'a) server_world_scheme \<Rightarrow> ('k, 'a) server_world_scheme" where
  "modify_server f w = w\<lparr>server := f (server w)\<rparr>"

section \<open>Construction, start\<close>

definition newTcpServer ::
    "'k kernel \<Rightarrow> chan_ptr \<Rightarrow> loop_ptr option \<Rightarrow> sockaddr_in \<Rightarrow> string \<Rightarrow> bool
     \<Rightarrow> ('k, 'a) server_world_scheme \<Rightarrow> ('k, 'a) server_world_scheme res" where
  "newTcpServer K c lp listenAddr name reusePort w =
     bindR (checkLoopNotNull lp) (\<lambda>L.
     bindR (toIpPort listenAddr) (\<lambda>ip.
     bindR (newAcceptor K c L listenAddr reusePort w) (\<lambda>(a, w).
       Inr (w\<lparr>server :=
         \<lparr>srv_loop = L, ipPort = ip, srv_name = name,
          srv_acceptor = a\<lparr>has_newConnectionCallback := True\<rparr>, threadPool = newThreadPool L name,
          srv_connectionCallback = None, srv_messageCallback = None, srv_writeCompleteCallback = None,
          threadInitCallback = None, srv_started = 0, connections = Map.empty, nextConnId = 1\<rparr>\<rparr>))))"

definition server_setThreadNum ::
    "int \<Rightarrow> ('k, 'a) server_world_scheme \<Rightarrow> ('k, 'a) server_world_scheme" where
  "server_setThreadNum n = modify_server (\<lambda>s. s\<lparr>threadPool := setThreadNum n (threadPool s)\<rparr>)"

definition server_listen ::
    "'k kernel \<Rightarrow> ('k, 'a) server_world_scheme \<Rightarrow> ('k, 'a) server_world_scheme res" where
  "server_listen K w =
     bindR (acceptor_listen K (srv_acceptor (server w)) w) (\<lambda>(a, w).
       Inr (modify_server (\<lambda>s. s\<lparr>srv_acceptor := a\<rparr>) w))"

text \<open>\<open>init\<close> is what the thread-initialisation callback does; it is called if one is set.\<close>

definition server_start ::
    "'k kernel \<Rightarrow> bool \<Rightarrow> (nat \<Rightarrow> loop_ptr \<Rightarrow> ('k, 'a) server_world_scheme \<Rightarrow> ('k, 'a) server_world_scheme res)
     \<Rightarrow> thread_env \<Rightarrow> ('k, 'a) server_world_scheme \<Rightarrow> ('k, 'a) server_world_scheme res" where
  "server_start K use_poll init env w =
     (let s = server w; w = modify_server (\<lambda>s. s\<lparr>srv_started := srv_started s + 1\<rparr>) w
      in if srv_started s = 0
         then bindR (pool_start K use_poll (map_option init (threadInitCallback s)) env (threadPool s)
                      (num_created w) w) (\<lambda>(p, num, w).
              let w = modify_server (\<lambda>s. s\<lparr>threadPool := p\<rparr>) (w\<lparr>num_created := num\<rparr>)
              in runInLoop K (srv_loop s) AcceptorListen (server_listen K) w)
         else Inr w)"

section \<open>Removing a connection\<close>

definition removeConnectionInLoop ::
    "'k kernel \<Rightarrow> conn_ptr \<Rightarrow> ('k, 'a) server_world_scheme \<Rightarrow> ('k, 'a) server_world_scheme res" where
  "removeConnectionInLoop K x w =
     bindR (deref (conns w) x) (\<lambda>co.
       let w = modify_server (\<lambda>s. s\<lparr>connections := (connections s)(conn_name co := None)\<rparr>) w
       in queueInLoop K (conn_loop co) (ConnectDestoryed x) w)"

definition removeConnection ::
    "'k kernel \<Rightarrow> conn_ptr \<Rightarrow> ('k, 'a) server_world_scheme \<Rightarrow> ('k, 'a) server_world_scheme res" where
  "removeConnection K x w =
     runInLoop K (srv_loop (server w)) (RemoveConnectionInLoop x) (removeConnectionInLoop K x) w"

text \<open>The user's callbacks with the close callback the server binds.\<close>

definition server_callbacks ::
    "'k kernel \<Rightarrow> ('k, 'a) server_world_scheme user_callbacks \<Rightarrow> ('k, 'a) server_world_scheme user_callbacks" where
  "server_callbacks K U =
     U\<lparr>on_close := \<lambda>cb x w. case cb of
         ServerRemoveConnection \<Rightarrow> removeConnection K x w
       | UserClose i \<Rightarrow> on_close U (UserClose i) x w\<rparr>"

section \<open>A new connection\<close>

definition connection_name :: "string \<Rightarrow> int \<Rightarrow> string res" where
  "connection_name ip i = bindR (fmt_int i) (\<lambda>s. Inr (ip @ ''#'' @ s))"

definition newConnection ::
    "'k kernel \<Rightarrow> ('k, 'a) server_world_scheme user_callbacks
     \<Rightarrow> (('k, 'a) server_world_scheme \<Rightarrow> conn_ptr \<times> chan_ptr) \<Rightarrow> fd \<Rightarrow> sockaddr_in
     \<Rightarrow> ('k, 'a) server_world_scheme \<Rightarrow> ('k, 'a) server_world_scheme res" where
  "newConnection K U alloc sockfd peerAddr w =
     bindR (getNextLoop (threadPool (server w))) (\<lambda>(ioLoop, p).
       let w = modify_server (\<lambda>s. s\<lparr>threadPool := p\<rparr>) w
       in case ioLoop of
            None \<Rightarrow> Inl NullDeref
          | Some L \<Rightarrow>
              bindR (deref (loops w) L) (\<lambda>_.
              bindR (connection_name (ipPort (server w)) (nextConnId (server w))) (\<lambda>connName.
                let w = modify_server (\<lambda>s. s\<lparr>nextConnId := nextConnId s + 1\<rparr>) w;
                    ((r, addr), k) = sys_getsockname K sockfd (kst w);
                    localAddr = (if r < 0 then zero_addr else addr);
                    w = w\<lparr>kst := k\<rparr>;
                    (x, c) = alloc w
                in bindR (newTcpConnection K x c (Some L) connName sockfd localAddr peerAddr w) (\<lambda>w.
                     let w = modify_server (\<lambda>s. s\<lparr>connections := (connections s)(connName \<mapsto> x)\<rparr>) w;
                         s = server w;
                         w = modify_conn x (\<lambda>co. co\<lparr>connectionCallback := srv_connectionCallback s,
                               messageCallback := srv_messageCallback s,
                               writeCompleteCallback := srv_writeCompleteCallback s,
                               conn_closeCallback := Some ServerRemoveConnection\<rparr>) w
                     in runInLoop K L (ConnectEstablished x)
                          (connectEstablished K (server_callbacks K U) x) w))))"

section \<open>What functors and channel callbacks run\<close>

definition exec ::
    "'k kernel \<Rightarrow> ('k, 'a) server_world_scheme user_callbacks
     \<Rightarrow> (nat \<Rightarrow> ('k, 'a) server_world_scheme \<Rightarrow> ('k, 'a) server_world_scheme res)
     \<Rightarrow> ('k, 'a) server_world_scheme exec" where
  "exec K U user f w =
     (case f of
        ConnectEstablished x \<Rightarrow> connectEstablished K (server_callbacks K U) x w
      | ConnectDestoryed x \<Rightarrow> connectDestoryed K (server_callbacks K U) x w
      | SendInLoop x a len \<Rightarrow> sendInLoop K x a len w
      | ShutdownInLoop x \<Rightarrow> shutdownInLoop K x w
      | WriteCompleteCb i x \<Rightarrow> on_writeComplete U i x w
      | HighWaterMarkCb i x n \<Rightarrow> on_highWaterMark U i x n w
      | RemoveConnectionInLoop x \<Rightarrow> removeConnectionInLoop K x w
      | AcceptorListen \<Rightarrow> server_listen K w
      | UserFunctor i \<Rightarrow> user i w)"

definition run_chan_cb ::
    "'k kernel \<Rightarrow> ('k, 'a) server_world_scheme user_callbacks
     \<Rightarrow> (('k, 'a) server_world_scheme \<Rightarrow> conn_ptr \<times> chan_ptr) \<Rightarrow> chan_cb \<Rightarrow> timestamp
     \<Rightarrow> ('k, 'a) server_world_scheme \<Rightarrow> ('k, 'a) server_world_scheme res" where
  "run_chan_cb K U alloc f t w =
     (case f of
        WakeupHandleRead L \<Rightarrow> loop_handleRead K L w
      | AcceptorHandleRead \<Rightarrow> acceptor_handleRead K (newConnection K U alloc) (srv_acceptor (server w)) w
      | ConnHandleRead x \<Rightarrow> conn_handleRead K (server_callbacks K U) x t w
      | ConnHandleWrite x \<Rightarrow> conn_handleWrite K x w
      | ConnHandleClose x \<Rightarrow> conn_handleClose K (server_callbacks K U) x w
      | ConnHandleError x \<Rightarrow> conn_handleError K x w)"

section \<open>Ownership\<close>

text \<open>
  The connection a functor keeps alive: the sources bind a \<open>shared_ptr\<close> into it, except for
  \<open>sendInLoop\<close> and \<open>shutdownInLoop\<close>, which bind the plain \<open>this\<close>.
\<close>

fun holds :: "functor_t \<Rightarrow> conn_ptr list" where
  "holds (ConnectEstablished x) = [x]"
| "holds (ConnectDestoryed x) = [x]"
| "holds (SendInLoop x a len) = []"
| "holds (ShutdownInLoop x) = []"
| "holds (WriteCompleteCb i x) = [x]"
| "holds (HighWaterMarkCb i x n) = [x]"
| "holds (RemoveConnectionInLoop x) = [x]"
| "holds AcceptorListen = []"
| "holds (UserFunctor i) = []"

definition server_loops :: "('k, 'a) server_world_scheme \<Rightarrow> loop_ptr list" where
  "server_loops w = srv_loop (server w) # pool_loops (threadPool (server w))"

definition in_connections :: "conn_ptr \<Rightarrow> ('k, 'a) server_world_scheme \<Rightarrow> bool" where
  "in_connections x w \<longleftrightarrow>
     (case conns w x of None \<Rightarrow> False | Some co \<Rightarrow> connections (server w) (conn_name co) = Some x)"

definition owned :: "conn_ptr \<Rightarrow> ('k, 'a) server_world_scheme \<Rightarrow> bool" where
  "owned x w \<longleftrightarrow>
     in_connections x w \<or> x \<in> set (user_refs w) \<or>
     (\<exists>L\<in>set (server_loops w). \<exists>f\<in>set (pendings w L). x \<in> set (holds f))"

text \<open>A \<open>shared_ptr\<close> to \<open>x\<close> goes out of scope: the last one destroys the connection.\<close>

definition release ::
    "'k kernel \<Rightarrow> conn_ptr \<Rightarrow> ('k, 'a) server_world_scheme \<Rightarrow> ('k, 'a) server_world_scheme res" where
  "release K x w = (if conns w x = None \<or> owned x w then Inr w else destroyTcpConnection K x w)"

fun release_all ::
    "'k kernel \<Rightarrow> conn_ptr list \<Rightarrow> ('k, 'a) server_world_scheme \<Rightarrow> ('k, 'a) server_world_scheme res" where
  "release_all K [] w = Inr w"
| "release_all K (x # xs) w = bindR (release K x w) (release_all K xs)"

text \<open>\<open>Channel::handleEvent\<close> with the guard it holds, and a drain with the vector of functors it holds.\<close>

definition server_handleEvent ::
    "'k kernel \<Rightarrow> ('k, 'a) server_world_scheme user_callbacks
     \<Rightarrow> (('k, 'a) server_world_scheme \<Rightarrow> conn_ptr \<times> chan_ptr) \<Rightarrow> chan_ptr \<Rightarrow> timestamp
     \<Rightarrow> ('k, 'a) server_world_scheme \<Rightarrow> ('k, 'a) server_world_scheme res" where
  "server_handleEvent K U alloc c t w =
     bindR (deref (chans w) c) (\<lambda>ch.
     bindR (handleEvent owned (run_chan_cb K U alloc) c t w) (\<lambda>w.
       case m_tie ch of None \<Rightarrow> Inr w | Some x \<Rightarrow> release K x w))"

definition server_drain ::
    "'k kernel \<Rightarrow> ('k, 'a) server_world_scheme user_callbacks
     \<Rightarrow> (nat \<Rightarrow> ('k, 'a) server_world_scheme \<Rightarrow> ('k, 'a) server_world_scheme res) \<Rightarrow> loop_ptr
     \<Rightarrow> ('k, 'a) server_world_scheme \<Rightarrow> ('k, 'a) server_world_scheme res" where
  "server_drain K U user L w =
     (let funcs = pendings w L
      in bindR (doPendingFunctors (exec K U user) L w) (release_all K (concat (map holds funcs))))"

definition server_iteration ::
    "'k kernel \<Rightarrow> ('k, 'a) server_world_scheme user_callbacks
     \<Rightarrow> (nat \<Rightarrow> ('k, 'a) server_world_scheme \<Rightarrow> ('k, 'a) server_world_scheme res)
     \<Rightarrow> (('k, 'a) server_world_scheme \<Rightarrow> conn_ptr \<times> chan_ptr) \<Rightarrow> loop_ptr
     \<Rightarrow> ('k, 'a) server_world_scheme \<Rightarrow> ('k, 'a) server_world_scheme res" where
  "server_iteration K U user alloc L w =
     bindR (poll_phase K L w) (\<lambda>w.
     bindR (deref (loops w) L) (\<lambda>l.
     bindR (handle_active (server_handleEvent K U alloc) (m_pollReturnTime l) (m_activeChannels l) w)
       (server_drain K U user L)))"

section \<open>Destruction\<close>

text \<open>The body of the destructor; \<open>items\<close> are the entries of \<open>connections_\<close> in iteration order.\<close>

fun destroy_conns ::
    "'k kernel \<Rightarrow> (string \<times> conn_ptr) list \<Rightarrow> ('k, 'a) server_world_scheme
     \<Rightarrow> ('k, 'a) server_world_scheme res" where
  "destroy_conns K [] w = Inr w"
| "destroy_conns K ((name, x) # items) w =
     bindR (deref (conns w) x) (\<lambda>co.
     bindR (queueInLoop K (conn_loop co) (ConnectDestoryed x)
             (modify_server (\<lambda>s. s\<lparr>connections := (connections s)(name := None)\<rparr>) w))
       (destroy_conns K items))"

fun destroy_threads ::
    "'k kernel \<Rightarrow> (loop_ptr \<Rightarrow> ('k, 'a) server_world_scheme \<Rightarrow> ('k, 'a) server_world_scheme res)
     \<Rightarrow> event_loop_thread list \<Rightarrow> ('k, 'a) server_world_scheme \<Rightarrow> ('k, 'a) server_world_scheme res" where
  "destroy_threads K rest [] w = Inr w"
| "destroy_threads K rest (e # es) w =
     bindR (destroyEventLoopThread K rest e w) (destroy_threads K rest es)"

text \<open>Then the members: the pool with its threads, and the acceptor.\<close>

definition destroyTcpServer ::
    "'k kernel \<Rightarrow> (loop_ptr \<Rightarrow> ('k, 'a) server_world_scheme \<Rightarrow> ('k, 'a) server_world_scheme res)
     \<Rightarrow> (string \<times> conn_ptr) list \<Rightarrow> ('k, 'a) server_world_scheme \<Rightarrow> ('k, 'a) server_world_scheme res" where
  "destroyTcpServer K rest items w =
     bindR (destroy_conns K items w) (\<lambda>w.
     bindR (destroy_threads K rest (pool_threads (threadPool (server w))) w) (\<lambda>w.
       destroyAcceptor K (srv_acceptor (server w)) w))"

section \<open>Facts about the server record\<close>

lemma modify_server_sel [simp]:
  "server (modify_server f w) = f (server w)" "conns (modify_server f w) = conns w"
  "loops (modify_server f w) = loops w" "chans (modify_server f w) = chans w"
  "pollers (modify_server f w) = pollers w" "kst (modify_server f w) = kst w"
  "mem (modify_server f w) = mem w" "cur_tid (modify_server f w) = cur_tid w"
  "user_refs (modify_server f w) = user_refs w"
  by (simp_all add: modify_server_def)

section \<open>Names of connections\<close>

definition names_ok :: "tcp_server \<Rightarrow> bool" where
  "names_ok s \<longleftrightarrow> 1 \<le> nextConnId s \<and>
     (\<forall>name x. connections s name = Some x \<longrightarrow>
        (\<exists>i. 1 \<le> i \<and> i < nextConnId s \<and> name = ipPort s @ ''#'' @ show_int i))"

lemma connection_name_eq:
  "1 \<le> i \<Longrightarrow> i < 2 ^ 31 \<Longrightarrow> connection_name ip i = Inr (ip @ ''#'' @ show_int i)"
  by (simp add: connection_name_def fmt_int_eq)

lemma names_ok_fresh:
  "names_ok s \<Longrightarrow> connections s (ipPort s @ ''#'' @ show_int (nextConnId s)) = None"
  by (cases "connections s (ipPort s @ ''#'' @ show_int (nextConnId s))")
    (auto simp: names_ok_def show_int_inject)

lemma names_ok_insert:
  assumes "names_ok s"
  shows "names_ok (s\<lparr>connections := (connections s)(ipPort s @ ''#'' @ show_int (nextConnId s) \<mapsto> x),
                     nextConnId := nextConnId s + 1\<rparr>)"
  using assms by (fastforce simp: names_ok_def)

section \<open>A new connection\<close>

definition accepted_conn :: "loop_ptr \<Rightarrow> string \<Rightarrow> fd \<Rightarrow> tcp_server \<Rightarrow> tcp_conn \<Rightarrow> bool" where
  "accepted_conn L name f s co \<longleftrightarrow>
     conn_loop co = L \<and> conn_name co = name \<and> conn_fd co = f \<and> m_state co = kConnecting \<and>
     connectionCallback co = srv_connectionCallback s \<and> messageCallback co = srv_messageCallback s \<and>
     writeCompleteCallback co = srv_writeCompleteCallback s \<and>
     conn_closeCallback co = Some ServerRemoveConnection \<and>
     contents (m_inputBuffer co) = [] \<and> contents (m_outputBuffer co) = []"

lemma newConnection_eq:
  assumes sel: "getNextLoop (threadPool (server w)) = Inr (Some L, p)" and l: "loops w L \<noteq> None"
    and id: "1 \<le> nextConnId (server w)" "nextConnId (server w) < 2 ^ 31"
  shows "\<exists>w1 x c co ch. newConnection K U alloc f peer w =
      runInLoop K L (ConnectEstablished x) (connectEstablished K (server_callbacks K U) x) w1 \<and>
    conns w1 = (conns w)(x \<mapsto> co) \<and> chans w1 = (chans w)(c \<mapsto> ch) \<and>
    accepted_conn L (ipPort (server w) @ ''#'' @ show_int (nextConnId (server w))) f (server w) co \<and>
    conn_chan co = c \<and> m_fd ch = f \<and> chan_loop ch = L \<and>
    server w1 = (server w)\<lparr>threadPool := p, nextConnId := nextConnId (server w) + 1,
      connections := (connections (server w))
        (ipPort (server w) @ ''#'' @ show_int (nextConnId (server w)) \<mapsto> x)\<rparr> \<and>
    loops w1 = loops w \<and> cur_tid w1 = cur_tid w \<and> pollers w1 = pollers w"
proof -
  obtain r addr k where g: "sys_getsockname K f (kst w) = ((r, addr), k)" by (metis surj_pair)
  let ?w = "(modify_server (\<lambda>s. s\<lparr>nextConnId := nextConnId s + 1\<rparr>)
      (modify_server (\<lambda>s. s\<lparr>threadPool := p\<rparr>) w))\<lparr>kst := k\<rparr>"
  obtain x c where a: "alloc ?w = (x, c)" by fastforce
  from l obtain lr where lr: "loops w L = Some lr" by blast
  let ?name = "ipPort (server w) @ ''#'' @ show_int (nextConnId (server w))"
  let ?local = "if r < 0 then zero_addr else addr"
  obtain w0 where w0: "newTcpConnection K x c (Some L) ?name f ?local peer ?w = Inr w0"
    by (simp add: newTcpConnection_def checkLoopNotNull_def Let_def)
  let ?s = "server w"
  let ?w1 = "modify_conn x (\<lambda>co. co\<lparr>connectionCallback := srv_connectionCallback ?s,
                               messageCallback := srv_messageCallback ?s,
                               writeCompleteCallback := srv_writeCompleteCallback ?s,
                               conn_closeCallback := Some ServerRemoveConnection\<rparr>)
      (modify_server (\<lambda>s. s\<lparr>connections := (connections s)(?name \<mapsto> x)\<rparr>) w0)"
  have f0: "server w0 = server ?w" "loops w0 = loops w" "cur_tid w0 = cur_tid w" "pollers w0 = pollers w"
    using w0 by (auto simp: newTcpConnection_def checkLoopNotNull_def Let_def)
  have call: "newConnection K U alloc f peer w =
      runInLoop K L (ConnectEstablished x) (connectEstablished K (server_callbacks K U) x) ?w1"
    using sel lr g a w0 f0(1) connection_name_eq [OF id]
    by (simp add: newConnection_def Let_def)
  obtain co ch where c0: "conns w0 = (conns w)(x \<mapsto> co)" "chans w0 = (chans w)(c \<mapsto> ch)"
    "conn_loop co = L" "conn_name co = ?name" "conn_fd co = f" "m_state co = kConnecting" "conn_chan co = c"
    "contents (m_inputBuffer co) = []" "contents (m_outputBuffer co) = []" "m_fd ch = f" "chan_loop ch = L"
    using w0 by (auto simp: newTcpConnection_def checkLoopNotNull_def Let_def newChannel_def)
  have s1: "server ?w1 = (server w)\<lparr>threadPool := p, nextConnId := nextConnId (server w) + 1,
      connections := (connections (server w))(?name \<mapsto> x)\<rparr>"
    using f0(1) by (simp add: modify_conn_def)
  show ?thesis
    apply (rule exI [of _ ?w1], rule exI [of _ x], rule exI [of _ c])
    apply (rule exI [of _ "co\<lparr>connectionCallback := srv_connectionCallback ?s,
                               messageCallback := srv_messageCallback ?s,
                               writeCompleteCallback := srv_writeCompleteCallback ?s,
                               conn_closeCallback := Some ServerRemoveConnection\<rparr>"])
    apply (rule exI [of _ ch])
    using call s1 c0 f0 by (simp add: accepted_conn_def)
qed

lemma newConnection_not_started:
  "pool_loops (threadPool (server w)) = [] \<Longrightarrow> newConnection K U alloc f peer w = Inl NullDeref"
  by (simp add: newConnection_def getNextLoop_def Let_def)

section \<open>Functors only append to the queues\<close>

lemma queues_grow_modify_server [simp]: "queues_grow w (modify_server f w)"
  by (rule queues_grow_same) simp

lemma removeConnectionInLoop_grows: "removeConnectionInLoop K x w = Inr w' \<Longrightarrow> queues_grow w w'"
  by (auto simp: removeConnectionInLoop_def Let_def dest!: conns_queueInLoop(5)
      intro: conn_queues.R_trans [OF queues_grow_modify_server])

lemma removeConnection_grows: "removeConnection K x w = Inr w' \<Longrightarrow> queues_grow w w'"
  by (auto simp: removeConnection_def runInLoop_def split: if_splits
      dest: removeConnectionInLoop_grows conns_queueInLoop(5))

lemma server_callbacks_grow:
  assumes "user_keeps queues_grow U"
  shows "user_keeps queues_grow (server_callbacks K U)"
  unfolding user_keeps_def server_callbacks_def
  using user_keepsD [OF assms] by (auto split: close_cb.splits dest: removeConnection_grows)

lemma server_listen_grows: "server_listen K w = Inr w' \<Longrightarrow> queues_grow w w'"
proof -
  assume "server_listen K w = Inr w'"
  then obtain k w1 a where w1: "enableReading K (acc_chan (srv_acceptor (server w))) (w\<lparr>kst := k\<rparr>) = Inr w1"
    "w' = modify_server (\<lambda>s. s\<lparr>srv_acceptor := a\<rparr>) w1"
    by (auto simp: server_listen_def acceptor_listen_def Let_def)
  have "queues_grow w (w\<lparr>kst := k\<rparr>)" by (rule conn_queues.R_kst)
  moreover have "queues_grow (w\<lparr>kst := k\<rparr>) w1"
    using w1(1) unfolding enableReading_def by (rule conn_queues.R_events)
  moreover have "queues_grow w1 w'" using w1(2) by simp
  ultimately show ?thesis by (blast intro: conn_queues.R_trans)
qed

lemma exec_grows:
  assumes U: "user_keeps queues_grow U" and user: "\<And>i w w'. user i w = Inr w' \<Longrightarrow> queues_grow w w'"
    and e: "exec K U user f w = Inr w'"
  shows "queues_grow w w'"
proof -
  note S = server_callbacks_grow [OF U, of K]
  have "queues_grow w (setState x kConnected w)" for x
    by (rule queues_grow_same) (simp add: setState_def)
  from e show ?thesis
    by (cases f) (auto simp: exec_def intro: user conn_queues.connectDestoryed_R [OF S]
        conn_queues.connectEstablished_R [OF S queues_grow_same] conn_queues.sendInLoop_R
        conn_queues.shutdownInLoop_R user_keepsD [OF U] removeConnectionInLoop_grows server_listen_grows
        simp: setState_def)
qed

lemma exec_appending:
  assumes "user_keeps queues_grow U" and "\<And>i w w'. user i w = Inr w' \<Longrightarrow> queues_grow w w'"
  shows "appending (exec K U user) L"
  unfolding appending_def
proof (intro allI impI)
  fix f w w'
  assume "exec K U user f w = Inr w'" and "loops w L \<noteq> None"
  then obtain l where l: "loops w L = Some l" by blast
  from exec_grows [OF assms \<open>exec K U user f w = Inr w'\<close>] have "queues_grow w w'" .
  with l obtain l' new where "loops w' L = Some l'" "m_pendingFunctors l' = m_pendingFunctors l @ new"
    unfolding queues_grow_def by blast
  with l show "loops w' L \<noteq> None \<and> (\<exists>new. pendings w' L = pendings w L @ new)"
    by (simp add: pendings_def)
qed

section \<open>Connections only advance\<close>

lemma removeConnectionInLoop_conns:
  "removeConnectionInLoop K x w = Inr w' \<Longrightarrow> conns w' = conns w"
  by (auto simp: removeConnectionInLoop_def Let_def dest!: conns_queueInLoop(1))

lemma removeConnection_conns: "removeConnection K x w = Inr w' \<Longrightarrow> conns w' = conns w"
  by (auto simp: removeConnection_def runInLoop_def split: if_splits
      dest: removeConnectionInLoop_conns conns_queueInLoop(1))

lemma server_callbacks_advance:
  assumes "user_keeps advances U"
  shows "user_keeps advances (server_callbacks K U)"
  unfolding user_keeps_def server_callbacks_def
  using user_keepsD [OF assms]
  by (auto split: close_cb.splits dest: removeConnection_conns intro: advances_same)

lemma server_listen_conns: "server_listen K w = Inr w' \<Longrightarrow> conns w' = conns w"
  by (auto simp: server_listen_def acceptor_listen_def enableReading_def Let_def
      dest!: conn_fields_more(1) [OF more_update_events])

lemma exec_advances:
  assumes U: "user_keeps advances U" and user: "\<And>i w w'. user i w = Inr w' \<Longrightarrow> advances w w'"
    and once: "\<And>x. f = ConnectEstablished x \<Longrightarrow> conn_state w x = Some kConnecting"
    and e: "exec K U user f w = Inr w'"
  shows "advances w w'"
proof -
  note S = server_callbacks_advance [OF U, of K]
  from e show ?thesis
    by (cases f) (auto simp: exec_def intro: user conn_life.connectDestoryed_R [OF S]
        conn_life.connectEstablished_R [OF S conn_life.R_state [OF once life.established]]
        conn_life.sendInLoop_R conn_life.shutdownInLoop_R user_keepsD [OF U]
        advances_same dest: removeConnectionInLoop_conns server_listen_conns)
qed

lemma run_conn_cb_advances:
  assumes U: "user_keeps advances U" and f: "f \<noteq> AcceptorHandleRead"
    and e: "run_chan_cb K U alloc f t w = Inr w'"
  shows "advances w w'"
proof -
  note S = server_callbacks_advance [OF U, of K]
  from e f show ?thesis
    by (cases f) (auto simp: run_chan_cb_def loop_handleRead_def split: prod.splits
        intro: conn_life.handleRead_R [OF S] conn_life.handleWrite_R conn_life.handleClose_R [OF S]
          conn_life.handleError_R conn_life.R_kst)
qed

lemma life_disconnected_stays: "life\<^sup>*\<^sup>* kDisconnected s \<Longrightarrow> s = kDisconnected"
  by (induction rule: rtranclp_induct) (auto elim: life_from_disconnected)

section \<open>From close to destruction\<close>

text \<open>
  A server with one loop, running in its thread: the peer closes, the connection leaves the map and
  is queued for destruction, and the drain that follows takes its descriptor out of the poller,
  destroys it and closes the descriptor. The connection callback here leaves the world as it is.
\<close>

definition idle_callback :: "('k, 'a) server_world_scheme user_callbacks \<Rightarrow> bool" where
  "idle_callback U \<longleftrightarrow> (\<forall>i x w. on_connection U i x w = Inr w)"

lemma removeConnectionInLoop_ok:
  assumes at: "conn_at reg x co ch w" and io: "io_contract K reg"
  shows "\<exists>w'. removeConnectionInLoop K x w = Inr w' \<and> conn_at reg x co ch w' \<and>
    server w' = (server w)\<lparr>connections := (connections (server w))(conn_name co := None)\<rparr> \<and>
    pendings w' = (pendings w)(conn_loop co := pendings w (conn_loop co) @ [ConnectDestoryed x]) \<and>
    cur_tid w' = cur_tid w \<and> user_refs w' = user_refs w"
proof -
  let ?w = "modify_server (\<lambda>s. s\<lparr>connections := (connections s)(conn_name co := None)\<rparr>) w"
  from at obtain l where l: "loops w (conn_loop co) = Some l" "m_wakeupFd l \<noteq> conn_fd co"
    by (auto simp: conn_at_def)
  let ?w' = "?w\<lparr>loops := (loops w)(conn_loop co \<mapsto> l\<lparr>m_pendingFunctors := m_pendingFunctors l @ [ConnectDestoryed x]\<rparr>),
           kst := if wakes l ?w then snd (sys_write K (m_wakeupFd l) eventfd_one (kst w)) else kst w\<rparr>"
  have "queueInLoop K (conn_loop co) (ConnectDestoryed x) ?w = Inr ?w'"
    using queueInLoop_eq [of ?w "conn_loop co" l K "ConnectDestoryed x"] l by simp
  then have "removeConnectionInLoop K x w = Inr ?w'"
    using at by (simp add: removeConnectionInLoop_def conn_at_def)
  moreover have "conn_at reg x co ch ?w'"
    using at l poller_inv_cong [of reg "conn_loop co" w ?w'] usable_cong [of "conn_loop co" w "conn_chan co" ?w']
      io_reg(1) [OF io]
    by (auto simp: conn_at_def)
  moreover have "pendings ?w' = (pendings w)(conn_loop co := pendings w (conn_loop co) @ [ConnectDestoryed x])"
    using l by (auto simp: pendings_def fun_eq_iff)
  ultimately show ?thesis by (intro exI [of _ ?w']) simp
qed

lemma server_fields_more:
  assumes "poll_world.more w' = poll_world.more (w :: ('k, 'a) server_world_scheme)"
  shows "server w' = server w" and "user_refs w' = user_refs w" and "loops w' = loops w"
    and "cur_tid w' = cur_tid w" and "conns w' = conns w"
  using assms by (cases w; cases w'; simp)+

text \<open>A connection of a single-loop server, that only the server's map owns.\<close>

definition served_alone ::
    "('k \<Rightarrow> fd \<Rightarrow> fd \<Rightarrow> epoll_event option) \<Rightarrow> conn_ptr \<Rightarrow> tcp_conn \<Rightarrow> channel
     \<Rightarrow> ('k, 'a) server_world_scheme \<Rightarrow> bool" where
  "served_alone reg x co ch w \<longleftrightarrow>
     conn_at reg x co ch w \<and> m_index ch = kAdded \<and> connectionCallback co \<noteq> None \<and>
     conn_closeCallback co = Some ServerRemoveConnection \<and>
     set (server_loops w) = {conn_loop co} \<and> connections (server w) (conn_name co) = Some x \<and>
     x \<notin> set (user_refs w) \<and> pendings w (conn_loop co) = [] \<and>
     (\<exists>l. loops w (conn_loop co) = Some l \<and> m_threadId l = cur_tid w)"

lemma close_ok:
  assumes K: "epoll_contract K reg" "io_contract K reg" and idle: "idle_callback U"
    and at: "served_alone reg x co ch w"
  shows "\<exists>w' ch'. conn_handleClose K (server_callbacks K U) x w = Inr w' \<and>
    conn_at reg x (co\<lparr>m_state := kDisconnected\<rparr>) ch' w' \<and>
    server w' = (server w)\<lparr>connections := (connections (server w))(conn_name co := None)\<rparr> \<and>
    pendings w' (conn_loop co) = [ConnectDestoryed x] \<and> user_refs w' = user_refs w"
proof -
  let ?L = "conn_loop co" and ?co = "co\<lparr>m_state := kDisconnected\<rparr>" and ?S = "server_callbacks K U"
  from at have a: "conn_at reg x co ch w" "m_index ch = kAdded" "set (server_loops w) = {?L}"
    "pendings w ?L = []" by (simp_all add: served_alone_def)
  from at obtain i l where i: "connectionCallback co = Some i"
    "conn_closeCallback co = Some ServerRemoveConnection" "loops w ?L = Some l" "m_threadId l = cur_tid w"
    by (auto simp: served_alone_def)
  from handleClose_ok [OF K(1) a(1,2), of ?S] obtain w1 ch1 where w1:
    "conn_handleClose K ?S x w = bindR (call_fn (connectionCallback co) (\<lambda>i. on_connection ?S i x w1)) (\<lambda>w.
      bindR (deref (conns w) x) (\<lambda>co. call_fn (conn_closeCallback co) (\<lambda>i. on_close ?S i x w)))"
    "conn_at reg x ?co ch1 w1" "poll_world.more w1 = poll_world.more (setState x kDisconnected w)"
    by blast
  have idS: "on_connection ?S i x v = Inr v" for v
    using idle by (simp add: idle_callback_def server_callbacks_def)
  have f1: "server w1 = server w" "user_refs w1 = user_refs w" "loops w1 = loops w" "cur_tid w1 = cur_tid w"
    using server_fields_more [OF w1(3)] by (simp_all add: setState_def modify_conn_def)
  have sl: "srv_loop (server w) = ?L" using a(3) by (auto simp: server_loops_def)
  have "conn_handleClose K ?S x w = removeConnection K x w1"
    using w1(1,2) i(1,2) idS by (simp add: call_fn_def conn_at_def server_callbacks_def)
  also have "\<dots> = removeConnectionInLoop K x w1"
    using f1 sl i(3,4) by (simp add: removeConnection_def runInLoop_def isInLoopThread_def)
  finally have call: "conn_handleClose K ?S x w = removeConnectionInLoop K x w1" .
  have p1: "pendings w1 = pendings w" by (rule pendings_cong [OF f1(3)])
  from removeConnectionInLoop_ok [OF w1(2) K(2)] obtain w' where w':
    "removeConnectionInLoop K x w1 = Inr w'" "conn_at reg x ?co ch1 w'"
    "server w' = (server w1)\<lparr>connections := (connections (server w1))(conn_name ?co := None)\<rparr>"
    "pendings w' = (pendings w1)(conn_loop ?co := pendings w1 (conn_loop ?co) @ [ConnectDestoryed x])"
    "user_refs w' = user_refs w1" by blast
  with call f1 p1 a(4) show ?thesis by (intro exI [of _ w'] exI [of _ ch1]) simp
qed

lemma release_all_Nil: "release_all K [] = Inr"
  by (simp add: fun_eq_iff)

lemma drain_destroys:
  assumes K: "epoll_contract K reg" and at: "conn_at reg x co ch w" and st: "m_state co \<noteq> kConnected"
    and q: "pendings w (conn_loop co) = [ConnectDestoryed x]"
    and free: "set (server_loops w) = {conn_loop co}" "connections (server w) (conn_name co) = None"
      "x \<notin> set (user_refs w)"
  shows "\<exists>w' k p. server_drain K U user (conn_loop co) w = Inr w' \<and> conns w' x = None \<and>
    chans w' (conn_chan co) = None \<and> kst w' = sys_close K (conn_fd co) k \<and>
    pollers w' (conn_loop co) = Some p \<and> m_channels p (conn_fd co) = None"
proof -
  let ?L = "conn_loop co"
  from at obtain l where l: "loops w ?L = Some l" "m_wakeupFd l \<noteq> conn_fd co" by (auto simp: conn_at_def)
  let ?w1 = "w\<lparr>loops := (loops w)(?L \<mapsto> l\<lparr>m_callingPendingFunctors := True, m_pendingFunctors := []\<rparr>)\<rparr>"
  have at1: "conn_at reg x co ch ?w1"
    using at l poller_inv_cong [of reg ?L w ?w1] usable_cong [of ?L w "conn_chan co" ?w1]
    by (auto simp: conn_at_def)
  from connectDestoryed_disconnected [OF K at1 st, of "server_callbacks K U"] obtain w2 p where w2:
    "connectDestoryed K (server_callbacks K U) x ?w1 = Inr w2"
    "conn_at reg x co (ch\<lparr>m_index := kNew\<rparr>) w2" "pollers w2 ?L = Some p" "m_channels p (conn_fd co) = None"
    "poll_world.more w2 = poll_world.more ?w1" by blast
  note f2 = server_fields_more [OF w2(5)]
  let ?w3 = "modify_loop ?L (\<lambda>l. l\<lparr>m_callingPendingFunctors := False\<rparr>) w2"
  have d: "doPendingFunctors (exec K U user) ?L w = Inr ?w3"
    using doPendingFunctors_eq [OF l(1), of "exec K U user"] q w2(1) f2(3)
    by (simp add: exec_def set_calling_def)
  have f3: "server ?w3 = server w" "user_refs ?w3 = user_refs w" "conns ?w3 = conns w"
    using f2 by (simp_all add: modify_loop_def)
  have "pendings ?w3 ?L = []" using f2(3) l by (simp add: pendings_def)
  then have "\<not> owned x ?w3"
    using free at f3 by (auto simp: owned_def in_connections_def server_loops_def conn_at_def)
  then have "release_all K (holds (ConnectDestoryed x)) ?w3 = destroyTcpConnection K x ?w3"
    using at f3 by (simp add: release_def conn_at_def release_all_Nil del: release_all.simps(1))
  also have "\<dots> = Inr (?w3\<lparr>chans := (chans ?w3)(conn_chan co := None),
      kst := sock_destroy K (conn_fd co) (kst ?w3), conns := (conns ?w3)(x := None)\<rparr>)"
    using at f3 by (simp add: destroyTcpConnection_def conn_at_def)
  finally have "server_drain K U user ?L w = Inr (?w3\<lparr>chans := (chans ?w3)(conn_chan co := None),
      kst := sock_destroy K (conn_fd co) (kst ?w3), conns := (conns ?w3)(x := None)\<rparr>)"
    using d q by (simp add: server_drain_def)
  with w2(3,4) show ?thesis
    by (intro exI [of _ "?w3\<lparr>chans := (chans ?w3)(conn_chan co := None),
      kst := sock_destroy K (conn_fd co) (kst ?w3), conns := (conns ?w3)(x := None)\<rparr>"]
        exI [of _ "kst ?w3"] exI [of _ p]) (simp add: sock_destroy_def)
qed

lemma close_then_drain:
  assumes K: "epoll_contract K reg" "io_contract K reg" and idle: "idle_callback U"
    and at: "served_alone reg x co ch w"
  shows "\<exists>w' k p. bindR (conn_handleClose K (server_callbacks K U) x w) (server_drain K U user (conn_loop co)) = Inr w' \<and>
    conns w' x = None \<and> chans w' (conn_chan co) = None \<and> kst w' = sys_close K (conn_fd co) k \<and>
    pollers w' (conn_loop co) = Some p \<and> m_channels p (conn_fd co) = None"
proof -
  from close_ok [OF K idle at] obtain w1 ch1 where w1:
    "conn_handleClose K (server_callbacks K U) x w = Inr w1"
    "conn_at reg x (co\<lparr>m_state := kDisconnected\<rparr>) ch1 w1"
    "server w1 = (server w)\<lparr>connections := (connections (server w))(conn_name co := None)\<rparr>"
    "pendings w1 (conn_loop co) = [ConnectDestoryed x]" "user_refs w1 = user_refs w" by blast
  from at have a: "set (server_loops w) = {conn_loop co}" "x \<notin> set (user_refs w)" 
    by (simp_all add: served_alone_def)
  have "set (server_loops w1) = {conn_loop co}" using a(1) w1(3) by (simp add: server_loops_def)
  with drain_destroys [OF K(1) w1(2), of U user] w1 a(2) show ?thesis by simp
qed

section \<open>Start\<close>

lemma server_start_again:
  "srv_started (server w) \<noteq> 0 \<Longrightarrow>
   server_start K up init env w = Inr (modify_server (\<lambda>s. s\<lparr>srv_started := srv_started s + 1\<rparr>) w)"
  by (simp add: server_start_def)

section \<open>Destruction queues every connection\<close>

lemma server_queueInLoop:
  fixes w :: "('k, 'a) server_world_scheme"
  assumes "queueInLoop K L g w = Inr w'"
  shows "server w' = server w"
proof -
  from assms obtain l where l: "loops w L = Some l"
    by (auto simp: queueInLoop_def queue_push_def)
  from assms queueInLoop_eq [OF l, of K g] show ?thesis by auto
qed

lemma destroy_conns_none:
  "destroy_conns K items w = Inr w' \<Longrightarrow> connections (server w) name = None \<Longrightarrow>
   connections (server w') name = None"
  by (induction items arbitrary: w) (auto dest!: server_queueInLoop)

lemma destroy_conns_ok:
  assumes "\<forall>(name, x) \<in> set items. \<exists>co. conns w x = Some co \<and> loops w (conn_loop co) \<noteq> None"
  shows "\<exists>w'. destroy_conns K items w = Inr w' \<and>
    (\<forall>L. pendings w' L = pendings w L @
       map (\<lambda>(name, x). ConnectDestoryed x)
         (filter (\<lambda>(name, x). map_option conn_loop (conns w x) = Some L) items)) \<and>
    (\<forall>(name, x) \<in> set items. connections (server w') name = None)"
  using assms
proof (induction items arbitrary: w)
  case Nil
  then show ?case by simp
next
  case (Cons item items)
  obtain name x where i: "item = (name, x)" by fastforce
  from Cons.prems i obtain co where co: "conns w x = Some co" "loops w (conn_loop co) \<noteq> None" by auto
  let ?w = "modify_server (\<lambda>s. s\<lparr>connections := (connections s)(name := None)\<rparr>) w"
  from co have "loop_alive ?w (conn_loop co)" by (simp add: loop_alive_def)
  from loopq.push_ok [OF this, where f = "ConnectDestoryed x" and K = K] obtain w1 where w1:
    "queueInLoop K (conn_loop co) (ConnectDestoryed x) ?w = Inr w1" "loop_alive w1 = loop_alive ?w"
    "pendings w1 = (pendings ?w)(conn_loop co := pendings ?w (conn_loop co) @ [ConnectDestoryed x])" by blast
  have c1: "conns w1 = conns w" using conns_queueInLoop(1) [OF w1(1)] by simp
  have alive: "loops w1 M \<noteq> None \<longleftrightarrow> loops w M \<noteq> None" for M
    using fun_cong [OF w1(2), of M] by (simp add: loop_alive_def)
  have "\<forall>(name, x) \<in> set items. \<exists>co. conns w1 x = Some co \<and> loops w1 (conn_loop co) \<noteq> None"
    using Cons.prems c1 alive by auto
  from Cons.IH [OF this] obtain w' where w': "destroy_conns K items w1 = Inr w'"
    "\<forall>L. pendings w' L = pendings w1 L @ map (\<lambda>(name, x). ConnectDestoryed x)
         (filter (\<lambda>(name, x). map_option conn_loop (conns w1 x) = Some L) items)"
    "\<forall>(name, x) \<in> set items. connections (server w') name = None" by blast
  have p: "pendings ?w = pendings w" by (rule pendings_cong) simp
  have "connections (server w1) name = None" using server_queueInLoop [OF w1(1)] by simp
  then have "connections (server w') name = None" by (rule destroy_conns_none [OF w'(1)])
  with i co w1 w' c1 p show ?case by (intro exI [of _ w']) auto
qed

section \<open>Event handling only appends to the queues\<close>

lemma established_grows:
  assumes U: "user_keeps queues_grow U"
    and e: "runInLoop K L (ConnectEstablished x) (connectEstablished K (server_callbacks K U) x) w1 = Inr w'"
    and l: "loops w1 = loops w"
  shows "queues_grow w w'"
proof -
  have "queues_grow w1 (setState x kConnected w1)"
    by (rule queues_grow_same) (simp add: setState_def)
  then have "queues_grow w1 w'"
    using e conn_queues.connectEstablished_R [OF server_callbacks_grow [OF U], where w = w1 and x = x and K = K and w' = w']
      conns_queueInLoop(5) [where K = K and L = L and g = "ConnectEstablished x" and w = w1 and w' = w']
    by (auto simp: runInLoop_def split: if_splits)
  with queues_grow_same [OF l] show ?thesis by (rule conn_queues.R_trans)
qed

lemma newConnection_grows:
  assumes U: "user_keeps queues_grow U" and e: "newConnection K U alloc f peer w = Inr w'"
  shows "queues_grow w w'"
  using e by (auto simp: newConnection_def newTcpConnection_def checkLoopNotNull_def Let_def
        split: prod.splits option.splits) (erule established_grows [OF U], simp)

lemma acceptor_handleRead_grows:
  assumes U: "user_keeps queues_grow U"
    and e: "acceptor_handleRead K (newConnection K U alloc) a w = Inr w'"
  shows "queues_grow w w'"
proof -
  obtain fd p err k where s: "sock_accept K (acc_fd a) zero_addr (kst w) = ((fd, p, err), k)"
    by (metis surj_pair)
  have k: "queues_grow w (w\<lparr>kst := k\<rparr>)" by (rule conn_queues.R_kst)
  show ?thesis
  proof (cases "0 \<le> fd \<and> has_newConnectionCallback a")
    case True
    with e s have "newConnection K U alloc fd p (w\<lparr>kst := k\<rparr>) = Inr w'"
      by (simp add: acceptor_handleRead_def)
    from conn_queues.R_trans [OF k newConnection_grows [OF U this]] show ?thesis .
  next
    case False
    with e s have "loops w' = loops w" by (auto simp: acceptor_handleRead_def Let_def split: if_splits)
    then show ?thesis by (rule queues_grow_same)
  qed
qed

lemma run_chan_cb_grows:
  assumes U: "user_keeps queues_grow U" and e: "run_chan_cb K U alloc f t w = Inr w'"
  shows "queues_grow w w'"
proof -
  note S = server_callbacks_grow [OF U, of K]
  from e show ?thesis
    by (cases f) (auto simp: run_chan_cb_def loop_handleRead_def split: prod.splits
        intro: conn_queues.handleRead_R [OF S] conn_queues.handleWrite_R conn_queues.handleClose_R [OF S]
          conn_queues.handleError_R conn_queues.R_kst acceptor_handleRead_grows [OF U])
qed

lemma dispatch_grows:
  assumes run: "\<forall>f t w w'. run f t w = Inr w' \<longrightarrow> queues_grow w w'"
    and e: "dispatch run cond cb c t w = Inr w'"
  shows "queues_grow w w'"
  using e run by (auto simp: dispatch_def split: if_splits option.splits intro: conn_queues.R_refl)

lemma handleEvent_grows:
  assumes run: "\<And>f t w w'. run f t w = Inr w' \<Longrightarrow> queues_grow w w'"
    and e: "handleEvent own run c t w = Inr w'"
  shows "queues_grow w w'"
proof -
  have r: "\<forall>f t w w'. run f t w = Inr w' \<longrightarrow> queues_grow w w'" using run by blast
  note d = dispatch_grows [OF r]
  have g: "queues_grow v v'" if h: "handelEventWithGuard run c t v = Inr v'" for v v'
  proof -
    from h obtain v1 v2 v3 where v: "dispatch run closeCond m_closeCallback c t v = Inr v1"
      "dispatch run errorCond m_errorCallback c t v1 = Inr v2"
      "dispatch run readCond m_readCallback c t v2 = Inr v3"
      "dispatch run writeCond m_writeCallback c t v3 = Inr v'"
      by (auto simp: handelEventWithGuard_def)
    show ?thesis
      by (rule conn_queues.R_trans [OF d [OF v(1)] conn_queues.R_trans [OF d [OF v(2)]
        conn_queues.R_trans [OF d [OF v(3)] d [OF v(4)]]]])
  qed
  from e show ?thesis
    by (auto simp: handleEvent_def split: if_splits option.splits intro: g conn_queues.R_refl)
qed

lemma release_grows: "release K x w = Inr w' \<Longrightarrow> queues_grow w w'"
  by (auto simp: release_def destroyTcpConnection_def split: if_splits
      intro: conn_queues.R_refl queues_grow_same)

lemma server_handleEvent_grows:
  assumes U: "user_keeps queues_grow U" and e: "server_handleEvent K U alloc c t w = Inr w'"
  shows "queues_grow w w'"
proof -
  from e obtain ch :: channel and w1 where w1: "handleEvent owned (run_chan_cb K U alloc) c t w = Inr w1"
    "(case m_tie ch of None \<Rightarrow> Inr w1 | Some x \<Rightarrow> release K x w1) = Inr w'"
    by (auto simp: server_handleEvent_def)
  have "queues_grow w w1" by (rule handleEvent_grows [OF run_chan_cb_grows [OF U] w1(1)])
  moreover have "queues_grow w1 w'"
    using w1(2) release_grows [of K _ w1 w'] conn_queues.R_refl by (auto split: option.splits)
  ultimately show ?thesis by (rule conn_queues.R_trans)
qed

lemma server_handleEvent_tame:
  assumes "user_keeps queues_grow U"
  shows "tame L (server_handleEvent K U alloc c t)"
  unfolding tame_def using server_handleEvent_grows [OF assms] unfolding queues_grow_def by blast

end
