(* ===== verification/Demo.thy ===== *)
theory Demo
  imports TcpServer
begin

text \<open>
  A small kernel that satisfies every contract, and concrete worlds, for the witnesses: descriptor 4 is
  an event counter, any other descriptor a socket that takes at most \<open>d_limit\<close> bytes of a write and
  delivers the bytes of \<open>d_input\<close>.
\<close>

section \<open>A kernel\<close>

record demo_kst =
  d_reg :: "fd \<Rightarrow> fd \<Rightarrow> epoll_event option"
  d_next :: nat
  d_count :: nat
  d_limit :: nat
  d_wire :: "fd \<Rightarrow> byte list"
  d_input :: "byte list"
  d_ready :: "(fd \<times> u32) list"
  d_fin :: "fd list"
  d_closed :: "fd list"

definition demo_eventfd :: fd where "demo_eventfd = 4"

definition demo_ctl :: "fd \<Rightarrow> ctl_op \<Rightarrow> fd \<Rightarrow> epoll_event \<Rightarrow> demo_kst \<Rightarrow> int \<times> demo_kst" where
  "demo_ctl ep op f ev k =
     (if (op = EPOLL_CTL_ADD) = (d_reg k ep f = None)
      then (0, k\<lparr>d_reg := (d_reg k)(ep := (d_reg k ep)(f := if op = EPOLL_CTL_DEL then None else Some ev))\<rparr>)
      else (-1, k))"

definition demo_write :: "fd \<Rightarrow> byte list \<Rightarrow> demo_kst \<Rightarrow> (size_t \<times> errno) \<times> demo_kst" where
  "demo_write f xs k =
     (if f = demo_eventfd
      then (if d_count k + 1 < 2 ^ 64 - 1 then ((8, 0), k\<lparr>d_count := d_count k + 1\<rparr>) else ((-1, 11), k))
      else (let n = min (min (length xs) (d_limit k)) 1000000
            in ((of_nat n, 0), k\<lparr>d_wire := (d_wire k)(f := d_wire k f @ take n xs)\<rparr>)))"

definition demo_read :: "fd \<Rightarrow> size_t \<Rightarrow> demo_kst \<Rightarrow> (int \<times> byte list \<times> errno) \<times> demo_kst" where
  "demo_read f n k =
     (if f = demo_eventfd \<and> 0 < d_count k then ((8, eventfd_one, 0), k\<lparr>d_count := 0\<rparr>)
      else ((-1, [], 11), k))"

definition demo_readv :: "fd \<Rightarrow> size_t list \<Rightarrow> demo_kst \<Rightarrow> (size_t \<times> byte list \<times> errno) \<times> demo_kst" where
  "demo_readv f iov k =
     (let n = min (min (length (d_input k)) (sum_list (map unat iov))) 1000000
      in ((of_nat n, take n (d_input k), 0), k\<lparr>d_input := drop n (d_input k)\<rparr>))"

definition demo_wait :: "fd \<Rightarrow> nat \<Rightarrow> int \<Rightarrow> demo_kst \<Rightarrow> (int \<times> epoll_event list \<times> errno) \<times> demo_kst" where
  "demo_wait ep m t k =
     (let evs = take m (List.map_filter (\<lambda>(f, ev). map_option (\<lambda>(mask, c). (ev, c)) (d_reg k ep f)) (d_ready k))
      in ((int (length evs), evs, 0), k\<lparr>d_ready := []\<rparr>))"

definition demo_kernel :: "demo_kst kernel" where
  "demo_kernel =
     \<lparr>sys_epoll_create1 = (\<lambda>k. ((100 + int (d_next k), 0),
        k\<lparr>d_next := d_next k + 1, d_reg := (d_reg k)(100 + int (d_next k) := Map.empty)\<rparr>)),
      sys_epoll_ctl = demo_ctl, sys_epoll_wait = demo_wait,
      sys_eventfd = (\<lambda>k. (demo_eventfd, k)),
      sys_readv = demo_readv, sys_read = demo_read, sys_write = demo_write,
      sys_socket = (\<lambda>k. (9, k)), sys_bind = (\<lambda>f a k. (0, k)), sys_listen = (\<lambda>f n k. (0, k)),
      sys_accept4 = (\<lambda>f k. ((7, zero_addr, 0), k)),
      sys_shutdown_wr = (\<lambda>f k. (0, k\<lparr>d_fin := f # d_fin k\<rparr>)),
      sys_setsockopt = (\<lambda>f opt v k. (0, k)), sys_getsockname = (\<lambda>f k. ((0, zero_addr), k)),
      sys_so_error = (\<lambda>f k. ((0, 0, 0), k)), sys_close = (\<lambda>f k. k\<lparr>d_closed := f # d_closed k\<rparr>),
      sys_now = (\<lambda>k. (1700000000, k))\<rparr>"

lemma demo_kernel_sel [simp]:
  "sys_epoll_ctl demo_kernel = demo_ctl" "sys_epoll_wait demo_kernel = demo_wait"
  "sys_readv demo_kernel = demo_readv" "sys_read demo_kernel = demo_read"
  "sys_write demo_kernel = demo_write"
  "sys_shutdown_wr demo_kernel = (\<lambda>f k. (0, k\<lparr>d_fin := f # d_fin k\<rparr>))"
  "sys_so_error demo_kernel = (\<lambda>f k. ((0, 0, 0), k))"
  "sys_now demo_kernel = (\<lambda>k. (1700000000, k))"
  "sys_eventfd demo_kernel = (\<lambda>k. (demo_eventfd, k))"
  "sys_epoll_create1 demo_kernel = (\<lambda>k. ((100 + int (d_next k), 0),
        k\<lparr>d_next := d_next k + 1, d_reg := (d_reg k)(100 + int (d_next k) := Map.empty)\<rparr>))"
  "sys_getsockname demo_kernel = (\<lambda>f k. ((0, zero_addr), k))"
  "sys_close demo_kernel = (\<lambda>f k. k\<lparr>d_closed := f # d_closed k\<rparr>)"
  "sys_listen demo_kernel = (\<lambda>f n k. (0, k))"
  by (simp_all add: demo_kernel_def)

section \<open>It meets the contracts\<close>

lemma demo_epoll: "epoll_contract demo_kernel d_reg"
  unfolding epoll_contract_def by (auto simp: demo_ctl_def)

lemma demo_io: "io_contract demo_kernel d_reg"
  by (simp add: io_contract_def demo_write_def demo_readv_def demo_read_def Let_def)

lemma demo_readv_ok: "readv_contract (sys_readv demo_kernel f)"
  unfolding readv_contract_def
proof (intro allI impI)
  fix iov :: "size_t list" and k n d e k'
  assume "sys_readv demo_kernel f iov k = ((n, d, e), k')"
  then have n: "n = of_nat (min (min (length (d_input k)) (sum_list (map unat iov))) 1000000)"
      "d = take (min (min (length (d_input k)) (sum_list (map unat iov))) 1000000) (d_input k)"
    by (auto simp: demo_readv_def Let_def)
  have "min (min (length (d_input k)) (sum_list (map unat iov))) 1000000 \<le> max_object"
    by (simp add: max_object_def)
  moreover have "min (min (length (d_input k)) (sum_list (map unat iov))) 1000000 \<le> sum_list (map unat iov)"
    by (simp add: min.coboundedI1 min.coboundedI2)
  ultimately show "n = -1 \<and> d = [] \<or> unat n = length d \<and> length d \<le> sum_list (map unat iov)" using n by auto
qed

lemma demo_write_ok:
  assumes "f \<noteq> demo_eventfd"
  shows "write_contract demo_kernel (\<lambda>k. d_wire k f) f"
  unfolding write_contract_def
proof (intro allI impI)
  fix xs k n e k'
  assume "sys_write demo_kernel f xs k = ((n, e), k')"
  then have n: "n = of_nat (min (min (length xs) (d_limit k)) 1000000)"
      "d_wire k' f = d_wire k f @ take (min (min (length xs) (d_limit k)) 1000000) xs"
    using assms by (auto simp: demo_write_def Let_def)
  have "min (min (length xs) (d_limit k)) 1000000 \<le> max_object"
    by (simp add: max_object_def)
  with n have "unat n = min (min (length xs) (d_limit k)) 1000000" by simp
  moreover have "min (min (length xs) (d_limit k)) 1000000 \<le> length xs"
    by (simp add: min.coboundedI1)
  ultimately show "n = -1 \<and> d_wire k' f = d_wire k f \<or>
      unat n \<le> length xs \<and> d_wire k' f = d_wire k f @ take (unat n) xs" using n(2) by simp
qed

lemma demo_quiet: "quiet_contract demo_kernel (\<lambda>k. d_wire k f) f"
  by (auto simp: quiet_contract_def demo_ctl_def demo_write_def Let_def)

lemma demo_conn_kernel:
  "f \<noteq> demo_eventfd \<Longrightarrow> conn_kernel demo_kernel d_reg (\<lambda>k. d_wire k f) f"
  by (simp add: conn_kernel_def demo_epoll demo_io demo_write_ok demo_quiet)

lemma demo_eventfd_ok: "eventfd_contract demo_kernel d_count demo_eventfd"
  unfolding eventfd_contract_def
  by (auto simp: demo_write_def demo_read_def eventfd_one_def split: if_splits)

lemma demo_startup: "startup_contract demo_kernel d_reg"
  by (simp add: startup_contract_def demo_eventfd_def)

lemma demo_wait_ok: "epoll_wait_contract demo_kernel d_reg"
  unfolding epoll_wait_contract_def
proof (intro conjI allI impI)
  fix ep m t k r evs e k'
  assume "sys_epoll_wait demo_kernel ep m t k = ((r, evs, e), k')"
  then have r: "evs = take m (List.map_filter (\<lambda>(f, ev). map_option (\<lambda>(mask, c). (ev, c)) (d_reg k ep f)) (d_ready k))"
      "r = int (length evs)" "k' = k\<lparr>d_ready := []\<rparr>"
    by (auto simp: demo_wait_def Let_def)
  then show "int (length evs) = max r 0" "length evs \<le> m" "d_reg k' = d_reg k" by simp_all
  have "\<exists>f mask. d_reg k ep f = Some (mask, c)" if "(ev, c) \<in> set evs" for ev c
    using that unfolding r(1) by (auto dest!: in_set_takeD simp: List.map_filter_def split: prod.splits) blast
  then show "\<forall>(ev, c)\<in>set evs. \<exists>f mask. d_reg k ep f = Some (mask, c)" by blast
qed simp

section \<open>A server with one loop and one connection\<close>

text \<open>
  Loop 0 (epoll instance 3, event counter 4, thread 100) and the connection 5 with channel 2 on
  descriptor 7, read interest registered. \<open>out\<close> is the output still to be written.
\<close>

definition demo_kst0 :: demo_kst where
  "demo_kst0 =
     \<lparr>d_reg = (\<lambda>_. Map.empty)(3 := [7 \<mapsto> (3, 2)]), d_next = 0, d_count = 0, d_limit = 4,
      d_wire = (\<lambda>_. []), d_input = [104, 105], d_ready = [(7, 1)], d_fin = [], d_closed = []\<rparr>"

definition demo_loop :: event_loop where
  "demo_loop =
     \<lparr>m_looping = True, m_quit = False, m_threadId = 100, m_pollReturnTime = 0, m_wakeupFd = demo_eventfd,
      m_wakeupChannel = 1, m_activeChannels = [], m_callingPendingFunctors = False,
      m_pendingFunctors = [], loop_name = ''base''\<rparr>"

definition demo_chan :: channel where
  "demo_chan =
     \<lparr>chan_loop = 0, m_fd = 7, m_events = 3, m_revents = 0, m_index = 1, m_tie = Some 5, m_tied = True,
      m_readCallback = Some (ConnHandleRead 5), m_writeCallback = Some (ConnHandleWrite 5),
      m_closeCallback = Some (ConnHandleClose 5), m_errorCallback = Some (ConnHandleError 5)\<rparr>"

definition demo_conn :: tcp_conn where
  "demo_conn =
     \<lparr>conn_loop = 0, conn_name = ''127.0.0.1:80#1'', m_state = kConnected, m_reading = True, conn_fd = 7,
      conn_chan = 2, m_localAddr = zero_addr, m_peerAddr = zero_addr, connectionCallback = Some 0,
      messageCallback = Some 0, conn_closeCallback = Some ServerRemoveConnection,
      writeCompleteCallback = Some 0, highWaterMarkCallback = None, m_highWaterMark = 67108864,
      m_inputBuffer = newBuffer kInitialSize, m_outputBuffer = newBuffer kInitialSize\<rparr>"

definition demo_pool :: thread_pool where
  "demo_pool = (newThreadPool 0 ''demo'')\<lparr>pool_started := True, pool_loops := [0]\<rparr>"

definition demo_server :: tcp_server where
  "demo_server =
     \<lparr>srv_loop = 0, ipPort = ''127.0.0.1:80'', srv_name = ''demo'',
      srv_acceptor = \<lparr>acc_loop = 0, acc_fd = 6, acc_chan = 3, listening = True,
                     has_newConnectionCallback = True\<rparr>,
      threadPool = demo_pool, srv_connectionCallback = Some 0, srv_messageCallback = Some 0,
      srv_writeCompleteCallback = Some 0, threadInitCallback = None, srv_started = 1,
      connections = [''127.0.0.1:80#1'' \<mapsto> 5], nextConnId = 2\<rparr>"

definition demo_world :: "(demo_kst, unit) server_world_scheme" where
  "demo_world =
     \<lparr>chans = [2 \<mapsto> demo_chan], kst = demo_kst0,
      pollers = [0 \<mapsto> \<lparr>m_epfd = 3, m_evlist = replicate 16 (0, 0), m_channels = [7 \<mapsto> 2]\<rparr>],
      loops = [0 \<mapsto> demo_loop], cur_tid = 100, t_loopInThisThread = (\<lambda>_. None)(100 := Some 0),
      conns = [5 \<mapsto> demo_conn], mem = [9 \<mapsto> [104, 101, 108, 108, 111]], server = demo_server,
      num_created = 0, user_refs = []\<rparr>"

lemma demo_world_sel [simp]:
  "chans demo_world = [2 \<mapsto> demo_chan]" "kst demo_world = demo_kst0"
  "pollers demo_world = [0 \<mapsto> \<lparr>m_epfd = 3, m_evlist = replicate 16 (0, 0), m_channels = [7 \<mapsto> 2]\<rparr>]"
  "loops demo_world = [0 \<mapsto> demo_loop]" "cur_tid demo_world = 100" "conns demo_world = [5 \<mapsto> demo_conn]"
  "mem demo_world = [9 \<mapsto> [104, 101, 108, 108, 111]]" "server demo_world = demo_server"
  "user_refs demo_world = []"
  by (simp_all add: demo_world_def)

lemma demo_poller_inv: "poller_inv d_reg 0 demo_world"
  by (auto simp: poller_inv_def booked_def interest_def demo_chan_def demo_kst0_def kNew_def kAdded_def
      fun_eq_iff)

lemma demo_usable: "usable 0 demo_world 2"
  by (simp add: usable_def demo_chan_def kNew_def)

lemma demo_conn_at: "conn_at d_reg 5 demo_conn demo_chan demo_world"
  using demo_poller_inv demo_usable
  by (simp add: conn_at_def demo_conn_def demo_loop_def demo_chan_def demo_eventfd_def isWriting_def
      kWriteEvent_val)

lemma demo_message: "message_at demo_world 9 [104, 101, 108, 108, 111]"
  by (simp add: message_at_def max_object_def)

lemma newBuffer_room: "fits n (newBuffer m)" if "n \<le> 1024"
  using that by (simp add: fits_def newBuffer_def writableBytes_def kCheapPrepend_def kInitialSize_def)

lemma demo_served: "served_alone d_reg 5 demo_conn demo_chan demo_world"
  using demo_conn_at
  by (simp add: served_alone_def demo_conn_def demo_chan_def kAdded_def server_loops_def demo_server_def
      demo_pool_def newThreadPool_def demo_loop_def pendings_def)

text \<open>User callbacks that do nothing.\<close>

definition idle_user :: "'w user_callbacks" where
  "idle_user =
     \<lparr>on_connection = (\<lambda>i x w. Inr w), on_message = (\<lambda>i x t w. Inr w), on_close = (\<lambda>i x w. Inr w),
      on_writeComplete = (\<lambda>i x w. Inr w), on_highWaterMark = (\<lambda>i x n w. Inr w)\<rparr>"

lemma idle_user_keeps: "(\<And>w. R w w) \<Longrightarrow> user_keeps R idle_user"
  by (simp add: user_keeps_def idle_user_def)

lemma idle_user_idle: "idle_callback idle_user"
  by (simp add: idle_callback_def idle_user_def)

lemma demo_write_never_fails: "f \<noteq> demo_eventfd \<Longrightarrow> write_ok demo_kernel f xs k"
proof -
  assume f: "f \<noteq> demo_eventfd"
  obtain n e k' where w: "sys_write demo_kernel f xs k = ((n, e), k')" by (metis surj_pair)
  let ?m = "min (min (length xs) (d_limit k)) 1000000"
  have "?m \<le> 1000000" by simp
  moreover have n: "n = of_nat ?m" using w f by (simp add: demo_write_def Let_def)
  moreover have "unat (of_nat ?m :: size_t) = ?m" by (rule unat_of_nat_size) (simp add: max_object_def)
  ultimately have "unat n \<le> 1000000" by simp
  moreover have "1000000 < unat (-1 :: size_t)" by (simp add: unsigned_minus_1_eq_mask mask_eq_exp_minus_1)
  ultimately have "n \<noteq> -1" by (metis leD)
  with w show ?thesis by (simp add: write_ok_def)
qed

text \<open>A send of five bytes, of which the socket takes four, and the writable event that follows.\<close>

lemma demo_fd: "conn_fd demo_conn = 7" "(7 :: fd) \<noteq> demo_eventfd"
  by (simp_all add: demo_conn_def demo_eventfd_def)

lemma demo_open: "m_state demo_conn \<noteq> kDisconnected" "m_state demo_conn = kConnected"
  by (simp_all add: demo_conn_def)

lemma demo_direct: "direct demo_conn demo_chan"
  by (simp add: direct_def demo_chan_def isWriting_def kWriteEvent_val demo_conn_def newBuffer_def
      readableBytes_def)

lemma demo_K: "conn_kernel demo_kernel d_reg (\<lambda>k. d_wire k 7) (conn_fd demo_conn)"
  using demo_conn_kernel demo_fd by simp

lemma demo_room: "n \<le> 1024 \<Longrightarrow> fits n (m_outputBuffer demo_conn)"
  by (simp add: demo_conn_def newBuffer_room)

lemma demo_write_four:
  "sys_write demo_kernel 7 [104, 101, 108, 108, 111] demo_kst0 =
    ((4, 0), demo_kst0\<lparr>d_wire := (d_wire demo_kst0)(7 := [104, 101, 108, 108])\<rparr>)"
  by (simp add: demo_write_def demo_eventfd_def demo_kst0_def)

lemma demo_sent:
  "\<exists>w1 co1 ch1. sendInLoop demo_kernel 5 9 5 demo_world = Inr w1 \<and> conn_at d_reg 5 co1 ch1 w1 \<and>
    co1 = demo_conn\<lparr>m_outputBuffer := m_outputBuffer co1\<rparr> \<and> contents (m_outputBuffer co1) = [111] \<and>
    d_wire (kst w1) 7 = [104, 101, 108, 108] \<and> isWriting ch1"
proof -
  have w: "sys_write demo_kernel (conn_fd demo_conn) [104, 101, 108, 108, 111] (kst demo_world) =
    ((4, 0), demo_kst0\<lparr>d_wire := (d_wire demo_kst0)(7 := [104, 101, 108, 108])\<rparr>)"
    using demo_write_four demo_fd by simp
  have n: "(4 :: size_t) \<noteq> -1" and l: "unat (5 :: size_t) = length [104, 101, 108, 108, 111 :: byte]" by simp_all
  have r: "fits (length [104, 101, 108, 108, 111 :: byte]) (m_outputBuffer demo_conn)"
    by (rule demo_room) simp
  from sendInLoop_direct [OF demo_K demo_conn_at demo_open(1) demo_direct demo_message l r w n]
  obtain w1 co1 ch1 where s: "sendInLoop demo_kernel 5 9 5 demo_world = Inr w1"
    "conn_at d_reg 5 co1 ch1 w1" "co1 = demo_conn\<lparr>m_outputBuffer := m_outputBuffer co1\<rparr>"
    "contents (m_outputBuffer co1) = [111]" "d_wire (kst w1) 7 = [104, 101, 108, 108]"
    by (auto simp: demo_kst0_def)
  have "m_state co1 \<noteq> kDisconnected" by (subst s(3)) (simp add: demo_open)
  with s have "isWriting ch1" by (simp add: conn_at_def)
  with s show ?thesis by blast
qed

lemma demo_run: "\<exists>w2. stream_run demo_kernel 5 demo_world [[104, 101, 108, 108, 111]] w2"
proof -
  from demo_sent obtain w1 co1 ch1 where s: "sendInLoop demo_kernel 5 9 5 demo_world = Inr w1"
    "conn_at d_reg 5 co1 ch1 w1" "co1 = demo_conn\<lparr>m_outputBuffer := m_outputBuffer co1\<rparr>" "isWriting ch1"
    by blast
  have f: "conn_fd co1 = 7" "m_state co1 \<noteq> kDisconnected"
    by (subst s(3), simp add: demo_fd demo_open)+
  have K1: "conn_kernel demo_kernel d_reg (\<lambda>k. d_wire k 7) (conn_fd co1)"
    unfolding f by (rule demo_conn_kernel) (rule demo_fd)
  have ok: "write_ok demo_kernel (conn_fd co1) (contents (m_outputBuffer co1)) (kst w1)"
    unfolding f by (rule demo_write_never_fails) (rule demo_fd)
  from handleWrite_ok [OF K1 s(2) f(2) s(4) ok] obtain w2 where
    h: "conn_handleWrite demo_kernel 5 w1 = Inr w2" by blast
  have "stream_run demo_kernel 5 w1 [] w2"
    using conn_at_conns [OF s(2)] by (intro stream_run.writable [OF _ _ s(4) ok h stream_run.stop]) simp_all
  then have r: "stream_run demo_kernel 5 w1 [] w2" .
  let ?m = "[104, 101, 108, 108, 111] :: byte list"
  have ok1: "write_ok demo_kernel (conn_fd demo_conn) ?m (kst demo_world)"
    unfolding demo_fd by (rule demo_write_never_fails) (rule demo_fd)
  have c: "conns demo_world 5 = Some demo_conn" "chans demo_world (conn_chan demo_conn) = Some demo_chan"
    using conn_at_conns [OF demo_conn_at] by simp_all
  have l: "unat (5 :: size_t) = length ?m" by simp
  have f5: "fits (length ?m) (m_outputBuffer demo_conn)" by (rule demo_room) simp
  have "stream_run demo_kernel 5 demo_world [?m] w2"
    by (rule stream_run.sends [OF c demo_message l f5 impI s(1) r]) (rule ok1)
  then show ?thesis ..
qed

section \<open>The same connection with two bytes left to write\<close>

definition demo_out :: buffer where
  "demo_out = \<lparr>m_buffer = replicate 8 0 @ [111, 112] @ replicate 1022 0, m_readerIdx = 8, m_writerIdx = 10\<rparr>"

definition busy_chan :: channel where
  "busy_chan = demo_chan\<lparr>m_events := 7\<rparr>"

definition busy_conn :: "StateE \<Rightarrow> tcp_conn" where
  "busy_conn s = demo_conn\<lparr>m_state := s, m_outputBuffer := demo_out\<rparr>"

definition busy_kst :: demo_kst where
  "busy_kst = demo_kst0\<lparr>d_reg := (\<lambda>_. Map.empty)(3 := [7 \<mapsto> (7, 2)])\<rparr>"

definition busy_world :: "StateE \<Rightarrow> (demo_kst, unit) server_world_scheme" where
  "busy_world s = demo_world\<lparr>kst := busy_kst, chans := [2 \<mapsto> busy_chan], conns := [5 \<mapsto> busy_conn s]\<rparr>"

lemma demo_out_contents [simp]: "contents demo_out = [111, 112]" "buffer_inv demo_out"
  by (simp_all add: contents_def buffer_inv_def demo_out_def readableBytes_def max_object_def)

lemma busy_conn_at: "conn_at d_reg 5 (busy_conn s) busy_chan (busy_world s)"
proof -
  have "poller_inv d_reg 0 (busy_world s)"
    by (auto simp: poller_inv_def booked_def interest_def busy_chan_def demo_chan_def busy_kst_def
        busy_world_def kNew_def kAdded_def fun_eq_iff)
  moreover have "usable 0 (busy_world s) 2"
    by (simp add: usable_def busy_chan_def demo_chan_def busy_world_def kNew_def)
  moreover have "isWriting busy_chan"
    by (simp add: busy_chan_def isWriting_def kWriteEvent_val)
  ultimately show ?thesis
    by (simp add: conn_at_def busy_conn_def busy_world_def busy_chan_def demo_conn_def demo_loop_def
        demo_chan_def demo_eventfd_def)
qed

lemma busy_writing: "isWriting busy_chan"
  by (simp add: busy_chan_def isWriting_def kWriteEvent_val)

lemma busy_sel [simp]:
  "conn_fd (busy_conn s) = 7" "m_state (busy_conn s) = s" "m_outputBuffer (busy_conn s) = demo_out"
  "conn_loop (busy_conn s) = 0" "conn_chan (busy_conn s) = 2" "kst (busy_world s) = busy_kst"
  "writeCompleteCallback (busy_conn s) = Some 0" "highWaterMarkCallback (busy_conn s) = None"
  "mem (busy_world s) = mem demo_world" "loops (busy_world s) = [0 \<mapsto> demo_loop]"
  "cur_tid (busy_world s) = 100"
  by (simp_all add: busy_conn_def busy_world_def demo_conn_def)

lemma busy_K: "conn_kernel demo_kernel d_reg (\<lambda>k. d_wire k 7) (conn_fd (busy_conn s))"
  using demo_conn_kernel demo_fd by simp

lemma busy_write:
  "sys_write demo_kernel 7 [111, 112] busy_kst =
    ((2, 0), busy_kst\<lparr>d_wire := (d_wire busy_kst)(7 := [111, 112])\<rparr>)"
  by (simp add: demo_write_def demo_eventfd_def busy_kst_def demo_kst0_def)

section \<open>A kernel whose writes fail, and connections without completion callbacks\<close>

definition stuck_kernel :: "demo_kst kernel" where
  "stuck_kernel = demo_kernel\<lparr>sys_write := \<lambda>f xs k. ((-1, EWOULDBLOCK), k)\<rparr>"

lemma stuck_K: "conn_kernel stuck_kernel d_reg (\<lambda>k. d_wire k f) f"
proof -
  have "epoll_contract stuck_kernel d_reg"
    using demo_epoll by (simp add: epoll_contract_def stuck_kernel_def)
  moreover have "io_contract stuck_kernel d_reg"
    using demo_io by (simp add: io_contract_def stuck_kernel_def)
  moreover have "quiet_contract stuck_kernel (\<lambda>k. d_wire k f) f"
    using demo_quiet [of f] by (simp add: quiet_contract_def stuck_kernel_def)
  ultimately show ?thesis by (simp add: conn_kernel_def write_contract_def stuck_kernel_def)
qed

definition silent_conn :: "tcp_conn \<Rightarrow> tcp_conn" where
  "silent_conn co = co\<lparr>writeCompleteCallback := None, highWaterMarkCallback := None\<rparr>"

definition silent_world :: "tcp_conn \<Rightarrow> (demo_kst, unit) server_world_scheme \<Rightarrow> (demo_kst, unit) server_world_scheme" where
  "silent_world co w = w\<lparr>conns := [5 \<mapsto> silent_conn co]\<rparr>"

lemma silent_conn_at: "conn_at d_reg 5 co ch w \<Longrightarrow> conn_at d_reg 5 (silent_conn co) ch (silent_world co w)"
  by (erule conn_at_same) (simp_all add: silent_conn_def silent_world_def)

end
