(* ===== verification/LogLevel.thy ===== *)
theory LogLevel
  imports Dwt_Prelude
begin

text \<open>
  Levels and messages of the logging library: \<open>level_enum\<close> of \<open>spdlog/common.h\<close> with its names
  (\<open>common-inl.h\<close>), \<open>source_loc\<close>, and \<open>details/log_msg.h\<close>. The library compares levels as the integers
  of the enumeration, here an instance of \<open>linorder\<close>.
\<close>

section \<open>Levels\<close>

datatype level_enum = trace | debug | info | warn | err | critical | off

primrec level_value :: "level_enum \<Rightarrow> int" where
  "level_value trace = 0"
| "level_value debug = 1"
| "level_value info = 2"
| "level_value warn = 3"
| "level_value err = 4"
| "level_value critical = 5"
| "level_value off = 6"

lemma level_value_inject: "level_value a = level_value b \<longleftrightarrow> a = b"
  by (cases a; cases b) simp_all

lemma level_value_range: "0 \<le> level_value a" "level_value a < 7"
  by (cases a; simp)+

instantiation level_enum :: linorder
begin

definition less_eq_level_enum :: "level_enum \<Rightarrow> level_enum \<Rightarrow> bool" where
  "less_eq_level_enum a b \<longleftrightarrow> level_value a \<le> level_value b"

definition less_level_enum :: "level_enum \<Rightarrow> level_enum \<Rightarrow> bool" where
  "less_level_enum a b \<longleftrightarrow> level_value a < level_value b"

instance
  by standard (auto simp: less_eq_level_enum_def less_level_enum_def level_value_inject)

end

text \<open>\<open>static_cast\<close> of an index to the enumeration.\<close>

definition all_levels :: "level_enum list" where
  "all_levels = [trace, debug, info, warn, err, critical, off]"

section \<open>Names\<close>

definition level_string_views :: "string list" where
  "level_string_views = [''trace'', ''debug'', ''info'', ''warning'', ''error'', ''critical'', ''off'']"

definition short_level_names :: "string list" where
  "short_level_names = [''T'', ''D'', ''I'', ''W'', ''E'', ''C'', ''O'']"

definition to_string_view :: "level_enum \<Rightarrow> string" where
  "to_string_view l = level_string_views ! nat (level_value l)"

definition to_short_c_str :: "level_enum \<Rightarrow> string" where
  "to_short_c_str l = short_level_names ! nat (level_value l)"

text \<open>\<open>std::find\<close> as a distance from the beginning: the length of the range when there is none.\<close>

primrec find_index :: "'a list \<Rightarrow> 'a \<Rightarrow> nat" where
  "find_index [] y = 0"
| "find_index (x # xs) y = (if x = y then 0 else Suc (find_index xs y))"

definition from_str :: "string \<Rightarrow> level_enum" where
  "from_str name =
     (let it = find_index level_string_views name
      in if it \<noteq> length level_string_views then all_levels ! it
         else if name = ''warn'' then warn
         else if name = ''err'' then err
         else off)"

lemma from_str_to_string: "from_str (to_string_view l) = l"
  by (cases l) (simp_all add: from_str_def to_string_view_def level_string_views_def all_levels_def)

lemma from_str_unknown:
  assumes "name \<notin> set level_string_views" and "name \<noteq> ''warn''" and "name \<noteq> ''err''"
  shows "from_str name = off"
proof -
  have "find_index xs name = length xs" if "name \<notin> set xs" for xs :: "string list"
    using that by (induction xs) auto
  with assms show ?thesis by (simp add: from_str_def)
qed

lemma to_string_nonempty: "to_string_view l \<noteq> []"
  by (cases l) (simp_all add: to_string_view_def level_string_views_def)

section \<open>Messages\<close>

text \<open>The C strings of a location may be null; it counts as empty when the line is not positive.\<close>

record source_loc =
  filename :: "string option"
  line :: int
  funcname :: "string option"

definition no_source :: source_loc where
  "no_source = \<lparr>filename = None, line = 0, funcname = None\<rparr>"

definition source_empty :: "source_loc \<Rightarrow> bool" where
  "source_empty s \<longleftrightarrow> line s \<le> 0"

text \<open>Times are nanoseconds since the epoch, the resolution of \<open>system_clock\<close>.\<close>

record log_msg =
  msg_logger_name :: string
  msg_level :: level_enum
  msg_time :: int
  msg_thread_id :: nat
  color_range_start :: nat
  color_range_end :: nat
  msg_source :: source_loc
  msg_payload :: string

definition new_log_msg :: "nat \<Rightarrow> int \<Rightarrow> source_loc \<Rightarrow> string \<Rightarrow> level_enum \<Rightarrow> string \<Rightarrow> log_msg" where
  "new_log_msg tid log_time loc a_logger_name lvl msg =
     \<lparr>msg_logger_name = a_logger_name, msg_level = lvl, msg_time = log_time, msg_thread_id = tid,
      color_range_start = 0, color_range_end = 0, msg_source = loc, msg_payload = msg\<rparr>"

end
