(* ===== verification/FmtHelper.thy ===== *)
theory FmtHelper
  imports Net
begin

text \<open>
  \<open>spdlog/details/fmt_helper.h\<close>: appending and padding numbers, and fractions of a second; with
  \<open>fmt::format_int\<close> of \<open>fmt/bundled/format.h\<close>, which prints into a buffer of its own. A memory buffer is
  its contents.
\<close>

section \<open>fmt::format_int\<close>

definition buffer_size :: nat where
  "buffer_size = 19 + 3"

definition count_digits :: "nat \<Rightarrow> nat \<Rightarrow> nat" where
  "count_digits w n = (if 32 < w then do_count_digits64 n else do_count_digits32 n)"

text \<open>For a value of \<open>w\<close> bits: the position of the first digit and the buffer.\<close>

definition format_unsigned :: "nat \<Rightarrow> nat \<Rightarrow> (nat \<times> string) res" where
  "format_unsigned w value =
     format_decimal_by (count_digits w) (replicate buffer_size (CHR 0x00)) value (buffer_size - 1)"

definition format_signed :: "nat \<Rightarrow> int \<Rightarrow> (nat \<times> string) res" where
  "format_signed w value =
     (let abs_value = value mod 2 ^ w;
          negative = value < 0;
          abs_value = (if negative then (0 - abs_value) mod 2 ^ w else abs_value)
      in bindR (format_unsigned w (nat abs_value)) (\<lambda>(begin, buf).
           if negative
           then (if begin < 1 then Inl OutOfBounds else Inr (begin - 1, buf[begin - 1 := CHR ''-'']))
           else Inr (begin, buf)))"

definition int_text :: "nat \<times> string \<Rightarrow> string" where
  "int_text r = (case r of (str, buf) \<Rightarrow> take (buffer_size - 1 - str) (drop str buf))"

section \<open>Appending\<close>

definition append_string_view :: "string \<Rightarrow> string \<Rightarrow> string" where
  "append_string_view view dest = dest @ view"

definition append_int :: "nat \<Rightarrow> int \<Rightarrow> string \<Rightarrow> string res" where
  "append_int w n dest = bindR (format_signed w n) (\<lambda>i. Inr (dest @ int_text i))"

definition append_uint :: "nat \<Rightarrow> nat \<Rightarrow> string \<Rightarrow> string res" where
  "append_uint w n dest = bindR (format_unsigned w n) (\<lambda>i. Inr (dest @ int_text i))"

definition pad2 :: "int \<Rightarrow> string \<Rightarrow> string res" where
  "pad2 n dest =
     (if 0 \<le> n \<and> n < 100
      then Inr (dest @ [ascii_digit (nat (n div 10)), ascii_digit (nat (n mod 10))])
      else bindR (fmt_pad 2 n) (\<lambda>s. Inr (dest @ s)))"

text \<open>The loop of \<open>pad_uint\<close>.\<close>

function push_zeros :: "nat \<Rightarrow> nat \<Rightarrow> string \<Rightarrow> string" where
  "push_zeros digits width dest =
     (if digits < width then push_zeros (digits + 1) width (dest @ [CHR ''0'']) else dest)"
  by pat_completeness auto
termination
  by (relation "measure (\<lambda>(digits, width, dest). width - digits)") auto

declare push_zeros.simps [simp del]

definition pad_uint :: "nat \<Rightarrow> nat \<Rightarrow> nat \<Rightarrow> string \<Rightarrow> string res" where
  "pad_uint w n width dest = append_uint w n (push_zeros (count_digits w n) width dest)"

definition pad3 :: "nat \<Rightarrow> nat \<Rightarrow> string \<Rightarrow> string res" where
  "pad3 w n dest =
     (if n < 1000
      then let dest = dest @ [ascii_digit (n div 100)]; n = n mod 100
           in Inr (dest @ [ascii_digit (n div 10)] @ [ascii_digit (n mod 10)])
      else append_uint w n dest)"

definition pad6 :: "nat \<Rightarrow> string \<Rightarrow> string res" where
  "pad6 n dest = pad_uint 64 n 6 dest"

definition pad9 :: "nat \<Rightarrow> string \<Rightarrow> string res" where
  "pad9 n dest = pad_uint 64 n 9 dest"

section \<open>Durations\<close>

text \<open>\<open>duration_cast\<close> to a unit of \<open>u\<close> nanoseconds truncates towards zero.\<close>

definition duration_cast :: "int \<Rightarrow> int \<Rightarrow> int" where
  "duration_cast u d = (if 0 \<le> d then d div u else - ((- d) div u))"

definition ns_per_sec :: int where
  "ns_per_sec = 1000000000"

definition time_fraction :: "int \<Rightarrow> int \<Rightarrow> int" where
  "time_fraction u tp =
     (let secs = duration_cast ns_per_sec tp
      in duration_cast u tp - duration_cast u (secs * ns_per_sec))"

section \<open>What they print\<close>

lemma length_dec_bound: "n < 2 ^ 64 \<Longrightarrow> length (dec n) \<le> 20"
  by (rule length_dec_le) simp_all

lemma count_digits_eq:
  "w = 32 \<or> w = 64 \<Longrightarrow> n < 2 ^ w \<Longrightarrow> count_digits w n = length (dec n)"
  by (auto simp: count_digits_def do_count_digits32_eq do_count_digits64_eq)

text \<open>The position is that of the digits at the end of the buffer, before the terminating null.\<close>

lemma format_pairs_append:
  assumes "n \<le> length out" and "format_pairs v n out = Inr (v', n', out')"
  shows "format_pairs v n (out @ z) = Inr (v', n', out' @ z)"
  using assms
proof (induction v n out rule: format_pairs.induct)
  case (1 v n out)
  show ?case
  proof (cases "100 \<le> v")
    case False
    with 1(3) have e: "v' = v" "n' = n" "out' = out" by (simp_all add: format_pairs.simps [of v n out])
    show ?thesis unfolding e using False by (simp add: format_pairs.simps [of v n "out @ z"])
  next
    case True
    with 1(3) have n: "2 \<le> n" and f: "format_pairs (v div 100) (n - 2) (write2digits (n - 2) (v mod 100) out) = Inr (v', n', out')"
      by (auto simp: format_pairs.simps [of v n out] split: if_splits)
    have w: "write2digits (n - 2) (v mod 100) (out @ z) = write2digits (n - 2) (v mod 100) out @ z"
      and l: "length (write2digits (n - 2) (v mod 100) out) = length out"
      using n 1(2) by (simp_all add: write2digits_def digits2_eq)
    have "n - 2 \<le> length (write2digits (n - 2) (v mod 100) out)" using l 1(2) by simp
    from 1(1) [OF True _ this f] n w True show ?thesis
      by (simp add: format_pairs.simps [of v n "out @ z"])
  qed
qed

lemma format_decimal_by_append:
  assumes "n \<le> length out" and "format_decimal_by count out v n = Inr (m, out')"
  shows "format_decimal_by count (out @ z) v n = Inr (m, out' @ z)"
proof -
  from assms(2) obtain v' n' out1 where f: "format_pairs v n out = Inr (v', n', out1)" "\<not> n < count v"
    by (auto simp: format_decimal_by_def split: if_splits)
  from format_pairs_prefix [OF assms(1) f(1), of "[]"] have l: "length out1 = length out" by simp
  have n': "n' \<le> n" using f(1)
  proof (induction v n out rule: format_pairs.induct)
    case (1 v n out)
    then show ?case by (cases "100 \<le> v") (auto simp: format_pairs.simps [of v n out] split: if_splits)
  qed
  with format_pairs_append [OF assms(1) f(1), of z] f l assms show ?thesis
    by (auto simp: format_decimal_by_def write2digits_def list_update_append split: if_splits)
qed

lemma format_unsigned_eq:
  assumes w: "w = 32 \<or> w = 64" and n: "n < 2 ^ w"
  shows "format_unsigned w n =
    Inr (21 - length (dec n), replicate (21 - length (dec n)) (CHR 0x00) @ dec n @ [CHR 0x00])"
proof -
  let ?l = "length (dec n)"
  have "n < 2 ^ 64" using assms by auto
  then have l: "?l \<le> 20" by (rule length_dec_bound)
  let ?g = "replicate (21 - ?l) (CHR 0x00)" and ?o = "replicate ?l (CHR 0x00)"
  have c: "count_digits w n \<le> length ?g + ?l" using count_digits_eq [OF assms] by simp
  have "format_decimal_by (count_digits w) (?g @ ?o) n (length ?g + length ?o) = Inr (length ?g, ?g @ dec n)"
    using c format_decimal_by_eq [where g = ?g and out = ?o and v = n and count = "count_digits w"] by simp
  moreover have "length ?g + length ?o = 21" and "?g @ ?o = replicate 21 (CHR 0x00)"
    using l by (simp_all add: replicate_add [symmetric])
  ultimately have "format_decimal_by (count_digits w) (replicate 21 (CHR 0x00)) n 21 = Inr (21 - ?l, ?g @ dec n)"
    by simp
  from format_decimal_by_append [OF _ this, of "[CHR 0x00]"] show ?thesis
    by (simp add: format_unsigned_def buffer_size_def numeral_eq_Suc replicate_append_same)
qed

lemma append_uint_eq:
  assumes "w = 32 \<or> w = 64" and "n < 2 ^ w"
  shows "append_uint w n dest = Inr (dest @ dec n)"
proof -
  have "n < 2 ^ 64" using assms by auto
  then have "length (dec n) \<le> 20" by (rule length_dec_bound)
  then show ?thesis
    by (simp add: append_uint_def format_unsigned_eq [OF assms] int_text_def buffer_size_def)
qed

lemma append_int_eq:
  assumes w: "w = 32 \<or> w = 64" and n: "- (2 ^ (w - 1)) \<le> n" "n < 2 ^ (w - 1)"
  shows "append_int w n dest = Inr (dest @ show_int n)"
proof -
  have p: "(2 :: int) ^ w = 2 * 2 ^ (w - 1)" using w by (auto simp: power_eq_if)
  let ?a = "nat \<bar>n\<bar>"
  have abs: "(if n < 0 then (0 - n mod 2 ^ w) mod 2 ^ w else n mod 2 ^ w) = \<bar>n\<bar>"
  proof (cases "n < 0")
    case True
    have "(0 - n mod 2 ^ w) mod 2 ^ w = (- n) mod 2 ^ w" by (simp add: mod_minus_eq)
    also have "\<dots> = - n" using True n(1) p by (intro mod_pos_pos_trivial) auto
    finally show ?thesis using True by simp
  next
    case False
    then show ?thesis using n p by (simp add: mod_pos_pos_trivial)
  qed
  have a: "?a < 2 ^ w"
  proof -
    have "\<bar>n\<bar> < 2 ^ w" using n p by auto
    then show ?thesis by (simp add: nat_less_iff)
  qed
  have "?a < 2 ^ 64" using a w by auto
  then have l: "length (dec ?a) \<le> 20" by (rule length_dec_bound)
  define k where "k = 20 - length (dec ?a)"
  have "21 - x = Suc (20 - x)" "20 - x + x = 20" if "x \<le> 20" for x :: nat using that by simp_all
  from this [OF l] have k: "21 - length (dec ?a) = Suc k" "k + length (dec ?a) = 20" by (simp_all add: k_def)
  have u: "(replicate (Suc k) (CHR 0x00))[k := CHR ''-''] = replicate k (CHR 0x00) @ [CHR ''-'']"
    by (subst replicate_append_same [symmetric, simplified replicate_Suc [symmetric]])
      (simp add: list_update_append)
  have k21: "21 - k = Suc (length (dec ?a))" "20 - k = length (dec ?a)" using k(2) by simp_all
  have fu: "format_unsigned w ?a = Inr (Suc k, replicate (Suc k) (CHR 0x00) @ dec ?a @ [CHR 0x00])"
    using format_unsigned_eq [OF w a] by (simp only: k(1))
  show ?thesis
  proof (cases "n < 0")
    case True
    then have "?a = nat (- n)" by simp
    with fu k21 u True show ?thesis
      unfolding append_int_def format_signed_def Let_def abs
      by (simp add: int_text_def buffer_size_def show_int_def list_update_append del: replicate_Suc)
  next
    case False
    then have "?a = nat n" by simp
    with fu k21 False show ?thesis
      unfolding append_int_def format_signed_def Let_def abs
      by (simp add: int_text_def buffer_size_def show_int_def del: replicate_Suc)
  qed
qed

section \<open>Zero padding\<close>

definition zero_padded :: "nat \<Rightarrow> nat \<Rightarrow> string" where
  "zero_padded w n = replicate (w - length (dec n)) (CHR ''0'') @ dec n"

lemma undec_zero_padded: "undec (zero_padded w n) = n"
  by (simp add: zero_padded_def undec_append_zeros undec_dec)

lemma length_zero_padded: "n < 10 ^ w \<Longrightarrow> 0 < w \<Longrightarrow> length (zero_padded w n) = w"
  using length_dec_le [of n w] by (simp add: zero_padded_def)

lemma ascii_zero: "ascii_digit 0 = CHR ''0''"
  by (simp add: ascii_digit_def char_digits)

lemma zero_padded_Suc:
  assumes "n < 10 ^ Suc w" and "0 < w"
  shows "zero_padded (Suc w) n = zero_padded w (n div 10) @ [ascii_digit (n mod 10)]"
proof (cases "n < 10")
  case True
  then have d: "dec n = [ascii_digit n]" "dec (n div 10) = [ascii_digit 0]" by (simp_all add: dec.simps)
  obtain v where "w = Suc v" using assms(2) by (cases w) auto
  with True d show ?thesis
    by (simp add: zero_padded_def ascii_zero replicate_append_same)
next
  case False
  then have "dec n = dec (n div 10) @ [ascii_digit (n mod 10)]" by (simp add: dec.simps [of n])
  then show ?thesis by (simp add: zero_padded_def)
qed

lemma zero_padded_1: "n < 10 \<Longrightarrow> zero_padded 1 n = [ascii_digit n]"
  by (simp add: zero_padded_def dec.simps)

lemma zero_padded_2: "n < 100 \<Longrightarrow> zero_padded 2 n = [ascii_digit (n div 10), ascii_digit (n mod 10)]"
  using zero_padded_Suc [of n 1] zero_padded_1 [of "n div 10"] by (simp add: numeral_2_eq_2)

lemma zero_padded_3:
  "n < 1000 \<Longrightarrow> zero_padded 3 n = [ascii_digit (n div 100), ascii_digit (n mod 100 div 10), ascii_digit (n mod 10)]"
proof -
  assume n: "n < 1000"
  then have "zero_padded 3 n = zero_padded 2 (n div 10) @ [ascii_digit (n mod 10)]"
    using zero_padded_Suc [of n 2] by (simp add: numeral_3_eq_3 numeral_2_eq_2)
  moreover have "n div 10 mod 10 = n mod 100 div 10"
    using mod_mult2_eq [of n 10 10] by simp
  moreover have "n div 10 < 100" "n div 10 div 10 = n div 100" using n by (simp_all add: div_mult2_eq [symmetric])
  ultimately show ?thesis using zero_padded_2 [of "n div 10"] by simp
qed

lemma pad2_eq: "0 \<le> n \<Longrightarrow> n < 100 \<Longrightarrow> pad2 n dest = Inr (dest @ zero_padded 2 (nat n))"
  using zero_padded_2 [of "nat n"] by (simp add: pad2_def nat_div_distrib nat_mod_distrib)

lemma pad3_eq: "n < 1000 \<Longrightarrow> pad3 w n dest = Inr (dest @ zero_padded 3 n)"
  by (simp add: pad3_def zero_padded_3 Let_def mod_mod_cancel)

lemma push_zeros_eq: "push_zeros digits width dest = dest @ replicate (width - digits) (CHR ''0'')"
proof (induction digits width dest rule: push_zeros.induct)
  case (1 digits width dest)
  show ?case
  proof (cases "digits < width")
    case True
    then have "width - digits = Suc (width - (digits + 1))" by simp
    with 1 True show ?thesis by (simp add: push_zeros.simps [of digits])
  next
    case False
    then show ?thesis by (simp add: push_zeros.simps [of digits])
  qed
qed

lemma pad_uint_eq:
  "w = 32 \<or> w = 64 \<Longrightarrow> n < 2 ^ w \<Longrightarrow> pad_uint w n width dest = Inr (dest @ zero_padded width n)"
  by (auto simp: pad_uint_def append_uint_eq push_zeros_eq count_digits_eq zero_padded_def)

section \<open>Fractions of a second\<close>

lemma time_fraction_eq:
  assumes "0 \<le> t" and "0 < u" and "u dvd ns_per_sec"
  shows "time_fraction u t = (t mod ns_per_sec) div u"
proof -
  from assms(3) obtain k where k: "ns_per_sec = u * k" ..
  have "t div ns_per_sec * ns_per_sec div u = t div ns_per_sec * k"
    using assms(2) unfolding k by simp
  moreover have "t div u = (t div ns_per_sec * k * u + t mod ns_per_sec) div u"
    using k by (metis div_mult_mod_eq mult.assoc mult.commute)
  then have "t div u = t div ns_per_sec * k + t mod ns_per_sec div u"
    using assms(2) by simp
  moreover have "0 \<le> t div ns_per_sec * ns_per_sec" using assms(1) by (simp add: ns_per_sec_def pos_imp_zdiv_nonneg_iff)
  ultimately show ?thesis using assms(1) by (simp add: time_fraction_def duration_cast_def)
qed

lemma time_fraction_bound:
  assumes "0 \<le> t" and "0 < u" and "u dvd ns_per_sec"
  shows "0 \<le> time_fraction u t" and "time_fraction u t < ns_per_sec div u"
proof -
  have m: "0 \<le> t mod ns_per_sec" "t mod ns_per_sec < ns_per_sec" by (simp_all add: ns_per_sec_def)
  from assms(3) obtain k where k: "ns_per_sec = u * k" ..
  show "0 \<le> time_fraction u t" using m assms by (simp add: time_fraction_eq pos_imp_zdiv_nonneg_iff)
  have "t mod ns_per_sec < k * u" using m(2) k by (simp add: mult.commute)
  have "t mod ns_per_sec div u < k"
  proof (rule ccontr)
    assume "\<not> t mod ns_per_sec div u < k"
    then have "k * u \<le> t mod ns_per_sec div u * u" using assms(2) by (simp add: mult_right_mono)
    also have "\<dots> \<le> t mod ns_per_sec"
      using div_mult_mod_eq [of "t mod ns_per_sec" u] assms(2) by (metis le_add_same_cancel1 pos_mod_sign)
    finally show False using \<open>t mod ns_per_sec < k * u\<close> by simp
  qed
  moreover have "ns_per_sec div u = k" using assms(2) unfolding k by simp
  ultimately show "time_fraction u t < ns_per_sec div u" using time_fraction_eq [OF assms] by simp
qed

end
