(* ===== verification/PatternFlags.thy ===== *)
theory PatternFlags
  imports LogLevel FmtHelper
begin

text \<open>
  The formatters of \<open>spdlog/pattern_formatter-inl.h\<close>: padding, then one definition per formatter class
  with the body of its \<open>format\<close>. Calendar time, process id, diagnostic context and user formatters
  are the environment \<open>log_env\<close>.
\<close>

section \<open>Padding\<close>

datatype pad_side = pad_left | pad_right | pad_center

record padding_info =
  pad_width :: nat
  padding_side :: pad_side
  pad_truncate :: bool
  pad_enabled :: bool

definition no_padding :: padding_info where
  "no_padding = \<lparr>pad_width = 0, padding_side = pad_left, pad_truncate = False, pad_enabled = False\<rparr>"

definition new_padding :: "nat \<Rightarrow> pad_side \<Rightarrow> bool \<Rightarrow> padding_info" where
  "new_padding w s t =
     \<lparr>pad_width = w, padding_side = s, pad_truncate = t, pad_enabled = True\<rparr>"

definition spaces :: string where
  "spaces = replicate 64 (CHR '' '')"

definition pad_it :: "int \<Rightarrow> string \<Rightarrow> string res" where
  "pad_it count dest =
     (if 0 \<le> count \<and> nat count \<le> length spaces
      then Inr (append_string_view (take (nat count) spaces) dest)
      else Inl OutOfBounds)"

text \<open>The constructor and the destructor of \<open>scoped_padder\<close>, with \<open>remaining_pad_\<close> between them.\<close>

definition padder_begin :: "nat \<Rightarrow> padding_info \<Rightarrow> string \<Rightarrow> (int \<times> string) res" where
  "padder_begin wrapped_size padinfo dest =
     (let remaining_pad = int (pad_width padinfo) - int wrapped_size
      in if remaining_pad \<le> 0 then Inr (remaining_pad, dest)
         else if padding_side padinfo = pad_left
         then bindR (pad_it remaining_pad dest) (\<lambda>dest. Inr (0, dest))
         else if padding_side padinfo = pad_center
         then let half_pad = remaining_pad div 2; reminder = remaining_pad mod 2
              in bindR (pad_it half_pad dest) (\<lambda>dest. Inr (half_pad + reminder, dest))
         else Inr (remaining_pad, dest))"

definition padder_end :: "padding_info \<Rightarrow> int \<Rightarrow> string \<Rightarrow> string res" where
  "padder_end padinfo remaining_pad dest =
     (if 0 \<le> remaining_pad then pad_it remaining_pad dest
      else if pad_truncate padinfo
      then let new_size = int (length dest) + remaining_pad;
               new_size = (if new_size < 0 then 0 else new_size)
           in Inr (take (nat new_size) dest)
      else Inr dest)"

text \<open>The two classes a formatter template is instantiated with.\<close>

datatype padder = ScopedPadder | NullPadder

definition with_padder ::
    "padder \<Rightarrow> padding_info \<Rightarrow> nat \<Rightarrow> (string \<Rightarrow> string res) \<Rightarrow> string \<Rightarrow> string res" where
  "with_padder p padinfo wrapped_size body dest =
     (case p of
        NullPadder \<Rightarrow> body dest
      | ScopedPadder \<Rightarrow>
          bindR (padder_begin wrapped_size padinfo dest) (\<lambda>(remaining_pad, dest).
          bindR (body dest) (padder_end padinfo remaining_pad)))"

definition padder_count_digits :: "padder \<Rightarrow> nat \<Rightarrow> nat \<Rightarrow> nat" where
  "padder_count_digits p w n = (case p of ScopedPadder \<Rightarrow> count_digits w n | NullPadder \<Rightarrow> 0)"

section \<open>Statements\<close>

text \<open>A body is a sequence of statements that append to the destination.\<close>

fun in_order :: "(string \<Rightarrow> string res) list \<Rightarrow> string \<Rightarrow> string res" where
  "in_order [] dest = Inr dest"
| "in_order (f # fs) dest = bindR (f dest) (in_order fs)"

definition push_back :: "char \<Rightarrow> string \<Rightarrow> string res" where
  "push_back c dest = Inr (dest @ [c])"

definition view :: "string \<Rightarrow> string \<Rightarrow> string res" where
  "view v dest = Inr (append_string_view v dest)"

text \<open>Indexing a \<open>std::array\<close> with an \<open>int\<close> cast to \<open>size_t\<close>, and reading a C string.\<close>

definition array_at :: "'a list \<Rightarrow> int \<Rightarrow> 'a res" where
  "array_at xs i = (if 0 \<le> i \<and> nat i < length xs then Inr (xs ! nat i) else Inl OutOfBounds)"

definition c_str :: "string option \<Rightarrow> string res" where
  "c_str p = (case p of None \<Rightarrow> Inl NullDeref | Some s \<Rightarrow> Inr s)"

section \<open>The environment\<close>

record log_tm = tm +
  tm_wday :: int
  tm_gmtoff :: int

definition zero_tm :: log_tm where
  "zero_tm = \<lparr>tm_year = 0, tm_mon = 0, tm_mday = 0, tm_hour = 0, tm_min = 0, tm_sec = 0,
     tm_wday = 0, tm_gmtoff = 0\<rparr>"

text \<open>The diagnostic context is a \<open>std::map\<close>: a list of entries in the order of their keys.\<close>

record log_env =
  os_localtime :: "int \<Rightarrow> log_tm"
  os_gmtime :: "int \<Rightarrow> log_tm"
  os_pid :: nat
  os_now :: int
  mdc_context :: "(string \<times> string) list"
  custom_format :: "nat \<Rightarrow> padding_info \<Rightarrow> log_msg \<Rightarrow> log_tm \<Rightarrow> string \<Rightarrow> string res"

definition utc_minutes_offset :: "log_tm \<Rightarrow> int" where
  "utc_minutes_offset t = duration_cast 60 (tm_gmtoff t)"

type_synonym format_fun = "padder \<Rightarrow> padding_info \<Rightarrow> log_msg \<Rightarrow> log_tm \<Rightarrow> string \<Rightarrow> string res"

section \<open>Name, level, message\<close>

definition name_formatter :: format_fun where
  "name_formatter p padinfo msg tm_time =
     with_padder p padinfo (length (msg_logger_name msg)) (view (msg_logger_name msg))"

definition level_formatter :: format_fun where
  "level_formatter p padinfo msg tm_time =
     (let level_name = to_string_view (msg_level msg)
      in with_padder p padinfo (length level_name) (view level_name))"

definition short_level_formatter :: format_fun where
  "short_level_formatter p padinfo msg tm_time =
     (let level_name = to_short_c_str (msg_level msg)
      in with_padder p padinfo (length level_name) (view level_name))"

definition v_formatter :: format_fun where
  "v_formatter p padinfo msg tm_time =
     with_padder p padinfo (length (msg_payload msg)) (view (msg_payload msg))"

section \<open>Date and time\<close>

definition ampm :: "'a tm_scheme \<Rightarrow> string" where
  "ampm t = (if 12 \<le> tm_hour t then ''PM'' else ''AM'')"

definition to12h :: "'a tm_scheme \<Rightarrow> int" where
  "to12h t = (if 12 < tm_hour t then tm_hour t - 12 else tm_hour t)"

definition days :: "string list" where
  "days = [''Sun'', ''Mon'', ''Tue'', ''Wed'', ''Thu'', ''Fri'', ''Sat'']"

definition full_days :: "string list" where
  "full_days = [''Sunday'', ''Monday'', ''Tuesday'', ''Wednesday'', ''Thursday'', ''Friday'', ''Saturday'']"

definition months :: "string list" where
  "months = [''Jan'', ''Feb'', ''Mar'', ''Apr'', ''May'', ''Jun'', ''Jul'', ''Aug'', ''Sep'', ''Oct'', ''Nov'', ''Dec'']"

definition full_months :: "string list" where
  "full_months = [''January'', ''February'', ''March'', ''April'', ''May'', ''June'', ''July'', ''August'',
     ''September'', ''October'', ''November'', ''December'']"

text \<open>The four formatters that print an element of one of these tables.\<close>

definition table_formatter :: "string list \<Rightarrow> int \<Rightarrow> padder \<Rightarrow> padding_info \<Rightarrow> string \<Rightarrow> string res" where
  "table_formatter xs i p padinfo dest =
     bindR (array_at xs i) (\<lambda>field_value.
       with_padder p padinfo (length field_value) (view field_value) dest)"

definition a_formatter :: format_fun where
  "a_formatter p padinfo msg tm_time = table_formatter days (tm_wday tm_time) p padinfo"

definition A_formatter :: format_fun where
  "A_formatter p padinfo msg tm_time = table_formatter full_days (tm_wday tm_time) p padinfo"

definition b_formatter :: format_fun where
  "b_formatter p padinfo msg tm_time = table_formatter months (tm_mon tm_time) p padinfo"

definition B_formatter :: format_fun where
  "B_formatter p padinfo msg tm_time = table_formatter full_months (tm_mon tm_time) p padinfo"

definition c_formatter :: format_fun where
  "c_formatter p padinfo msg tm_time =
     with_padder p padinfo 24 (in_order
       [\<lambda>dest. bindR (array_at days (tm_wday tm_time)) (\<lambda>s. view s dest), push_back CHR '' '',
        \<lambda>dest. bindR (array_at months (tm_mon tm_time)) (\<lambda>s. view s dest), push_back CHR '' '',
        append_int 32 (tm_mday tm_time), push_back CHR '' '',
        pad2 (tm_hour tm_time), push_back CHR '':'', pad2 (tm_min tm_time), push_back CHR '':'',
        pad2 (tm_sec tm_time), push_back CHR '' '', append_int 32 (tm_year tm_time + 1900)])"

text \<open>\<open>%\<close> of C++ takes the sign of the dividend.\<close>

definition c_rem :: "int \<Rightarrow> int \<Rightarrow> int" where
  "c_rem a b = a - duration_cast b a * b"

definition C_formatter :: format_fun where
  "C_formatter p padinfo msg tm_time = with_padder p padinfo 2 (pad2 (c_rem (tm_year tm_time) 100))"

definition D_formatter :: format_fun where
  "D_formatter p padinfo msg tm_time =
     with_padder p padinfo 8 (in_order
       [pad2 (tm_mon tm_time + 1), push_back CHR ''/'', pad2 (tm_mday tm_time), push_back CHR ''/'',
        pad2 (c_rem (tm_year tm_time) 100)])"

definition Y_formatter :: format_fun where
  "Y_formatter p padinfo msg tm_time = with_padder p padinfo 4 (append_int 32 (tm_year tm_time + 1900))"

definition m_formatter :: format_fun where
  "m_formatter p padinfo msg tm_time = with_padder p padinfo 2 (pad2 (tm_mon tm_time + 1))"

definition d_formatter :: format_fun where
  "d_formatter p padinfo msg tm_time = with_padder p padinfo 2 (pad2 (tm_mday tm_time))"

definition H_formatter :: format_fun where
  "H_formatter p padinfo msg tm_time = with_padder p padinfo 2 (pad2 (tm_hour tm_time))"

definition I_formatter :: format_fun where
  "I_formatter p padinfo msg tm_time = with_padder p padinfo 2 (pad2 (to12h tm_time))"

definition M_formatter :: format_fun where
  "M_formatter p padinfo msg tm_time = with_padder p padinfo 2 (pad2 (tm_min tm_time))"

definition S_formatter :: format_fun where
  "S_formatter p padinfo msg tm_time = with_padder p padinfo 2 (pad2 (tm_sec tm_time))"

text \<open>The fractions, cast to \<open>uint32_t\<close> and to \<open>size_t\<close>.\<close>

definition e_formatter :: format_fun where
  "e_formatter p padinfo msg tm_time =
     (let millis = time_fraction 1000000 (msg_time msg)
      in with_padder p padinfo 3 (pad3 32 (nat (millis mod 2 ^ 32))))"

definition f_formatter :: format_fun where
  "f_formatter p padinfo msg tm_time =
     (let micros = time_fraction 1000 (msg_time msg)
      in with_padder p padinfo 6 (pad6 (nat (micros mod 2 ^ 64))))"

definition F_formatter :: format_fun where
  "F_formatter p padinfo msg tm_time =
     (let ns = time_fraction 1 (msg_time msg)
      in with_padder p padinfo 9 (pad9 (nat (ns mod 2 ^ 64))))"

definition E_formatter :: format_fun where
  "E_formatter p padinfo msg tm_time =
     with_padder p padinfo 10 (append_int 64 (duration_cast ns_per_sec (msg_time msg)))"

definition p_formatter :: format_fun where
  "p_formatter p padinfo msg tm_time = with_padder p padinfo 2 (view (ampm tm_time))"

definition r_formatter :: format_fun where
  "r_formatter p padinfo msg tm_time =
     with_padder p padinfo 11 (in_order
       [pad2 (to12h tm_time), push_back CHR '':'', pad2 (tm_min tm_time), push_back CHR '':'',
        pad2 (tm_sec tm_time), push_back CHR '' '', view (ampm tm_time)])"

definition R_formatter :: format_fun where
  "R_formatter p padinfo msg tm_time =
     with_padder p padinfo 5 (in_order [pad2 (tm_hour tm_time), push_back CHR '':'', pad2 (tm_min tm_time)])"

definition T_formatter :: format_fun where
  "T_formatter p padinfo msg tm_time =
     with_padder p padinfo 8 (in_order
       [pad2 (tm_hour tm_time), push_back CHR '':'', pad2 (tm_min tm_time), push_back CHR '':'',
        pad2 (tm_sec tm_time)])"

text \<open>The offset from UTC, refreshed every ten seconds: \<open>(last_update_, offset_minutes_)\<close>.\<close>

definition get_cached_offset :: "log_msg \<Rightarrow> log_tm \<Rightarrow> int \<times> int \<Rightarrow> int \<times> int" where
  "get_cached_offset msg tm_time c =
     (case c of (last_update, offset_minutes) \<Rightarrow>
        if 10 * ns_per_sec \<le> msg_time msg - last_update
        then (msg_time msg, utc_minutes_offset tm_time) else (last_update, offset_minutes))"

definition z_formatter ::
    "padder \<Rightarrow> padding_info \<Rightarrow> log_msg \<Rightarrow> log_tm \<Rightarrow> int \<times> int \<Rightarrow> string \<Rightarrow> ((int \<times> int) \<times> string) res" where
  "z_formatter p padinfo msg tm_time c dest =
     (let c = get_cached_offset msg tm_time c;
          total_minutes = snd c;
          sign = (if total_minutes < 0 then CHR ''-'' else CHR ''+'');
          total_minutes = (if total_minutes < 0 then - total_minutes else total_minutes)
      in bindR (with_padder p padinfo 6 (in_order
                  [push_back sign, pad2 (duration_cast 60 total_minutes), push_back CHR '':'',
                   pad2 (c_rem total_minutes 60)]) dest)
           (\<lambda>dest. Inr (c, dest)))"

section \<open>Thread, process, source location\<close>

definition t_formatter :: format_fun where
  "t_formatter p padinfo msg tm_time =
     with_padder p padinfo (padder_count_digits p 64 (msg_thread_id msg)) (append_uint 64 (msg_thread_id msg))"

definition pid_formatter :: "log_env \<Rightarrow> format_fun" where
  "pid_formatter env p padinfo msg tm_time =
     (let pid = os_pid env mod 2 ^ 32
      in with_padder p padinfo (padder_count_digits p 32 pid) (append_uint 32 pid))"

text \<open>A line number as \<open>count_digits\<close> sees it, cast to \<open>uint32_t\<close>.\<close>

definition line_digits :: "padder \<Rightarrow> log_msg \<Rightarrow> nat" where
  "line_digits p msg = padder_count_digits p 32 (nat (line (msg_source msg) mod 2 ^ 32))"

definition source_location_formatter :: format_fun where
  "source_location_formatter p padinfo msg tm_time dest =
     (if source_empty (msg_source msg) then with_padder p padinfo 0 Inr dest
      else bindR (c_str (filename (msg_source msg))) (\<lambda>name.
        let text_size = (if pad_enabled padinfo then length name + line_digits p msg + 1 else 0)
        in with_padder p padinfo text_size (in_order
             [view name, push_back CHR '':'', append_int 32 (line (msg_source msg))]) dest))"

text \<open>The formatters that print a C string of the location.\<close>

definition source_text_formatter ::
    "(source_loc \<Rightarrow> string res) \<Rightarrow> padder \<Rightarrow> padding_info \<Rightarrow> log_msg \<Rightarrow> string \<Rightarrow> string res" where
  "source_text_formatter text p padinfo msg dest =
     (if source_empty (msg_source msg) then with_padder p padinfo 0 Inr dest
      else bindR (text (msg_source msg)) (\<lambda>s.
        let text_size = (if pad_enabled padinfo then length s else 0)
        in with_padder p padinfo text_size (view s) dest))"

definition source_filename_formatter :: format_fun where
  "source_filename_formatter p padinfo msg tm_time =
     source_text_formatter (\<lambda>s. c_str (filename s)) p padinfo msg"

text \<open>\<open>basename\<close>: what follows the last separator, \<open>/\<close> on this platform.\<close>

definition folder_sep :: char where
  "folder_sep = CHR ''/''"

definition basename :: "string \<Rightarrow> string" where
  "basename s = rev (takeWhile (\<lambda>c. c \<noteq> folder_sep) (rev s))"

definition short_filename_formatter :: format_fun where
  "short_filename_formatter p padinfo msg tm_time =
     source_text_formatter (\<lambda>s. bindR (c_str (filename s)) (\<lambda>f. Inr (basename f))) p padinfo msg"

definition source_linenum_formatter :: format_fun where
  "source_linenum_formatter p padinfo msg tm_time dest =
     (if source_empty (msg_source msg) then with_padder p padinfo 0 Inr dest
      else with_padder p padinfo (line_digits p msg) (append_int 32 (line (msg_source msg))) dest)"

definition source_funcname_formatter :: format_fun where
  "source_funcname_formatter p padinfo msg tm_time =
     source_text_formatter (\<lambda>s. c_str (funcname s)) p padinfo msg"

text \<open>Time since the last message in units of \<open>u\<close> nanoseconds; the last message's time is a member.\<close>

definition elapsed_formatter ::
    "padder \<Rightarrow> padding_info \<Rightarrow> int \<Rightarrow> log_msg \<Rightarrow> int \<Rightarrow> string \<Rightarrow> (int \<times> string) res" where
  "elapsed_formatter p padinfo u msg last_message_time dest =
     (let delta = max (msg_time msg - last_message_time) 0;
          delta_count = nat (duration_cast u delta)
      in bindR (with_padder p padinfo (padder_count_digits p 64 delta_count) (append_uint 64 delta_count) dest)
           (\<lambda>dest. Inr (msg_time msg, dest)))"

section \<open>Diagnostic context\<close>

text \<open>The loop of \<open>format_mdc\<close> over the entries; the last one has no blank after it.\<close>

fun format_mdc :: "padder \<Rightarrow> padding_info \<Rightarrow> (string \<times> string) list \<Rightarrow> string \<Rightarrow> string res" where
  "format_mdc p padinfo [] dest = Inr dest"
| "format_mdc p padinfo ((key, val) # rest) dest =
     (let content_size = length key + length val + 1;
          content_size = (if rest \<noteq> [] then content_size + 1 else content_size)
      in bindR (with_padder p padinfo content_size (in_order
           ([view key, view '':'', view val] @ (if rest \<noteq> [] then [view '' ''] else []))) dest)
           (format_mdc p padinfo rest))"

definition mdc_formatter :: "log_env \<Rightarrow> format_fun" where
  "mdc_formatter env p padinfo msg tm_time dest =
     (if mdc_context env = [] then with_padder p padinfo 0 Inr dest
      else format_mdc p padinfo (mdc_context env) dest)"

section \<open>The full formatter\<close>

text \<open>The date and time part, cached as \<open>(cache_timestamp_, cached_datetime_)\<close>.\<close>

definition full_datetime :: "log_tm \<Rightarrow> string res" where
  "full_datetime tm_time = in_order
     [push_back CHR ''['', append_int 32 (tm_year tm_time + 1900), push_back CHR ''-'',
      pad2 (tm_mon tm_time + 1), push_back CHR ''-'', pad2 (tm_mday tm_time), push_back CHR '' '',
      pad2 (tm_hour tm_time), push_back CHR '':'', pad2 (tm_min tm_time), push_back CHR '':'',
      pad2 (tm_sec tm_time), push_back CHR ''.''] []"

definition full_formatter ::
    "log_env \<Rightarrow> log_msg \<Rightarrow> log_tm \<Rightarrow> int \<times> string \<Rightarrow> string \<Rightarrow> ((int \<times> string) \<times> log_msg \<times> string) res" where
  "full_formatter env msg tm_time c dest =
     (let secs = duration_cast ns_per_sec (msg_time msg)
      in bindR (if fst c \<noteq> secs \<or> snd c = [] then bindR (full_datetime tm_time) (\<lambda>s. Inr (secs, s)) else Inr c) (\<lambda>c.
         bindR (in_order
           ([view (snd c), pad3 32 (nat (time_fraction 1000000 (msg_time msg) mod 2 ^ 32)),
             push_back CHR '']'', push_back CHR '' ''] @
            (if msg_logger_name msg \<noteq> []
             then [push_back CHR ''['', view (msg_logger_name msg), push_back CHR '']'', push_back CHR '' ''] else []) @
            [push_back CHR ''['']) dest) (\<lambda>dest.
         let msg = msg\<lparr>color_range_start := length dest\<rparr>
         in bindR (view (to_string_view (msg_level msg)) dest) (\<lambda>dest.
         let msg = msg\<lparr>color_range_end := length dest\<rparr>
         in bindR (in_order [push_back CHR '']'', push_back CHR '' ''] dest) (\<lambda>dest.
         bindR (if source_empty (msg_source msg) then Inr dest
                else bindR (c_str (filename (msg_source msg))) (\<lambda>f. in_order
                  [push_back CHR ''['', view (basename f), push_back CHR '':'',
                   append_int 32 (line (msg_source msg)), push_back CHR '']'', push_back CHR '' ''] dest)) (\<lambda>dest.
         bindR (if mdc_context env = [] then Inr dest
                else in_order [push_back CHR ''['', format_mdc NullPadder no_padding (mdc_context env),
                       push_back CHR '']'', push_back CHR '' ''] dest) (\<lambda>dest.
         bindR (view (msg_payload msg) dest) (\<lambda>dest. Inr (c, msg, dest)))))))))"

end
