(* ===== verification/PatternFormatter.thy ===== *)
theory PatternFormatter
  imports PatternFlags
begin

text \<open>
  The class \<open>pattern_formatter\<close> of \<open>spdlog/pattern_formatter-inl.h\<close>: how a pattern such as the one of
  \<open>dwt::Logger::init\<close> is compiled into formatter objects and how these print a message. A formatter
  object is a value of \<open>flag_formatter\<close> with the members its class keeps.
\<close>

section \<open>Formatter objects\<close>

text \<open>The classes whose objects only keep their padding.\<close>

datatype flag_class =
    Name_f | Level_f | Short_level_f | V_f
  | Short_weekday_f | Weekday_f | Short_month_f | Month_f | Datetime_f | Year2_f | Date_f | Year4_f
  | Month2_f | Day2_f | Hour24_f | Hour12_f | Minute_f | Second_f | Milli_f | Micro_f | Nano_f | Epoch_f
  | Ampm_f | Clock12_f | Hour_minute_f | Iso_time_f | Thread_f | Pid_f
  | Source_location_f | Source_filename_f | Short_filename_f | Source_linenum_f | Source_funcname_f | Mdc_f

datatype flag_formatter =
    Padded flag_class padder padding_info
  | Zone padder padding_info int int
  | Elapsed padder padding_info int int
  | Full int string
  | Ch char
  | Aggregate string
  | ColorStart
  | ColorStop
  | Custom nat padding_info

primrec class_format :: "log_env \<Rightarrow> flag_class \<Rightarrow> format_fun" where
  "class_format env Name_f = name_formatter"
| "class_format env Level_f = level_formatter"
| "class_format env Short_level_f = short_level_formatter"
| "class_format env V_f = v_formatter"
| "class_format env Short_weekday_f = a_formatter"
| "class_format env Weekday_f = A_formatter"
| "class_format env Short_month_f = b_formatter"
| "class_format env Month_f = B_formatter"
| "class_format env Datetime_f = c_formatter"
| "class_format env Year2_f = C_formatter"
| "class_format env Date_f = D_formatter"
| "class_format env Year4_f = Y_formatter"
| "class_format env Month2_f = m_formatter"
| "class_format env Day2_f = d_formatter"
| "class_format env Hour24_f = H_formatter"
| "class_format env Hour12_f = I_formatter"
| "class_format env Minute_f = M_formatter"
| "class_format env Second_f = S_formatter"
| "class_format env Milli_f = e_formatter"
| "class_format env Micro_f = f_formatter"
| "class_format env Nano_f = F_formatter"
| "class_format env Epoch_f = E_formatter"
| "class_format env Ampm_f = p_formatter"
| "class_format env Clock12_f = r_formatter"
| "class_format env Hour_minute_f = R_formatter"
| "class_format env Iso_time_f = T_formatter"
| "class_format env Thread_f = t_formatter"
| "class_format env Pid_f = pid_formatter env"
| "class_format env Source_location_f = source_location_formatter"
| "class_format env Source_filename_f = source_filename_formatter"
| "class_format env Short_filename_f = short_filename_formatter"
| "class_format env Source_linenum_f = source_linenum_formatter"
| "class_format env Source_funcname_f = source_funcname_formatter"
| "class_format env Mdc_f = mdc_formatter env"

text \<open>The virtual \<open>format\<close>: it may update the object and the color range of the message.\<close>

primrec flag_format ::
    "log_env \<Rightarrow> flag_formatter \<Rightarrow> log_msg \<Rightarrow> log_tm \<Rightarrow> string \<Rightarrow> (flag_formatter \<times> log_msg \<times> string) res" where
  "flag_format env (Padded c p padinfo) msg tm_time dest =
     bindR (class_format env c p padinfo msg tm_time dest) (\<lambda>dest. Inr (Padded c p padinfo, msg, dest))"
| "flag_format env (Zone p padinfo latest offset) msg tm_time dest =
     bindR (z_formatter p padinfo msg tm_time (latest, offset) dest) (\<lambda>((latest, offset), dest).
       Inr (Zone p padinfo latest offset, msg, dest))"
| "flag_format env (Elapsed p padinfo u latest) msg tm_time dest =
     bindR (elapsed_formatter p padinfo u msg latest dest) (\<lambda>(latest, dest).
       Inr (Elapsed p padinfo u latest, msg, dest))"
| "flag_format env (Full ts cached) msg tm_time dest =
     bindR (full_formatter env msg tm_time (ts, cached) dest) (\<lambda>((ts, cached), msg, dest).
       Inr (Full ts cached, msg, dest))"
| "flag_format env (Ch c) msg tm_time dest = Inr (Ch c, msg, dest @ [c])"
| "flag_format env (Aggregate s) msg tm_time dest = Inr (Aggregate s, msg, append_string_view s dest)"
| "flag_format env ColorStart msg tm_time dest = Inr (ColorStart, msg\<lparr>color_range_start := length dest\<rparr>, dest)"
| "flag_format env ColorStop msg tm_time dest = Inr (ColorStop, msg\<lparr>color_range_end := length dest\<rparr>, dest)"
| "flag_format env (Custom i padinfo) msg tm_time dest =
     bindR (custom_format env i padinfo msg tm_time dest) (\<lambda>dest. Inr (Custom i padinfo, msg, dest))"

section \<open>pattern_formatter\<close>

datatype pattern_time_type = local_time | utc_time

record pattern_formatter =
  pattern :: string
  pf_eol :: string
  time_type :: pattern_time_type
  need_localtime :: bool
  cached_tm :: log_tm
  last_log_secs :: int
  formatters :: "flag_formatter list"
  custom_handlers :: "char \<rightharpoonup> nat"

definition add_formatter :: "flag_formatter \<Rightarrow> pattern_formatter \<Rightarrow> pattern_formatter" where
  "add_formatter f pf = pf\<lparr>formatters := formatters pf @ [f]\<rparr>"

text \<open>
  The cases of the \<open>switch\<close> in \<open>handle_flag_\<close> that make a formatter with no more than its padding, each
  with whether it sets \<open>need_localtime_\<close>.
\<close>

definition builtin_flags :: "(char \<times> flag_class \<times> bool) list" where
  "builtin_flags =
     [(CHR ''n'', Name_f, False), (CHR ''l'', Level_f, False), (CHR ''L'', Short_level_f, False),
      (CHR ''t'', Thread_f, False), (CHR ''v'', V_f, False), (CHR ''a'', Short_weekday_f, True),
      (CHR ''A'', Weekday_f, True), (CHR ''b'', Short_month_f, True), (CHR ''h'', Short_month_f, True),
      (CHR ''B'', Month_f, True), (CHR ''c'', Datetime_f, True), (CHR ''C'', Year2_f, True),
      (CHR ''Y'', Year4_f, True), (CHR ''D'', Date_f, True), (CHR ''x'', Date_f, True),
      (CHR ''m'', Month2_f, True), (CHR ''d'', Day2_f, True), (CHR ''H'', Hour24_f, True),
      (CHR ''I'', Hour12_f, True), (CHR ''M'', Minute_f, True), (CHR ''S'', Second_f, True),
      (CHR ''e'', Milli_f, False), (CHR ''f'', Micro_f, False), (CHR ''F'', Nano_f, False),
      (CHR ''E'', Epoch_f, False), (CHR ''p'', Ampm_f, True), (CHR ''r'', Clock12_f, True),
      (CHR ''R'', Hour_minute_f, True), (CHR ''T'', Iso_time_f, True), (CHR ''X'', Iso_time_f, True),
      (CHR ''P'', Pid_f, False), (CHR ''@'', Source_location_f, False), (CHR ''s'', Short_filename_f, False),
      (CHR ''g'', Source_filename_f, False), (CHR ''#'', Source_linenum_f, False),
      (CHR ''!'', Source_funcname_f, False), (CHR ''&'', Mdc_f, False)]"

text \<open>The four \<open>elapsed_formatter\<close> flags with their units.\<close>

definition elapsed_flags :: "(char \<times> int) list" where
  "elapsed_flags = [(CHR ''u'', 1), (CHR ''i'', 1000), (CHR ''o'', 1000000), (CHR ''O'', 1000000000)]"

text \<open>
  An unknown flag appears as it is; after a truncation mark the mark was the flag of the function name.
\<close>

definition add_unknown :: "padder \<Rightarrow> char \<Rightarrow> padding_info \<Rightarrow> pattern_formatter \<Rightarrow> pattern_formatter" where
  "add_unknown p flag padding pf =
     (if \<not> pad_truncate padding then add_formatter (Aggregate [CHR ''%'', flag]) pf
      else add_formatter (Aggregate [flag])
             (add_formatter (Padded Source_funcname_f p (padding\<lparr>pad_truncate := False\<rparr>)) pf))"

definition handle_flag ::
    "log_env \<Rightarrow> padder \<Rightarrow> char \<Rightarrow> padding_info \<Rightarrow> pattern_formatter \<Rightarrow> pattern_formatter" where
  "handle_flag env p flag padding pf =
     (case custom_handlers pf flag of
        Some i \<Rightarrow> add_formatter (Custom i padding) pf
      | None \<Rightarrow>
          (case map_of builtin_flags flag of
             Some (c, loc) \<Rightarrow>
               let pf = add_formatter (Padded c p padding) pf
               in if loc then pf\<lparr>need_localtime := True\<rparr> else pf
           | None \<Rightarrow>
               (case map_of elapsed_flags flag of
                  Some u \<Rightarrow> add_formatter (Elapsed p padding u (os_now env)) pf
                | None \<Rightarrow>
                    if flag = CHR ''+'' then (add_formatter (Full 0 []) pf)\<lparr>need_localtime := True\<rparr>
                    else if flag = CHR ''z'' then (add_formatter (Zone p padding 0 0) pf)\<lparr>need_localtime := True\<rparr>
                    else if flag = CHR ''^'' then add_formatter ColorStart pf
                    else if flag = CHR ''$'' then add_formatter ColorStop pf
                    else if flag = CHR ''%'' then add_formatter (Ch CHR ''%'') pf
                    else add_unknown p flag padding pf)))"

section \<open>Compiling a pattern\<close>

definition is_digit :: "char \<Rightarrow> bool" where
  "is_digit c \<longleftrightarrow> CHR ''0'' \<le> c \<and> c \<le> CHR ''9''"

text \<open>The loop that reads the width, a \<open>size_t\<close>, to the first character that is not a digit.\<close>

fun read_width :: "nat \<Rightarrow> string \<Rightarrow> nat \<times> string" where
  "read_width width [] = (width, [])"
| "read_width width (c # it) =
     (if is_digit c then read_width ((width * 10 + digit_value c) mod 2 ^ 64) it else (width, c # it))"

definition max_width :: nat where
  "max_width = 64"

text \<open>
  An iterator is what is left of the pattern. The specification is an optional side, digits and an
  optional truncation mark.
\<close>

definition padspec_side :: "string \<Rightarrow> pad_side \<times> string" where
  "padspec_side it =
     (if hd it = CHR ''-'' then (pad_right, tl it)
      else if hd it = CHR ''='' then (pad_center, tl it) else (pad_left, it))"

definition padspec_truncate :: "string \<Rightarrow> bool \<times> string" where
  "padspec_truncate it = (if it \<noteq> [] \<and> hd it = CHR ''!'' then (True, tl it) else (False, it))"

definition handle_padspec :: "string \<Rightarrow> padding_info \<times> string" where
  "handle_padspec it =
     (if it = [] then (no_padding, it)
      else (case padspec_side it of (side, it) \<Rightarrow>
        if it = [] \<or> \<not> is_digit (hd it) then (no_padding, it)
        else case read_width (digit_value (hd it)) (tl it) of (width, it) \<Rightarrow>
             case padspec_truncate it of (mark, it) \<Rightarrow> (new_padding (min width max_width) side mark, it)))"

lemma read_width_length: "read_width n s = (w, s') \<Longrightarrow> length s' \<le> length s"
  by (induction n s rule: read_width.induct) (auto split: if_splits)

lemma padspec_side_length: "padspec_side it = (side, it') \<Longrightarrow> length it' \<le> length it"
  by (auto simp: padspec_side_def split: if_splits)

lemma padspec_truncate_length: "padspec_truncate it = (b, it') \<Longrightarrow> length it' \<le> length it"
  by (auto simp: padspec_truncate_def split: if_splits)

lemma handle_padspec_length: "handle_padspec it = (padding, it') \<Longrightarrow> length it' \<le> length it"
  by (auto simp: handle_padspec_def split: if_splits prod.splits
      dest!: read_width_length padspec_side_length padspec_truncate_length)

text \<open>
  The loop of \<open>compile_pattern_\<close>: \<open>user_chars\<close> is the aggregate of the raw characters so far, a null
  pointer at first and after it has been moved into \<open>formatters_\<close>.
\<close>

definition flush_chars :: "string option \<Rightarrow> pattern_formatter \<Rightarrow> pattern_formatter" where
  "flush_chars user_chars pf =
     (case user_chars of None \<Rightarrow> pf | Some s \<Rightarrow> add_formatter (Aggregate s) pf)"

definition add_ch :: "char \<Rightarrow> string option \<Rightarrow> string option" where
  "add_ch c user_chars = (case user_chars of None \<Rightarrow> Some [c] | Some s \<Rightarrow> Some (s @ [c]))"

function compile_loop ::
    "log_env \<Rightarrow> string \<Rightarrow> string option \<Rightarrow> pattern_formatter \<Rightarrow> pattern_formatter" where
  "compile_loop env [] user_chars pf = flush_chars user_chars pf"
| "compile_loop env (c # it) user_chars pf =
     (if c = CHR ''%''
      then let pf = flush_chars user_chars pf
           in (case handle_padspec it of
                 (padding, []) \<Rightarrow> pf
               | (padding, flag # it) \<Rightarrow>
                   compile_loop env it None
                     (handle_flag env (if pad_enabled padding then ScopedPadder else NullPadder) flag padding pf))
      else compile_loop env it (add_ch c user_chars) pf)"
  by pat_completeness auto
termination
  by (relation "measure (\<lambda>(env, it, u, pf). length it)") (auto dest!: handle_padspec_length [OF sym])

definition compile_pattern :: "log_env \<Rightarrow> string \<Rightarrow> pattern_formatter \<Rightarrow> pattern_formatter" where
  "compile_pattern env pat pf = compile_loop env pat None (pf\<lparr>formatters := []\<rparr>)"

definition new_pattern_formatter ::
    "log_env \<Rightarrow> string \<Rightarrow> pattern_time_type \<Rightarrow> string \<Rightarrow> (char \<rightharpoonup> nat) \<Rightarrow> pattern_formatter" where
  "new_pattern_formatter env pat ty eol custom =
     compile_pattern env pat
       \<lparr>pattern = pat, pf_eol = eol, time_type = ty, need_localtime = False, cached_tm = zero_tm,
        last_log_secs = 0, formatters = [], custom_handlers = custom\<rparr>"

text \<open>The constructor that is given no pattern.\<close>

definition default_pattern_formatter :: "pattern_time_type \<Rightarrow> string \<Rightarrow> pattern_formatter" where
  "default_pattern_formatter ty eol =
     \<lparr>pattern = ''%+'', pf_eol = eol, time_type = ty, need_localtime = True, cached_tm = zero_tm,
      last_log_secs = 0, formatters = [Full 0 []], custom_handlers = Map.empty\<rparr>"

definition clone_formatter :: "log_env \<Rightarrow> pattern_formatter \<Rightarrow> pattern_formatter" where
  "clone_formatter env pf =
     (new_pattern_formatter env (pattern pf) (time_type pf) (pf_eol pf) (custom_handlers pf))
       \<lparr>need_localtime := need_localtime pf\<rparr>"

definition set_pattern :: "log_env \<Rightarrow> string \<Rightarrow> pattern_formatter \<Rightarrow> pattern_formatter" where
  "set_pattern env pat pf = compile_pattern env pat (pf\<lparr>pattern := pat, need_localtime := False\<rparr>)"

section \<open>Formatting a message\<close>

definition msg_secs :: "log_msg \<Rightarrow> int" where
  "msg_secs msg = duration_cast ns_per_sec (msg_time msg)"

definition get_time :: "log_env \<Rightarrow> pattern_formatter \<Rightarrow> log_msg \<Rightarrow> log_tm" where
  "get_time env pf msg =
     (if time_type pf = local_time then os_localtime env (msg_secs msg) else os_gmtime env (msg_secs msg))"

definition refresh_tm :: "log_env \<Rightarrow> log_msg \<Rightarrow> pattern_formatter \<Rightarrow> pattern_formatter" where
  "refresh_tm env msg pf =
     (if need_localtime pf \<and> msg_secs msg \<noteq> last_log_secs pf
      then pf\<lparr>cached_tm := get_time env pf msg, last_log_secs := msg_secs msg\<rparr> else pf)"

fun run_formatters ::
    "log_env \<Rightarrow> flag_formatter list \<Rightarrow> log_msg \<Rightarrow> log_tm \<Rightarrow> string \<Rightarrow>
     (flag_formatter list \<times> log_msg \<times> string) res" where
  "run_formatters env [] msg tm_time dest = Inr ([], msg, dest)"
| "run_formatters env (f # fs) msg tm_time dest =
     bindR (flag_format env f msg tm_time dest) (\<lambda>(f, msg, dest).
     bindR (run_formatters env fs msg tm_time dest) (\<lambda>(fs, msg, dest). Inr (f # fs, msg, dest)))"

text \<open>The formatter, the message with its color range and the buffer after the call.\<close>

definition format_message ::
    "log_env \<Rightarrow> pattern_formatter \<Rightarrow> log_msg \<Rightarrow> string \<Rightarrow> (pattern_formatter \<times> log_msg \<times> string) res" where
  "format_message env pf msg dest =
     (let pf = refresh_tm env msg pf
      in bindR (run_formatters env (formatters pf) msg (cached_tm pf) dest) (\<lambda>(fs, msg, dest).
           Inr (pf\<lparr>formatters := fs\<rparr>, msg, append_string_view (pf_eol pf) dest)))"

end
