(* ===== verification/PatternText.thy ===== *)
theory PatternText
  imports PatternFormatter
begin

text \<open>
  What the formatters of \<open>spdlog/pattern_formatter-inl.h\<close> print: the text of every class, padded as its
  specification says, and the text of a list of formatters. The padding is never wider than the 64
  blanks \<open>scoped_padder\<close> can write.
\<close>

section \<open>What the padding adds\<close>

definition blanks :: "nat \<Rightarrow> string" where
  "blanks n = replicate n (CHR '' '')"

definition pad_text :: "padding_info \<Rightarrow> string \<Rightarrow> string" where
  "pad_text padinfo s =
     (let w = pad_width padinfo; n = w - length s; h = n div 2
      in if w \<le> length s then (if pad_truncate padinfo then take w s else s)
         else case padding_side padinfo of
             pad_left \<Rightarrow> blanks n @ s
           | pad_right \<Rightarrow> s @ blanks n
           | pad_center \<Rightarrow> blanks h @ s @ blanks (n - h))"

definition padded :: "padder \<Rightarrow> padding_info \<Rightarrow> string \<Rightarrow> string" where
  "padded p padinfo s = (if p = ScopedPadder then pad_text padinfo s else s)"

lemma length_blanks [simp]: "length (blanks n) = n"
  by (simp add: blanks_def)

lemma blanks_0 [simp]: "blanks 0 = []"
  by (simp add: blanks_def)

lemma length_pad_text: "length s \<le> pad_width padinfo \<Longrightarrow> length (pad_text padinfo s) = pad_width padinfo"
  by (auto simp: pad_text_def Let_def split: pad_side.split)

lemma length_pad_text_truncate:
  "pad_truncate padinfo \<Longrightarrow> length (pad_text padinfo s) = pad_width padinfo"
  by (auto simp: pad_text_def Let_def split: pad_side.split)

lemma length_spaces: "length spaces = 64"
  by (simp add: spaces_def)

lemma pad_it_blanks: "n \<le> 64 \<Longrightarrow> pad_it (int n) dest = Inr (dest @ blanks n)"
  by (simp add: pad_it_def length_spaces append_string_view_def spaces_def blanks_def)

lemma half_int: "int n div 2 = int (n div 2)" "int n mod 2 = int (n mod 2)"
  by (simp_all add: zdiv_int zmod_int)

lemma with_padder_text:
  assumes body: "\<And>d. body d = Inr (d @ s)" and w: "pad_width padinfo \<le> 64"
  shows "with_padder p padinfo (length s) body dest = Inr (dest @ padded p padinfo s)"
proof (cases p)
  case NullPadder
  then show ?thesis by (simp add: with_padder_def padded_def body)
next
  case ScopedPadder
  let ?w = "pad_width padinfo"
  show ?thesis
  proof (cases "length s < ?w")
    case True
    define n where "n = ?w - length s"
    then have n: "int ?w - int (length s) = int n" "0 < n" "n \<le> 64" using True w by auto
    have h: "n div 2 \<le> 64" "n div 2 + n mod 2 = n - n div 2" using n by (simp, presburger)
    have b: "padder_begin (length s) padinfo dest =
        (case padding_side padinfo of
           pad_left \<Rightarrow> Inr (0, dest @ blanks n)
         | pad_right \<Rightarrow> Inr (int n, dest)
         | pad_center \<Rightarrow> Inr (int (n - n div 2), dest @ blanks (n div 2)))"
      using n h by (auto simp: padder_begin_def half_int pad_it_blanks simp flip: of_nat_add split: pad_side.split)
    have e: "padder_end padinfo (int k) d = Inr (d @ blanks k)" if "k \<le> 64" for k d
      using that by (simp add: padder_end_def pad_it_blanks)
    have e0: "padder_end padinfo 0 d = Inr d" for d using e [of 0 d] by simp
    have "n - n div 2 \<le> 64" "int n - int (n div 2) = int (n - n div 2)" using n(3) by (simp_all add: of_nat_diff)
    note m = e [OF this(1), folded this(2)]
    show ?thesis using True
      by (cases "padding_side padinfo")
        (simp_all add: ScopedPadder with_padder_def b body e [OF n(3)] m e0 padded_def pad_text_def n_def [symmetric] Let_def)
  next
    case False
    then have r: "int ?w - int (length s) \<le> 0" by simp
    have "padder_end padinfo (int ?w - int (length s)) (dest @ s) =
        Inr (dest @ (if pad_truncate padinfo then take ?w s else s))"
    proof (cases "?w = length s")
      case True
      then show ?thesis using pad_it_blanks [of 0 "dest @ s"] by (simp add: padder_end_def)
    next
      case F: False
      with False have "nat (int (length dest) + int ?w) = length dest + ?w" by linarith
      with F False show ?thesis by (auto simp: padder_end_def Let_def)
    qed
    with False r show ?thesis
      by (simp add: ScopedPadder with_padder_def padder_begin_def body padded_def pad_text_def Let_def)
  qed
qed
section \<open>What a formatter prints\<close>

definition two :: "int \<Rightarrow> string" where
  "two n = zero_padded 2 (nat n)"

definition clock_text :: "int list \<Rightarrow> string" where
  "clock_text ns = concat (map (\<lambda>n. two n @ '':'') (butlast ns)) @ two (last ns)"

definition source_text :: "log_msg \<Rightarrow> (source_loc \<Rightarrow> string) \<Rightarrow> string" where
  "source_text msg f = (if source_empty (msg_source msg) then [] else f (msg_source msg))"

text \<open>One field of text per entry of the diagnostic context, a blank after each but the last.\<close>

fun mdc_fields :: "(string \<times> string) list \<Rightarrow> string list" where
  "mdc_fields [] = []"
| "mdc_fields ((key, val) # rest) = (key @ '':'' @ val @ (if rest \<noteq> [] then '' '' else [])) # mdc_fields rest"

primrec class_text :: "log_env \<Rightarrow> log_msg \<Rightarrow> log_tm \<Rightarrow> flag_class \<Rightarrow> string" where
  "class_text env msg t Name_f = msg_logger_name msg"
| "class_text env msg t Level_f = to_string_view (msg_level msg)"
| "class_text env msg t Short_level_f = to_short_c_str (msg_level msg)"
| "class_text env msg t V_f = msg_payload msg"
| "class_text env msg t Short_weekday_f = days ! nat (tm_wday t)"
| "class_text env msg t Weekday_f = full_days ! nat (tm_wday t)"
| "class_text env msg t Short_month_f = months ! nat (tm_mon t)"
| "class_text env msg t Month_f = full_months ! nat (tm_mon t)"
| "class_text env msg t Datetime_f =
     days ! nat (tm_wday t) @ '' '' @ months ! nat (tm_mon t) @ '' '' @ dec (nat (tm_mday t)) @ '' '' @
     clock_text [tm_hour t, tm_min t, tm_sec t] @ '' '' @ dec (nat (tm_year t + 1900))"
| "class_text env msg t Year2_f = two (tm_year t mod 100)"
| "class_text env msg t Date_f = two (tm_mon t + 1) @ ''/'' @ two (tm_mday t) @ ''/'' @ two (tm_year t mod 100)"
| "class_text env msg t Year4_f = dec (nat (tm_year t + 1900))"
| "class_text env msg t Month2_f = two (tm_mon t + 1)"
| "class_text env msg t Day2_f = two (tm_mday t)"
| "class_text env msg t Hour24_f = two (tm_hour t)"
| "class_text env msg t Hour12_f = two (to12h t)"
| "class_text env msg t Minute_f = two (tm_min t)"
| "class_text env msg t Second_f = two (tm_sec t)"
| "class_text env msg t Milli_f = zero_padded 3 (nat (msg_time msg mod ns_per_sec div 1000000))"
| "class_text env msg t Micro_f = zero_padded 6 (nat (msg_time msg mod ns_per_sec div 1000))"
| "class_text env msg t Nano_f = zero_padded 9 (nat (msg_time msg mod ns_per_sec))"
| "class_text env msg t Epoch_f = dec (nat (msg_time msg div ns_per_sec))"
| "class_text env msg t Ampm_f = ampm t"
| "class_text env msg t Clock12_f = clock_text [to12h t, tm_min t, tm_sec t] @ '' '' @ ampm t"
| "class_text env msg t Hour_minute_f = clock_text [tm_hour t, tm_min t]"
| "class_text env msg t Iso_time_f = clock_text [tm_hour t, tm_min t, tm_sec t]"
| "class_text env msg t Thread_f = dec (msg_thread_id msg)"
| "class_text env msg t Pid_f = dec (os_pid env)"
| "class_text env msg t Source_location_f = source_text msg (\<lambda>s. the (filename s) @ '':'' @ dec (nat (line s)))"
| "class_text env msg t Source_filename_f = source_text msg (\<lambda>s. the (filename s))"
| "class_text env msg t Short_filename_f = source_text msg (\<lambda>s. basename (the (filename s)))"
| "class_text env msg t Source_linenum_f = source_text msg (\<lambda>s. dec (nat (line s)))"
| "class_text env msg t Source_funcname_f = source_text msg (\<lambda>s. the (funcname s))"
| "class_text env msg t Mdc_f = concat (mdc_fields (mdc_context env))"

text \<open>
  Calendar times and messages as the C library and the logger make them. Three classes announce a
  fixed size to their padder, the others the length of what they print.
\<close>

definition calendar_ok :: "log_tm \<Rightarrow> bool" where
  "calendar_ok t \<longleftrightarrow>
     0 \<le> tm_year t \<and> tm_year t < 2 ^ 31 - 1900 \<and> 0 \<le> tm_mon t \<and> tm_mon t < 12 \<and>
     1 \<le> tm_mday t \<and> tm_mday t \<le> 31 \<and> 0 \<le> tm_hour t \<and> tm_hour t < 24 \<and>
     0 \<le> tm_min t \<and> tm_min t < 60 \<and> 0 \<le> tm_sec t \<and> tm_sec t \<le> 60 \<and> 0 \<le> tm_wday t \<and> tm_wday t < 7"

definition message_ok :: "log_env \<Rightarrow> log_msg \<Rightarrow> bool" where
  "message_ok env msg \<longleftrightarrow>
     0 \<le> msg_time msg \<and> msg_time msg < 2 ^ 63 \<and> msg_thread_id msg < 2 ^ 64 \<and> os_pid env < 2 ^ 32 \<and>
     line (msg_source msg) < 2 ^ 31 \<and>
     (source_empty (msg_source msg) \<or> filename (msg_source msg) \<noteq> None \<and> funcname (msg_source msg) \<noteq> None)"

definition announced_size :: "log_env \<Rightarrow> log_msg \<Rightarrow> log_tm \<Rightarrow> flag_class \<Rightarrow> nat" where
  "announced_size env msg t c =
     (case c of
        Datetime_f \<Rightarrow> 24 | Year4_f \<Rightarrow> 4 | Epoch_f \<Rightarrow> 10
      | _ \<Rightarrow> length (class_text env msg t c))"

text \<open>The diagnostic context pads every field of its own.\<close>

definition class_output :: "log_env \<Rightarrow> log_msg \<Rightarrow> log_tm \<Rightarrow> flag_class \<Rightarrow> padder \<Rightarrow> padding_info \<Rightarrow> string" where
  "class_output env msg t c p padinfo =
     (if c = Mdc_f \<and> mdc_context env \<noteq> []
      then concat (map (padded p padinfo) (mdc_fields (mdc_context env)))
      else padded p padinfo (class_text env msg t c))"

lemma two_eq [simp]: "0 \<le> n \<Longrightarrow> n < 100 \<Longrightarrow> pad2 n dest = Inr (dest @ two n)"
  by (simp add: pad2_eq two_def)

lemma length_two: "0 \<le> n \<Longrightarrow> n < 100 \<Longrightarrow> length (two n) = 2"
  by (simp add: two_def length_zero_padded)

lemma append_int_nat: "0 \<le> n \<Longrightarrow> n < 2 ^ 31 \<Longrightarrow> append_int 32 n dest = Inr (dest @ dec (nat n))"
  by (simp add: append_int_eq show_int_def)

lemma append_int_nat64: "0 \<le> n \<Longrightarrow> n < 2 ^ 63 \<Longrightarrow> append_int 64 n dest = Inr (dest @ dec (nat n))"
  by (simp add: append_int_eq show_int_def)

lemma view_eq [simp]: "view s dest = Inr (dest @ s)"
  by (simp add: view_def append_string_view_def)

lemma push_back_eq [simp]: "push_back c dest = Inr (dest @ [c])"
  by (simp add: push_back_def)

lemma c_rem_eq: "0 \<le> a \<Longrightarrow> 0 < b \<Longrightarrow> c_rem a b = a mod b"
  by (simp add: c_rem_def duration_cast_def minus_div_mult_eq_mod)

lemma to12h_bounds: "0 \<le> tm_hour t \<Longrightarrow> tm_hour t < 24 \<Longrightarrow> 0 \<le> to12h t \<and> to12h t < 100"
  by (simp add: to12h_def)

lemma table_text:
  assumes "0 \<le> i" and "nat i < length xs" and "pad_width padinfo \<le> 64"
  shows "table_formatter xs i p padinfo dest = Inr (dest @ padded p padinfo (xs ! nat i))"
  using assms by (simp add: table_formatter_def array_at_def with_padder_text)
text \<open>A padder that was told the length of the text pads the text.\<close>

lemma with_padder_announced:
  assumes "\<And>d. body d = Inr (d @ s)" and "pad_width padinfo \<le> 64" and "n = length s \<or> p = NullPadder"
  shows "with_padder p padinfo n body dest = Inr (dest @ padded p padinfo s)"
  using with_padder_text [of body s padinfo p dest] assms by (auto simp: with_padder_def)

lemma array_at_ok: "0 \<le> i \<Longrightarrow> nat i < length xs \<Longrightarrow> array_at xs i = Inr (xs ! nat i)"
  by (simp add: array_at_def)

lemma length_tables: "length days = 7" "length full_days = 7" "length months = 12" "length full_months = 12"
  by (simp_all add: days_def full_days_def months_def full_months_def)

lemma calendar_okD:
  assumes "calendar_ok t"
  shows "0 \<le> tm_year t" "tm_year t + 1900 < 2 ^ 31" "0 \<le> tm_mon t" "tm_mon t < 12" "0 \<le> tm_mday t" "tm_mday t < 100"
    "tm_mday t < 2 ^ 31" "0 \<le> tm_hour t" "tm_hour t < 100" "0 \<le> tm_min t" "tm_min t < 100" "0 \<le> tm_sec t" "tm_sec t < 100"
    "0 \<le> tm_wday t" "tm_wday t < 7" "0 \<le> to12h t" "to12h t < 100"
    "nat (tm_wday t) < length days" "nat (tm_wday t) < length full_days"
    "nat (tm_mon t) < length months" "nat (tm_mon t) < length full_months"
  using assms by (simp_all add: calendar_ok_def to12h_def length_tables nat_less_iff)

lemma fraction_text:
  assumes "0 \<le> t" and "0 < u" and "u dvd ns_per_sec" and "w = 32 \<or> w = 64"
  shows "nat (time_fraction u t mod 2 ^ w) = nat (t mod ns_per_sec div u)"
    and "nat (t mod ns_per_sec div u) < nat (ns_per_sec div u)"
proof -
  note b = time_fraction_bound [OF assms(1-3)] and e = time_fraction_eq [OF assms(1-3)]
  have "ns_per_sec div u \<le> ns_per_sec" using zdiv_mono2 [of ns_per_sec 1 u] assms(2) by (simp add: ns_per_sec_def)
  moreover have "ns_per_sec < 2 ^ w" using assms(4) by (auto simp: ns_per_sec_def)
  ultimately have "time_fraction u t < 2 ^ w" using b(2) by linarith
  with b(1) e show "nat (time_fraction u t mod 2 ^ w) = nat (t mod ns_per_sec div u)" by simp
  from b e show "nat (t mod ns_per_sec div u) < nat (ns_per_sec div u)" by simp
qed

text \<open>The units the fractions use.\<close>

lemma fraction_units:
  "(0::int) < 1000000" "1000000 dvd ns_per_sec" "nat (ns_per_sec div 1000000) = 1000"
  "(0::int) < 1000" "1000 dvd ns_per_sec" "nat (ns_per_sec div 1000) = 1000000"
  "(0::int) < 1" "1 dvd ns_per_sec" "nat (ns_per_sec div 1) = 1000000000"
  by (simp_all add: ns_per_sec_def)

lemma fraction_ms: "0 \<le> t \<Longrightarrow>
    nat (time_fraction 1000000 t mod 4294967296) = nat (t mod ns_per_sec div 1000000)"
  "0 \<le> t \<Longrightarrow> nat (t mod ns_per_sec div 1000000) < 1000"
  using fraction_text [OF _ fraction_units(1,2), of t 32] by (simp_all add: fraction_units)

lemma fraction_us: "0 \<le> t \<Longrightarrow>
    nat (time_fraction 1000 t mod 18446744073709551616) = nat (t mod ns_per_sec div 1000)"
  "0 \<le> t \<Longrightarrow> nat (t mod ns_per_sec div 1000) < 1000000"
  using fraction_text [OF _ fraction_units(4,5), of t 64] by (simp_all add: fraction_units)

lemma fraction_ns: "0 \<le> t \<Longrightarrow>
    nat (time_fraction 1 t mod 18446744073709551616) = nat (t mod ns_per_sec)"
  "nat (t mod ns_per_sec) < 1000000000"
  using fraction_text [OF _ fraction_units(7,8), of t 64] by (simp_all add: nat_less_iff ns_per_sec_def)

lemma datetime_text:
  assumes "calendar_ok t" and "pad_width padinfo \<le> 64"
    and "length (class_text env msg t Datetime_f) = 24 \<or> p = NullPadder"
  shows "c_formatter p padinfo msg t dest = Inr (dest @ padded p padinfo (class_text env msg t Datetime_f))"
proof -
  note t = calendar_okD [OF assms(1)]
  have y: "append_int 32 (tm_year t + 1900) d = Inr (d @ dec (nat (tm_year t + 1900)))" for d
    using t(1,2) by (intro append_int_nat) simp_all
  show ?thesis
    unfolding c_formatter_def
    using assms(2,3) t by (intro with_padder_announced) (auto simp: y array_at_ok append_int_nat clock_text_def)
qed

lemma class_format_date:
  assumes "calendar_ok t" and "pad_width padinfo \<le> 64"
    and "announced_size env msg t c = length (class_text env msg t c) \<or> p = NullPadder"
    and "c \<in> {Short_weekday_f, Weekday_f, Short_month_f, Month_f, Year2_f, Date_f, Year4_f,
      Month2_f, Day2_f, Hour24_f, Hour12_f, Minute_f, Second_f}"
  shows "class_format env c p padinfo msg t dest = Inr (dest @ padded p padinfo (class_text env msg t c))"
proof -
  note t = calendar_okD [OF assms(1)] and w = assms(2)
  have y: "append_int 32 (tm_year t + 1900) d = Inr (d @ dec (nat (tm_year t + 1900)))" for d
    using t(1,2) by (intro append_int_nat) simp_all
  have yy: "pad2 (c_rem (tm_year t) 100) d = Inr (d @ two (tm_year t mod 100))" for d
    using t(1) by (simp add: c_rem_eq)
  have m: "pad2 (tm_mon t + 1) d = Inr (d @ two (tm_mon t + 1))" for d using t(3,4) by simp
  have l: "length (two (tm_mon t + 1)) = 2" "length (two (tm_year t mod 100)) = 2"
    using t(3,4) by (simp_all add: length_two)
  from assms(4) show ?thesis using assms(3) w
    by (elim insertE emptyE)
      (simp_all add: a_formatter_def A_formatter_def b_formatter_def B_formatter_def table_text t
        C_formatter_def D_formatter_def Y_formatter_def m_formatter_def d_formatter_def H_formatter_def
        I_formatter_def M_formatter_def S_formatter_def announced_size_def array_at_ok y yy m l
        append_int_nat clock_text_def length_two with_padder_announced)
qed

lemma class_format_time:
  assumes "calendar_ok t" and "message_ok env msg" and "pad_width padinfo \<le> 64"
    and "announced_size env msg t c = length (class_text env msg t c) \<or> p = NullPadder"
    and "c \<in> {Name_f, Level_f, Short_level_f, V_f, Milli_f, Micro_f, Nano_f, Epoch_f, Ampm_f, Clock12_f,
      Hour_minute_f, Iso_time_f}"
  shows "class_format env c p padinfo msg t dest = Inr (dest @ padded p padinfo (class_text env msg t c))"
proof -
  note t = calendar_okD [OF assms(1)] and w = assms(3)
  from assms(2) have m: "0 \<le> msg_time msg" "msg_time msg < 2 ^ 63" by (simp_all add: message_ok_def)
  have "msg_time msg div ns_per_sec \<le> msg_time msg"
    using zdiv_mono2 [of "msg_time msg" 1 ns_per_sec] m(1) by (simp add: ns_per_sec_def)
  then have s: "append_int 64 (duration_cast ns_per_sec (msg_time msg)) d =
      Inr (d @ dec (nat (msg_time msg div ns_per_sec)))" for d
    using m by (simp add: duration_cast_def append_int_nat64 pos_imp_zdiv_nonneg_iff ns_per_sec_def)
  note f = fraction_ms [OF m(1)] fraction_us [OF m(1)] fraction_ns(1) [OF m(1)] fraction_ns(2)
  have ps: "pad3 32 n d = Inr (d @ zero_padded 3 n)" if "n < 1000" for n d by (rule pad3_eq [OF that])
  have p6: "pad6 n d = Inr (d @ zero_padded 6 n)" if "n < 1000000" for n d
    using that by (simp add: pad6_def pad_uint_eq)
  have p9: "pad9 n d = Inr (d @ zero_padded 9 n)" if "n < 1000000000" for n d
    using that by (simp add: pad9_def pad_uint_eq)
  have ap: "length (ampm t) = 2" by (simp add: ampm_def)
  have l: "length (zero_padded 3 (nat (msg_time msg mod ns_per_sec div 1000000))) = 3"
    "length (zero_padded 6 (nat (msg_time msg mod ns_per_sec div 1000))) = 6"
    "length (zero_padded 9 (nat (msg_time msg mod ns_per_sec))) = 9"
    using f(2,4,6) by (auto intro!: length_zero_padded)
  from assms(5) show ?thesis using assms(4) w
    by (elim insertE emptyE)
      (simp_all add: name_formatter_def level_formatter_def short_level_formatter_def v_formatter_def
        e_formatter_def f_formatter_def F_formatter_def E_formatter_def p_formatter_def r_formatter_def
        R_formatter_def T_formatter_def announced_size_def t s f ps p6 p9 ap l Let_def
        clock_text_def length_two with_padder_announced)
qed

lemma message_okD:
  assumes "message_ok env msg"
  shows "msg_thread_id msg < 2 ^ 64" "os_pid env < 2 ^ 32" "line (msg_source msg) < 2 ^ 31"
    and "\<not> source_empty (msg_source msg) \<Longrightarrow> \<exists>f. filename (msg_source msg) = Some f"
    and "\<not> source_empty (msg_source msg) \<Longrightarrow> \<exists>f. funcname (msg_source msg) = Some f"
    and "\<not> source_empty (msg_source msg) \<Longrightarrow> 0 < line (msg_source msg)"
  using assms by (auto simp: message_ok_def source_empty_def)

lemma padder_digits:
  "w = 32 \<or> w = 64 \<Longrightarrow> n < 2 ^ w \<Longrightarrow> padder_count_digits p w n = length (dec n) \<or> p = NullPadder"
  by (cases p) (auto simp: padder_count_digits_def count_digits_eq)

text \<open>Where there is no location the formatter pads the empty text.\<close>

lemma no_text: "pad_width padinfo \<le> 64 \<Longrightarrow> with_padder p padinfo 0 Inr dest = Inr (dest @ padded p padinfo [])"
  by (rule with_padder_announced) simp_all

lemma source_text_eq:
  assumes "pad_width padinfo \<le> 64" and "pad_enabled padinfo \<or> p = NullPadder"
    and "\<not> source_empty (msg_source msg) \<Longrightarrow> f (msg_source msg) = Inr (g (msg_source msg))"
  shows "source_text_formatter f p padinfo msg dest = Inr (dest @ padded p padinfo (source_text msg g))"
  using assms by (auto simp: source_text_formatter_def source_text_def no_text Let_def intro!: with_padder_announced)

lemma line_text:
  assumes "message_ok env msg" and "\<not> source_empty (msg_source msg)"
  shows "append_int 32 (line (msg_source msg)) d = Inr (d @ dec (nat (line (msg_source msg))))"
    and "line_digits p msg = length (dec (nat (line (msg_source msg)))) \<or> p = NullPadder"
proof -
  from message_okD(3,6) [OF assms(1)] assms(2) have l: "0 < line (msg_source msg)" "line (msg_source msg) < 2 ^ 31" by auto
  then show "append_int 32 (line (msg_source msg)) d = Inr (d @ dec (nat (line (msg_source msg))))"
    by (simp add: append_int_nat)
  from l show "line_digits p msg = length (dec (nat (line (msg_source msg)))) \<or> p = NullPadder"
    unfolding line_digits_def using padder_digits [of 32 "nat (line (msg_source msg))" p] by (simp add: nat_less_iff)
qed

lemma class_format_place:
  assumes "message_ok env msg" and "pad_width padinfo \<le> 64" and "pad_enabled padinfo \<or> p = NullPadder"
    and "c \<in> {Thread_f, Pid_f, Source_location_f, Source_filename_f, Short_filename_f, Source_linenum_f, Source_funcname_f}"
  shows "class_format env c p padinfo msg t dest = Inr (dest @ padded p padinfo (class_text env msg t c))"
proof -
  note m = message_okD [OF assms(1)] and w = assms(2) and l = line_text [OF assms(1)]
  have tid: "t_formatter p padinfo msg t dest = Inr (dest @ padded p padinfo (dec (msg_thread_id msg)))"
    unfolding t_formatter_def using m(1) w padder_digits [of 64 "msg_thread_id msg" p]
    by (intro with_padder_announced) (simp_all add: append_uint_eq)
  have pid: "pid_formatter env p padinfo msg t dest = Inr (dest @ padded p padinfo (dec (os_pid env)))"
    unfolding pid_formatter_def Let_def using m(2) w padder_digits [of 32 "os_pid env" p]
    by (intro with_padder_announced) (simp_all add: append_uint_eq)
  have num: "source_linenum_formatter p padinfo msg t dest =
      Inr (dest @ padded p padinfo (source_text msg (\<lambda>s. dec (nat (line s)))))"
    using l w by (auto simp: source_linenum_formatter_def source_text_def no_text intro!: with_padder_announced)
  have loc: "source_location_formatter p padinfo msg t dest =
      Inr (dest @ padded p padinfo (source_text msg (\<lambda>s. the (filename s) @ '':'' @ dec (nat (line s)))))"
  proof (cases "source_empty (msg_source msg)")
    case True
    then show ?thesis using w by (simp add: source_location_formatter_def source_text_def no_text)
  next
    case False
    with m(4) obtain f where f: "filename (msg_source msg) = Some f" by auto
    show ?thesis using l(1) [OF False] l(2) [OF False, of p] assms(3) w
      by (auto simp: source_location_formatter_def source_text_def False f c_str_def Let_def intro!: with_padder_announced)
  qed
  have fs: "source_text_formatter (\<lambda>s. c_str (filename s)) p padinfo msg dest =
      Inr (dest @ padded p padinfo (source_text msg (\<lambda>s. the (filename s))))"
    "source_text_formatter (\<lambda>s. bindR (c_str (filename s)) (\<lambda>f. Inr (basename f))) p padinfo msg dest =
      Inr (dest @ padded p padinfo (source_text msg (\<lambda>s. basename (the (filename s)))))"
    "source_text_formatter (\<lambda>s. c_str (funcname s)) p padinfo msg dest =
      Inr (dest @ padded p padinfo (source_text msg (\<lambda>s. the (funcname s))))"
    using m(4,5) by (intro source_text_eq [OF w assms(3)]; auto simp: c_str_def)+
  from assms(4) show ?thesis
    by (elim insertE emptyE)
      (simp_all add: tid pid num loc fs source_filename_formatter_def short_filename_formatter_def source_funcname_formatter_def)
qed

lemma format_mdc_text:
  assumes w: "pad_width padinfo \<le> 64"
  shows "format_mdc p padinfo ctx dest = Inr (dest @ concat (map (padded p padinfo) (mdc_fields ctx)))"
proof (induction ctx arbitrary: dest)
  case (Cons e rest)
  obtain key val where e: "e = (key, val)" by (cases e)
  have one: "with_padder p padinfo (length key + length val + 1) (in_order [view key, view '':'', view val]) dest =
      Inr (dest @ padded p padinfo (key @ '':'' @ val))"
    and two: "with_padder p padinfo (length key + length val + 1 + 1)
      (in_order [view key, view '':'', view val, view '' '']) dest = Inr (dest @ padded p padinfo (key @ '':'' @ val @ '' ''))"
    by (intro with_padder_announced [OF _ w]; simp)+
  show ?case
  proof (cases "rest = []")
    case True
    with one show ?thesis by (simp add: e)
  next
    case False
    with two Cons show ?thesis by (simp add: e)
  qed
qed simp

lemma mdc_format_text:
  assumes "pad_width padinfo \<le> 64"
  shows "mdc_formatter env p padinfo msg t dest = Inr (dest @ class_output env msg t Mdc_f p padinfo)"
  using assms by (simp add: mdc_formatter_def class_output_def no_text format_mdc_text)

definition padding_ok :: "padder \<Rightarrow> padding_info \<Rightarrow> bool" where
  "padding_ok p padinfo \<longleftrightarrow> pad_width padinfo \<le> 64 \<and> (pad_enabled padinfo \<or> p = NullPadder)"

definition announces :: "log_env \<Rightarrow> log_msg \<Rightarrow> log_tm \<Rightarrow> flag_class \<Rightarrow> padder \<Rightarrow> bool" where
  "announces env msg t c p \<longleftrightarrow> announced_size env msg t c = length (class_text env msg t c) \<or> p = NullPadder"

lemma class_format_output:
  assumes "calendar_ok t" and "message_ok env msg" and "padding_ok p padinfo" and "announces env msg t c p"
  shows "class_format env c p padinfo msg t dest = Inr (dest @ class_output env msg t c p padinfo)"
proof -
  from assms(3) have w: "pad_width padinfo \<le> 64" and e: "pad_enabled padinfo \<or> p = NullPadder"
    by (simp_all add: padding_ok_def)
  note a = assms(4) [unfolded announces_def]
  note d = class_format_date [OF assms(1) w a] class_format_time [OF assms(1,2) w a] class_format_place [OF assms(2) w e]
  show ?thesis
  proof (cases "c = Mdc_f \<or> c = Datetime_f")
    case True
    then show ?thesis using mdc_format_text [OF w, of env p msg t dest] datetime_text [OF assms(1) w, of env msg p dest] a
      by (auto simp: class_output_def announced_size_def)
  next
    case False
    then have o: "class_output env msg t c p padinfo = padded p padinfo (class_text env msg t c)"
      by (simp add: class_output_def)
    from False have "c \<in> {Short_weekday_f, Weekday_f, Short_month_f, Month_f, Year2_f, Date_f, Year4_f,
        Month2_f, Day2_f, Hour24_f, Hour12_f, Minute_f, Second_f} \<or>
      c \<in> {Name_f, Level_f, Short_level_f, V_f, Milli_f, Micro_f, Nano_f, Epoch_f, Ampm_f, Clock12_f,
        Hour_minute_f, Iso_time_f} \<or>
      c \<in> {Thread_f, Pid_f, Source_location_f, Source_filename_f, Short_filename_f, Source_linenum_f, Source_funcname_f}"
      by (cases c) simp_all
    with d show ?thesis unfolding o by blast
  qed
qed

section \<open>What a list of formatters prints\<close>

text \<open>Formatter objects with no state of their own that print what they announce.\<close>

primrec formatter_ok :: "log_env \<Rightarrow> log_msg \<Rightarrow> log_tm \<Rightarrow> flag_formatter \<Rightarrow> bool" where
  "formatter_ok env msg t (Padded c p padinfo) = (padding_ok p padinfo \<and> announces env msg t c p)"
| "formatter_ok env msg t (Zone p padinfo latest offset) = False"
| "formatter_ok env msg t (Elapsed p padinfo u latest) = False"
| "formatter_ok env msg t (Full ts cached) = False"
| "formatter_ok env msg t (Ch c) = True"
| "formatter_ok env msg t (Aggregate s) = True"
| "formatter_ok env msg t ColorStart = True"
| "formatter_ok env msg t ColorStop = True"
| "formatter_ok env msg t (Custom i padinfo) = False"

primrec formatter_text :: "log_env \<Rightarrow> log_msg \<Rightarrow> log_tm \<Rightarrow> flag_formatter \<Rightarrow> string" where
  "formatter_text env msg t (Padded c p padinfo) = class_output env msg t c p padinfo"
| "formatter_text env msg t (Zone p padinfo latest offset) = []"
| "formatter_text env msg t (Elapsed p padinfo u latest) = []"
| "formatter_text env msg t (Full ts cached) = []"
| "formatter_text env msg t (Ch c) = [c]"
| "formatter_text env msg t (Aggregate s) = s"
| "formatter_text env msg t ColorStart = []"
| "formatter_text env msg t ColorStop = []"
| "formatter_text env msg t (Custom i padinfo) = []"

definition all_text :: "log_env \<Rightarrow> log_msg \<Rightarrow> log_tm \<Rightarrow> flag_formatter list \<Rightarrow> string" where
  "all_text env msg t fs = concat (map (formatter_text env msg t) fs)"

text \<open>The color range of a message is not text.\<close>

definition colored :: "nat \<Rightarrow> nat \<Rightarrow> log_msg \<Rightarrow> log_msg" where
  "colored i j msg = msg\<lparr>color_range_start := i, color_range_end := j\<rparr>"

lemma class_text_colored: "class_text env (colored i j msg) t c = class_text env msg t c"
  by (cases c) (simp_all add: colored_def source_text_def)

lemma announces_colored: "announces env (colored i j msg) t c p = announces env msg t c p"
  by (simp only: announces_def announced_size_def class_text_colored)

lemma formatter_text_colored: "formatter_text env (colored i j msg) t f = formatter_text env msg t f"
  by (cases f) (simp_all add: class_output_def class_text_colored)

lemma formatter_ok_colored: "formatter_ok env (colored i j msg) t f = formatter_ok env msg t f"
  by (cases f) (simp_all add: announces_colored)

lemma all_text_colored: "all_text env (colored i j msg) t fs = all_text env msg t fs"
  unfolding all_text_def by (intro arg_cong [of _ _ concat] map_cong refl formatter_text_colored)

lemma message_ok_colored: "message_ok env (colored i j msg) = message_ok env msg"
  by (simp add: message_ok_def colored_def)

lemma colored_self: "colored (color_range_start msg) (color_range_end msg) msg = msg"
  by (simp add: colored_def)

lemma colored_colored: "colored i j (colored i' j' msg) = colored i j msg"
  by (simp add: colored_def)

lemma colored_sel: "color_range_start (colored i j msg) = i" "color_range_end (colored i j msg) = j"
  by (simp_all add: colored_def)

lemma flag_format_text:
  assumes "calendar_ok t" and "message_ok env msg" and "formatter_ok env msg t f"
    and "color_range_start msg \<le> length dest" and "color_range_end msg \<le> length dest"
  obtains i j where "flag_format env f msg t dest = Inr (f, colored i j msg, dest @ formatter_text env msg t f)"
    and "i \<le> length dest" and "j \<le> length dest"
proof (cases f)
  case (Padded c p padinfo)
  with that [of "color_range_start msg" "color_range_end msg"] class_format_output [OF assms(1,2)] assms(3-5) show ?thesis
    by (simp add: colored_self)
next
  case ColorStart
  with that [of "length dest" "color_range_end msg"] assms(5) show ?thesis by (simp add: colored_def)
next
  case ColorStop
  with that [of "color_range_start msg" "length dest"] assms(4) show ?thesis by (simp add: colored_def)
qed (use that [of "color_range_start msg" "color_range_end msg"] assms(3-5) in
      \<open>simp_all add: colored_self append_string_view_def\<close>)

lemma run_formatters_text:
  assumes "calendar_ok t" and "message_ok env msg" and "\<forall>f\<in>set fs. formatter_ok env msg t f"
    and "color_range_start msg \<le> length dest" and "color_range_end msg \<le> length dest"
  shows "\<exists>i j. run_formatters env fs msg t dest = Inr (fs, colored i j msg, dest @ all_text env msg t fs) \<and>
    i \<le> length (dest @ all_text env msg t fs) \<and> j \<le> length (dest @ all_text env msg t fs)"
  using assms
proof (induction fs arbitrary: msg dest)
  case Nil
  then show ?case
    by (intro exI [of _ "color_range_start msg"] exI [of _ "color_range_end msg"]) (simp add: all_text_def colored_self)
next
  case (Cons f fs)
  from Cons.prems(3) have fo: "formatter_ok env msg t f" by simp
  obtain i j where f: "flag_format env f msg t dest = Inr (f, colored i j msg, dest @ formatter_text env msg t f)"
    and ij: "i \<le> length dest" "j \<le> length dest"
    by (rule flag_format_text [OF Cons.prems(1,2) fo Cons.prems(4,5)])
  let ?d = "dest @ formatter_text env msg t f"
  have "\<exists>i' j'. run_formatters env fs (colored i j msg) t ?d =
      Inr (fs, colored i' j' (colored i j msg), ?d @ all_text env (colored i j msg) t fs) \<and>
      i' \<le> length (?d @ all_text env (colored i j msg) t fs) \<and> j' \<le> length (?d @ all_text env (colored i j msg) t fs)"
    using Cons.prems ij by (intro Cons.IH) (simp_all add: message_ok_colored formatter_ok_colored colored_sel)
  then obtain i' j' where r: "run_formatters env fs (colored i j msg) t ?d = Inr (fs, colored i' j' msg, ?d @ all_text env msg t fs)"
    and l: "i' \<le> length (?d @ all_text env msg t fs)" "j' \<le> length (?d @ all_text env msg t fs)"
    unfolding all_text_colored colored_colored by blast
  have "all_text env msg t (f # fs) = formatter_text env msg t f @ all_text env msg t fs" by (simp add: all_text_def)
  with f r l show ?case by (intro exI [of _ i'] exI [of _ j']) simp
qed

lemma format_message_text:
  fixes env :: log_env and pf :: pattern_formatter and msg :: log_msg
  defines "t \<equiv> cached_tm (refresh_tm env msg pf)"
  assumes "calendar_ok t" and "message_ok env msg" and "\<forall>f\<in>set (formatters pf). formatter_ok env msg t f"
    and "color_range_start msg \<le> length dest" and "color_range_end msg \<le> length dest"
  shows "\<exists>i j. format_message env pf msg dest =
      Inr (refresh_tm env msg pf, colored i j msg, dest @ all_text env msg t (formatters pf) @ pf_eol pf) \<and>
    i \<le> length (dest @ all_text env msg t (formatters pf)) \<and> j \<le> length (dest @ all_text env msg t (formatters pf))"
proof -
  have r: "formatters (refresh_tm env msg pf) = formatters pf" "pf_eol (refresh_tm env msg pf) = pf_eol pf"
    by (simp_all add: refresh_tm_def)
  have "(refresh_tm env msg pf)\<lparr>formatters := formatters pf\<rparr> = refresh_tm env msg pf"
    by (simp add: refresh_tm_def)
  moreover obtain i j where "run_formatters env (formatters pf) msg t dest =
      Inr (formatters pf, colored i j msg, dest @ all_text env msg t (formatters pf))"
    and "i \<le> length (dest @ all_text env msg t (formatters pf))" "j \<le> length (dest @ all_text env msg t (formatters pf))"
    using run_formatters_text [OF assms(2-6)] by blast
  ultimately show ?thesis
    by (intro exI [of _ i] exI [of _ j]) (simp add: format_message_def Let_def t_def r append_string_view_def)
qed

end
