(* ===== verification/PatternCompile.thy ===== *)
theory PatternCompile
  imports PatternText
begin

text \<open>
  The compiler of patterns in \<open>spdlog/pattern_formatter-inl.h\<close>: the text of a list of items compiles to
  exactly what the items ask for, and no compiled padding is wider than \<open>scoped_padder\<close> can write.
\<close>

section \<open>Patterns as lists of items\<close>

text \<open>Raw text, or a flag with an optional padding specification: a side, a width and the truncation mark.\<close>

datatype pattern_item =
    Raw string
  | Flag "(pad_side \<times> nat \<times> bool) option" char

primrec side_text :: "pad_side \<Rightarrow> string" where
  "side_text pad_left = []"
| "side_text pad_right = ''-''"
| "side_text pad_center = ''=''"

fun spec_text :: "(pad_side \<times> nat \<times> bool) option \<Rightarrow> string" where
  "spec_text None = []"
| "spec_text (Some (side, w, mark)) = side_text side @ dec w @ (if mark then ''!'' else [])"

primrec item_text :: "pattern_item \<Rightarrow> string" where
  "item_text (Raw s) = s"
| "item_text (Flag spec c) = CHR ''%'' # spec_text spec @ [c]"

definition pattern_text :: "pattern_item list \<Rightarrow> string" where
  "pattern_text items = concat (map item_text items)"

text \<open>The items that can be told apart in the text.\<close>

fun item_ok :: "pattern_item \<Rightarrow> bool" where
  "item_ok (Raw s) = (s \<noteq> [] \<and> CHR ''%'' \<notin> set s)"
| "item_ok (Flag None c) = (c \<noteq> CHR ''-'' \<and> c \<noteq> CHR ''='' \<and> \<not> is_digit c)"
| "item_ok (Flag (Some (side, w, mark)) c) = (w \<le> max_width \<and> \<not> is_digit c \<and> (mark \<or> c \<noteq> CHR ''!''))"

fun is_raw :: "pattern_item list \<Rightarrow> bool" where
  "is_raw (Raw s # items) = True"
| "is_raw items = False"

fun items_ok :: "pattern_item list \<Rightarrow> bool" where
  "items_ok [] = True"
| "items_ok (i # items) = (item_ok i \<and> \<not> (is_raw [i] \<and> is_raw items) \<and> items_ok items)"

text \<open>What compiling an item adds to the formatter.\<close>

fun spec_padding :: "(pad_side \<times> nat \<times> bool) option \<Rightarrow> padding_info" where
  "spec_padding None = no_padding"
| "spec_padding (Some (side, w, mark)) = new_padding w side mark"

primrec apply_item :: "log_env \<Rightarrow> pattern_item \<Rightarrow> pattern_formatter \<Rightarrow> pattern_formatter" where
  "apply_item env (Raw s) pf = add_formatter (Aggregate s) pf"
| "apply_item env (Flag spec c) pf =
     handle_flag env (if spec = None then NullPadder else ScopedPadder) c (spec_padding spec) pf"

section \<open>Reading the text back\<close>

lemma dec_is_digit: "c \<in> set (dec n) \<Longrightarrow> is_digit c"
  by (simp add: is_digit_def dec_char_range)

lemma digit_value_ascii_less: "is_digit c \<Longrightarrow> digit_value c < 10"
  by (auto simp: is_digit_def less_eq_char_def digit_value_def)

lemma foldl_digits_mono: "a \<le> foldl (\<lambda>a c. 10 * a + digit_value c) a cs"
proof (induction cs arbitrary: a)
  case (Cons c cs)
  have "a \<le> 10 * a + digit_value c" by simp
  also have "\<dots> \<le> foldl (\<lambda>a c. 10 * a + digit_value c) (10 * a + digit_value c) cs" by (rule Cons.IH)
  finally show ?case by simp
qed simp

lemma read_width_digits:
  assumes "\<forall>c\<in>set ds. is_digit c" and "foldl (\<lambda>a c. 10 * a + digit_value c) n ds < 2 ^ 64" and "n < 2 ^ 64"
    and "rest = [] \<or> \<not> is_digit (hd rest)"
  shows "read_width n (ds @ rest) = (foldl (\<lambda>a c. 10 * a + digit_value c) n ds, rest)"
  using assms
proof (induction ds arbitrary: n)
  case Nil
  then show ?case by (cases rest) auto
next
  case (Cons c ds)
  let ?m = "10 * n + digit_value c"
  have m: "?m < 2 ^ 64" using foldl_digits_mono [of ?m ds] Cons.prems(2) by (simp del: power_numeral)
  then have "(n * 10 + digit_value c) mod 2 ^ 64 = ?m" by (simp add: mult.commute)
  then have "read_width n ((c # ds) @ rest) = read_width ?m (ds @ rest)" using Cons.prems(1) by (simp del: power_numeral)
  with Cons.IH [of ?m] Cons.prems m show ?case by simp
qed

lemma read_width_dec:
  assumes "w < 2 ^ 64" and "rest = [] \<or> \<not> is_digit (hd rest)"
  shows "read_width (digit_value (hd (dec w))) (tl (dec w) @ rest) = (w, rest)"
proof -
  obtain c ds where d: "dec w = c # ds" by (cases "dec w") (auto simp: dec.simps [of w] split: if_splits)
  have "foldl (\<lambda>a c. 10 * a + digit_value c) (digit_value c) ds = w"
    using undec_dec [of w] by (simp add: undec_def d)
  moreover have "digit_value c < 10" using dec_is_digit [of c w] by (simp add: d digit_value_ascii_less)
  then have "digit_value c < 2 ^ 64" by simp
  moreover have "\<forall>c\<in>set ds. is_digit c" using dec_is_digit [of _ w] by (auto simp: d)
  ultimately show ?thesis using read_width_digits [of ds "digit_value c" rest] assms by (simp add: d)
qed

lemma dec_first_digit: "is_digit (hd (dec n))"
  by (rule dec_is_digit [of _ n]) (simp add: hd_in_set)

lemma digit_not_side: "is_digit c \<Longrightarrow> c \<noteq> CHR ''-'' \<and> c \<noteq> CHR ''=''"
  by (auto simp: is_digit_def less_eq_char_def)

lemma padspec_side_text:
  "is_digit (hd s) \<Longrightarrow> s \<noteq> [] \<Longrightarrow> padspec_side (side_text side @ s) = (side, s)"
  using digit_not_side [of "hd s"] by (cases side) (auto simp: padspec_side_def)

lemma handle_padspec_text:
  assumes "item_ok (Flag spec c)"
  shows "handle_padspec (spec_text spec @ c # rest) = (spec_padding spec, c # rest)"
proof (cases spec)
  case None
  with assms show ?thesis by (simp add: handle_padspec_def padspec_side_def)
next
  case (Some swb)
  obtain side w b where s: "swb = (side, w, b)" by (cases swb)
  let ?tail = "(if b then ''!'' else []) @ c # rest"
  from assms have ok: "w \<le> max_width" "\<not> is_digit c" "b \<or> c \<noteq> CHR ''!''" by (simp_all add: Some s)
  have h: "hd (dec w @ ?tail) = hd (dec w)" "tl (dec w @ ?tail) = tl (dec w) @ ?tail" by simp_all
  have "padspec_side (side_text side @ dec w @ ?tail) = (side, dec w @ ?tail)"
    by (rule padspec_side_text) (simp_all add: dec_first_digit)
  moreover have "read_width (digit_value (hd (dec w))) (tl (dec w) @ ?tail) = (w, ?tail)"
    using ok by (intro read_width_dec) (auto simp: max_width_def is_digit_def less_eq_char_def)
  moreover have "padspec_truncate ?tail = (b, c # rest)" using ok(3) by (auto simp: padspec_truncate_def)
  ultimately show ?thesis using ok(1) dec_first_digit [of w] h
    by (simp add: handle_padspec_def Some s min_def)
qed

lemma compile_raw:
  "CHR ''%'' \<notin> set s \<Longrightarrow> compile_loop env (s @ it) (Some u) pf = compile_loop env it (Some (u @ s)) pf"
  by (induction s arbitrary: u) (auto simp: add_ch_def)

lemma compile_raw_first:
  assumes "CHR ''%'' \<notin> set s" and "s \<noteq> []"
  shows "compile_loop env (s @ it) None pf = compile_loop env it (Some s) pf"
  using assms by (cases s) (auto simp: add_ch_def compile_raw)

lemma spec_enabled: "pad_enabled (spec_padding spec) \<longleftrightarrow> spec \<noteq> None"
  by (cases spec rule: spec_padding.cases) (simp_all add: no_padding_def new_padding_def)

lemma compile_items:
  assumes "items_ok items" and "u = None \<or> \<not> is_raw items"
  shows "compile_loop env (pattern_text items) u pf = fold (apply_item env) items (flush_chars u pf)"
  using assms
proof (induction items arbitrary: u pf)
  case Nil
  then show ?case by (simp add: pattern_text_def)
next
  case (Cons i items)
  show ?case
  proof (cases i)
    case (Raw s)
    with Cons.prems have s: "CHR ''%'' \<notin> set s" "s \<noteq> []" "u = None" "\<not> is_raw items" by auto
    then have "compile_loop env (pattern_text (i # items)) u pf = compile_loop env (pattern_text items) (Some s) pf"
      by (simp add: pattern_text_def Raw compile_raw_first)
    also have "\<dots> = fold (apply_item env) items (flush_chars (Some s) pf)"
      using Cons s by simp
    finally show ?thesis by (simp add: Raw s(3) flush_chars_def)
  next
    case (Flag spec c)
    with Cons.prems have ok: "item_ok (Flag spec c)" by simp
    have "compile_loop env (pattern_text (i # items)) u pf =
        compile_loop env (pattern_text items) None
          (handle_flag env (if spec = None then NullPadder else ScopedPadder) c (spec_padding spec) (flush_chars u pf))"
      using handle_padspec_text [OF ok, of "pattern_text items"]
      by (simp add: pattern_text_def Flag spec_enabled)
    with Cons show ?thesis by (simp add: Flag flush_chars_def)
  qed
qed

lemma compile_pattern_items:
  "items_ok items \<Longrightarrow>
   compile_pattern env (pattern_text items) pf = fold (apply_item env) items (pf\<lparr>formatters := []\<rparr>)"
  by (simp add: compile_pattern_def compile_items flush_chars_def)

section \<open>Compiled padding is never too wide\<close>

primrec formatter_padding_ok :: "flag_formatter \<Rightarrow> bool" where
  "formatter_padding_ok (Padded c p padinfo) = padding_ok p padinfo"
| "formatter_padding_ok (Zone p padinfo latest offset) = padding_ok p padinfo"
| "formatter_padding_ok (Elapsed p padinfo u latest) = padding_ok p padinfo"
| "formatter_padding_ok (Full ts cached) = True"
| "formatter_padding_ok (Ch c) = True"
| "formatter_padding_ok (Aggregate s) = True"
| "formatter_padding_ok ColorStart = True"
| "formatter_padding_ok ColorStop = True"
| "formatter_padding_ok (Custom i padinfo) = (pad_width padinfo \<le> 64)"

definition paddings_ok :: "pattern_formatter \<Rightarrow> bool" where
  "paddings_ok pf \<longleftrightarrow> (\<forall>f\<in>set (formatters pf). formatter_padding_ok f)"

lemma paddings_ok_add: "paddings_ok (add_formatter f pf) \<longleftrightarrow> paddings_ok pf \<and> formatter_padding_ok f"
  by (auto simp: paddings_ok_def add_formatter_def)

lemma paddings_ok_localtime [simp]: "paddings_ok (pf\<lparr>need_localtime := b\<rparr>) = paddings_ok pf"
  by (simp add: paddings_ok_def)

lemma handle_padspec_width: "handle_padspec it = (padinfo, it') \<Longrightarrow> pad_width padinfo \<le> 64"
  by (auto simp: handle_padspec_def no_padding_def new_padding_def max_width_def split: if_splits prod.splits)

lemma handle_flag_cases:
  obtains i where "custom_handlers pf flag = Some i"
  | c loc where "custom_handlers pf flag = None" "map_of builtin_flags flag = Some (c, loc)"
  | u where "custom_handlers pf flag = None" "map_of builtin_flags flag = None" "map_of elapsed_flags flag = Some u"
  | "custom_handlers pf flag = None" "map_of builtin_flags flag = None" "map_of elapsed_flags flag = None"
  by (cases "custom_handlers pf flag"; cases "map_of builtin_flags flag"; cases "map_of elapsed_flags flag") auto

lemma handle_flag_paddings:
  assumes "paddings_ok pf" and "padding_ok p padinfo"
  shows "paddings_ok (handle_flag env p flag padinfo pf)"
proof -
  have "padding_ok p (padinfo\<lparr>pad_truncate := False\<rparr>)" "pad_width padinfo \<le> 64"
    using assms(2) by (simp_all add: padding_ok_def)
  with assms show ?thesis
    by (cases rule: handle_flag_cases [of pf flag]) (simp_all add: handle_flag_def add_unknown_def Let_def paddings_ok_add)
qed

text \<open>What raw text and every flag keep, the whole pattern keeps.\<close>

lemma compile_loop_keeps:
  assumes "\<And>s pf. P pf \<Longrightarrow> P (add_formatter (Aggregate s) pf)"
    and "\<And>p flag padinfo pf. P pf \<Longrightarrow> padding_ok p padinfo \<Longrightarrow> P (handle_flag env p flag padinfo pf)"
    and "P pf"
  shows "P (compile_loop env it u pf)"
  using assms
proof (induction env it u pf rule: compile_loop.induct)
  case (1 env u pf)
  then show ?case by (simp add: flush_chars_def split: option.split)
next
  case (2 env c it u pf)
  obtain padinfo it' where h: "handle_padspec it = (padinfo, it')" by (cases "handle_padspec it")
  have p: "padding_ok (if pad_enabled padinfo then ScopedPadder else NullPadder) padinfo"
    using handle_padspec_width [OF h] by (simp add: padding_ok_def)
  have f: "P (flush_chars u pf)" using 2 by (simp add: flush_chars_def split: option.split)
  show ?case
  proof (cases "c = CHR ''%''")
    case False
    with 2 show ?thesis by simp
  next
    case True
    with 2 h p f show ?thesis by (cases it') simp_all
  qed
qed

lemma compile_loop_paddings: "paddings_ok pf \<Longrightarrow> paddings_ok (compile_loop env it u pf)"
  by (rule compile_loop_keeps) (simp_all add: paddings_ok_add handle_flag_paddings)

end
