(* ===== verification/PatternTime.thy ===== *)
theory PatternTime
  imports PatternCompile
begin

text \<open>
  The caches of \<open>pattern_formatter::format\<close>: the flag \<open>need_localtime_\<close> is set whenever a formatter reads
  the calendar time, the calendar time is that of the second it was computed for, and a formatter with
  any history prints the text of its pattern at the time of the message.
\<close>

section \<open>Formatters that read the calendar time\<close>

definition time_classes :: "flag_class list" where
  "time_classes = [Short_weekday_f, Weekday_f, Short_month_f, Month_f, Datetime_f, Year2_f, Date_f, Year4_f,
     Month2_f, Day2_f, Hour24_f, Hour12_f, Minute_f, Second_f, Ampm_f, Clock12_f, Hour_minute_f, Iso_time_f]"

text \<open>A user formatter is given the time but says nothing about its use of it.\<close>

primrec needs_time :: "flag_formatter \<Rightarrow> bool" where
  "needs_time (Padded c p padinfo) = (c \<in> set time_classes)"
| "needs_time (Zone p padinfo latest offset) = True"
| "needs_time (Elapsed p padinfo u latest) = False"
| "needs_time (Full ts cached) = True"
| "needs_time (Ch c) = False"
| "needs_time (Aggregate s) = False"
| "needs_time ColorStart = False"
| "needs_time ColorStop = False"
| "needs_time (Custom i padinfo) = False"

primrec is_custom :: "flag_formatter \<Rightarrow> bool" where
  "is_custom (Padded c p padinfo) = False"
| "is_custom (Zone p padinfo latest offset) = False"
| "is_custom (Elapsed p padinfo u latest) = False"
| "is_custom (Full ts cached) = False"
| "is_custom (Ch c) = False"
| "is_custom (Aggregate s) = False"
| "is_custom ColorStart = False"
| "is_custom ColorStop = False"
| "is_custom (Custom i padinfo) = True"

lemma class_format_untimed:
  assumes "c \<notin> set time_classes"
  shows "class_format env c p padinfo msg t dest = class_format env c p padinfo msg t' dest"
  using assms
  by (cases c) (simp_all add: time_classes_def name_formatter_def level_formatter_def short_level_formatter_def v_formatter_def
      e_formatter_def f_formatter_def F_formatter_def E_formatter_def t_formatter_def pid_formatter_def
      source_location_formatter_def source_filename_formatter_def short_filename_formatter_def
      source_linenum_formatter_def source_funcname_formatter_def mdc_formatter_def)

lemma run_formatters_untimed:
  assumes "\<forall>f\<in>set fs. \<not> needs_time f \<and> \<not> is_custom f"
  shows "run_formatters env fs msg t dest = run_formatters env fs msg t' dest"
  using assms
proof (induction fs arbitrary: msg dest)
  case (Cons f fs)
  have "flag_format env f msg t dest = flag_format env f msg t' dest"
  proof (cases f)
    case (Padded c p padinfo)
    with Cons.prems have "c \<notin> set time_classes" by simp
    from class_format_untimed [OF this, of env p padinfo msg t dest t'] Padded show ?thesis by simp
  qed (use Cons.prems in simp_all)
  moreover have "run_formatters env fs = (\<lambda>msg tm dest. run_formatters env fs msg tm dest)" by simp
  ultimately show ?case using Cons by (simp cong: if_cong)
qed simp

section \<open>The flag need_localtime\<close>

text \<open>The flag is set by the time a formatter that reads the calendar time has been added.\<close>

definition localtime_ok :: "pattern_formatter \<Rightarrow> bool" where
  "localtime_ok pf \<longleftrightarrow> need_localtime pf \<or> (\<forall>f\<in>set (formatters pf). \<not> needs_time f)"

lemma localtime_ok_add: "localtime_ok pf \<Longrightarrow> \<not> needs_time f \<Longrightarrow> localtime_ok (add_formatter f pf)"
  by (auto simp: localtime_ok_def add_formatter_def)

lemma localtime_ok_set: "localtime_ok (pf\<lparr>need_localtime := True\<rparr>)"
  by (simp add: localtime_ok_def)

lemma builtin_flags_localtime:
  "map_of builtin_flags flag = Some (c, loc) \<Longrightarrow> loc \<longleftrightarrow> c \<in> set time_classes"
  by (drule map_of_SomeD) (auto simp: builtin_flags_def time_classes_def)

lemma handle_flag_localtime:
  assumes "localtime_ok pf"
  shows "localtime_ok (handle_flag env p flag padinfo pf)"
proof (cases rule: handle_flag_cases [of pf flag])
  case (2 c loc)
  from builtin_flags_localtime [OF this(2)] 2 show ?thesis
    by (simp add: handle_flag_def add_unknown_def Let_def localtime_ok_set localtime_ok_add assms)
next
  case 4
  have "Source_funcname_f \<notin> set time_classes" by (simp add: time_classes_def)
  with 4 show ?thesis by (simp add: handle_flag_def add_unknown_def Let_def localtime_ok_set localtime_ok_add assms)
qed (simp_all add: handle_flag_def add_unknown_def Let_def localtime_ok_set localtime_ok_add assms)

lemma compile_loop_localtime: "localtime_ok pf \<Longrightarrow> localtime_ok (compile_loop env it u pf)"
  by (rule compile_loop_keeps) (simp_all add: localtime_ok_add handle_flag_localtime)

section \<open>The cached calendar time\<close>

definition time_at :: "log_env \<Rightarrow> pattern_formatter \<Rightarrow> int \<Rightarrow> log_tm" where
  "time_at env pf secs = (if time_type pf = local_time then os_localtime env secs else os_gmtime env secs)"

definition tm_cached :: "log_env \<Rightarrow> pattern_formatter \<Rightarrow> bool" where
  "tm_cached env pf \<longleftrightarrow> last_log_secs pf = 0 \<or> cached_tm pf = time_at env pf (last_log_secs pf)"

lemma get_time_at: "get_time env pf msg = time_at env pf (msg_secs msg)"
  by (simp add: get_time_def time_at_def)

lemma refresh_tm_cached:
  assumes "tm_cached env pf" and "need_localtime pf" and "msg_secs msg \<noteq> 0"
  shows "cached_tm (refresh_tm env msg pf) = time_at env pf (msg_secs msg)"
  using assms by (auto simp: refresh_tm_def tm_cached_def get_time_at)

lemma tm_cached_refresh: "tm_cached env pf \<Longrightarrow> tm_cached env (refresh_tm env msg pf)"
  by (auto simp: refresh_tm_def tm_cached_def get_time_def time_at_def)

text \<open>Formatting changes nothing but the cache and the members of the formatter objects.\<close>

lemma flag_format_kind:
  "flag_format env f msg t dest = Inr (f', msg', dest') \<Longrightarrow> needs_time f' = needs_time f \<and> is_custom f' = is_custom f"
  by (cases f) (auto simp: bindR_eq_Inr split: prod.splits)

lemma run_formatters_kind:
  "run_formatters env fs msg t dest = Inr (fs', msg', dest') \<Longrightarrow> map needs_time fs' = map needs_time fs"
proof (induction fs arbitrary: msg dest fs' msg' dest')
  case (Cons f fs)
  from Cons.prems obtain f1 m1 d1 fs1 m2 d2 where "flag_format env f msg t dest = Inr (f1, m1, d1)"
    and "run_formatters env fs m1 t d1 = Inr (fs1, m2, d2)" and "fs' = f1 # fs1"
    by (auto simp: bindR_eq_Inr)
  with flag_format_kind Cons.IH show ?case by fastforce
qed simp

definition cache_inv :: "log_env \<Rightarrow> pattern_formatter \<Rightarrow> bool" where
  "cache_inv env pf \<longleftrightarrow> localtime_ok pf \<and> tm_cached env pf"

text \<open>What compiling leaves alone.\<close>

definition same_settings :: "pattern_formatter \<Rightarrow> pattern_formatter \<Rightarrow> bool" where
  "same_settings pf pf' \<longleftrightarrow>
     pattern pf' = pattern pf \<and> pf_eol pf' = pf_eol pf \<and> time_type pf' = time_type pf \<and> cached_tm pf' = cached_tm pf \<and>
     last_log_secs pf' = last_log_secs pf \<and> custom_handlers pf' = custom_handlers pf"

lemma handle_flag_settings: "same_settings pf (handle_flag env p flag padinfo pf)"
  by (cases rule: handle_flag_cases [of pf flag])
    (simp_all add: handle_flag_def add_unknown_def Let_def same_settings_def add_formatter_def)

lemma compile_loop_settings: "same_settings pf (compile_loop env it u pf)"
proof (rule compile_loop_keeps [of "same_settings pf"])
  show "same_settings pf (handle_flag env p flag padinfo pf')" if "same_settings pf pf'" for p flag padinfo pf'
    using that handle_flag_settings [of pf' env p flag padinfo] by (simp add: same_settings_def)
qed (simp_all add: same_settings_def add_formatter_def)

lemma tm_cached_settings: "same_settings pf pf' \<Longrightarrow> tm_cached env pf' = tm_cached env pf"
  by (simp add: same_settings_def tm_cached_def time_at_def)

lemma cache_inv_compile: "tm_cached env pf \<Longrightarrow> cache_inv env (compile_pattern env pat pf)"
proof -
  assume "tm_cached env pf"
  then have "tm_cached env (pf\<lparr>formatters := []\<rparr>)" by (simp add: tm_cached_def time_at_def)
  moreover have "localtime_ok (pf\<lparr>formatters := []\<rparr>)" by (simp add: localtime_ok_def)
  ultimately show ?thesis
    using tm_cached_settings [OF compile_loop_settings]
    by (simp add: cache_inv_def compile_pattern_def compile_loop_localtime)
qed

lemma cache_inv_new: "cache_inv env (new_pattern_formatter env pat ty eol custom)"
  unfolding new_pattern_formatter_def by (rule cache_inv_compile) (simp add: tm_cached_def)

lemma cache_inv_set_pattern: "cache_inv env pf \<Longrightarrow> cache_inv env (set_pattern env pat pf)"
  unfolding set_pattern_def by (rule cache_inv_compile) (simp add: cache_inv_def tm_cached_def time_at_def)

lemma cache_inv_format:
  assumes "cache_inv env pf" and "format_message env pf msg dest = Inr (pf', msg', dest')"
  shows "cache_inv env pf'"
proof -
  let ?r = "refresh_tm env msg pf"
  from assms(2) obtain fs m d where r: "run_formatters env (formatters pf) msg (cached_tm ?r) dest = Inr (fs, m, d)"
    and pf': "pf' = ?r\<lparr>formatters := fs\<rparr>"
    by (auto simp: format_message_def Let_def bindR_eq_Inr refresh_tm_def split: if_splits)
  have "(\<forall>f\<in>set fs. \<not> needs_time f) \<longleftrightarrow> (\<forall>b\<in>set (map needs_time fs). \<not> b)" by simp
  also have "\<dots> \<longleftrightarrow> (\<forall>f\<in>set (formatters pf). \<not> needs_time f)"
    using run_formatters_kind [OF r] by simp
  finally have "localtime_ok pf'" using assms(1) pf' by (simp add: cache_inv_def localtime_ok_def refresh_tm_def)
  moreover have "tm_cached env pf'"
    using assms(1) tm_cached_refresh [of env pf msg] pf' by (simp add: cache_inv_def tm_cached_def time_at_def)
  ultimately show ?thesis by (simp add: cache_inv_def)
qed

fun format_all :: "log_env \<Rightarrow> pattern_formatter \<Rightarrow> log_msg list \<Rightarrow> pattern_formatter res" where
  "format_all env pf [] = Inr pf"
| "format_all env pf (msg # msgs) = bindR (format_message env pf msg []) (\<lambda>(pf, _, _). format_all env pf msgs)"

lemma cache_inv_format_all: "cache_inv env pf \<Longrightarrow> format_all env pf msgs = Inr pf' \<Longrightarrow> cache_inv env pf'"
proof (induction msgs arbitrary: pf)
  case (Cons msg msgs)
  from Cons.prems obtain pf1 m d where "format_message env pf msg [] = Inr (pf1, m, d)"
    and "format_all env pf1 msgs = Inr pf'" by (auto simp: bindR_eq_Inr)
  with cache_inv_format [OF Cons.prems(1)] Cons.IH show ?case by blast
qed simp

section \<open>A formatter with its caches prints the time of the message\<close>

definition clock_ok :: "log_env \<Rightarrow> bool" where
  "clock_ok env \<longleftrightarrow> (\<forall>s. calendar_ok (os_localtime env s) \<and> calendar_ok (os_gmtime env s))"

lemma calendar_ok_get_time: "clock_ok env \<Longrightarrow> calendar_ok (get_time env pf msg)"
  by (simp add: clock_ok_def get_time_def)

lemma formatter_ok_not_custom: "formatter_ok env msg t f \<Longrightarrow> \<not> is_custom f"
  by (cases f) simp_all

lemma format_message_time:
  fixes env :: log_env and pf :: pattern_formatter and msg :: log_msg
  defines "t \<equiv> get_time env pf msg"
  assumes "cache_inv env pf" and "clock_ok env" and "message_ok env msg" and "msg_secs msg \<noteq> 0"
    and ok: "\<forall>f\<in>set (formatters pf). formatter_ok env msg t f"
    and c: "color_range_start msg \<le> length dest" "color_range_end msg \<le> length dest"
  shows "\<exists>pf' i j. format_message env pf msg dest =
      Inr (pf', colored i j msg, dest @ all_text env msg t (formatters pf) @ pf_eol pf) \<and>
    formatters pf' = formatters pf \<and>
    i \<le> length (dest @ all_text env msg t (formatters pf)) \<and> j \<le> length (dest @ all_text env msg t (formatters pf))"
proof -
  let ?r = "refresh_tm env msg pf"
  have "run_formatters env (formatters pf) msg (cached_tm ?r) dest = run_formatters env (formatters pf) msg t dest"
  proof (cases "need_localtime pf")
    case True
    with assms(2,5) have "cached_tm ?r = t"
      by (simp add: refresh_tm_cached cache_inv_def t_def get_time_at)
    then show ?thesis by simp
  next
    case False
    with assms(2) have "\<forall>f\<in>set (formatters pf). \<not> needs_time f \<and> \<not> is_custom f"
      using ok formatter_ok_not_custom by (auto simp: cache_inv_def localtime_ok_def)
    then show ?thesis by (rule run_formatters_untimed)
  qed
  moreover obtain i j where "run_formatters env (formatters pf) msg t dest =
      Inr (formatters pf, colored i j msg, dest @ all_text env msg t (formatters pf))"
    and "i \<le> length (dest @ all_text env msg t (formatters pf))" "j \<le> length (dest @ all_text env msg t (formatters pf))"
    using run_formatters_text [OF _ assms(4) ok c] calendar_ok_get_time [OF assms(3)] by (auto simp: t_def)
  moreover have "formatters ?r = formatters pf" "pf_eol ?r = pf_eol pf" by (simp_all add: refresh_tm_def)
  ultimately show ?thesis
    by (intro exI [of _ ?r] exI [of _ i] exI [of _ j]) (simp add: format_message_def Let_def append_string_view_def refresh_tm_def)
qed

end
