(* ===== verification/CircularQ.thy ===== *)
theory CircularQ
  imports Dwt_Prelude
begin

text \<open>
  \<open>spdlog/details/circular_q.h\<close>: a queue over a vector of \<open>max_items_\<close> slots, one of which is the marker
  of a full queue, that drops its oldest item when it has no room. The locale \<open>bounded_queue\<close> is the
  contract of such a queue and \<open>circular_q\<close> meets it. The indices are those of a \<open>size_t\<close>.
\<close>

section \<open>circular_q\<close>

record 'a circular_q =
  max_items :: nat
  q_head :: nat
  q_tail :: nat
  overrun_counter :: nat
  q_v :: "'a list"

text \<open>The queue that is disabled, and the one of a number of items; \<open>d\<close> is the default item.\<close>

definition disabled_q :: "'a circular_q" where
  "disabled_q = \<lparr>max_items = 0, q_head = 0, q_tail = 0, overrun_counter = 0, q_v = []\<rparr>"

definition new_circular_q :: "'a \<Rightarrow> nat \<Rightarrow> 'a circular_q" where
  "new_circular_q d n =
     (let m = (n + 1) mod 2 ^ 64
      in \<lparr>max_items = m, q_head = 0, q_tail = 0, overrun_counter = 0, q_v = replicate m d\<rparr>)"

definition q_next :: "'a circular_q \<Rightarrow> nat \<Rightarrow> nat" where
  "q_next q i = (i + 1) mod max_items q"

definition q_push_back :: "'a \<Rightarrow> 'a circular_q \<Rightarrow> 'a circular_q res" where
  "q_push_back item q =
     (if 0 < max_items q
      then if q_tail q < length (q_v q)
           then let q = q\<lparr>q_v := (q_v q)[q_tail q := item]\<rparr>;
                    q = q\<lparr>q_tail := q_next q (q_tail q)\<rparr>
                in Inr (if q_tail q = q_head q
                        then q\<lparr>q_head := q_next q (q_head q), overrun_counter := (overrun_counter q + 1) mod 2 ^ 64\<rparr>
                        else q)
           else Inl OutOfBounds
      else Inr q)"

definition q_front :: "'a circular_q \<Rightarrow> 'a res" where
  "q_front q = (if q_head q < length (q_v q) then Inr (q_v q ! q_head q) else Inl OutOfBounds)"

definition q_size :: "'a circular_q \<Rightarrow> nat" where
  "q_size q = (if q_head q \<le> q_tail q then q_tail q - q_head q else max_items q - (q_head q - q_tail q))"

definition q_at :: "'a circular_q \<Rightarrow> nat \<Rightarrow> 'a res" where
  "q_at q i =
     (if i < q_size q
      then let j = (q_head q + i) mod max_items q
           in if j < length (q_v q) then Inr (q_v q ! j) else Inl OutOfBounds
      else Inl Aborted)"

definition q_pop_front :: "'a circular_q \<Rightarrow> 'a circular_q res" where
  "q_pop_front q = (if max_items q = 0 then Inl Aborted else Inr (q\<lparr>q_head := q_next q (q_head q)\<rparr>))"

definition q_empty :: "'a circular_q \<Rightarrow> bool" where
  "q_empty q \<longleftrightarrow> q_tail q = q_head q"

definition q_full :: "'a circular_q \<Rightarrow> bool" where
  "q_full q \<longleftrightarrow> 0 < max_items q \<and> q_next q (q_tail q) = q_head q"

definition reset_overrun_counter :: "'a circular_q \<Rightarrow> 'a circular_q" where
  "reset_overrun_counter q = q\<lparr>overrun_counter := 0\<rparr>"

text \<open>What moving from a queue makes of the target and of the source.\<close>

definition copy_moveable :: "'a circular_q \<Rightarrow> 'a circular_q \<times> 'a circular_q" where
  "copy_moveable other =
     (other, other\<lparr>max_items := 0, q_head := 0, q_tail := 0, overrun_counter := 0, q_v := []\<rparr>)"

section \<open>The contract of a bounded queue\<close>

text \<open>A queue of at most \<open>n\<close> items keeps the last \<open>n\<close> it was given.\<close>

definition keep_last :: "nat \<Rightarrow> 'a list \<Rightarrow> 'a list" where
  "keep_last n xs = drop (length xs - n) xs"

lemma keep_last_short: "length xs \<le> n \<Longrightarrow> keep_last n xs = xs"
  by (simp add: keep_last_def)

lemma length_keep_last: "length (keep_last n xs) = min n (length xs)"
  by (simp add: keep_last_def)

lemma keep_last_append: "keep_last n (keep_last n xs @ ys) = keep_last n (xs @ ys)"
  by (cases "length xs \<le> n") (auto simp: keep_last_def add.commute)

text \<open>Pushing a list and popping a number of items, over any \<open>push\<close>, \<open>front\<close> and \<open>pop\<close>.\<close>

primrec push_all :: "('a \<Rightarrow> 'q \<Rightarrow> 'q res) \<Rightarrow> 'a list \<Rightarrow> 'q \<Rightarrow> 'q res" where
  "push_all push [] q = Inr q"
| "push_all push (x # xs) q = bindR (push x q) (push_all push xs)"

primrec pop_many :: "('q \<Rightarrow> 'a res) \<Rightarrow> ('q \<Rightarrow> 'q res) \<Rightarrow> nat \<Rightarrow> 'q \<Rightarrow> ('a list \<times> 'q) res" where
  "pop_many front pop 0 q = Inr ([], q)"
| "pop_many front pop (Suc n) q =
     bindR (front q) (\<lambda>x. bindR (pop q) (\<lambda>q. bindR (pop_many front pop n q) (\<lambda>(xs, q). Inr (x # xs, q))))"

locale bounded_queue =
  fixes ok :: "'q \<Rightarrow> bool"
    and cap :: "'q \<Rightarrow> nat"
    and contents :: "'q \<Rightarrow> 'a list"
    and push :: "'a \<Rightarrow> 'q \<Rightarrow> 'q res"
    and front :: "'q \<Rightarrow> 'a res"
    and pop :: "'q \<Rightarrow> 'q res"
  assumes bounded: "ok q \<Longrightarrow> length (contents q) \<le> cap q"
    and push_law: "ok q \<Longrightarrow> \<exists>q'. push x q = Inr q' \<and> ok q' \<and> cap q' = cap q \<and>
      contents q' = keep_last (cap q) (contents q @ [x])"
    and front_law: "ok q \<Longrightarrow> contents q = x # xs \<Longrightarrow> front q = Inr x"
    and pop_law: "ok q \<Longrightarrow> contents q = x # xs \<Longrightarrow> \<exists>q'. pop q = Inr q' \<and> ok q' \<and> cap q' = cap q \<and> contents q' = xs"
begin

lemma push_all_keeps:
  "ok q \<Longrightarrow> \<exists>q'. push_all push xs q = Inr q' \<and> ok q' \<and> cap q' = cap q \<and> contents q' = keep_last (cap q) (contents q @ xs)"
proof (induction xs arbitrary: q)
  case Nil
  then show ?case by (simp add: bounded keep_last_short)
next
  case (Cons x xs)
  from push_law [OF Cons.prems] obtain q1 where q1: "push x q = Inr q1" "ok q1" "cap q1 = cap q"
    "contents q1 = keep_last (cap q) (contents q @ [x])" by blast
  from Cons.IH [OF q1(2)] q1 show ?case by (auto simp: keep_last_append)
qed

lemma pop_many_fifo:
  "ok q \<Longrightarrow> n \<le> length (contents q) \<Longrightarrow>
   \<exists>q'. pop_many front pop n q = Inr (take n (contents q), q') \<and> ok q' \<and> cap q' = cap q \<and> contents q' = drop n (contents q)"
proof (induction n arbitrary: q)
  case (Suc n)
  then obtain x xs where c: "contents q = x # xs" by (cases "contents q") auto
  from pop_law [OF Suc.prems(1) c] obtain q1 where q1: "pop q = Inr q1" "ok q1" "cap q1 = cap q" "contents q1 = xs" by blast
  from Suc.IH [OF q1(2)] Suc.prems(2) q1 c front_law [OF Suc.prems(1) c] show ?case by auto
qed simp

text \<open>Everything pushed and then popped comes out in order, the oldest items missing when there was no room.\<close>

lemma push_then_pop:
  assumes "ok q" and "contents q = []"
  shows "\<exists>q1 q2. push_all push xs q = Inr q1 \<and> pop_many front pop (min (cap q) (length xs)) q1 = Inr (keep_last (cap q) xs, q2) \<and>
    contents q2 = []"
proof -
  from push_all_keeps [OF assms(1), of xs] assms(2) obtain q1 where q1: "push_all push xs q = Inr q1" "ok q1"
    "contents q1 = keep_last (cap q) xs" by auto
  from pop_many_fifo [OF q1(2), of "min (cap q) (length xs)"] q1 show ?thesis by (auto simp: length_keep_last)
qed

end

section \<open>circular_q is a bounded queue\<close>

definition circular_ok :: "'a circular_q \<Rightarrow> bool" where
  "circular_ok q \<longleftrightarrow>
     (if max_items q = 0 then q_head q = 0 \<and> q_tail q = 0
      else length (q_v q) = max_items q \<and> q_head q < max_items q \<and> q_tail q < max_items q)"

definition capacity :: "'a circular_q \<Rightarrow> nat" where
  "capacity q = max_items q - 1"

definition q_contents :: "'a circular_q \<Rightarrow> 'a list" where
  "q_contents q = map (\<lambda>i. q_v q ! ((q_head q + i) mod max_items q)) [0..<q_size q]"

lemma mod_cancel:
  fixes h i j m :: nat
  assumes "(h + i) mod m = (h + j) mod m" and "i < m" and "j < m"
  shows "i = j"
proof -
  have "h mod m + i mod m = h mod m + i" "h mod m + j mod m = h mod m + j" using assms by simp_all
  have "(int (h + i)) mod int m = (int (h + j)) mod int m" using assms(1) by (metis zmod_int)
  then have "int m dvd (int i - int j)" by (simp add: mod_eq_dvd_iff)
  moreover have "\<bar>int i - int j\<bar> < int m" using assms(2,3) by auto
  ultimately show ?thesis by (metis dvd_imp_le_int eq_iff_diff_eq_0 of_nat_eq_iff not_le abs_of_nat)
qed

text \<open>The tail is the size away from the head.\<close>

lemma size_tail:
  assumes "circular_ok q" and "0 < max_items q"
  shows "q_size q < max_items q" and "q_tail q = (q_head q + q_size q) mod max_items q"
proof -
  from assms have b: "q_head q < max_items q" "q_tail q < max_items q" by (auto simp: circular_ok_def)
  then show "q_size q < max_items q" by (auto simp: q_size_def)
  show "q_tail q = (q_head q + q_size q) mod max_items q"
  proof (cases "q_head q \<le> q_tail q")
    case True
    with b show ?thesis by (simp add: q_size_def)
  next
    case False
    with b have "q_head q + q_size q = max_items q + q_tail q" by (simp add: q_size_def)
    with b show ?thesis by simp
  qed
qed

lemma size_unique:
  assumes "circular_ok q" and "0 < max_items q" and "q_tail q = (q_head q + n) mod max_items q" and "n < max_items q"
  shows "q_size q = n"
  using mod_cancel [of "q_head q" "q_size q" "max_items q" n] size_tail [OF assms(1,2)] assms(3,4) by simp

lemma length_q_contents [simp]: "length (q_contents q) = q_size q"
  by (simp add: q_contents_def)

lemma q_contents_nth: "i < q_size q \<Longrightarrow> q_contents q ! i = q_v q ! ((q_head q + i) mod max_items q)"
  by (simp add: q_contents_def)

lemma q_at_contents:
  "circular_ok q \<Longrightarrow> i < q_size q \<Longrightarrow> q_at q i = Inr (q_contents q ! i)"
  by (auto simp: q_at_def q_contents_nth circular_ok_def q_size_def Let_def split: if_splits)

lemma q_empty_contents: "circular_ok q \<Longrightarrow> q_empty q \<longleftrightarrow> q_contents q = []"
  by (auto simp: q_empty_def circular_ok_def q_size_def simp flip: length_0_conv split: if_splits)

lemma q_front_contents: "circular_ok q \<Longrightarrow> q_contents q = x # xs \<Longrightarrow> q_front q = Inr x"
proof -
  assume ok: "circular_ok q" and c: "q_contents q = x # xs"
  then have "0 < q_size q" using length_q_contents [of q] by simp
  moreover from this ok have "0 < max_items q" by (auto simp: circular_ok_def q_size_def split: if_splits)
  ultimately show "q_front q = Inr x"
    using q_contents_nth [of 0 q] ok c by (auto simp: q_front_def circular_ok_def)
qed

lemma circular_size_0: "circular_ok q \<Longrightarrow> max_items q = 0 \<Longrightarrow> q_size q = 0"
  by (simp add: circular_ok_def q_size_def)

lemma capacity_bound: "circular_ok q \<Longrightarrow> q_size q \<le> capacity q"
  using size_tail(1) [of q] circular_size_0 [of q] by (cases "max_items q") (auto simp: capacity_def)

lemma q_pop_contents:
  assumes ok: "circular_ok q" and c: "q_contents q = x # xs"
  shows "\<exists>q'. q_pop_front q = Inr q' \<and> circular_ok q' \<and> capacity q' = capacity q \<and> q_contents q' = xs"
proof -
  let ?m = "max_items q" and ?q' = "q\<lparr>q_head := q_next q (q_head q)\<rparr>"
  from c have s: "q_size q = Suc (length xs)" using length_q_contents [of q] by simp
  with ok have m: "0 < ?m" using circular_size_0 [of q] by (cases ?m) auto
  from ok m have ok': "circular_ok ?q'" by (simp add: circular_ok_def q_next_def)
  have "q_tail ?q' = (q_head ?q' + length xs) mod max_items ?q'"
    using size_tail(2) [OF ok m] s by (simp add: q_next_def mod_add_left_eq)
  moreover have "length xs < ?m" using size_tail(1) [OF ok m] s by simp
  ultimately have s': "q_size ?q' = length xs" using size_unique [OF ok'] m by simp
  have "q_contents ?q' = xs"
  proof (rule nth_equalityI)
    show "length (q_contents ?q') = length xs" by (simp add: s')
    fix i assume "i < length (q_contents ?q')"
    then have i: "i < length xs" by (simp add: s')
    then have "q_contents ?q' ! i = q_v q ! ((q_head q + Suc i) mod ?m)"
      using s' by (simp add: q_contents_nth q_next_def mod_add_left_eq)
    also have "\<dots> = q_contents q ! Suc i" using i s by (simp add: q_contents_nth)
    finally show "q_contents ?q' ! i = xs ! i" by (simp add: c)
  qed
  with ok' m show ?thesis by (simp add: q_pop_front_def capacity_def)
qed

lemma q_push_contents:
  assumes ok: "circular_ok q"
  shows "\<exists>q'. q_push_back x q = Inr q' \<and> circular_ok q' \<and> capacity q' = capacity q \<and>
    q_contents q' = keep_last (capacity q) (q_contents q @ [x])"
proof (cases "max_items q = 0")
  case True
  with ok have "q_contents q = []" by (simp add: q_contents_def circular_size_0)
  with True ok show ?thesis by (simp add: q_push_back_def capacity_def keep_last_def)
next
  case False
  let ?m = "max_items q" and ?h = "q_head q" and ?n = "q_size q" and ?v = "(q_v q)[q_tail q := x]"
  from False have m: "0 < ?m" by simp
  note st = size_tail [OF ok m]
  from ok m have l: "length (q_v q) = ?m" "?h < ?m" "q_tail q < ?m" by (auto simp: circular_ok_def)
  have tl: "?v ! q_tail q = x" using l by simp
  have old: "?v ! ((?h + i) mod ?m) = q_contents q ! i" if "i < ?n" for i
  proof -
    have "(?h + i) mod ?m \<noteq> (?h + ?n) mod ?m" using mod_cancel [of ?h i ?m ?n] that st(1) by auto
    then show ?thesis using that st(2) by (simp add: q_contents_nth)
  qed
  have nt: "q_next q (q_tail q) = (?h + Suc ?n) mod ?m" using st(2) by (simp add: q_next_def mod_Suc_eq)
  show ?thesis
  proof (cases "Suc ?n < ?m")
    case True
    let ?q' = "q\<lparr>q_v := ?v, q_tail := q_next q (q_tail q)\<rparr>"
    have "q_next q (q_tail q) \<noteq> ?h"
    proof
      assume "q_next q (q_tail q) = ?h"
      then have "(?h + Suc ?n) mod ?m = (?h + 0) mod ?m" using nt l by simp
      from mod_cancel [OF this] True m show False by simp
    qed
    then have p: "q_push_back x q = Inr ?q'" using m l by (simp add: q_push_back_def q_next_def Let_def)
    have ok': "circular_ok ?q'" using l m by (simp add: circular_ok_def q_next_def)
    have s': "q_size ?q' = Suc ?n" using size_unique [OF ok', of "Suc ?n"] nt m True by simp
    have "q_contents ?q' = q_contents q @ [x]"
    proof (rule nth_equalityI)
      fix i assume "i < length (q_contents ?q')"
      then have "i < Suc ?n" by (simp add: s')
      then show "q_contents ?q' ! i = (q_contents q @ [x]) ! i"
        using old [of i] tl st(2) s' by (auto simp: q_contents_nth nth_append less_Suc_eq)
    qed (simp add: s')
    moreover have "length (q_contents q @ [x]) \<le> capacity q" using True by (simp add: capacity_def)
    ultimately show ?thesis using p ok' by (simp add: keep_last_short capacity_def)
  next
    case F: False
    let ?h' = "q_next q ?h"
    define c where "c = (overrun_counter q + 1) mod 2 ^ 64"
    let ?q' = "q\<lparr>q_v := ?v, q_tail := q_next q (q_tail q), q_head := ?h', overrun_counter := c\<rparr>"
    from F st(1) have n: "Suc ?n = ?m" by simp
    then have "q_next q (q_tail q) = ?h" using nt l by simp
    then have p: "q_push_back x q = Inr ?q'" using m l by (simp add: q_push_back_def q_next_def Let_def c_def)
    have ok': "circular_ok ?q'" using l m by (simp add: circular_ok_def q_next_def)
    have "q_tail ?q' = (q_head ?q' + ?n) mod max_items ?q'"
      using nt by (simp add: q_next_def mod_add_left_eq)
    then have s': "q_size ?q' = ?n" using size_unique [OF ok'] m st(1) by simp
    have "q_contents ?q' = drop 1 (q_contents q @ [x])"
    proof (rule nth_equalityI)
      fix i assume "i < length (q_contents ?q')"
      then have i: "i < ?n" by (simp add: s')
      then have "q_contents ?q' ! i = ?v ! ((?h + Suc i) mod ?m)"
        using s' by (simp add: q_contents_nth q_next_def mod_add_left_eq)
      then show "q_contents ?q' ! i = drop 1 (q_contents q @ [x]) ! i"
        using old [of "Suc i"] tl st(2) i by (cases "Suc i = ?n") (auto simp: nth_append)
    qed (simp add: s')
    moreover have "keep_last (capacity q) (q_contents q @ [x]) = drop 1 (q_contents q @ [x])"
      using n by (simp add: keep_last_def capacity_def)
    ultimately show ?thesis using p ok' by (simp add: capacity_def)
  qed
qed

interpretation cq: bounded_queue circular_ok capacity q_contents q_push_back q_front q_pop_front
  by unfold_locales (simp_all add: capacity_bound q_push_contents q_front_contents q_pop_contents)

lemma new_circular_q_ok: "circular_ok (new_circular_q d n)" "q_contents (new_circular_q d n) = []"
  by (simp_all add: new_circular_q_def circular_ok_def q_contents_def q_size_def Let_def)

lemma capacity_new: "n + 1 < 2 ^ 64 \<Longrightarrow> capacity (new_circular_q d n) = n"
  by (simp add: new_circular_q_def capacity_def Let_def)

lemma disabled_q_ok: "circular_ok disabled_q" "q_contents disabled_q = []" "capacity disabled_q = 0"
  by (simp_all add: disabled_q_def circular_ok_def q_contents_def q_size_def capacity_def)

lemma copy_moveable_ok:
  "circular_ok q \<Longrightarrow> circular_ok (fst (copy_moveable q)) \<and> circular_ok (snd (copy_moveable q)) \<and>
     q_contents (fst (copy_moveable q)) = q_contents q \<and> q_contents (snd (copy_moveable q)) = []"
  by (simp add: copy_moveable_def circular_ok_def q_contents_def q_size_def)

lemma q_full_iff: "circular_ok q \<Longrightarrow> q_full q \<longleftrightarrow> 0 < max_items q \<and> length (q_contents q) = capacity q"
proof (cases "max_items q = 0")
  case False
  assume ok: "circular_ok q"
  from False have m: "0 < max_items q" by simp
  note st = size_tail [OF ok m]
  have h: "q_head q < max_items q" using ok m by (simp add: circular_ok_def split: if_splits)
  have "q_next q (q_tail q) = (q_head q + Suc (q_size q)) mod max_items q" using st(2) by (simp add: q_next_def mod_Suc_eq)
  moreover have "(q_head q + Suc (q_size q)) mod max_items q = q_head q \<longleftrightarrow> Suc (q_size q) = max_items q"
    using mod_cancel [of "q_head q" "Suc (q_size q)" "max_items q" 0] st(1) h by (cases "Suc (q_size q) = max_items q") auto
  ultimately show ?thesis using m st(1) by (auto simp: q_full_def capacity_def)
qed (simp add: q_full_def)

end
