(* ===== verification/LogQueues.thy ===== *)
theory LogQueues
  imports CircularQ LogLevel "HOL-Library.Sublist"
begin

text \<open>
  Two users of the circular queue: \<open>spdlog/details/mpmc_blocking_q.h\<close>, the queue between the threads that
  log and the threads that write, and \<open>spdlog/details/backtracer-inl.h\<close>, which keeps the last messages.
  Every operation runs under the queue's mutex, so a run is a sequence of operations; an operation
  that has to wait on a condition variable is \<open>None\<close>.
\<close>

section \<open>mpmc_blocking_queue\<close>

record 'a mpmc_queue =
  mpmc_q :: "'a circular_q"
  discard_counter :: nat

definition new_mpmc :: "'a \<Rightarrow> nat \<Rightarrow> 'a mpmc_queue" where
  "new_mpmc d n = \<lparr>mpmc_q = new_circular_q d n, discard_counter = 0\<rparr>"

definition enqueue_nowait :: "'a \<Rightarrow> 'a mpmc_queue \<Rightarrow> 'a mpmc_queue res" where
  "enqueue_nowait item Q = bindR (q_push_back item (mpmc_q Q)) (\<lambda>q. Inr (Q\<lparr>mpmc_q := q\<rparr>))"

definition enqueue :: "'a \<Rightarrow> 'a mpmc_queue \<Rightarrow> 'a mpmc_queue res option" where
  "enqueue item Q = (if q_full (mpmc_q Q) then None else Some (enqueue_nowait item Q))"

definition enqueue_if_have_room :: "'a \<Rightarrow> 'a mpmc_queue \<Rightarrow> 'a mpmc_queue res" where
  "enqueue_if_have_room item Q =
     (if \<not> q_full (mpmc_q Q) then enqueue_nowait item Q
      else Inr (Q\<lparr>discard_counter := (discard_counter Q + 1) mod 2 ^ 64\<rparr>))"

definition pop_item :: "'a mpmc_queue \<Rightarrow> ('a \<times> 'a mpmc_queue) res" where
  "pop_item Q =
     bindR (q_front (mpmc_q Q)) (\<lambda>item. bindR (q_pop_front (mpmc_q Q)) (\<lambda>q. Inr (item, Q\<lparr>mpmc_q := q\<rparr>)))"

definition dequeue :: "'a mpmc_queue \<Rightarrow> ('a \<times> 'a mpmc_queue) res option" where
  "dequeue Q = (if q_empty (mpmc_q Q) then None else Some (pop_item Q))"

text \<open>With a timeout: the queue as it is when the wait ends, by an item or by the clock.\<close>

definition dequeue_for :: "'a mpmc_queue \<Rightarrow> ('a option \<times> 'a mpmc_queue) res" where
  "dequeue_for Q =
     (if q_empty (mpmc_q Q) then Inr (None, Q) else bindR (pop_item Q) (\<lambda>(item, Q). Inr (Some item, Q)))"

definition mpmc_size :: "'a mpmc_queue \<Rightarrow> nat" where
  "mpmc_size Q = q_size (mpmc_q Q)"

definition reset_discard_counter :: "'a mpmc_queue \<Rightarrow> 'a mpmc_queue" where
  "reset_discard_counter Q = Q\<lparr>discard_counter := 0\<rparr>"

section \<open>Runs of the queue\<close>

datatype 'a mpmc_op =
    Enqueue 'a
  | Enqueue_nowait 'a
  | Enqueue_if_have_room 'a
  | Dequeue
  | Dequeue_for

text \<open>What an operation takes from the queue, if it does not wait.\<close>

primrec mpmc_exec :: "'a mpmc_op \<Rightarrow> 'a mpmc_queue \<Rightarrow> ('a list \<times> 'a mpmc_queue) res option" where
  "mpmc_exec (Enqueue x) Q = map_option (\<lambda>r. bindR r (\<lambda>Q. Inr ([], Q))) (enqueue x Q)"
| "mpmc_exec (Enqueue_nowait x) Q = Some (bindR (enqueue_nowait x Q) (\<lambda>Q. Inr ([], Q)))"
| "mpmc_exec (Enqueue_if_have_room x) Q = Some (bindR (enqueue_if_have_room x Q) (\<lambda>Q. Inr ([], Q)))"
| "mpmc_exec Dequeue Q = map_option (\<lambda>r. bindR r (\<lambda>(x, Q). Inr ([x], Q))) (dequeue Q)"
| "mpmc_exec Dequeue_for Q =
     Some (bindR (dequeue_for Q) (\<lambda>(p, Q). Inr (case p of None \<Rightarrow> [] | Some x \<Rightarrow> [x], Q)))"

primrec given :: "'a mpmc_op \<Rightarrow> 'a list" where
  "given (Enqueue x) = [x]"
| "given (Enqueue_nowait x) = [x]"
| "given (Enqueue_if_have_room x) = [x]"
| "given Dequeue = []"
| "given Dequeue_for = []"

primrec lossless :: "'a mpmc_op \<Rightarrow> bool" where
  "lossless (Enqueue x) = True"
| "lossless (Enqueue_nowait x) = False"
| "lossless (Enqueue_if_have_room x) = False"
| "lossless Dequeue = True"
| "lossless Dequeue_for = True"

inductive mpmc_runs :: "'a mpmc_queue \<Rightarrow> 'a mpmc_op list \<Rightarrow> 'a list \<Rightarrow> 'a mpmc_queue \<Rightarrow> bool" where
  runs_nil: "mpmc_runs Q [] [] Q"
| runs_step: "mpmc_exec a Q = Some (Inr (out, Q1)) \<Longrightarrow> mpmc_runs Q1 as outs Q2 \<Longrightarrow>
    mpmc_runs Q (a # as) (out @ outs) Q2"

inductive_cases runs_nilE: "mpmc_runs Q [] outs Q'"
inductive_cases runs_consE: "mpmc_runs Q (a # as) outs Q'"

section \<open>Order and losses\<close>

abbreviation queued :: "'a mpmc_queue \<Rightarrow> 'a list" where
  "queued Q \<equiv> q_contents (mpmc_q Q)"

definition mpmc_ok :: "'a mpmc_queue \<Rightarrow> bool" where
  "mpmc_ok Q \<longleftrightarrow> circular_ok (mpmc_q Q) \<and> 0 < max_items (mpmc_q Q)"

lemma max_items_push: "q_push_back x q = Inr q' \<Longrightarrow> max_items q' = max_items q"
  by (auto simp: q_push_back_def Let_def split: if_splits)

lemma max_items_pop: "q_pop_front q = Inr q' \<Longrightarrow> max_items q' = max_items q"
  by (auto simp: q_pop_front_def split: if_splits)

lemma enqueue_nowait_items:
  assumes "mpmc_ok Q"
  obtains Q' where "enqueue_nowait x Q = Inr Q'" and "mpmc_ok Q'" and "capacity (mpmc_q Q') = capacity (mpmc_q Q)"
    and "queued Q' = keep_last (capacity (mpmc_q Q)) (queued Q @ [x])"
proof -
  from assms have ok: "circular_ok (mpmc_q Q)" by (simp add: mpmc_ok_def)
  from cq.push_law [OF ok, of x] obtain q where q: "q_push_back x (mpmc_q Q) = Inr q" "circular_ok q"
    "capacity q = capacity (mpmc_q Q)" "q_contents q = keep_last (capacity (mpmc_q Q)) (queued Q @ [x])" by blast
  with assms max_items_push [OF q(1)] show thesis
    by (intro that [of "Q\<lparr>mpmc_q := q\<rparr>"]) (simp_all add: enqueue_nowait_def mpmc_ok_def)
qed

lemma not_full_room: "mpmc_ok Q \<Longrightarrow> \<not> q_full (mpmc_q Q) \<Longrightarrow> length (queued Q) < capacity (mpmc_q Q)"
  using q_full_iff [of "mpmc_q Q"] cq.bounded [of "mpmc_q Q"] by (auto simp: mpmc_ok_def)

lemma enqueue_room_items:
  assumes "mpmc_ok Q" and "\<not> q_full (mpmc_q Q)"
  obtains Q' where "enqueue_nowait x Q = Inr Q'" and "mpmc_ok Q'" and "capacity (mpmc_q Q') = capacity (mpmc_q Q)"
    and "queued Q' = queued Q @ [x]"
  using enqueue_nowait_items [OF assms(1), of x] not_full_room [OF assms] by (auto simp: keep_last_short)

lemma pop_item_items:
  assumes "mpmc_ok Q" and "\<not> q_empty (mpmc_q Q)"
  obtains x Q' where "pop_item Q = Inr (x, Q')" and "mpmc_ok Q'" and "capacity (mpmc_q Q') = capacity (mpmc_q Q)"
    and "queued Q = x # queued Q'"
proof -
  from assms have ok: "circular_ok (mpmc_q Q)" by (simp add: mpmc_ok_def)
  with assms(2) obtain x xs where c: "queued Q = x # xs" using q_empty_contents by (cases "queued Q") auto
  from cq.pop_law [OF ok c] obtain q where q: "q_pop_front (mpmc_q Q) = Inr q" "circular_ok q"
    "capacity q = capacity (mpmc_q Q)" "q_contents q = xs" by blast
  with c assms max_items_pop [OF q(1)] cq.front_law [OF ok c] show thesis
    by (intro that [of x "Q\<lparr>mpmc_q := q\<rparr>"]) (simp_all add: pop_item_def mpmc_ok_def)
qed

lemma subseq_keep_last: "subseq (keep_last n xs) xs"
  unfolding keep_last_def by (intro suffix_imp_subseq suffix_drop)

text \<open>No operation fails, and one step takes from the front of what was there and what it is given.\<close>

lemma mpmc_exec_ok:
  assumes "mpmc_ok Q" and "mpmc_exec a Q = Some r"
  obtains out Q' where "r = Inr (out, Q')" and "mpmc_ok Q'" and "capacity (mpmc_q Q') = capacity (mpmc_q Q)"
    and "subseq (out @ queued Q') (queued Q @ given a)" and "lossless a \<Longrightarrow> out @ queued Q' = queued Q @ given a"
proof (cases a)
  case (Enqueue x)
  with assms(2) have f: "\<not> q_full (mpmc_q Q)" by (auto simp: enqueue_def split: if_splits)
  from enqueue_room_items [OF assms(1) f, of x] obtain Q' where "enqueue_nowait x Q = Inr Q'" "mpmc_ok Q'"
    "capacity (mpmc_q Q') = capacity (mpmc_q Q)" "queued Q' = queued Q @ [x]" .
  with that [of "[]" Q'] assms(2) f Enqueue show thesis by (simp add: enqueue_def)
next
  case (Enqueue_nowait x)
  from enqueue_nowait_items [OF assms(1), of x] obtain Q' where "enqueue_nowait x Q = Inr Q'" "mpmc_ok Q'"
    "capacity (mpmc_q Q') = capacity (mpmc_q Q)" "queued Q' = keep_last (capacity (mpmc_q Q)) (queued Q @ [x])" .
  with that [of "[]" Q'] assms(2) Enqueue_nowait show thesis by (simp add: subseq_keep_last)
next
  case (Enqueue_if_have_room x)
  show thesis
  proof (cases "q_full (mpmc_q Q)")
    case True
    with that [of "[]" "Q\<lparr>discard_counter := (discard_counter Q + 1) mod 2 ^ 64\<rparr>"] assms Enqueue_if_have_room
    show thesis by (simp add: enqueue_if_have_room_def mpmc_ok_def prefix_imp_subseq)
  next
    case False
    from enqueue_room_items [OF assms(1) False, of x] obtain Q' where "enqueue_nowait x Q = Inr Q'" "mpmc_ok Q'"
      "capacity (mpmc_q Q') = capacity (mpmc_q Q)" "queued Q' = queued Q @ [x]" .
    with that [of "[]" Q'] assms(2) False Enqueue_if_have_room show thesis by (simp add: enqueue_if_have_room_def)
  qed
next
  case Dequeue
  with assms(2) have e: "\<not> q_empty (mpmc_q Q)" by (auto simp: dequeue_def split: if_splits)
  from pop_item_items [OF assms(1) e] obtain x Q' where "pop_item Q = Inr (x, Q')" "mpmc_ok Q'"
    "capacity (mpmc_q Q') = capacity (mpmc_q Q)" "queued Q = x # queued Q'" .
  with that [of "[x]" Q'] assms(2) e Dequeue show thesis by (simp add: dequeue_def)
next
  case Dequeue_for
  show thesis
  proof (cases "q_empty (mpmc_q Q)")
    case True
    with that [of "[]" Q] assms Dequeue_for show thesis by (simp add: dequeue_for_def)
  next
    case False
    from pop_item_items [OF assms(1) False] obtain x Q' where "pop_item Q = Inr (x, Q')" "mpmc_ok Q'"
      "capacity (mpmc_q Q') = capacity (mpmc_q Q)" "queued Q = x # queued Q'" .
    with that [of "[x]" Q'] assms(2) False Dequeue_for show thesis by (simp add: dequeue_for_def)
  qed
qed

lemma mpmc_runs_order:
  assumes "mpmc_runs Q as outs Q'" and "mpmc_ok Q"
  shows "mpmc_ok Q' \<and> capacity (mpmc_q Q') = capacity (mpmc_q Q) \<and>
    subseq (outs @ queued Q') (queued Q @ concat (map given as)) \<and>
    ((\<forall>a\<in>set as. lossless a) \<longrightarrow> outs @ queued Q' = queued Q @ concat (map given as))"
  using assms
proof (induction rule: mpmc_runs.induct)
  case (runs_step a Q out Q1 as outs Q2)
  from mpmc_exec_ok [OF runs_step.prems runs_step.hyps(1)]
  have 1: "mpmc_ok Q1" "capacity (mpmc_q Q1) = capacity (mpmc_q Q)" "subseq (out @ queued Q1) (queued Q @ given a)"
    "lossless a \<Longrightarrow> out @ queued Q1 = queued Q @ given a" by auto
  note 2 = runs_step.IH [OF 1(1)]
  have "subseq (out @ outs @ queued Q2) (out @ queued Q1 @ concat (map given as))" using 2 by (simp add: subseq_append')
  also have "subseq (out @ queued Q1 @ concat (map given as)) ((queued Q @ given a) @ concat (map given as))"
    using list_emb_append_mono [OF 1(3) subseq_order.refl] by simp
  finally have "subseq ((out @ outs) @ queued Q2) (queued Q @ concat (map given (a # as)))" by simp
  moreover have "(out @ outs) @ queued Q2 = queued Q @ concat (map given (a # as))" if "\<forall>b\<in>set (a # as). lossless b"
    using that 1(4) 2 by (metis append.assoc concat.simps(2) list.set_intros list.simps(9))
  ultimately show ?case using 1 2 by simp
qed simp

section \<open>backtracer\<close>

record backtracer =
  bt_enabled :: bool
  bt_messages :: "log_msg circular_q"

definition new_backtracer :: backtracer where
  "new_backtracer = \<lparr>bt_enabled = False, bt_messages = disabled_q\<rparr>"

text \<open>A \<open>log_msg_buffer\<close> of no message, which the vector is filled with.\<close>

definition no_msg :: log_msg where
  "no_msg = \<lparr>msg_logger_name = [], msg_level = off, msg_time = 0, msg_thread_id = 0,
     color_range_start = 0, color_range_end = 0, msg_source = no_source, msg_payload = []\<rparr>"

definition bt_enable :: "nat \<Rightarrow> backtracer \<Rightarrow> backtracer" where
  "bt_enable n bt = bt\<lparr>bt_enabled := True, bt_messages := new_circular_q no_msg n\<rparr>"

definition bt_disable :: "backtracer \<Rightarrow> backtracer" where
  "bt_disable bt = bt\<lparr>bt_enabled := False\<rparr>"

definition bt_push_back :: "log_msg \<Rightarrow> backtracer \<Rightarrow> backtracer res" where
  "bt_push_back msg bt = bindR (q_push_back msg (bt_messages bt)) (\<lambda>q. Inr (bt\<lparr>bt_messages := q\<rparr>))"

definition bt_empty :: "backtracer \<Rightarrow> bool" where
  "bt_empty bt \<longleftrightarrow> q_empty (bt_messages bt)"

text \<open>The loop of \<open>foreach_pop\<close>, with the state the function \<open>f\<close> works on; \<open>None\<close> is a loop that does not end.\<close>

partial_function (option) pop_each ::
    "('a \<Rightarrow> 's \<Rightarrow> 's res) \<Rightarrow> 'a circular_q \<Rightarrow> 's \<Rightarrow> ('s \<times> 'a circular_q) res option" where
  "pop_each f q s =
     (if q_empty q then Some (Inr (s, q))
      else case bindR (q_front q) (\<lambda>front. f front s) of
          Inl e \<Rightarrow> Some (Inl e)
        | Inr s \<Rightarrow> (case q_pop_front q of Inl e \<Rightarrow> Some (Inl e) | Inr q \<Rightarrow> pop_each f q s))"

definition foreach_pop ::
    "(log_msg \<Rightarrow> 's \<Rightarrow> 's res) \<Rightarrow> backtracer \<Rightarrow> 's \<Rightarrow> ('s \<times> backtracer) res option" where
  "foreach_pop f bt s =
     map_option (\<lambda>r. bindR r (\<lambda>(s, q). Inr (s, bt\<lparr>bt_messages := q\<rparr>))) (pop_each f (bt_messages bt) s)"

text \<open>The loop ends, and the function is applied to the items from the oldest to the newest.\<close>

lemma pop_each_all:
  assumes "circular_ok q" and "push_all f (q_contents q) s = Inr s'"
  shows "\<exists>q'. pop_each f q s = Some (Inr (s', q')) \<and> circular_ok q' \<and> capacity q' = capacity q \<and> q_contents q' = []"
  using assms
proof (induction "q_contents q" arbitrary: q s)
  case Nil
  then have "q_contents q = []" "s = s'" "q_empty q" using q_empty_contents [of q] by auto
  with Nil.prems(1) show ?case by (simp add: pop_each.simps [of f q s'])
next
  case (Cons x xs)
  from Cons.hyps(2) have c: "q_contents q = x # xs" by simp
  from cq.pop_law [OF Cons.prems(1) c] obtain q1 where q1: "q_pop_front q = Inr q1" "circular_ok q1"
    "capacity q1 = capacity q" "q_contents q1 = xs" by blast
  from Cons.prems(2) c obtain s1 where s1: "f x s = Inr s1" "push_all f xs s1 = Inr s'"
    by (auto simp: bindR_eq_Inr)
  have e: "\<not> q_empty q" using q_empty_contents [OF Cons.prems(1)] c by simp
  have "pop_each f q s = pop_each f q1 s1"
    using e s1(1) q1(1) cq.front_law [OF Cons.prems(1) c] by (simp add: pop_each.simps [of f q s])
  with Cons.hyps(1) [OF q1(4)[symmetric] q1(2)] s1(2) q1 show ?case by simp
qed

definition backtracer_ok :: "backtracer \<Rightarrow> bool" where
  "backtracer_ok bt \<longleftrightarrow> circular_ok (bt_messages bt)"

abbreviation traced :: "backtracer \<Rightarrow> log_msg list" where
  "traced bt \<equiv> q_contents (bt_messages bt)"

lemma foreach_pop_all:
  assumes "backtracer_ok bt" and "push_all f (traced bt) s = Inr s'"
  shows "\<exists>bt'. foreach_pop f bt s = Some (Inr (s', bt')) \<and> backtracer_ok bt' \<and> traced bt' = [] \<and>
    bt_enabled bt' = bt_enabled bt \<and> capacity (bt_messages bt') = capacity (bt_messages bt)"
  using pop_each_all [OF assms(1)[unfolded backtracer_ok_def] assms(2)]
  by (auto simp: foreach_pop_def backtracer_ok_def)

lemma bt_push_back_traced:
  assumes "backtracer_ok bt"
  shows "\<exists>bt'. bt_push_back msg bt = Inr bt' \<and> backtracer_ok bt' \<and> bt_enabled bt' = bt_enabled bt \<and>
    capacity (bt_messages bt') = capacity (bt_messages bt) \<and>
    traced bt' = keep_last (capacity (bt_messages bt)) (traced bt @ [msg])"
  using cq.push_law [OF assms[unfolded backtracer_ok_def], of msg] by (auto simp: bt_push_back_def backtracer_ok_def)

lemma bt_enable_ok: "backtracer_ok (bt_enable n bt)" "traced (bt_enable n bt) = []"
  by (simp_all add: bt_enable_def backtracer_ok_def new_circular_q_ok)

lemma new_backtracer_ok: "backtracer_ok new_backtracer" "traced new_backtracer = []"
  by (simp_all add: new_backtracer_def backtracer_ok_def disabled_q_ok)

lemma bt_empty_traced: "backtracer_ok bt \<Longrightarrow> bt_empty bt \<longleftrightarrow> traced bt = []"
  by (simp add: bt_empty_def backtracer_ok_def q_empty_contents)

end
