(* ===== verification/LogSink.thy ===== *)
theory LogSink
  imports PatternTime LogQueues
begin

text \<open>
  Two sinks of spdlog: \<open>sinks/ansicolor_sink-inl.h\<close>, the console sink of the default logger, which
  wraps the color range of a message in escape codes, and \<open>sinks/ringbuffer_sink.h\<close>, which keeps the last
  messages. The standard output is what has been handed to \<open>fwrite\<close>; how much of a write it
  takes is the parameter \<open>fw\<close>.
\<close>

section \<open>ansicolor_sink\<close>

type_synonym fwrite = "string \<Rightarrow> string \<Rightarrow> nat"

record ansicolor_sink =
  a_level :: level_enum
  target_file :: string
  should_do_colors :: bool
  a_formatter :: pattern_formatter
  colors :: "string list"

definition esc :: "string \<Rightarrow> string" where
  "esc code = CHR 0x1B # CHR ''['' # code"

definition reset_code :: string where
  "reset_code = esc ''m''"

definition white :: string where
  "white = esc ''37m''"

definition cyan :: string where
  "cyan = esc ''36m''"

definition green :: string where
  "green = esc ''32m''"

definition yellow_bold :: string where
  "yellow_bold = esc ''33m'' @ esc ''1m''"

definition red_bold :: string where
  "red_bold = esc ''31m'' @ esc ''1m''"

definition bold_on_red :: string where
  "bold_on_red = esc ''1m'' @ esc ''41m''"

datatype color_mode = always | automatic | never

text \<open>Whether the file is a terminal and the terminal has colors is the parameter \<open>terminal\<close>.\<close>

definition set_color_mode :: "bool \<Rightarrow> color_mode \<Rightarrow> ansicolor_sink \<Rightarrow> ansicolor_sink" where
  "set_color_mode terminal mode s =
     (case mode of
        always \<Rightarrow> s\<lparr>should_do_colors := True\<rparr>
      | automatic \<Rightarrow> s\<lparr>should_do_colors := terminal\<rparr>
      | never \<Rightarrow> s\<lparr>should_do_colors := False\<rparr>)"

definition set_color :: "level_enum \<Rightarrow> string \<Rightarrow> ansicolor_sink \<Rightarrow> ansicolor_sink" where
  "set_color l color s = s\<lparr>colors := (colors s)[nat (level_value l) := color]\<rparr>"

definition new_ansicolor_sink :: "bool \<Rightarrow> color_mode \<Rightarrow> ansicolor_sink" where
  "new_ansicolor_sink terminal mode =
     set_color_mode terminal mode
       \<lparr>a_level = trace, target_file = [], should_do_colors = False,
        a_formatter = default_pattern_formatter local_time [CHR 0x0A],
        colors = [white, cyan, green, yellow_bold, red_bold, bold_on_red, reset_code]\<rparr>"

text \<open>\<open>os::fwrite_bytes\<close>; the sink does not look at its result.\<close>

definition fwrite_bytes :: "fwrite \<Rightarrow> string \<Rightarrow> string \<Rightarrow> bool \<times> string" where
  "fwrite_bytes fw bytes file = (let n = fw file bytes in (n = length bytes, file @ take n bytes))"

definition print_ccode :: "fwrite \<Rightarrow> string \<Rightarrow> ansicolor_sink \<Rightarrow> ansicolor_sink" where
  "print_ccode fw color_code s = s\<lparr>target_file := snd (fwrite_bytes fw color_code (target_file s))\<rparr>"

definition print_range :: "fwrite \<Rightarrow> string \<Rightarrow> nat \<Rightarrow> nat \<Rightarrow> ansicolor_sink \<Rightarrow> ansicolor_sink res" where
  "print_range fw formatted start stop s =
     (if start \<le> stop \<and> stop \<le> length formatted
      then Inr (s\<lparr>target_file := snd (fwrite_bytes fw (take (stop - start) (drop start formatted)) (target_file s))\<rparr>)
      else Inl OutOfBounds)"

definition ansicolor_log :: "log_env \<Rightarrow> fwrite \<Rightarrow> log_msg \<Rightarrow> ansicolor_sink \<Rightarrow> (log_msg \<times> ansicolor_sink) res" where
  "ansicolor_log env fw msg s =
     (let msg = msg\<lparr>color_range_start := 0, color_range_end := 0\<rparr>
      in bindR (format_message env (a_formatter s) msg []) (\<lambda>(pf, msg, formatted).
         let s = s\<lparr>a_formatter := pf\<rparr>
         in bindR
              (if should_do_colors s \<and> color_range_start msg < color_range_end msg
               then bindR (print_range fw formatted 0 (color_range_start msg) s) (\<lambda>s.
                    bindR (array_at (colors s) (level_value (msg_level msg))) (\<lambda>color.
                    let s = print_ccode fw color s
                    in bindR (print_range fw formatted (color_range_start msg) (color_range_end msg) s) (\<lambda>s.
                       let s = print_ccode fw reset_code s
                       in print_range fw formatted (color_range_end msg) (length formatted) s)))
               else print_range fw formatted 0 (length formatted) s)
              (\<lambda>s. Inr (msg, s))))"

definition ansicolor_set_pattern :: "log_env \<Rightarrow> string \<Rightarrow> ansicolor_sink \<Rightarrow> ansicolor_sink" where
  "ansicolor_set_pattern env pat s =
     s\<lparr>a_formatter := new_pattern_formatter env pat local_time [CHR 0x0A] Map.empty\<rparr>"

section \<open>ringbuffer_sink\<close>

record ringbuffer_sink =
  r_level :: level_enum
  r_formatter :: pattern_formatter
  r_q :: "log_msg circular_q"

text \<open>The constructor throws when it is given no room.\<close>

definition new_ringbuffer_sink :: "nat \<Rightarrow> ringbuffer_sink option" where
  "new_ringbuffer_sink n_items =
     (if n_items = 0 then None
      else Some \<lparr>r_level = trace, r_formatter = default_pattern_formatter local_time [CHR 0x0A],
                 r_q = new_circular_q no_msg n_items\<rparr>)"

definition ringbuffer_log :: "log_msg \<Rightarrow> ringbuffer_sink \<Rightarrow> ringbuffer_sink res" where
  "ringbuffer_log msg s = bindR (q_push_back msg (r_q s)) (\<lambda>q. Inr (s\<lparr>r_q := q\<rparr>))"

text \<open>The items the two reading functions take, from which index on; 0 is no limit.\<close>

definition last_items :: "nat \<Rightarrow> ringbuffer_sink \<Rightarrow> nat" where
  "last_items lim s = (let items_available = q_size (r_q s) in if 0 < lim then min lim items_available else items_available)"

fun raw_from :: "ringbuffer_sink \<Rightarrow> nat list \<Rightarrow> log_msg list \<Rightarrow> log_msg list res" where
  "raw_from s [] ret = Inr ret"
| "raw_from s (i # is) ret = bindR (q_at (r_q s) i) (\<lambda>msg. raw_from s is (ret @ [msg]))"

definition last_raw :: "nat \<Rightarrow> ringbuffer_sink \<Rightarrow> log_msg list res" where
  "last_raw lim s =
     (let items_available = q_size (r_q s)
      in raw_from s [items_available - last_items lim s ..< items_available] [])"

fun formatted_from ::
    "log_env \<Rightarrow> nat list \<Rightarrow> string list \<Rightarrow> ringbuffer_sink \<Rightarrow> (string list \<times> ringbuffer_sink) res" where
  "formatted_from env [] ret s = Inr (ret, s)"
| "formatted_from env (i # is) ret s =
     bindR (q_at (r_q s) i) (\<lambda>msg.
     bindR (format_message env (r_formatter s) msg []) (\<lambda>(pf, _, formatted).
       formatted_from env is (ret @ [formatted]) (s\<lparr>r_formatter := pf\<rparr>)))"

definition last_formatted :: "log_env \<Rightarrow> nat \<Rightarrow> ringbuffer_sink \<Rightarrow> (string list \<times> ringbuffer_sink) res" where
  "last_formatted env lim s =
     (let items_available = q_size (r_q s)
      in formatted_from env [items_available - last_items lim s ..< items_available] [] s)"

section \<open>The virtual functions\<close>

datatype sink =
    Console ansicolor_sink
  | Ring ringbuffer_sink

primrec sink_level :: "sink \<Rightarrow> level_enum" where
  "sink_level (Console s) = a_level s"
| "sink_level (Ring s) = r_level s"

primrec sink_set_level :: "level_enum \<Rightarrow> sink \<Rightarrow> sink" where
  "sink_set_level l (Console s) = Console (s\<lparr>a_level := l\<rparr>)"
| "sink_set_level l (Ring s) = Ring (s\<lparr>r_level := l\<rparr>)"

definition sink_should_log :: "level_enum \<Rightarrow> sink \<Rightarrow> bool" where
  "sink_should_log l s \<longleftrightarrow> sink_level s \<le> l"

primrec sink_log :: "log_env \<Rightarrow> fwrite \<Rightarrow> log_msg \<Rightarrow> sink \<Rightarrow> (log_msg \<times> sink) res" where
  "sink_log env fw msg (Console s) = bindR (ansicolor_log env fw msg s) (\<lambda>(msg, s). Inr (msg, Console s))"
| "sink_log env fw msg (Ring s) = bindR (ringbuffer_log msg s) (\<lambda>s. Inr (msg, Ring s))"

primrec sink_formatter :: "sink \<Rightarrow> pattern_formatter" where
  "sink_formatter (Console s) = a_formatter s"
| "sink_formatter (Ring s) = r_formatter s"

primrec sink_set_formatter :: "pattern_formatter \<Rightarrow> sink \<Rightarrow> sink" where
  "sink_set_formatter pf (Console s) = Console (s\<lparr>a_formatter := pf\<rparr>)"
| "sink_set_formatter pf (Ring s) = Ring (s\<lparr>r_formatter := pf\<rparr>)"

section \<open>What the console shows\<close>

text \<open>A standard output that takes every write.\<close>

definition takes_all :: "fwrite \<Rightarrow> bool" where
  "takes_all fw \<longleftrightarrow> (\<forall>file bytes. fw file bytes = length bytes)"

definition colorize :: "string \<Rightarrow> nat \<Rightarrow> nat \<Rightarrow> string \<Rightarrow> string" where
  "colorize color i j text = take i text @ color @ take (j - i) (drop i text) @ reset_code @ drop j text"

lemma print_range_all:
  "takes_all fw \<Longrightarrow> i \<le> j \<Longrightarrow> j \<le> length text \<Longrightarrow>
   print_range fw text i j s = Inr (s\<lparr>target_file := target_file s @ take (j - i) (drop i text)\<rparr>)"
  by (simp add: print_range_def fwrite_bytes_def takes_all_def Let_def)

lemma print_ccode_all: "takes_all fw \<Longrightarrow> print_ccode fw c s = s\<lparr>target_file := target_file s @ c\<rparr>"
  by (simp add: print_ccode_def fwrite_bytes_def takes_all_def Let_def)

definition colors_ok :: "ansicolor_sink \<Rightarrow> bool" where
  "colors_ok s \<longleftrightarrow> length (colors s) = 7"

lemma level_color: "colors_ok s \<Longrightarrow> array_at (colors s) (level_value l) = Inr (colors s ! nat (level_value l))"
  by (cases l) (simp_all add: colors_ok_def array_at_def)

text \<open>The text reaches the output whole, with or without escape codes around its color range.\<close>

lemma ansicolor_log_text:
  assumes "takes_all fw" and "colors_ok s"
    and f: "format_message env (a_formatter s) (colored 0 0 msg) [] = Inr (pf, colored i j msg, text)"
    and ij: "i \<le> length text" "j \<le> length text"
  shows "ansicolor_log env fw msg s =
    Inr (colored i j msg, s\<lparr>a_formatter := pf, target_file := target_file s @
      (if should_do_colors s \<and> i < j then colorize (colors s ! nat (level_value (msg_level msg))) i j text else text)\<rparr>)"
proof -
  have m: "msg\<lparr>color_range_start := 0, color_range_end := 0\<rparr> = colored 0 0 msg"
    and l: "msg_level (colored i j msg) = msg_level msg" by (simp_all add: colored_def)
  have c: "array_at (colors s) (level_value k) = Inr (colors s ! nat (level_value k))" for k
    using assms(2) by (rule level_color)
  show ?thesis
    unfolding ansicolor_log_def m
    using ij by (simp add: Let_def f colored_sel l c print_range_all [OF assms(1)] print_ccode_all [OF assms(1)] colorize_def)
qed

section \<open>What the ring buffer gives back\<close>

lemma raw_from_items:
  assumes "circular_ok (r_q s)" and "\<forall>i\<in>set is. i < q_size (r_q s)"
  shows "raw_from s is ret = Inr (ret @ map (\<lambda>i. q_contents (r_q s) ! i) is)"
  using assms(2) by (induction "is" arbitrary: ret) (simp_all add: q_at_contents [OF assms(1)])

lemma last_raw_items:
  assumes "circular_ok (r_q s)"
  shows "last_raw lim s = Inr (if 0 < lim then keep_last lim (q_contents (r_q s)) else q_contents (r_q s))"
proof -
  let ?c = "q_contents (r_q s)" and ?n = "q_size (r_q s)"
  have d: "map (\<lambda>i. ?c ! i) [k..<?n] = drop k ?c" for k
    by (rule nth_equalityI) simp_all
  have "?n - last_items lim s = (if 0 < lim then length ?c - lim else 0)"
    by (simp add: last_items_def Let_def min_def)
  then show ?thesis
    using raw_from_items [OF assms, of "[?n - last_items lim s..<?n]" "[]"] d
    by (simp add: last_raw_def Let_def keep_last_def)
qed

lemma ringbuffer_log_items:
  "circular_ok (r_q s) \<Longrightarrow>
   \<exists>s'. ringbuffer_log msg s = Inr s' \<and> circular_ok (r_q s') \<and> capacity (r_q s') = capacity (r_q s) \<and>
     q_contents (r_q s') = keep_last (capacity (r_q s)) (q_contents (r_q s) @ [msg])"
  using cq.push_law [of "r_q s" msg] by (auto simp: ringbuffer_log_def)

end
