(* ===== verification/LogCore.thy ===== *)
theory LogCore
  imports LogSink
begin

text \<open>
  \<open>spdlog/logger.h\<close> and \<open>logger-inl.h\<close>: a logger filters by level, hands a message to its sinks, keeps it
  for a backtrace and reports errors. Loggers and sinks are shared objects, so they live in a store.
  Formatting the arguments is \<open>fmt\<close>: a message is the formatted text or the text of the exception.
\<close>

section \<open>Loggers and the store\<close>

record logger =
  l_name :: string
  l_sinks :: "nat list"
  l_level :: level_enum
  l_flush_level :: level_enum
  custom_err_handler :: "nat option"
  tracer :: backtracer

text \<open>
  \<open>err_calls\<close> are the calls of user error handlers; \<open>stderr_reports\<close> what the default handler printed, with its
  static counter and the time of the last report.
\<close>

record log_world =
  lw_sinks :: "nat \<rightharpoonup> sink"
  lw_loggers :: "nat \<rightharpoonup> logger"
  err_calls :: "(nat \<times> string) list"
  stderr_reports :: "(nat \<times> string \<times> string) list"
  err_counter :: nat
  last_report_time :: int

definition get_sink :: "nat \<Rightarrow> log_world \<Rightarrow> sink res" where
  "get_sink i W = (case lw_sinks W i of None \<Rightarrow> Inl NullDeref | Some s \<Rightarrow> Inr s)"

definition put_sink :: "nat \<Rightarrow> sink \<Rightarrow> log_world \<Rightarrow> log_world" where
  "put_sink i s W = W\<lparr>lw_sinks := (lw_sinks W)(i \<mapsto> s)\<rparr>"

definition get_logger :: "nat \<Rightarrow> log_world \<Rightarrow> logger res" where
  "get_logger L W = (case lw_loggers W L of None \<Rightarrow> Inl NullDeref | Some l \<Rightarrow> Inr l)"

definition modify_logger :: "nat \<Rightarrow> (logger \<Rightarrow> logger) \<Rightarrow> log_world \<Rightarrow> log_world res" where
  "modify_logger L f W = bindR (get_logger L W) (\<lambda>l. Inr (W\<lparr>lw_loggers := (lw_loggers W)(L \<mapsto> f l)\<rparr>))"

definition new_logger :: "string \<Rightarrow> nat list \<Rightarrow> logger" where
  "new_logger name sinks =
     \<lparr>l_name = name, l_sinks = sinks, l_level = info, l_flush_level = off, custom_err_handler = None,
      tracer = new_backtracer\<rparr>"

text \<open>A copy shares the sinks.\<close>

definition clone_logger :: "nat \<Rightarrow> nat \<Rightarrow> string \<Rightarrow> log_world \<Rightarrow> log_world res" where
  "clone_logger L L' name W =
     bindR (get_logger L W) (\<lambda>l. Inr (W\<lparr>lw_loggers := (lw_loggers W)(L' \<mapsto> l\<lparr>l_name := name\<rparr>)\<rparr>))"

definition should_log :: "level_enum \<Rightarrow> logger \<Rightarrow> bool" where
  "should_log lvl l \<longleftrightarrow> l_level l \<le> lvl"

definition should_flush :: "log_msg \<Rightarrow> logger \<Rightarrow> bool" where
  "should_flush msg l \<longleftrightarrow> l_flush_level l \<le> msg_level msg \<and> msg_level msg \<noteq> off"

definition set_level :: "nat \<Rightarrow> level_enum \<Rightarrow> log_world \<Rightarrow> log_world res" where
  "set_level L lvl = modify_logger L (\<lambda>l. l\<lparr>l_level := lvl\<rparr>)"

definition flush_on :: "nat \<Rightarrow> level_enum \<Rightarrow> log_world \<Rightarrow> log_world res" where
  "flush_on L lvl = modify_logger L (\<lambda>l. l\<lparr>l_flush_level := lvl\<rparr>)"

definition set_error_handler :: "nat \<Rightarrow> nat option \<Rightarrow> log_world \<Rightarrow> log_world res" where
  "set_error_handler L h = modify_logger L (\<lambda>l. l\<lparr>custom_err_handler := h\<rparr>)"

definition enable_backtrace :: "nat \<Rightarrow> nat \<Rightarrow> log_world \<Rightarrow> log_world res" where
  "enable_backtrace L n = modify_logger L (\<lambda>l. l\<lparr>tracer := bt_enable n (tracer l)\<rparr>)"

definition disable_backtrace :: "nat \<Rightarrow> log_world \<Rightarrow> log_world res" where
  "disable_backtrace L = modify_logger L (\<lambda>l. l\<lparr>tracer := bt_disable (tracer l)\<rparr>)"

text \<open>Every sink gets a clone of the formatter, the last one the formatter itself.\<close>

fun set_formatter_sinks :: "log_env \<Rightarrow> nat list \<Rightarrow> pattern_formatter \<Rightarrow> log_world \<Rightarrow> log_world res" where
  "set_formatter_sinks env [] f W = Inr W"
| "set_formatter_sinks env (i # is) f W =
     bindR (get_sink i W) (\<lambda>s.
       if is = [] then Inr (put_sink i (sink_set_formatter f s) W)
       else set_formatter_sinks env is f (put_sink i (sink_set_formatter (clone_formatter env f) s) W))"

definition set_formatter :: "log_env \<Rightarrow> nat \<Rightarrow> pattern_formatter \<Rightarrow> log_world \<Rightarrow> log_world res" where
  "set_formatter env L f W = bindR (get_logger L W) (\<lambda>l. set_formatter_sinks env (l_sinks l) f W)"

definition logger_set_pattern ::
    "log_env \<Rightarrow> nat \<Rightarrow> string \<Rightarrow> pattern_time_type \<Rightarrow> log_world \<Rightarrow> log_world res" where
  "logger_set_pattern env L pat ty = set_formatter env L (new_pattern_formatter env pat ty [CHR 0x0A] Map.empty)"

section \<open>Errors\<close>

definition err_handler :: "log_env \<Rightarrow> nat \<Rightarrow> string \<Rightarrow> log_world \<Rightarrow> log_world res" where
  "err_handler env L msg W =
     bindR (get_logger L W) (\<lambda>l. Inr
       (case custom_err_handler l of
          Some h \<Rightarrow> W\<lparr>err_calls := err_calls W @ [(h, msg)]\<rparr>
        | None \<Rightarrow>
            let now = os_now env; W = W\<lparr>err_counter := (err_counter W + 1) mod 2 ^ 64\<rparr>
            in if now - last_report_time W < ns_per_sec then W
               else W\<lparr>last_report_time := now,
                      stderr_reports := stderr_reports W @ [(err_counter W, l_name l, msg)]\<rparr>))"

text \<open>The handler of \<open>SPDLOG_LOGGER_CATCH\<close> for a standard exception.\<close>

definition logger_catch :: "log_env \<Rightarrow> nat \<Rightarrow> source_loc \<Rightarrow> string \<Rightarrow> log_world \<Rightarrow> log_world res" where
  "logger_catch env L loc what =
     err_handler env L
       (case filename loc of
          Some f \<Rightarrow> what @ '' ['' @ f @ ''('' @ show_int (line loc) @ '')]''
        | None \<Rightarrow> what)"

section \<open>Logging\<close>

fun log_to_sinks ::
    "log_env \<Rightarrow> fwrite \<Rightarrow> nat list \<Rightarrow> log_msg \<Rightarrow> log_world \<Rightarrow> (log_msg \<times> log_world) res" where
  "log_to_sinks env fw [] msg W = Inr (msg, W)"
| "log_to_sinks env fw (i # is) msg W =
     bindR (get_sink i W) (\<lambda>s.
       if sink_should_log (msg_level msg) s
       then bindR (sink_log env fw msg s) (\<lambda>(msg, s). log_to_sinks env fw is msg (put_sink i s W))
       else log_to_sinks env fw is msg W)"

text \<open>Flushing a sink changes nothing the model keeps of it.\<close>

fun flush_sinks :: "nat list \<Rightarrow> log_world \<Rightarrow> log_world res" where
  "flush_sinks [] W = Inr W"
| "flush_sinks (i # is) W = bindR (get_sink i W) (\<lambda>s. flush_sinks is W)"

definition sink_it :: "log_env \<Rightarrow> fwrite \<Rightarrow> nat \<Rightarrow> log_msg \<Rightarrow> log_world \<Rightarrow> (log_msg \<times> log_world) res" where
  "sink_it env fw L msg W =
     bindR (get_logger L W) (\<lambda>l.
     bindR (log_to_sinks env fw (l_sinks l) msg W) (\<lambda>(msg, W).
       if should_flush msg l then bindR (flush_sinks (l_sinks l) W) (\<lambda>W. Inr (msg, W)) else Inr (msg, W)))"

definition log_it :: "log_env \<Rightarrow> fwrite \<Rightarrow> nat \<Rightarrow> log_msg \<Rightarrow> bool \<Rightarrow> bool \<Rightarrow> log_world \<Rightarrow> log_world res" where
  "log_it env fw L msg log_enabled traceback_enabled W =
     bindR (if log_enabled then sink_it env fw L msg W else Inr (msg, W)) (\<lambda>(msg, W).
       if traceback_enabled
       then bindR (get_logger L W) (\<lambda>l.
            bindR (bt_push_back msg (tracer l)) (\<lambda>bt. modify_logger L (\<lambda>l. l\<lparr>tracer := bt\<rparr>) W))
       else Inr W)"

text \<open>\<open>log_\<close> in a thread: the result of formatting the arguments is what \<open>vformat_to\<close> throws or the text.\<close>

definition log_message ::
    "log_env \<Rightarrow> fwrite \<Rightarrow> nat \<Rightarrow> nat \<Rightarrow> source_loc \<Rightarrow> level_enum \<Rightarrow> string + string \<Rightarrow> log_world \<Rightarrow> log_world res" where
  "log_message env fw tid L loc lvl formatted W =
     bindR (get_logger L W) (\<lambda>l.
       let log_enabled = should_log lvl l; traceback_enabled = bt_enabled (tracer l)
       in if \<not> log_enabled \<and> \<not> traceback_enabled then Inr W
          else case formatted of
              Inl what \<Rightarrow> logger_catch env L loc what W
            | Inr buf \<Rightarrow> log_it env fw L (new_log_msg tid (os_now env) loc (l_name l) lvl buf) log_enabled traceback_enabled W)"

definition backtrace_start :: string where
  "backtrace_start = ''****************** Backtrace Start ******************''"

definition backtrace_end :: string where
  "backtrace_end = ''****************** Backtrace End ********************''"

definition sink_it_only :: "log_env \<Rightarrow> fwrite \<Rightarrow> nat \<Rightarrow> log_msg \<Rightarrow> log_world \<Rightarrow> log_world res" where
  "sink_it_only env fw L msg W = bindR (sink_it env fw L msg W) (\<lambda>(msg, W). Inr W)"

definition dump_backtrace :: "log_env \<Rightarrow> fwrite \<Rightarrow> nat \<Rightarrow> nat \<Rightarrow> log_world \<Rightarrow> log_world res option" where
  "dump_backtrace env fw tid L W =
     (case get_logger L W of
        Inl e \<Rightarrow> Some (Inl e)
      | Inr l \<Rightarrow>
          let note_msg = (\<lambda>text. new_log_msg tid (os_now env) no_source (l_name l) info text)
          in if bt_enabled (tracer l) \<and> \<not> bt_empty (tracer l)
             then (case sink_it_only env fw L (note_msg backtrace_start) W of
                 Inl e \<Rightarrow> Some (Inl e)
               | Inr W \<Rightarrow> map_option
                   (\<lambda>r. bindR r (\<lambda>(W, bt).
                        bindR (modify_logger L (\<lambda>l. l\<lparr>tracer := bt\<rparr>) W) (sink_it_only env fw L (note_msg backtrace_end))))
                   (foreach_pop (sink_it_only env fw L) (tracer l) W))
             else Some (Inr W))"

section \<open>Backtraces\<close>

lemma get_logger_Some: "lw_loggers W L = Some l \<Longrightarrow> get_logger L W = Inr l"
  by (simp add: get_logger_def)

lemma push_all_append:
  "push_all f (xs @ ys) s = bindR (push_all f xs s) (push_all f ys)"
proof (induction xs arbitrary: s)
  case (Cons x xs)
  then show ?case by (cases "f x s") simp_all
qed simp

text \<open>A tracer that was enabled and given a list of messages has the last of them.\<close>

lemma bt_push_all:
  assumes "backtracer_ok bt"
  shows "\<exists>bt'. push_all bt_push_back msgs bt = Inr bt' \<and> backtracer_ok bt' \<and> bt_enabled bt' = bt_enabled bt \<and>
    traced bt' = keep_last (capacity (bt_messages bt)) (traced bt @ msgs)"
  using assms
proof (induction msgs arbitrary: bt)
  case Nil
  then show ?case using cq.bounded [of "bt_messages bt"] by (simp add: keep_last_short backtracer_ok_def)
next
  case (Cons m msgs)
  from bt_push_back_traced [OF Cons.prems, of m] obtain bt1 where 1: "bt_push_back m bt = Inr bt1" "backtracer_ok bt1"
    "bt_enabled bt1 = bt_enabled bt" "capacity (bt_messages bt1) = capacity (bt_messages bt)"
    "traced bt1 = keep_last (capacity (bt_messages bt)) (traced bt @ [m])" by blast
  from Cons.IH [OF 1(2)] 1 show ?case by (auto simp: keep_last_append)
qed

lemma bt_enabled_history:
  assumes "push_all bt_push_back msgs (bt_enable n bt0) = Inr bt" and "n + 1 < 2 ^ 64"
  shows "backtracer_ok bt" and "bt_enabled bt" and "traced bt = keep_last n msgs"
proof -
  have c: "capacity (bt_messages (bt_enable n bt0)) = n" "bt_enabled (bt_enable n bt0)"
    using assms(2) by (simp_all add: bt_enable_def capacity_new)
  from bt_push_all [OF bt_enable_ok(1), of msgs n bt0] assms(1) bt_enable_ok(2) [of n bt0] c
  show "backtracer_ok bt" "bt_enabled bt" "traced bt = keep_last n msgs" by auto
qed

lemma dump_backtrace_outputs:
  assumes l: "lw_loggers W L = Some l" and bt: "backtracer_ok (tracer l)" "bt_enabled (tracer l)" "traced (tracer l) \<noteq> []"
    and out: "push_all (sink_it_only env fw L)
      (new_log_msg tid (os_now env) no_source (l_name l) info backtrace_start # traced (tracer l)) W = Inr W1"
  shows "\<exists>bt'. backtracer_ok bt' \<and> bt_enabled bt' \<and> traced bt' = [] \<and>
    dump_backtrace env fw tid L W =
      Some (bindR (modify_logger L (\<lambda>l. l\<lparr>tracer := bt'\<rparr>) W1)
        (sink_it_only env fw L (new_log_msg tid (os_now env) no_source (l_name l) info backtrace_end)))"
proof -
  from out obtain Ws where s: "sink_it_only env fw L (new_log_msg tid (os_now env) no_source (l_name l) info backtrace_start) W = Inr Ws"
    and p: "push_all (sink_it_only env fw L) (traced (tracer l)) Ws = Inr W1" by (auto simp: bindR_eq_Inr)
  from foreach_pop_all [OF bt(1) p] obtain bt' where f: "foreach_pop (sink_it_only env fw L) (tracer l) Ws = Some (Inr (W1, bt'))"
    and "backtracer_ok bt'" "traced bt' = []" "bt_enabled bt'" using bt(2) by auto
  moreover have "\<not> bt_empty (tracer l)" using bt_empty_traced [OF bt(1)] bt(3) by simp
  ultimately show ?thesis
    using bt(2) s by (intro exI [of _ bt']) (simp add: dump_backtrace_def get_logger_Some [OF l] Let_def)
qed

section \<open>Filtering\<close>

text \<open>Below the level, with no backtrace, the arguments are not even formatted.\<close>

lemma log_message_filtered:
  "lw_loggers W L = Some l \<Longrightarrow> \<not> should_log lvl l \<Longrightarrow> \<not> bt_enabled (tracer l) \<Longrightarrow>
   log_message env fw tid L loc lvl formatted W = Inr W"
  by (simp add: log_message_def get_logger_Some)

end
