(* ===== verification/LogRegistry.thy ===== *)
theory LogRegistry
  imports LogCore
begin

text \<open>
  \<open>spdlog/details/registry-inl.h\<close>, the table of loggers with their common settings, the functions of
  \<open>spdlog-inl.h\<close> the program calls, and \<open>dwt::Logger\<close> of \<open>Logger.h\<close>, which sets the pattern, the level and the
  error handler. The table is a list of entries in the order of its traversal.
\<close>

section \<open>registry\<close>

record registry =
  r_loggers :: "(string \<times> nat) list"
  r_log_levels :: "string \<rightharpoonup> level_enum"
  r_registry_formatter :: pattern_formatter
  r_global_log_level :: level_enum
  r_registry_flush_level :: level_enum
  r_err_handler :: "nat option"
  r_default_logger :: "nat option"
  r_automatic_registration :: bool
  r_backtrace_n_messages :: nat

text \<open>The constructor: the default logger has no name and the console as its only sink.\<close>

definition new_registry :: "bool \<Rightarrow> nat \<Rightarrow> nat \<Rightarrow> log_world \<Rightarrow> registry \<times> log_world" where
  "new_registry terminal i L W =
     (\<lparr>r_loggers = [([], L)], r_log_levels = Map.empty,
       r_registry_formatter = default_pattern_formatter local_time [CHR 0x0A],
       r_global_log_level = info, r_registry_flush_level = off, r_err_handler = None,
       r_default_logger = Some L, r_automatic_registration = True, r_backtrace_n_messages = 0\<rparr>,
      W\<lparr>lw_sinks := (lw_sinks W)(i \<mapsto> Console (new_ansicolor_sink terminal automatic)),
        lw_loggers := (lw_loggers W)(L \<mapsto> new_logger [] [i])\<rparr>)"

text \<open>The loops over the loggers.\<close>

fun for_loggers :: "(nat \<Rightarrow> log_world \<Rightarrow> log_world res) \<Rightarrow> (string \<times> nat) list \<Rightarrow> log_world \<Rightarrow> log_world res" where
  "for_loggers f [] W = Inr W"
| "for_loggers f ((name, L) # ls) W = bindR (f L W) (for_loggers f ls)"

definition registry_set_formatter ::
    "log_env \<Rightarrow> pattern_formatter \<Rightarrow> registry \<Rightarrow> log_world \<Rightarrow> (registry \<times> log_world) res" where
  "registry_set_formatter env f R W =
     bindR (for_loggers (\<lambda>L. LogCore.set_formatter env L (clone_formatter env f)) (r_loggers R) W)
       (\<lambda>W. Inr (R\<lparr>r_registry_formatter := f\<rparr>, W))"

definition registry_enable_backtrace :: "nat \<Rightarrow> registry \<Rightarrow> log_world \<Rightarrow> (registry \<times> log_world) res" where
  "registry_enable_backtrace n R W =
     bindR (for_loggers (\<lambda>L. LogCore.enable_backtrace L n) (r_loggers R) W)
       (\<lambda>W. Inr (R\<lparr>r_backtrace_n_messages := n\<rparr>, W))"

definition registry_disable_backtrace :: "registry \<Rightarrow> log_world \<Rightarrow> (registry \<times> log_world) res" where
  "registry_disable_backtrace R W =
     bindR (for_loggers LogCore.disable_backtrace (r_loggers R) W)
       (\<lambda>W. Inr (R\<lparr>r_backtrace_n_messages := 0\<rparr>, W))"

definition registry_set_level :: "level_enum \<Rightarrow> registry \<Rightarrow> log_world \<Rightarrow> (registry \<times> log_world) res" where
  "registry_set_level lvl R W =
     bindR (for_loggers (\<lambda>L. LogCore.set_level L lvl) (r_loggers R) W)
       (\<lambda>W. Inr (R\<lparr>r_global_log_level := lvl\<rparr>, W))"

definition registry_flush_on :: "level_enum \<Rightarrow> registry \<Rightarrow> log_world \<Rightarrow> (registry \<times> log_world) res" where
  "registry_flush_on lvl R W =
     bindR (for_loggers (\<lambda>L. LogCore.flush_on L lvl) (r_loggers R) W)
       (\<lambda>W. Inr (R\<lparr>r_registry_flush_level := lvl\<rparr>, W))"

definition registry_set_error_handler :: "nat option \<Rightarrow> registry \<Rightarrow> log_world \<Rightarrow> (registry \<times> log_world) res" where
  "registry_set_error_handler h R W =
     bindR (for_loggers (\<lambda>L. LogCore.set_error_handler L h) (r_loggers R) W)
       (\<lambda>W. Inr (R\<lparr>r_err_handler := h\<rparr>, W))"

definition registry_get :: "string \<Rightarrow> registry \<Rightarrow> nat option" where
  "registry_get name R = map_of (r_loggers R) name"

text \<open>\<open>throw_if_exists_\<close> makes the result \<open>None\<close>.\<close>

definition register_logger :: "nat \<Rightarrow> registry \<Rightarrow> log_world \<Rightarrow> registry option res" where
  "register_logger L R W =
     bindR (get_logger L W) (\<lambda>l. Inr
       (if map_of (r_loggers R) (l_name l) \<noteq> None then None
        else Some (R\<lparr>r_loggers := (l_name l, L) # r_loggers R\<rparr>)))"

definition put_entry :: "string \<Rightarrow> nat \<Rightarrow> (string \<times> nat) list \<Rightarrow> (string \<times> nat) list" where
  "put_entry name L ls = (name, L) # filter (\<lambda>(n, _). n \<noteq> name) ls"

definition register_or_replace :: "nat \<Rightarrow> registry \<Rightarrow> log_world \<Rightarrow> registry res" where
  "register_or_replace L R W =
     bindR (get_logger L W) (\<lambda>l. Inr (R\<lparr>r_loggers := put_entry (l_name l) L (r_loggers R)\<rparr>))"

definition configured_level :: "string \<Rightarrow> registry \<Rightarrow> level_enum" where
  "configured_level name R = (case r_log_levels R name of Some l \<Rightarrow> l | None \<Rightarrow> r_global_log_level R)"

definition initialize_logger :: "log_env \<Rightarrow> nat \<Rightarrow> registry \<Rightarrow> log_world \<Rightarrow> (registry option \<times> log_world) res" where
  "initialize_logger env L R W =
     bindR (get_logger L W) (\<lambda>l.
     bindR (LogCore.set_formatter env L (clone_formatter env (r_registry_formatter R)) W) (\<lambda>W.
     bindR (if r_err_handler R \<noteq> None then LogCore.set_error_handler L (r_err_handler R) W else Inr W) (\<lambda>W.
     bindR (LogCore.set_level L (configured_level (l_name l) R) W) (\<lambda>W.
     bindR (LogCore.flush_on L (r_registry_flush_level R) W) (\<lambda>W.
     bindR (if 0 < r_backtrace_n_messages R then LogCore.enable_backtrace L (r_backtrace_n_messages R) W else Inr W) (\<lambda>W.
     if r_automatic_registration R then bindR (register_logger L R W) (\<lambda>R. Inr (R, W)) else Inr (Some R, W)))))))"

definition set_default_logger :: "nat option \<Rightarrow> registry \<Rightarrow> log_world \<Rightarrow> registry res" where
  "set_default_logger p R W =
     (case p of
        None \<Rightarrow> Inr (R\<lparr>r_default_logger := None\<rparr>)
      | Some L \<Rightarrow> bindR (get_logger L W) (\<lambda>l.
          Inr (R\<lparr>r_loggers := put_entry (l_name l) L (r_loggers R), r_default_logger := Some L\<rparr>)))"

definition registry_drop :: "string \<Rightarrow> registry \<Rightarrow> log_world \<Rightarrow> registry res" where
  "registry_drop name R W =
     bindR (case r_default_logger R of
              None \<Rightarrow> Inr False
            | Some L \<Rightarrow> bindR (get_logger L W) (\<lambda>l. Inr (l_name l = name))) (\<lambda>is_default_logger.
     let R = R\<lparr>r_loggers := filter (\<lambda>(n, _). n \<noteq> name) (r_loggers R)\<rparr>
     in Inr (if is_default_logger then R\<lparr>r_default_logger := None\<rparr> else R))"

definition registry_drop_all :: "registry \<Rightarrow> registry" where
  "registry_drop_all R = R\<lparr>r_loggers := [], r_default_logger := None\<rparr>"

definition set_levels ::
    "(string \<rightharpoonup> level_enum) \<Rightarrow> level_enum option \<Rightarrow> registry \<Rightarrow> log_world \<Rightarrow> (registry \<times> log_world) res" where
  "set_levels levels global_level R W =
     (let R = R\<lparr>r_log_levels := levels,
                r_global_log_level := (case global_level of Some l \<Rightarrow> l | None \<Rightarrow> r_global_log_level R)\<rparr>
      in bindR (foldl (\<lambda>r (name, L). bindR r (\<lambda>W.
           case levels name of
             Some l \<Rightarrow> LogCore.set_level L l W
           | None \<Rightarrow> (case global_level of Some l \<Rightarrow> LogCore.set_level L l W | None \<Rightarrow> Inr W)))
           (Inr W) (r_loggers R)) (\<lambda>W. Inr (R, W)))"

definition apply_logger_env_levels :: "nat \<Rightarrow> registry \<Rightarrow> log_world \<Rightarrow> log_world res" where
  "apply_logger_env_levels L R W =
     bindR (get_logger L W) (\<lambda>l. LogCore.set_level L (configured_level (l_name l) R) W)"

section \<open>dwt::Logger\<close>

definition registry_set_pattern ::
    "log_env \<Rightarrow> string \<Rightarrow> pattern_time_type \<Rightarrow> registry \<Rightarrow> log_world \<Rightarrow> (registry \<times> log_world) res" where
  "registry_set_pattern env pat ty R W =
     registry_set_formatter env (new_pattern_formatter env pat ty [CHR 0x0A] Map.empty) R W"

definition dwt_pattern :: string where
  "dwt_pattern = ''[%Y-%m-%d %H:%M:%S.%e] [%l] %v''"

text \<open>\<open>h\<close> is the handler that writes to \<open>std::cerr\<close>.\<close>

definition Logger_init :: "log_env \<Rightarrow> nat \<Rightarrow> level_enum \<Rightarrow> registry \<Rightarrow> log_world \<Rightarrow> (registry \<times> log_world) res" where
  "Logger_init env h min_level R W =
     bindR (registry_set_pattern env dwt_pattern local_time R W) (\<lambda>(R, W).
     bindR (registry_set_level min_level R W) (\<lambda>(R, W).
     bindR (registry_flush_on err R W) (\<lambda>(R, W).
     registry_set_error_handler (Some h) R W)))"

text \<open>\<open>LOG_TRACE\<close> to \<open>LOG_ERROR\<close>: the free functions of spdlog go to the default logger, with no location.\<close>

definition default_log ::
    "log_env \<Rightarrow> fwrite \<Rightarrow> nat \<Rightarrow> level_enum \<Rightarrow> string + string \<Rightarrow> registry \<Rightarrow> log_world \<Rightarrow> log_world res" where
  "default_log env fw tid lvl formatted R W =
     (case r_default_logger R of
        None \<Rightarrow> Inl NullDeref
      | Some L \<Rightarrow> log_message env fw tid L no_source lvl formatted W)"

text \<open>The location the macros put in front of the message.\<close>

definition log_text :: "string \<Rightarrow> nat \<Rightarrow> string \<Rightarrow> string" where
  "log_text file n message = file @ '':'' @ dec n @ '' '' @ message"

definition LOG_FATAL ::
    "log_env \<Rightarrow> fwrite \<Rightarrow> nat \<Rightarrow> string + string \<Rightarrow> registry \<Rightarrow> log_world \<Rightarrow> log_world res" where
  "LOG_FATAL env fw tid formatted R W =
     bindR (default_log env fw tid critical formatted R W) (\<lambda>W. Inl Aborted)"

end
