(* ===== verification/LogConsole.thy ===== *)
theory LogConsole
  imports LogRegistry
begin

text \<open>
  What the program's log looks like: the pattern \<open>dwt::Logger::init\<close> sets, the state of the default logger
  after it, and the lines that a sequence of logging calls writes to the console.
\<close>

section \<open>The pattern of dwt::Logger\<close>

definition dwt_items :: "pattern_item list" where
  "dwt_items =
     [Raw ''['', Flag None CHR ''Y'', Raw ''-'', Flag None CHR ''m'', Raw ''-'', Flag None CHR ''d'', Raw '' '',
      Flag None CHR ''H'', Raw '':'', Flag None CHR ''M'', Raw '':'', Flag None CHR ''S'', Raw ''.'', Flag None CHR ''e'',
      Raw ''] ['', Flag None CHR ''l'', Raw ''] '', Flag None CHR ''v'']"

abbreviation unpadded :: "flag_class \<Rightarrow> flag_formatter" where
  "unpadded c \<equiv> Padded c NullPadder no_padding"

definition dwt_formatters :: "flag_formatter list" where
  "dwt_formatters =
     [Aggregate ''['', unpadded Year4_f, Aggregate ''-'', unpadded Month2_f, Aggregate ''-'', unpadded Day2_f,
      Aggregate '' '', unpadded Hour24_f, Aggregate '':'', unpadded Minute_f, Aggregate '':'', unpadded Second_f,
      Aggregate ''.'', unpadded Milli_f, Aggregate ''] ['', unpadded Level_f, Aggregate ''] '', unpadded V_f]"

lemma dwt_pattern_text: "pattern_text dwt_items = dwt_pattern"
  by (simp add: pattern_text_def dwt_items_def dwt_pattern_def)

lemma dwt_items_ok: "items_ok dwt_items"
  by (simp add: dwt_items_def is_digit_def less_eq_char_def)

lemma handle_flag_builtin:
  assumes "custom_handlers pf = Map.empty"
  shows "map_of builtin_flags flag = Some (c, True) \<Longrightarrow>
      handle_flag env p flag padding pf = (add_formatter (Padded c p padding) pf)\<lparr>need_localtime := True\<rparr>"
    and "map_of builtin_flags flag = Some (c, False) \<Longrightarrow>
      handle_flag env p flag padding pf = add_formatter (Padded c p padding) pf"
  using assms by (simp_all add: handle_flag_def Let_def)

lemma dwt_flags:
  "map_of builtin_flags CHR ''Y'' = Some (Year4_f, True)" "map_of builtin_flags CHR ''m'' = Some (Month2_f, True)"
  "map_of builtin_flags CHR ''d'' = Some (Day2_f, True)" "map_of builtin_flags CHR ''H'' = Some (Hour24_f, True)"
  "map_of builtin_flags CHR ''M'' = Some (Minute_f, True)" "map_of builtin_flags CHR ''S'' = Some (Second_f, True)"
  "map_of builtin_flags CHR ''e'' = Some (Milli_f, False)" "map_of builtin_flags CHR ''l'' = Some (Level_f, False)"
  "map_of builtin_flags CHR ''v'' = Some (V_f, False)"
  by (simp_all add: builtin_flags_def)

lemma dwt_compiled:
  assumes "custom_handlers pf = Map.empty"
  shows "formatters (compile_pattern env dwt_pattern pf) = dwt_formatters"
proof -
  have c: "custom_handlers (pf\<lparr>formatters := []\<rparr>) = Map.empty" using assms by simp
  show ?thesis
    unfolding dwt_pattern_text [symmetric] compile_pattern_items [OF dwt_items_ok]
    by (simp add: dwt_items_def dwt_formatters_def handle_flag_builtin dwt_flags add_formatter_def assms)
qed

lemma dwt_formatters_ok: "\<forall>f\<in>set dwt_formatters. formatter_ok env msg t f"
  by (simp add: dwt_formatters_def padding_ok_def no_padding_def announces_def)

definition dwt_line :: "log_env \<Rightarrow> int \<Rightarrow> level_enum \<Rightarrow> string \<Rightarrow> string" where
  "dwt_line env time lvl payload =
     (let t = os_localtime env (time div ns_per_sec)
      in ''['' @ dec (nat (tm_year t + 1900)) @ ''-'' @ two (tm_mon t + 1) @ ''-'' @ two (tm_mday t) @ '' '' @
         two (tm_hour t) @ '':'' @ two (tm_min t) @ '':'' @ two (tm_sec t) @ ''.'' @
         zero_padded 3 (nat (time mod ns_per_sec div 1000000)) @ ''] ['' @ to_string_view lvl @ ''] '' @ payload @
         [CHR 0x0A])"

lemma dwt_text:
  assumes "0 \<le> msg_time msg" and "time_type pf = local_time"
  shows "all_text env msg (get_time env pf msg) dwt_formatters @ [CHR 0x0A] =
    dwt_line env (msg_time msg) (msg_level msg) (msg_payload msg)"
  using assms by (simp add: all_text_def dwt_formatters_def dwt_line_def class_output_def padded_def get_time_def
      msg_secs_def duration_cast_def Let_def)

section \<open>After init\<close>

lemma format_message_settings:
  "format_message env pf msg dest = Inr (pf', msg', dest') \<Longrightarrow>
   pf_eol pf' = pf_eol pf \<and> time_type pf' = time_type pf"
  by (auto simp: format_message_def Let_def bindR_eq_Inr refresh_tm_def split: if_splits)

primrec colorless :: "flag_formatter \<Rightarrow> bool" where
  "colorless (Padded c p padinfo) = True"
| "colorless (Zone p padinfo latest offset) = True"
| "colorless (Elapsed p padinfo u latest) = True"
| "colorless (Full ts cached) = False"
| "colorless (Ch c) = True"
| "colorless (Aggregate s) = True"
| "colorless ColorStart = False"
| "colorless ColorStop = False"
| "colorless (Custom i padinfo) = True"

lemma run_formatters_colorless:
  "run_formatters env fs msg t dest = Inr (fs', msg', dest') \<Longrightarrow> \<forall>f\<in>set fs. colorless f \<Longrightarrow> msg' = msg"
proof (induction fs arbitrary: msg dest fs')
  case (Cons f fs)
  from Cons.prems(1) obtain f1 m1 d1 fs1 where "flag_format env f msg t dest = Inr (f1, m1, d1)"
    and r: "run_formatters env fs m1 t d1 = Inr (fs1, msg', dest')"
    by (auto simp: bindR_eq_Inr)
  with Cons.prems(2) have "m1 = msg" by (cases f) (auto simp: bindR_eq_Inr split: prod.splits)
  with Cons.IH [OF r] Cons.prems(2) show ?case by simp
qed simp

lemma format_message_colorless:
  "format_message env pf msg dest = Inr (pf', msg', dest') \<Longrightarrow> \<forall>f\<in>set (formatters pf). colorless f \<Longrightarrow> msg' = msg"
  by (auto simp: format_message_def Let_def bindR_eq_Inr refresh_tm_def split: if_splits dest!: run_formatters_colorless)

lemma dwt_colorless: "\<forall>f\<in>set dwt_formatters. colorless f"
  by (simp add: dwt_formatters_def)

definition dwt_formatter :: "log_env \<Rightarrow> pattern_formatter \<Rightarrow> bool" where
  "dwt_formatter env pf \<longleftrightarrow>
     cache_inv env pf \<and> formatters pf = dwt_formatters \<and> pf_eol pf = [CHR 0x0A] \<and> time_type pf = local_time"

lemma dwt_format:
  assumes "dwt_formatter env pf" and "clock_ok env" and "message_ok env msg" and "msg_secs msg \<noteq> 0"
    and "color_range_start msg = 0" and "color_range_end msg = 0"
  shows "\<exists>pf'. format_message env pf msg [] = Inr (pf', msg, dwt_line env (msg_time msg) (msg_level msg) (msg_payload msg)) \<and>
    dwt_formatter env pf'"
proof -
  from assms(1) have pf: "cache_inv env pf" "formatters pf = dwt_formatters" "pf_eol pf = [CHR 0x0A]" "time_type pf = local_time"
    by (simp_all add: dwt_formatter_def)
  obtain pf' i j where f: "format_message env pf msg [] =
      Inr (pf', colored i j msg, all_text env msg (get_time env pf msg) dwt_formatters @ [CHR 0x0A])"
    and "formatters pf' = dwt_formatters"
    using format_message_time [OF pf(1) assms(2-4), of "[]"] dwt_formatters_ok assms(5,6) unfolding pf(2,3) by auto
  moreover from f have "colored i j msg = msg"
    using format_message_colorless [OF f] dwt_colorless pf(2) by simp
  moreover have "dwt_formatter env pf'"
    using format_message_settings [OF f] cache_inv_format [OF pf(1) f] calculation(2) pf by (simp add: dwt_formatter_def)
  moreover have "0 \<le> msg_time msg" using assms(3) by (simp add: message_ok_def)
  ultimately show ?thesis using dwt_text [OF _ pf(4)] by simp
qed

text \<open>The default logger writes to one console with this formatter and drops what is below \<open>lvl\<close>.\<close>

definition console_ready :: "log_env \<Rightarrow> nat \<Rightarrow> nat \<Rightarrow> level_enum \<Rightarrow> registry \<Rightarrow> log_world \<Rightarrow> bool" where
  "console_ready env i L lvl R W \<longleftrightarrow>
     r_default_logger R = Some L \<and>
     (\<exists>l s. lw_loggers W L = Some l \<and> l_sinks l = [i] \<and> l_level l = lvl \<and> \<not> bt_enabled (tracer l) \<and>
        lw_sinks W i = Some (Console s) \<and> a_level s = trace \<and> colors_ok s \<and> dwt_formatter env (a_formatter s))"

definition console_text :: "nat \<Rightarrow> log_world \<Rightarrow> string" where
  "console_text i W = (case lw_sinks W i of Some (Console s) \<Rightarrow> target_file s | _ \<Rightarrow> [])"

lemma clone_new_pattern:
  "clone_formatter env (new_pattern_formatter env pat ty eol custom) = new_pattern_formatter env pat ty eol custom"
proof -
  let ?pf = "\<lparr>pattern = pat, pf_eol = eol, time_type = ty, need_localtime = False, cached_tm = zero_tm,
        last_log_secs = 0, formatters = [], custom_handlers = custom\<rparr>"
  have "new_pattern_formatter env pat ty eol custom = compile_loop env pat None ?pf"
    by (simp add: new_pattern_formatter_def compile_pattern_def)
  moreover have "same_settings ?pf (compile_loop env pat None ?pf)" by (rule compile_loop_settings)
  ultimately show ?thesis by (simp add: clone_formatter_def same_settings_def)
qed

lemma new_dwt_formatter: "dwt_formatter env (new_pattern_formatter env dwt_pattern local_time [CHR 0x0A] Map.empty)"
proof -
  let ?pf = "\<lparr>pattern = dwt_pattern, pf_eol = [CHR 0x0A], time_type = local_time, need_localtime = False, cached_tm = zero_tm,
        last_log_secs = 0, formatters = [], custom_handlers = Map.empty\<rparr>"
  have "same_settings ?pf (compile_loop env dwt_pattern None ?pf)" by (rule compile_loop_settings)
  then have "pf_eol (compile_pattern env dwt_pattern ?pf) = [CHR 0x0A]" "time_type (compile_pattern env dwt_pattern ?pf) = local_time"
    by (simp_all add: compile_pattern_def same_settings_def)
  then show ?thesis
    using cache_inv_new [of env dwt_pattern local_time "[CHR 0x0A]" Map.empty] dwt_compiled [of ?pf env]
    by (simp add: dwt_formatter_def new_pattern_formatter_def)
qed

lemma trace_least: "trace \<le> (l :: level_enum)"
  by (cases l) (simp_all add: less_eq_level_enum_def)

lemma new_ansicolor_sel: "a_level (new_ansicolor_sink b m) = trace" "length (colors (new_ansicolor_sink b m)) = 7"
  "target_file (new_ansicolor_sink b m) = []"
  by (cases m; simp add: new_ansicolor_sink_def set_color_mode_def)+

lemma Logger_init_ready:
  assumes "new_registry terminal i L W0 = (R0, W1)"
  shows "\<exists>R W. Logger_init env h min_level R0 W1 = Inr (R, W) \<and> console_ready env i L min_level R W \<and> console_text i W = []"
  using assms new_dwt_formatter [of env]
  by (auto simp: new_registry_def Logger_init_def registry_set_pattern_def registry_set_formatter_def registry_set_level_def
      registry_flush_on_def registry_set_error_handler_def LogCore.set_formatter_def LogCore.set_level_def LogCore.flush_on_def
      LogCore.set_error_handler_def modify_logger_def get_logger_def get_sink_def put_sink_def clone_new_pattern
      new_logger_def new_backtracer_def console_ready_def console_text_def new_ansicolor_sel colors_ok_def)

text \<open>A logging call: its time, thread, level and text.\<close>

type_synonym log_call = "int \<times> nat \<times> level_enum \<times> string"

fun call_ok :: "log_call \<Rightarrow> bool" where
  "call_ok (now, tid, lvl, buf) = (ns_per_sec \<le> now \<and> now < 2 ^ 63 \<and> tid < 2 ^ 64)"

fun call_line :: "log_env \<Rightarrow> level_enum \<Rightarrow> log_call \<Rightarrow> string" where
  "call_line env min_level (now, tid, lvl, buf) = (if min_level \<le> lvl then dwt_line env now lvl buf else [])"

fun log_calls :: "log_env \<Rightarrow> fwrite \<Rightarrow> log_call list \<Rightarrow> registry \<Rightarrow> log_world \<Rightarrow> log_world res" where
  "log_calls env fw [] R W = Inr W"
| "log_calls env fw ((now, tid, lvl, buf) # calls) R W =
     bindR (default_log (env\<lparr>os_now := now\<rparr>) fw tid lvl (Inr buf) R W) (log_calls env fw calls R)"

lemma env_now:
  "clock_ok (env\<lparr>os_now := now\<rparr>) = clock_ok env"
  "dwt_formatter (env\<lparr>os_now := now\<rparr>) pf = dwt_formatter env pf"
  "dwt_line (env\<lparr>os_now := now\<rparr>) t l s = dwt_line env t l s"
  by (simp_all add: clock_ok_def dwt_formatter_def cache_inv_def tm_cached_def time_at_def dwt_line_def)

lemma console_log:
  assumes r: "console_ready env i L min_level R W" and fw: "takes_all fw" and c: "clock_ok env" "os_pid env < 2 ^ 32"
    and ok: "call_ok (now, tid, lvl, buf)"
  shows "\<exists>W'. default_log (env\<lparr>os_now := now\<rparr>) fw tid lvl (Inr buf) R W = Inr W' \<and>
    console_ready env i L min_level R W' \<and>
    console_text i W' = console_text i W @ call_line env min_level (now, tid, lvl, buf)"
proof -
  let ?env = "env\<lparr>os_now := now\<rparr>"
  from r obtain l s where l: "r_default_logger R = Some L" "lw_loggers W L = Some l" "l_sinks l = [i]" "l_level l = min_level"
    "\<not> bt_enabled (tracer l)" and s: "lw_sinks W i = Some (Console s)" "a_level s = trace" "colors_ok s"
    "dwt_formatter env (a_formatter s)"
    by (auto simp: console_ready_def)
  let ?msg = "new_log_msg tid now no_source (l_name l) lvl buf"
  show ?thesis
  proof (cases "min_level \<le> lvl")
    case False
    with l r show ?thesis
      by (simp add: default_log_def log_message_def get_logger_def should_log_def Let_def)
  next
    case True
    from ok have n: "0 \<le> now" "now < 2 ^ 63" "ns_per_sec \<le> now" "tid < 2 ^ 64" by (auto simp: ns_per_sec_def)
    then have "0 < now div ns_per_sec" by (simp add: ns_per_sec_def pos_imp_zdiv_pos_iff)
    with n have m: "message_ok ?env ?msg" "msg_secs ?msg \<noteq> 0" "color_range_start ?msg = 0" "color_range_end ?msg = 0"
      using c(2) by (auto simp: message_ok_def new_log_msg_def no_source_def source_empty_def msg_secs_def duration_cast_def)
    have cm: "colored 0 0 ?msg = ?msg" by (simp add: colored_def new_log_msg_def)
    from dwt_format [of ?env "a_formatter s" ?msg] s(4) c(1) m obtain pf' where
      f: "format_message ?env (a_formatter s) ?msg [] = Inr (pf', ?msg, dwt_line env now lvl buf)"
      and pf': "dwt_formatter env pf'"
      by (auto simp: env_now new_log_msg_def)
    let ?s = "s\<lparr>a_formatter := pf', target_file := target_file s @ dwt_line env now lvl buf\<rparr>"
    have "ansicolor_log ?env fw ?msg s = Inr (?msg, ?s)"
      using ansicolor_log_text [OF fw s(3), of ?env ?msg pf' 0 0] f cm by simp
    then have "sink_log ?env fw ?msg (Console s) = Inr (?msg, Console ?s)" by simp
    moreover have "sink_should_log lvl (Console s)" using s(2) trace_least by (simp add: sink_should_log_def)
    moreover have "msg_level ?msg = lvl" by (simp add: new_log_msg_def)
    ultimately have k: "log_to_sinks ?env fw [i] ?msg W = Inr (?msg, put_sink i (Console ?s) W)"
      using s(1) by (simp add: get_sink_def)
    have "sink_it ?env fw L ?msg W = Inr (?msg, put_sink i (Console ?s) W)"
      using l(2,3) k by (simp add: sink_it_def get_logger_def get_sink_def put_sink_def)
    then have "default_log ?env fw tid lvl (Inr buf) R W = Inr (put_sink i (Console ?s) W)"
      using l True by (simp add: default_log_def log_message_def get_logger_def should_log_def Let_def log_it_def)
    moreover have "console_ready env i L min_level R (put_sink i (Console ?s) W)"
      using l s pf' by (simp add: console_ready_def put_sink_def colors_ok_def)
    ultimately show ?thesis using True s(1) by (simp add: console_text_def put_sink_def)
  qed
qed

lemma console_log_calls:
  assumes "console_ready env i L min_level R W" and fw: "takes_all fw" and c: "clock_ok env" "os_pid env < 2 ^ 32"
    and "\<forall>e\<in>set calls. call_ok e"
  shows "\<exists>W'. log_calls env fw calls R W = Inr W' \<and> console_ready env i L min_level R W' \<and>
    console_text i W' = console_text i W @ concat (map (call_line env min_level) calls)"
  using assms(1,5)
proof (induction calls arbitrary: W)
  case (Cons e calls)
  obtain now tid lvl buf where e: "e = (now, tid, lvl, buf)" by (cases e)
  from Cons.prems(2) have ok: "call_ok (now, tid, lvl, buf)" by (simp add: e)
  from console_log [OF Cons.prems(1) fw c ok] obtain W1 where W1:
    "default_log (env\<lparr>os_now := now\<rparr>) fw tid lvl (Inr buf) R W = Inr W1" "console_ready env i L min_level R W1"
    "console_text i W1 = console_text i W @ call_line env min_level (now, tid, lvl, buf)" by blast
  from Cons.IH [OF W1(2)] Cons.prems(2) obtain W' where "log_calls env fw calls R W1 = Inr W'" "console_ready env i L min_level R W'"
    "console_text i W' = console_text i W1 @ concat (map (call_line env min_level) calls)" by auto
  with W1 show ?case by (auto simp: e simp del: call_line.simps)
qed simp

end
