(* ===== verification/LogDemo.thy ===== *)
theory LogDemo
  imports LogConsole
begin

text \<open>The environment, messages and stores the witnesses of the logging properties use.\<close>

definition demo_tm :: log_tm where
  "demo_tm = \<lparr>tm_year = 124, tm_mon = 0, tm_mday = 2, tm_hour = 13, tm_min = 4, tm_sec = 5, tm_wday = 2, tm_gmtoff = 0\<rparr>"

definition demo_env :: log_env where
  "demo_env = \<lparr>os_localtime = \<lambda>secs. demo_tm, os_gmtime = \<lambda>secs. demo_tm, os_pid = 7, os_now = 0, mdc_context = [],
     custom_format = \<lambda>i padinfo msg tm_time dest. Inr dest\<rparr>"

definition demo_msg :: "string \<Rightarrow> log_msg" where
  "demo_msg s = new_log_msg 7 3000000000 no_source ''net'' info s"

definition empty_log_world :: log_world where
  "empty_log_world = \<lparr>lw_sinks = Map.empty, lw_loggers = Map.empty, err_calls = [], stderr_reports = [],
     err_counter = 0, last_report_time = 0\<rparr>"

lemma demo_tm_sel [simp]:
  "tm_year demo_tm = 124" "tm_mon demo_tm = 0" "tm_mday demo_tm = 2" "tm_hour demo_tm = 13"
  "tm_min demo_tm = 4" "tm_sec demo_tm = 5" "tm_wday demo_tm = 2"
  by (simp_all add: demo_tm_def)

lemma demo_calendar: "calendar_ok demo_tm"
  by (simp add: calendar_ok_def)

lemma demo_clock: "clock_ok demo_env"
  by (simp add: clock_ok_def demo_env_def demo_calendar)

lemma demo_env_sel [simp]: "os_pid demo_env = 7" "os_localtime demo_env secs = demo_tm" "os_gmtime demo_env secs = demo_tm"
  "mdc_context demo_env = []"
  by (simp_all add: demo_env_def)

lemma demo_msg_sel [simp]: "msg_time (demo_msg s) = 3000000000" "msg_level (demo_msg s) = info" "msg_payload (demo_msg s) = s"
  "color_range_start (demo_msg s) = 0" "color_range_end (demo_msg s) = 0" "msg_thread_id (demo_msg s) = 7"
  "msg_source (demo_msg s) = no_source" "msg_logger_name (demo_msg s) = ''net''"
  by (simp_all add: demo_msg_def new_log_msg_def)

lemma demo_message_ok: "message_ok demo_env (demo_msg s)"
  by (simp add: message_ok_def no_source_def source_empty_def)

lemma demo_msg_secs: "msg_secs (demo_msg s) = 3"
  by (simp add: msg_secs_def duration_cast_def ns_per_sec_def)

lemma dec_2024: "dec 2024 = ''2024''"
  by (simp add: dec.simps ascii_digit_def char_digits)

lemma two_small: "two 1 = ''01''" "two 2 = ''02''" "two 4 = ''04''" "two 5 = ''05''" "two 13 = ''13''"
  by (simp_all add: two_def zero_padded_2 ascii_digit_def char_digits)

section \<open>A logger with a ring buffer\<close>

definition ring_world :: "nat \<Rightarrow> logger \<Rightarrow> log_world \<Rightarrow> bool" where
  "ring_world n l W \<longleftrightarrow>
     lw_loggers W 4 = Some l \<and> l_sinks l = [3] \<and>
     (\<exists>s. lw_sinks W 3 = Some (Ring s) \<and> r_level s = trace \<and> circular_ok (r_q s) \<and> capacity (r_q s) = n)"

definition ring_items :: "log_world \<Rightarrow> log_msg list" where
  "ring_items W = (case lw_sinks W 3 of Some (Ring s) \<Rightarrow> q_contents (r_q s) | _ \<Rightarrow> [])"

lemma ring_sink_it:
  assumes "ring_world n l W"
  shows "\<exists>W'. sink_it_only env fw 4 msg W = Inr W' \<and> ring_world n l W' \<and>
    ring_items W' = keep_last n (ring_items W @ [msg])"
proof -
  from assms obtain s where l: "lw_loggers W 4 = Some l" "l_sinks l = [3]"
    and s: "lw_sinks W 3 = Some (Ring s)" "r_level s = trace" "circular_ok (r_q s)" "capacity (r_q s) = n"
    by (auto simp: ring_world_def)
  from cq.push_law [OF s(3), of msg] obtain q where q: "q_push_back msg (r_q s) = Inr q" "circular_ok q"
    "capacity q = n" "q_contents q = keep_last n (q_contents (r_q s) @ [msg])" using s(4) by auto
  let ?W = "put_sink 3 (Ring (s\<lparr>r_q := q\<rparr>)) W"
  have "log_to_sinks env fw [3] msg W = Inr (msg, ?W)"
    using s(1,2) q(1) trace_least [of "msg_level msg"] by (simp add: get_sink_def sink_should_log_def ringbuffer_log_def)
  then have "sink_it_only env fw 4 msg W = Inr ?W"
    using l by (simp add: sink_it_only_def sink_it_def get_logger_Some get_sink_def put_sink_def)
  moreover have "ring_world n l ?W" "ring_items ?W = keep_last n (ring_items W @ [msg])"
    using l s q by (simp_all add: ring_world_def ring_items_def put_sink_def)
  ultimately show ?thesis by blast
qed

lemma ring_sink_all:
  assumes "ring_world n l W" and "length (ring_items W @ msgs) \<le> n"
  shows "\<exists>W'. push_all (sink_it_only env fw 4) msgs W = Inr W' \<and> ring_world n l W' \<and> ring_items W' = ring_items W @ msgs"
  using assms
proof (induction msgs arbitrary: W)
  case (Cons m msgs)
  from ring_sink_it [OF Cons.prems(1), of env fw m] obtain W1 where W1: "sink_it_only env fw 4 m W = Inr W1" "ring_world n l W1"
    "ring_items W1 = keep_last n (ring_items W @ [m])" by blast
  with Cons.prems(2) have "ring_items W1 = ring_items W @ [m]" by (simp add: keep_last_short)
  with Cons.IH [OF W1(2)] Cons.prems(2) W1(1) show ?case by auto
qed simp

definition ring_start :: "backtracer \<Rightarrow> log_world" where
  "ring_start bt = empty_log_world\<lparr>
     lw_sinks := [3 \<mapsto> Ring \<lparr>r_level = trace, r_formatter = default_pattern_formatter local_time [], r_q = new_circular_q no_msg 8\<rparr>],
     lw_loggers := [4 \<mapsto> (new_logger ''net'' [3])\<lparr>tracer := bt\<rparr>]\<rparr>"

lemma ring_start_world: "ring_world 8 ((new_logger ''net'' [3])\<lparr>tracer := bt\<rparr>) (ring_start bt)" "ring_items (ring_start bt) = []"
  by (simp_all add: ring_world_def ring_items_def ring_start_def new_circular_q_ok capacity_new new_logger_def)

end
