(* ===== verification/FmtSpecs.thy ===== *)
theory FmtSpecs
  imports Decimal
begin

text \<open>
  The data of a replacement field of \<open>fmt\<close> (\<open>fmt/bundled/base.h\<close>): the types of arguments, and the format
  specifiers \<open>basic_specs\<close>, which pack eight fields into one unsigned integer. The getters and setters work on
  the bits as the code does; the lemmas show that the packed word behaves as independent fields.
\<close>

section \<open>Types of arguments\<close>

datatype fmt_type =
    none_type
  | int_type | uint_type | long_long_type | ulong_long_type | int128_type | uint128_type
  | bool_type | char_type
  | float_type | double_type | long_double_type
  | cstring_type | string_type | pointer_type | custom_type

fun type_code :: "fmt_type \<Rightarrow> nat" where
  "type_code none_type = 0"
| "type_code int_type = 1"
| "type_code uint_type = 2"
| "type_code long_long_type = 3"
| "type_code ulong_long_type = 4"
| "type_code int128_type = 5"
| "type_code uint128_type = 6"
| "type_code bool_type = 7"
| "type_code char_type = 8"
| "type_code float_type = 9"
| "type_code double_type = 10"
| "type_code long_double_type = 11"
| "type_code cstring_type = 12"
| "type_code string_type = 13"
| "type_code pointer_type = 14"
| "type_code custom_type = 15"

definition is_integral_type :: "fmt_type \<Rightarrow> bool" where
  "is_integral_type t \<longleftrightarrow> type_code none_type < type_code t \<and> type_code t \<le> type_code char_type"

definition is_arithmetic_type :: "fmt_type \<Rightarrow> bool" where
  "is_arithmetic_type t \<longleftrightarrow> type_code none_type < type_code t \<and> type_code t \<le> type_code long_double_type"

definition type_set :: "fmt_type \<Rightarrow> u32" where
  "type_set rhs = push_bit (type_code rhs) 1"

definition in_set :: "fmt_type \<Rightarrow> u32 \<Rightarrow> bool" where
  "in_set t s \<longleftrightarrow> drop_bit (type_code t) s AND 1 \<noteq> 0"

definition sint_set :: u32 where
  "sint_set = type_set int_type OR type_set long_long_type OR type_set int128_type"

definition uint_set :: u32 where
  "uint_set = type_set uint_type OR type_set ulong_long_type OR type_set uint128_type"

definition bool_set :: u32 where "bool_set = type_set bool_type"
definition char_set :: u32 where "char_set = type_set char_type"

definition float_set :: u32 where
  "float_set = type_set float_type OR type_set double_type OR type_set long_double_type"

definition string_set :: u32 where "string_set = type_set string_type"
definition cstring_set :: u32 where "cstring_set = type_set cstring_type"
definition pointer_set :: u32 where "pointer_set = type_set pointer_type"

definition integral_set :: u32 where
  "integral_set = sint_set OR uint_set OR bool_set OR char_set"

lemmas type_sets = sint_set_def uint_set_def bool_set_def char_set_def float_set_def string_set_def
  cstring_set_def pointer_set_def integral_set_def type_set_def in_set_def

text \<open>The bit sets are the sets of types they are named after.\<close>

lemma in_sets [simp]:
  "in_set t (sint_set OR float_set) \<longleftrightarrow>
     t \<in> {int_type, long_long_type, int128_type, float_type, double_type, long_double_type}"
  "in_set t (float_set OR string_set OR cstring_set) \<longleftrightarrow>
     t \<in> {float_type, double_type, long_double_type, string_type, cstring_type}"
  "in_set t integral_set \<longleftrightarrow> is_integral_type t"
  "in_set t float_set \<longleftrightarrow> t \<in> {float_type, double_type, long_double_type}"
  "in_set t (bool_set OR string_set OR cstring_set) \<longleftrightarrow> t \<in> {bool_type, string_type, cstring_type}"
  "in_set t (pointer_set OR cstring_set) \<longleftrightarrow> t \<in> {pointer_type, cstring_type}"
  "in_set t (char_set OR string_set OR cstring_set) \<longleftrightarrow> t \<in> {char_type, string_type, cstring_type}"
  by (cases t; simp add: type_sets is_integral_type_def)+

section \<open>Format specifiers\<close>

text \<open>
  \<open>presentation_type\<close> gives one value to several names (\<open>exp\<close> and \<open>debug\<close>, \<open>dec\<close> and \<open>pointer\<close>), so its
  enumerators are numbers.
\<close>

type_synonym presentation_type = u32

abbreviation (input) pres_none :: presentation_type where "pres_none \<equiv> 0"
abbreviation (input) pres_debug :: presentation_type where "pres_debug \<equiv> 1"
abbreviation (input) pres_string :: presentation_type where "pres_string \<equiv> 2"
abbreviation (input) pres_dec :: presentation_type where "pres_dec \<equiv> 3"
abbreviation (input) pres_hex :: presentation_type where "pres_hex \<equiv> 4"
abbreviation (input) pres_oct :: presentation_type where "pres_oct \<equiv> 5"
abbreviation (input) pres_bin :: presentation_type where "pres_bin \<equiv> 6"
abbreviation (input) pres_chr :: presentation_type where "pres_chr \<equiv> 7"
abbreviation (input) pres_pointer :: presentation_type where "pres_pointer \<equiv> 3"
abbreviation (input) pres_exp :: presentation_type where "pres_exp \<equiv> 1"
abbreviation (input) pres_fixed :: presentation_type where "pres_fixed \<equiv> 2"
abbreviation (input) pres_general :: presentation_type where "pres_general \<equiv> 3"
abbreviation (input) pres_hexfloat :: presentation_type where "pres_hexfloat \<equiv> 4"

datatype align = align_none | align_left | align_right | align_center | align_numeric
datatype sign = sign_none | sign_minus | sign_plus | sign_space
datatype arg_id_kind = id_none | id_index | id_name

fun align_code :: "align \<Rightarrow> u32" where
  "align_code align_none = 0"
| "align_code align_left = 1"
| "align_code align_right = 2"
| "align_code align_center = 3"
| "align_code align_numeric = 4"

fun sign_code :: "sign \<Rightarrow> u32" where
  "sign_code sign_none = 0"
| "sign_code sign_minus = 1"
| "sign_code sign_plus = 2"
| "sign_code sign_space = 3"

fun kind_code :: "arg_id_kind \<Rightarrow> u32" where
  "kind_code id_none = 0"
| "kind_code id_index = 1"
| "kind_code id_name = 2"

text \<open>The casts back; no other value is ever stored.\<close>

definition align_cast :: "u32 \<Rightarrow> align" where
  "align_cast n = (if n = 1 then align_left else if n = 2 then align_right else if n = 3 then align_center
     else if n = 4 then align_numeric else align_none)"

definition sign_cast :: "u32 \<Rightarrow> sign" where
  "sign_cast n = (if n = 1 then sign_minus else if n = 2 then sign_plus else if n = 3 then sign_space else sign_none)"

definition kind_cast :: "u32 \<Rightarrow> arg_id_kind" where
  "kind_cast n = (if n = 1 then id_index else if n = 2 then id_name else id_none)"

lemma casts [simp]:
  "align_cast (align_code a) = a" "sign_cast (sign_code s) = s" "kind_cast (kind_code k) = k"
  by (cases a; cases s; cases k; simp add: align_cast_def sign_cast_def kind_cast_def)+

definition type_mask :: u32 where "type_mask = 0x00007"
definition align_mask :: u32 where "align_mask = 0x00038"
definition width_mask :: u32 where "width_mask = 0x000C0"
definition precision_mask :: u32 where "precision_mask = 0x00300"
definition sign_mask :: u32 where "sign_mask = 0x00C00"
definition uppercase_mask :: u32 where "uppercase_mask = 0x01000"
definition alternate_mask :: u32 where "alternate_mask = 0x02000"
definition localized_mask :: u32 where "localized_mask = 0x04000"
definition fill_size_mask :: u32 where "fill_size_mask = 0x38000"

text \<open>
  \<open>basic_specs\<close>, \<open>format_specs\<close> and \<open>dynamic_format_specs\<close>. An \<open>arg_ref\<close> is a union; reading the member that
  was not written is undefined.
\<close>

datatype arg_ref = Ref_index int | Ref_name string

record basic_specs =
  specs_data :: u32
  fill_data :: string

record format_specs = basic_specs +
  specs_width :: int
  specs_precision :: int

record dynamic_format_specs = format_specs +
  width_ref :: arg_ref
  precision_ref :: arg_ref

definition default_specs :: format_specs where
  "default_specs =
     \<lparr>specs_data = push_bit 15 1, fill_data = [CHR '' '', CHR 0x00, CHR 0x00, CHR 0x00],
      specs_width = 0, specs_precision = -1\<rparr>"

definition default_dynamic_specs :: dynamic_format_specs where
  "default_dynamic_specs =
     \<lparr>specs_data = push_bit 15 1, fill_data = [CHR '' '', CHR 0x00, CHR 0x00, CHR 0x00],
      specs_width = 0, specs_precision = -1, width_ref = Ref_index 0, precision_ref = Ref_index 0\<rparr>"

definition spec_type :: "'a basic_specs_scheme \<Rightarrow> presentation_type" where
  "spec_type s = specs_data s AND type_mask"

definition set_type :: "presentation_type \<Rightarrow> 'a basic_specs_scheme \<Rightarrow> 'a basic_specs_scheme" where
  "set_type t s = s\<lparr>specs_data := (specs_data s AND NOT type_mask) OR t\<rparr>"

definition spec_align :: "'a basic_specs_scheme \<Rightarrow> align" where
  "spec_align s = align_cast (drop_bit 3 (specs_data s AND align_mask))"

definition set_align :: "align \<Rightarrow> 'a basic_specs_scheme \<Rightarrow> 'a basic_specs_scheme" where
  "set_align a s = s\<lparr>specs_data := (specs_data s AND NOT align_mask) OR push_bit 3 (align_code a)\<rparr>"

definition dynamic_width :: "'a basic_specs_scheme \<Rightarrow> arg_id_kind" where
  "dynamic_width s = kind_cast (drop_bit 6 (specs_data s AND width_mask))"

definition set_dynamic_width :: "arg_id_kind \<Rightarrow> 'a basic_specs_scheme \<Rightarrow> 'a basic_specs_scheme" where
  "set_dynamic_width w s = s\<lparr>specs_data := (specs_data s AND NOT width_mask) OR push_bit 6 (kind_code w)\<rparr>"

definition dynamic_precision :: "'a basic_specs_scheme \<Rightarrow> arg_id_kind" where
  "dynamic_precision s = kind_cast (drop_bit 8 (specs_data s AND precision_mask))"

definition set_dynamic_precision :: "arg_id_kind \<Rightarrow> 'a basic_specs_scheme \<Rightarrow> 'a basic_specs_scheme" where
  "set_dynamic_precision p s = s\<lparr>specs_data := (specs_data s AND NOT precision_mask) OR push_bit 8 (kind_code p)\<rparr>"

definition spec_dynamic :: "'a basic_specs_scheme \<Rightarrow> bool" where
  "spec_dynamic s \<longleftrightarrow> specs_data s AND (width_mask OR precision_mask) \<noteq> 0"

definition spec_sign :: "'a basic_specs_scheme \<Rightarrow> sign" where
  "spec_sign s = sign_cast (drop_bit 10 (specs_data s AND sign_mask))"

definition set_sign :: "sign \<Rightarrow> 'a basic_specs_scheme \<Rightarrow> 'a basic_specs_scheme" where
  "set_sign v s = s\<lparr>specs_data := (specs_data s AND NOT sign_mask) OR push_bit 10 (sign_code v)\<rparr>"

definition spec_upper :: "'a basic_specs_scheme \<Rightarrow> bool" where
  "spec_upper s \<longleftrightarrow> specs_data s AND uppercase_mask \<noteq> 0"

definition set_upper :: "'a basic_specs_scheme \<Rightarrow> 'a basic_specs_scheme" where
  "set_upper s = s\<lparr>specs_data := specs_data s OR uppercase_mask\<rparr>"

definition spec_alt :: "'a basic_specs_scheme \<Rightarrow> bool" where
  "spec_alt s \<longleftrightarrow> specs_data s AND alternate_mask \<noteq> 0"

definition set_alt :: "'a basic_specs_scheme \<Rightarrow> 'a basic_specs_scheme" where
  "set_alt s = s\<lparr>specs_data := specs_data s OR alternate_mask\<rparr>"

definition clear_alt :: "'a basic_specs_scheme \<Rightarrow> 'a basic_specs_scheme" where
  "clear_alt s = s\<lparr>specs_data := specs_data s AND NOT alternate_mask\<rparr>"

definition spec_localized :: "'a basic_specs_scheme \<Rightarrow> bool" where
  "spec_localized s \<longleftrightarrow> specs_data s AND localized_mask \<noteq> 0"

definition set_localized :: "'a basic_specs_scheme \<Rightarrow> 'a basic_specs_scheme" where
  "set_localized s = s\<lparr>specs_data := specs_data s OR localized_mask\<rparr>"

definition fill_size :: "'a basic_specs_scheme \<Rightarrow> nat" where
  "fill_size s = unat (drop_bit 15 (specs_data s AND fill_size_mask))"

definition set_fill_size :: "nat \<Rightarrow> 'a basic_specs_scheme \<Rightarrow> 'a basic_specs_scheme" where
  "set_fill_size n s = s\<lparr>specs_data := (specs_data s AND NOT fill_size_mask) OR push_bit 15 (of_nat n)\<rparr>"

definition fill_unit :: "'a basic_specs_scheme \<Rightarrow> char" where
  "fill_unit s = fill_data s ! 0"

definition set_fill_char :: "char \<Rightarrow> 'a basic_specs_scheme \<Rightarrow> 'a basic_specs_scheme" where
  "set_fill_char c s = set_fill_size 1 (s\<lparr>fill_data := (fill_data s)[0 := c]\<rparr>)"

text \<open>More than four code units are an assertion failure.\<close>

definition set_fill :: "string \<Rightarrow> 'a basic_specs_scheme \<Rightarrow> 'a basic_specs_scheme res" where
  "set_fill f s =
     (let s = set_fill_size (length f) s
      in if length f = 1 then Inr (s\<lparr>fill_data := (fill_data s)[0 := f ! 0, 1 := CHR 0x00, 2 := CHR 0x00]\<rparr>)
         else if 4 < length f then Inl Aborted
         else Inr (s\<lparr>fill_data := f @ drop (length f) (fill_data s)\<rparr>))"

definition copy_fill_from :: "'b basic_specs_scheme \<Rightarrow> 'a basic_specs_scheme \<Rightarrow> 'a basic_specs_scheme" where
  "copy_fill_from specs s = (set_fill_size (fill_size specs) s)\<lparr>fill_data := fill_data specs\<rparr>"

section \<open>The packed word behaves as independent fields\<close>

lemmas masks = type_mask_def align_mask_def width_mask_def precision_mask_def sign_mask_def uppercase_mask_def
  alternate_mask_def localized_mask_def fill_size_mask_def

lemma masks_disjoint:
  "type_mask AND align_mask = 0" "type_mask AND width_mask = 0" "type_mask AND precision_mask = 0"
  "type_mask AND sign_mask = 0" "type_mask AND uppercase_mask = 0" "type_mask AND alternate_mask = 0"
  "type_mask AND localized_mask = 0" "type_mask AND fill_size_mask = 0"
  "align_mask AND width_mask = 0" "align_mask AND precision_mask = 0" "align_mask AND sign_mask = 0"
  "align_mask AND uppercase_mask = 0" "align_mask AND alternate_mask = 0" "align_mask AND localized_mask = 0"
  "align_mask AND fill_size_mask = 0" "width_mask AND precision_mask = 0" "width_mask AND sign_mask = 0"
  "width_mask AND uppercase_mask = 0" "width_mask AND alternate_mask = 0" "width_mask AND localized_mask = 0"
  "width_mask AND fill_size_mask = 0" "precision_mask AND sign_mask = 0" "precision_mask AND uppercase_mask = 0"
  "precision_mask AND alternate_mask = 0" "precision_mask AND localized_mask = 0"
  "precision_mask AND fill_size_mask = 0" "sign_mask AND uppercase_mask = 0" "sign_mask AND alternate_mask = 0"
  "sign_mask AND localized_mask = 0" "sign_mask AND fill_size_mask = 0" "uppercase_mask AND alternate_mask = 0"
  "uppercase_mask AND localized_mask = 0" "uppercase_mask AND fill_size_mask = 0"
  "alternate_mask AND localized_mask = 0" "alternate_mask AND fill_size_mask = 0"
  "localized_mask AND fill_size_mask = 0"
  by (simp_all add: masks)

lemma and_zero_commute: "m AND m' = 0 \<Longrightarrow> m' AND m = (0 :: u32)"
  by (simp add: and.commute)

lemmas masks_apart = masks_disjoint masks_disjoint [THEN and_zero_commute]

lemma field_same: "y AND m = y \<Longrightarrow> (x AND NOT m OR y) AND m = (y :: u32)"
  by (simp add: bit.conj_disj_distrib2 and.assoc)

lemma field_other: "y AND m = y \<Longrightarrow> m AND m' = 0 \<Longrightarrow> (x AND NOT m OR y) AND m' = (x :: u32) AND m'"
proof -
  assume y: "y AND m = y" and m: "m AND m' = 0"
  have "y AND m' = y AND (m AND m')" using y by (metis and.assoc)
  then have "y AND m' = 0" using m by simp
  moreover have "(x AND NOT m) AND m' = x AND m'"
  proof (rule bit_word_eqI)
    fix n
    assume "n < LENGTH(32)"
    from m have "bit (m AND m') n = bit (0 :: u32) n" by simp
    then show "bit ((x AND NOT m) AND m') n = bit (x AND m') n" using \<open>n < LENGTH(32)\<close> by (auto simp: bit_simps)
  qed
  ultimately show ?thesis by (simp add: bit.conj_disj_distrib2)
qed

lemma flag_other: "m AND m' = 0 \<Longrightarrow> (x OR m) AND m' = (x :: u32) AND m'"
  by (simp add: bit.conj_disj_distrib2)

lemma flag_cleared_other: "m AND m' = 0 \<Longrightarrow> (x AND NOT m) AND m' = (x :: u32) AND m'"
  using field_other [of 0 m m' x] by (simp del: bit.conj_disj_distrib2)

lemma flag_same: "(x OR m) AND m = (m :: u32)"
  by (simp add: bit.conj_disj_distrib2)

lemma flag_cleared: "(x AND NOT m) AND m = (0 :: u32)"
  by (simp add: and.assoc)

lemma codes_fit:
  "push_bit 3 (align_code a) AND align_mask = push_bit 3 (align_code a)"
  "push_bit 10 (sign_code v) AND sign_mask = push_bit 10 (sign_code v)"
  "push_bit 6 (kind_code k) AND width_mask = push_bit 6 (kind_code k)"
  "push_bit 8 (kind_code k) AND precision_mask = push_bit 8 (kind_code k)"
  by (cases a; cases v; cases k; simp add: masks)+

lemma codes_back:
  "drop_bit 3 (push_bit 3 (align_code a)) = align_code a"
  "drop_bit 10 (push_bit 10 (sign_code v)) = sign_code v"
  "drop_bit 6 (push_bit 6 (kind_code k)) = kind_code k"
  "drop_bit 8 (push_bit 8 (kind_code k)) = kind_code k"
  by (cases a; cases v; cases k; simp)+

lemma fill_size_fits:
  assumes "n < 8"
  shows "push_bit 15 (of_nat n) AND fill_size_mask = (push_bit 15 (of_nat n) :: u32)"
    and "unat (drop_bit 15 (push_bit 15 (of_nat n) :: u32)) = n"
proof -
  have "n \<in> {0, 1, 2, 3, 4, 5, 6, 7}" using assms by auto
  then show "push_bit 15 (of_nat n) AND fill_size_mask = (push_bit 15 (of_nat n) :: u32)"
    "unat (drop_bit 15 (push_bit 15 (of_nat n) :: u32)) = n" by (auto simp: masks)
qed


lemma specs_data_sets:
  "specs_data (set_type t s) = (specs_data s AND NOT type_mask) OR t"
  "specs_data (set_align a s) = (specs_data s AND NOT align_mask) OR push_bit 3 (align_code a)"
  "specs_data (set_dynamic_width k s) = (specs_data s AND NOT width_mask) OR push_bit 6 (kind_code k)"
  "specs_data (set_dynamic_precision k s) = (specs_data s AND NOT precision_mask) OR push_bit 8 (kind_code k)"
  "specs_data (set_sign v s) = (specs_data s AND NOT sign_mask) OR push_bit 10 (sign_code v)"
  "specs_data (set_upper s) = specs_data s OR uppercase_mask"
  "specs_data (set_alt s) = specs_data s OR alternate_mask"
  "specs_data (clear_alt s) = specs_data s AND NOT alternate_mask"
  "specs_data (set_localized s) = specs_data s OR localized_mask"
  "specs_data (set_fill_size n s) = (specs_data s AND NOT fill_size_mask) OR push_bit 15 (of_nat n)"
  by (simp_all add: set_type_def set_align_def set_dynamic_width_def set_dynamic_precision_def set_sign_def
      set_upper_def set_alt_def clear_alt_def set_localized_def set_fill_size_def)

lemma fill_data_sets:
  "fill_data (set_type t s) = fill_data s" "fill_data (set_align a s) = fill_data s"
  "fill_data (set_dynamic_width k s) = fill_data s" "fill_data (set_dynamic_precision k s) = fill_data s"
  "fill_data (set_sign v s) = fill_data s" "fill_data (set_upper s) = fill_data s"
  "fill_data (set_alt s) = fill_data s" "fill_data (clear_alt s) = fill_data s"
  "fill_data (set_localized s) = fill_data s" "fill_data (set_fill_size n s) = fill_data s"
  by (simp_all add: set_type_def set_align_def set_dynamic_width_def set_dynamic_precision_def set_sign_def
      set_upper_def set_alt_def clear_alt_def set_localized_def set_fill_size_def)

lemma masks_nonzero: "uppercase_mask \<noteq> 0" "alternate_mask \<noteq> 0" "localized_mask \<noteq> 0"
  by (simp_all add: masks)

lemmas field_laws = field_same field_other flag_other flag_cleared_other flag_same flag_cleared
  codes_fit codes_back fill_size_fits casts masks_apart specs_data_sets fill_data_sets masks_nonzero

lemmas spec_getters = spec_type_def spec_align_def dynamic_width_def dynamic_precision_def spec_sign_def
  spec_upper_def spec_alt_def spec_localized_def fill_size_def fill_unit_def

named_theorems spec_fields \<open>what a getter returns after a setter\<close>

lemma set_type_fields [spec_fields]:
  assumes "t < 8"
  shows "spec_type (set_type t s) = t" "spec_align (set_type t s) = spec_align s"
    "dynamic_width (set_type t s) = dynamic_width s" "dynamic_precision (set_type t s) = dynamic_precision s"
    "spec_sign (set_type t s) = spec_sign s" "spec_upper (set_type t s) = spec_upper s"
    "spec_alt (set_type t s) = spec_alt s" "spec_localized (set_type t s) = spec_localized s"
    "fill_size (set_type t s) = fill_size s" "fill_data (set_type t s) = fill_data s"
proof -
  have "t AND type_mask = t" using assms less_mask_eq [of t 3] by (simp add: masks mask_eq_exp_minus_1)
  then show "spec_type (set_type t s) = t" "spec_align (set_type t s) = spec_align s"
    "dynamic_width (set_type t s) = dynamic_width s" "dynamic_precision (set_type t s) = dynamic_precision s"
    "spec_sign (set_type t s) = spec_sign s" "spec_upper (set_type t s) = spec_upper s"
    "spec_alt (set_type t s) = spec_alt s" "spec_localized (set_type t s) = spec_localized s"
    "fill_size (set_type t s) = fill_size s" "fill_data (set_type t s) = fill_data s"
    by (simp_all only: spec_getters field_laws simp_thms)
qed

lemma set_align_fields [spec_fields]:
  "spec_type (set_align a s) = spec_type s" "spec_align (set_align a s) = a"
  "dynamic_width (set_align a s) = dynamic_width s" "dynamic_precision (set_align a s) = dynamic_precision s"
  "spec_sign (set_align a s) = spec_sign s" "spec_upper (set_align a s) = spec_upper s"
  "spec_alt (set_align a s) = spec_alt s" "spec_localized (set_align a s) = spec_localized s"
  "fill_size (set_align a s) = fill_size s" "fill_data (set_align a s) = fill_data s"
  by (simp_all only: spec_getters field_laws simp_thms)

lemma set_dynamic_width_fields [spec_fields]:
  "spec_type (set_dynamic_width k s) = spec_type s" "spec_align (set_dynamic_width k s) = spec_align s"
  "dynamic_width (set_dynamic_width k s) = k" "dynamic_precision (set_dynamic_width k s) = dynamic_precision s"
  "spec_sign (set_dynamic_width k s) = spec_sign s" "spec_upper (set_dynamic_width k s) = spec_upper s"
  "spec_alt (set_dynamic_width k s) = spec_alt s" "spec_localized (set_dynamic_width k s) = spec_localized s"
  "fill_size (set_dynamic_width k s) = fill_size s" "fill_data (set_dynamic_width k s) = fill_data s"
  by (simp_all only: spec_getters field_laws simp_thms)

lemma set_dynamic_precision_fields [spec_fields]:
  "spec_type (set_dynamic_precision k s) = spec_type s" "spec_align (set_dynamic_precision k s) = spec_align s"
  "dynamic_width (set_dynamic_precision k s) = dynamic_width s" "dynamic_precision (set_dynamic_precision k s) = k"
  "spec_sign (set_dynamic_precision k s) = spec_sign s" "spec_upper (set_dynamic_precision k s) = spec_upper s"
  "spec_alt (set_dynamic_precision k s) = spec_alt s" "spec_localized (set_dynamic_precision k s) = spec_localized s"
  "fill_size (set_dynamic_precision k s) = fill_size s" "fill_data (set_dynamic_precision k s) = fill_data s"
  by (simp_all only: spec_getters field_laws simp_thms)

lemma set_sign_fields [spec_fields]:
  "spec_type (set_sign v s) = spec_type s" "spec_align (set_sign v s) = spec_align s"
  "dynamic_width (set_sign v s) = dynamic_width s" "dynamic_precision (set_sign v s) = dynamic_precision s"
  "spec_sign (set_sign v s) = v" "spec_upper (set_sign v s) = spec_upper s"
  "spec_alt (set_sign v s) = spec_alt s" "spec_localized (set_sign v s) = spec_localized s"
  "fill_size (set_sign v s) = fill_size s" "fill_data (set_sign v s) = fill_data s"
  by (simp_all only: spec_getters field_laws simp_thms)

lemma set_upper_fields [spec_fields]:
  "spec_type (set_upper s) = spec_type s" "spec_align (set_upper s) = spec_align s"
  "dynamic_width (set_upper s) = dynamic_width s" "dynamic_precision (set_upper s) = dynamic_precision s"
  "spec_sign (set_upper s) = spec_sign s" "spec_upper (set_upper s)"
  "spec_alt (set_upper s) = spec_alt s" "spec_localized (set_upper s) = spec_localized s"
  "fill_size (set_upper s) = fill_size s" "fill_data (set_upper s) = fill_data s"
  by (simp_all only: spec_getters field_laws simp_thms)

lemma set_alt_fields [spec_fields]:
  "spec_type (set_alt s) = spec_type s" "spec_align (set_alt s) = spec_align s"
  "dynamic_width (set_alt s) = dynamic_width s" "dynamic_precision (set_alt s) = dynamic_precision s"
  "spec_sign (set_alt s) = spec_sign s" "spec_upper (set_alt s) = spec_upper s"
  "spec_alt (set_alt s)" "spec_localized (set_alt s) = spec_localized s"
  "fill_size (set_alt s) = fill_size s" "fill_data (set_alt s) = fill_data s"
  by (simp_all only: spec_getters field_laws simp_thms)

lemma clear_alt_fields [spec_fields]:
  "spec_type (clear_alt s) = spec_type s" "spec_align (clear_alt s) = spec_align s"
  "dynamic_width (clear_alt s) = dynamic_width s" "dynamic_precision (clear_alt s) = dynamic_precision s"
  "spec_sign (clear_alt s) = spec_sign s" "spec_upper (clear_alt s) = spec_upper s"
  "\<not> spec_alt (clear_alt s)" "spec_localized (clear_alt s) = spec_localized s"
  "fill_size (clear_alt s) = fill_size s" "fill_data (clear_alt s) = fill_data s"
  by (simp_all only: spec_getters field_laws simp_thms)

lemma set_localized_fields [spec_fields]:
  "spec_type (set_localized s) = spec_type s" "spec_align (set_localized s) = spec_align s"
  "dynamic_width (set_localized s) = dynamic_width s" "dynamic_precision (set_localized s) = dynamic_precision s"
  "spec_sign (set_localized s) = spec_sign s" "spec_upper (set_localized s) = spec_upper s"
  "spec_alt (set_localized s) = spec_alt s" "spec_localized (set_localized s)"
  "fill_size (set_localized s) = fill_size s" "fill_data (set_localized s) = fill_data s"
  by (simp_all only: spec_getters field_laws simp_thms)

lemma set_fill_size_fields [spec_fields]:
  assumes "n < 8"
  shows "spec_type (set_fill_size n s) = spec_type s" "spec_align (set_fill_size n s) = spec_align s"
    "dynamic_width (set_fill_size n s) = dynamic_width s" "dynamic_precision (set_fill_size n s) = dynamic_precision s"
    "spec_sign (set_fill_size n s) = spec_sign s" "spec_upper (set_fill_size n s) = spec_upper s"
    "spec_alt (set_fill_size n s) = spec_alt s" "spec_localized (set_fill_size n s) = spec_localized s"
    "fill_size (set_fill_size n s) = n" "fill_data (set_fill_size n s) = fill_data s"
  using assms by (simp_all only: spec_getters field_laws simp_thms)

lemma getters_updates [simp]:
  "spec_type (s\<lparr>specs_width := w\<rparr>) = spec_type s" "spec_type (s\<lparr>specs_precision := w\<rparr>) = spec_type s"
  "spec_align (s\<lparr>specs_width := w\<rparr>) = spec_align s" "spec_align (s\<lparr>specs_precision := w\<rparr>) = spec_align s"
  "dynamic_width (s\<lparr>specs_width := w\<rparr>) = dynamic_width s" "dynamic_width (s\<lparr>specs_precision := w\<rparr>) = dynamic_width s"
  "dynamic_precision (s\<lparr>specs_width := w\<rparr>) = dynamic_precision s"
  "dynamic_precision (s\<lparr>specs_precision := w\<rparr>) = dynamic_precision s"
  "spec_sign (s\<lparr>specs_width := w\<rparr>) = spec_sign s" "spec_sign (s\<lparr>specs_precision := w\<rparr>) = spec_sign s"
  "spec_upper (s\<lparr>specs_width := w\<rparr>) = spec_upper s" "spec_upper (s\<lparr>specs_precision := w\<rparr>) = spec_upper s"
  "spec_alt (s\<lparr>specs_width := w\<rparr>) = spec_alt s" "spec_alt (s\<lparr>specs_precision := w\<rparr>) = spec_alt s"
  "spec_localized (s\<lparr>specs_width := w\<rparr>) = spec_localized s" "spec_localized (s\<lparr>specs_precision := w\<rparr>) = spec_localized s"
  "fill_size (s\<lparr>specs_width := w\<rparr>) = fill_size s" "fill_size (s\<lparr>specs_precision := w\<rparr>) = fill_size s"
  for s :: "'a format_specs_scheme"
  by (simp_all add: spec_getters)

lemma getters_refs [simp]:
  "spec_type (s\<lparr>width_ref := r\<rparr>) = spec_type s" "spec_type (s\<lparr>precision_ref := r\<rparr>) = spec_type s"
  "spec_align (s\<lparr>width_ref := r\<rparr>) = spec_align s" "spec_align (s\<lparr>precision_ref := r\<rparr>) = spec_align s"
  "dynamic_width (s\<lparr>width_ref := r\<rparr>) = dynamic_width s" "dynamic_width (s\<lparr>precision_ref := r\<rparr>) = dynamic_width s"
  "dynamic_precision (s\<lparr>width_ref := r\<rparr>) = dynamic_precision s"
  "dynamic_precision (s\<lparr>precision_ref := r\<rparr>) = dynamic_precision s"
  "spec_sign (s\<lparr>width_ref := r\<rparr>) = spec_sign s" "spec_sign (s\<lparr>precision_ref := r\<rparr>) = spec_sign s"
  "spec_upper (s\<lparr>width_ref := r\<rparr>) = spec_upper s" "spec_upper (s\<lparr>precision_ref := r\<rparr>) = spec_upper s"
  "spec_alt (s\<lparr>width_ref := r\<rparr>) = spec_alt s" "spec_alt (s\<lparr>precision_ref := r\<rparr>) = spec_alt s"
  "spec_localized (s\<lparr>width_ref := r\<rparr>) = spec_localized s" "spec_localized (s\<lparr>precision_ref := r\<rparr>) = spec_localized s"
  "fill_size (s\<lparr>width_ref := r\<rparr>) = fill_size s" "fill_size (s\<lparr>precision_ref := r\<rparr>) = fill_size s"
  for s :: "'a dynamic_format_specs_scheme"
  by (simp_all add: spec_getters)

lemma getters_fill [simp]:
  "spec_type (s\<lparr>fill_data := f\<rparr>) = spec_type s" "spec_align (s\<lparr>fill_data := f\<rparr>) = spec_align s"
  "dynamic_width (s\<lparr>fill_data := f\<rparr>) = dynamic_width s" "dynamic_precision (s\<lparr>fill_data := f\<rparr>) = dynamic_precision s"
  "spec_sign (s\<lparr>fill_data := f\<rparr>) = spec_sign s" "spec_upper (s\<lparr>fill_data := f\<rparr>) = spec_upper s"
  "spec_alt (s\<lparr>fill_data := f\<rparr>) = spec_alt s" "spec_localized (s\<lparr>fill_data := f\<rparr>) = spec_localized s"
  "fill_size (s\<lparr>fill_data := f\<rparr>) = fill_size s"
  by (simp_all add: spec_getters)

lemma dynamic_fields_sets [simp]:
  "specs_width (set_type t s) = specs_width s" "specs_precision (set_type t s) = specs_precision s"
  "specs_width (set_align a s) = specs_width s" "specs_precision (set_align a s) = specs_precision s"
  "specs_width (set_dynamic_width k s) = specs_width s" "specs_precision (set_dynamic_width k s) = specs_precision s"
  "specs_width (set_dynamic_precision k s) = specs_width s" "specs_precision (set_dynamic_precision k s) = specs_precision s"
  "specs_width (set_sign v s) = specs_width s" "specs_precision (set_sign v s) = specs_precision s"
  "specs_width (set_upper s) = specs_width s" "specs_precision (set_upper s) = specs_precision s"
  "specs_width (set_alt s) = specs_width s" "specs_precision (set_alt s) = specs_precision s"
  "specs_width (set_localized s) = specs_width s" "specs_precision (set_localized s) = specs_precision s"
  "specs_width (set_fill_size n s) = specs_width s" "specs_precision (set_fill_size n s) = specs_precision s"
  for s :: "'a format_specs_scheme"
  by (simp_all add: set_type_def set_align_def set_dynamic_width_def set_dynamic_precision_def set_sign_def
      set_upper_def set_alt_def set_localized_def set_fill_size_def)

lemma refs_sets [simp]:
  "width_ref (set_type t s) = width_ref s" "precision_ref (set_type t s) = precision_ref s"
  "width_ref (set_align a s) = width_ref s" "precision_ref (set_align a s) = precision_ref s"
  "width_ref (set_dynamic_width k s) = width_ref s" "precision_ref (set_dynamic_width k s) = precision_ref s"
  "width_ref (set_dynamic_precision k s) = width_ref s" "precision_ref (set_dynamic_precision k s) = precision_ref s"
  "width_ref (set_sign v s) = width_ref s" "precision_ref (set_sign v s) = precision_ref s"
  "width_ref (set_upper s) = width_ref s" "precision_ref (set_upper s) = precision_ref s"
  "width_ref (set_alt s) = width_ref s" "precision_ref (set_alt s) = precision_ref s"
  "width_ref (set_localized s) = width_ref s" "precision_ref (set_localized s) = precision_ref s"
  "width_ref (set_fill_size n s) = width_ref s" "precision_ref (set_fill_size n s) = precision_ref s"
  for s :: "'a dynamic_format_specs_scheme"
  by (simp_all add: set_type_def set_align_def set_dynamic_width_def set_dynamic_precision_def set_sign_def
      set_upper_def set_alt_def set_localized_def set_fill_size_def)

end
