(* ===== verification/FmtParse.thy ===== *)
theory FmtParse
  imports FmtSpecs
begin

text \<open>
  The parsers of \<open>fmt/bundled/base.h\<close> for the inside of a replacement field: numbers, argument ids, width and
  precision, and the state machine \<open>parse_format_specs\<close>. A pair of pointers \<open>begin\<close>, \<open>end\<close> is the text that is left;
  the parse context is its argument counter. \<open>report_error\<close> throws, so an error is a \<open>FormatError\<close>; a failed
  \<open>FMT_ASSERT\<close> is \<open>Aborted\<close>, and reading at \<open>end\<close> is \<open>OutOfBounds\<close>. The lemmas show that neither happens and that
  every parser leaves a proper suffix.
\<close>

section \<open>The parse context\<close>

definition next_arg_id :: "int \<Rightarrow> (int \<times> int) res" where
  "next_arg_id n =
     (if n < 0 then Inl (FormatError ''cannot switch from manual to automatic argument indexing'')
      else Inr (n, n + 1))"

definition check_arg_id :: "int \<Rightarrow> int res" where
  "check_arg_id n =
     (if 0 < n then Inl (FormatError ''cannot switch from automatic to manual argument indexing'')
      else Inr (-1))"

definition check_arg_name :: "int \<Rightarrow> int" where
  "check_arg_name n = -1"

section \<open>Numbers and names\<close>

definition fmt_digit :: "char \<Rightarrow> bool" where
  "fmt_digit c \<longleftrightarrow> (48::nat) \<le> of_char c \<and> of_char c \<le> (57::nat)"

definition is_name_start :: "char \<Rightarrow> bool" where
  "is_name_start c \<longleftrightarrow>
     ((97::nat) \<le> of_char c \<and> of_char c \<le> (122::nat)) \<or> ((65::nat) \<le> of_char c \<and> of_char c \<le> (90::nat)) \<or> c = CHR ''_''"

text \<open>The loop: the value and its predecessor as 32-bit numbers, the number of digits, the last digit.\<close>

fun digits_loop :: "u32 \<Rightarrow> u32 \<Rightarrow> nat \<Rightarrow> char \<Rightarrow> string \<Rightarrow> u32 \<times> u32 \<times> nat \<times> char \<times> string" where
  "digits_loop value prev n last_c [] = (value, prev, n, last_c, [])"
| "digits_loop value prev n last_c (c # cs) =
     (if fmt_digit c
      then digits_loop (value * 10 + of_nat (of_char c - 48)) value (Suc n) c cs
      else (value, prev, n, last_c, c # cs))"

definition int_max :: nat where "int_max = 2147483647"

definition parse_nonnegative_int :: "string \<Rightarrow> int \<Rightarrow> (int \<times> string) res" where
  "parse_nonnegative_int s error_value =
     (if s = [] \<or> \<not> fmt_digit (hd s) then Inl Aborted
      else let (value, prev, num_digits, last_c, rest) = digits_loop 0 0 0 CHR ''0'' s;
               digits10 = 32 * 3 div 10
           in Inr (if num_digits \<le> digits10 then (sint value, rest)
                   else if num_digits = digits10 + 1 \<and> unat prev * 10 + (of_char last_c - 48) \<le> int_max
                   then (sint value, rest)
                   else (error_value, rest)))"

definition parse_align_char :: "char \<Rightarrow> align" where
  "parse_align_char c =
     (if c = CHR ''<'' then align_left else if c = CHR ''>'' then align_right
      else if c = CHR ''^'' then align_center else align_none)"

definition code_point_length :: "char \<Rightarrow> nat" where
  "code_point_length c = unat (drop_bit (2 * (of_char c div 8)) (0x3a55000000000000 :: 64 word) AND 3) + 1"

section \<open>Argument ids\<close>

text \<open>The handler is told the id last, so the result is the id.\<close>

definition parse_arg_id :: "string \<Rightarrow> (arg_ref \<times> string) res" where
  "parse_arg_id s =
     (case s of
        [] \<Rightarrow> Inl OutOfBounds
      | c # cs \<Rightarrow>
          if fmt_digit c
          then bindR (if c \<noteq> CHR ''0'' then parse_nonnegative_int s (int int_max) else Inr (0, cs)) (\<lambda>(index, rest).
               if rest = [] \<or> (hd rest \<noteq> CHR ''}'' \<and> hd rest \<noteq> CHR '':'')
               then Inl (FormatError ''invalid format string'')
               else Inr (Ref_index index, rest))
          else if \<not> is_name_start c then Inl (FormatError ''invalid format string'')
          else let more = (\<lambda>c. is_name_start c \<or> fmt_digit c)
               in Inr (Ref_name (c # takeWhile more cs), dropWhile more cs))"

section \<open>Width and precision\<close>

text \<open>\<open>value\<close> and \<open>ref\<close> are what the specifiers have; the result has their new values, the kind and the counter.\<close>

definition parse_dynamic_spec ::
    "string \<Rightarrow> int \<Rightarrow> arg_ref \<Rightarrow> int \<Rightarrow> (int \<times> arg_ref \<times> arg_id_kind \<times> int \<times> string) res" where
  "parse_dynamic_spec s value ref n =
     (case s of
        [] \<Rightarrow> Inl Aborted
      | c # cs \<Rightarrow>
          if fmt_digit c
          then bindR (parse_nonnegative_int s (-1)) (\<lambda>(val, rest).
               if val = -1 then Inl (FormatError ''number is too big'') else Inr (val, ref, id_none, n, rest))
          else if c = CHR ''{''
          then bindR
            (if cs = [] then Inr (ref, id_none, n, [])
             else if hd cs = CHR ''}'' \<or> hd cs = CHR '':''
             then bindR (next_arg_id n) (\<lambda>(i, n). Inr (Ref_index i, id_index, n, cs))
             else bindR (parse_arg_id cs) (\<lambda>(r, rest).
                  case r of
                    Ref_index i \<Rightarrow> bindR (check_arg_id n) (\<lambda>n. Inr (r, id_index, n, rest))
                  | Ref_name name \<Rightarrow> Inr (r, id_name, check_arg_name n, rest)))
            (\<lambda>(ref, kind, n, rest).
             if rest \<noteq> [] \<and> hd rest = CHR ''}'' then Inr (value, ref, kind, n, tl rest)
             else Inl (FormatError ''invalid format string''))
          else Inl (FormatError ''invalid format string''))"

definition parse_width ::
    "string \<Rightarrow> dynamic_format_specs \<Rightarrow> int \<Rightarrow> (dynamic_format_specs \<times> int \<times> string) res" where
  "parse_width s specs n =
     bindR (parse_dynamic_spec s (specs_width specs) (width_ref specs) n) (\<lambda>(value, ref, kind, n, rest).
       Inr (set_dynamic_width kind (specs\<lparr>specs_width := value, width_ref := ref\<rparr>), n, rest))"

text \<open>\<open>s\<close> starts at the point.\<close>

definition parse_precision ::
    "string \<Rightarrow> dynamic_format_specs \<Rightarrow> int \<Rightarrow> (dynamic_format_specs \<times> int \<times> string) res" where
  "parse_precision s specs n =
     (let s = tl s
      in if s = [] then Inl (FormatError ''invalid precision'')
         else bindR (parse_dynamic_spec s (specs_precision specs) (precision_ref specs) n) (\<lambda>(value, ref, kind, n, rest).
           Inr (set_dynamic_precision kind (specs\<lparr>specs_precision := value, precision_ref := ref\<rparr>), n, rest)))"

section \<open>The specifiers\<close>

datatype spec_state = st_start | st_align | st_sign | st_hash | st_zero | st_width | st_precision | st_locale

fun state_code :: "spec_state \<Rightarrow> nat" where
  "state_code st_start = 0"
| "state_code st_align = 1"
| "state_code st_sign = 2"
| "state_code st_hash = 3"
| "state_code st_zero = 4"
| "state_code st_width = 5"
| "state_code st_precision = 6"
| "state_code st_locale = 7"

definition enter_state :: "spec_state \<Rightarrow> spec_state \<Rightarrow> bool \<Rightarrow> spec_state res" where
  "enter_state current s valid =
     (if state_code s \<le> state_code current \<or> \<not> valid then Inl (FormatError ''invalid format specifier'') else Inr s)"

text \<open>One turn of the loop either returns or goes on with the rest.\<close>

datatype spec_turn =
    Spec_return dynamic_format_specs int string
  | Spec_next spec_state dynamic_format_specs int string

definition parse_presentation_type ::
    "fmt_type \<Rightarrow> presentation_type \<Rightarrow> u32 \<Rightarrow> dynamic_format_specs \<Rightarrow> int \<Rightarrow> string \<Rightarrow> spec_turn res" where
  "parse_presentation_type arg_type pres st specs n s =
     (if \<not> in_set arg_type st then Inl (FormatError ''invalid format specifier'')
      else Inr (Spec_return (set_type pres specs) n (tl s)))"

definition quoted :: "char \<Rightarrow> string" where
  "quoted c = [CHR 0x27, c, CHR 0x27]"

text \<open>The \<open>default\<close> branch: a fill character and an alignment.\<close>

definition parse_fill ::
    "spec_state \<Rightarrow> dynamic_format_specs \<Rightarrow> int \<Rightarrow> string \<Rightarrow> spec_turn res" where
  "parse_fill current specs n s =
     (if s = [] then Inl OutOfBounds
      else if hd s = CHR ''}'' then Inr (Spec_return specs n s)
      else let len = code_point_length (hd s)
           in if length s \<le> len then Inl (FormatError ''invalid format specifier'')
              else if hd s = CHR ''{'' then Inl (FormatError (''invalid fill character '' @ quoted CHR ''{''))
              else let alignment = parse_align_char (s ! len)
                   in bindR (enter_state current st_align (alignment \<noteq> align_none)) (\<lambda>st.
                      bindR (set_fill (take len s) specs) (\<lambda>specs.
                        Inr (Spec_next st (set_align alignment specs) n (drop (len + 1) s)))))"

definition parse_zero :: "fmt_type \<Rightarrow> spec_state \<Rightarrow> dynamic_format_specs \<Rightarrow> int \<Rightarrow> string \<Rightarrow> spec_turn res" where
  "parse_zero arg_type current specs n s =
     bindR (enter_state current st_zero True) (\<lambda>st.
       if \<not> is_arithmetic_type arg_type then Inl (FormatError ''format specifier requires numeric argument'')
       else Inr (Spec_next st
         (if spec_align specs = align_none then set_fill_char CHR ''0'' (set_align align_numeric specs) else specs)
         n (tl s)))"

text \<open>The switch on \<open>c\<close>.\<close>

definition spec_step ::
    "fmt_type \<Rightarrow> char \<Rightarrow> spec_state \<Rightarrow> dynamic_format_specs \<Rightarrow> int \<Rightarrow> string \<Rightarrow> spec_turn res" where
  "spec_step arg_type c current specs n s =
     (let pres = parse_presentation_type arg_type
      in if c \<in> {CHR ''<'', CHR ''>'', CHR ''^''}
      then bindR (enter_state current st_align True) (\<lambda>st. Inr (Spec_next st (set_align (parse_align_char c) specs) n (tl s)))
      else if c \<in> {CHR ''+'', CHR '' '', CHR ''-''}
      then bindR (enter_state current st_sign (in_set arg_type (sint_set OR float_set))) (\<lambda>st.
             Inr (Spec_next st
               (if c = CHR ''-'' then specs else set_sign (if c = CHR '' '' then sign_space else sign_plus) specs) n (tl s)))
      else if c = CHR ''#''
      then bindR (enter_state current st_hash (is_arithmetic_type arg_type)) (\<lambda>st.
             Inr (Spec_next st (set_alt specs) n (tl s)))
      else if c = CHR ''0'' then parse_zero arg_type current specs n s
      else if fmt_digit c \<or> c = CHR ''{''
      then bindR (enter_state current st_width True) (\<lambda>st.
           bindR (parse_width s specs n) (\<lambda>(specs, n, rest). Inr (Spec_next st specs n rest)))
      else if c = CHR ''.''
      then bindR (enter_state current st_precision (in_set arg_type (float_set OR string_set OR cstring_set))) (\<lambda>st.
           bindR (parse_precision s specs n) (\<lambda>(specs, n, rest). Inr (Spec_next st specs n rest)))
      else if c = CHR ''L''
      then bindR (enter_state current st_locale (is_arithmetic_type arg_type)) (\<lambda>st.
             Inr (Spec_next st (set_localized specs) n (tl s)))
      else if c = CHR ''d'' then pres pres_dec integral_set specs n s
      else if c = CHR ''X'' then pres pres_hex integral_set (set_upper specs) n s
      else if c = CHR ''x'' then pres pres_hex integral_set specs n s
      else if c = CHR ''o'' then pres pres_oct integral_set specs n s
      else if c = CHR ''B'' then pres pres_bin integral_set (set_upper specs) n s
      else if c = CHR ''b'' then pres pres_bin integral_set specs n s
      else if c = CHR ''E'' then pres pres_exp float_set (set_upper specs) n s
      else if c = CHR ''e'' then pres pres_exp float_set specs n s
      else if c = CHR ''F'' then pres pres_fixed float_set (set_upper specs) n s
      else if c = CHR ''f'' then pres pres_fixed float_set specs n s
      else if c = CHR ''G'' then pres pres_general float_set (set_upper specs) n s
      else if c = CHR ''g'' then pres pres_general float_set specs n s
      else if c = CHR ''A'' then pres pres_hexfloat float_set (set_upper specs) n s
      else if c = CHR ''a'' then pres pres_hexfloat float_set specs n s
      else if c = CHR ''c''
      then (if arg_type = bool_type then Inl (FormatError ''invalid format specifier'')
            else pres pres_chr integral_set specs n s)
      else if c = CHR ''s'' then pres pres_string (bool_set OR string_set OR cstring_set) specs n s
      else if c = CHR ''p'' then pres pres_pointer (pointer_set OR cstring_set) specs n s
      else if c = CHR ''?'' then pres pres_debug (char_set OR string_set OR cstring_set) specs n s
      else if c = CHR ''}'' then Inr (Spec_return specs n s)
      else parse_fill current specs n s)"

section \<open>The parsers leave a suffix and only throw format errors\<close>

text \<open>
  \<open>format_safe P r\<close>: the computation gives a value with \<open>P\<close> or throws a format error; it neither fails an
  assertion nor reads outside the text.
\<close>

fun format_safe :: "('a \<Rightarrow> bool) \<Rightarrow> 'a res \<Rightarrow> bool" where
  "format_safe P (Inl e) \<longleftrightarrow> (\<exists>m. e = FormatError m)"
| "format_safe P (Inr x) \<longleftrightarrow> P x"

named_theorems safe \<open>computations that end in a value or a format error\<close>

lemma format_safe_bind [safe]:
  "format_safe Q r \<Longrightarrow> (\<And>x. Q x \<Longrightarrow> r = Inr x \<Longrightarrow> format_safe P (f x)) \<Longrightarrow> format_safe P (bindR r f)"
  by (cases r) auto

lemma format_safe_if [safe]:
  "(b \<Longrightarrow> format_safe P x) \<Longrightarrow> (\<not> b \<Longrightarrow> format_safe P y) \<Longrightarrow> format_safe P (if b then x else y)"
  by simp

lemma format_safe_error [safe]: "format_safe P (Inl (FormatError m))"
  by simp

lemma format_safe_mono: "format_safe P r \<Longrightarrow> (\<And>x. P x \<Longrightarrow> Q x) \<Longrightarrow> format_safe Q r"
  by (cases r) auto

lemma format_safe_InrD: "format_safe P r \<Longrightarrow> r = Inr x \<Longrightarrow> P x"
  by simp

text \<open>\<open>reads s rest\<close>: at least one character was read and \<open>rest\<close> is left.\<close>

definition reads :: "string \<Rightarrow> string \<Rightarrow> bool" where
  "reads s rest \<longleftrightarrow> (\<exists>ps. ps \<noteq> [] \<and> s = ps @ rest)"

lemma reads_append: "ps \<noteq> [] \<Longrightarrow> reads (ps @ rest) rest"
  by (auto simp: reads_def)

lemma reads_Cons: "reads (c # rest) rest"
  using reads_append [of "[c]"] by simp

lemma reads_tl: "s \<noteq> [] \<Longrightarrow> reads s (tl s)"
  using reads_Cons [of "hd s" "tl s"] by simp

lemma reads_trans: "reads s t \<Longrightarrow> reads t u \<Longrightarrow> reads s u"
  by (force simp: reads_def)

lemma reads_Cons_trans: "reads cs rest \<Longrightarrow> reads (c # cs) rest"
  using reads_trans [OF reads_Cons] .

lemma reads_rest_tl: "rest = cs \<or> reads cs rest \<Longrightarrow> rest \<noteq> [] \<Longrightarrow> reads (c # cs) (tl rest)"
  by (metis reads_Cons reads_tl reads_trans)

lemma reads_drop: "0 < n \<Longrightarrow> s \<noteq> [] \<Longrightarrow> reads s (drop n s)"
  using reads_append [of "take n s" "drop n s"] by simp

lemma reads_length: "reads s rest \<Longrightarrow> length rest < length s"
  by (auto simp: reads_def)

lemma digits_loop_reads:
  "digits_loop v p n l s = (v', p', n', l', rest) \<Longrightarrow>
   \<exists>ds. s = ds @ rest \<and> list_all fmt_digit ds \<and> n' = n + length ds"
proof (induction v p n l s rule: digits_loop.induct)
  case (2 v p n l c cs)
  show ?case
  proof (cases "fmt_digit c")
    case True
    with 2 obtain ds where "cs = ds @ rest" "list_all fmt_digit ds" "n' = Suc n + length ds" by auto
    with True show ?thesis by (intro exI [of _ "c # ds"]) simp
  qed (use 2 in auto)
qed auto

lemma parse_nonnegative_int_safe:
  assumes "s \<noteq> []" and "fmt_digit (hd s)"
  shows "format_safe (\<lambda>(v, rest). reads s rest) (parse_nonnegative_int s e)"
proof -
  obtain v p n l r where d: "digits_loop 0 0 0 CHR ''0'' s = (v, p, n, l, r)" by (metis surj_pair)
  from assms obtain c cs where s: "s = c # cs" "fmt_digit c" by (cases s) auto
  with d have "digits_loop (0 * 10 + of_nat (of_char c - 48)) 0 (Suc 0) c cs = (v, p, n, l, r)" by simp
  from digits_loop_reads [OF this] obtain ds where "s = (c # ds) @ r" using s by auto
  then have "reads s r" using reads_append [of "c # ds" r] by simp
  with assms d show ?thesis by (simp add: parse_nonnegative_int_def)
qed

lemma parse_arg_id_safe:
  assumes "s \<noteq> []"
  shows "format_safe (\<lambda>(r, rest). reads s rest) (parse_arg_id s)"
proof -
  from assms obtain c cs where s: "s = c # cs" by (cases s) auto
  have n: "format_safe (\<lambda>(v, rest). reads s rest)
      (if c \<noteq> CHR ''0'' then parse_nonnegative_int s (int int_max) else Inr (0, cs))" if "fmt_digit c"
    using parse_nonnegative_int_safe [of s] that s by (auto simp: reads_Cons)
  have w: "reads s (dropWhile more cs)" for more
    using reads_append [of "c # takeWhile more cs" "dropWhile more cs"] s by simp
  show ?thesis
  proof (cases "fmt_digit c")
    case True
    have "format_safe (\<lambda>(r, rest). reads s rest)
        (bindR (if c \<noteq> CHR ''0'' then parse_nonnegative_int s (int int_max) else Inr (0, cs)) (\<lambda>(index, rest).
               if rest = [] \<or> (hd rest \<noteq> CHR ''}'' \<and> hd rest \<noteq> CHR '':'')
               then Inl (FormatError ''invalid format string'')
               else Inr (Ref_index index, rest)))"
      by (rule format_safe_bind [OF n [OF True]]) auto
    with True s show ?thesis unfolding parse_arg_id_def by (simp only: list.case if_True)
  qed (use s w in \<open>simp add: parse_arg_id_def Let_def\<close>)
qed

lemma parse_dynamic_spec_safe:
  assumes "s \<noteq> []"
  shows "format_safe (\<lambda>(v, ref, kind, n, rest). reads s rest) (parse_dynamic_spec s v ref n)"
proof -
  from assms obtain c cs where s: "s = c # cs" by (cases s) auto
  have a: "format_safe (\<lambda>(ref, kind, n, rest). rest = cs \<or> reads cs rest)
      (if cs = [] then Inr (ref, id_none, n, [])
       else if hd cs = CHR ''}'' \<or> hd cs = CHR '':''
       then bindR (next_arg_id n) (\<lambda>(i, n). Inr (Ref_index i, id_index, n, cs))
       else bindR (parse_arg_id cs) (\<lambda>(r, rest).
            case r of
              Ref_index i \<Rightarrow> bindR (check_arg_id n) (\<lambda>n. Inr (r, id_index, n, rest))
            | Ref_name name \<Rightarrow> Inr (r, id_name, check_arg_name n, rest)))"
    using parse_arg_id_safe [of cs]
    by (cases "parse_arg_id cs") (auto simp: next_arg_id_def check_arg_id_def split: arg_ref.splits)
  show ?thesis
  proof (cases "fmt_digit c")
    case True
    with parse_nonnegative_int_safe [of s "-1"] s show ?thesis
      by (cases "parse_nonnegative_int s (-1)") (auto simp: parse_dynamic_spec_def)
  next
    case False
    show ?thesis
    proof (cases "c = CHR ''{''")
      case True
      have "format_safe (\<lambda>(v, ref, kind, n, rest). reads s rest) (bindR (if cs = [] then Inr (ref, id_none, n, [])
       else if hd cs = CHR ''}'' \<or> hd cs = CHR '':''
       then bindR (next_arg_id n) (\<lambda>(i, n). Inr (Ref_index i, id_index, n, cs))
       else bindR (parse_arg_id cs) (\<lambda>(r, rest).
            case r of
              Ref_index i \<Rightarrow> bindR (check_arg_id n) (\<lambda>n. Inr (r, id_index, n, rest))
            | Ref_name name \<Rightarrow> Inr (r, id_name, check_arg_name n, rest)))
          (\<lambda>(ref, kind, n, rest).
             if rest \<noteq> [] \<and> hd rest = CHR ''}'' then Inr (v, ref, kind, n, tl rest)
             else Inl (FormatError ''invalid format string'')))"
        by (rule format_safe_bind [OF a]) (use s in \<open>auto intro: reads_rest_tl\<close>)
      with True False s show ?thesis by (simp add: parse_dynamic_spec_def)
    qed (use s False in \<open>simp add: parse_dynamic_spec_def\<close>)
  qed
qed

lemma parse_width_safe:
  "s \<noteq> [] \<Longrightarrow> format_safe (\<lambda>(specs, n, rest). reads s rest) (parse_width s specs n)"
  unfolding parse_width_def by (rule format_safe_bind [OF parse_dynamic_spec_safe]) auto

lemma parse_precision_safe:
  assumes "s \<noteq> []"
  shows "format_safe (\<lambda>(specs, n, rest). reads s rest) (parse_precision s specs n)"
proof (cases "tl s")
  case (Cons c cs)
  have "format_safe (\<lambda>(specs, n, rest). reads s rest)
      (bindR (parse_dynamic_spec (tl s) (specs_precision specs) (precision_ref specs) n) (\<lambda>(val, ref, kind, n, rest).
           Inr (set_dynamic_precision kind (specs\<lparr>specs_precision := val, precision_ref := ref\<rparr>), n, rest)))"
    by (rule format_safe_bind [OF parse_dynamic_spec_safe])
      (use Cons reads_trans [OF reads_tl [OF assms]] in auto)
  with Cons show ?thesis by (simp add: parse_precision_def)
qed (simp add: parse_precision_def)

text \<open>A turn: what is left is a suffix, a proper one if the loop goes on.\<close>

fun turn_reads :: "string \<Rightarrow> spec_turn \<Rightarrow> bool" where
  "turn_reads s (Spec_return specs n rest) \<longleftrightarrow> (\<exists>ps. s = ps @ rest)"
| "turn_reads s (Spec_next st specs n rest) \<longleftrightarrow> reads s rest"

lemma suffix_tl: "\<exists>ps. s = ps @ tl s"
  by (cases s) (auto intro: exI [of _ "[hd s]"])

lemma enter_state_safe: "format_safe (\<lambda>st. True) (enter_state current st valid)"
  by (simp add: enter_state_def)

lemma parse_presentation_type_safe [safe]:
  "format_safe (turn_reads s) (parse_presentation_type arg_type pres st specs n s)"
  using suffix_tl [of s] by (simp add: parse_presentation_type_def)

lemma code_point_length_bounds: "1 \<le> code_point_length c \<and> code_point_length c \<le> 4"
proof -
  have "x AND 3 \<le> (3 :: 64 word)" for x by (rule word_and_le1)
  then have "unat (x AND 3) \<le> 3" for x :: "64 word" by (simp add: word_le_nat_alt)
  then show ?thesis by (simp add: code_point_length_def)
qed

lemma parse_fill_safe:
  assumes "s \<noteq> []"
  shows "format_safe (turn_reads s) (parse_fill current specs n s)"
proof -
  have "reads s (drop (code_point_length (hd s) + 1) s)" using reads_drop assms by simp
  moreover have "\<exists>sp'. set_fill (take (code_point_length (hd s)) s) specs = Inr sp'"
    using code_point_length_bounds [of "hd s"] by (auto simp: set_fill_def Let_def)
  ultimately show ?thesis using assms unfolding parse_fill_def
    by (auto simp: Let_def enter_state_def)
qed

lemma parse_zero_safe:
  "s \<noteq> [] \<Longrightarrow> format_safe (turn_reads s) (parse_zero arg_type current specs n s)"
  by (simp add: parse_zero_def enter_state_def reads_tl)

lemma spec_step_safe:
  assumes "s \<noteq> []"
  shows "format_safe (turn_reads s) (spec_step arg_type c current specs n s)"
proof -
  have e: "format_safe (turn_reads s) (bindR (enter_state current st valid) (\<lambda>st. Inr (Spec_next st (f st) n (tl s))))"
    for st valid f using assms by (simp add: enter_state_def reads_tl)
  have w: "format_safe (turn_reads s) (bindR (enter_state current st valid) (\<lambda>st.
      bindR p (\<lambda>(specs, n, rest). Inr (Spec_next st specs n rest))))"
    if "format_safe (\<lambda>(specs, n, rest). reads s rest) p" for st valid p
    by (rule format_safe_bind [OF enter_state_safe], rule format_safe_bind [OF that]) auto
  have r: "format_safe (turn_reads s) (Inr (Spec_return specs n s))" by simp
  show ?thesis unfolding spec_step_def Let_def
    by (intro format_safe_if e w r format_safe_error parse_presentation_type_safe parse_zero_safe parse_fill_safe
        parse_width_safe parse_precision_safe assms)
qed

section \<open>The loop\<close>

function specs_loop ::
    "fmt_type \<Rightarrow> char \<Rightarrow> spec_state \<Rightarrow> dynamic_format_specs \<Rightarrow> int \<Rightarrow> string \<Rightarrow>
     (dynamic_format_specs \<times> int \<times> string) res" where
  "specs_loop arg_type c current specs n s =
     (if s = [] then Inr (specs, n, s)
      else bindR (spec_step arg_type c current specs n s) (\<lambda>turn.
        case turn of
          Spec_return specs n rest \<Rightarrow> Inr (specs, n, rest)
        | Spec_next st specs n rest \<Rightarrow> specs_loop arg_type (hd rest) st specs n rest))"
  by pat_completeness auto
termination
  by (relation "measure (\<lambda>(arg_type, c, current, specs, n, s). length s)")
    (auto dest!: format_safe_InrD [OF spec_step_safe] reads_length)

declare specs_loop.simps [simp del]

text \<open>A character followed by an alignment is a fill character, whatever it is otherwise.\<close>

definition parse_format_specs ::
    "string \<Rightarrow> dynamic_format_specs \<Rightarrow> int \<Rightarrow> fmt_type \<Rightarrow> (dynamic_format_specs \<times> int \<times> string) res" where
  "parse_format_specs s specs n arg_type =
     (if s = [] then Inr (specs, n, s)
      else let c = (if 1 < length s
                    then if parse_align_char (s ! 1) = align_none then hd s else CHR 0x00
                    else hd s)
           in specs_loop arg_type c st_start specs n s)"

lemma specs_loop_safe:
  "format_safe (\<lambda>(specs, n, rest). \<exists>ps. s = ps @ rest) (specs_loop arg_type c current specs n s)"
proof (induction arg_type c current specs n s rule: specs_loop.induct)
  case (1 arg_type c current specs n s)
  show ?case
  proof (cases "s = []")
    case False
    have "format_safe (\<lambda>(specs, n, rest). \<exists>ps. s = ps @ rest)
        (bindR (spec_step arg_type c current specs n s) (\<lambda>turn.
          case turn of
            Spec_return specs n rest \<Rightarrow> Inr (specs, n, rest)
          | Spec_next st specs n rest \<Rightarrow> specs_loop arg_type (hd rest) st specs n rest))"
    proof (rule format_safe_bind [OF spec_step_safe [OF False]])
      fix turn
      assume t: "turn_reads s turn" "spec_step arg_type c current specs n s = Inr turn"
      show "format_safe (\<lambda>(specs, n, rest). \<exists>ps. s = ps @ rest)
          (case turn of
            Spec_return specs n rest \<Rightarrow> Inr (specs, n, rest)
          | Spec_next st specs n rest \<Rightarrow> specs_loop arg_type (hd rest) st specs n rest)"
      proof (cases turn)
        case (Spec_next st sp m rest)
        then obtain ps where "s = ps @ rest" using t(1) by (auto simp: reads_def)
        with 1 [OF False t(2) Spec_next] Spec_next show ?thesis
          by (auto elim!: format_safe_mono)
      qed (use t in simp)
    qed
    with False show ?thesis by (simp add: specs_loop.simps [of arg_type c current specs n s])
  qed (simp add: specs_loop.simps)
qed

lemma parse_format_specs_safe:
  "format_safe (\<lambda>(specs, n, rest). \<exists>ps. s = ps @ rest) (parse_format_specs s specs n arg_type)"
  using specs_loop_safe [of s] by (simp add: parse_format_specs_def Let_def)

section \<open>The value of a number\<close>

lemma fmt_digit_value: "fmt_digit c \<Longrightarrow> digit_value c < 10"
  by (auto simp: fmt_digit_def digit_value_def)

lemma undec_append: "undec (ds @ [d]) = 10 * undec ds + digit_value d"
  by (simp add: undec_def)

lemma undec_bound: "list_all fmt_digit ds \<Longrightarrow> undec ds < 10 ^ length ds"
proof (induction ds rule: rev_induct)
  case (snoc d ds)
  then have "undec ds < 10 ^ length ds" "digit_value d < 10" by (simp_all add: fmt_digit_value)
  then show ?case by (simp add: undec_append)
qed (simp add: undec_def)

lemma digits_loop_eq:
  assumes "list_all fmt_digit ds" and "rest = [] \<or> \<not> fmt_digit (hd rest)"
  shows "digits_loop (of_nat a) p n l (ds @ rest) =
    (of_nat (foldl (\<lambda>a c. 10 * a + digit_value c) a ds),
     if ds = [] then p else of_nat (foldl (\<lambda>a c. 10 * a + digit_value c) a (butlast ds)),
     n + length ds, if ds = [] then l else last ds, rest)"
  using assms
proof (induction ds arbitrary: a p n l)
  case Nil
  then show ?case by (cases rest) auto
next
  case (Cons d ds)
  have "of_nat a * 10 + of_nat (of_char d - 48) = (of_nat (10 * a + digit_value d) :: u32)"
    by (simp add: digit_value_def)
  then have "digits_loop (of_nat a) p n l (d # ds @ rest) =
      digits_loop (of_nat (10 * a + digit_value d)) (of_nat a) (Suc n) d (ds @ rest)"
    using Cons.prems(1) by (simp del: of_nat_add of_nat_mult)
  with Cons.IH [of "10 * a + digit_value d" "of_nat a" "Suc n" d] Cons.prems show ?case
    by (simp del: of_nat_add of_nat_mult)
qed

text \<open>
  Any run of digits is read as its number, or as the error value if it has more than ten digits or exceeds
  \<open>INT_MAX\<close>; the 32-bit multiplication may wrap around but then the value is not used.
\<close>

lemma parse_nonnegative_int_eq:
  assumes d: "list_all fmt_digit ds" "ds \<noteq> []" and rest: "rest = [] \<or> \<not> fmt_digit (hd rest)"
  shows "parse_nonnegative_int (ds @ rest) e =
    Inr (if length ds \<le> 10 \<and> undec ds \<le> int_max then int (undec ds) else e, rest)"
proof -
  have l: "digits_loop 0 0 0 CHR ''0'' (ds @ rest) =
      (of_nat (undec ds), of_nat (undec (butlast ds)), length ds, last ds, rest)"
    using digits_loop_eq [OF d(1) rest, of 0 0 0 "CHR ''0''"] d(2) by (simp add: undec_def)
  have hd: "fmt_digit (hd (ds @ rest))" "ds @ rest \<noteq> []" using d by (cases ds; simp)+
  have s: "sint (of_nat (undec ds) :: u32) = int (undec ds)" if "undec ds \<le> int_max"
    using that by (simp add: int_max_def signed_of_nat signed_take_bit_int_eq_self)
  have u: "undec ds = 10 * undec (butlast ds) + digit_value (last ds)"
    using undec_append [of "butlast ds" "last ds"] d(2) by simp
  have "list_all fmt_digit (butlast ds)" using d(1) by (auto simp: list_all_iff dest: in_set_butlastD)
  from undec_bound [OF this] have b: "undec (butlast ds) < 10 ^ (length ds - 1)" by simp
  consider "length ds \<le> 9" | "length ds = 10" | "10 < length ds" by linarith
  then show ?thesis
  proof cases
    case 1
    then have "undec ds < 10 ^ 9"
      using undec_bound [OF d(1)] by (meson less_le_trans one_le_numeral power_increasing)
    then have "undec ds \<le> int_max" by (simp add: int_max_def)
    with 1 l hd s show ?thesis by (simp add: parse_nonnegative_int_def)
  next
    case 2
    then have "unat (of_nat (undec (butlast ds)) :: u32) = undec (butlast ds)"
      using b by (simp add: unat_of_nat take_bit_nat_eq_self)
    with 2 l hd s u show ?thesis by (simp add: parse_nonnegative_int_def digit_value_def mult.commute)
  next
    case 3
    with l hd show ?thesis by (simp add: parse_nonnegative_int_def)
  qed
qed

lemma digits_split: "\<exists>ds rest. s = ds @ rest \<and> list_all fmt_digit ds \<and> (rest = [] \<or> \<not> fmt_digit (hd rest))"
proof -
  have "s = takeWhile fmt_digit s @ dropWhile fmt_digit s" by simp
  moreover have "list_all fmt_digit (takeWhile fmt_digit s)" by (auto simp: list_all_iff dest: set_takeWhileD)
  ultimately show ?thesis using hd_dropWhile [of fmt_digit s] by blast
qed

lemma parse_nonnegative_int_range:
  assumes "parse_nonnegative_int s e = Inr (v, rest)"
  shows "v = e \<or> (0 \<le> v \<and> v \<le> int int_max)"
proof -
  obtain ds r where s: "s = ds @ r" "list_all fmt_digit ds" "r = [] \<or> \<not> fmt_digit (hd r)"
    using digits_split by blast
  have "ds \<noteq> []" using assms s by (auto simp: parse_nonnegative_int_def)
  from parse_nonnegative_int_eq [OF s(2) this s(3), of e] assms s(1) show ?thesis
    by (auto split: if_splits)
qed

end
