(* ===== verification/FmtBase.thy ===== *)
theory FmtBase
  imports FmtHelper
begin

text \<open>
  \<open>do_format_base2e\<close> of \<open>fmt/bundled/format.h\<close>: printing in base 2, 8 and 16 from the end of a buffer, proved to
  give the digits \<open>base_digits\<close>, which determine the number.
\<close>

section \<open>The code\<close>

definition digit_char :: "nat \<Rightarrow> bool \<Rightarrow> nat \<Rightarrow> char" where
  "digit_char base_bits upper digit =
     (if base_bits < 4 then char_of (48 + digit)
      else (if upper then ''0123456789ABCDEF'' else ''0123456789abcdef'') ! digit)"

text \<open>The position of the first digit and the buffer.\<close>

function do_format_base2e :: "nat \<Rightarrow> string \<Rightarrow> nat \<Rightarrow> nat \<Rightarrow> bool \<Rightarrow> (nat \<times> string) res" where
  "do_format_base2e base_bits out v n upper =
     (if n = 0 then Inl OutOfBounds
      else let digit = v AND (2 ^ base_bits - 1);
               out = out[n - 1 := digit_char base_bits upper digit];
               v = drop_bit base_bits v
           in if v \<noteq> 0 then do_format_base2e base_bits out v (n - 1) upper else Inr (n - 1, out))"
  by pat_completeness auto
termination
  by (relation "measure (\<lambda>(base_bits, out, v, n, upper). n)") auto

declare do_format_base2e.simps [simp del]

section \<open>The digits\<close>

function base_digits :: "nat \<Rightarrow> bool \<Rightarrow> nat \<Rightarrow> string" where
  "base_digits k upper v =
     (if k = 0 \<or> v < 2 ^ k then [digit_char k upper v]
      else base_digits k upper (v div 2 ^ k) @ [digit_char k upper (v mod 2 ^ k)])"
  by pat_completeness auto
termination
proof (relation "measure (\<lambda>(k, upper, v). v)", goal_cases)
  case (2 k upper v)
  then have "0 < k" "2 ^ k \<le> v" by auto
  then have "1 < (2::nat) ^ k" by (intro one_less_power) auto
  with \<open>2 ^ k \<le> v\<close> show ?case by (auto intro: div_less_dividend)
qed simp

declare base_digits.simps [simp del]

definition digit_of_char :: "char \<Rightarrow> nat" where
  "digit_of_char c =
     (let n = of_char c in if 97 \<le> n then n - 87 else if 65 \<le> n then n - 55 else n - 48)"

lemma digit_of_digit_char:
  assumes "k \<in> {1, 3, 4}" and "d < 2 ^ k"
  shows "digit_of_char (digit_char k upper d) = d"
proof -
  have t: "list_all (\<lambda>d. digit_of_char (digit_char 4 True d) = d \<and> digit_of_char (digit_char 4 False d) = d) [0..<16]"
    by (simp add: upt_rec digit_of_char_def digit_char_def)
  have "list_all (\<lambda>d. digit_of_char (digit_char 1 True d) = d \<and> digit_of_char (digit_char 3 True d) = d) [0..<8]"
    by (simp add: upt_rec digit_of_char_def digit_char_def)
  then have s: "d < 8 \<Longrightarrow> digit_of_char (digit_char 1 True d) = d \<and> digit_of_char (digit_char 3 True d) = d"
    by (simp add: list_all_iff)
  have u: "k < 4 \<Longrightarrow> digit_char k upper d = digit_char k True d"
    by (simp add: digit_char_def)
  from assms t s u show ?thesis by (cases upper) (auto simp: list_all_iff)
qed

definition from_base :: "nat \<Rightarrow> string \<Rightarrow> nat" where
  "from_base k s = foldl (\<lambda>a c. 2 ^ k * a + digit_of_char c) 0 s"

lemma from_base_digits:
  "k \<in> {1, 3, 4} \<Longrightarrow> from_base k (base_digits k upper v) = v"
proof (induction k upper v rule: base_digits.induct)
  case (1 k upper v)
  show ?case
  proof (cases "v < 2 ^ k")
    case True
    with 1 show ?thesis by (simp add: base_digits.simps [of k upper v] from_base_def digit_of_digit_char)
  next
    case False
    with 1 have "from_base k (base_digits k upper (v div 2 ^ k)) = v div 2 ^ k" by auto
    with False 1(2) show ?thesis
      by (auto simp: base_digits.simps [of k upper v] from_base_def digit_of_digit_char)
  qed
qed

lemma base_digits_nonempty [simp]: "base_digits k upper v \<noteq> []"
  by (simp add: base_digits.simps [of k upper v])

lemma length_base_digits_le:
  "0 < k \<Longrightarrow> v < 2 ^ (k * m) \<Longrightarrow> 0 < m \<Longrightarrow> length (base_digits k upper v) \<le> m"
proof (induction k upper v arbitrary: m rule: base_digits.induct)
  case (1 k upper v)
  show ?case
  proof (cases "v < 2 ^ k")
    case True
    with 1 show ?thesis by (simp add: base_digits.simps [of k upper v])
  next
    case False
    then have "m \<noteq> 1" using 1(3) by auto
    then obtain m' where m: "m = Suc m'" "0 < m'" using 1(4) by (cases m) auto
    have "v div 2 ^ k < 2 ^ (k * m')" using 1(3) m by (simp add: less_mult_imp_div_less power_add mult.commute)
    with 1 m False show ?thesis by (simp add: base_digits.simps [of k upper v])
  qed
qed

text \<open>The digits end up at the end of the part of the buffer the routine was given.\<close>

lemma do_format_base2e_eq:
  assumes "0 < k" and "length pre = length (base_digits k upper v)"
  shows "do_format_base2e k (g @ pre @ post) v (length g + length pre) upper =
    Inr (length g, g @ base_digits k upper v @ post)"
  using assms
proof (induction k upper v arbitrary: pre post rule: base_digits.induct)
  case (1 k upper v)
  then obtain pre' c where pre: "pre = pre' @ [c]" by (metis base_digits_nonempty length_0_conv rev_exhaust)
  have "v AND (2 ^ k - 1) = take_bit k v" by (simp add: take_bit_eq_mask mask_eq_exp_minus_1)
  then have d: "v AND (2 ^ k - 1) = v mod 2 ^ k" "drop_bit k v = v div 2 ^ k"
    by (simp_all only: take_bit_eq_mod drop_bit_eq_div)
  have u: "(g @ pre @ post)[length g + length pre' := x] = g @ pre' @ x # post" for x
    by (simp add: pre list_update_append)
  show ?case
  proof (cases "v < 2 ^ k")
    case True
    with 1 pre have "pre' = []" by (simp add: base_digits.simps [of k upper v])
    with True d u pre show ?thesis
      by (simp add: do_format_base2e.simps [of k _ v] base_digits.simps [of k upper v])
  next
    case False
    then have b: "base_digits k upper v = base_digits k upper (v div 2 ^ k) @ [digit_char k upper (v mod 2 ^ k)]"
      using 1(2) by (simp add: base_digits.simps [of k upper v])
    then have l: "length pre' = length (base_digits k upper (v div 2 ^ k))" using 1(3) pre by simp
    have "0 < v div 2 ^ k" using False by (simp add: div_greater_zero_iff)
    with 1(1) [OF _ _ l, of "digit_char k upper (v mod 2 ^ k) # post"] False 1(2) b d u pre show ?thesis
      by (simp add: do_format_base2e.simps [of k _ v])
  qed
qed

lemma do_format_base2e_text:
  assumes "0 < k" and "length (base_digits k upper v) \<le> n"
  shows "\<exists>buf. do_format_base2e k (replicate n c) v n upper = Inr (n - length (base_digits k upper v), buf) \<and>
    length buf = n \<and> drop (n - length (base_digits k upper v)) buf = base_digits k upper v \<and>
    buf = replicate (n - length (base_digits k upper v)) c @ base_digits k upper v"
proof -
  let ?l = "length (base_digits k upper v)"
  have r: "replicate n c = replicate (n - ?l) c @ replicate ?l c @ []"
    using assms(2) by (simp add: replicate_add [symmetric])
  from do_format_base2e_eq [OF assms(1), of "replicate ?l c" upper v "replicate (n - ?l) c" "[]"] assms(2)
  show ?thesis unfolding r by simp
qed

end
