(* ===== verification/FmtUtf8.thy ===== *)
theory FmtUtf8
  imports FmtBase
begin

text \<open>
  UTF-8 in \<open>fmt/bundled/format.h\<close>: the branchless decoder \<open>utf8_decode\<close>, the loop over the code points of a text,
  the display width, the position of the n-th code point, and the escaping of the debug presentation with the
  tables of \<open>format-inl.h\<close>. The decoder always reads four bytes; the loop copies the last bytes of the text to a
  padded buffer. On the encoding of code points the loop visits exactly these.
\<close>

section \<open>Decoding\<close>

definition utf8_lengths :: "nat list" where
  "utf8_lengths = replicate 16 1 @ replicate 8 0 @ [2, 2, 2, 2, 3, 3, 4, 0]"

text \<open>
  Four bytes are assumed and the unused ones are shifted out; the error bits are the conditions, with the two
  top bits of each tail byte.
\<close>

definition utf8_code :: "nat \<Rightarrow> nat \<Rightarrow> nat \<Rightarrow> nat \<Rightarrow> nat \<Rightarrow> nat" where
  "utf8_code len b0 b1 b2 b3 =
     drop_bit ([0, 18, 12, 6, 0] ! len)
       (push_bit 18 (b0 AND [0x00, 0x7f, 0x1f, 0x0f, 0x07] ! len) OR
        push_bit 12 (b1 AND 0x3f) OR push_bit 6 (b2 AND 0x3f) OR (b3 AND 0x3f))"

definition utf8_error :: "nat \<Rightarrow> nat \<Rightarrow> nat \<Rightarrow> nat \<Rightarrow> nat \<Rightarrow> nat" where
  "utf8_error len c b1 b2 b3 =
     drop_bit ([0, 6, 4, 2, 0] ! len)
       (((if c < [4194304, 0, 128, 2048, 65536] ! len then 64 else 0) OR
         (if drop_bit 11 c = 0x1b then 128 else 0) OR
         (if 0x10FFFF < c then 256 else 0) OR
         drop_bit 2 (b1 AND 0xc0) OR drop_bit 4 (b2 AND 0xc0) OR drop_bit 6 b3) XOR 0x2a)"

text \<open>The code point, the error bits and how far the next one is.\<close>

definition utf8_decode :: "string \<Rightarrow> (nat \<times> nat \<times> nat) res" where
  "utf8_decode s =
     (if length s < 4 then Inl OutOfBounds
      else let b = (\<lambda>i. of_char (s ! i));
               len = utf8_lengths ! (b 0 div 8);
               c = utf8_code len (b 0) (b 1) (b 2) (b 3)
           in Inr (c, utf8_error len c (b 1) (b 2) (b 3), len + (if len = 0 then 1 else 0)))"

lemma utf8_decode_next: "utf8_decode s = Inr (c, e, m) \<Longrightarrow> 0 < m"
  by (cases "length s < 4") (auto simp: utf8_decode_def Let_def intro: gr_zeroI split: if_split_asm)

definition invalid_code_point :: nat where
  "invalid_code_point = 2 ^ 32 - 1"

text \<open>
  The lambda \<open>decode\<close>: the callback gets the code point, its position and length, and tells whether to go on. The
  result is the callback's state and how far to move.
\<close>

definition decode_at ::
    "('s \<Rightarrow> nat \<Rightarrow> nat \<Rightarrow> nat \<Rightarrow> 's \<times> bool) \<Rightarrow> 's \<Rightarrow> string \<Rightarrow> nat \<Rightarrow> ('s \<times> nat option) res" where
  "decode_at f st buf pos =
     bindR (utf8_decode buf) (\<lambda>(c, e, next).
       let len = (if e \<noteq> 0 then 1 else next);
           (st, result) = f st (if e \<noteq> 0 then invalid_code_point else c) pos len
       in Inr (st, if result then Some len else None))"

lemma decode_at_len: "decode_at f st buf pos = Inr (st', Some len) \<Longrightarrow> 0 < len"
  by (auto simp: decode_at_def Let_def utf8_decode_next split: if_splits prod.splits)

text \<open>The loop over blocks of four bytes: \<open>None\<close> if the callback stopped it, else the position and the rest.\<close>

function block_loop ::
    "('s \<Rightarrow> nat \<Rightarrow> nat \<Rightarrow> nat \<Rightarrow> 's \<times> bool) \<Rightarrow> 's \<Rightarrow> nat \<Rightarrow> string \<Rightarrow> ('s \<times> (nat \<times> string) option) res" where
  "block_loop f st pos s =
     (if length s < 4 then Inr (st, Some (pos, s))
      else bindR (decode_at f st s pos) (\<lambda>(st, r).
        case r of
          None \<Rightarrow> Inr (st, None)
        | Some len \<Rightarrow> block_loop f st (pos + len) (drop len s)))"
  by pat_completeness auto
termination
  by (relation "measure (\<lambda>(f, st, pos, s). length s)") (auto dest: decode_at_len)

declare block_loop.simps [simp del]

text \<open>The loop over the copied rest, of which \<open>left\<close> bytes are text.\<close>

function rest_loop ::
    "('s \<Rightarrow> nat \<Rightarrow> nat \<Rightarrow> nat \<Rightarrow> 's \<times> bool) \<Rightarrow> 's \<Rightarrow> nat \<Rightarrow> string \<Rightarrow> nat \<Rightarrow> 's res" where
  "rest_loop f st pos buf left =
     bindR (decode_at f st buf pos) (\<lambda>(st, r).
       case r of
         None \<Rightarrow> Inr st
       | Some len \<Rightarrow> if len < left then rest_loop f st (pos + len) (drop len buf) (left - len) else Inr st)"
  by pat_completeness auto
termination
  by (relation "measure (\<lambda>(f, st, pos, buf, left). left)") (auto dest: decode_at_len)

declare rest_loop.simps [simp del]

definition for_each_codepoint ::
    "('s \<Rightarrow> nat \<Rightarrow> nat \<Rightarrow> nat \<Rightarrow> 's \<times> bool) \<Rightarrow> 's \<Rightarrow> string \<Rightarrow> 's res" where
  "for_each_codepoint f st s =
     bindR (block_loop f st 0 s) (\<lambda>(st, r).
       case r of
         None \<Rightarrow> Inr st
       | Some (pos, rest) \<Rightarrow>
           if rest = [] then Inr st
           else rest_loop f st pos (rest @ replicate (7 - length rest) CHR 0x00) (length rest mod 4))"

section \<open>Width and position\<close>

definition is_wide :: "nat \<Rightarrow> bool" where
  "is_wide cp \<longleftrightarrow>
     0x1100 \<le> cp \<and>
      (cp \<le> 0x115f \<or> cp = 0x2329 \<or> cp = 0x232a \<or>
       (0x2e80 \<le> cp \<and> cp \<le> 0xa4cf \<and> cp \<noteq> 0x303f) \<or>
       (0xac00 \<le> cp \<and> cp \<le> 0xd7a3) \<or> (0xf900 \<le> cp \<and> cp \<le> 0xfaff) \<or>
       (0xfe10 \<le> cp \<and> cp \<le> 0xfe19) \<or> (0xfe30 \<le> cp \<and> cp \<le> 0xfe6f) \<or>
       (0xff00 \<le> cp \<and> cp \<le> 0xff60) \<or> (0xffe0 \<le> cp \<and> cp \<le> 0xffe6) \<or>
       (0x20000 \<le> cp \<and> cp \<le> 0x2fffd) \<or> (0x30000 \<le> cp \<and> cp \<le> 0x3fffd) \<or>
       (0x1f300 \<le> cp \<and> cp \<le> 0x1f64f) \<or> (0x1f900 \<le> cp \<and> cp \<le> 0x1f9ff))"

definition compute_width :: "string \<Rightarrow> nat res" where
  "compute_width s = for_each_codepoint (\<lambda>count cp pos len. (count + 1 + (if is_wide cp then 1 else 0), True)) 0 s"

definition code_point_index :: "string \<Rightarrow> nat \<Rightarrow> nat res" where
  "code_point_index s n =
     bindR (for_each_codepoint
              (\<lambda>(n, result) cp pos len. if n \<noteq> 0 then ((n - 1, result), True) else ((n, pos), False))
              (n, length s) s)
       (\<lambda>(n, result). Inr result)"

section \<open>Escaping\<close>

text \<open>The tables of \<open>is_printable\<close>.\<close>

definition singletons0 :: "(nat \<times> nat) list" where
  "singletons0 = [
     (0x00, 1), (0x03, 5), (0x05, 6), (0x06, 3), (0x07, 6), (0x08, 8), (0x09, 17), (0x0a, 28), (0x0b, 25),
     (0x0c, 20), (0x0d, 16), (0x0e, 13), (0x0f, 4), (0x10, 3), (0x12, 18), (0x13, 9), (0x16, 1), (0x17, 5),
     (0x18, 2), (0x19, 3), (0x1a, 7), (0x1c, 2), (0x1d, 1), (0x1f, 22), (0x20, 3), (0x2b, 3), (0x2c, 2),
     (0x2d, 11), (0x2e, 1), (0x30, 3), (0x31, 2), (0x32, 1), (0xa7, 2), (0xa9, 2), (0xaa, 4), (0xab, 8),
     (0xfa, 2), (0xfb, 5), (0xfd, 4), (0xfe, 3), (0xff, 9)]"

definition singletons0_lower :: "nat list" where
  "singletons0_lower = [
     173, 120, 121, 139, 141, 162, 48, 87, 88, 139, 140, 144, 28, 29, 221, 14, 15, 75, 76, 251, 252, 46, 47,
     63, 92, 93, 95, 181, 226, 132, 141, 142, 145, 146, 169, 177, 186, 187, 197, 198, 201, 202, 222, 228,
     229, 255, 0, 4, 17, 18, 41, 49, 52, 55, 58, 59, 61, 73, 74, 93, 132, 142, 146, 169, 177, 180, 186, 187,
     198, 202, 206, 207, 228, 229, 0, 4, 13, 14, 17, 18, 41, 49, 52, 58, 59, 69, 70, 73, 74, 94, 100, 101,
     132, 145, 155, 157, 201, 206, 207, 13, 17, 41, 69, 73, 87, 100, 101, 141, 145, 169, 180, 186, 187, 197,
     201, 223, 228, 229, 240, 13, 17, 69, 73, 100, 101, 128, 132, 178, 188, 190, 191, 213, 215, 240, 241,
     131, 133, 139, 164, 166, 190, 191, 197, 199, 206, 207, 218, 219, 72, 152, 189, 205, 198, 206, 207, 73,
     78, 79, 87, 89, 94, 95, 137, 142, 143, 177, 182, 183, 191, 193, 198, 199, 215, 17, 22, 23, 91, 92, 246,
     247, 254, 255, 128, 13, 109, 113, 222, 223, 14, 15, 31, 110, 111, 28, 29, 95, 125, 126, 174, 175, 187,
     188, 250, 22, 23, 30, 31, 70, 71, 78, 79, 88, 90, 92, 94, 126, 127, 181, 197, 212, 213, 220, 240, 241,
     245, 114, 115, 143, 116, 117, 150, 47, 95, 38, 46, 47, 167, 175, 183, 191, 199, 207, 215, 223, 154, 64,
     151, 152, 48, 143, 31, 192, 193, 206, 255, 78, 79, 90, 91, 7, 8, 15, 16, 39, 47, 238, 239, 110, 111, 55,
     61, 63, 66, 69, 144, 145, 254, 255, 83, 103, 117, 200, 201, 208, 209, 216, 217, 231, 254, 255]"

definition singletons1 :: "(nat \<times> nat) list" where
  "singletons1 = [
     (0x00, 6), (0x01, 1), (0x03, 1), (0x04, 2), (0x08, 8), (0x09, 2), (0x0a, 5), (0x0b, 2), (0x0e, 4),
     (0x10, 1), (0x11, 2), (0x12, 5), (0x13, 17), (0x14, 1), (0x15, 2), (0x17, 2), (0x19, 13), (0x1c, 5),
     (0x1d, 8), (0x24, 1), (0x6a, 3), (0x6b, 2), (0xbc, 2), (0xd1, 2), (0xd4, 12), (0xd5, 9), (0xd6, 2),
     (0xd7, 2), (0xda, 1), (0xe0, 5), (0xe1, 2), (0xe8, 2), (0xee, 32), (0xf0, 4), (0xf8, 2), (0xf9, 2),
     (0xfa, 2), (0xfb, 1)]"

definition singletons1_lower :: "nat list" where
  "singletons1_lower = [
     12, 39, 59, 62, 78, 79, 143, 158, 158, 159, 6, 7, 9, 54, 61, 62, 86, 243, 208, 209, 4, 20, 24, 54, 55,
     86, 87, 127, 170, 174, 175, 189, 53, 224, 18, 135, 137, 142, 158, 4, 13, 14, 17, 18, 41, 49, 52, 58, 69,
     70, 73, 74, 78, 79, 100, 101, 92, 182, 183, 27, 28, 7, 8, 10, 11, 20, 23, 54, 57, 58, 168, 169, 216,
     217, 9, 55, 144, 145, 168, 7, 10, 59, 62, 102, 105, 143, 146, 111, 95, 238, 239, 90, 98, 154, 155, 39,
     40, 85, 157, 160, 161, 163, 164, 167, 168, 173, 186, 188, 196, 6, 11, 12, 21, 29, 58, 63, 69, 81, 166,
     167, 204, 205, 160, 7, 25, 26, 34, 37, 62, 63, 197, 198, 4, 32, 35, 37, 38, 40, 51, 56, 58, 72, 74, 76,
     80, 83, 85, 86, 88, 90, 92, 94, 96, 99, 101, 102, 107, 115, 120, 125, 127, 138, 164, 170, 175, 176, 192,
     208, 174, 175, 121, 204, 110, 111, 147]"

definition normal0 :: "nat list" where
  "normal0 = [
     0, 32, 95, 34, 130, 223, 4, 130, 68, 8, 27, 4, 6, 17, 129, 172, 14, 128, 171, 53, 40, 11, 128, 224, 3,
     25, 8, 1, 4, 47, 4, 52, 4, 7, 3, 1, 7, 6, 7, 17, 10, 80, 15, 18, 7, 85, 7, 3, 4, 28, 10, 9, 3, 8, 3, 7,
     3, 2, 3, 3, 3, 12, 4, 5, 3, 11, 6, 1, 14, 21, 5, 58, 3, 17, 7, 6, 5, 16, 7, 87, 7, 2, 7, 21, 13, 80, 4,
     67, 3, 45, 3, 1, 4, 17, 6, 15, 12, 58, 4, 29, 37, 95, 32, 109, 4, 106, 37, 128, 200, 5, 130, 176, 3, 26,
     6, 130, 253, 3, 89, 7, 21, 11, 23, 9, 20, 12, 20, 12, 106, 6, 10, 6, 26, 6, 89, 7, 43, 5, 70, 10, 44, 4,
     12, 4, 1, 3, 49, 11, 44, 4, 26, 6, 11, 3, 128, 172, 6, 10, 6, 33, 63, 76, 4, 45, 3, 116, 8, 60, 3, 15,
     3, 60, 7, 56, 8, 43, 5, 130, 255, 17, 24, 8, 47, 17, 45, 3, 32, 16, 33, 15, 128, 140, 4, 130, 151, 25,
     11, 21, 136, 148, 5, 47, 5, 59, 7, 2, 14, 24, 9, 128, 179, 45, 116, 12, 128, 214, 26, 12, 5, 128, 255,
     5, 128, 223, 12, 238, 13, 3, 132, 141, 3, 55, 9, 129, 92, 20, 128, 184, 8, 128, 203, 42, 56, 3, 10, 6,
     56, 8, 70, 8, 12, 6, 116, 11, 30, 3, 90, 4, 89, 9, 128, 131, 24, 28, 10, 22, 9, 76, 4, 128, 138, 6, 171,
     164, 12, 23, 4, 49, 161, 4, 129, 218, 38, 7, 12, 5, 5, 128, 165, 17, 129, 109, 16, 120, 40, 42, 6, 76,
     4, 128, 141, 4, 128, 190, 3, 27, 3, 15, 13]"

definition normal1 :: "nat list" where
  "normal1 = [
     94, 34, 123, 5, 3, 4, 45, 3, 102, 3, 1, 47, 46, 128, 130, 29, 3, 49, 15, 28, 4, 36, 9, 30, 5, 43, 5, 68,
     4, 14, 42, 128, 170, 6, 36, 4, 36, 4, 40, 8, 52, 11, 1, 128, 144, 129, 55, 9, 22, 10, 8, 128, 152, 57,
     3, 99, 8, 9, 48, 22, 5, 33, 3, 27, 5, 1, 64, 56, 4, 75, 5, 47, 4, 10, 7, 9, 7, 64, 32, 39, 4, 12, 9, 54,
     3, 58, 5, 26, 7, 4, 12, 7, 80, 73, 55, 51, 13, 51, 7, 46, 8, 10, 129, 38, 82, 78, 40, 8, 42, 86, 28, 20,
     23, 9, 78, 4, 30, 15, 67, 14, 25, 7, 10, 6, 72, 8, 39, 9, 117, 11, 63, 65, 42, 6, 59, 5, 10, 6, 81, 6,
     1, 5, 16, 3, 5, 128, 139, 98, 30, 72, 8, 10, 128, 166, 94, 34, 69, 11, 10, 6, 13, 19, 57, 7, 10, 54, 44,
     4, 16, 128, 192, 60, 100, 83, 12, 72, 9, 10, 70, 69, 27, 72, 8, 83, 29, 57, 129, 7, 70, 10, 29, 3, 71,
     73, 55, 3, 14, 8, 10, 6, 57, 7, 10, 129, 54, 25, 128, 183, 1, 15, 50, 13, 131, 155, 102, 117, 11, 128,
     196, 138, 188, 132, 47, 143, 209, 130, 71, 161, 185, 130, 57, 7, 42, 4, 2, 96, 38, 10, 70, 10, 40, 5,
     19, 130, 176, 91, 101, 75, 4, 57, 7, 17, 64, 5, 11, 2, 14, 151, 248, 8, 132, 214, 42, 9, 162, 247, 129,
     31, 49, 3, 17, 4, 8, 129, 140, 137, 4, 107, 5, 13, 3, 9, 7, 16, 147, 96, 128, 246, 10, 115, 8, 110, 23,
     70, 128, 154, 20, 12, 87, 9, 25, 128, 135, 129, 71, 3, 133, 66, 15, 21, 133, 80, 43, 128, 213, 45, 3,
     26, 4, 2, 129, 112, 58, 5, 1, 133, 0, 128, 215, 41, 76, 4, 10, 4, 2, 131, 17, 68, 76, 61, 128, 194, 60,
     6, 1, 4, 85, 5, 27, 52, 2, 129, 14, 44, 4, 100, 12, 86, 10, 128, 174, 56, 29, 13, 44, 4, 9, 7, 2, 14, 6,
     128, 154, 131, 216, 8, 13, 3, 13, 3, 116, 12, 89, 7, 12, 20, 12, 4, 56, 8, 10, 6, 40, 8, 34, 78, 129,
     84, 12, 21, 3, 3, 5, 7, 9, 25, 7, 7, 9, 3, 13, 7, 41, 128, 203, 37, 10, 132, 6]"

text \<open>Whether the lower byte of \<open>x\<close> is listed under its upper byte.\<close>

fun in_singletons :: "nat \<Rightarrow> (nat \<times> nat) list \<Rightarrow> nat list \<Rightarrow> bool" where
  "in_singletons x [] lowers = False"
| "in_singletons x ((up, lower_count) # ss) lowers =
     (if x div 256 < up then False
      else if x div 256 = up \<and> x mod 256 \<in> set (take lower_count lowers) then True
      else in_singletons x ss (drop lower_count lowers))"

text \<open>Run lengths of one or two bytes, by which the answer alternates.\<close>

fun normal_runs :: "int \<Rightarrow> bool \<Rightarrow> nat list \<Rightarrow> bool" where
  "normal_runs x current [] = current"
| "normal_runs x current (v # vs) =
     (if 128 \<le> v
      then (case vs of
              [] \<Rightarrow> current
            | w # ws \<Rightarrow>
                let x = x - int ((v - 128) * 256 + w) in if x < 0 then current else normal_runs x (\<not> current) ws)
      else let x = x - int v in if x < 0 then current else normal_runs x (\<not> current) vs)"

definition is_printable16 :: "nat \<Rightarrow> (nat \<times> nat) list \<Rightarrow> nat list \<Rightarrow> nat list \<Rightarrow> bool" where
  "is_printable16 x singletons lowers normal \<longleftrightarrow> \<not> in_singletons x singletons lowers \<and> normal_runs (int x) True normal"

definition is_printable :: "nat \<Rightarrow> bool" where
  "is_printable cp =
     (let lower = cp mod 65536
      in if cp < 0x10000 then is_printable16 lower singletons0 singletons0_lower normal0
         else if cp < 0x20000 then is_printable16 lower singletons1 singletons1_lower normal1
         else if 0x2a6de \<le> cp \<and> cp < 0x2a700 then False
         else if 0x2b735 \<le> cp \<and> cp < 0x2b740 then False
         else if 0x2b81e \<le> cp \<and> cp < 0x2b820 then False
         else if 0x2cea2 \<le> cp \<and> cp < 0x2ceb0 then False
         else if 0x2ebe1 \<le> cp \<and> cp < 0x2f800 then False
         else if 0x2fa1e \<le> cp \<and> cp < 0x30000 then False
         else if 0x3134b \<le> cp \<and> cp < 0xe0100 then False
         else if 0xe01f0 \<le> cp \<and> cp < 0x110000 then False
         else cp < 0x110000)"

definition needs_escape :: "nat \<Rightarrow> bool" where
  "needs_escape cp \<longleftrightarrow> cp < 0x20 \<or> cp = 0x7f \<or> cp = 0x22 \<or> cp = 0x5c \<or> \<not> is_printable cp"

text \<open>The first code point that needs escaping: where it begins and ends, and its number.\<close>

definition find_escape :: "string \<Rightarrow> (nat \<times> nat \<times> nat) option res" where
  "find_escape s =
     for_each_codepoint
       (\<lambda>result cp pos len. if needs_escape cp then (Some (pos, pos + len, cp), False) else (result, True)) None s"

text \<open>\<open>write_codepoint\<close>: the prefix and \<open>w\<close> hexadecimal digits.\<close>

definition write_codepoint :: "nat \<Rightarrow> char \<Rightarrow> nat \<Rightarrow> string res" where
  "write_codepoint w prefix cp =
     bindR (do_format_base2e 4 (replicate w CHR ''0'') cp w False) (\<lambda>(pos, buf). Inr ([CHR 0x5C, prefix] @ buf))"

fun write_bytes_hex :: "string \<Rightarrow> string res" where
  "write_bytes_hex [] = Inr []"
| "write_bytes_hex (c # cs) =
     bindR (write_codepoint 2 CHR ''x'' (of_char c)) (\<lambda>t. bindR (write_bytes_hex cs) (\<lambda>ts. Inr (t @ ts)))"

text \<open>\<open>bytes\<close> is the text of the code point in the source.\<close>

definition write_escaped_cp :: "string \<Rightarrow> nat \<Rightarrow> string res" where
  "write_escaped_cp bytes cp =
     (if cp = 0x0A then Inr [CHR 0x5C, CHR ''n'']
      else if cp = 0x0D then Inr [CHR 0x5C, CHR ''r'']
      else if cp = 0x09 then Inr [CHR 0x5C, CHR ''t'']
      else if cp = 0x22 \<or> cp = 0x27 \<or> cp = 0x5C then Inr [CHR 0x5C, char_of cp]
      else if cp < 0x100 then write_codepoint 2 CHR ''x'' cp
      else if cp < 0x10000 then write_codepoint 4 CHR ''u'' cp
      else if cp < 0x110000 then write_codepoint 8 CHR ''U'' cp
      else write_bytes_hex bytes)"

section \<open>The loop calls back with positive lengths\<close>

text \<open>A property of the callback's state that every call keeps holds of the result.\<close>

lemma decode_at_keeps:
  assumes "decode_at f st buf pos = Inr (st', r)" and "I st"
    and "\<And>st cp pos len. I st \<Longrightarrow> 0 < len \<Longrightarrow> I (fst (f st cp pos len))"
  shows "I st'"
proof -
  from assms(1) obtain c e m where u: "utf8_decode buf = Inr (c, e, m)" by (auto simp: decode_at_def)
  then have "0 < m" by (rule utf8_decode_next)
  then have "I (fst (f st (if e \<noteq> 0 then invalid_code_point else c) pos (if e \<noteq> 0 then 1 else m)))"
    using assms(2,3) by simp
  with assms(1) u show ?thesis by (auto simp: decode_at_def Let_def split: prod.splits)
qed

lemma block_loop_keeps:
  assumes "block_loop f st pos s = Inr (st', r)" and "I st"
    and "\<And>st cp pos len. I st \<Longrightarrow> 0 < len \<Longrightarrow> I (fst (f st cp pos len))"
  shows "I st'"
  using assms
proof (induction f st pos s rule: block_loop.induct)
  case (1 f st pos s)
  show ?case
  proof (cases "length s < 4")
    case False
    with 1(2) obtain st1 r1 where d: "decode_at f st s pos = Inr (st1, r1)"
      and r: "(case r1 of None \<Rightarrow> Inr (st1, None) | Some len \<Rightarrow> block_loop f st1 (pos + len) (drop len s)) = Inr (st', r)"
      by (auto simp: block_loop.simps [of f st pos s])
    have "I st1" by (rule decode_at_keeps [OF d 1(3) 1(4)])
    with r 1(1) [OF False d refl] 1(4) show ?thesis by (auto split: option.splits)
  qed (use 1 in \<open>simp add: block_loop.simps [of f st pos s]\<close>)
qed

lemma rest_loop_keeps:
  assumes "rest_loop f st pos buf left = Inr st'" and "I st"
    and "\<And>st cp pos len. I st \<Longrightarrow> 0 < len \<Longrightarrow> I (fst (f st cp pos len))"
  shows "I st'"
  using assms
proof (induction f st pos buf left rule: rest_loop.induct)
  case (1 f st pos buf left)
  from 1(2) obtain st1 r1 where d: "decode_at f st buf pos = Inr (st1, r1)"
    and r: "(case r1 of None \<Rightarrow> Inr st1
      | Some len \<Rightarrow> if len < left then rest_loop f st1 (pos + len) (drop len buf) (left - len) else Inr st1) = Inr st'"
    by (auto simp: rest_loop.simps [of f st pos buf left])
  have "I st1" by (rule decode_at_keeps [OF d 1(3) 1(4)])
  with r 1(1) [OF d refl] 1(4) show ?case by (auto split: option.splits if_splits)
qed

lemma for_each_keeps:
  assumes "for_each_codepoint f st s = Inr st'" and "I st"
    and "\<And>st cp pos len. I st \<Longrightarrow> 0 < len \<Longrightarrow> I (fst (f st cp pos len))"
  shows "I st'"
proof -
  from assms(1) obtain st1 r where b: "block_loop f st 0 s = Inr (st1, r)"
    by (auto simp: for_each_codepoint_def)
  have "I st1" by (rule block_loop_keeps [OF b assms(2,3)])
  show ?thesis
  proof (cases "\<exists>pos rest. r = Some (pos, rest) \<and> rest \<noteq> []")
    case True
    then obtain pos rest where "r = Some (pos, rest)" "rest \<noteq> []" by blast
    with assms(1) b have
      "rest_loop f st1 pos (rest @ replicate (7 - length rest) CHR 0x00) (length rest mod 4) = Inr st'"
      by (simp add: for_each_codepoint_def)
    then show ?thesis using \<open>I st1\<close> assms(3) by (rule rest_loop_keeps)
  next
    case False
    with assms(1) b \<open>I st1\<close> show ?thesis by (auto simp: for_each_codepoint_def split: option.splits)
  qed
qed

lemma find_escape_end: "find_escape s = Inr (Some (b, e, cp)) \<Longrightarrow> b < e"
  unfolding find_escape_def
  by (drule for_each_keeps [where I = "\<lambda>r. case r of None \<Rightarrow> True | Some (b, e, cp) \<Rightarrow> b < e"]) auto

section \<open>Escaped strings and characters\<close>

text \<open>The loop over what is left of the string.\<close>

function escape_loop :: "string \<Rightarrow> string res" where
  "escape_loop s =
     bindR (find_escape s) (\<lambda>r.
       case r of
         None \<Rightarrow> Inr s
       | Some (b, e, cp) \<Rightarrow>
           bindR (write_escaped_cp (take (e - b) (drop b s)) cp) (\<lambda>t.
             if drop e s = [] then Inr (take b s @ t)
             else bindR (escape_loop (drop e s)) (\<lambda>ts. Inr (take b s @ t @ ts))))"
  by pat_completeness auto
termination
  by (relation "measure length") (auto dest: find_escape_end)

declare escape_loop.simps [simp del]

definition write_escaped_string :: "string \<Rightarrow> string res" where
  "write_escaped_string s = bindR (escape_loop s) (\<lambda>t. Inr (CHR 0x22 # t @ [CHR 0x22]))"

text \<open>A \<open>char\<close> is signed, so a byte over 127 becomes a huge code point.\<close>

definition signed_code :: "char \<Rightarrow> nat" where
  "signed_code c = (if 128 \<le> (of_char c :: nat) then 2 ^ 32 - 256 + of_char c else of_char c)"

definition write_escaped_char :: "char \<Rightarrow> string res" where
  "write_escaped_char v =
     bindR (if (needs_escape (signed_code v) \<and> v \<noteq> CHR 0x22) \<or> v = CHR 0x27
            then write_escaped_cp [v] (signed_code v) else Inr [v])
       (\<lambda>t. Inr (CHR 0x27 # t @ [CHR 0x27]))"

end
