(* ===== verification/Utf8Text.thy ===== *)
theory Utf8Text
  imports FmtUtf8
begin

text \<open>
  UTF-8 as a specification: the encoding of a code point and of a list of them. The decoder of FmtUtf8 inverts
  it, so on an encoded text the loop calls back with exactly the code points, at their positions; the width and
  the n-th position are those of the list.
\<close>

section \<open>The encoding\<close>

definition utf8_encode :: "nat \<Rightarrow> string" where
  "utf8_encode cp =
     (if cp < 0x80 then [char_of cp]
      else if cp < 0x800 then [char_of (0xC0 + cp div 64), char_of (0x80 + cp mod 64)]
      else if cp < 0x10000
      then [char_of (0xE0 + cp div 4096), char_of (0x80 + cp div 64 mod 64), char_of (0x80 + cp mod 64)]
      else [char_of (0xF0 + cp div 262144), char_of (0x80 + cp div 4096 mod 64), char_of (0x80 + cp div 64 mod 64),
            char_of (0x80 + cp mod 64)])"

definition scalar_value :: "nat \<Rightarrow> bool" where
  "scalar_value cp \<longleftrightarrow> cp \<le> 0x10FFFF \<and> \<not> (0xD800 \<le> cp \<and> cp \<le> 0xDFFF)"

definition utf8_text :: "nat list \<Rightarrow> string" where
  "utf8_text cps = concat (map utf8_encode cps)"

lemma utf8_encode_length: "0 < length (utf8_encode cp)" "length (utf8_encode cp) \<le> 4"
  by (simp_all add: utf8_encode_def)

section \<open>The decoder inverts it\<close>

lemma or_shift: "b < 2 ^ k \<Longrightarrow> push_bit k a OR b = a * 2 ^ k + (b :: nat)"
proof -
  assume "b < 2 ^ k"
  then have b: "take_bit k b = b" by (simp add: take_bit_nat_eq_self)
  have "push_bit k a AND b = 0"
  proof (rule bit_eqI)
    fix n
    have "bit b n \<Longrightarrow> n < k" using b by (metis bit_take_bit_iff)
    then show "bit (push_bit k a AND b) n = bit 0 n" by (auto simp: bit_simps)
  qed
  then show ?thesis using disjunctive_add_eq_or [of "push_bit k a" b] by (simp add: push_bit_eq_mult)
qed

lemma and_masks:
  "n AND 0x3F = n mod (64::nat)" "n AND 0x7F = n mod (128::nat)" "n AND 0x1F = n mod (32::nat)"
  "n AND 0x0F = n mod (16::nat)" "n AND 0x07 = n mod (8::nat)"
  using take_bit_eq_mask [of 6 n] take_bit_eq_mask [of 7 n] take_bit_eq_mask [of 5 n]
    take_bit_eq_mask [of 4 n] take_bit_eq_mask [of 3 n]
  by (simp_all add: take_bit_eq_mod mask_eq_exp_minus_1)

lemma join_bytes:
  fixes a b c d :: nat
  assumes "b < 64" "c < 64" "d < 64"
  shows "push_bit 18 a OR push_bit 12 b OR push_bit 6 c OR d = a * 262144 + b * 4096 + c * 64 + d"
proof -
  have "push_bit 6 c OR d = c * 64 + d" using or_shift [of d 6 c] assms by simp
  moreover have "push_bit 12 b OR (c * 64 + d) = b * 4096 + (c * 64 + d)"
    using or_shift [of "c * 64 + d" 12 b] assms by simp
  moreover have "push_bit 18 a OR (b * 4096 + (c * 64 + d)) = a * 262144 + (b * 4096 + (c * 64 + d))"
    using or_shift [of "b * 4096 + (c * 64 + d)" 18 a] assms by simp
  ultimately show ?thesis by (simp only: or.assoc add.assoc)
qed

lemma utf8_codes:
  assumes "b0 < 128"
  shows "utf8_code 1 b0 b1 b2 b3 = b0"
    and "utf8_code 2 c0 b1 b2 b3 = c0 mod 32 * 64 + b1 mod 64"
    and "utf8_code 3 c0 b1 b2 b3 = c0 mod 16 * 4096 + b1 mod 64 * 64 + b2 mod 64"
    and "utf8_code 4 c0 b1 b2 b3 = c0 mod 8 * 262144 + b1 mod 64 * 4096 + b2 mod 64 * 64 + b3 mod 64"
proof -
  have j: "push_bit 18 a OR push_bit 12 (b1 mod 64) OR push_bit 6 (b2 mod 64) OR b3 mod 64 =
      a * 262144 + (b1 mod 64 * 4096 + b2 mod 64 * 64 + b3 mod 64)" for a
    using join_bytes [of "b1 mod 64" "b2 mod 64" "b3 mod 64" a] by simp
  have l: "b1 mod 64 < 64" "b2 mod 64 < 64" "b3 mod 64 < 64" by simp_all
  show "utf8_code 1 b0 b1 b2 b3 = b0"
    unfolding utf8_code_def and_masks using assms l
    by (simp only: j drop_bit_eq_div nth_Cons_0 nth_Cons_numeral One_nat_def nth_Cons_Suc and_masks) simp
  show "utf8_code 2 c0 b1 b2 b3 = c0 mod 32 * 64 + b1 mod 64"
    unfolding utf8_code_def and_masks using l
    by (simp add: j drop_bit_eq_div and_masks del: drop_bit_or)
  show "utf8_code 3 c0 b1 b2 b3 = c0 mod 16 * 4096 + b1 mod 64 * 64 + b2 mod 64"
    unfolding utf8_code_def and_masks using l
    by (simp add: j drop_bit_eq_div and_masks del: drop_bit_or)
  show "utf8_code 4 c0 b1 b2 b3 = c0 mod 8 * 262144 + b1 mod 64 * 4096 + b2 mod 64 * 64 + b3 mod 64"
    unfolding utf8_code_def and_masks using l
    by (simp add: j and_masks del: drop_bit_or)
qed

lemma tail_table:
  "list_all (\<lambda>y. (128 + y) AND 0xC0 = (128::nat) \<and> drop_bit 6 (128 + y) = (2::nat) \<and> (128 + y) mod 64 = y) [0..<64]"
  by (simp add: upt_rec)

lemma tail_byte:
  assumes "y < 64"
  shows "(128 + y) AND 0xC0 = (128::nat)" and "drop_bit 6 (128 + y) = (2::nat)" and "(128 + y) mod 64 = y"
  using tail_table assms by (simp_all add: list_all_iff)

lemma byte_top: "x AND 0xC0 < (256::nat)"
proof -
  have c: "take_bit 8 0xC0 = (0xC0 :: nat)" by simp
  have "take_bit 8 (x AND 0xC0) = x AND 0xC0"
  proof (rule bit_eqI)
    fix n
    have "bit (0xC0 :: nat) n \<Longrightarrow> n < 8" by (metis c bit_take_bit_iff)
    then show "bit (take_bit 8 (x AND 0xC0)) n = bit (x AND 0xC0) n" by (auto simp only: bit_take_bit_iff bit_and_iff)
  qed
  then show ?thesis using take_bit_nat_less_exp [of 8 "x AND 0xC0"] by simp
qed

lemma top_bits_gone:
  "drop_bit 8 (x AND 0xC0) = (0::nat)" "drop_bit 10 (x AND 0xC0) = (0::nat)" "x < 256 \<Longrightarrow> drop_bit 8 x = (0::nat)"
  "x < 256 \<Longrightarrow> drop_bit 10 x = (0::nat)" "x < 256 \<Longrightarrow> drop_bit 12 x = (0::nat)"
  using byte_top [of x] by (simp_all add: drop_bit_eq_div del: drop_bit_and)

lemma no_conditions:
  assumes "[4194304, 0, 128, 2048, 65536] ! len \<le> c" and "scalar_value c"
  shows "utf8_error len c b1 b2 b3 =
    drop_bit ([0, 6, 4, 2, 0] ! len) ((drop_bit 2 (b1 AND 0xC0) OR drop_bit 4 (b2 AND 0xC0) OR drop_bit 6 b3) XOR 0x2a)"
proof -
  have "drop_bit 11 c \<noteq> 0x1b"
  proof
    assume "drop_bit 11 c = 0x1b"
    then have "c div 2048 = 27" by (simp add: drop_bit_eq_div)
    then have "0xD800 \<le> c \<and> c \<le> 0xDFFF" by auto
    with assms(2) show False by (simp add: scalar_value_def)
  qed
  with assms show ?thesis by (simp add: utf8_error_def scalar_value_def)
qed

lemma utf8_errors:
  assumes "scalar_value c" and b: "y1 < 64" "y2 < 64" "y3 < 64" and x: "x1 < 256" "x2 < 256" "x3 < 256"
  shows "c < 0x80 \<Longrightarrow> utf8_error 1 c x1 x2 x3 = 0"
    and "0x80 \<le> c \<Longrightarrow> utf8_error 2 c (128 + y1) x2 x3 = 0"
    and "0x800 \<le> c \<Longrightarrow> utf8_error 3 c (128 + y1) (128 + y2) x3 = 0"
    and "0x10000 \<le> c \<Longrightarrow> utf8_error 4 c (128 + y1) (128 + y2) (128 + y3) = 0"
proof -
  note n = no_conditions [OF _ assms(1)]
  note t = tail_byte [OF b(1)] tail_byte [OF b(2)] tail_byte [OF b(3)] top_bits_gone
  show "c < 0x80 \<Longrightarrow> utf8_error 1 c x1 x2 x3 = 0" by (simp add: n t x del: drop_bit_and)
  show "0x80 \<le> c \<Longrightarrow> utf8_error 2 c (128 + y1) x2 x3 = 0" by (simp add: n t x del: drop_bit_and)
  show "0x800 \<le> c \<Longrightarrow> utf8_error 3 c (128 + y1) (128 + y2) x3 = 0" by (simp add: n t x del: drop_bit_and)
  show "0x10000 \<le> c \<Longrightarrow> utf8_error 4 c (128 + y1) (128 + y2) (128 + y3) = 0" by (simp add: n t x del: drop_bit_and)
qed

lemma utf8_length_table:
  "i < 16 \<Longrightarrow> utf8_lengths ! i = 1" "24 \<le> i \<Longrightarrow> i < 28 \<Longrightarrow> utf8_lengths ! i = 2"
  "28 \<le> i \<Longrightarrow> i < 30 \<Longrightarrow> utf8_lengths ! i = 3" "utf8_lengths ! 30 = 4"
proof -
  have "list_all (\<lambda>i. utf8_lengths ! i = (if i < 16 then 1 else if i < 24 then 0 else if i < 28 then 2
      else if i < 30 then 3 else if i = 30 then 4 else 0)) [0..<32]"
    by (simp add: upt_rec utf8_lengths_def numeral_eq_Suc)
  then show "i < 16 \<Longrightarrow> utf8_lengths ! i = 1" "24 \<le> i \<Longrightarrow> i < 28 \<Longrightarrow> utf8_lengths ! i = 2"
    "28 \<le> i \<Longrightarrow> i < 30 \<Longrightarrow> utf8_lengths ! i = 3" "utf8_lengths ! 30 = 4"
    by (simp_all add: list_all_iff)
qed

lemma byte_of [simp]: "n < 256 \<Longrightarrow> of_char (char_of n :: char) = (n :: nat)"
  by (simp add: of_char_of)

lemma lead_byte:
  "x < 32 \<Longrightarrow> (192 + x) mod 32 = (x::nat)" "x < 16 \<Longrightarrow> (224 + x) mod 16 = (x::nat)" "x < 8 \<Longrightarrow> (240 + x) mod 8 = (x::nat)"
  by (intro mod_nat_eqI; simp)+

lemma split64:
  fixes n :: nat
  shows "n div 64 * 64 + n mod 64 = n"
    and "n div 4096 * 4096 + n div 64 mod 64 * 64 + n mod 64 = n"
    and "n div 262144 * 262144 + n div 4096 mod 64 * 4096 + n div 64 mod 64 * 64 + n mod 64 = n"
proof -
  have d: "n div 4096 = n div 64 div 64" "n div 262144 = n div 64 div 64 div 64" by (simp_all flip: div_mult2_eq)
  show "n div 64 * 64 + n mod 64 = n" by simp
  show "n div 4096 * 4096 + n div 64 mod 64 * 64 + n mod 64 = n"
    using div_mult_mod_eq [of n 64] div_mult_mod_eq [of "n div 64" 64] unfolding d by linarith
  show "n div 262144 * 262144 + n div 4096 mod 64 * 4096 + n div 64 mod 64 * 64 + n mod 64 = n"
    using div_mult_mod_eq [of n 64] div_mult_mod_eq [of "n div 64" 64] div_mult_mod_eq [of "n div 64 div 64" 64]
    unfolding d by linarith
qed

lemma utf8_decode_encode:
  assumes cp: "scalar_value cp" and l: "4 \<le> length (utf8_encode cp @ post)"
  shows "utf8_decode (utf8_encode cp @ post) = Inr (cp, 0, length (utf8_encode cp))"
proof -
  have m: "cp \<le> 0x10FFFF" using cp by (simp add: scalar_value_def)
  let ?s = "utf8_encode cp @ post"
  have u: "utf8_decode ?s =
      (let len = utf8_lengths ! (of_char (?s ! 0) div 8);
           c = utf8_code len (of_char (?s ! 0)) (of_char (?s ! 1)) (of_char (?s ! 2)) (of_char (?s ! 3))
       in Inr (c, utf8_error len c (of_char (?s ! 1)) (of_char (?s ! 2)) (of_char (?s ! 3)), len + (if len = 0 then 1 else 0)))"
    using l by (simp add: utf8_decode_def)
  consider "cp < 0x80" | "0x80 \<le> cp" "cp < 0x800" | "0x800 \<le> cp" "cp < 0x10000" | "0x10000 \<le> cp" by linarith
  then show ?thesis
  proof cases
    case 1
    then have len: "utf8_lengths ! (cp div 8) = 1" by (simp add: utf8_length_table)
    have b0: "(of_char (?s ! 0) :: nat) = cp" using 1 by (simp add: utf8_encode_def)
    have "utf8_error 1 cp (of_char (?s ! 1)) (of_char (?s ! 2)) (of_char (?s ! 3)) = 0"
      using utf8_errors(1) [OF cp, of 0 0 0] 1 by simp
    moreover have "length (utf8_encode cp) = 1" using 1 by (simp add: utf8_encode_def)
    ultimately show ?thesis unfolding u by (simp only: Let_def b0 len utf8_codes(1) [OF 1 [simplified]]) simp
  next
    case 2
    have b: "(of_char (?s ! 0) :: nat) = 192 + cp div 64" "(of_char (?s ! 1) :: nat) = 128 + cp mod 64"
      using 2 by (simp_all add: utf8_encode_def)
    have "utf8_lengths ! ((192 + cp div 64) div 8) = 2" using 2 by (intro utf8_length_table) auto
    moreover have "utf8_code 2 (192 + cp div 64) (128 + cp mod 64) b2 b3 = cp" for b2 b3
    proof -
      have "cp div 64 < 32" using 2 by (simp add: div_less_iff_less_mult)
      then have "(192 + cp div 64) mod 32 = cp div 64" by (rule lead_byte)
      then show ?thesis by (simp add: utf8_codes [of 0] tail_byte)
    qed
    moreover have "utf8_error 2 cp (128 + cp mod 64) (of_char (?s ! 2)) (of_char (?s ! 3)) = 0"
      using utf8_errors(2) [OF cp, of "cp mod 64" 0 0 0] 2 by simp
    ultimately show ?thesis unfolding u b using 2 by (simp add: utf8_encode_def)
  next
    case 3
    have b: "(of_char (?s ! 0) :: nat) = 224 + cp div 4096" "(of_char (?s ! 1) :: nat) = 128 + cp div 64 mod 64"
      "(of_char (?s ! 2) :: nat) = 128 + cp mod 64"
      using 3 by (simp_all add: utf8_encode_def)
    have "utf8_lengths ! ((224 + cp div 4096) div 8) = 3" using 3 by (intro utf8_length_table) auto
    moreover have "utf8_code 3 (224 + cp div 4096) (128 + cp div 64 mod 64) (128 + cp mod 64) b3 = cp" for b3
    proof -
      have "cp div 4096 < 16" using 3 by (simp add: div_less_iff_less_mult)
      then have "(224 + cp div 4096) mod 16 = cp div 4096" by (rule lead_byte)
      moreover have "cp div 4096 * 4096 + cp div 64 mod 64 * 64 + cp mod 64 = cp" by (rule split64)
      ultimately show ?thesis by (simp add: utf8_codes [of 0] tail_byte)
    qed
    moreover have "utf8_error 3 cp (128 + cp div 64 mod 64) (128 + cp mod 64) (of_char (?s ! 3)) = 0"
      using utf8_errors(3) [OF cp, of "cp div 64 mod 64" "cp mod 64" 0 0 0] 3 by simp
    ultimately show ?thesis unfolding u b using 3 by (simp add: utf8_encode_def)
  next
    case 4
    have b: "(of_char (?s ! 0) :: nat) = 240 + cp div 262144" "(of_char (?s ! 1) :: nat) = 128 + cp div 4096 mod 64"
      "(of_char (?s ! 2) :: nat) = 128 + cp div 64 mod 64" "(of_char (?s ! 3) :: nat) = 128 + cp mod 64"
      using 4 m by (simp_all add: utf8_encode_def)
    have "cp div 262144 \<le> 4" using m div_le_mono [of cp "0x10FFFF" 262144] by simp
    then have "(240 + cp div 262144) div 8 = 30" by (intro div_nat_eqI) simp_all
    then have "utf8_lengths ! ((240 + cp div 262144) div 8) = 4" by (simp add: utf8_length_table)
    moreover have "utf8_code 4 (240 + cp div 262144) (128 + cp div 4096 mod 64) (128 + cp div 64 mod 64) (128 + cp mod 64) = cp"
    proof -
      have "cp div 262144 < 8" using 4 m by (simp add: div_less_iff_less_mult)
      then have "(240 + cp div 262144) mod 8 = cp div 262144" by (rule lead_byte)
      moreover have "cp div 262144 * 262144 + cp div 4096 mod 64 * 4096 + cp div 64 mod 64 * 64 + cp mod 64 = cp"
        by (rule split64)
      ultimately show ?thesis by (simp add: utf8_codes [of 0] tail_byte)
    qed
    moreover have "utf8_error 4 cp (128 + cp div 4096 mod 64) (128 + cp div 64 mod 64) (128 + cp mod 64) = 0"
      using utf8_errors(4) [OF cp, of "cp div 4096 mod 64" "cp div 64 mod 64" "cp mod 64" 0 0 0] 4 by simp
    ultimately show ?thesis unfolding u b using 4 by (simp add: utf8_encode_def)
  qed
qed

section \<open>The loop visits the code points\<close>

fun visit :: "('s \<Rightarrow> nat \<Rightarrow> nat \<Rightarrow> nat \<Rightarrow> 's \<times> bool) \<Rightarrow> 's \<Rightarrow> nat \<Rightarrow> nat list \<Rightarrow> 's" where
  "visit f st pos [] = st"
| "visit f st pos (cp # cps) =
     (let (st, go) = f st cp pos (length (utf8_encode cp))
      in if go then visit f st (pos + length (utf8_encode cp)) cps else st)"

lemma utf8_text_simps [simp]: "utf8_text [] = []" "utf8_text (cp # cps) = utf8_encode cp @ utf8_text cps"
  by (simp_all add: utf8_text_def)

lemma utf8_text_Nil [simp]: "utf8_text cps = [] \<longleftrightarrow> cps = []"
  using utf8_encode_length(1) by (cases cps) auto

lemma decode_at_encode:
  assumes "scalar_value cp" and "4 \<le> length (utf8_encode cp @ post)"
  shows "decode_at f st (utf8_encode cp @ post) pos =
    (let (st, go) = f st cp pos (length (utf8_encode cp)) in Inr (st, if go then Some (length (utf8_encode cp)) else None))"
  by (simp add: decode_at_def utf8_decode_encode [OF assms])

lemma block_loop_text:
  assumes "list_all scalar_value cps"
  shows "(\<exists>st' pos' rest. block_loop f st pos (utf8_text cps) = Inr (st', Some (pos', utf8_text rest)) \<and>
      length (utf8_text rest) < 4 \<and> list_all scalar_value rest \<and> visit f st pos cps = visit f st' pos' rest) \<or>
    block_loop f st pos (utf8_text cps) = Inr (visit f st pos cps, None)"
  using assms
proof (induction cps arbitrary: st pos)
  case Nil
  then show ?case by (auto simp: block_loop.simps [of f st pos] intro!: exI [of _ "[]"])
next
  case (Cons cp cps)
  show ?case
  proof (cases "length (utf8_text (cp # cps)) < 4")
    case True
    then have "block_loop f st pos (utf8_text (cp # cps)) = Inr (st, Some (pos, utf8_text (cp # cps)))"
      by (simp add: block_loop.simps)
    with True Cons.prems show ?thesis by blast
  next
    case False
    obtain st1 go where f: "f st cp pos (length (utf8_encode cp)) = (st1, go)" by fastforce
    have "decode_at f st (utf8_text (cp # cps)) pos = Inr (st1, if go then Some (length (utf8_encode cp)) else None)"
      using False Cons.prems f by (simp add: decode_at_encode)
    with False f Cons.IH [of st1 "pos + length (utf8_encode cp)"] Cons.prems show ?thesis
      by (cases go) (simp_all add: block_loop.simps [of f st pos "utf8_encode cp @ utf8_text cps"])
  qed
qed

lemma rest_loop_text:
  assumes "list_all scalar_value cps" and "cps \<noteq> []" and "4 \<le> length z"
  shows "rest_loop f st pos (utf8_text cps @ z) (length (utf8_text cps)) = Inr (visit f st pos cps)"
  using assms
proof (induction cps arbitrary: st pos)
  case (Cons cp cps)
  obtain st1 go where f: "f st cp pos (length (utf8_encode cp)) = (st1, go)" by fastforce
  have "decode_at f st (utf8_encode cp @ (utf8_text cps @ z)) pos = Inr (st1, if go then Some (length (utf8_encode cp)) else None)"
    using Cons.prems f by (subst decode_at_encode) simp_all
  with f Cons show ?case
    by (cases go; cases "cps = []") (simp_all add: rest_loop.simps [of f st pos "utf8_encode cp @ z"]
        rest_loop.simps [of f st pos "utf8_encode cp @ utf8_text cps @ z"])
qed simp

lemma for_each_codepoint_text:
  assumes "list_all scalar_value cps"
  shows "for_each_codepoint f st (utf8_text cps) = Inr (visit f st 0 cps)"
proof -
  from block_loop_text [OF assms, of f st 0] show ?thesis
  proof
    assume "\<exists>st' pos' rest. block_loop f st 0 (utf8_text cps) = Inr (st', Some (pos', utf8_text rest)) \<and>
      length (utf8_text rest) < 4 \<and> list_all scalar_value rest \<and> visit f st 0 cps = visit f st' pos' rest"
    then obtain st' pos' rest where b: "block_loop f st 0 (utf8_text cps) = Inr (st', Some (pos', utf8_text rest))"
      and r: "length (utf8_text rest) < 4" "list_all scalar_value rest" "visit f st 0 cps = visit f st' pos' rest" by blast
    show ?thesis
    proof (cases "rest = []")
      case False
      have "rest_loop f st' pos' (utf8_text rest @ replicate (7 - length (utf8_text rest)) CHR 0x00) (length (utf8_text rest)) =
          Inr (visit f st' pos' rest)"
        using r False by (intro rest_loop_text) auto
      with b r False show ?thesis by (simp add: for_each_codepoint_def)
    qed (use b r in \<open>simp add: for_each_codepoint_def\<close>)
  qed (simp add: for_each_codepoint_def)
qed

section \<open>Width and position\<close>

definition display_width :: "nat list \<Rightarrow> nat" where
  "display_width cps = sum_list (map (\<lambda>cp. if is_wide cp then 2 else 1) cps)"

lemma compute_width_text:
  assumes "list_all scalar_value cps"
  shows "compute_width (utf8_text cps) = Inr (display_width cps)"
proof -
  have "visit (\<lambda>count cp pos len. (count + 1 + (if is_wide cp then 1 else 0), True)) n pos cps = n + display_width cps"
    for n pos by (induction cps arbitrary: n pos) (simp_all add: display_width_def)
  with assms show ?thesis by (simp add: compute_width_def for_each_codepoint_text)
qed

lemma code_point_index_text:
  assumes "list_all scalar_value cps"
  shows "code_point_index (utf8_text cps) n = Inr (length (utf8_text (take n cps)))"
proof -
  define f where "f = (\<lambda>(n :: nat, result :: nat) (cp :: nat) (pos :: nat) (len :: nat).
    if n \<noteq> 0 then ((n - 1, result), True) else ((n, pos), False))"
  have "snd (visit f (n, m) pos cps) = (if length cps \<le> n then m else pos + length (utf8_text (take n cps)))" for n m pos
  proof (induction cps arbitrary: n pos)
    case (Cons cp cps)
    then show ?case by (cases n) (auto simp: f_def)
  qed simp
  from this [of n "length (utf8_text cps)" 0] have "snd (visit f (n, length (utf8_text cps)) 0 cps) = length (utf8_text (take n cps))"
    by simp
  moreover have "code_point_index (utf8_text cps) n = bindR (for_each_codepoint f (n, length (utf8_text cps)) (utf8_text cps)) (\<lambda>(n, result). Inr result)"
    by (simp only: code_point_index_def f_def)
  ultimately show ?thesis by (simp add: for_each_codepoint_text [OF assms] case_prod_unfold)
qed

text \<open>ASCII texts are their own code points.\<close>

definition ascii_text :: "string \<Rightarrow> bool" where
  "ascii_text s \<longleftrightarrow> list_all (\<lambda>c. of_char c < (128::nat)) s"

lemma ascii_codes:
  "ascii_text s \<Longrightarrow> utf8_text (map of_char s) = s \<and> list_all scalar_value (map of_char s)"
  by (induction s) (auto simp: ascii_text_def utf8_encode_def scalar_value_def)

lemma ascii_width: "ascii_text s \<Longrightarrow> compute_width s = Inr (length s)"
proof -
  assume s: "ascii_text s"
  then have "display_width (map of_char s) = length s"
    by (induction s) (auto simp: ascii_text_def display_width_def is_wide_def)
  with compute_width_text [of "map of_char s"] ascii_codes [OF s] show ?thesis by simp
qed

lemma ascii_index: "ascii_text s \<Longrightarrow> code_point_index s n = Inr (min n (length s))"
proof -
  assume s: "ascii_text s"
  then have "ascii_text (take n s)" by (auto simp: ascii_text_def list_all_iff dest: in_set_takeD)
  with code_point_index_text [of "map of_char s" n] ascii_codes [OF s] ascii_codes [of "take n s"] show ?thesis
    by (simp add: take_map [symmetric])
qed

end
