(* ===== verification/FmtWrite.thy ===== *)
theory FmtWrite
  imports FmtParse Utf8Text
begin

text \<open>
  Writing one argument by its specifiers (\<open>fmt/bundled/format.h\<close>): fill and padding, integers with sign, base
  prefix and zero padding, characters, booleans, strings measured in code points, pointers. What the code appends
  to its buffer is the result. Widths are never negative, so \<open>to_unsigned\<close> is \<open>nat\<close>.
\<close>

section \<open>Padding\<close>

definition fill_text :: "nat \<Rightarrow> 'a basic_specs_scheme \<Rightarrow> string" where
  "fill_text n specs =
     (if fill_size specs = 1 then replicate n (fill_unit specs)
      else concat (replicate n (take (fill_size specs) (fill_data specs))))"

text \<open>The shifts are a string literal; an alignment of \<open>numeric\<close> finds its terminating null.\<close>

definition padding_shifts :: "bool \<Rightarrow> nat list" where
  "padding_shifts default_right = (if default_right then [0x00, 0x1f, 0x00, 0x01, 0] else [0x1f, 0x1f, 0x00, 0x01, 0])"

definition write_padded :: "bool \<Rightarrow> 'a format_specs_scheme \<Rightarrow> nat \<Rightarrow> string \<Rightarrow> string" where
  "write_padded default_right specs width body =
     (let spec_width = nat (specs_width specs);
          padding = (if width < spec_width then spec_width - width else 0);
          left_padding = drop_bit (padding_shifts default_right ! unat (align_code (spec_align specs))) padding;
          right_padding = padding - left_padding
      in (if left_padding \<noteq> 0 then fill_text left_padding specs else []) @ body @
         (if right_padding \<noteq> 0 then fill_text right_padding specs else []))"

definition write_bytes :: "bool \<Rightarrow> string \<Rightarrow> 'a format_specs_scheme \<Rightarrow> string" where
  "write_bytes default_right bytes specs = write_padded default_right specs (length bytes) bytes"

section \<open>Characters\<close>

definition write_char :: "char \<Rightarrow> 'a format_specs_scheme \<Rightarrow> string res" where
  "write_char v specs =
     bindR (if spec_type specs = pres_debug then write_escaped_char v else Inr [v])
       (\<lambda>body. Inr (write_padded False specs 1 body))"

definition check_char_specs :: "'a basic_specs_scheme \<Rightarrow> bool res" where
  "check_char_specs specs =
     (if spec_type specs \<notin> {pres_none, pres_chr, pres_debug} then Inr False
      else if spec_align specs = align_numeric \<or> spec_sign specs \<noteq> sign_none \<or> spec_alt specs
      then Inl (FormatError ''invalid format specifier for char'')
      else Inr True)"

section \<open>Integers\<close>

text \<open>The prefix has its characters in the lower three bytes, the first one lowest, and their number in the fourth.\<close>

definition prefix_append :: "u32 \<Rightarrow> u32 \<Rightarrow> u32" where
  "prefix_append prefix v =
     (prefix OR (if prefix \<noteq> 0 then push_bit 8 v else v)) + push_bit 24 (1 + (if 0xff < v then 1 else 0))"

function prefix_chars :: "u32 \<Rightarrow> string" where
  "prefix_chars p = (if p = 0 then [] else char_of (unat (p AND 0xff)) # prefix_chars (drop_bit 8 p))"
  by pat_completeness auto
termination
proof (relation "measure unat", goal_cases)
  case (2 p)
  then have "unat p div 256 < unat p" by (intro div_less_dividend) (auto simp: unat_gt_0)
  then show ?case by (simp add: unat_drop_bit_eq unat_div drop_bit_eq_div)
qed simp

declare prefix_chars.simps [simp del]

text \<open>The absolute value, as an unsigned integer of the same width, and the prefix of the sign.\<close>

definition make_write_int_arg :: "bool \<Rightarrow> 'a::len word \<Rightarrow> sign \<Rightarrow> nat \<times> u32" where
  "make_write_int_arg is_signed v s =
     (if is_signed \<and> sint v < 0 then (unat (0 - v), 0x01000000 OR 0x2D)
      else (unat v, [0, 0, 0x1000000 OR 0x2B, 0x1000000 OR 0x20] ! unat (sign_code s)))"

text \<open>The digits in a buffer of \<open>w\<close> characters, with the base prefix appended to \<open>prefix\<close>.\<close>

definition int_digits :: "nat \<Rightarrow> nat \<Rightarrow> u32 \<Rightarrow> 'a format_specs_scheme \<Rightarrow> (string \<times> u32) res" where
  "int_digits w abs_value prefix specs =
     (let buffer = replicate w (CHR 0x00); ty = spec_type specs; upper = spec_upper specs
      in if ty = pres_none \<or> ty = pres_dec
         then bindR (format_decimal_by (count_digits w) buffer abs_value w) (\<lambda>(pos, buf). Inr (drop pos buf, prefix))
         else if ty = pres_hex
         then bindR (do_format_base2e 4 buffer abs_value w upper) (\<lambda>(pos, buf). Inr (drop pos buf,
           if spec_alt specs then prefix_append prefix (push_bit 8 (if upper then 0x58 else 0x78) OR 0x30) else prefix))
         else if ty = pres_oct
         then bindR (do_format_base2e 3 buffer abs_value w False) (\<lambda>(pos, buf).
           let num_digits = w - pos
           in Inr (drop pos buf,
             if spec_alt specs \<and> specs_precision specs \<le> int num_digits \<and> abs_value \<noteq> 0
             then prefix_append prefix 0x30 else prefix))
         else if ty = pres_bin
         then bindR (do_format_base2e 1 buffer abs_value w False) (\<lambda>(pos, buf). Inr (drop pos buf,
           if spec_alt specs then prefix_append prefix (push_bit 8 (if upper then 0x42 else 0x62) OR 0x30) else prefix))
         else Inl Aborted)"

definition size_padding :: "nat \<Rightarrow> u32 \<Rightarrow> 'a format_specs_scheme \<Rightarrow> nat \<times> nat" where
  "size_padding num_digits prefix specs =
     (let pre = unat (drop_bit 24 prefix); sz = pre + num_digits; width = nat (specs_width specs)
      in if spec_align specs = align_numeric
         then (if sz < width then (width, width - sz) else (sz, 0))
         else if int num_digits < specs_precision specs
         then (pre + nat (specs_precision specs), nat (specs_precision specs - int num_digits))
         else (sz, 0))"

definition write_int :: "nat \<Rightarrow> nat \<times> u32 \<Rightarrow> 'a format_specs_scheme \<Rightarrow> string res" where
  "write_int w arg specs =
     (if spec_type specs = pres_chr then write_char (char_of (fst arg)) specs
      else bindR (int_digits w (fst arg) (snd arg) specs) (\<lambda>(digits, prefix).
        let pre = prefix_chars (prefix AND 0xFFFFFF)
        in if specs_width specs OR (specs_precision specs + 1) = 0 then Inr (pre @ digits)
           else let (sz, padding) = size_padding (length digits) prefix specs
                in Inr (write_padded True specs sz (pre @ replicate padding CHR ''0'' @ digits))))"

text \<open>\<open>write(out, value)\<close> without specifiers.\<close>

definition write_default_int :: "nat \<Rightarrow> bool \<Rightarrow> 'a::len word \<Rightarrow> string res" where
  "write_default_int w is_signed v =
     (let negative = is_signed \<and> sint v < 0;
          abs_value = unat (if negative then NOT v + 1 else v);
          num_digits = count_digits w abs_value
      in bindR (format_decimal_by (count_digits w) (replicate num_digits (CHR 0x00)) abs_value num_digits) (\<lambda>(pos, buf).
           Inr ((if negative then [CHR ''-''] else []) @ buf)))"

section \<open>Pointers, booleans and strings\<close>

text \<open>\<open>count_digits<4>\<close>.\<close>

function count_hex_digits :: "nat \<Rightarrow> nat" where
  "count_hex_digits m = 1 + (if drop_bit 4 m \<noteq> 0 then count_hex_digits (drop_bit 4 m) else 0)"
  by pat_completeness auto
termination
proof (relation "measure id", goal_cases)
  case (2 m)
  then have "m div 16 < m" by (intro div_less_dividend) (auto intro: gr_zeroI)
  then show ?case by (simp add: drop_bit_eq_div)
qed simp

declare count_hex_digits.simps [simp del]

definition write_ptr :: "nat \<Rightarrow> 'a format_specs_scheme \<Rightarrow> string res" where
  "write_ptr v specs =
     (let num_digits = count_hex_digits v
      in bindR (do_format_base2e 4 (replicate num_digits (CHR 0x00)) v num_digits False) (\<lambda>(pos, buf).
           Inr (write_padded True specs (num_digits + 2) (''0x'' @ buf))))"

text \<open>The debug presentation writes the whole string, whatever the precision.\<close>

definition write_string :: "string \<Rightarrow> 'a format_specs_scheme \<Rightarrow> string res" where
  "write_string s specs =
     bindR (if 0 \<le> specs_precision specs \<and> nat (specs_precision specs) < length s
            then code_point_index s (nat (specs_precision specs)) else Inr (length s)) (\<lambda>sz.
     bindR (if spec_type specs = pres_debug then write_escaped_string s else Inr (take sz s)) (\<lambda>body.
     bindR (if specs_width specs = 0 then Inr 0
            else if spec_type specs = pres_debug then Inr (length body) else compute_width (take sz s)) (\<lambda>width.
       Inr (write_padded False specs width body))))"

section \<open>Arguments\<close>

text \<open>
  A string pointer is its address and the characters there. Formatting of floating-point numbers and of
  user-defined types is a parameter inside the argument: of a float its default text and its text by specifiers,
  of a custom argument a function of the remaining format string and the argument counter, which returns the
  text, how far it has read and the counter. The 128-bit types are left out.
\<close>

datatype fmt_arg =
    Int_arg "32 word"
  | Uint_arg "32 word"
  | Long_long_arg "64 word"
  | Ulong_long_arg "64 word"
  | Bool_arg bool
  | Char_arg char
  | Float_arg fmt_type string "format_specs \<Rightarrow> string"
  | Cstring_arg "64 word" string
  | String_arg string
  | Pointer_arg "64 word"
  | Custom_arg "string \<Rightarrow> int \<Rightarrow> (string \<times> nat \<times> int) res"

fun arg_type :: "fmt_arg \<Rightarrow> fmt_type" where
  "arg_type (Int_arg v) = int_type"
| "arg_type (Uint_arg v) = uint_type"
| "arg_type (Long_long_arg v) = long_long_type"
| "arg_type (Ulong_long_arg v) = ulong_long_type"
| "arg_type (Bool_arg v) = bool_type"
| "arg_type (Char_arg v) = char_type"
| "arg_type (Float_arg t d f) = t"
| "arg_type (Cstring_arg a s) = cstring_type"
| "arg_type (String_arg s) = string_type"
| "arg_type (Pointer_arg a) = pointer_type"
| "arg_type (Custom_arg f) = custom_type"

text \<open>
  \<open>arg_formatter\<close>. With \<open>L\<close> an integer is first offered to the locale, whose facet is the parameter \<open>loc\<close>:
  \<open>None\<close> is \<open>write_loc\<close> returning false.
\<close>

type_synonym write_loc = "fmt_arg \<Rightarrow> format_specs \<Rightarrow> string option"

definition write_localized ::
    "write_loc \<Rightarrow> fmt_arg \<Rightarrow> 'a format_specs_scheme \<Rightarrow> string res \<Rightarrow> string res" where
  "write_localized loc arg specs otherwise =
     (if spec_localized specs
      then (case loc arg (format_specs.truncate specs) of Some text \<Rightarrow> Inr text | None \<Rightarrow> otherwise)
      else otherwise)"

definition write_integer ::
    "write_loc \<Rightarrow> fmt_arg \<Rightarrow> nat \<Rightarrow> nat \<times> u32 \<Rightarrow> 'a format_specs_scheme \<Rightarrow> string res" where
  "write_integer loc arg w iarg specs = write_localized loc arg specs (write_int w iarg specs)"

definition write_bool :: "write_loc \<Rightarrow> bool \<Rightarrow> 'a format_specs_scheme \<Rightarrow> string res" where
  "write_bool loc v specs =
     (if spec_type specs \<noteq> pres_none \<and> spec_type specs \<noteq> pres_string
      then let i = (if v then 1 else 0 :: 32 word)
           in write_integer loc (Int_arg i) 32 (make_write_int_arg True i (spec_sign specs)) specs
      else Inr (write_bytes False (if v then ''true'' else ''false'') specs))"

text \<open>\<open>default_arg_formatter\<close>.\<close>

fun write_default :: "fmt_arg \<Rightarrow> string res" where
  "write_default (Int_arg v) = write_default_int 32 True v"
| "write_default (Uint_arg v) = write_default_int 32 False v"
| "write_default (Long_long_arg v) = write_default_int 64 True v"
| "write_default (Ulong_long_arg v) = write_default_int 64 False v"
| "write_default (Bool_arg v) = write_bool (\<lambda>a s. None) v default_specs"
| "write_default (Char_arg v) = Inr [v]"
| "write_default (Float_arg t d f) = Inr d"
| "write_default (Cstring_arg a s) = (if a \<noteq> 0 then Inr s else Inl (FormatError ''string pointer is null''))"
| "write_default (String_arg s) = Inr s"
| "write_default (Pointer_arg a) = write_ptr (unat a) default_specs"
| "write_default (Custom_arg f) = bindR (f [] 0) (\<lambda>(text, n, i). Inr text)"

text \<open>The visit of \<open>arg_formatter\<close>.\<close>

fun write_arg :: "write_loc \<Rightarrow> fmt_arg \<Rightarrow> 'a format_specs_scheme \<Rightarrow> string res" where
  "write_arg loc (Int_arg v) specs =
     write_integer loc (Int_arg v) 32 (make_write_int_arg True v (spec_sign specs)) specs"
| "write_arg loc (Uint_arg v) specs =
     write_integer loc (Uint_arg v) 32 (make_write_int_arg False v (spec_sign specs)) specs"
| "write_arg loc (Long_long_arg v) specs =
     write_integer loc (Long_long_arg v) 64 (make_write_int_arg True v (spec_sign specs)) specs"
| "write_arg loc (Ulong_long_arg v) specs =
     write_integer loc (Ulong_long_arg v) 64 (make_write_int_arg False v (spec_sign specs)) specs"
| "write_arg loc (Bool_arg v) specs = write_bool loc v specs"
| "write_arg loc (Char_arg v) specs =
     bindR (check_char_specs specs) (\<lambda>ok.
       if ok then write_char v specs
       else let u = of_nat (of_char v) :: 32 word
            in write_integer loc (Uint_arg u) 32 (make_write_int_arg False u (spec_sign specs)) specs)"
| "write_arg loc (Float_arg t d f) specs = Inr (f (format_specs.truncate specs))"
| "write_arg loc (Cstring_arg a s) specs =
     (if spec_type specs = pres_pointer then write_ptr (unat a) specs
      else if a = 0 then Inl (FormatError ''string pointer is null'')
      else write_string s specs)"
| "write_arg loc (String_arg s) specs = write_string s specs"
| "write_arg loc (Pointer_arg a) specs = write_ptr (unat a) specs"
| "write_arg loc (Custom_arg f) specs = Inr []"

end
