(* ===== verification/FmtFormat.thy ===== *)
theory FmtFormat
  imports FmtWrite
begin

text \<open>
  \<open>fmt::vformat_to\<close> (\<open>fmt/bundled/base.h\<close>, \<open>format.h\<close>, \<open>format-inl.h\<close>): the loop over the format string with its
  escapes and replacement fields, the choice of the argument, dynamic width and precision. The result is the text
  in the buffer, or the exception.
\<close>

section \<open>Arguments of a call\<close>

text \<open>\<open>basic_format_args\<close>: the arguments in order and the named ones with their index.\<close>

record fmt_args =
  arg_list :: "fmt_arg list"
  named_args :: "(string \<times> int) list"

definition get_arg :: "fmt_args \<Rightarrow> int \<Rightarrow> fmt_arg option" where
  "get_arg args i =
     (if 0 \<le> i \<and> i < int (length (arg_list args)) then Some (arg_list args ! nat i) else None)"

fun find_named :: "string \<Rightarrow> (string \<times> int) list \<Rightarrow> int" where
  "find_named name [] = -1"
| "find_named name ((n, i) # ns) = (if n = name then i else find_named name ns)"

definition get_named_id :: "fmt_args \<Rightarrow> string \<Rightarrow> int" where
  "get_named_id args name = find_named name (named_args args)"

definition get_named_arg :: "fmt_args \<Rightarrow> string \<Rightarrow> fmt_arg option" where
  "get_named_arg args name =
     (let i = get_named_id args name in if 0 \<le> i then get_arg args i else None)"

section \<open>Dynamic width and precision\<close>

definition not_integer :: "nat res" where
  "not_integer = Inl (FormatError ''width/precision is not integer'')"

text \<open>\<open>dynamic_spec_getter\<close>: a negative number becomes the largest one.\<close>

fun dynamic_spec_value :: "fmt_arg \<Rightarrow> nat res" where
  "dynamic_spec_value (Int_arg v) = Inr (if sint v < 0 then 2 ^ 64 - 1 else unat v)"
| "dynamic_spec_value (Uint_arg v) = Inr (unat v)"
| "dynamic_spec_value (Long_long_arg v) = Inr (if sint v < 0 then 2 ^ 64 - 1 else unat v)"
| "dynamic_spec_value (Ulong_long_arg v) = Inr (unat v)"
| "dynamic_spec_value (Bool_arg v) = not_integer"
| "dynamic_spec_value (Char_arg v) = not_integer"
| "dynamic_spec_value (Float_arg t d f) = not_integer"
| "dynamic_spec_value (Cstring_arg a s) = not_integer"
| "dynamic_spec_value (String_arg s) = not_integer"
| "dynamic_spec_value (Pointer_arg a) = not_integer"
| "dynamic_spec_value (Custom_arg f) = not_integer"

definition get_dynamic_spec :: "arg_id_kind \<Rightarrow> arg_ref \<Rightarrow> fmt_args \<Rightarrow> int res" where
  "get_dynamic_spec kind ref args =
     bindR (case (kind, ref) of
              (id_index, Ref_index i) \<Rightarrow> Inr (get_arg args i)
            | (id_name, Ref_name n) \<Rightarrow> Inr (get_named_arg args n)
            | _ \<Rightarrow> Inl OutOfBounds) (\<lambda>arg.
     case arg of
       None \<Rightarrow> Inl (FormatError ''argument not found'')
     | Some a \<Rightarrow> bindR (dynamic_spec_value a) (\<lambda>v.
         if int_max < v then Inl (FormatError ''width/precision is out of range'') else Inr (int v)))"

definition handle_dynamic_spec :: "arg_id_kind \<Rightarrow> int \<Rightarrow> arg_ref \<Rightarrow> fmt_args \<Rightarrow> int res" where
  "handle_dynamic_spec kind v ref args = (if kind \<noteq> id_none then get_dynamic_spec kind ref args else Inr v)"

definition resolve_dynamic :: "dynamic_format_specs \<Rightarrow> fmt_args \<Rightarrow> dynamic_format_specs res" where
  "resolve_dynamic specs args =
     (if spec_dynamic specs
      then bindR (handle_dynamic_spec (dynamic_width specs) (specs_width specs) (width_ref specs) args) (\<lambda>w.
           bindR (handle_dynamic_spec (dynamic_precision specs) (specs_precision specs) (precision_ref specs) args) (\<lambda>p.
             Inr (specs\<lparr>specs_width := w, specs_precision := p\<rparr>)))
      else Inr specs)"

section \<open>The handler\<close>

definition on_arg_index :: "int \<Rightarrow> int \<Rightarrow> (int \<times> int) res" where
  "on_arg_index i n = bindR (check_arg_id n) (\<lambda>n. Inr (i, n))"

definition on_arg_name :: "fmt_args \<Rightarrow> string \<Rightarrow> int \<Rightarrow> (int \<times> int) res" where
  "on_arg_name args name n =
     (let n = check_arg_name n; i = get_named_id args name
      in if i < 0 then Inl (FormatError ''argument not found'') else Inr (i, n))"

definition on_replacement_field :: "fmt_args \<Rightarrow> int \<Rightarrow> string res" where
  "on_replacement_field args i =
     (case get_arg args i of
        None \<Rightarrow> Inl (FormatError ''argument not found'')
      | Some a \<Rightarrow> write_default a)"

text \<open>
  \<open>s\<close> starts behind the colon; the result is the text, the counter and what is left. A custom argument parses for
  itself.
\<close>

definition format_builtin ::
    "write_loc \<Rightarrow> fmt_args \<Rightarrow> fmt_arg \<Rightarrow> int \<Rightarrow> string \<Rightarrow> (string \<times> int \<times> string) res" where
  "format_builtin loc args a n s =
     bindR (parse_format_specs s default_dynamic_specs n (arg_type a)) (\<lambda>(specs, n, rest).
     bindR (resolve_dynamic specs args) (\<lambda>specs.
     bindR (write_arg loc a specs) (\<lambda>text. Inr (text, n, rest))))"

definition on_format_specs ::
    "write_loc \<Rightarrow> fmt_args \<Rightarrow> int \<Rightarrow> int \<Rightarrow> string \<Rightarrow> (string \<times> int \<times> string) res" where
  "on_format_specs loc args i n s =
     (case get_arg args i of
        None \<Rightarrow> Inl (FormatError ''argument not found'')
      | Some a \<Rightarrow>
          (case a of
             Custom_arg f \<Rightarrow> bindR (f s n) (\<lambda>(text, k, n). Inr (text, n, drop k s))
           | _ \<Rightarrow> format_builtin loc args a n s))"

section \<open>Replacement fields\<close>

text \<open>\<open>s\<close> starts behind the brace.\<close>

definition finish_specs :: "(string \<times> int \<times> string) res \<Rightarrow> (string \<times> int \<times> string) res" where
  "finish_specs r =
     bindR r (\<lambda>(text, n, rest).
       if rest = [] \<or> hd rest \<noteq> CHR ''}'' then Inl (FormatError ''unknown format specifier'')
       else Inr (text, n, tl rest))"

definition parse_replacement_field ::
    "write_loc \<Rightarrow> fmt_args \<Rightarrow> int \<Rightarrow> string \<Rightarrow> (string \<times> int \<times> string) res" where
  "parse_replacement_field loc args n s =
     (if s = [] then Inl (FormatError ''invalid format string'')
      else if hd s = CHR ''}''
      then bindR (next_arg_id n) (\<lambda>(i, n). bindR (on_replacement_field args i) (\<lambda>text. Inr (text, n, tl s)))
      else if hd s = CHR ''{'' then Inr (''{'', n, tl s)
      else if hd s = CHR '':''
      then bindR (next_arg_id n) (\<lambda>(i, n). finish_specs (on_format_specs loc args i n (tl s)))
      else bindR (parse_arg_id s) (\<lambda>(r, rest).
           bindR (case r of Ref_index i \<Rightarrow> on_arg_index i n | Ref_name name \<Rightarrow> on_arg_name args name n) (\<lambda>(i, n).
             if rest \<noteq> [] \<and> hd rest = CHR ''}''
             then bindR (on_replacement_field args i) (\<lambda>text. Inr (text, n, tl rest))
             else if rest = [] \<or> hd rest \<noteq> CHR '':''
             then Inl (FormatError (''missing '' @ quoted CHR ''}'' @ '' in format string''))
             else finish_specs (on_format_specs loc args i n (tl rest)))))"

text \<open>A field reads at least one character of what follows its brace.\<close>

lemma format_builtin_length:
  "format_builtin loc args a n s = Inr (text, m, rest) \<Longrightarrow> length rest \<le> length s"
  using parse_format_specs_safe [of s default_dynamic_specs n "arg_type a"]
  by (auto simp: format_builtin_def)

lemma on_format_specs_length:
  "on_format_specs loc args i n s = Inr (text, m, rest) \<Longrightarrow> length rest \<le> length s"
  by (auto simp: on_format_specs_def split: option.splits fmt_arg.splits dest!: format_builtin_length)

lemma finish_specs_length:
  "finish_specs (on_format_specs loc args i n s) = Inr (text, m, rest) \<Longrightarrow> length rest \<le> length s"
  by (auto simp: finish_specs_def split: if_splits dest!: on_format_specs_length)

lemma parse_replacement_field_length:
  assumes "parse_replacement_field loc args n s = Inr (text, m, rest)"
  shows "length rest < length s"
proof (cases s)
  case (Cons c cs)
  show ?thesis
  proof (cases "c \<in> {CHR ''}'', CHR ''{'', CHR '':''}")
    case True
    with assms Cons show ?thesis
      by (auto simp: parse_replacement_field_def split: if_splits dest!: finish_specs_length)
  next
    case False
    with assms Cons obtain r t where p: "parse_arg_id s = Inr (r, t)"
      and "length rest \<le> length (tl t)"
      by (auto simp: parse_replacement_field_def split: if_splits dest!: finish_specs_length)
    moreover from parse_arg_id_safe [of s] p Cons have "length t < length s" by (auto dest: reads_length)
    ultimately show ?thesis by simp
  qed
qed (use assms in \<open>simp add: parse_replacement_field_def\<close>)

section \<open>The format string\<close>

text \<open>\<open>pending\<close> is the text from \<open>begin\<close> to the current character.\<close>

function format_loop :: "write_loc \<Rightarrow> fmt_args \<Rightarrow> int \<Rightarrow> string \<Rightarrow> string \<Rightarrow> string res" where
  "format_loop loc args n pending [] = Inr pending"
| "format_loop loc args n pending (c # cs) =
     (if c = CHR ''{''
      then bindR (parse_replacement_field loc args n cs) (\<lambda>(text, n, rest).
           bindR (format_loop loc args n [] rest) (\<lambda>out. Inr (pending @ text @ out)))
      else if c = CHR ''}''
      then (if cs = [] \<or> hd cs \<noteq> CHR ''}''
            then Inl (FormatError (''unmatched '' @ quoted CHR ''}'' @ '' in format string''))
            else bindR (format_loop loc args n [] (tl cs)) (\<lambda>out. Inr (pending @ [c] @ out)))
      else format_loop loc args n (pending @ [c]) cs)"
  by pat_completeness auto
termination
  by (relation "measure (\<lambda>(loc, args, n, pending, s). length s)") (auto dest: parse_replacement_field_length)

definition vformat_to :: "write_loc \<Rightarrow> string \<Rightarrow> fmt_args \<Rightarrow> string res" where
  "vformat_to loc fmt args =
     (if fmt = ''{}''
      then (case get_arg args 0 of
              None \<Rightarrow> Inl (FormatError ''argument not found'')
            | Some a \<Rightarrow> write_default a)
      else format_loop loc args 0 [] fmt)"

text \<open>The arguments of a call without named ones.\<close>

definition make_format_args :: "fmt_arg list \<Rightarrow> fmt_args" where
  "make_format_args as = \<lparr>arg_list = as, named_args = []\<rparr>"

end
