(* ===== verification/FmtInt.thy ===== *)
theory FmtInt
  imports FmtWrite
begin

text \<open>
  What the integer writers of FmtWrite print: sign, base prefix, zeros and digits of the value, padded. The packed
  prefix and the digit buffers are shown to hold exactly these texts, for every value of 32 and 64 bits, the most
  negative one included.
\<close>

section \<open>The text of an integer\<close>

definition sign_text :: "bool \<Rightarrow> sign \<Rightarrow> string" where
  "sign_text negative s =
     (if negative then ''-'' else if s = sign_plus then ''+'' else if s = sign_space then '' '' else [])"

text \<open>The digits by presentation.\<close>

definition digits_text :: "presentation_type \<Rightarrow> bool \<Rightarrow> nat \<Rightarrow> string" where
  "digits_text ty upper v =
     (if ty = pres_hex then base_digits 4 upper v else if ty = pres_oct then base_digits 3 False v
      else if ty = pres_bin then base_digits 1 False v else dec v)"

definition base_prefix :: "'a format_specs_scheme \<Rightarrow> nat \<Rightarrow> string" where
  "base_prefix specs v =
     (if \<not> spec_alt specs then []
      else if spec_type specs = pres_hex then (if spec_upper specs then ''0X'' else ''0x'')
      else if spec_type specs = pres_bin then (if spec_upper specs then ''0B'' else ''0b'')
      else if spec_type specs = pres_oct \<and> v \<noteq> 0 \<and>
              specs_precision specs \<le> int (length (digits_text pres_oct False v)) then ''0''
      else [])"

text \<open>Zeros up to the width for numeric alignment, up to the precision otherwise.\<close>

definition zeros_text :: "'a format_specs_scheme \<Rightarrow> nat \<Rightarrow> nat \<Rightarrow> string" where
  "zeros_text specs pre digits =
     replicate (if spec_align specs = align_numeric then nat (specs_width specs) - (pre + digits)
                else nat (specs_precision specs) - digits) CHR ''0''"

definition int_body :: "'a format_specs_scheme \<Rightarrow> bool \<Rightarrow> nat \<Rightarrow> string" where
  "int_body specs negative v =
     (let pre = sign_text negative (spec_sign specs) @ base_prefix specs v;
          digits = digits_text (spec_type specs) (spec_upper specs) v
      in pre @ zeros_text specs (length pre) (length digits) @ digits)"

text \<open>The packed prefix.\<close>

definition sign_word :: "bool \<Rightarrow> sign \<Rightarrow> u32" where
  "sign_word negative s =
     (if negative then 0x01000000 OR 0x2D else [0, 0, 0x1000000 OR 0x2B, 0x1000000 OR 0x20] ! unat (sign_code s))"

definition prefix_is :: "u32 \<Rightarrow> string \<Rightarrow> bool" where
  "prefix_is p cs \<longleftrightarrow> prefix_chars (p AND 0xFFFFFF) = cs \<and> unat (drop_bit 24 p) = length cs"

lemma prefix_codes:
  "char_of (45::nat) = CHR ''-''" "char_of (43::nat) = CHR ''+''" "char_of (32::nat) = CHR '' ''"
  "char_of (48::nat) = CHR ''0''" "char_of (120::nat) = CHR ''x''" "char_of (88::nat) = CHR ''X''"
  "char_of (98::nat) = CHR ''b''" "char_of (66::nat) = CHR ''B''"
  by code_simp+

lemma sign_prefix: "prefix_is (sign_word negative s) (sign_text negative s)"
  by (cases negative; cases s) (simp_all add: prefix_is_def sign_word_def sign_text_def prefix_chars.simps prefix_codes)

lemma base_prefixes:
  assumes "p = sign_word negative s"
  shows "prefix_is (prefix_append p (push_bit 8 0x78 OR 0x30)) (sign_text negative s @ ''0x'')"
    and "prefix_is (prefix_append p (push_bit 8 0x58 OR 0x30)) (sign_text negative s @ ''0X'')"
    and "prefix_is (prefix_append p (push_bit 8 0x62 OR 0x30)) (sign_text negative s @ ''0b'')"
    and "prefix_is (prefix_append p (push_bit 8 0x42 OR 0x30)) (sign_text negative s @ ''0B'')"
    and "prefix_is (prefix_append p 0x30) (sign_text negative s @ ''0'')"
  unfolding assms
  by (cases negative; cases s;
      simp add: prefix_is_def sign_word_def sign_text_def prefix_append_def prefix_chars.simps prefix_codes)+

lemma drop_padded:
  assumes "length ds \<le> w" and "0 < length ds" and "r = Inr (w - length ds, replicate (w - length ds) c @ ds)"
  shows "bindR r (\<lambda>(pos, buf). Inr (drop pos buf, f pos)) = Inr (ds, f (w - length ds))"
  using assms by simp

lemma format_decimal_buffer:
  assumes w: "w = 32 \<or> w = 64" and v: "v < 2 ^ w"
  shows "format_decimal_by (count_digits w) (replicate w c) v w =
      Inr (w - length (dec v), replicate (w - length (dec v)) c @ dec v)"
    and "length (dec v) \<le> w"
proof -
  have "v < 2 ^ 64" using assms by auto
  then have "length (dec v) \<le> 20" by (rule length_dec_bound)
  then show l: "length (dec v) \<le> w" using w by auto
  let ?g = "replicate (w - length (dec v)) c" and ?o = "replicate (length (dec v)) c"
  have "replicate w c = ?g @ ?o" using l by (simp add: replicate_add [symmetric])
  moreover have "format_decimal_by (count_digits w) (?g @ ?o) v (length ?g + length ?o) = Inr (length ?g, ?g @ dec v)"
    using l count_digits_eq [OF w v] by (intro format_decimal_by_eq) simp_all
  ultimately show "format_decimal_by (count_digits w) (replicate w c) v w =
      Inr (w - length (dec v), replicate (w - length (dec v)) c @ dec v)" using l by simp
qed

lemma base_digits_buffer:
  assumes w: "w = 32 \<or> w = 64" and v: "v < 2 ^ w" and k: "k \<in> {1, 3, 4}"
  shows "do_format_base2e k (replicate w c) v w upper =
      Inr (w - length (base_digits k upper v), replicate (w - length (base_digits k upper v)) c @ base_digits k upper v)"
    and "length (base_digits k upper v) \<le> w"
proof -
  have "w \<le> k * w" using k by auto
  then have "v < 2 ^ (k * w)" using v by (meson less_le_trans one_le_numeral power_increasing)
  then show l: "length (base_digits k upper v) \<le> w" using w k by (intro length_base_digits_le) auto
  then show "do_format_base2e k (replicate w c) v w upper =
      Inr (w - length (base_digits k upper v), replicate (w - length (base_digits k upper v)) c @ base_digits k upper v)"
    using do_format_base2e_text [of k upper v w c] k by auto
qed

lemma int_digits_eq:
  assumes w: "w = 32 \<or> w = 64" and v: "v < 2 ^ w"
    and ty: "spec_type specs \<in> {pres_none, pres_dec, pres_hex, pres_oct, pres_bin}"
  shows "\<exists>p. int_digits w v (sign_word negative s) specs = Inr (digits_text (spec_type specs) (spec_upper specs) v, p) \<and>
    prefix_is p (sign_text negative s @ base_prefix specs v)"
proof -
  note d = format_decimal_buffer [OF w v] and b = base_digits_buffer [OF w v]
  note pre = sign_prefix [of negative s] base_prefixes [OF refl, of negative s]
  from ty consider "spec_type specs = pres_none \<or> spec_type specs = pres_dec" | "spec_type specs = pres_hex"
    | "spec_type specs = pres_oct" | "spec_type specs = pres_bin" by auto
  then show ?thesis
  proof cases
    case 1
    with d pre show ?thesis by (auto simp: int_digits_def digits_text_def base_prefix_def Let_def)
  next
    case 2
    with b [of 4] pre show ?thesis by (auto simp: int_digits_def digits_text_def base_prefix_def Let_def)
  next
    case 3
    with b [of 3] pre show ?thesis by (auto simp: int_digits_def digits_text_def base_prefix_def Let_def)
  next
    case 4
    with b [of 1] pre show ?thesis by (auto simp: int_digits_def digits_text_def base_prefix_def Let_def)
  qed
qed

text \<open>An integer is written as its body, padded on the left by default.\<close>

lemma write_int_eq:
  assumes w: "w = 32 \<or> w = 64" and v: "v < 2 ^ w"
    and ty: "spec_type specs \<in> {pres_none, pres_dec, pres_hex, pres_oct, pres_bin}"
    and wd: "0 \<le> specs_width specs" "-1 \<le> specs_precision specs"
  shows "write_int w (v, sign_word negative (spec_sign specs)) specs =
    Inr (write_padded True specs (length (int_body specs negative v)) (int_body specs negative v))"
proof -
  let ?pre = "sign_text negative (spec_sign specs) @ base_prefix specs v"
  let ?ds = "digits_text (spec_type specs) (spec_upper specs) v"
  from int_digits_eq [OF w v ty, of negative "spec_sign specs"] obtain p
    where i: "int_digits w v (sign_word negative (spec_sign specs)) specs = Inr (?ds, p)" and p: "prefix_is p ?pre"
    by blast
  have c: "spec_type specs \<noteq> pres_chr" using ty by auto
  have or0: "specs_width specs OR (specs_precision specs + 1) = 0 \<longleftrightarrow> specs_width specs = 0 \<and> specs_precision specs = -1"
    by (auto simp: or_eq_0_iff)
  define Z where "Z = zeros_text specs (length ?pre) (length ?ds)"
  have Z: "replicate (length Z) CHR ''0'' = Z" by (simp add: Z_def zeros_text_def)
  have body: "int_body specs negative v = ?pre @ Z @ ?ds" by (simp add: int_body_def Let_def Z_def)
  have pc: "prefix_chars (p AND 0xFFFFFF) = ?pre" "unat (drop_bit 24 p) = length ?pre" using p by (simp_all add: prefix_is_def)
  have sp: "size_padding (length ?ds) p specs = (length ?pre + length Z + length ?ds, length Z)"
    using wd unfolding size_padding_def pc Let_def by (auto simp: Z_def zeros_text_def nat_diff_distrib)
  show ?thesis
  proof (cases "specs_width specs = 0 \<and> specs_precision specs = -1")
    case True
    then have "Z = []" by (simp add: Z_def zeros_text_def)
    moreover have "write_padded True specs n t = t" for n t using True by (simp add: write_padded_def Let_def)
    ultimately show ?thesis using True unfolding write_int_def fst_conv snd_conv i bindR_Inr body
      by (simp add: or0 c pc)
  next
    case False
    then show ?thesis unfolding write_int_def fst_conv snd_conv i bindR_Inr body
      by (simp only: case_prod_conv Let_def pc sp or0 c Z if_False) (simp add: add.assoc)
  qed
qed

text \<open>The value of an integer argument, and its absolute value as the code computes it.\<close>

definition word_value :: "bool \<Rightarrow> 'a::len word \<Rightarrow> int" where
  "word_value is_signed v = (if is_signed then sint v else uint v)"

lemma unat_minus_sint:
  fixes v :: "'a::len word"
  assumes "sint v < 0"
  shows "unat (- v) = nat (- sint v)"
proof -
  have "- v = word_of_int (- sint v)" by simp
  moreover have "uint (word_of_int (- sint v) :: 'a word) = take_bit LENGTH('a) (- sint v)"
    by (subst unsigned_of_int) (simp add: take_bit_nonnegative)
  ultimately have "uint (- v) = take_bit LENGTH('a) (- sint v)" by simp
  moreover have "- sint v < 2 ^ LENGTH('a)"
  proof -
    have "- sint v \<le> 2 ^ (LENGTH('a) - 1)" using sint_ge [of v] by simp
    also have "\<dots> < (2::int) ^ LENGTH('a)" by (rule power_strict_increasing) simp_all
    finally show ?thesis .
  qed
  ultimately have "uint (- v) = - sint v" using assms by (simp add: take_bit_int_eq_self)
  then show ?thesis by (simp flip: nat_uint_eq)
qed

lemma sint_nonneg:
  fixes v :: "'a::len word"
  assumes "0 \<le> sint v"
  shows "sint v = uint v"
proof -
  have "sint v < 2 ^ (LENGTH('a) - 1)" by (rule sint_lt)
  also have "\<dots> < (2::int) ^ LENGTH('a)" by (rule power_strict_increasing) simp_all
  finally show ?thesis using assms uint_sint [of v] by (simp add: take_bit_int_eq_self)
qed

lemma make_write_int_arg_eq:
  fixes v :: "'a::len word"
  shows "make_write_int_arg is_signed v s = (nat \<bar>word_value is_signed v\<bar>, sign_word (word_value is_signed v < 0) s)"
    and "nat \<bar>word_value is_signed v\<bar> < 2 ^ LENGTH('a)"
proof -
  show "make_write_int_arg is_signed v s = (nat \<bar>word_value is_signed v\<bar>, sign_word (word_value is_signed v < 0) s)"
  proof (cases "is_signed \<and> sint v < 0")
    case True
    then show ?thesis by (simp add: make_write_int_arg_def word_value_def sign_word_def unat_minus_sint)
  next
    case False
    then have "is_signed \<Longrightarrow> sint v = uint v" using sint_nonneg [of v] by simp
    with False show ?thesis
      by (auto simp: make_write_int_arg_def word_value_def sign_word_def nat_uint_eq)
  qed
  show "nat \<bar>word_value is_signed v\<bar> < 2 ^ LENGTH('a)"
  proof (cases "is_signed \<and> sint v < 0")
    case True
    then have "nat \<bar>word_value is_signed v\<bar> = unat (- v)" by (simp add: word_value_def unat_minus_sint)
    moreover have "unat (- v) < 2 ^ LENGTH('a)" by (rule unsigned_less)
    ultimately show ?thesis by simp
  next
    case False
    then have "nat \<bar>word_value is_signed v\<bar> = unat v"
      using sint_nonneg [of v] by (auto simp: word_value_def nat_uint_eq)
    moreover have "unat v < 2 ^ LENGTH('a)" by (rule unsigned_less)
    ultimately show ?thesis by simp
  qed
qed

lemma write_default_int_eq:
  fixes v :: "'a::len word"
  assumes w: "w = 32 \<or> w = 64" "LENGTH('a) = w"
  shows "write_default_int w is_signed v = Inr (show_int (word_value is_signed v))"
proof -
  have "NOT v + 1 = 0 - v" by (simp add: not_eq_complement)
  then have "unat (if is_signed \<and> sint v < 0 then NOT v + 1 else v) = fst (make_write_int_arg is_signed v sign_none)"
    by (simp add: make_write_int_arg_def)
  also have "\<dots> = nat \<bar>word_value is_signed v\<bar>" by (simp add: make_write_int_arg_eq)
  finally have a: "unat (if is_signed \<and> sint v < 0 then NOT v + 1 else v) = nat \<bar>word_value is_signed v\<bar>" .
  let ?n = "nat \<bar>word_value is_signed v\<bar>"
  have n: "?n < 2 ^ w" using make_write_int_arg_eq(2) [of is_signed v] w by simp
  have "format_decimal_by (count_digits w) (replicate (length (dec ?n)) (CHR 0x00)) ?n (length (dec ?n)) = Inr (0, dec ?n)"
    using format_decimal_by_eq [of "count_digits w" ?n "[]" "replicate (length (dec ?n)) (CHR 0x00)"] count_digits_eq [OF w(1) n]
    by simp
  moreover have "is_signed \<and> sint v < 0 \<longleftrightarrow> word_value is_signed v < 0" by (auto simp: word_value_def)
  ultimately show ?thesis
    unfolding write_default_int_def Let_def a count_digits_eq [OF w(1) n]
    by (simp add: show_int_def)
qed

end
