(* ===== verification/FmtSafe.thy ===== *)
theory FmtSafe
  imports FmtFormat FmtInt
begin

text \<open>
  Formatting any format string with any arguments ends in a text or in a format error: no buffer is overrun, no
  assertion fails, no union member is read that was not written. The parser keeps the specifiers well formed,
  and the loops over UTF-8 return on every byte string.
\<close>

section \<open>Specifiers the parser produces\<close>

text \<open>
  The kind says which member of the union was written; width and precision are in the range of an \<open>int\<close>; the
  fill is one to four code units.
\<close>

definition ref_ok :: "arg_id_kind \<Rightarrow> arg_ref \<Rightarrow> bool" where
  "ref_ok kind ref \<longleftrightarrow> (kind = id_index \<longrightarrow> (\<exists>i. ref = Ref_index i)) \<and> (kind = id_name \<longrightarrow> (\<exists>n. ref = Ref_name n))"

definition specs_ok :: "dynamic_format_specs \<Rightarrow> bool" where
  "specs_ok s \<longleftrightarrow>
     ref_ok (dynamic_width s) (width_ref s) \<and> ref_ok (dynamic_precision s) (precision_ref s) \<and>
     0 \<le> specs_width s \<and> specs_width s \<le> int int_max \<and> -1 \<le> specs_precision s \<and> specs_precision s \<le> int int_max \<and>
     1 \<le> fill_size s \<and> fill_size s \<le> 4 \<and> length (fill_data s) = 4"

definition presentation_ok :: "fmt_type \<Rightarrow> presentation_type \<Rightarrow> bool" where
  "presentation_ok t p \<longleftrightarrow>
     (is_integral_type t \<longrightarrow>
       p \<in> {pres_none, pres_dec, pres_hex, pres_oct, pres_bin, pres_chr} \<or>
       (t = bool_type \<and> p = pres_string) \<or> (t = char_type \<and> p = pres_debug))"

fun turn_ok :: "fmt_type \<Rightarrow> spec_turn \<Rightarrow> bool" where
  "turn_ok t (Spec_return specs n rest) \<longleftrightarrow> specs_ok specs \<and> presentation_ok t (spec_type specs)"
| "turn_ok t (Spec_next st specs n rest) \<longleftrightarrow> specs_ok specs \<and> spec_type specs = pres_none"

definition specs_fresh :: "dynamic_format_specs \<Rightarrow> bool" where
  "specs_fresh s \<longleftrightarrow> specs_ok s \<and> spec_type s = pres_none"

lemma default_dynamic_specs_fresh: "specs_fresh default_dynamic_specs"
  by (simp add: specs_fresh_def specs_ok_def default_dynamic_specs_def ref_ok_def spec_getters masks kind_cast_def)

lemma specs_fresh_sets:
  assumes "specs_fresh s"
  shows "specs_fresh (set_align a s)" "specs_fresh (set_sign v s)" "specs_fresh (set_upper s)"
    "specs_fresh (set_alt s)" "specs_fresh (set_localized s)" "specs_fresh (set_fill_char c s)"
  using assms by (simp_all add: specs_fresh_def specs_ok_def spec_fields set_fill_char_def)

lemma set_fill_fresh:
  "specs_fresh s \<Longrightarrow> 1 \<le> length f \<Longrightarrow> length f \<le> 4 \<Longrightarrow> \<exists>s'. set_fill f s = Inr s' \<and> specs_fresh s'"
  by (auto simp: set_fill_def Let_def specs_fresh_def specs_ok_def spec_fields)

lemma parse_dynamic_spec_ok:
  assumes "parse_dynamic_spec s v ref n = Inr (v', ref', kind, n', rest)"
  shows "ref_ok kind ref' \<and> (v' = v \<or> (0 \<le> v' \<and> v' \<le> int int_max))"
proof (cases "s \<noteq> [] \<and> fmt_digit (hd s)")
  case True
  with assms show ?thesis
    by (auto simp: parse_dynamic_spec_def ref_ok_def split: list.splits if_splits
        dest: parse_nonnegative_int_range)
next
  case False
  with assms show ?thesis
    by (auto simp: parse_dynamic_spec_def ref_ok_def split: list.splits if_splits arg_ref.splits)
qed

lemma parse_width_fresh:
  "parse_width s specs n = Inr (specs', n', rest) \<Longrightarrow> specs_fresh specs \<Longrightarrow> specs_fresh specs'"
  by (auto simp: parse_width_def specs_fresh_def specs_ok_def spec_fields dest!: parse_dynamic_spec_ok)

lemma parse_precision_fresh:
  "parse_precision s specs n = Inr (specs', n', rest) \<Longrightarrow> specs_fresh specs \<Longrightarrow> specs_fresh specs'"
  by (auto simp: parse_precision_def Let_def specs_fresh_def specs_ok_def spec_fields split: if_splits
      dest!: parse_dynamic_spec_ok)

lemma format_safe_conj: "format_safe P r \<Longrightarrow> format_safe Q r \<Longrightarrow> format_safe (\<lambda>x. P x \<and> Q x) r"
  by (cases r) auto

lemma presentation_type_ok:
  assumes "specs_fresh specs" and "p < 8" and "in_set t ts \<Longrightarrow> presentation_ok t p"
  shows "format_safe (turn_ok t) (parse_presentation_type t p ts specs n s)"
  using assms by (simp add: parse_presentation_type_def specs_fresh_def specs_ok_def spec_fields)

lemma parse_fill_ok:
  assumes "specs_fresh specs" and "s \<noteq> []"
  shows "format_safe (turn_ok t) (parse_fill current specs n s)"
proof -
  let ?l = "code_point_length (hd s)"
  have "\<exists>sp. set_fill (take ?l s) specs = Inr sp \<and> specs_fresh sp" if "?l < length s"
    using set_fill_fresh [OF assms(1), of "take ?l s"] code_point_length_bounds [of "hd s"] that by simp
  moreover have "presentation_ok t (spec_type specs)" "specs_ok specs"
    using assms by (simp_all add: specs_fresh_def presentation_ok_def)
  moreover have "specs_fresh sp \<Longrightarrow> turn_ok t (Spec_next st (set_align a sp) m rest)" for st sp a m rest
    using specs_fresh_sets(1) [of sp a] by (simp add: specs_fresh_def)
  ultimately show ?thesis using assms unfolding parse_fill_def
    by (auto simp: Let_def enter_state_def not_le)
qed

lemma spec_step_ok:
  assumes f: "specs_fresh specs" and s: "s \<noteq> []"
  shows "format_safe (turn_ok t) (spec_step t c current specs n s)"
proof -
  have e: "format_safe (turn_ok t) (bindR (enter_state current st valid) (\<lambda>st. Inr (Spec_next st (g st) n (tl s))))"
    if "\<And>st. specs_fresh (g st)" for st valid g
    using that by (simp add: enter_state_def specs_fresh_def)
  have w: "format_safe (turn_ok t) (bindR (enter_state current st valid) (\<lambda>st.
      bindR p (\<lambda>(specs, n, rest). Inr (Spec_next st specs n rest))))"
    if "format_safe (\<lambda>(sp, n, rest). reads s rest) p" "\<And>sp m rest. p = Inr (sp, m, rest) \<Longrightarrow> specs_fresh sp" for st valid p
    by (rule format_safe_bind [OF enter_state_safe], rule format_safe_bind [OF that(1)])
      (use that(2) in \<open>auto simp: specs_fresh_def\<close>)
  have r: "format_safe (turn_ok t) (Inr (Spec_return specs n s))"
    using f by (simp add: specs_fresh_def presentation_ok_def)
  have z: "format_safe (turn_ok t) (parse_zero t current specs n s)"
    using specs_fresh_sets(6) [OF specs_fresh_sets(1) [OF f]] f
    by (simp add: parse_zero_def enter_state_def specs_fresh_def)
  have g: "specs_fresh (if b then specs else set_sign v specs)" for b v
    using f specs_fresh_sets(2) [OF f] by simp
  have w1: "format_safe (turn_ok t) (bindR (enter_state current st valid) (\<lambda>st.
      bindR (parse_width s specs n) (\<lambda>(specs, n, rest). Inr (Spec_next st specs n rest))))" for st valid
    by (rule w [OF parse_width_safe [OF s]]) (rule parse_width_fresh [OF _ f])
  have w2: "format_safe (turn_ok t) (bindR (enter_state current st valid) (\<lambda>st.
      bindR (parse_precision s specs n) (\<lambda>(specs, n, rest). Inr (Spec_next st specs n rest))))" for st valid
    by (rule w [OF parse_precision_safe [OF s]]) (rule parse_precision_fresh [OF _ f])
  note sets = specs_fresh_sets [OF f]
  note fl = presentation_type_ok [OF f] presentation_type_ok [OF sets(3)]
  show ?thesis unfolding spec_step_def Let_def
    by (intro format_safe_if e w1 w2 r z g sets f s fl format_safe_error parse_fill_ok)
      (auto simp: presentation_ok_def is_integral_type_def)
qed

lemma specs_loop_ok:
  "specs_fresh specs \<Longrightarrow>
   format_safe (\<lambda>(specs, n, rest). specs_ok specs \<and> presentation_ok t (spec_type specs)) (specs_loop t c current specs n s)"
proof (induction t c current specs n s rule: specs_loop.induct)
  case (1 t c current specs n s)
  show ?case
  proof (cases "s = []")
    case True
    with 1 show ?thesis by (simp add: specs_loop.simps specs_fresh_def presentation_ok_def)
  next
    case False
    have "format_safe (\<lambda>(specs, n, rest). specs_ok specs \<and> presentation_ok t (spec_type specs))
        (bindR (spec_step t c current specs n s) (\<lambda>turn.
          case turn of
            Spec_return specs n rest \<Rightarrow> Inr (specs, n, rest)
          | Spec_next st specs n rest \<Rightarrow> specs_loop t (hd rest) st specs n rest))"
    proof (rule format_safe_bind [OF spec_step_ok [OF 1(2) False]])
      fix turn
      assume "turn_ok t turn" "spec_step t c current specs n s = Inr turn"
      with 1(1) [OF False] show "format_safe (\<lambda>(specs, n, rest). specs_ok specs \<and> presentation_ok t (spec_type specs))
          (case turn of
            Spec_return specs n rest \<Rightarrow> Inr (specs, n, rest)
          | Spec_next st specs n rest \<Rightarrow> specs_loop t (hd rest) st specs n rest)"
        by (cases turn) (auto simp: specs_fresh_def)
    qed
    with False show ?thesis by (simp add: specs_loop.simps [of t c current specs n s])
  qed
qed

lemma parse_format_specs_ok:
  "format_safe (\<lambda>(specs, n, rest). (\<exists>ps. s = ps @ rest) \<and> specs_ok specs \<and> presentation_ok t (spec_type specs))
     (parse_format_specs s default_dynamic_specs n t)"
proof -
  have "format_safe (\<lambda>(specs, n, rest). specs_ok specs \<and> presentation_ok t (spec_type specs))
      (parse_format_specs s default_dynamic_specs n t)"
    using specs_loop_ok [OF default_dynamic_specs_fresh] default_dynamic_specs_fresh
    by (simp add: parse_format_specs_def Let_def specs_fresh_def presentation_ok_def)
  from format_safe_conj [OF parse_format_specs_safe this] show ?thesis
    by (rule format_safe_mono) auto
qed
section \<open>The UTF-8 loops return on every text\<close>

lemma utf8_decode_total: "4 \<le> length s \<Longrightarrow> \<exists>c e m. utf8_decode s = Inr (c, e, m)"
  by (simp add: utf8_decode_def Let_def)

lemma decode_at_total: "4 \<le> length buf \<Longrightarrow> \<exists>r. decode_at f st buf pos = Inr r"
  using utf8_decode_total [of buf] by (auto simp: decode_at_def Let_def split: prod.splits)

lemma block_loop_total:
  "\<exists>st' r. block_loop f st pos s = Inr (st', r) \<and> (\<forall>p rest. r = Some (p, rest) \<longrightarrow> length rest < 4)"
proof (induction f st pos s rule: block_loop.induct)
  case (1 f st pos s)
  show ?case
  proof (cases "length s < 4")
    case False
    then obtain st1 r where d: "decode_at f st s pos = Inr (st1, r)" using decode_at_total [of s f st pos] by auto
    show ?thesis
    proof (cases r)
      case (Some len)
      from 1 [OF False d refl Some] show ?thesis
        using False d Some by (simp add: block_loop.simps [of f st pos s])
    qed (use False d in \<open>simp add: block_loop.simps [of f st pos s]\<close>)
  qed (simp add: block_loop.simps)
qed

lemma rest_loop_total:
  "left + 4 \<le> length buf \<Longrightarrow> \<exists>st'. rest_loop f st pos buf left = Inr st'"
proof (induction f st pos buf left rule: rest_loop.induct)
  case (1 f st pos buf left)
  then obtain st1 r where d: "decode_at f st buf pos = Inr (st1, r)" using decode_at_total [of buf f st pos] by auto
  show ?case
  proof (cases r)
    case (Some len)
    with d 1(1) [OF d refl Some] 1(2) show ?thesis
      by (cases "len < left") (auto simp: rest_loop.simps [of f st pos buf left])
  qed (use d in \<open>simp add: rest_loop.simps [of f st pos buf left]\<close>)
qed

lemma for_each_total: "\<exists>st'. for_each_codepoint f st s = Inr st'"
proof -
  obtain st1 r where b: "block_loop f st 0 s = Inr (st1, r)" "\<forall>p rest. r = Some (p, rest) \<longrightarrow> length rest < 4"
    using block_loop_total [of f st 0 s] by blast
  show ?thesis
  proof (cases r)
    case (Some pr)
    then obtain p rest where r: "r = Some (p, rest)" by (cases pr) auto
    with b(2) have "length rest < 4" by blast
    then have "length rest mod 4 + 4 \<le> length (rest @ replicate (7 - length rest) CHR 0x00)" by simp
    from rest_loop_total [OF this, of f st1 p] b(1) r show ?thesis
      by (cases "rest = []") (auto simp: for_each_codepoint_def)
  qed (use b in \<open>simp add: for_each_codepoint_def\<close>)
qed

lemma compute_width_total: "\<exists>n. compute_width s = Inr n"
  by (simp add: compute_width_def for_each_total)

lemma code_point_index_total: "\<exists>n. code_point_index s m = Inr n"
  using for_each_total [of _ "(m, length s)" s] unfolding code_point_index_def
  by (metis (no_types, lifting) bindR_Inr case_prod_conv surj_pair)

lemma write_codepoint_total: "0 < w \<Longrightarrow> cp < 2 ^ (4 * w) \<Longrightarrow> \<exists>t. write_codepoint w c cp = Inr t"
  using do_format_base2e_text [of 4 False cp w "CHR ''0''"] length_base_digits_le [of 4 cp w False]
  by (auto simp: write_codepoint_def)

lemma write_bytes_hex_total: "\<exists>t. write_bytes_hex bytes = Inr t"
proof (induction bytes)
  case (Cons c cs)
  moreover have "\<exists>t. write_codepoint 2 CHR ''x'' (of_char c) = Inr t"
    using nat_of_char_less_256 [of c] by (intro write_codepoint_total) simp_all
  ultimately show ?case by auto
qed simp

lemma write_escaped_cp_total: "\<exists>t. write_escaped_cp bytes cp = Inr t"
  using write_codepoint_total [of 2 cp] write_codepoint_total [of 4 cp] write_codepoint_total [of 8 cp]
    write_bytes_hex_total [of bytes]
  by (simp add: write_escaped_cp_def)

lemma find_escape_total: "\<exists>r. find_escape s = Inr r"
  unfolding find_escape_def by (rule for_each_total)

lemma escape_loop_total: "\<exists>t. escape_loop s = Inr t"
proof (induction s rule: escape_loop.induct)
  case (1 s)
  obtain r where r: "find_escape s = Inr r" using find_escape_total by blast
  show ?case
  proof (cases r)
    case None
    with r show ?thesis by (simp add: escape_loop.simps [of s])
  next
    case (Some bec)
    then obtain b e cp where s: "r = Some (b, e, cp)" by (cases bec) auto
    obtain t where t: "write_escaped_cp (take (e - b) (drop b s)) cp = Inr t" using write_escaped_cp_total by blast
    show ?thesis
    proof (cases "drop e s = []")
      case True
      with r s t show ?thesis by (simp add: escape_loop.simps [of s])
    next
      case False
      from 1 [OF r s refl refl t False] r s t False show ?thesis by (auto simp: escape_loop.simps [of s])
    qed
  qed
qed

lemma write_escaped_string_total: "\<exists>t. write_escaped_string s = Inr t"
  using escape_loop_total [of s] by (auto simp: write_escaped_string_def)

lemma write_escaped_char_total: "\<exists>t. write_escaped_char c = Inr t"
  using write_escaped_cp_total [of "[c]" "signed_code c"] by (auto simp: write_escaped_char_def)

lemma write_char_total: "\<exists>t. write_char c specs = Inr t"
  using write_escaped_char_total [of c] by (auto simp: write_char_def)

lemma write_string_total: "\<exists>t. write_string s specs = Inr t"
proof -
  obtain sz where sz: "(if 0 \<le> specs_precision specs \<and> nat (specs_precision specs) < length s
      then code_point_index s (nat (specs_precision specs)) else Inr (length s)) = Inr sz"
    using code_point_index_total by (metis (full_types))
  obtain w where w: "compute_width (take sz s) = Inr w" using compute_width_total by blast
  obtain e where e: "write_escaped_string s = Inr e" using write_escaped_string_total by blast
  show ?thesis by (simp add: write_string_def sz w e)
qed

section \<open>Formatting ends in a text or a format error\<close>

lemma format_safe_bindT:
  "format_safe (\<lambda>_. True) r \<Longrightarrow> (\<And>x. r = Inr x \<Longrightarrow> format_safe P (f x)) \<Longrightarrow> format_safe P (bindR r f)"
  by (cases r) auto

lemma write_int_total:
  fixes v :: "'a::len word"
  assumes w: "w = 32 \<or> w = 64" "LENGTH('a) = w"
    and ty: "spec_type specs \<in> {pres_none, pres_dec, pres_hex, pres_oct, pres_bin, pres_chr}"
  shows "\<exists>t. write_int w (make_write_int_arg is_signed v (spec_sign specs)) specs = Inr t"
proof (cases "spec_type specs = pres_chr")
  case True
  with write_char_total show ?thesis by (simp add: write_int_def)
next
  case False
  have "nat \<bar>word_value is_signed v\<bar> < 2 ^ w" using make_write_int_arg_eq(2) [of is_signed v] w by simp
  from int_digits_eq [OF w(1) this, of specs "word_value is_signed v < 0" "spec_sign specs"] ty False
  obtain p ds where "int_digits w (nat \<bar>word_value is_signed v\<bar>) (sign_word (word_value is_signed v < 0) (spec_sign specs)) specs
      = Inr (ds, p)" by auto
  with False show ?thesis
    by (simp add: write_int_def make_write_int_arg_eq Let_def split: prod.splits)
qed

lemma write_integer_total:
  "\<exists>t. write_int w iarg specs = Inr t \<Longrightarrow> \<exists>t. write_integer loc a w iarg specs = Inr t"
  by (auto simp: write_integer_def write_localized_def split: option.splits)

lemma count_hex_digits_eq: "count_hex_digits v = length (base_digits 4 u v)"
proof (induction v rule: count_hex_digits.induct)
  case (1 v)
  have "drop_bit 4 v = 0 \<longleftrightarrow> v < 2 ^ 4" by (simp add: drop_bit_eq_div div_eq_0_iff)
  with 1 show ?case
    by (auto simp: count_hex_digits.simps [of v] base_digits.simps [of 4 u v] drop_bit_eq_div)
qed

lemma write_ptr_eq:
  "write_ptr v specs =
    Inr (write_padded True specs (length (base_digits 4 False v) + 2) (''0x'' @ base_digits 4 False v))"
  using do_format_base2e_text [of 4 False v "length (base_digits 4 False v)" "CHR 0x00"]
  by (auto simp: write_ptr_def Let_def count_hex_digits_eq [of v False])

fun arg_ok :: "fmt_arg \<Rightarrow> bool" where
  "arg_ok (Custom_arg f) \<longleftrightarrow> (\<forall>s n. format_safe (\<lambda>_. True) (f s n))"
| "arg_ok a \<longleftrightarrow> True"

definition args_ok :: "fmt_args \<Rightarrow> bool" where
  "args_ok args \<longleftrightarrow> list_all arg_ok (arg_list args)"

lemma safe_total: "\<exists>t. r = Inr t \<Longrightarrow> format_safe (\<lambda>_. True) r"
  by auto

lemma write_bool_total:
  assumes "presentation_ok bool_type (spec_type specs)"
  shows "\<exists>t. write_bool loc b specs = Inr t"
proof -
  have "spec_type specs \<notin> {pres_none, pres_string} \<Longrightarrow>
      spec_type specs \<in> {pres_none, pres_dec, pres_hex, pres_oct, pres_bin, pres_chr}"
    using assms by (auto simp: presentation_ok_def is_integral_type_def)
  with write_integer_total [OF write_int_total [where w = 32 and specs = specs and is_signed = True
        and v = "if b then 1 else 0 :: 32 word"]]
  show ?thesis by (simp add: write_bool_def Let_def)
qed

lemma write_arg_safe:
  fixes specs :: "'a format_specs_scheme"
  assumes "presentation_ok (arg_type a) (spec_type specs)"
  shows "format_safe (\<lambda>_. True) (write_arg loc a specs)"
proof -
  have i: "format_safe (\<lambda>_. True) (write_integer loc b w (make_write_int_arg sg v (spec_sign specs)) specs)"
    if "w = 32 \<or> w = 64" "LENGTH('b) = w" "spec_type specs \<in> {pres_none, pres_dec, pres_hex, pres_oct, pres_bin, pres_chr}"
    for b w sg and v :: "'b::len word"
    using write_integer_total [OF write_int_total [OF that]] by (rule safe_total)
  note ok = assms [unfolded presentation_ok_def is_integral_type_def]
  show ?thesis
  proof (cases a)
    case (Char_arg c)
    show ?thesis
    proof (cases "check_char_specs specs")
      case (Inr okc)
      show ?thesis
      proof (cases okc)
        case True
        with Inr Char_arg safe_total [OF write_char_total] show ?thesis by simp
      next
        case False
        with Inr have "spec_type specs \<notin> {pres_none, pres_chr, pres_debug}"
          by (auto simp: check_char_specs_def split: if_splits)
        with ok Char_arg have "spec_type specs \<in> {pres_none, pres_dec, pres_hex, pres_oct, pres_bin, pres_chr}" by auto
        with Inr False Char_arg show ?thesis by (simp add: Let_def i)
      qed
    qed (use Char_arg in \<open>auto simp: check_char_specs_def split: if_splits\<close>)
  next
    case (Bool_arg b)
    with assms safe_total [OF write_bool_total] show ?thesis by simp
  qed (use ok in \<open>auto simp: i write_ptr_eq safe_total [OF write_string_total]\<close>)
qed

lemma write_default_safe:
  assumes "arg_ok a"
  shows "format_safe (\<lambda>_. True) (write_default a)"
proof (cases a)
  case (Custom_arg f)
  with assms have "format_safe (\<lambda>_. True) (f [] 0)" by simp
  with Custom_arg show ?thesis by (auto intro: format_safe_bind)
next
  case (Bool_arg b)
  have "spec_type default_specs = pres_none" by (simp add: spec_type_def default_specs_def masks)
  with Bool_arg show ?thesis by (simp add: write_bool_def)
qed (simp_all add: write_default_int_eq write_ptr_eq)

lemma dynamic_spec_value_safe: "format_safe (\<lambda>_. True) (dynamic_spec_value a)"
  by (cases a) (simp_all add: not_integer_def)

lemma handle_dynamic_spec_safe:
  assumes "ref_ok kind ref"
  shows "format_safe (\<lambda>_. True) (handle_dynamic_spec kind v ref args)"
proof -
  have g: "format_safe (\<lambda>_. True) (case x of None \<Rightarrow> Inl (FormatError ''argument not found'')
      | Some a \<Rightarrow> bindR (dynamic_spec_value a) (\<lambda>v.
         if int_max < v then Inl (FormatError ''width/precision is out of range'') else Inr (int v)))" for x
    by (cases x) (auto intro!: format_safe_bindT dynamic_spec_value_safe)
  from assms show ?thesis
    by (cases kind) (auto simp: ref_ok_def handle_dynamic_spec_def get_dynamic_spec_def g)
qed

lemma resolve_dynamic_safe:
  assumes "specs_ok specs"
  shows "format_safe (\<lambda>sp. spec_type sp = spec_type specs) (resolve_dynamic specs args)"
proof -
  have r: "ref_ok (dynamic_width specs) (width_ref specs)" "ref_ok (dynamic_precision specs) (precision_ref specs)"
    using assms by (simp_all add: specs_ok_def)
  show ?thesis unfolding resolve_dynamic_def
    by (intro format_safe_if format_safe_bind [OF handle_dynamic_spec_safe [OF r(1)]]
        format_safe_bind [OF handle_dynamic_spec_safe [OF r(2)]]) simp_all
qed

lemma format_builtin_safe: "format_safe (\<lambda>_. True) (format_builtin loc args a n s)"
proof -
  have "format_safe (\<lambda>_. True) (bindR (resolve_dynamic specs args) (\<lambda>specs.
      bindR (write_arg loc a specs) (\<lambda>text. Inr (text, m, rest))))"
    if "specs_ok specs" "presentation_ok (arg_type a) (spec_type specs)" for specs m rest
    by (rule format_safe_bind [OF resolve_dynamic_safe [OF that(1)]], rule format_safe_bind [OF write_arg_safe])
      (use that(2) in auto)
  then show ?thesis unfolding format_builtin_def
    by (intro format_safe_bind [OF parse_format_specs_ok [of s "arg_type a" n]]) auto
qed

lemma get_arg_ok: "args_ok args \<Longrightarrow> get_arg args i = Some a \<Longrightarrow> arg_ok a"
  by (auto simp: args_ok_def get_arg_def list_all_length split: if_splits)

lemma on_format_specs_safe: "args_ok args \<Longrightarrow> format_safe (\<lambda>_. True) (on_format_specs loc args i n s)"
  using get_arg_ok [of args i]
  by (auto simp: on_format_specs_def format_builtin_safe split: option.splits fmt_arg.splits intro!: format_safe_bindT)

lemma on_replacement_field_safe: "args_ok args \<Longrightarrow> format_safe (\<lambda>_. True) (on_replacement_field args i)"
  using get_arg_ok [of args i] write_default_safe by (auto simp: on_replacement_field_def split: option.splits)

lemma finish_specs_safe: "format_safe (\<lambda>_. True) r \<Longrightarrow> format_safe (\<lambda>_. True) (finish_specs r)"
  unfolding finish_specs_def by (erule format_safe_bindT) auto

lemma parse_replacement_field_safe:
  assumes "args_ok args"
  shows "format_safe (\<lambda>_. True) (parse_replacement_field loc args n s)"
proof (cases "s = []")
  case False
  have n: "format_safe (\<lambda>_. True) (next_arg_id n)" by (simp add: next_arg_id_def)
  have i: "format_safe (\<lambda>_. True) (case r of Ref_index i \<Rightarrow> on_arg_index i n | Ref_name name \<Rightarrow> on_arg_name args name n)" for r
    by (cases r) (simp_all add: on_arg_index_def on_arg_name_def check_arg_id_def Let_def)
  have f: "format_safe (\<lambda>_. True) (bindR (on_replacement_field args i) (\<lambda>text. Inr (text, m, rest)))"
    for i m and rest :: string by (rule format_safe_bind [OF on_replacement_field_safe [OF assms]]) simp
  note s = finish_specs_safe [OF on_format_specs_safe [OF assms]]
  have d: "format_safe (\<lambda>_. True) (bindR (parse_arg_id s) (\<lambda>(r, rest).
           bindR (case r of Ref_index i \<Rightarrow> on_arg_index i n | Ref_name name \<Rightarrow> on_arg_name args name n) (\<lambda>(i, n).
             if rest \<noteq> [] \<and> hd rest = CHR ''}''
             then bindR (on_replacement_field args i) (\<lambda>text. Inr (text, n, tl rest))
             else if rest = [] \<or> hd rest \<noteq> CHR '':''
             then Inl (FormatError (''missing '' @ quoted CHR ''}'' @ '' in format string''))
             else finish_specs (on_format_specs loc args i n (tl rest)))))"
    by (rule format_safe_bind [OF parse_arg_id_safe [OF False]], clarify,
        rule format_safe_bind [OF i], clarify, intro format_safe_if f s format_safe_error)
  have a: "format_safe (\<lambda>_. True) (bindR (next_arg_id n) (\<lambda>(i, n).
      bindR (on_replacement_field args i) (\<lambda>text. Inr (text, n, tl s))))"
    by (rule format_safe_bind [OF n], clarify) (rule f)
  have b: "format_safe (\<lambda>_. True) (bindR (next_arg_id n) (\<lambda>(i, n). finish_specs (on_format_specs loc args i n (tl s))))"
    by (rule format_safe_bind [OF n], clarify) (rule s)
  show ?thesis unfolding parse_replacement_field_def
    by (intro format_safe_if a b d format_safe_error) (simp_all add: False)
qed (simp add: parse_replacement_field_def)

lemma format_loop_safe: "args_ok args \<Longrightarrow> format_safe (\<lambda>_. True) (format_loop loc args n pending s)"
proof (induction loc args n pending s rule: format_loop.induct)
  case (2 loc args n pending c cs)
  have f: "format_safe (\<lambda>_. True) (bindR (parse_replacement_field loc args n cs) (\<lambda>(text, n, rest).
           bindR (format_loop loc args n [] rest) (\<lambda>out. Inr (pending @ text @ out))))" if "c = CHR ''{''"
  proof (rule format_safe_bind [OF parse_replacement_field_safe [OF 2(4)]], clarify)
    fix t m rest
    assume "parse_replacement_field loc args n cs = Inr (t, m, rest)"
    from 2(1) [OF that this refl refl 2(4)]
    show "format_safe (\<lambda>_. True) (bindR (format_loop loc args m [] rest) (\<lambda>out. Inr (pending @ t @ out)))"
      by (rule format_safe_bind) simp
  qed
  have b: "format_safe (\<lambda>_. True) (bindR (format_loop loc args n [] (tl cs)) (\<lambda>out. Inr (pending @ [c] @ out)))"
    if "c \<noteq> CHR ''{''" "c = CHR ''}''" "\<not> (cs = [] \<or> hd cs \<noteq> CHR ''}'')"
    by (rule format_safe_bind [OF 2(2) [OF that 2(4)]]) simp
  show ?case unfolding format_loop.simps
    by (intro format_safe_if f b format_safe_error 2(3) 2(4))
qed simp

lemma vformat_to_safe: "args_ok args \<Longrightarrow> format_safe (\<lambda>_. True) (vformat_to loc fmt args)"
  using get_arg_ok [of args 0] write_default_safe format_loop_safe [of args loc 0 "[]" fmt]
  by (auto simp: vformat_to_def split: option.splits)

end
