(* ===== verification/FmtRender.thy ===== *)
theory FmtRender
  imports FmtSafe
begin

text \<open>
  What an argument prints.  \<open>default_text\<close> is the text of a field without specifiers and \<open>spec_output\<close>
  the text under specifiers, both written without the machine words, the padding shifts and the
  writing passes of \<open>format.h\<close>; \<open>write_default_eq\<close> and \<open>write_arg_eq\<close> show that the code prints exactly them.
\<close>

section \<open>Padding\<close>

definition pad_left_of :: "bool \<Rightarrow> align \<Rightarrow> nat \<Rightarrow> nat" where
  "pad_left_of default_right a p =
     (case a of
        align_none \<Rightarrow> if default_right then p else 0
      | align_left \<Rightarrow> 0
      | align_right \<Rightarrow> p
      | align_center \<Rightarrow> p div 2
      | align_numeric \<Rightarrow> p)"

lemma pad_left_of_0 [simp]: "pad_left_of dr a 0 = 0"
  by (cases a) (simp_all add: pad_left_of_def)

definition aligned :: "bool \<Rightarrow> align \<Rightarrow> string \<Rightarrow> nat \<Rightarrow> nat \<Rightarrow> string \<Rightarrow> string" where
  "aligned default_right a fill w k body =
     (let l = pad_left_of default_right a (w - k)
      in concat (replicate l fill) @ body @ concat (replicate (w - k - l) fill))"

definition fill_of :: "'a basic_specs_scheme \<Rightarrow> string" where
  "fill_of specs = take (fill_size specs) (fill_data specs)"

lemma fill_text_eq:
  "1 \<le> fill_size specs \<Longrightarrow> length (fill_data specs) = 4 \<Longrightarrow> fill_text n specs = concat (replicate n (fill_of specs))"
proof -
  assume f: "1 \<le> fill_size specs" "length (fill_data specs) = 4"
  have "concat (replicate n [c]) = replicate n c" for c :: char by (induction n) simp_all
  moreover have "take 1 (fill_data specs) = [fill_data specs ! 0]" using f(2) by (cases "fill_data specs") auto
  ultimately show ?thesis using f by (auto simp: fill_text_def fill_of_def fill_unit_def)
qed

lemma write_padded_eq:
  assumes "specs_width specs \<le> int int_max" and f: "1 \<le> fill_size specs" "length (fill_data specs) = 4"
  shows "write_padded dr specs k body = aligned dr (spec_align specs) (fill_of specs) (nat (specs_width specs)) k body"
proof -
  define p where "p = nat (specs_width specs) - k"
  have p: "(if k < nat (specs_width specs) then nat (specs_width specs) - k else 0) = p" by (simp add: p_def)
  have "p < 2 ^ 31" using assms(1) by (simp add: p_def int_max_def)
  then have "drop_bit (padding_shifts dr ! unat (align_code (spec_align specs))) p = pad_left_of dr (spec_align specs) p"
    by (cases "spec_align specs"; cases dr) (simp_all add: padding_shifts_def pad_left_of_def drop_bit_eq_div)
  then show ?thesis unfolding write_padded_def Let_def p aligned_def
    by (simp add: fill_text_eq [OF f] p_def [symmetric])
qed

section \<open>The text of an argument\<close>

fun default_text :: "fmt_arg \<Rightarrow> string" where
  "default_text (Int_arg v) = show_int (sint v)"
| "default_text (Uint_arg v) = show_int (uint v)"
| "default_text (Long_long_arg v) = show_int (sint v)"
| "default_text (Ulong_long_arg v) = show_int (uint v)"
| "default_text (Bool_arg b) = (if b then ''true'' else ''false'')"
| "default_text (Char_arg c) = [c]"
| "default_text (Float_arg t d f) = d"
| "default_text (Cstring_arg a s) = s"
| "default_text (String_arg s) = s"
| "default_text (Pointer_arg a) = ''0x'' @ base_digits 4 False (unat a)"
| "default_text (Custom_arg f) = []"

fun printable_arg :: "fmt_arg \<Rightarrow> bool" where
  "printable_arg (Cstring_arg a s) \<longleftrightarrow> a \<noteq> 0"
| "printable_arg (Custom_arg f) \<longleftrightarrow> False"
| "printable_arg a \<longleftrightarrow> True"

lemma default_specs_fields [simp]:
  "spec_type default_specs = pres_none" "spec_align default_specs = align_none" "fill_size default_specs = 1"
  "specs_width default_specs = 0" "specs_precision default_specs = -1" "length (fill_data default_specs) = 4"
  by (simp_all add: default_specs_def spec_getters masks align_cast_def)

lemma aligned_none: "aligned dr a fill 0 k body = body"
  by (simp add: aligned_def Let_def pad_left_of_def split: align.splits)

lemma write_default_eq: "printable_arg a \<Longrightarrow> write_default a = Inr (default_text a)"
  by (cases a) (simp_all add: write_default_int_eq word_value_def write_bool_def write_bytes_def write_ptr_eq
      write_padded_eq aligned_none)

text \<open>The code points of a text, as the loop sees them.\<close>

definition code_points :: "string \<Rightarrow> nat list" where
  "code_points s = (case for_each_codepoint (\<lambda>cps cp pos len. (cps @ [cp], True)) [] s of Inl e \<Rightarrow> [] | Inr cps \<Rightarrow> cps)"

definition valid_utf8 :: "string \<Rightarrow> bool" where
  "valid_utf8 s \<longleftrightarrow> list_all scalar_value (code_points s) \<and> s = utf8_text (code_points s)"

lemma code_points_text: "list_all scalar_value cps \<Longrightarrow> code_points (utf8_text cps) = cps"
proof -
  assume cps: "list_all scalar_value cps"
  have "visit (\<lambda>cps cp pos len. (cps @ [cp], True)) acc pos cps = acc @ cps" for acc :: "nat list" and pos
    by (induction cps arbitrary: acc pos) simp_all
  with cps show ?thesis by (simp add: code_points_def for_each_codepoint_text)
qed

lemma valid_utf8_text: "list_all scalar_value cps \<Longrightarrow> valid_utf8 (utf8_text cps)"
  by (simp add: valid_utf8_def code_points_text)

lemma valid_ascii: "ascii_text s \<Longrightarrow> valid_utf8 s"
  using valid_utf8_text [of "map of_char s"] ascii_codes [of s] by simp

text \<open>A string is cut to the precision and measured in code points.\<close>

definition string_output :: "string \<Rightarrow> 'a format_specs_scheme \<Rightarrow> string" where
  "string_output s specs =
     (let cps = (if specs_precision specs < 0 then code_points s else take (nat (specs_precision specs)) (code_points s))
      in aligned False (spec_align specs) (fill_of specs) (nat (specs_width specs)) (display_width cps) (utf8_text cps))"

definition int_output :: "int \<Rightarrow> 'a format_specs_scheme \<Rightarrow> string" where
  "int_output i specs =
     (if spec_type specs = pres_chr
      then aligned False (spec_align specs) (fill_of specs) (nat (specs_width specs)) 1 [char_of (nat \<bar>i\<bar>)]
      else let body = int_body specs (i < 0) (nat \<bar>i\<bar>)
           in aligned True (spec_align specs) (fill_of specs) (nat (specs_width specs)) (length body) body)"

definition bytes_output :: "bool \<Rightarrow> string \<Rightarrow> 'a format_specs_scheme \<Rightarrow> string" where
  "bytes_output dr body specs = aligned dr (spec_align specs) (fill_of specs) (nat (specs_width specs)) (length body) body"

fun spec_output :: "fmt_arg \<Rightarrow> 'a format_specs_scheme \<Rightarrow> string" where
  "spec_output (Int_arg v) specs = int_output (sint v) specs"
| "spec_output (Uint_arg v) specs = int_output (uint v) specs"
| "spec_output (Long_long_arg v) specs = int_output (sint v) specs"
| "spec_output (Ulong_long_arg v) specs = int_output (uint v) specs"
| "spec_output (Bool_arg b) specs =
     (if spec_type specs = pres_none \<or> spec_type specs = pres_string
      then bytes_output False (if b then ''true'' else ''false'') specs
      else int_output (if b then 1 else 0) specs)"
| "spec_output (Char_arg c) specs =
     (if spec_type specs = pres_none \<or> spec_type specs = pres_chr then bytes_output False [c] specs
      else int_output (int (of_char c)) specs)"
| "spec_output (Float_arg t d f) specs = f (format_specs.truncate specs)"
| "spec_output (Cstring_arg a s) specs =
     (if spec_type specs = pres_pointer then bytes_output True (''0x'' @ base_digits 4 False (unat a)) specs
      else string_output s specs)"
| "spec_output (String_arg s) specs = string_output s specs"
| "spec_output (Pointer_arg a) specs = bytes_output True (''0x'' @ base_digits 4 False (unat a)) specs"
| "spec_output (Custom_arg f) specs = []"

text \<open>What \<open>arg_formatter\<close> can print by these specifiers without an error; the debug presentation is left to \<open>write_escaped_string\<close>.\<close>

fun spec_printable :: "fmt_arg \<Rightarrow> 'a format_specs_scheme \<Rightarrow> bool" where
  "spec_printable (Char_arg c) specs \<longleftrightarrow>
     spec_type specs \<noteq> pres_debug \<and>
     (spec_type specs \<in> {pres_none, pres_chr} \<longrightarrow>
       spec_align specs \<noteq> align_numeric \<and> spec_sign specs = sign_none \<and> \<not> spec_alt specs)"
| "spec_printable (Cstring_arg a s) specs \<longleftrightarrow>
     spec_type specs = pres_pointer \<or> (a \<noteq> 0 \<and> valid_utf8 s \<and> spec_type specs \<noteq> pres_debug)"
| "spec_printable (String_arg s) specs \<longleftrightarrow> valid_utf8 s \<and> spec_type specs \<noteq> pres_debug"
| "spec_printable (Custom_arg f) specs \<longleftrightarrow> False"
| "spec_printable a specs \<longleftrightarrow> True"

definition layout_ok :: "'a format_specs_scheme \<Rightarrow> bool" where
  "layout_ok specs \<longleftrightarrow> 0 \<le> specs_width specs \<and> specs_width specs \<le> int int_max \<and> -1 \<le> specs_precision specs \<and>
     1 \<le> fill_size specs \<and> length (fill_data specs) = 4 \<and> \<not> spec_localized specs"

lemma write_integer_eq:
  fixes v :: "'b::len word" and specs :: "'a format_specs_scheme"
  assumes ok: "layout_ok specs" and w: "w = 32 \<or> w = 64" "LENGTH('b) = w"
    and ty: "spec_type specs \<in> {pres_none, pres_dec, pres_hex, pres_oct, pres_bin, pres_chr}"
  shows "write_integer loc a w (make_write_int_arg sg v (spec_sign specs)) specs = Inr (int_output (word_value sg v) specs)"
proof -
  have pad: "write_padded dr specs k body = aligned dr (spec_align specs) (fill_of specs) (nat (specs_width specs)) k body"
    for dr k body using ok by (intro write_padded_eq) (simp_all add: layout_ok_def)
  have n: "nat \<bar>word_value sg v\<bar> < 2 ^ w" using make_write_int_arg_eq(2) [of sg v] w by simp
  have loc: "\<not> spec_localized specs" using ok by (simp add: layout_ok_def)
  show ?thesis
  proof (cases "spec_type specs = pres_chr")
    case True
    with loc show ?thesis
      by (simp add: write_integer_def write_localized_def write_int_def write_char_def make_write_int_arg_eq int_output_def pad)
  next
    case False
    with ty have t: "spec_type specs \<in> {pres_none, pres_dec, pres_hex, pres_oct, pres_bin}" by auto
    from write_int_eq [OF w(1) n t] ok loc False show ?thesis
      by (simp add: layout_ok_def write_integer_def write_localized_def make_write_int_arg_eq int_output_def pad Let_def)
  qed
qed

lemma write_string_eq:
  assumes ok: "layout_ok specs" and s: "valid_utf8 s" and ty: "spec_type specs \<noteq> pres_debug"
  shows "write_string s specs = Inr (string_output s specs)"
proof -
  define cps where "cps = code_points s"
  define m where "m = (if specs_precision specs < 0 then cps else take (nat (specs_precision specs)) cps)"
  have c: "list_all scalar_value cps" "s = utf8_text cps" using s by (simp_all add: valid_utf8_def cps_def)
  have mc: "list_all scalar_value m" using c(1) by (auto simp: m_def list_all_iff dest: in_set_takeD)
  have pre: "take (length (utf8_text (take k cps))) s = utf8_text (take k cps)" for k
    using c(2) by (metis append_eq_conv_conj append_take_drop_id concat_append map_append utf8_text_def)
  have long: "length (utf8_text xs) \<ge> length xs" for xs
  proof (induction xs)
    case (Cons x xs)
    have "0 < length (utf8_encode x)" by (simp add: utf8_encode_def)
    with Cons show ?case by (simp del: length_greater_0_conv)
  qed simp
  have "\<exists>sz. (if 0 \<le> specs_precision specs \<and> nat (specs_precision specs) < length s
      then code_point_index s (nat (specs_precision specs)) else Inr (length s)) = Inr sz \<and> take sz s = utf8_text m"
  proof (cases "0 \<le> specs_precision specs \<and> nat (specs_precision specs) < length s")
    case True
    then show ?thesis using pre code_point_index_text [OF c(1)] c(2) by (simp add: m_def)
  next
    case False
    with long [of cps] c(2) have "m = cps" by (auto simp: m_def)
    with False c(2) show ?thesis by auto
  qed
  then obtain sz where sz: "(if 0 \<le> specs_precision specs \<and> nat (specs_precision specs) < length s
      then code_point_index s (nat (specs_precision specs)) else Inr (length s)) = Inr sz" "take sz s = utf8_text m" by blast
  have pad: "write_padded dr specs k body = aligned dr (spec_align specs) (fill_of specs) (nat (specs_width specs)) k body"
    for dr k body using ok by (intro write_padded_eq) (simp_all add: layout_ok_def)
  have "string_output s specs =
      aligned False (spec_align specs) (fill_of specs) (nat (specs_width specs)) (display_width m) (utf8_text m)"
    by (simp add: string_output_def m_def cps_def Let_def)
  then show ?thesis unfolding write_string_def sz(1) bindR_Inr
    using ty by (simp add: sz(2) compute_width_text [OF mc] pad aligned_none)
qed

lemma write_arg_eq:
  fixes specs :: "'a format_specs_scheme"
  assumes ok: "layout_ok specs" and pr: "presentation_ok (arg_type a) (spec_type specs)" and p: "spec_printable a specs"
  shows "write_arg loc a specs = Inr (spec_output a specs)"
proof -
  have pad: "write_padded dr specs k body = aligned dr (spec_align specs) (fill_of specs) (nat (specs_width specs)) k body"
    for dr k body using ok by (intro write_padded_eq) (simp_all add: layout_ok_def)
  note i = write_integer_eq [OF ok]
  note t = pr [unfolded presentation_ok_def is_integral_type_def]
  show ?thesis
  proof (cases a)
    case (Char_arg c)
    show ?thesis
    proof (cases "spec_type specs \<in> {pres_none, pres_chr}")
      case True
      with Char_arg p show ?thesis
        by (auto simp: check_char_specs_def write_char_def bytes_output_def pad)
    next
      case False
      with Char_arg p t have ty: "spec_type specs \<in> {pres_dec, pres_hex, pres_oct, pres_bin}" by auto
      have "uint (of_nat (of_char c) :: 32 word) = int (of_char c)"
      proof -
        have "(of_char c :: nat) < 2 ^ 32" by (rule less_trans [OF nat_of_char_less_256]) simp
        then show ?thesis by (simp add: take_bit_nat_eq_self unsigned_of_nat)
      qed
      with ty have e: "write_integer loc (Uint_arg (of_nat (of_char c))) 32
          (make_write_int_arg False (of_nat (of_char c) :: 32 word) (spec_sign specs)) specs =
          Inr (int_output (int (of_char c)) specs)"
        by (subst i) (auto simp: word_value_def)
      from ty have "spec_type specs \<noteq> pres_none" "spec_type specs \<noteq> pres_chr" "spec_type specs \<noteq> pres_debug" by auto
      with e Char_arg show ?thesis by (simp add: check_char_specs_def Let_def)
    qed
  next
    case (Bool_arg b)
    have "spec_type specs \<in> {pres_none, pres_string} \<or>
        spec_type specs \<in> {pres_dec, pres_hex, pres_oct, pres_bin, pres_chr}" using t Bool_arg by auto
    then show ?thesis using Bool_arg
      by (auto simp: write_bool_def Let_def i word_value_def write_bytes_def bytes_output_def pad)
  qed (use t p ok in \<open>auto simp: i word_value_def write_string_eq write_ptr_eq bytes_output_def pad\<close>)
qed


end
