(* ===== verification/FmtDesc.thy ===== *)
theory FmtDesc
  imports FmtRender
begin

text \<open>
  The syntax of format specifiers as data. \<open>desc_text\<close> prints a description, \<open>apply_desc\<close> says what it does to the
  packed specifiers, \<open>desc_ok\<close> which descriptions an argument type allows. The state machine of
  \<open>parse_format_specs\<close> reads every such description, in front of the closing brace, as exactly this.
\<close>

section \<open>Widths and precisions\<close>

datatype count = No_count | Lit nat | Arg_auto | Arg_index nat | Arg_name string

fun count_text :: "count \<Rightarrow> string" where
  "count_text No_count = []"
| "count_text (Lit k) = dec k"
| "count_text Arg_auto = ''{}''"
| "count_text (Arg_index i) = CHR ''{'' # dec i @ ''}''"
| "count_text (Arg_name s) = CHR ''{'' # s @ ''}''"

definition name_ok :: "string \<Rightarrow> bool" where
  "name_ok s \<longleftrightarrow> s \<noteq> [] \<and> is_name_start (hd s) \<and> list_all (\<lambda>c. is_name_start c \<or> fmt_digit c) s"

fun count_ok :: "count \<Rightarrow> bool" where
  "count_ok (Lit k) \<longleftrightarrow> k \<le> int_max"
| "count_ok (Arg_index i) \<longleftrightarrow> i \<le> int_max"
| "count_ok (Arg_name s) \<longleftrightarrow> name_ok s"
| "count_ok c \<longleftrightarrow> True"

text \<open>What a count means: the value, the reference, its kind and the argument counter.\<close>

fun read_count :: "count \<Rightarrow> int \<Rightarrow> arg_ref \<Rightarrow> int \<Rightarrow> (int \<times> arg_ref \<times> arg_id_kind \<times> int) res" where
  "read_count No_count v r n = Inr (v, r, id_none, n)"
| "read_count (Lit k) v r n = Inr (int k, r, id_none, n)"
| "read_count Arg_auto v r n = bindR (next_arg_id n) (\<lambda>(i, n). Inr (v, Ref_index i, id_index, n))"
| "read_count (Arg_index i) v r n = bindR (check_arg_id n) (\<lambda>n. Inr (v, Ref_index (int i), id_index, n))"
| "read_count (Arg_name s) v r n = Inr (v, Ref_name s, id_name, check_arg_name n)"

lemma ascii_digit_fmt: "d < 10 \<Longrightarrow> fmt_digit (ascii_digit d)"
  by (simp add: fmt_digit_def ascii_digit_def of_char_of)

lemma dec_fmt_digits: "list_all fmt_digit (dec n)"
  by (auto simp: list_all_iff dest!: dec_digits intro: ascii_digit_fmt)

lemma dec_head: "dec n = c # cs \<Longrightarrow> 1 \<le> n \<Longrightarrow> c \<noteq> CHR ''0''"
proof (induction n arbitrary: cs rule: dec.induct)
  case (1 n)
  show ?case
  proof (cases "n < 10")
    case True
    with 1 have "c = ascii_digit n" by (simp add: dec.simps [of n])
    moreover have "digit_value (ascii_digit n) = n" using True by (rule digit_value_ascii)
    ultimately show ?thesis using 1 by (auto simp: digit_value_def)
  next
    case False
    with 1 obtain ds where "dec (n div 10) = c # ds"
      by (auto simp: dec.simps [of n] append_eq_Cons_conv)
    with 1(1) False show ?thesis by fastforce
  qed
qed

lemma dec_0: "dec 0 = ''0''"
  by (simp add: dec.simps [of 0] ascii_zero)

lemma parse_nonnegative_int_dec:
  assumes "k \<le> int_max" and "rest = [] \<or> \<not> fmt_digit (hd rest)"
  shows "parse_nonnegative_int (dec k @ rest) e = Inr (int k, rest)"
proof -
  have "length (dec k) \<le> 10"
  proof (rule ccontr)
    assume "\<not> length (dec k) \<le> 10"
    then obtain m where m: "length (dec k) = Suc m" "10 \<le> m" by (cases "length (dec k)") auto
    then have "10 ^ m \<le> k" using length_dec [of k m] by auto
    moreover have "(10::nat) ^ 10 \<le> 10 ^ m" using power_increasing [of 10 m "10::nat"] m(2) by simp
    ultimately show False using assms(1) by (simp add: int_max_def)
  qed
  with parse_nonnegative_int_eq [OF dec_fmt_digits dec_nonempty assms(2), of k e] assms(1) show ?thesis
    by (simp add: undec_dec)
qed

lemma digit_apart: "fmt_digit c \<Longrightarrow> c \<noteq> CHR ''{'' \<and> c \<noteq> CHR ''}'' \<and> c \<noteq> CHR '':'' \<and> \<not> is_name_start c"
  by (auto simp: fmt_digit_def is_name_start_def)

lemma name_apart: "is_name_start c \<Longrightarrow> c \<noteq> CHR ''{'' \<and> c \<noteq> CHR ''}'' \<and> c \<noteq> CHR '':'' \<and> \<not> fmt_digit c"
  by (auto simp: fmt_digit_def is_name_start_def)

text \<open>An argument id, in front of a brace or a colon.\<close>

lemma parse_arg_id_index:
  assumes "i \<le> int_max" and "c = CHR ''}'' \<or> c = CHR '':''"
  shows "parse_arg_id (dec i @ c # rest) = Inr (Ref_index (int i), c # rest)"
proof -
  obtain d ds where d: "dec i = d # ds" by (cases "dec i") auto
  then have f: "fmt_digit d" using dec_fmt_digits [of i] by simp
  have c: "\<not> fmt_digit c" using assms(2) by (auto simp: fmt_digit_def)
  show ?thesis
  proof (cases "i = 0")
    case True
    with assms(2) show ?thesis by (auto simp: dec_0 parse_arg_id_def fmt_digit_def)
  next
    case False
    with dec_head [OF d] parse_nonnegative_int_dec [OF assms(1), of "c # rest" "int int_max"] d f c assms(2)
    show ?thesis by (auto simp: parse_arg_id_def)
  qed
qed

lemma parse_arg_id_name:
  assumes "name_ok s" and "c = CHR ''}'' \<or> c = CHR '':''"
  shows "parse_arg_id (s @ c # rest) = Inr (Ref_name s, c # rest)"
proof -
  let ?more = "\<lambda>c. is_name_start c \<or> fmt_digit c"
  from assms(1) obtain d ds where s: "s = d # ds" "is_name_start d" "list_all ?more ds"
    by (cases s) (auto simp: name_ok_def)
  have c: "\<not> ?more c" using assms(2) by (auto simp: fmt_digit_def is_name_start_def)
  have "takeWhile ?more (ds @ c # rest) = ds" "dropWhile ?more (ds @ c # rest) = c # rest"
    using s(3) c by (induction ds) auto
  with s name_apart [OF s(2)] show ?thesis by (simp add: parse_arg_id_def Let_def)
qed

lemma parse_dynamic_spec_text:
  assumes "count_ok c" and "c \<noteq> No_count" and "rest = [] \<or> \<not> fmt_digit (hd rest)"
  shows "parse_dynamic_spec (count_text c @ rest) v r n =
    bindR (read_count c v r n) (\<lambda>(v, r, k, n). Inr (v, r, k, n, rest))"
proof (cases c)
  case (Lit k)
  obtain d ds where d: "dec k = d # ds" by (cases "dec k") auto
  then have "fmt_digit d" using dec_fmt_digits [of k] by simp
  with d Lit parse_nonnegative_int_dec [of k rest "-1"] assms show ?thesis
    by (simp add: parse_dynamic_spec_def)
next
  case Arg_auto
  then show ?thesis by (simp add: parse_dynamic_spec_def fmt_digit_def bindR_assoc split_def)
next
  case (Arg_index i)
  obtain d ds where d: "dec i = d # ds" by (cases "dec i") auto
  then have "fmt_digit d" using dec_fmt_digits [of i] by simp
  note a = digit_apart [OF this]
  have p: "parse_arg_id (d # ds @ CHR ''}'' # rest) = Inr (Ref_index (int i), CHR ''}'' # rest)"
    using parse_arg_id_index [of i "CHR ''}''" rest] Arg_index assms(1) d by simp
  show ?thesis using Arg_index p d a
    by (cases "check_arg_id n") (simp_all add: parse_dynamic_spec_def fmt_digit_def)
next
  case (Arg_name s)
  with assms(1) obtain d ds where d: "s = d # ds" "is_name_start d" by (cases s) (auto simp: name_ok_def)
  note a = name_apart [OF d(2)]
  have p: "parse_arg_id (d # ds @ CHR ''}'' # rest) = Inr (Ref_name s, CHR ''}'' # rest)"
    using parse_arg_id_name [of s "CHR ''}''" rest] Arg_name assms(1) d by simp
  show ?thesis using Arg_name p d a
    by (simp add: parse_dynamic_spec_def fmt_digit_def)
qed (use assms in simp)

section \<open>Descriptions\<close>

text \<open>
  The specifiers of the format-string syntax: \<open>[[fill]align][sign]["#"]["0"][width]["." precision]["L"][type]\<close>.
\<close>

datatype alignment = Default_align | Align align | Fill_align nat align

record spec_desc =
  d_align :: alignment
  d_sign :: "char option"
  d_alt :: bool
  d_zero :: bool
  d_width :: count
  d_precision :: count
  d_locale :: bool
  d_type :: "char option"

fun align_char :: "align \<Rightarrow> char" where
  "align_char align_left = CHR ''<''"
| "align_char align_right = CHR ''>''"
| "align_char align_center = CHR ''^''"
| "align_char a = CHR 0x00"

fun align_text :: "alignment \<Rightarrow> string" where
  "align_text Default_align = []"
| "align_text (Align a) = [align_char a]"
| "align_text (Fill_align cp a) = utf8_encode cp @ [align_char a]"

fun opt_text :: "char option \<Rightarrow> string" where
  "opt_text None = []"
| "opt_text (Some c) = [c]"

definition flag_text :: "bool \<Rightarrow> char \<Rightarrow> string" where
  "flag_text b c = (if b then [c] else [])"

definition precision_text :: "count \<Rightarrow> string" where
  "precision_text c = (if c = No_count then [] else CHR ''.'' # count_text c)"

definition desc_text :: "spec_desc \<Rightarrow> string" where
  "desc_text d = align_text (d_align d) @ opt_text (d_sign d) @ flag_text (d_alt d) CHR ''#'' @
     flag_text (d_zero d) CHR ''0'' @ count_text (d_width d) @ precision_text (d_precision d) @
     flag_text (d_locale d) CHR ''L'' @ opt_text (d_type d)"

text \<open>Presentation types: the type, the upper-case flag and the argument types they are for.\<close>

definition integral_types :: "fmt_type list" where
  "integral_types =
     [int_type, uint_type, long_long_type, ulong_long_type, int128_type, uint128_type, bool_type, char_type]"

definition float_types :: "fmt_type list" where
  "float_types = [float_type, double_type, long_double_type]"

definition type_table :: "(char \<times> presentation_type \<times> bool \<times> fmt_type list) list" where
  "type_table =
     [(CHR ''d'', pres_dec, False, integral_types), (CHR ''x'', pres_hex, False, integral_types),
      (CHR ''X'', pres_hex, True, integral_types), (CHR ''o'', pres_oct, False, integral_types),
      (CHR ''b'', pres_bin, False, integral_types), (CHR ''B'', pres_bin, True, integral_types),
      (CHR ''e'', pres_exp, False, float_types), (CHR ''E'', pres_exp, True, float_types),
      (CHR ''f'', pres_fixed, False, float_types), (CHR ''F'', pres_fixed, True, float_types),
      (CHR ''g'', pres_general, False, float_types), (CHR ''G'', pres_general, True, float_types),
      (CHR ''a'', pres_hexfloat, False, float_types), (CHR ''A'', pres_hexfloat, True, float_types),
      (CHR ''c'', pres_chr, False, remove1 bool_type integral_types),
      (CHR ''s'', pres_string, False, [bool_type, string_type, cstring_type]),
      (CHR ''p'', pres_pointer, False, [pointer_type, cstring_type]),
      (CHR ''?'', pres_debug, False, [char_type, string_type, cstring_type])]"

fun type_ok :: "fmt_type \<Rightarrow> char option \<Rightarrow> bool" where
  "type_ok t None \<longleftrightarrow> True"
| "type_ok t (Some c) \<longleftrightarrow> (case map_of type_table c of None \<Rightarrow> False | Some (p, up, ts) \<Rightarrow> t \<in> set ts)"

fun alignment_ok :: "alignment \<Rightarrow> bool" where
  "alignment_ok Default_align \<longleftrightarrow> True"
| "alignment_ok (Align a) \<longleftrightarrow> a \<in> {align_left, align_right, align_center}"
| "alignment_ok (Fill_align cp a) \<longleftrightarrow>
     a \<in> {align_left, align_right, align_center} \<and> scalar_value cp \<and> cp \<noteq> 0x7B \<and> cp \<noteq> 0x7D"

definition signed_types :: "fmt_type list" where
  "signed_types = [int_type, long_long_type, int128_type] @ float_types"

text \<open>
  The specifiers an argument type allows. A width does not start with a zero, and a precision is for numbers with
  a point and for texts.
\<close>

definition desc_ok :: "fmt_type \<Rightarrow> spec_desc \<Rightarrow> bool" where
  "desc_ok t d \<longleftrightarrow>
     alignment_ok (d_align d) \<and>
     (d_sign d \<noteq> None \<longrightarrow> the (d_sign d) \<in> {CHR ''+'', CHR ''-'', CHR '' ''} \<and> t \<in> set signed_types) \<and>
     (d_alt d \<or> d_zero d \<or> d_locale d \<longrightarrow> t \<in> set (integral_types @ float_types)) \<and>
     count_ok (d_width d) \<and> d_width d \<noteq> Lit 0 \<and> count_ok (d_precision d) \<and>
     (d_precision d \<noteq> No_count \<longrightarrow> t \<in> set (float_types @ [string_type, cstring_type])) \<and>
     type_ok t (d_type d)"

section \<open>What a description does to specifiers\<close>

fun apply_align :: "alignment \<Rightarrow> dynamic_format_specs \<Rightarrow> dynamic_format_specs res" where
  "apply_align Default_align specs = Inr specs"
| "apply_align (Align a) specs = Inr (set_align a specs)"
| "apply_align (Fill_align cp a) specs = bindR (set_fill (utf8_encode cp) specs) (\<lambda>specs. Inr (set_align a specs))"

fun apply_sign :: "char option \<Rightarrow> dynamic_format_specs \<Rightarrow> dynamic_format_specs" where
  "apply_sign None specs = specs"
| "apply_sign (Some c) specs =
     (if c = CHR ''-'' then specs else set_sign (if c = CHR '' '' then sign_space else sign_plus) specs)"

definition apply_zero :: "bool \<Rightarrow> dynamic_format_specs \<Rightarrow> dynamic_format_specs" where
  "apply_zero b specs =
     (if b \<and> spec_align specs = align_none then set_fill_char CHR ''0'' (set_align align_numeric specs) else specs)"

definition apply_width :: "count \<Rightarrow> dynamic_format_specs \<Rightarrow> int \<Rightarrow> (dynamic_format_specs \<times> int) res" where
  "apply_width c specs n =
     (if c = No_count then Inr (specs, n)
      else bindR (read_count c (specs_width specs) (width_ref specs) n) (\<lambda>(v, r, k, n).
        Inr (set_dynamic_width k (specs\<lparr>specs_width := v, width_ref := r\<rparr>), n)))"

definition apply_precision :: "count \<Rightarrow> dynamic_format_specs \<Rightarrow> int \<Rightarrow> (dynamic_format_specs \<times> int) res" where
  "apply_precision c specs n =
     (if c = No_count then Inr (specs, n)
      else bindR (read_count c (specs_precision specs) (precision_ref specs) n) (\<lambda>(v, r, k, n).
        Inr (set_dynamic_precision k (specs\<lparr>specs_precision := v, precision_ref := r\<rparr>), n)))"

fun apply_type :: "char option \<Rightarrow> dynamic_format_specs \<Rightarrow> dynamic_format_specs" where
  "apply_type None specs = specs"
| "apply_type (Some c) specs =
     (case map_of type_table c of
        None \<Rightarrow> specs
      | Some (p, up, ts) \<Rightarrow> set_type p (if up then set_upper specs else specs))"

definition apply_desc :: "spec_desc \<Rightarrow> dynamic_format_specs \<Rightarrow> int \<Rightarrow> (dynamic_format_specs \<times> int) res" where
  "apply_desc d specs n =
     bindR (apply_align (d_align d) specs) (\<lambda>specs.
     let specs = apply_sign (d_sign d) specs;
         specs = (if d_alt d then set_alt specs else specs)
     in bindR (apply_width (d_width d) (apply_zero (d_zero d) specs) n) (\<lambda>(specs, n).
        bindR (apply_precision (d_precision d) specs n) (\<lambda>(specs, n).
        let specs = (if d_locale d then set_localized specs else specs)
        in Inr (apply_type (d_type d) specs, n))))"

section \<open>The parser reads descriptions\<close>

lemma sets_members:
  "in_set t integral_set \<longleftrightarrow> t \<in> set integral_types"
  "in_set t float_set \<longleftrightarrow> t \<in> set float_types"
  "in_set t (sint_set OR float_set) \<longleftrightarrow> t \<in> set signed_types"
  "in_set t (float_set OR string_set OR cstring_set) \<longleftrightarrow> t \<in> set (float_types @ [string_type, cstring_type])"
  "in_set t (bool_set OR string_set OR cstring_set) \<longleftrightarrow> t \<in> set [bool_type, string_type, cstring_type]"
  "in_set t (pointer_set OR cstring_set) \<longleftrightarrow> t \<in> set [pointer_type, cstring_type]"
  "in_set t (char_set OR string_set OR cstring_set) \<longleftrightarrow> t \<in> set [char_type, string_type, cstring_type]"
  "is_arithmetic_type t \<longleftrightarrow> t \<in> set (integral_types @ float_types)"
  by (cases t; simp add: in_set_def integral_types_def float_types_def signed_types_def is_arithmetic_type_def
      integral_set_def sint_set_def uint_set_def bool_set_def char_set_def float_set_def string_set_def cstring_set_def
      pointer_set_def type_set_def)+

text \<open>One turn on an ordinary segment.\<close>

lemma specs_loop_next:
  assumes "spec_step t c st specs n s = Inr (Spec_next st' specs' n' rest)" and "s \<noteq> []"
  shows "specs_loop t c st specs n s = specs_loop t (hd rest) st' specs' n' rest"
  using assms by (simp add: specs_loop.simps [of t c st specs n s])

lemma specs_loop_return:
  assumes "spec_step t c st specs n s = Inr (Spec_return specs' n' rest)" and "s \<noteq> []"
  shows "specs_loop t c st specs n s = Inr (specs', n', rest)"
  using assms by (simp add: specs_loop.simps [of t c st specs n s])

lemma spec_step_default:
  assumes "c = CHR 0x00 \<or> (128::nat) \<le> of_char c"
  shows "spec_step t c st specs n s = parse_fill st specs n s"
proof -
  have "c \<notin> set ''<>^+ -#0{.LdXxoBbEeFfGgAacsp?}''" using assms by auto
  moreover have "\<not> fmt_digit c" using assms by (auto simp: fmt_digit_def)
  ultimately show ?thesis by (simp add: spec_step_def Let_def)
qed

text \<open>The state after a segment that may be missing.\<close>

definition entered :: "bool \<Rightarrow> spec_state \<Rightarrow> spec_state \<Rightarrow> spec_state" where
  "entered b st' st = (if b then st' else st)"

lemma entered_code [simp]: "state_code (entered b st' st) = (if b then state_code st' else state_code st)"
  by (simp add: entered_def)

lemma loop_sign:
  assumes "state_code st < state_code st_sign"
    and "sg \<noteq> None \<longrightarrow> the sg \<in> {CHR ''+'', CHR ''-'', CHR '' ''} \<and> t \<in> set signed_types"
  shows "specs_loop t (hd (opt_text sg @ rest)) st specs n (opt_text sg @ rest) =
    specs_loop t (hd rest) (entered (sg \<noteq> None) st_sign st) (apply_sign sg specs) n rest"
proof (cases sg)
  case (Some c)
  then have t: "in_set t (sint_set OR float_set)" and c: "c = CHR ''+'' \<or> c = CHR ''-'' \<or> c = CHR '' ''"
    using assms(2) by (auto simp: signed_types_def float_types_def)
  have "spec_step t c st specs n (c # rest) = Inr (Spec_next st_sign (apply_sign sg specs) n rest)"
    using c assms(1) t Some by (elim disjE; simp add: spec_step_def Let_def enter_state_def signed_types_def float_types_def)
  from specs_loop_next [OF this] Some show ?thesis by (simp add: entered_def)
qed (simp add: entered_def)

lemma loop_alt:
  assumes "state_code st < state_code st_hash" and "b \<longrightarrow> t \<in> set (integral_types @ float_types)"
  shows "specs_loop t (hd (flag_text b CHR ''#'' @ rest)) st specs n (flag_text b CHR ''#'' @ rest) =
    specs_loop t (hd rest) (entered b st_hash st) (if b then set_alt specs else specs) n rest"
proof (cases b)
  case True
  with assms have "spec_step t CHR ''#'' st specs n (CHR ''#'' # rest) = Inr (Spec_next st_hash (set_alt specs) n rest)"
    by (simp add: spec_step_def Let_def enter_state_def sets_members)
  from specs_loop_next [OF this] True show ?thesis by (simp add: entered_def flag_text_def)
qed (simp add: entered_def flag_text_def)

lemma loop_zero:
  assumes "state_code st < state_code st_zero" and "b \<longrightarrow> t \<in> set (integral_types @ float_types)"
  shows "specs_loop t (hd (flag_text b CHR ''0'' @ rest)) st specs n (flag_text b CHR ''0'' @ rest) =
    specs_loop t (hd rest) (entered b st_zero st) (apply_zero b specs) n rest"
proof (cases b)
  case True
  with assms have "spec_step t CHR ''0'' st specs n (CHR ''0'' # rest) = Inr (Spec_next st_zero (apply_zero b specs) n rest)"
    by (simp add: spec_step_def Let_def parse_zero_def enter_state_def sets_members apply_zero_def)
  from specs_loop_next [OF this] True show ?thesis by (simp add: entered_def flag_text_def)
qed (simp add: entered_def flag_text_def apply_zero_def)

lemma loop_locale:
  assumes "state_code st < state_code st_locale" and "b \<longrightarrow> t \<in> set (integral_types @ float_types)"
  shows "specs_loop t (hd (flag_text b CHR ''L'' @ rest)) st specs n (flag_text b CHR ''L'' @ rest) =
    specs_loop t (hd rest) (entered b st_locale st) (if b then set_localized specs else specs) n rest"
proof (cases b)
  case True
  with assms have "spec_step t CHR ''L'' st specs n (CHR ''L'' # rest) = Inr (Spec_next st_locale (set_localized specs) n rest)"
    by (simp add: spec_step_def Let_def enter_state_def sets_members fmt_digit_def)
  from specs_loop_next [OF this] True show ?thesis by (simp add: entered_def flag_text_def)
qed (simp add: entered_def flag_text_def)

lemma count_head:
  assumes "count_ok c" and "c \<noteq> No_count"
  obtains x xs where "count_text c = x # xs" and "fmt_digit x \<or> x = CHR ''{''" and "c \<noteq> Lit 0 \<longrightarrow> x \<noteq> CHR ''0''"
proof (cases c)
  case (Lit k)
  obtain d ds where d: "dec k = d # ds" by (cases "dec k") auto
  then have "fmt_digit d" using dec_fmt_digits [of k] by simp
  moreover have "c \<noteq> Lit 0 \<longrightarrow> d \<noteq> CHR ''0''" using dec_head [OF d] Lit by auto
  ultimately show ?thesis using that d Lit by simp
qed (use assms that in auto)

lemma loop_width:
  assumes "state_code st < state_code st_width" and "count_ok c" "c \<noteq> Lit 0" and "rest \<noteq> []" "\<not> fmt_digit (hd rest)"
  shows "specs_loop t (hd (count_text c @ rest)) st specs n (count_text c @ rest) =
    bindR (apply_width c specs n) (\<lambda>(specs, n).
      specs_loop t (hd rest) (entered (c \<noteq> No_count) st_width st) specs n rest)"
proof (cases "c = No_count")
  case False
  obtain x xs where x: "count_text c = x # xs" "fmt_digit x \<or> x = CHR ''{''" "x \<noteq> CHR ''0''"
    using count_head [OF assms(2) False] assms(3) by metis
  have a: "x \<notin> set ''<>^+ -#0''" using x by (auto simp: fmt_digit_def)
  let ?p = "bindR (apply_width c specs n) (\<lambda>(specs, n). Inr (Spec_next st_width specs n rest))"
  have p: "parse_width (x # xs @ rest) specs n = bindR (apply_width c specs n) (\<lambda>(specs, n). Inr (specs, n, rest))"
    using parse_dynamic_spec_text [OF assms(2) False, of rest] assms(5) x(1) False
    by (simp add: parse_width_def apply_width_def bindR_assoc split_def)
  have "spec_step t x st specs n (x # xs @ rest) = ?p"
    using a x assms(1) by (simp add: spec_step_def Let_def enter_state_def p bindR_assoc split_def)
  with False x(1) show ?thesis
    by (cases "apply_width c specs n") (auto simp: specs_loop.simps [of t x st specs n "x # xs @ rest"] entered_def)
qed (simp add: entered_def apply_width_def)

lemma loop_precision:
  assumes "state_code st < state_code st_precision" and "count_ok c" and "rest \<noteq> []" "\<not> fmt_digit (hd rest)"
    and "c \<noteq> No_count \<longrightarrow> t \<in> set (float_types @ [string_type, cstring_type])"
  shows "specs_loop t (hd (precision_text c @ rest)) st specs n (precision_text c @ rest) =
    bindR (apply_precision c specs n) (\<lambda>(specs, n).
      specs_loop t (hd rest) (entered (c \<noteq> No_count) st_precision st) specs n rest)"
proof (cases "c = No_count")
  case False
  obtain x xs where x: "count_text c = x # xs" using count_head [OF assms(2) False] by metis
  let ?s = "CHR ''.'' # x # xs @ rest"
  let ?p = "bindR (apply_precision c specs n) (\<lambda>(specs, n). Inr (Spec_next st_precision specs n rest))"
  have p: "parse_precision ?s specs n = bindR (apply_precision c specs n) (\<lambda>(specs, n). Inr (specs, n, rest))"
    using parse_dynamic_spec_text [OF assms(2) False, of rest] assms(4) x(1) False
    by (simp add: parse_precision_def apply_precision_def bindR_assoc split_def)
  have "spec_step t CHR ''.'' st specs n ?s = ?p"
    using assms(1,5) False by (simp add: spec_step_def Let_def enter_state_def p bindR_assoc split_def fmt_digit_def sets_members float_types_def)
  with False x(1) show ?thesis
    by (cases "apply_precision c specs n") (auto simp: specs_loop.simps [of t "CHR ''.''" st specs n ?s] entered_def precision_text_def)
qed (simp add: entered_def apply_precision_def precision_text_def)

lemma spec_step_types:
  "spec_step t CHR ''d'' st specs n s = parse_presentation_type t pres_dec integral_set specs n s"
  "spec_step t CHR ''X'' st specs n s = parse_presentation_type t pres_hex integral_set (set_upper specs) n s"
  "spec_step t CHR ''x'' st specs n s = parse_presentation_type t pres_hex integral_set specs n s"
  "spec_step t CHR ''o'' st specs n s = parse_presentation_type t pres_oct integral_set specs n s"
  "spec_step t CHR ''B'' st specs n s = parse_presentation_type t pres_bin integral_set (set_upper specs) n s"
  "spec_step t CHR ''b'' st specs n s = parse_presentation_type t pres_bin integral_set specs n s"
  "spec_step t CHR ''E'' st specs n s = parse_presentation_type t pres_exp float_set (set_upper specs) n s"
  "spec_step t CHR ''e'' st specs n s = parse_presentation_type t pres_exp float_set specs n s"
  "spec_step t CHR ''F'' st specs n s = parse_presentation_type t pres_fixed float_set (set_upper specs) n s"
  "spec_step t CHR ''f'' st specs n s = parse_presentation_type t pres_fixed float_set specs n s"
  "spec_step t CHR ''G'' st specs n s = parse_presentation_type t pres_general float_set (set_upper specs) n s"
  "spec_step t CHR ''g'' st specs n s = parse_presentation_type t pres_general float_set specs n s"
  "spec_step t CHR ''A'' st specs n s = parse_presentation_type t pres_hexfloat float_set (set_upper specs) n s"
  "spec_step t CHR ''a'' st specs n s = parse_presentation_type t pres_hexfloat float_set specs n s"
  "spec_step t CHR ''s'' st specs n s = parse_presentation_type t pres_string (bool_set OR string_set OR cstring_set) specs n s"
  "spec_step t CHR ''p'' st specs n s = parse_presentation_type t pres_pointer (pointer_set OR cstring_set) specs n s"
  "spec_step t CHR ''?'' st specs n s = parse_presentation_type t pres_debug (char_set OR string_set OR cstring_set) specs n s"
  "spec_step t CHR ''c'' st specs n s =
    (if t = bool_type then Inl (FormatError ''invalid format specifier'')
     else parse_presentation_type t pres_chr integral_set specs n s)"
  by (simp_all add: spec_step_def Let_def fmt_digit_def)

lemma spec_step_type:
  assumes "type_ok t (Some c)"
  shows "spec_step t c st specs n (c # rest) = Inr (Spec_return (apply_type (Some c) specs) n rest)"
proof -
  from assms obtain p up ts where m: "map_of type_table c = Some (p, up, ts)" and t: "t \<in> set ts"
    by (auto split: option.splits)
  from map_of_SomeD [OF m] have
    "spec_step t c st specs n (c # rest) = Inr (Spec_return (set_type p (if up then set_upper specs else specs)) n rest)"
    using t unfolding type_table_def list.set insert_iff empty_iff prod.inject
    by (elim disjE conjE FalseE; simp add: spec_step_types parse_presentation_type_def sets_members)
      (auto simp: integral_types_def float_types_def is_integral_type_def)
  with m show ?thesis by simp
qed

lemma loop_type:
  assumes "type_ok t ty"
  shows "specs_loop t (hd (opt_text ty @ CHR ''}'' # rest)) st specs n (opt_text ty @ CHR ''}'' # rest) =
    Inr (apply_type ty specs, n, CHR ''}'' # rest)"
proof (cases ty)
  case None
  then show ?thesis by (simp add: specs_loop.simps [of t "CHR ''}''"] spec_step_def Let_def fmt_digit_def)
next
  case (Some c)
  with specs_loop_return [OF spec_step_type] assms show ?thesis by simp
qed

section \<open>Fill characters\<close>

lemma code_point_length_table:
  "list_all (\<lambda>k. unat (drop_bit (2 * k) (0x3a55000000000000 :: 64 word) AND 3) + 1 =
      (if utf8_lengths ! k = 0 then 1 else utf8_lengths ! k)) [0..<32]"
  by (simp add: upt_rec utf8_lengths_def nth_append)

lemma code_point_length_eq:
  "code_point_length c = (let l = utf8_lengths ! (of_char c div 8) in if l = 0 then 1 else l)"
proof -
  have "of_char c div 8 < (32::nat)" by (rule less_mult_imp_div_less) simp
  with code_point_length_table show ?thesis by (simp add: code_point_length_def list_all_iff)
qed

lemma code_point_length_encode:
  assumes "scalar_value cp"
  shows "code_point_length (hd (utf8_encode cp)) = length (utf8_encode cp)"
proof -
  have l: "cp \<le> 0x10FFFF" using assms by (simp add: scalar_value_def)
  consider "cp < 0x80" | "0x80 \<le> cp" "cp < 0x800" | "0x800 \<le> cp" "cp < 0x10000" | "0x10000 \<le> cp" by linarith
  then show ?thesis
  proof cases
    case 1
    then have "cp div 8 < 16" by simp
    with 1 show ?thesis by (simp add: utf8_encode_def code_point_length_eq utf8_lengths_def nth_append of_char_of)
  next
    case 2
    then have "(192 + cp div 64) div 8 - 24 < 4" "24 \<le> (192 + cp div 64) div 8" "192 + cp div 64 < 256" by auto
    moreover have "[2, 2, 2, 2, 3, 3, 4, 0] ! k = (2::nat)" if "k < 4" for k
      using that by (auto simp: less_Suc_eq numeral_eq_Suc)
    ultimately show ?thesis using 2
      by (simp add: utf8_encode_def code_point_length_eq utf8_lengths_def nth_append of_char_of)
  next
    case 3
    then have "(224 + cp div 4096) div 8 = 28 \<or> (224 + cp div 4096) div 8 = 29" "224 + cp div 4096 < 256" by auto
    with 3 show ?thesis by (auto simp: utf8_encode_def code_point_length_eq utf8_lengths_def nth_append of_char_of)
  next
    case 4
    with l have "(240 + cp div 262144) div 8 = 30" "240 + cp div 262144 < 256" by auto
    with 4 show ?thesis by (simp add: utf8_encode_def code_point_length_eq utf8_lengths_def nth_append of_char_of)
  qed
qed

lemma set_fill_encode: "\<exists>sp. set_fill (utf8_encode cp) specs = Inr sp"
  using utf8_encode_length(2) [of cp] by (auto simp: set_fill_def Let_def)

lemma parse_align_char_text:
  "a \<in> {align_left, align_right, align_center} \<Longrightarrow> parse_align_char (align_char a) = a"
  by (auto simp: parse_align_char_def)

lemma utf8_encode_first:
  assumes "scalar_value cp" and "cp \<noteq> 0x7B" "cp \<noteq> 0x7D"
  shows "hd (utf8_encode cp) \<noteq> CHR ''{'' \<and> hd (utf8_encode cp) \<noteq> CHR ''}''"
proof (cases "cp < 0x80")
  case True
  then have "(of_char (hd (utf8_encode cp)) :: nat) = cp" by (simp add: utf8_encode_def of_char_of)
  with assms show ?thesis by auto
next
  case False
  have "of_char (hd (utf8_encode cp)) \<ge> (128::nat)" using False assms(1)
    by (auto simp: utf8_encode_def of_char_of scalar_value_def)
  then show ?thesis by auto
qed

lemma parse_fill_text:
  assumes "alignment_ok (Fill_align cp a)" and "rest \<noteq> []"
  shows "parse_fill st_start specs n (utf8_encode cp @ align_char a # rest) =
    bindR (apply_align (Fill_align cp a) specs) (\<lambda>specs. Inr (Spec_next st_align specs n rest))"
proof -
  let ?e = "utf8_encode cp"
  have e: "?e \<noteq> []" "hd (?e @ align_char a # rest) = hd ?e" using utf8_encode_length(1) [of cp] by auto
  have cp: "scalar_value cp" "cp \<noteq> 0x7B" "cp \<noteq> 0x7D" and a: "a \<in> {align_left, align_right, align_center}"
    using assms by simp_all
  have "parse_align_char (align_char a) = a" "a \<noteq> align_none" using parse_align_char_text [OF a] a by auto
  with e utf8_encode_first [OF cp] set_fill_encode [of cp specs] code_point_length_encode [OF cp(1)] assms(2) show ?thesis
    by (auto simp: parse_fill_def Let_def nth_append enter_state_def)
qed

text \<open>The first turn knows a fill character by the alignment behind it.\<close>

lemma parse_align_segment:
  assumes "alignment_ok al" and "rest \<noteq> []"
    and "\<And>c d cs. rest = c # d # cs \<Longrightarrow> parse_align_char d \<noteq> align_none \<Longrightarrow> c = CHR ''}''"
    and "al = Default_align \<or> parse_align_char (hd rest) = align_none"
  shows "parse_format_specs (align_text al @ rest) specs n t =
    bindR (apply_align al specs) (\<lambda>specs.
      specs_loop t (hd rest) (entered (al \<noteq> Default_align) st_align st_start) specs n rest)"
proof (cases al)
  case Default_align
  show ?thesis
  proof (cases "1 < length rest \<and> parse_align_char (rest ! 1) \<noteq> align_none")
    case True
    then obtain c d cs where r: "rest = c # d # cs" "parse_align_char d \<noteq> align_none" by (cases rest; cases "tl rest") auto
    with assms(3) have c: "c = CHR ''}''" by blast
    have "parse_format_specs rest specs n t = specs_loop t CHR 0x00 st_start specs n rest"
      using True by (auto simp: parse_format_specs_def)
    also have "\<dots> = Inr (specs, n, rest)"
      using spec_step_default [of "CHR 0x00" t st_start specs n rest] r c
      by (intro specs_loop_return) (simp_all add: parse_fill_def)
    also have "\<dots> = specs_loop t (hd rest) st_start specs n rest"
      using r c loop_type [of t None "d # cs" st_start specs n] by simp
    finally show ?thesis using Default_align by (simp add: entered_def)
  qed (use Default_align assms(2) in \<open>auto simp: parse_format_specs_def Let_def entered_def\<close>)
next
  case (Align a)
  then have a: "align_char a = CHR ''<'' \<or> align_char a = CHR ''>'' \<or> align_char a = CHR ''^''"
    "parse_align_char (align_char a) = a" using assms(1) parse_align_char_text [of a] by auto
  obtain r rs where r: "rest = r # rs" using assms(2) by (cases rest) auto
  with assms(4) Align have "parse_align_char r = align_none" by simp
  then have "parse_format_specs (align_char a # rest) specs n t = specs_loop t (align_char a) st_start specs n (align_char a # rest)"
    using r by (simp add: parse_format_specs_def)
  moreover have "spec_step t (align_char a) st_start specs n (align_char a # rest) = Inr (Spec_next st_align (set_align a specs) n rest)"
    using a by (auto simp: spec_step_def Let_def enter_state_def)
  ultimately show ?thesis using specs_loop_next Align by (simp add: entered_def)
next
  case (Fill_align cp a)
  let ?s = "utf8_encode cp @ align_char a # rest"
  obtain c0 where c0: "parse_format_specs ?s specs n t = specs_loop t c0 st_start specs n ?s"
    "c0 = CHR 0x00 \<or> (128::nat) \<le> of_char c0"
  proof (cases "cp < 0x80")
    case True
    have "parse_align_char (align_char a) \<noteq> align_none" using Fill_align assms(1) parse_align_char_text [of a] by auto
    with True that [of "CHR 0x00"] show ?thesis by (simp add: utf8_encode_def parse_format_specs_def)
  next
    case False
    have tail: "take_bit 8 (128 + x mod 64) = 128 + (x mod 64 :: nat)" for x
    proof -
      have "x mod 64 < 64" by simp
      then have "128 + x mod 64 < 2 ^ 8" by simp
      then show ?thesis by (rule take_bit_nat_eq_self)
    qed
    have "parse_align_char (?s ! 1) = align_none"
      using False by (auto simp: tail utf8_encode_def parse_align_char_def char_of_eq_iff)
    moreover have "hd ?s = hd (utf8_encode cp)" using utf8_encode_length(1) [of cp] by (cases "utf8_encode cp") auto
    moreover have "of_char (hd (utf8_encode cp)) \<ge> (128::nat)" using False Fill_align assms(1)
      by (auto simp: utf8_encode_def of_char_of scalar_value_def)
    moreover have "utf8_encode cp \<noteq> []" using utf8_encode_length(1) [of cp] by auto
    ultimately show ?thesis using that [of "hd (utf8_encode cp)"] by (simp add: parse_format_specs_def)
  qed
  have "spec_step t c0 st_start specs n ?s = bindR (apply_align al specs) (\<lambda>specs. Inr (Spec_next st_align specs n rest))"
    using spec_step_default [OF c0(2)] parse_fill_text [of cp a rest specs n] Fill_align assms by simp
  then show ?thesis using c0(1) Fill_align set_fill_encode [of cp specs]
    by (auto simp: specs_loop.simps [of t c0 st_start specs n ?s] entered_def)
qed

section \<open>The whole description\<close>

text \<open>No alignment character stands behind the alignment.\<close>

definition plain :: "string \<Rightarrow> bool" where
  "plain s \<longleftrightarrow> list_all (\<lambda>c. parse_align_char c = align_none) s"

lemma plain_simps [simp]:
  "plain []" "plain (c # s) \<longleftrightarrow> parse_align_char c = align_none \<and> plain s" "plain (s @ s') \<longleftrightarrow> plain s \<and> plain s'"
  by (simp_all add: plain_def)

lemma plain_chars: "fmt_digit c \<or> is_name_start c \<Longrightarrow> parse_align_char c = align_none"
  by (auto simp: fmt_digit_def is_name_start_def parse_align_char_def)

lemma plain_dec: "plain (dec n)"
  using dec_fmt_digits [of n] by (auto simp: plain_def list_all_iff intro: plain_chars)

lemma plain_name: "name_ok s \<Longrightarrow> plain s"
  by (auto simp: plain_def name_ok_def list_all_iff intro: plain_chars)

lemma plain_count: "count_ok c \<Longrightarrow> plain (count_text c)"
  by (cases c) (simp_all add: plain_dec plain_name parse_align_char_def)

lemma plain_type: "type_ok t ty \<Longrightarrow> plain (opt_text ty)"
  by (cases ty) (auto simp: type_table_def parse_align_char_def split: if_splits)

definition desc_tail :: "spec_desc \<Rightarrow> string" where
  "desc_tail d = opt_text (d_sign d) @ flag_text (d_alt d) CHR ''#'' @
     flag_text (d_zero d) CHR ''0'' @ count_text (d_width d) @ precision_text (d_precision d) @
     flag_text (d_locale d) CHR ''L'' @ opt_text (d_type d)"

lemma plain_tail:
  assumes "desc_ok t d"
  shows "plain (desc_tail d)"
proof -
  have "plain (opt_text (d_sign d))"
  proof (cases "d_sign d")
    case (Some c)
    with assms have "c \<in> {CHR ''+'', CHR ''-'', CHR '' ''}" by (simp add: desc_ok_def)
    with Some show ?thesis by (auto simp: parse_align_char_def)
  qed simp
  moreover have "plain (flag_text b c)" if "parse_align_char c = align_none" for b c
    using that by (simp add: flag_text_def)
  moreover have "plain (precision_text (d_precision d))" "plain (count_text (d_width d))" "plain (opt_text (d_type d))"
    using assms plain_count plain_type [of t "d_type d"] unfolding desc_ok_def
    by (simp_all add: precision_text_def parse_align_char_def)
  ultimately show ?thesis by (simp add: desc_tail_def parse_align_char_def)
qed

lemma plain_front:
  assumes "plain s" and "s @ CHR ''}'' # rest = c # d # cs" and "parse_align_char d \<noteq> align_none"
  shows "c = CHR ''}''"
proof (cases s)
  case (Cons x xs)
  with assms show ?thesis by (cases xs) (auto simp: parse_align_char_def)
qed (use assms in simp)

theorem parse_format_specs_desc:
  assumes ok: "desc_ok t d"
  shows "parse_format_specs (desc_text d @ CHR ''}'' # rest) specs n t =
    bindR (apply_desc d specs n) (\<lambda>(specs, n). Inr (specs, n, CHR ''}'' # rest))"
proof -
  let ?r7 = "opt_text (d_type d) @ CHR ''}'' # rest"
  let ?r6 = "flag_text (d_locale d) CHR ''L'' @ ?r7"
  let ?r5 = "precision_text (d_precision d) @ ?r6"
  let ?r4 = "count_text (d_width d) @ ?r5"
  let ?r3 = "flag_text (d_zero d) CHR ''0'' @ ?r4"
  let ?r2 = "flag_text (d_alt d) CHR ''#'' @ ?r3"
  let ?r1 = "opt_text (d_sign d) @ ?r2"
  have r1: "?r1 = desc_tail d @ CHR ''}'' # rest" by (simp add: desc_tail_def)
  have hd1: "parse_align_char (hd ?r1) = align_none" "?r1 \<noteq> []"
    using plain_tail [OF ok] unfolding r1 by (cases "desc_tail d"; simp add: parse_align_char_def)+
  have ty: "type_ok t (d_type d)" using ok by (simp add: desc_ok_def)
  have d7: "\<not> fmt_digit (hd ?r7)" "?r7 \<noteq> []"
    using ty by (cases "d_type d"; auto simp: fmt_digit_def type_table_def split: if_splits)+
  then have d6: "\<not> fmt_digit (hd ?r6)" "?r6 \<noteq> []" by (auto simp: flag_text_def fmt_digit_def)
  then have d5: "\<not> fmt_digit (hd ?r5)" "?r5 \<noteq> []" by (auto simp: precision_text_def fmt_digit_def)
  have "parse_format_specs (desc_text d @ CHR ''}'' # rest) specs n t = parse_format_specs (align_text (d_align d) @ ?r1) specs n t"
    by (simp add: desc_text_def)
  also have "\<dots> = bindR (apply_align (d_align d) specs) (\<lambda>specs.
      specs_loop t (hd ?r1) (entered (d_align d \<noteq> Default_align) st_align st_start) specs n ?r1)"
    using ok hd1 plain_front [OF plain_tail [OF ok]] unfolding r1
    by (intro parse_align_segment) (auto simp: desc_ok_def)
  also have "\<dots> = bindR (apply_desc d specs n) (\<lambda>(specs, n). Inr (specs, n, CHR ''}'' # rest))"
  proof (cases "apply_align (d_align d) specs")
    case (Inr sp)
    define st where "st = entered (d_align d \<noteq> Default_align) st_align st_start"
    have "state_code st < 2" by (simp add: st_def)
    then show ?thesis using Inr ok d5 d6 d7 ty unfolding desc_ok_def
      by (simp add: st_def [symmetric] apply_desc_def Let_def loop_sign loop_alt loop_zero loop_width loop_precision
          loop_locale loop_type bindR_assoc split_def)
  qed (simp add: apply_desc_def)
  finally show ?thesis .
qed

end
