(* ===== verification/FmtTemplate.thy ===== *)
theory FmtTemplate
  imports FmtDesc
begin

text \<open>
  Format strings as templates. A static description gives packed specifiers whose fields are the description's
  (\<open>spec_view\<close> as abstraction function, \<open>apply_desc_static\<close>). A template is a list of literal texts and fields;
  \<open>vformat_to_template\<close>: formatting its text prints what \<open>template_output\<close> says.
\<close>

section \<open>What the specifiers of a description are\<close>

lemma parse_format_specs_apply:
  assumes "desc_ok t d" and "apply_desc d default_dynamic_specs n = Inr (sp, m)"
  shows "specs_ok sp" and "presentation_ok t (spec_type sp)"
  using parse_format_specs_ok [of "desc_text d @ ''}''" t n] parse_format_specs_desc [OF assms(1), of "[]" default_dynamic_specs n]
    assms(2) by simp_all

fun lit_value :: "int \<Rightarrow> count \<Rightarrow> int" where
  "lit_value v (Lit k) = int k"
| "lit_value v c = v"

definition desc_alignment :: "spec_desc \<Rightarrow> align" where
  "desc_alignment d =
     (case d_align d of
        Default_align \<Rightarrow> if d_zero d then align_numeric else align_none
      | Align a \<Rightarrow> a
      | Fill_align cp a \<Rightarrow> a)"

definition desc_fill :: "spec_desc \<Rightarrow> string" where
  "desc_fill d =
     (case d_align d of
        Default_align \<Rightarrow> if d_zero d then ''0'' else '' ''
      | Align a \<Rightarrow> '' ''
      | Fill_align cp a \<Rightarrow> utf8_encode cp)"

definition desc_sign :: "spec_desc \<Rightarrow> sign" where
  "desc_sign d =
     (if d_sign d = Some CHR ''+'' then sign_plus else if d_sign d = Some CHR '' '' then sign_space else sign_none)"

definition desc_type :: "spec_desc \<Rightarrow> presentation_type \<times> bool" where
  "desc_type d =
     (case d_type d of
        None \<Rightarrow> (pres_none, False)
      | Some c \<Rightarrow> (case map_of type_table c of None \<Rightarrow> (pres_none, False) | Some (p, up, ts) \<Rightarrow> (p, up)))"

text \<open>The abstraction of packed specifiers: the fields the writers read.\<close>

record spec_view =
  v_align :: align
  v_fill :: string
  v_room :: nat
  v_sign :: sign
  v_alt :: bool
  v_width :: int
  v_precision :: int
  v_localized :: bool
  v_type :: presentation_type
  v_upper :: bool
  v_kinds :: "arg_id_kind \<times> arg_id_kind"

definition spec_view :: "'a format_specs_scheme \<Rightarrow> spec_view" where
  "spec_view sp =
     \<lparr>v_align = spec_align sp, v_fill = fill_of sp, v_room = length (fill_data sp), v_sign = spec_sign sp,
      v_alt = spec_alt sp, v_width = specs_width sp, v_precision = specs_precision sp, v_localized = spec_localized sp,
      v_type = spec_type sp, v_upper = spec_upper sp, v_kinds = (dynamic_width sp, dynamic_precision sp)\<rparr>"

definition desc_view :: "spec_desc \<Rightarrow> spec_view" where
  "desc_view d =
     \<lparr>v_align = desc_alignment d, v_fill = desc_fill d, v_room = 4, v_sign = desc_sign d,
      v_alt = d_alt d, v_width = lit_value 0 (d_width d), v_precision = lit_value (-1) (d_precision d),
      v_localized = d_locale d, v_type = fst (desc_type d), v_upper = snd (desc_type d), v_kinds = (id_none, id_none)\<rparr>"

lemma default_dynamic_fields:
  "spec_type default_dynamic_specs = pres_none" "spec_align default_dynamic_specs = align_none"
  "spec_sign default_dynamic_specs = sign_none" "\<not> spec_alt default_dynamic_specs"
  "\<not> spec_upper default_dynamic_specs" "\<not> spec_localized default_dynamic_specs"
  "fill_size default_dynamic_specs = 1" "fill_data default_dynamic_specs = [CHR '' '', CHR 0x00, CHR 0x00, CHR 0x00]"
  "specs_width default_dynamic_specs = 0" "specs_precision default_dynamic_specs = -1"
  "dynamic_width default_dynamic_specs = id_none" "dynamic_precision default_dynamic_specs = id_none"
  by (simp_all add: default_dynamic_specs_def spec_getters masks align_cast_def sign_cast_def kind_cast_def)

lemma view_default:
  "spec_view default_dynamic_specs =
    \<lparr>v_align = align_none, v_fill = '' '', v_room = 4, v_sign = sign_none, v_alt = False, v_width = 0, v_precision = -1,
     v_localized = False, v_type = pres_none, v_upper = False, v_kinds = (id_none, id_none)\<rparr>"
  by (simp add: spec_view_def fill_of_def default_dynamic_fields)

text \<open>Each setter changes its field of the view.\<close>

lemma view_align: "spec_view (set_align a sp) = (spec_view sp)\<lparr>v_align := a\<rparr>"
  by (simp add: spec_view_def fill_of_def spec_fields)

lemma view_sign: "spec_view (set_sign v sp) = (spec_view sp)\<lparr>v_sign := v\<rparr>"
  by (simp add: spec_view_def fill_of_def spec_fields)

lemma view_alt: "spec_view (set_alt sp) = (spec_view sp)\<lparr>v_alt := True\<rparr>"
  by (simp add: spec_view_def fill_of_def spec_fields)

lemma view_localized: "spec_view (set_localized sp) = (spec_view sp)\<lparr>v_localized := True\<rparr>"
  by (simp add: spec_view_def fill_of_def spec_fields)

lemma view_upper: "spec_view (set_upper sp) = (spec_view sp)\<lparr>v_upper := True\<rparr>"
  by (simp add: spec_view_def fill_of_def spec_fields)

lemma view_type: "p < 8 \<Longrightarrow> spec_view (set_type p sp) = (spec_view sp)\<lparr>v_type := p\<rparr>"
  by (simp add: spec_view_def fill_of_def spec_fields)

lemma view_fill_char: "v_room (spec_view sp) = 4 \<Longrightarrow> spec_view (set_fill_char c sp) = (spec_view sp)\<lparr>v_fill := [c]\<rparr>"
  by (cases "fill_data sp") (auto simp: spec_view_def fill_of_def spec_fields set_fill_char_def)

lemma view_fill:
  assumes "set_fill f sp = Inr sp'" and "1 \<le> length f" "length f \<le> 4" and "v_room (spec_view sp) = 4"
  shows "spec_view sp' = (spec_view sp)\<lparr>v_fill := f\<rparr>"
proof (cases "length f = 1")
  case True
  then obtain c where "f = [c]" by (cases f) auto
  with assms show ?thesis
    by (cases "fill_data sp") (auto simp: spec_view_def fill_of_def spec_fields set_fill_def Let_def)
next
  case False
  with assms show ?thesis
    by (auto simp: spec_view_def fill_of_def spec_fields set_fill_def Let_def)
qed

lemma view_width:
  "spec_view (set_dynamic_width k (sp\<lparr>specs_width := v, width_ref := r\<rparr>)) =
    (spec_view sp)\<lparr>v_width := v, v_kinds := (k, snd (v_kinds (spec_view sp)))\<rparr>"
  by (simp add: spec_view_def fill_of_def spec_fields)

lemma view_precision:
  "spec_view (set_dynamic_precision k (sp\<lparr>specs_precision := v, precision_ref := r\<rparr>)) =
    (spec_view sp)\<lparr>v_precision := v, v_kinds := (fst (v_kinds (spec_view sp)), k)\<rparr>"
  by (simp add: spec_view_def fill_of_def spec_fields)

text \<open>The stages of a static description.\<close>

lemma view_apply_align:
  assumes "alignment_ok al" and "v_room (spec_view sp) = 4"
  shows "\<exists>sp'. apply_align al sp = Inr sp' \<and> spec_view sp' =
    (case al of
       Default_align \<Rightarrow> spec_view sp
     | Align a \<Rightarrow> (spec_view sp)\<lparr>v_align := a\<rparr>
     | Fill_align cp a \<Rightarrow> (spec_view sp)\<lparr>v_fill := utf8_encode cp, v_align := a\<rparr>)"
proof (cases al)
  case (Fill_align cp a)
  obtain sp1 where s: "set_fill (utf8_encode cp) sp = Inr sp1" using set_fill_encode by blast
  from view_fill [OF this _ _ assms(2)] utf8_encode_length [of cp]
  have "spec_view sp1 = (spec_view sp)\<lparr>v_fill := utf8_encode cp\<rparr>" by (simp add: Suc_leI)
  with s Fill_align show ?thesis by (simp add: view_align)
qed (simp_all add: view_align)

lemma view_apply_sign:
  "spec_view (apply_sign sg sp) =
    (case sg of
       None \<Rightarrow> spec_view sp
     | Some c \<Rightarrow> if c = CHR ''-'' then spec_view sp
         else (spec_view sp)\<lparr>v_sign := if c = CHR '' '' then sign_space else sign_plus\<rparr>)"
  by (cases sg) (simp_all add: view_sign)

lemma view_apply_zero:
  assumes "v_room (spec_view sp) = 4"
  shows "spec_view (apply_zero b sp) =
    (if b \<and> v_align (spec_view sp) = align_none then (spec_view sp)\<lparr>v_align := align_numeric, v_fill := ''0''\<rparr>
     else spec_view sp)"
proof -
  have "v_align (spec_view sp) = spec_align sp" by (simp add: spec_view_def)
  with assms show ?thesis by (simp add: apply_zero_def view_fill_char view_align)
qed

fun literal :: "count \<Rightarrow> bool" where
  "literal No_count \<longleftrightarrow> True"
| "literal (Lit k) \<longleftrightarrow> True"
| "literal c \<longleftrightarrow> False"

lemma view_apply_width:
  assumes "literal c" and "fst (v_kinds (spec_view sp)) = id_none"
  shows "\<exists>sp'. apply_width c sp n = Inr (sp', n) \<and> spec_view sp' = (spec_view sp)\<lparr>v_width := lit_value (v_width (spec_view sp)) c\<rparr>"
  using assms by (cases c) (simp_all add: apply_width_def spec_view_def fill_of_def spec_fields)

lemma view_apply_precision:
  assumes "literal c" and "snd (v_kinds (spec_view sp)) = id_none"
  shows "\<exists>sp'. apply_precision c sp n = Inr (sp', n) \<and>
    spec_view sp' = (spec_view sp)\<lparr>v_precision := lit_value (v_precision (spec_view sp)) c\<rparr>"
  using assms by (cases c) (simp_all add: apply_precision_def spec_view_def fill_of_def spec_fields)

lemma view_apply_type:
  assumes "type_ok t ty"
  shows "spec_view (apply_type ty sp) =
    (case ty of
       None \<Rightarrow> spec_view sp
     | Some c \<Rightarrow> case the (map_of type_table c) of
         (p, up, ts) \<Rightarrow> (spec_view sp)\<lparr>v_upper := up \<or> v_upper (spec_view sp), v_type := p\<rparr>)"
proof (cases ty)
  case (Some c)
  with assms obtain p up ts where m: "map_of type_table c = Some (p, up, ts)" by (auto split: option.splits)
  from map_of_SomeD [OF this] have "p < 8" by (auto simp: type_table_def)
  with m Some show ?thesis by (simp add: view_type view_upper)
qed simp

lemma view_idle:
  "v_sign v = x \<Longrightarrow> v\<lparr>v_sign := x\<rparr> = v" "v_alt v = b \<Longrightarrow> v\<lparr>v_alt := b\<rparr> = v"
  "v_localized v = b \<Longrightarrow> v\<lparr>v_localized := b\<rparr> = v"
  by (cases v, simp)+

lemma view_desc_sign:
  assumes "desc_ok t d" and "v_sign (spec_view sp) = sign_none"
  shows "spec_view (apply_sign (d_sign d) sp) = (spec_view sp)\<lparr>v_sign := desc_sign d\<rparr>"
proof (cases "d_sign d")
  case (Some c)
  with assms(1) have "c = CHR ''+'' \<or> c = CHR ''-'' \<or> c = CHR '' ''" by (auto simp: desc_ok_def)
  with Some assms(2) show ?thesis by (elim disjE) (simp_all add: view_apply_sign desc_sign_def view_idle view_sign)
qed (simp add: assms(2) view_apply_sign desc_sign_def view_idle)

lemma view_flag:
  "\<not> v_alt (spec_view sp) \<Longrightarrow> spec_view (if b then set_alt sp else sp) = (spec_view sp)\<lparr>v_alt := b\<rparr>"
  "\<not> v_localized (spec_view sp) \<Longrightarrow> spec_view (if b then set_localized sp else sp) = (spec_view sp)\<lparr>v_localized := b\<rparr>"
  by (simp_all add: view_alt view_localized view_idle)

lemma apply_desc_static:
  assumes "desc_ok t d" and "literal (d_width d)" "literal (d_precision d)"
  shows "\<exists>sp. apply_desc d default_dynamic_specs n = Inr (sp, n) \<and> spec_view sp = desc_view d"
proof -
  have al: "alignment_ok (d_align d)" and ty: "type_ok t (d_type d)" using assms(1) by (simp_all add: desc_ok_def)
  obtain s1 where s1: "apply_align (d_align d) default_dynamic_specs = Inr s1"
    and v1: "spec_view s1 = (case d_align d of
       Default_align \<Rightarrow> spec_view default_dynamic_specs
     | Align a \<Rightarrow> (spec_view default_dynamic_specs)\<lparr>v_align := a\<rparr>
     | Fill_align cp a \<Rightarrow> (spec_view default_dynamic_specs)\<lparr>v_fill := utf8_encode cp, v_align := a\<rparr>)"
    using view_apply_align [OF al, of default_dynamic_specs] by (auto simp: view_default)
  have r1: "v_room (spec_view s1) = 4" "v_kinds (spec_view s1) = (id_none, id_none)" "\<not> v_upper (spec_view s1)"
    "v_width (spec_view s1) = 0" "v_precision (spec_view s1) = -1" "v_sign (spec_view s1) = sign_none"
    "\<not> v_alt (spec_view s1)" "\<not> v_localized (spec_view s1)" "v_type (spec_view s1) = pres_none"
    unfolding v1 by (cases "d_align d"; simp add: view_default)+
  define s2 where "s2 = (let s = apply_sign (d_sign d) s1 in if d_alt d then set_alt s else s)"
  have v2: "spec_view s2 = (spec_view s1)\<lparr>v_sign := desc_sign d, v_alt := d_alt d\<rparr>"
    unfolding s2_def Let_def using r1 view_desc_sign [OF assms(1), of s1] by (simp add: view_flag)
  define s3 where "s3 = apply_zero (d_zero d) s2"
  have v3: "spec_view s3 = (spec_view s2)\<lparr>v_align := desc_alignment d, v_fill := desc_fill d\<rparr>"
    using al r1(1) by (cases "d_align d")
      (auto simp: s3_def view_apply_zero v2 v1 view_default desc_alignment_def desc_fill_def)
  obtain s4 where s4: "apply_width (d_width d) s3 n = Inr (s4, n)"
    "spec_view s4 = (spec_view s3)\<lparr>v_width := lit_value (v_width (spec_view s3)) (d_width d)\<rparr>"
    using view_apply_width [OF assms(2), of s3 n] r1 by (auto simp: v3 v2)
  obtain s5 where s5: "apply_precision (d_precision d) s4 n = Inr (s5, n)"
    "spec_view s5 = (spec_view s4)\<lparr>v_precision := lit_value (v_precision (spec_view s4)) (d_precision d)\<rparr>"
    using view_apply_precision [OF assms(3), of s4 n] r1 by (auto simp: v3 v2 s4(2))
  define s6 where "s6 = (if d_locale d then set_localized s5 else s5)"
  have v6: "spec_view s6 = (spec_view s5)\<lparr>v_localized := d_locale d\<rparr>"
    unfolding s6_def by (rule view_flag) (simp add: s5(2) s4(2) v3 v2 r1)
  have "apply_desc d default_dynamic_specs n = Inr (apply_type (d_type d) s6, n)"
    by (simp add: apply_desc_def s1 Let_def s2_def [unfolded Let_def, symmetric] s3_def [symmetric] s4(1) s5(1) s6_def)
  moreover have "spec_view (apply_type (d_type d) s6) = desc_view d"
    unfolding view_apply_type [OF ty] using ty r1 by (cases "d_type d"; cases "d_align d")
      (auto simp: v6 s5(2) s4(2) v3 v2 v1 view_default desc_view_def desc_type_def split: option.splits)
  ultimately show ?thesis by blast
qed

section \<open>Templates\<close>

text \<open>
  A template is a list of literal texts and fields; a field has an argument id and maybe a description of its
  specifiers. \<open>template_text\<close> prints it, with the braces of the literal texts doubled.
\<close>

datatype field_id = Next_arg | Arg_number nat | Arg_named string

datatype piece = Literal string | Field field_id "spec_desc option"

fun id_text :: "field_id \<Rightarrow> string" where
  "id_text Next_arg = []"
| "id_text (Arg_number i) = dec i"
| "id_text (Arg_named s) = s"

definition double_braces :: "string \<Rightarrow> string" where
  "double_braces s = concat (map (\<lambda>c. if c = CHR ''{'' \<or> c = CHR ''}'' then [c, c] else [c]) s)"

fun piece_text :: "piece \<Rightarrow> string" where
  "piece_text (Literal s) = double_braces s"
| "piece_text (Field i d) =
     CHR ''{'' # id_text i @ (case d of None \<Rightarrow> [] | Some d \<Rightarrow> CHR '':'' # desc_text d) @ ''}''"

definition template_text :: "piece list \<Rightarrow> string" where
  "template_text ps = concat (map piece_text ps)"

text \<open>
  What a template prints; \<open>None\<close> is a field whose id mixes automatic and manual numbering, whose argument is missing
  or is not printable by the specifiers.
\<close>

fun id_index :: "fmt_args \<Rightarrow> int \<Rightarrow> field_id \<Rightarrow> (int \<times> int) option" where
  "id_index args n Next_arg = (if 0 \<le> n then Some (n, n + 1) else None)"
| "id_index args n (Arg_number i) = (if n \<le> 0 \<and> i \<le> int_max then Some (int i, -1) else None)"
| "id_index args n (Arg_named s) = (if name_ok s \<and> 0 \<le> get_named_id args s then Some (get_named_id args s, -1) else None)"

fun argument_output :: "fmt_args \<Rightarrow> fmt_arg \<Rightarrow> int \<Rightarrow> spec_desc option \<Rightarrow> (string \<times> int) option" where
  "argument_output args a n None = (if printable_arg a then Some (default_text a, n) else None)"
| "argument_output args a n (Some d) =
     (if desc_ok (arg_type a) d \<and> \<not> d_locale d
      then (case bindR (apply_desc d default_dynamic_specs n) (\<lambda>(sp, n). bindR (resolve_dynamic sp args) (\<lambda>sp. Inr (sp, n))) of
              Inl e \<Rightarrow> None
            | Inr (sp, n) \<Rightarrow> if spec_printable a sp then Some (spec_output a sp, n) else None)
      else None)"

definition field_output :: "fmt_args \<Rightarrow> int \<Rightarrow> field_id \<Rightarrow> spec_desc option \<Rightarrow> (string \<times> int) option" where
  "field_output args n i d =
     (case id_index args n i of
        None \<Rightarrow> None
      | Some (k, n) \<Rightarrow> (case get_arg args k of None \<Rightarrow> None | Some a \<Rightarrow> argument_output args a n d))"

fun template_output :: "fmt_args \<Rightarrow> int \<Rightarrow> piece list \<Rightarrow> string option" where
  "template_output args n [] = Some []"
| "template_output args n (Literal s # ps) = map_option ((@) s) (template_output args n ps)"
| "template_output args n (Field i d # ps) =
     (case field_output args n i d of
        None \<Rightarrow> None
      | Some (text, n) \<Rightarrow> map_option ((@) text) (template_output args n ps))"

section \<open>Specifiers resolved\<close>

lemma view_localized_desc:
  assumes "apply_desc d default_dynamic_specs n = Inr (sp, m)"
  shows "spec_localized sp = d_locale d"
proof -
  have a: "spec_localized sp' = spec_localized sp" if "apply_align al sp = Inr sp'" for al sp sp'
    using that by (cases al) (auto simp: spec_fields set_fill_def Let_def split: if_splits)
  have s: "spec_localized (apply_sign sg sp) = spec_localized sp" for sg sp
    by (cases sg) (simp_all add: spec_fields)
  have z: "spec_localized (apply_zero b sp) = spec_localized sp" for b sp
    by (simp add: apply_zero_def spec_fields set_fill_char_def)
  have w: "spec_localized sp' = spec_localized sp" if "apply_width c sp n = Inr (sp', n')" for c sp sp' n n'
    using that by (auto simp: apply_width_def spec_fields split: if_splits)
  have p: "spec_localized sp' = spec_localized sp" if "apply_precision c sp n = Inr (sp', n')" for c sp sp' n n'
    using that by (auto simp: apply_precision_def spec_fields split: if_splits)
  have t: "spec_localized (apply_type ty sp) = spec_localized sp" for ty sp
  proof (cases ty)
    case (Some c)
    show ?thesis
    proof (cases "map_of type_table c")
      case (Some e)
      from map_of_SomeD [OF this] have "fst e < 8" by (auto simp: type_table_def)
      with Some \<open>ty = _\<close> show ?thesis by (cases e) (simp add: spec_fields)
    qed (simp add: Some)
  qed simp
  from assms show ?thesis
    by (auto simp: apply_desc_def Let_def t spec_fields s z default_dynamic_fields dest!: a w p split: if_splits)
qed

lemma resolve_dynamic_layout:
  assumes ok: "specs_ok sp" "\<not> spec_localized sp" and r: "resolve_dynamic sp args = Inr sp'"
  shows "layout_ok sp'" and "spec_type sp' = spec_type sp"
proof -
  have g: "0 \<le> v \<and> v \<le> int int_max" if "get_dynamic_spec k ref args = Inr v" for k ref v
    using that by (auto simp: get_dynamic_spec_def not_less split: arg_id_kind.splits arg_ref.splits option.splits if_splits)
  have h: "v' = v \<or> (0 \<le> v' \<and> v' \<le> int int_max)" if "handle_dynamic_spec k v ref args = Inr v'" for k v ref v'
    using that g by (auto simp: handle_dynamic_spec_def split: if_splits)
  show "layout_ok sp'" "spec_type sp' = spec_type sp"
    using assms by (auto simp: resolve_dynamic_def layout_ok_def specs_ok_def split: if_splits dest!: h)
qed

lemma argument_output_ok:
  assumes "argument_output args a n (Some d) = Some (text, m)"
  shows "format_builtin loc args a n (desc_text d @ CHR ''}'' # rest) = Inr (text, m, CHR ''}'' # rest)"
proof -
  from assms obtain sp0 sp where d: "desc_ok (arg_type a) d" "\<not> d_locale d"
    and ap: "apply_desc d default_dynamic_specs n = Inr (sp0, m)" and re: "resolve_dynamic sp0 args = Inr sp"
    and p: "spec_printable a sp" and t: "text = spec_output a sp"
    by (auto split: if_splits sum.splits)
  note ok = parse_format_specs_apply [OF d(1) ap]
  have "layout_ok sp" "spec_type sp = spec_type sp0"
    using resolve_dynamic_layout [OF ok(1) _ re] view_localized_desc [OF ap] d(2) by auto
  with ok(2) p have "write_arg loc a sp = Inr text" unfolding t by (intro write_arg_eq) simp_all
  with ap re show ?thesis
    by (simp add: format_builtin_def parse_format_specs_desc [OF d(1)])
qed

section \<open>Formatting a template\<close>

lemma format_loop_pending:
  "format_loop loc args n pending s = bindR (format_loop loc args n [] s) (\<lambda>out. Inr (pending @ out))"
proof (induction s arbitrary: n pending rule: length_induct)
  case (1 s)
  show ?case
  proof (cases s)
    case (Cons c cs)
    have IH: "format_loop loc args m (p @ [c]) cs = bindR (format_loop loc args m [] cs) (\<lambda>out. Inr ((p @ [c]) @ out))" for m p
      using Cons by (intro 1 [rule_format]) simp
    consider "c = CHR ''{''" | "c = CHR ''}''" | "c \<noteq> CHR ''{''" "c \<noteq> CHR ''}''" by blast
    then show ?thesis
    proof cases
      case 3
      then have "format_loop loc args n p (c # cs) = format_loop loc args n (p @ [c]) cs" for p by simp
      with Cons show ?thesis unfolding Cons by (simp only: IH append_Nil bindR_assoc bindR_Inr append_assoc)
    qed (simp_all add: Cons bindR_assoc split_def)
  qed simp
qed

lemma format_loop_char:
  "c \<noteq> CHR ''{'' \<Longrightarrow> c \<noteq> CHR ''}'' \<Longrightarrow>
   format_loop loc args n [] (c # cs) = bindR (format_loop loc args n [] cs) (\<lambda>out. Inr (c # out))"
  using format_loop_pending [of loc args n "[c]" cs] by simp

lemma format_loop_braces:
  "format_loop loc args n [] (CHR ''{'' # CHR ''{'' # cs) = bindR (format_loop loc args n [] cs) (\<lambda>out. Inr (CHR ''{'' # out))"
  "format_loop loc args n [] (CHR ''}'' # CHR ''}'' # cs) = bindR (format_loop loc args n [] cs) (\<lambda>out. Inr (CHR ''}'' # out))"
  by (simp_all add: parse_replacement_field_def)

lemma format_loop_literal:
  "format_loop loc args n [] (double_braces s @ rest) = bindR (format_loop loc args n [] rest) (\<lambda>out. Inr (s @ out))"
proof (induction s)
  case (Cons c s)
  show ?case
    using Cons format_loop_char [of c loc args n "double_braces s @ rest"]
      format_loop_braces [of loc args n "double_braces s @ rest"]
    by (auto simp: double_braces_def bindR_assoc)
qed (simp add: double_braces_def)

text \<open>A field, from behind its brace.\<close>

lemma on_format_specs_output:
  assumes "get_arg args k = Some a" and "argument_output args a n (Some d) = Some (text, m)"
  shows "finish_specs (on_format_specs loc args k n (desc_text d @ CHR ''}'' # rest)) = Inr (text, m, rest)"
proof -
  have "\<nexists>f. a = Custom_arg f"
    using assms(2) by (auto split: if_splits sum.splits)
  then have "on_format_specs loc args k n s = format_builtin loc args a n s" for s
    using assms(1) by (cases a) (simp_all add: on_format_specs_def)
  with argument_output_ok [OF assms(2)] show ?thesis by (simp add: finish_specs_def)
qed

lemma parse_field_output:
  assumes "field_output args n i d = Some (text, m)"
  shows "parse_replacement_field loc args n
    (id_text i @ (case d of None \<Rightarrow> [] | Some d \<Rightarrow> CHR '':'' # desc_text d) @ CHR ''}'' # rest) = Inr (text, m, rest)"
proof -
  from assms obtain k n' a where i: "id_index args n i = Some (k, n')" and a: "get_arg args k = Some a"
    and o: "argument_output args a n' d = Some (text, m)"
    by (auto simp: field_output_def split: option.splits)
  define tail where "tail = (case d of None \<Rightarrow> [] | Some d \<Rightarrow> CHR '':'' # desc_text d) @ CHR ''}'' # rest"
  have w: "on_replacement_field args k = Inr text \<and> n' = m" if "d = None"
    using that o a by (auto simp: on_replacement_field_def write_default_eq split: if_splits)
  have f: "finish_specs (on_format_specs loc args k n' (desc_text d' @ CHR ''}'' # rest)) = Inr (text, m, rest)" if "d = Some d'" for d'
    using on_format_specs_output [OF a] o that by simp
  have t: "tail \<noteq> []" "hd tail = (if d = None then CHR ''}'' else CHR '':'')"
    "tl tail = (case d of None \<Rightarrow> rest | Some d \<Rightarrow> desc_text d @ CHR ''}'' # rest)"
    by (cases d; simp add: tail_def)+
  have tc: "tail = hd tail # tl tail" using t(1) by simp
  show ?thesis
  proof (cases "i = Next_arg")
    case True
    with i have "next_arg_id n = Inr (k, n')" by (auto simp: next_arg_id_def split: if_splits)
    with True show ?thesis using t w f unfolding tail_def [symmetric]
      by (cases d) (simp_all add: parse_replacement_field_def)
  next
    case False
    obtain r where p: "parse_arg_id (id_text i @ tail) = Inr (r, tail)"
      and r: "(case r of Ref_index j \<Rightarrow> on_arg_index j n | Ref_name name \<Rightarrow> on_arg_name args name n) = Inr (k, n')"
      and h: "id_text i \<noteq> []" "hd (id_text i) \<notin> {CHR ''}'', CHR ''{'', CHR '':''}"
    proof (cases i)
      case (Arg_number j)
      with i have j: "n \<le> 0" "j \<le> int_max" "k = int j" "n' = -1" by (auto split: if_splits)
      have "fmt_digit (hd (dec j))" using dec_fmt_digits [of j] by (cases "dec j") auto
      moreover have "parse_arg_id (dec j @ hd tail # tl tail) = Inr (Ref_index (int j), hd tail # tl tail)"
        using t(2) j by (intro parse_arg_id_index) auto
      ultimately show ?thesis using that [of "Ref_index (int j)"] Arg_number j tc
          digit_apart [of "hd (dec j)"]
        by (auto simp: on_arg_index_def check_arg_id_def)
    next
      case (Arg_named s)
      with i have s: "name_ok s" "0 \<le> get_named_id args s" "k = get_named_id args s" "n' = -1" by (auto split: if_splits)
      have "is_name_start (hd s)" "s \<noteq> []" using s(1) by (auto simp: name_ok_def)
      moreover have "parse_arg_id (s @ hd tail # tl tail) = Inr (Ref_name s, hd tail # tl tail)"
        using t(2) s by (intro parse_arg_id_name) auto
      ultimately show ?thesis using that [of "Ref_name s"] Arg_named s tc name_apart [of "hd s"]
        by (auto simp: on_arg_name_def check_arg_name_def Let_def)
    qed (use False in simp)
    have "hd (id_text i @ tail) = hd (id_text i)" using h(1) by simp
    with h p r t w f show ?thesis unfolding tail_def [symmetric]
      by (cases d) (simp_all add: parse_replacement_field_def)
  qed
qed

lemma format_loop_template:
  "template_output args n ps = Some out \<Longrightarrow> format_loop loc args n [] (template_text ps) = Inr out"
proof (induction ps arbitrary: n out)
  case (Cons p ps)
  show ?case
  proof (cases p)
    case (Literal s)
    with Cons show ?thesis by (auto simp: template_text_def format_loop_literal)
  next
    case (Field i d)
    with Cons.prems obtain out1 m rest where f: "field_output args n i d = Some (out1, m)"
      and r: "template_output args m ps = Some rest" and o: "out = out1 @ rest"
      by (auto split: option.splits)
    have "template_text (p # ps) = CHR ''{'' # id_text i @ (case d of None \<Rightarrow> [] | Some d \<Rightarrow> CHR '':'' # desc_text d) @
        CHR ''}'' # template_text ps"
      using Field by (simp add: template_text_def)
    with parse_field_output [OF f, of loc "template_text ps"] Cons.IH [OF r] o show ?thesis by simp
  qed
qed (simp add: template_text_def)

text \<open>The fast path for \<open>{}\<close> agrees with the loop.\<close>

lemma vformat_to_loop: "vformat_to loc fmt args = format_loop loc args 0 [] fmt"
proof (cases "fmt = ''{}''")
  case True
  show ?thesis
  proof (cases "get_arg args 0")
    case (Some a)
    with True show ?thesis
      by (cases "write_default a")
        (simp_all add: vformat_to_def parse_replacement_field_def next_arg_id_def on_replacement_field_def)
  qed (simp add: True vformat_to_def parse_replacement_field_def next_arg_id_def on_replacement_field_def)
qed (simp add: vformat_to_def)

theorem vformat_to_template:
  "template_output args 0 ps = Some out \<Longrightarrow> vformat_to loc (template_text ps) args = Inr out"
  by (simp add: vformat_to_loop format_loop_template)

section \<open>An example\<close>

definition demo_desc :: spec_desc where
  "demo_desc = \<lparr>d_align = Fill_align 0x2A align_center, d_sign = Some CHR ''+'', d_alt = True, d_zero = False, d_width = Lit 12,
     d_precision = No_count, d_locale = False, d_type = Some CHR ''x''\<rparr>"

end
