(* ===== verification/LogFormat.thy ===== *)
theory LogFormat
  imports LogConsole FmtTemplate
begin

text \<open>
  Formatting inside logging: \<open>logger::log_\<close> with its \<open>vformat_to\<close> and the macros of \<open>Logger.h\<close>, which put file and
  line in front of every format string. A call whose format string is a template writes its output to the
  console; a call whose format string is wrong reaches the error handler and leaves the console as it is.
\<close>

section \<open>logger::log_\<close>

text \<open>
  A format error is caught like every exception; other faults of formatting would be undefined behaviour.
\<close>

definition log_format ::
    "log_env \<Rightarrow> write_loc \<Rightarrow> fwrite \<Rightarrow> nat \<Rightarrow> nat \<Rightarrow> source_loc \<Rightarrow> level_enum \<Rightarrow> string \<Rightarrow> fmt_args \<Rightarrow> log_world \<Rightarrow> log_world res" where
  "log_format env loc fw tid L src lvl fmt args W =
     bindR (get_logger L W) (\<lambda>l.
       if \<not> should_log lvl l \<and> \<not> bt_enabled (tracer l) then Inr W
       else case vformat_to loc fmt args of
           Inr buf \<Rightarrow> log_message env fw tid L src lvl (Inr buf) W
         | Inl (FormatError what) \<Rightarrow> log_message env fw tid L src lvl (Inl what) W
         | Inl e \<Rightarrow> Inl e)"

text \<open>
  \<open>LOG_TRACE\<close> to \<open>LOG_ERROR\<close>: \<open>here\<close> is the address of the literal \<open>__FILE__\<close>.
\<close>

definition macro_args :: "64 word \<Rightarrow> string \<Rightarrow> 32 word \<Rightarrow> fmt_arg list \<Rightarrow> fmt_args" where
  "macro_args here file line_no args = make_format_args (Cstring_arg here file # Int_arg line_no # args)"

definition LOG ::
    "log_env \<Rightarrow> write_loc \<Rightarrow> fwrite \<Rightarrow> nat \<Rightarrow> level_enum \<Rightarrow> 64 word \<Rightarrow> string \<Rightarrow> 32 word \<Rightarrow> string \<Rightarrow> fmt_arg list \<Rightarrow>
     registry \<Rightarrow> log_world \<Rightarrow> log_world res" where
  "LOG env loc fw tid lvl here file line_no fmt args R W =
     (case r_default_logger R of
        None \<Rightarrow> Inl NullDeref
      | Some L \<Rightarrow> log_format env loc fw tid L no_source lvl (''{}:{} '' @ fmt) (macro_args here file line_no args) W)"

lemma log_format_Inr:
  "vformat_to loc fmt args = Inr buf \<Longrightarrow>
   log_format env loc fw tid L src lvl fmt args W = log_message env fw tid L src lvl (Inr buf) W"
  by (cases "get_logger L W") (simp_all add: log_format_def log_message_def Let_def)

lemma log_format_error:
  "vformat_to loc fmt args = Inl (FormatError what) \<Longrightarrow>
   log_format env loc fw tid L src lvl fmt args W = log_message env fw tid L src lvl (Inl what) W"
  by (cases "get_logger L W") (simp_all add: log_format_def log_message_def Let_def)

lemma LOG_text:
  "vformat_to loc (''{}:{} '' @ fmt) (macro_args here file line_no args) = Inr buf \<Longrightarrow>
   LOG env loc fw tid lvl here file line_no fmt args R W = default_log env fw tid lvl (Inr buf) R W"
  by (simp add: LOG_def default_log_def log_format_Inr split: option.split)

section \<open>The text of a logging call\<close>

definition macro_prefix :: "piece list" where
  "macro_prefix = [Field Next_arg None, Literal '':'', Field Next_arg None, Literal '' '']"

lemma macro_prefix_text: "template_text (macro_prefix @ ps) = ''{}:{} '' @ template_text ps"
  by (simp add: macro_prefix_def template_text_def double_braces_def)

lemma macro_prefix_output:
  assumes "here \<noteq> 0" and "template_output (macro_args here file line_no args) 2 ps = Some out"
  shows "template_output (macro_args here file line_no args) 0 (macro_prefix @ ps) =
    Some (file @ '':'' @ show_int (sint line_no) @ '' '' @ out)"
  using assms
  by (simp add: macro_prefix_def field_output_def get_arg_def macro_args_def make_format_args_def)

definition macro_text :: "string \<Rightarrow> 32 word \<Rightarrow> string \<Rightarrow> string" where
  "macro_text file line_no message = file @ '':'' @ show_int (sint line_no) @ '' '' @ message"

lemma macro_formats:
  assumes "here \<noteq> 0" and "template_output (macro_args here file line_no args) 2 ps = Some out"
  shows "vformat_to loc (''{}:{} '' @ template_text ps) (macro_args here file line_no args) = Inr (macro_text file line_no out)"
  using vformat_to_template [OF macro_prefix_output [OF assms], of loc] by (simp add: macro_prefix_text macro_text_def)

section \<open>Statements\<close>

text \<open>A logging statement of the program at run time: time, thread, level, file, line, template and arguments.\<close>

record log_statement =
  s_now :: int
  s_tid :: nat
  s_level :: level_enum
  s_file :: string
  s_line :: "32 word"
  s_template :: "piece list"
  s_args :: "fmt_arg list"

text \<open>What the template prints; its fields follow the two of file and line.\<close>

definition statement_output :: "64 word \<Rightarrow> log_statement \<Rightarrow> string option" where
  "statement_output here s = template_output (macro_args here (s_file s) (s_line s) (s_args s)) 2 (s_template s)"

definition statement_call :: "64 word \<Rightarrow> log_statement \<Rightarrow> log_call" where
  "statement_call here s =
     (s_now s, s_tid s, s_level s, macro_text (s_file s) (s_line s) (the (statement_output here s)))"

definition run_statement ::
    "log_env \<Rightarrow> write_loc \<Rightarrow> fwrite \<Rightarrow> 64 word \<Rightarrow> log_statement \<Rightarrow> registry \<Rightarrow> log_world \<Rightarrow> log_world res" where
  "run_statement env loc fw here s R W =
     LOG (env\<lparr>os_now := s_now s\<rparr>) loc fw (s_tid s) (s_level s) here (s_file s) (s_line s)
       (template_text (s_template s)) (s_args s) R W"

fun run_statements ::
    "log_env \<Rightarrow> write_loc \<Rightarrow> fwrite \<Rightarrow> 64 word \<Rightarrow> log_statement list \<Rightarrow> registry \<Rightarrow> log_world \<Rightarrow> log_world res" where
  "run_statements env loc fw here [] R W = Inr W"
| "run_statements env loc fw here (s # ss) R W =
     bindR (run_statement env loc fw here s R W) (run_statements env loc fw here ss R)"

lemma run_statements_calls:
  assumes "here \<noteq> 0" and "\<forall>s\<in>set ss. statement_output here s \<noteq> None"
  shows "run_statements env loc fw here ss R W = log_calls env fw (map (statement_call here) ss) R W"
  using assms(2)
proof (induction ss arbitrary: W)
  case (Cons s ss)
  from Cons.prems obtain out where out: "statement_output here s = Some out" by auto
  have "run_statement env loc fw here s R W =
      default_log (env\<lparr>os_now := s_now s\<rparr>) fw (s_tid s) (s_level s) (Inr (macro_text (s_file s) (s_line s) out)) R W" for W
    unfolding run_statement_def
    by (rule LOG_text, rule macro_formats [OF assms(1)]) (use out in \<open>simp add: statement_output_def\<close>)
  moreover have "run_statements env loc fw here ss R = log_calls env fw (map (statement_call here) ss) R"
    using Cons by (intro ext) simp
  ultimately show ?case using out by (simp add: statement_call_def [of here s])
qed simp

section \<open>Wrong format strings\<close>

text \<open>
  The console keeps its text and the handler set by \<open>dwt::Logger::init\<close> is called with the message of the
  exception.
\<close>

definition handler_set :: "nat \<Rightarrow> nat \<Rightarrow> log_world \<Rightarrow> bool" where
  "handler_set L h W \<longleftrightarrow> (\<exists>l. lw_loggers W L = Some l \<and> custom_err_handler l = Some h)"

lemma LOG_error:
  assumes r: "console_ready env i L min_level R W" and h: "handler_set L h W" and lvl: "min_level \<le> lvl"
    and e: "vformat_to loc (''{}:{} '' @ fmt) (macro_args here file line_no args) = Inl (FormatError what)"
  shows "\<exists>W'. LOG env loc fw tid lvl here file line_no fmt args R W = Inr W' \<and>
    err_calls W' = err_calls W @ [(h, what)] \<and> console_text i W' = console_text i W \<and>
    console_ready env i L min_level R W' \<and> handler_set L h W'"
proof -
  from r h obtain l where l: "r_default_logger R = Some L" "lw_loggers W L = Some l" "l_level l = min_level"
    "custom_err_handler l = Some h" by (auto simp: console_ready_def handler_set_def)
  let ?W = "W\<lparr>err_calls := err_calls W @ [(h, what)]\<rparr>"
  have "LOG env loc fw tid lvl here file line_no fmt args R W = Inr ?W"
    unfolding LOG_def l(1) option.case log_format_error [OF e]
    using l lvl by (simp add: log_message_def get_logger_def should_log_def Let_def logger_catch_def err_handler_def
        no_source_def)
  moreover have "console_ready env i L min_level R ?W" using r by (simp add: console_ready_def)
  ultimately show ?thesis using h by (simp add: console_text_def handler_set_def)
qed

lemma Logger_init_handler:
  assumes "new_registry terminal i L W0 = (R0, W1)"
  shows "\<exists>R W. Logger_init env h min_level R0 W1 = Inr (R, W) \<and> handler_set L h W"
  using assms
  by (auto simp: new_registry_def Logger_init_def registry_set_pattern_def registry_set_formatter_def registry_set_level_def
      registry_flush_on_def registry_set_error_handler_def LogCore.set_formatter_def LogCore.set_level_def LogCore.flush_on_def
      LogCore.set_error_handler_def modify_logger_def get_logger_def get_sink_def put_sink_def clone_new_pattern
      new_logger_def handler_set_def)

text \<open>
  A format string of a logging call cannot number its arguments: file and line are numbered automatically.
\<close>

lemma macro_manual_index:
  assumes "here \<noteq> 0" and "i \<le> int_max" and "c = CHR ''}'' \<or> c = CHR '':''"
  shows "vformat_to loc (''{}:{} '' @ CHR ''{'' # dec i @ c # rest) (macro_args here file line_no args) =
    Inl (FormatError ''cannot switch from automatic to manual argument indexing'')"
proof -
  let ?a = "macro_args here file line_no args" and ?s = "dec i @ c # rest"
  obtain d ds where d: "dec i = d # ds" by (cases "dec i") auto
  have "fmt_digit d" using dec_fmt_digits [of i] d by simp
  from digit_apart [OF this] have "d \<noteq> CHR ''}''" "d \<noteq> CHR ''{''" "d \<noteq> CHR '':''" by simp_all
  then have q: "parse_replacement_field loc ?a 2 ?s = Inl (FormatError ''cannot switch from automatic to manual argument indexing'')"
    using parse_arg_id_index [OF assms(2,3), of rest] d
    by (simp add: parse_replacement_field_def on_arg_index_def check_arg_id_def)
  have f: "parse_replacement_field loc ?a 0 (CHR ''}'' # r) = Inr (file, 1, r)"
    "parse_replacement_field loc ?a 1 (CHR ''}'' # r) = Inr (show_int (sint line_no), 2, r)" for r
    using parse_field_output [of ?a 0 Next_arg None "file" 1 loc r]
      parse_field_output [of ?a 1 Next_arg None "show_int (sint line_no)" 2 loc r] assms(1)
    by (simp_all add: field_output_def get_arg_def macro_args_def make_format_args_def)
  show ?thesis by (simp add: vformat_to_loop f q)
qed

section \<open>Two messages of the event loop\<close>

text \<open>
  \<open>EventLoop::wakeup\<close> and \<open>EventLoop::handleRead\<close> write their messages with conversions of \<open>printf\<close>, which are
  literal text for \<open>fmt\<close>.
\<close>

definition wakeup_message :: string where
  "wakeup_message = ''EventLoop::wakeup() writes %lu bytes instead of 8''"

definition handleRead_message :: string where
  "handleRead_message = ''EventLoop::handleRead() reads %ld bytes instead of 8''"

lemma literal_message:
  assumes "here \<noteq> 0" and "list_all (\<lambda>c. c \<noteq> CHR ''{'' \<and> c \<noteq> CHR ''}'') m"
  shows "vformat_to loc (''{}:{} '' @ m) (macro_args here file line_no args) = Inr (macro_text file line_no m)"
proof -
  have "double_braces m = m" using assms(2) by (induction m) (auto simp: double_braces_def)
  then have "template_text [Literal m] = m" by (simp add: template_text_def)
  with macro_formats [OF assms(1), where ps = "[Literal m]" and out = m] show ?thesis by simp
qed

lemma event_loop_messages_literal:
  "list_all (\<lambda>c. c \<noteq> CHR ''{'' \<and> c \<noteq> CHR ''}'') wakeup_message"
  "list_all (\<lambda>c. c \<noteq> CHR ''{'' \<and> c \<noteq> CHR ''}'') handleRead_message"
  by (simp_all add: wakeup_message_def handleRead_message_def)

end
