(* ===== verification/NetFormat.thy ===== *)
theory NetFormat
  imports TcpServer FmtTemplate
begin

text \<open>
  The texts of the server are made by \<open>fmt::format\<close>. The theories of the server print them with the digit writer
  of theory Decimal directly; here they are shown to be what \<open>vformat_to\<close> makes of the format strings in the
  sources: names of threads, loops and connections, addresses, and time stamps.
\<close>

definition zero_pad :: "nat \<Rightarrow> spec_desc" where
  "zero_pad w = \<lparr>d_align = Default_align, d_sign = None, d_alt = False, d_zero = True, d_width = Lit w,
     d_precision = No_count, d_locale = False, d_type = None\<rparr>"

lemma zero_pad_text: "0 < w \<Longrightarrow> w < 10 \<Longrightarrow> desc_text (zero_pad w) = [CHR ''0'', ascii_digit w]"
  by (simp add: desc_text_def zero_pad_def flag_text_def precision_text_def dec.simps [of w])

lemma zero_pad_ok: "0 < w \<Longrightarrow> w \<le> int_max \<Longrightarrow> desc_ok int_type (zero_pad w)"
  by (simp add: desc_ok_def zero_pad_def integral_types_def)

lemma int_output_zero:
  assumes "spec_view sp = desc_view (zero_pad w)"
  shows "int_output i sp = (if i < 0 then ''-'' else []) @
    replicate (w - (length (if i < 0 then ''-'' else []) + length (dec (nat \<bar>i\<bar>)))) CHR ''0'' @ dec (nat \<bar>i\<bar>)"
proof -
  have v: "spec_align sp = align_numeric" "spec_sign sp = sign_none" "\<not> spec_alt sp" "specs_width sp = int w"
    "specs_precision sp = -1" "spec_type sp = pres_none"
    using assms by (simp_all add: spec_view_def desc_view_def zero_pad_def desc_alignment_def desc_sign_def desc_type_def)
  have "w - length (int_body sp (i < 0) (nat \<bar>i\<bar>)) = 0"
    by (simp add: int_body_def Let_def v sign_text_def base_prefix_def zeros_text_def digits_text_def)
  then show ?thesis
    by (simp add: int_output_def v Let_def aligned_def pad_left_of_def)
      (simp add: int_body_def Let_def v sign_text_def base_prefix_def zeros_text_def digits_text_def)
qed

text \<open>\<open>{:0w}\<close> with an \<open>int\<close>.\<close>

lemma zero_pad_field:
  assumes "0 < w" "w \<le> int_max" and "- (2 ^ 31) \<le> i" "i < 2 ^ 31" and "0 \<le> n"
    and "get_arg args n = Some (Int_arg (word_of_int i))"
  shows "\<exists>s. fmt_pad w i = Inr s \<and> field_output args n Next_arg (Some (zero_pad w)) = Some (s, n + 1)"
proof -
  obtain sp where a: "apply_desc (zero_pad w) default_dynamic_specs (n + 1) = Inr (sp, n + 1)"
    and v: "spec_view sp = desc_view (zero_pad w)"
    using apply_desc_static [OF zero_pad_ok [OF assms(1,2)], of "n + 1"] by (auto simp: zero_pad_def)
  have k: "dynamic_width sp = id_none" "dynamic_precision sp = id_none"
    using v by (simp_all add: spec_view_def desc_view_def)
  have r: "resolve_dynamic sp args = Inr sp" by (simp add: resolve_dynamic_def handle_dynamic_spec_def k)
  have si: "sint (word_of_int i :: 32 word) = i"
    using assms(3,4) by (simp add: sint_sbintrunc' signed_take_bit_int_eq_self)
  have "nat \<bar>i\<bar> < 2 ^ 32" using assms(3,4) by auto
  then have "fmt_pad w i = Inr (int_output i sp)"
    by (simp add: fmt_pad_def fmt_uint_eq Let_def int_output_zero [OF v])
  moreover have "field_output args n Next_arg (Some (zero_pad w)) = Some (int_output i sp, n + 1)"
    using zero_pad_ok [OF assms(1,2)] assms(5,6) a r si
    by (simp add: field_output_def) (simp add: zero_pad_def)
  ultimately show ?thesis by blast
qed

definition time_template :: "piece list" where
  "time_template =
     [Field Next_arg (Some (zero_pad 4)), Literal ''/'', Field Next_arg (Some (zero_pad 2)), Literal ''/'',
      Field Next_arg (Some (zero_pad 2)), Literal '' '', Field Next_arg (Some (zero_pad 2)), Literal '':'',
      Field Next_arg (Some (zero_pad 2)), Literal '':'', Field Next_arg (Some (zero_pad 2))]"

lemma time_template_text: "template_text time_template = ''{:04}/{:02}/{:02} {:02}:{:02}:{:02}''"
  by (simp add: time_template_def template_text_def double_braces_def zero_pad_text ascii_digit_def char_digits)

text \<open>The fields of \<open>std::tm\<close> are \<open>int\<close>s.\<close>

definition tm_args :: "tm \<Rightarrow> int list" where
  "tm_args t = [tm_year t + 1900, tm_mon t + 1, tm_mday t, tm_hour t, tm_min t, tm_sec t]"

lemma timestamp_formats:
  assumes "list_all (\<lambda>i. - (2 ^ 31) \<le> i \<and> i < 2 ^ 31) (tm_args (localtime t))"
  shows "vformat_to loc ''{:04}/{:02}/{:02} {:02}:{:02}:{:02}''
      (make_format_args (map (\<lambda>i. Int_arg (word_of_int i)) (tm_args (localtime t)))) = timestamp_toString localtime t"
proof -
  let ?a = "make_format_args (map (\<lambda>i. Int_arg (word_of_int i)) (tm_args (localtime t)))"
  have f: "\<exists>s. fmt_pad w (tm_args (localtime t) ! nat n) = Inr s \<and> field_output ?a n Next_arg (Some (zero_pad w)) = Some (s, n + 1)"
    if "w \<in> {2, 4}" "0 \<le> n" "n < 6" for w n
  proof (rule zero_pad_field)
    have l: "length (tm_args (localtime t)) = 6" by (simp add: tm_args_def)
    show "- (2 ^ 31) \<le> tm_args (localtime t) ! nat n" "tm_args (localtime t) ! nat n < 2 ^ 31"
      using assms that l by (simp_all add: list_all_length)
    show "get_arg ?a n = Some (Int_arg (word_of_int (tm_args (localtime t) ! nat n)))"
      using that l by (simp add: get_arg_def make_format_args_def)
  qed (use that in \<open>auto simp: int_max_def\<close>)
  obtain y where y: "fmt_pad 4 (tm_year (localtime t) + 1900) = Inr y" "field_output ?a 0 Next_arg (Some (zero_pad 4)) = Some (y, 1)"
    using f [of 4 0] by (auto simp: tm_args_def)
  obtain mo where mo: "fmt_pad 2 (tm_mon (localtime t) + 1) = Inr mo" "field_output ?a 1 Next_arg (Some (zero_pad 2)) = Some (mo, 2)"
    using f [of 2 1] by (auto simp: tm_args_def)
  obtain d where d: "fmt_pad 2 (tm_mday (localtime t)) = Inr d" "field_output ?a 2 Next_arg (Some (zero_pad 2)) = Some (d, 3)"
    using f [of 2 2] by (auto simp: tm_args_def)
  obtain h where h: "fmt_pad 2 (tm_hour (localtime t)) = Inr h" "field_output ?a 3 Next_arg (Some (zero_pad 2)) = Some (h, 4)"
    using f [of 2 3] by (auto simp: tm_args_def)
  obtain mi where mi: "fmt_pad 2 (tm_min (localtime t)) = Inr mi" "field_output ?a 4 Next_arg (Some (zero_pad 2)) = Some (mi, 5)"
    using f [of 2 4] by (auto simp: tm_args_def)
  obtain s where s: "fmt_pad 2 (tm_sec (localtime t)) = Inr s" "field_output ?a 5 Next_arg (Some (zero_pad 2)) = Some (s, 6)"
    using f [of 2 5] by (auto simp: tm_args_def)
  have "template_output ?a 0 time_template = Some (y @ ''/'' @ mo @ ''/'' @ d @ '' '' @ h @ '':'' @ mi @ '':'' @ s)"
    by (simp only: time_template_def template_output.simps y mo d h mi s option.case prod.case option.map append_Nil2)
  from vformat_to_template [OF this, of loc] show ?thesis
    unfolding time_template_text timestamp_toString_def Let_def y mo d h mi s bindR_Inr .
qed

section \<open>Names and addresses\<close>

lemma show_word: "- (2 ^ 31) \<le> i \<Longrightarrow> i < 2 ^ 31 \<Longrightarrow> show_int (sint (word_of_int i :: 32 word)) = show_int i"
  by (simp add: sint_sbintrunc' signed_take_bit_int_eq_self)

lemma connection_name_formats:
  assumes "- (2 ^ 31) \<le> i" "i < 2 ^ 31"
  shows "vformat_to loc ''{}#{}'' (make_format_args [String_arg ip, Int_arg (word_of_int i)]) = connection_name ip i"
proof -
  let ?ps = "[Field Next_arg None, Literal ''#'', Field Next_arg None]"
  have t: "template_text ?ps = ''{}#{}''" by (simp add: template_text_def double_braces_def)
  have "template_output (make_format_args [String_arg ip, Int_arg (word_of_int i)]) 0 ?ps = Some (ip @ ''#'' @ show_int i)"
    using assms by (simp add: field_output_def get_arg_def make_format_args_def show_word)
  from vformat_to_template [OF this, of loc] show ?thesis
    using assms unfolding t by (simp add: connection_name_def fmt_int_eq)
qed

lemma toIpPort_formats:
  "vformat_to loc ''{}:{}'' (make_format_args [String_arg (toIp a), Uint_arg (ucast (toPort a))]) = toIpPort a"
proof -
  let ?ps = "[Field Next_arg None, Literal '':'', Field Next_arg None]"
  have t: "template_text ?ps = ''{}:{}''" by (simp add: template_text_def double_braces_def)
  have u: "uint (ucast (toPort a) :: 32 word) = int (unat (toPort a))" by (simp add: uint_up_ucast is_up)
  have "unat (toPort a) < 2 ^ 16" using unsigned_less [of "toPort a"] by simp
  then have l: "unat (toPort a) < 2 ^ 32" by simp
  have "template_output (make_format_args [String_arg (toIp a), Uint_arg (ucast (toPort a))]) 0 ?ps =
      Some (toIp a @ '':'' @ dec (unat (toPort a)))"
    by (simp add: field_output_def get_arg_def make_format_args_def u show_int_def)
  from vformat_to_template [OF this, of loc] show ?thesis
    unfolding t by (simp add: toIpPort_def fmt_uint_eq [OF l])
qed

lemma thread_name_formats:
  assumes "0 \<le> k" "k + 1 < 2 ^ 31"
  shows "bindR (vformat_to loc ''Thread-{}'' (make_format_args [Int_arg (word_of_int (k + 1))])) (\<lambda>s. Inr (s, k + 1)) = setDefaultName k []"
proof -
  let ?ps = "[Literal ''Thread-'', Field Next_arg None]"
  have t: "template_text ?ps = ''Thread-{}''" by (simp add: template_text_def double_braces_def)
  have "template_output (make_format_args [Int_arg (word_of_int (k + 1))]) 0 ?ps = Some (''Thread-'' @ show_int (k + 1))"
    using assms show_word [of "k + 1"] by (simp add: field_output_def get_arg_def make_format_args_def)
  from vformat_to_template [OF this, of loc] show ?thesis
    using assms unfolding t by (simp add: setDefaultName_def fmt_int_eq Let_def)
qed

end
