(* ===== verification/LogAsync.thy ===== *)
theory LogAsync
  imports LogConsole
begin

text \<open>
  Asynchronous logging: \<open>spdlog/details/thread_pool.h\<close> and \<open>thread_pool-inl.h\<close>, \<open>async_logger.h\<close> and
  \<open>async_logger-inl.h\<close>, and the factory of \<open>async.h\<close>. A logger hands its messages to the queue of a pool and the
  threads of the pool write them. The pool is the global one of the registry; a call that has to wait for room
  in the queue is \<open>None\<close>.
\<close>

section \<open>log_msg_buffer\<close>

text \<open>
  A message with its own copy of the texts: the name and the payload lie one after the other in \<open>lmb_text\<close> and the
  views of the message are cut out of it by their lengths. The strings of the source location are not copied.
\<close>

record log_msg_buffer =
  lmb_msg :: log_msg
  lmb_text :: string

definition update_string_views :: "log_msg_buffer \<Rightarrow> log_msg_buffer" where
  "update_string_views b =
     (let n = length (msg_logger_name (lmb_msg b))
      in b\<lparr>lmb_msg := (lmb_msg b)\<lparr>msg_logger_name := take n (lmb_text b),
                                  msg_payload := take (length (msg_payload (lmb_msg b))) (drop n (lmb_text b))\<rparr>\<rparr>)"

definition new_log_msg_buffer :: "log_msg \<Rightarrow> log_msg_buffer" where
  "new_log_msg_buffer orig = update_string_views \<lparr>lmb_msg = orig, lmb_text = msg_logger_name orig @ msg_payload orig\<rparr>"

definition copy_log_msg_buffer :: "log_msg_buffer \<Rightarrow> log_msg_buffer" where
  "copy_log_msg_buffer other = update_string_views
     \<lparr>lmb_msg = lmb_msg other, lmb_text = msg_logger_name (lmb_msg other) @ msg_payload (lmb_msg other)\<rparr>"

definition assign_log_msg_buffer :: "log_msg_buffer \<Rightarrow> log_msg_buffer" where
  "assign_log_msg_buffer other = update_string_views \<lparr>lmb_msg = lmb_msg other, lmb_text = lmb_text other\<rparr>"

definition own_views :: "log_msg_buffer \<Rightarrow> bool" where
  "own_views b \<longleftrightarrow> lmb_text b = msg_logger_name (lmb_msg b) @ msg_payload (lmb_msg b)"

lemma update_own_views: "own_views b \<Longrightarrow> update_string_views b = b"
  by (simp add: update_string_views_def own_views_def)

text \<open>So a message, a copy and an assigned copy are the same message.\<close>

lemma log_msg_buffer_keeps:
  "lmb_msg (new_log_msg_buffer m) = m" "own_views (new_log_msg_buffer m)"
  "own_views b \<Longrightarrow> copy_log_msg_buffer b = b" "own_views b \<Longrightarrow> assign_log_msg_buffer b = b"
  by (simp_all add: new_log_msg_buffer_def copy_log_msg_buffer_def assign_log_msg_buffer_def update_string_views_def own_views_def)

section \<open>Messages of the queue\<close>

datatype async_overflow_policy = block | overrun_oldest | discard_new

datatype async_msg_type = msg_log | msg_flush | msg_terminate

text \<open>\<open>async_msg\<close> derives from \<open>log_msg_buffer\<close>, here its message; \<open>worker_ptr\<close> is null or a logger.\<close>

record async_msg = log_msg +
  msg_type :: async_msg_type
  worker_ptr :: "nat option"

definition new_async_msg :: "nat option \<Rightarrow> async_msg_type \<Rightarrow> log_msg \<Rightarrow> async_msg" where
  "new_async_msg worker the_type m = log_msg.extend m (async_msg.fields the_type worker)"

definition request_msg :: "nat option \<Rightarrow> async_msg_type \<Rightarrow> async_msg" where
  "request_msg worker the_type = new_async_msg worker the_type no_msg"

definition terminate_msg :: async_msg where
  "terminate_msg = request_msg None msg_terminate"

definition default_async_msg :: async_msg where
  "default_async_msg = request_msg None msg_log"

lemma new_async_msg_sel [simp]:
  "msg_type (new_async_msg w ty m) = ty" "worker_ptr (new_async_msg w ty m) = w"
  "log_msg.truncate (new_async_msg w ty m) = m"
  by (simp_all add: new_async_msg_def log_msg.defs async_msg.defs)

lemma request_msg_sel [simp]:
  "msg_type (request_msg w ty) = ty" "worker_ptr (request_msg w ty) = w" "msg_type terminate_msg = msg_terminate"
  by (simp_all add: request_msg_def terminate_msg_def)

section \<open>thread_pool\<close>

text \<open>
  A thread of the pool: in \<open>on_thread_start\<close>, before a \<open>dequeue\<close> of \<open>worker_loop_\<close>, with a message it has taken, in
  \<open>on_thread_stop\<close>, ended.
\<close>

datatype worker = Starting | Waiting | Handling async_msg | Stopping | Finished

text \<open>
  \<open>tp_closing\<close> is \<open>None\<close> while the pool has an owner; the destructor, which runs when the last one is gone, has
  that many \<open>terminate\<close> messages left to post.
\<close>

record log_pool =
  tp_q :: "async_msg mpmc_queue"
  tp_threads :: "worker list"
  tp_closing :: "nat option"

text \<open>The constructor throws for a number of threads out of range.\<close>

definition new_thread_pool :: "nat \<Rightarrow> nat \<Rightarrow> log_pool option" where
  "new_thread_pool q_max_items threads_n =
     (if threads_n = 0 \<or> 1000 < threads_n then None
      else Some \<lparr>tp_q = new_mpmc default_async_msg q_max_items, tp_threads = replicate threads_n Starting, tp_closing = None\<rparr>)"

definition post_async_msg :: "async_msg \<Rightarrow> async_overflow_policy \<Rightarrow> log_pool \<Rightarrow> log_pool res option" where
  "post_async_msg new_msg overflow_policy P =
     map_option (\<lambda>r. bindR r (\<lambda>Q. Inr (P\<lparr>tp_q := Q\<rparr>)))
       (case overflow_policy of
          block \<Rightarrow> enqueue new_msg (tp_q P)
        | overrun_oldest \<Rightarrow> Some (enqueue_nowait new_msg (tp_q P))
        | discard_new \<Rightarrow> Some (enqueue_if_have_room new_msg (tp_q P)))"

definition post_log :: "nat option \<Rightarrow> log_msg \<Rightarrow> async_overflow_policy \<Rightarrow> log_pool \<Rightarrow> log_pool res option" where
  "post_log worker msg overflow_policy P = post_async_msg (new_async_msg worker msg_log msg) overflow_policy P"

definition post_flush :: "nat option \<Rightarrow> async_overflow_policy \<Rightarrow> log_pool \<Rightarrow> log_pool res option" where
  "post_flush worker overflow_policy P = post_async_msg (request_msg worker msg_flush) overflow_policy P"

definition tp_overrun_counter :: "log_pool \<Rightarrow> nat" where
  "tp_overrun_counter P = overrun_counter (mpmc_q (tp_q P))"

definition tp_reset_overrun_counter :: "log_pool \<Rightarrow> log_pool" where
  "tp_reset_overrun_counter P = P\<lparr>tp_q := (tp_q P)\<lparr>mpmc_q := reset_overrun_counter (mpmc_q (tp_q P))\<rparr>\<rparr>"

definition tp_discard_counter :: "log_pool \<Rightarrow> nat" where
  "tp_discard_counter P = discard_counter (tp_q P)"

definition tp_reset_discard_counter :: "log_pool \<Rightarrow> log_pool" where
  "tp_reset_discard_counter P = P\<lparr>tp_q := reset_discard_counter (tp_q P)\<rparr>"

definition tp_queue_size :: "log_pool \<Rightarrow> nat" where
  "tp_queue_size P = mpmc_size (tp_q P)"

section \<open>The back end of a logger\<close>

definition backend_flush :: "nat \<Rightarrow> log_world \<Rightarrow> log_world res" where
  "backend_flush L W = bindR (get_logger L W) (\<lambda>l. flush_sinks (l_sinks l) W)"

definition backend_sink_it :: "log_env \<Rightarrow> fwrite \<Rightarrow> nat \<Rightarrow> log_msg \<Rightarrow> log_world \<Rightarrow> log_world res" where
  "backend_sink_it env fw L msg W =
     bindR (get_logger L W) (\<lambda>l.
     bindR (log_to_sinks env fw (l_sinks l) msg W) (\<lambda>(msg, W).
       if should_flush msg l then backend_flush L W else Inr W))"

text \<open>\<open>process_next_msg_\<close> after its \<open>dequeue\<close>: whether the thread goes on.\<close>

definition process_msg :: "log_env \<Rightarrow> fwrite \<Rightarrow> async_msg \<Rightarrow> log_world \<Rightarrow> (bool \<times> log_world) res" where
  "process_msg env fw incoming W =
     (case msg_type incoming of
        msg_log \<Rightarrow> (case worker_ptr incoming of
            None \<Rightarrow> Inl NullDeref
          | Some L \<Rightarrow> bindR (backend_sink_it env fw L (log_msg.truncate incoming) W) (\<lambda>W. Inr (True, W)))
      | msg_flush \<Rightarrow> (case worker_ptr incoming of
            None \<Rightarrow> Inl NullDeref
          | Some L \<Rightarrow> bindR (backend_flush L W) (\<lambda>W. Inr (True, W)))
      | msg_terminate \<Rightarrow> Inr (False, W))"

text \<open>\<open>flush_\<close> of a synchronous logger.\<close>

definition logger_flush :: "nat \<Rightarrow> log_world \<Rightarrow> log_world res" where
  "logger_flush L W = bindR (get_logger L W) (\<lambda>l. flush_sinks (l_sinks l) W)"

section \<open>async_logger\<close>

text \<open>
  The loggers in the domain of \<open>a_policies\<close> are the asynchronous ones. \<open>a_pool\<close> is the pool their \<open>thread_pool_\<close>
  refers to, none before it is made and after its destructor.
\<close>

record async_state =
  a_world :: log_world
  a_pool :: "log_pool option"
  a_policies :: "nat \<rightharpoonup> async_overflow_policy"

definition lock_pool :: "async_state \<Rightarrow> log_pool option" where
  "lock_pool A = (case a_pool A of Some P \<Rightarrow> if tp_closing P = None then Some P else None | None \<Rightarrow> None)"

definition set_pool :: "async_state \<Rightarrow> log_pool res \<Rightarrow> async_state res" where
  "set_pool A r = bindR r (\<lambda>P. Inr (A\<lparr>a_pool := Some P\<rparr>))"

definition set_world :: "async_state \<Rightarrow> log_world res \<Rightarrow> async_state res" where
  "set_world A r = bindR r (\<lambda>W. Inr (A\<lparr>a_world := W\<rparr>))"

definition async_sink_it :: "log_env \<Rightarrow> nat \<Rightarrow> log_msg \<Rightarrow> async_state \<Rightarrow> async_state res option" where
  "async_sink_it env L msg A =
     (case a_policies A L of
        None \<Rightarrow> Some (Inl NullDeref)
      | Some overflow_policy \<Rightarrow> (case lock_pool A of
            Some P \<Rightarrow> map_option (set_pool A) (post_log (Some L) msg overflow_policy P)
          | None \<Rightarrow> Some (set_world A (logger_catch env L (msg_source msg) ''async log: thread pool doesn't exist anymore'' (a_world A)))))"

definition async_flush :: "log_env \<Rightarrow> nat \<Rightarrow> async_state \<Rightarrow> async_state res option" where
  "async_flush env L A =
     (case a_policies A L of
        None \<Rightarrow> Some (Inl NullDeref)
      | Some overflow_policy \<Rightarrow> (case lock_pool A of
            Some P \<Rightarrow> map_option (set_pool A) (post_flush (Some L) overflow_policy P)
          | None \<Rightarrow> Some (set_world A (logger_catch env L no_source ''async flush: thread pool doesn't exist anymore'' (a_world A)))))"

text \<open>A copy has the same sinks, pool and policy.\<close>

definition async_clone :: "nat \<Rightarrow> nat \<Rightarrow> string \<Rightarrow> async_state \<Rightarrow> async_state res" where
  "async_clone L L' name A =
     bindR (set_world A (clone_logger L L' name (a_world A))) (\<lambda>A. Inr (A\<lparr>a_policies := (a_policies A)(L' := a_policies A L)\<rparr>))"

text \<open>\<open>log_it_\<close> and \<open>log_\<close> of an asynchronous logger.\<close>

definition async_log_it :: "log_env \<Rightarrow> nat \<Rightarrow> log_msg \<Rightarrow> bool \<Rightarrow> bool \<Rightarrow> async_state \<Rightarrow> async_state res option" where
  "async_log_it env L msg log_enabled traceback_enabled A =
     map_option (\<lambda>r. bindR r (\<lambda>A.
         if traceback_enabled
         then set_world A (bindR (get_logger L (a_world A)) (\<lambda>l.
              bindR (bt_push_back msg (tracer l)) (\<lambda>bt. modify_logger L (\<lambda>l. l\<lparr>tracer := bt\<rparr>) (a_world A))))
         else Inr A))
       (if log_enabled then async_sink_it env L msg A else Some (Inr A))"

definition async_log_message ::
    "log_env \<Rightarrow> nat \<Rightarrow> nat \<Rightarrow> source_loc \<Rightarrow> level_enum \<Rightarrow> string + string \<Rightarrow> async_state \<Rightarrow> async_state res option" where
  "async_log_message env tid L loc lvl formatted A =
     (case get_logger L (a_world A) of
        Inl e \<Rightarrow> Some (Inl e)
      | Inr l \<Rightarrow>
          let log_enabled = should_log lvl l; traceback_enabled = bt_enabled (tracer l)
          in if \<not> log_enabled \<and> \<not> traceback_enabled then Some (Inr A)
             else case formatted of
                 Inl what \<Rightarrow> Some (set_world A (logger_catch env L loc what (a_world A)))
               | Inr buf \<Rightarrow> async_log_it env L (new_log_msg tid (os_now env) loc (l_name l) lvl buf) log_enabled traceback_enabled A)"

section \<open>async.h\<close>

definition default_async_q_size :: nat where
  "default_async_q_size = 8192"

text \<open>\<open>None\<close> is the exception of the pool's constructor; for a registry that has no pool yet.\<close>

definition init_thread_pool :: "nat \<Rightarrow> nat \<Rightarrow> async_state \<Rightarrow> async_state option" where
  "init_thread_pool q_items thread_count A =
     map_option (\<lambda>P. A\<lparr>a_pool := Some P\<rparr>) (new_thread_pool q_items thread_count)"

text \<open>The factory: the sink gets the address \<open>i\<close>, the logger \<open>L\<close>; no registry is the exception of \<open>register_logger\<close>.\<close>

definition async_create ::
    "log_env \<Rightarrow> async_overflow_policy \<Rightarrow> string \<Rightarrow> sink \<Rightarrow> nat \<Rightarrow> nat \<Rightarrow> registry \<Rightarrow> async_state
     \<Rightarrow> (registry option \<times> async_state) res" where
  "async_create env overflow_policy logger_name sink i L R A =
     (let A = (if a_pool A = None then A\<lparr>a_pool := new_thread_pool default_async_q_size 1\<rparr> else A);
          W = (a_world A)\<lparr>lw_sinks := (lw_sinks (a_world A))(i \<mapsto> sink),
                          lw_loggers := (lw_loggers (a_world A))(L \<mapsto> new_logger logger_name [i])\<rparr>
      in bindR (initialize_logger env L R W) (\<lambda>(R, W).
           Inr (R, A\<lparr>a_world := W, a_policies := (a_policies A)(L \<mapsto> overflow_policy)\<rparr>)))"

end
