(* ===== verification/AsyncRuns.thy ===== *)
theory AsyncRuns
  imports LogAsync "HOL-Library.Multiset"
begin

text \<open>
  The threads of asynchronous logging as a step relation: the threads that log, the threads of the pool and
  the one that destroys it. What happens under the mutex of the queue is one step, and so is writing a message that was
  taken. The lemmas follow the messages through the queue and the threads, and show that the destructor returns.
\<close>

section \<open>Steps\<close>

datatype async_event =
    Posted async_msg
  | Started nat
  | Taken nat async_msg
  | Processed nat async_msg
  | Stopped nat
  | Released
  | Terminating
  | Joined

text \<open>
  A thread that logs holds the pool while it waits for room, so the destructor starts (\<open>Released\<close>) only when no call is
  waiting, and a call that comes later does not find the pool.
\<close>

inductive async_step :: "log_env \<Rightarrow> fwrite \<Rightarrow> async_state \<Rightarrow> async_event \<Rightarrow> async_state \<Rightarrow> bool" for env fw where
  step_log: "lock_pool A \<noteq> None \<Longrightarrow> async_sink_it env L msg A = Some (Inr A') \<Longrightarrow>
    async_step env fw A (Posted (new_async_msg (Some L) msg_log msg)) A'"
| step_flush: "lock_pool A \<noteq> None \<Longrightarrow> async_flush env L A = Some (Inr A') \<Longrightarrow>
    async_step env fw A (Posted (request_msg (Some L) msg_flush)) A'"
| step_start: "a_pool A = Some P \<Longrightarrow> i < length (tp_threads P) \<Longrightarrow> tp_threads P ! i = Starting \<Longrightarrow>
    async_step env fw A (Started i) (A\<lparr>a_pool := Some (P\<lparr>tp_threads := (tp_threads P)[i := Waiting]\<rparr>)\<rparr>)"
| step_take: "a_pool A = Some P \<Longrightarrow> i < length (tp_threads P) \<Longrightarrow> tp_threads P ! i = Waiting \<Longrightarrow>
    dequeue (tp_q P) = Some (Inr (m, Q)) \<Longrightarrow>
    async_step env fw A (Taken i m) (A\<lparr>a_pool := Some (P\<lparr>tp_q := Q, tp_threads := (tp_threads P)[i := Handling m]\<rparr>)\<rparr>)"
| step_process: "a_pool A = Some P \<Longrightarrow> i < length (tp_threads P) \<Longrightarrow> tp_threads P ! i = Handling m \<Longrightarrow>
    process_msg env fw m (a_world A) = Inr (goes_on, W) \<Longrightarrow>
    async_step env fw A (Processed i m)
      (A\<lparr>a_world := W, a_pool := Some (P\<lparr>tp_threads := (tp_threads P)[i := if goes_on then Waiting else Stopping]\<rparr>)\<rparr>)"
| step_stop: "a_pool A = Some P \<Longrightarrow> i < length (tp_threads P) \<Longrightarrow> tp_threads P ! i = Stopping \<Longrightarrow>
    async_step env fw A (Stopped i) (A\<lparr>a_pool := Some (P\<lparr>tp_threads := (tp_threads P)[i := Finished]\<rparr>)\<rparr>)"
| step_release: "a_pool A = Some P \<Longrightarrow> tp_closing P = None \<Longrightarrow>
    async_step env fw A Released (A\<lparr>a_pool := Some (P\<lparr>tp_closing := Some (length (tp_threads P))\<rparr>)\<rparr>)"
| step_terminate: "a_pool A = Some P \<Longrightarrow> tp_closing P = Some (Suc k) \<Longrightarrow>
    post_async_msg terminate_msg block P = Some (Inr P') \<Longrightarrow>
    async_step env fw A Terminating (A\<lparr>a_pool := Some (P'\<lparr>tp_closing := Some k\<rparr>)\<rparr>)"
| step_join: "a_pool A = Some P \<Longrightarrow> tp_closing P = Some 0 \<Longrightarrow> \<forall>t\<in>set (tp_threads P). t = Finished \<Longrightarrow>
    async_step env fw A Joined (A\<lparr>a_pool := None\<rparr>)"

inductive async_runs :: "log_env \<Rightarrow> fwrite \<Rightarrow> async_state \<Rightarrow> async_event list \<Rightarrow> async_state \<Rightarrow> bool" for env fw where
  run_nil: "async_runs env fw A [] A"
| run_step: "async_runs env fw A es A' \<Longrightarrow> async_step env fw A' e A'' \<Longrightarrow> async_runs env fw A (es @ [e]) A''"

inductive_cases async_runs_nilE: "async_runs env fw A [] A'"
inductive_cases async_runs_snocE: "async_runs env fw A (es @ [e]) A'"

primrec posted :: "async_event \<Rightarrow> async_msg list" where
  "posted (Posted m) = [m]"
| "posted (Started i) = []"
| "posted (Taken i m) = []"
| "posted (Processed i m) = []"
| "posted (Stopped i) = []"
| "posted Released = []"
| "posted Terminating = [terminate_msg]"
| "posted Joined = []"

primrec taken :: "async_event \<Rightarrow> async_msg list" where
  "taken (Posted m) = []"
| "taken (Started i) = []"
| "taken (Taken i m) = [m]"
| "taken (Processed i m) = []"
| "taken (Stopped i) = []"
| "taken Released = []"
| "taken Terminating = []"
| "taken Joined = []"

primrec processed :: "async_event \<Rightarrow> async_msg list" where
  "processed (Posted m) = []"
| "processed (Started i) = []"
| "processed (Taken i m) = []"
| "processed (Processed i m) = [m]"
| "processed (Stopped i) = []"
| "processed Released = []"
| "processed Terminating = []"
| "processed Joined = []"

abbreviation all_posted :: "async_event list \<Rightarrow> async_msg list" where
  "all_posted es \<equiv> concat (map posted es)"

abbreviation all_taken :: "async_event list \<Rightarrow> async_msg list" where
  "all_taken es \<equiv> concat (map taken es)"

abbreviation all_processed :: "async_event list \<Rightarrow> async_msg list" where
  "all_processed es \<equiv> concat (map processed es)"

section \<open>The queue during a run\<close>

definition pool_queue :: "async_state \<Rightarrow> async_msg list" where
  "pool_queue A = (case a_pool A of None \<Rightarrow> [] | Some P \<Rightarrow> queued (tp_q P))"

primrec in_hand :: "worker \<Rightarrow> async_msg list" where
  "in_hand Starting = []"
| "in_hand Waiting = []"
| "in_hand (Handling m) = [m]"
| "in_hand Stopping = []"
| "in_hand Finished = []"

definition hands :: "worker list \<Rightarrow> async_msg list" where
  "hands ts = concat (map in_hand ts)"

definition pool_hands :: "async_state \<Rightarrow> async_msg list" where
  "pool_hands A = (case a_pool A of None \<Rightarrow> [] | Some P \<Rightarrow> hands (tp_threads P))"

primrec policy_op :: "async_overflow_policy \<Rightarrow> 'a \<Rightarrow> 'a mpmc_op" where
  "policy_op block m = Enqueue m"
| "policy_op overrun_oldest m = Enqueue_nowait m"
| "policy_op discard_new m = Enqueue_if_have_room m"

lemma given_policy_op [simp]: "given (policy_op pol m) = [m]"
  by (cases pol) simp_all

lemma lossless_policy_op [simp]: "lossless (policy_op pol m) \<longleftrightarrow> pol = block"
  by (cases pol) simp_all

lemma post_async_msg_exec:
  assumes "post_async_msg m pol P = Some (Inr P')"
  shows "\<exists>Q. P' = P\<lparr>tp_q := Q\<rparr> \<and> mpmc_exec (policy_op pol m) (tp_q P) = Some (Inr ([], Q))"
  using assms by (cases pol) (auto simp: post_async_msg_def)

lemma post_async_msg_queue:
  assumes "post_async_msg m pol P = Some (Inr P')" and "mpmc_ok (tp_q P)"
  obtains Q where "P' = P\<lparr>tp_q := Q\<rparr>" and "mpmc_ok Q" and "capacity (mpmc_q Q) = capacity (mpmc_q (tp_q P))"
    and "subseq (queued Q) (queued (tp_q P) @ [m])" and "pol = block \<Longrightarrow> queued Q = queued (tp_q P) @ [m]"
proof -
  from post_async_msg_exec [OF assms(1)] obtain Q where Q: "P' = P\<lparr>tp_q := Q\<rparr>"
    "mpmc_exec (policy_op pol m) (tp_q P) = Some (Inr ([], Q))" by blast
  from mpmc_exec_ok [OF assms(2) Q(2)] show thesis using that [OF Q(1)] by auto
qed

lemma dequeue_queue:
  assumes "dequeue Q = Some (Inr (m, Q'))" and "mpmc_ok Q"
  shows "mpmc_ok Q' \<and> capacity (mpmc_q Q') = capacity (mpmc_q Q) \<and> queued Q = m # queued Q'"
proof -
  from assms(1) have "mpmc_exec Dequeue Q = Some (Inr ([m], Q'))" by simp
  from assms(2) this show ?thesis by (rule mpmc_exec_ok) simp
qed

lemma lock_pool_Some: "lock_pool A = Some P \<longleftrightarrow> a_pool A = Some P \<and> tp_closing P = None"
  by (auto simp: lock_pool_def split: option.splits)

text \<open>A call that finds the pool posts one message under the logger's policy.\<close>

lemma async_post_cases:
  assumes "lock_pool A \<noteq> None"
    and "async_sink_it env L msg A = Some (Inr A') \<and> m = new_async_msg (Some L) msg_log msg \<or>
      async_flush env L A = Some (Inr A') \<and> m = request_msg (Some L) msg_flush"
  obtains P P' pol where "a_pool A = Some P" and "tp_closing P = None" and "a_policies A L = Some pol"
    and "post_async_msg m pol P = Some (Inr P')" and "A' = A\<lparr>a_pool := Some P'\<rparr>"
proof -
  from assms(1) obtain P where P: "a_pool A = Some P" "tp_closing P = None"
    using lock_pool_Some [of A] by (cases "lock_pool A") auto
  then have l: "lock_pool A = Some P" by (simp add: lock_pool_Some)
  from assms(2) show thesis
    using that [OF P]
    by (auto simp: async_sink_it_def async_flush_def l post_log_def post_flush_def set_pool_def split: option.splits)
qed

definition blocking :: "async_state \<Rightarrow> bool" where
  "blocking A \<longleftrightarrow> ran (a_policies A) \<subseteq> {block}"

section \<open>The messages that end the threads\<close>

definition terminates :: "async_msg \<Rightarrow> bool" where
  "terminates m \<longleftrightarrow> msg_type m = msg_terminate"

text \<open>The threads that have taken such a message.\<close>

primrec ending :: "worker \<Rightarrow> nat" where
  "ending Starting = 0"
| "ending Waiting = 0"
| "ending (Handling m) = of_bool (terminates m)"
| "ending Stopping = 1"
| "ending Finished = 1"

definition endings :: "worker list \<Rightarrow> nat" where
  "endings ts = sum_list (map ending ts)"

text \<open>
  They come last in the queue, there are as many of them as the destructor has posted, and none is taken as long as there is
  another message.
\<close>

definition pool_shape :: "nat \<Rightarrow> nat \<Rightarrow> log_pool \<Rightarrow> async_msg list \<Rightarrow> nat \<Rightarrow> bool" where
  "pool_shape n c P ms j \<longleftrightarrow>
     0 < n \<and> length (tp_threads P) = n \<and> mpmc_ok (tp_q P) \<and> capacity (mpmc_q (tp_q P)) = c \<and>
     queued (tp_q P) = ms @ replicate j terminate_msg \<and> (\<forall>m\<in>set ms. \<not> terminates m) \<and>
     (0 < endings (tp_threads P) \<longrightarrow> ms = []) \<and>
     (case tp_closing P of None \<Rightarrow> j + endings (tp_threads P) = 0 | Some k \<Rightarrow> j + endings (tp_threads P) + k = n)"

definition tp_ok :: "nat \<Rightarrow> nat \<Rightarrow> log_pool \<Rightarrow> bool" where
  "tp_ok n c P \<longleftrightarrow> (\<exists>ms j. pool_shape n c P ms j)"

definition async_ok :: "nat \<Rightarrow> nat \<Rightarrow> async_state \<Rightarrow> bool" where
  "async_ok n c A \<longleftrightarrow> (case a_pool A of None \<Rightarrow> True | Some P \<Rightarrow> tp_ok n c P)"

lemma tp_okI: "pool_shape n c P ms j \<Longrightarrow> tp_ok n c P"
  by (auto simp: tp_ok_def)

lemma tp_okE:
  assumes "tp_ok n c P"
  obtains ms j where "pool_shape n c P ms j"
  using assms by (auto simp: tp_ok_def)

lemma endings_update:
  assumes "i < length ts"
  shows "endings (ts[i := t]) + ending (ts ! i) = endings ts + ending t"
  unfolding endings_def using assms
proof (induction ts arbitrary: i)
  case (Cons a ts)
  then show ?case by (cases i) auto
qed simp

lemma hands_update:
  assumes "i < length ts"
  shows "mset (hands (ts[i := t])) + mset (in_hand (ts ! i)) = mset (hands ts) + mset (in_hand t)"
  unfolding hands_def using assms
proof (induction ts arbitrary: i)
  case (Cons a ts)
  then show ?case by (cases i) auto
qed simp

lemma terminates_terminate [simp]: "terminates terminate_msg" "\<not> terminates (new_async_msg w msg_log m)"
  "\<not> terminates (request_msg w msg_flush)"
  by (simp_all add: terminates_def)

text \<open>A message under a policy, before the destructor; and the destructor's own.\<close>

lemma tp_ok_post:
  assumes "tp_ok n c P" and "tp_closing P = None" and "post_async_msg m pol P = Some (Inr P')" and "\<not> terminates m"
  shows "tp_ok n c P'"
proof -
  from assms(1) obtain ms j where P: "pool_shape n c P ms j" by (rule tp_okE)
  then have ok: "mpmc_ok (tp_q P)" by (simp add: pool_shape_def)
  from post_async_msg_queue [OF assms(3) ok] obtain Q where Q: "P' = P\<lparr>tp_q := Q\<rparr>" "mpmc_ok Q"
    "capacity (mpmc_q Q) = capacity (mpmc_q (tp_q P))" "subseq (queued Q) (queued (tp_q P) @ [m])" .
  from list_emb_set [OF Q(4)] have "set (queued Q) \<subseteq> set (queued (tp_q P) @ [m])" by blast
  moreover have "\<forall>m\<in>set (queued (tp_q P)). \<not> terminates m" using P assms(2) by (simp add: pool_shape_def)
  ultimately have "\<forall>m\<in>set (queued Q). \<not> terminates m" using assms(4) by auto
  with P Q assms(2) have "pool_shape n c P' (queued Q) 0" by (simp add: pool_shape_def)
  then show ?thesis by (rule tp_okI)
qed

lemma tp_ok_terminate:
  assumes "tp_ok n c P" and "tp_closing P = Some (Suc k)" and "post_async_msg terminate_msg block P = Some (Inr P')"
  shows "tp_ok n c (P'\<lparr>tp_closing := Some k\<rparr>)"
proof -
  from assms(1) obtain ms j where P: "pool_shape n c P ms j" by (rule tp_okE)
  then have ok: "mpmc_ok (tp_q P)" by (simp add: pool_shape_def)
  from post_async_msg_queue [OF assms(3) ok] obtain Q where Q: "P' = P\<lparr>tp_q := Q\<rparr>" "mpmc_ok Q"
    "capacity (mpmc_q Q) = capacity (mpmc_q (tp_q P))" "queued Q = queued (tp_q P) @ [terminate_msg]" by auto
  with P assms(2) have "pool_shape n c (P'\<lparr>tp_closing := Some k\<rparr>) ms (Suc j)"
    by (simp add: pool_shape_def replicate_append_same)
  then show ?thesis by (rule tp_okI)
qed

lemma tp_ok_thread:
  assumes "tp_ok n c P" and "i < length (tp_threads P)" and "ending t = ending (tp_threads P ! i)"
  shows "tp_ok n c (P\<lparr>tp_threads := (tp_threads P)[i := t]\<rparr>)"
proof -
  have "endings ((tp_threads P)[i := t]) = endings (tp_threads P)" using endings_update [OF assms(2), of t] assms(3) by simp
  with assms(1) show ?thesis by (cases "tp_closing P") (simp_all add: tp_ok_def pool_shape_def)
qed

lemma tp_ok_take:
  assumes "tp_ok n c P" and "i < length (tp_threads P)" and "tp_threads P ! i = Waiting"
    and "dequeue (tp_q P) = Some (Inr (m, Q))"
  shows "tp_ok n c (P\<lparr>tp_q := Q, tp_threads := (tp_threads P)[i := Handling m]\<rparr>)"
proof -
  let ?P' = "P\<lparr>tp_q := Q, tp_threads := (tp_threads P)[i := Handling m]\<rparr>"
  from assms(1) obtain ms j where P: "pool_shape n c P ms j" by (rule tp_okE)
  then have ok: "mpmc_ok (tp_q P)" and q: "queued (tp_q P) = ms @ replicate j terminate_msg" by (simp_all add: pool_shape_def)
  from dequeue_queue [OF assms(4) ok] have Q: "mpmc_ok Q" "capacity (mpmc_q Q) = capacity (mpmc_q (tp_q P))"
    "queued (tp_q P) = m # queued Q" by auto
  have e: "endings (tp_threads ?P') = endings (tp_threads P) + of_bool (terminates m)"
    using endings_update [OF assms(2), of "Handling m"] assms(3) by simp
  show ?thesis
  proof (cases ms)
    case Nil
    with q Q(3) obtain j' where j: "j = Suc j'" "m = terminate_msg" "queued Q = replicate j' terminate_msg" by (cases j) auto
    with P Q e Nil have "pool_shape n c ?P' [] j'" by (auto simp: pool_shape_def split: option.splits)
    then show ?thesis by (rule tp_okI)
  next
    case (Cons m' ms')
    with q Q(3) have "m' = m" "queued Q = ms' @ replicate j terminate_msg" by auto
    with P Q e Cons have "pool_shape n c ?P' ms' j" by (auto simp: pool_shape_def split: option.splits)
    then show ?thesis by (rule tp_okI)
  qed
qed

lemma process_msg_ending: "process_msg env fw m W = Inr (goes_on, W') \<Longrightarrow> goes_on \<longleftrightarrow> \<not> terminates m"
  by (auto simp: process_msg_def terminates_def split: async_msg_type.splits option.splits)

lemma async_step_ok:
  assumes "async_step env fw A e A'" and "async_ok n c A"
  shows "async_ok n c A'"
  using assms(1)
proof (cases rule: async_step.cases)
  case (step_log L msg)
  from async_post_cases [OF step_log(2), of env L msg A' "new_async_msg (Some L) msg_log msg"] step_log(3)
  obtain P P' pol where P: "a_pool A = Some P" "tp_closing P = None"
    "post_async_msg (new_async_msg (Some L) msg_log msg) pol P = Some (Inr P')" "A' = A\<lparr>a_pool := Some P'\<rparr>" by blast
  from tp_ok_post [OF _ P(2,3), of n c] P assms(2) show ?thesis by (simp add: async_ok_def)
next
  case (step_flush L)
  from async_post_cases [OF step_flush(2), of env L _ A' "request_msg (Some L) msg_flush"] step_flush(3)
  obtain P P' pol where P: "a_pool A = Some P" "tp_closing P = None"
    "post_async_msg (request_msg (Some L) msg_flush) pol P = Some (Inr P')" "A' = A\<lparr>a_pool := Some P'\<rparr>" by blast
  from tp_ok_post [OF _ P(2,3), of n c] P assms(2) show ?thesis by (simp add: async_ok_def)
next
  case (step_process P i m goes_on W)
  with tp_ok_thread [of n c P i "if goes_on then Waiting else Stopping"] assms(2) process_msg_ending [OF step_process(6)]
  show ?thesis by (auto simp: async_ok_def)
next
  case (step_release P)
  with assms(2) show ?thesis by (auto simp: async_ok_def tp_ok_def pool_shape_def)
next
  case (step_start P i)
  with tp_ok_thread [of n c P i Waiting] assms(2) show ?thesis by (simp add: async_ok_def)
next
  case (step_take P i m Q)
  with tp_ok_take [of n c P i m Q] assms(2) show ?thesis by (simp add: async_ok_def)
next
  case (step_stop P i)
  with tp_ok_thread [of n c P i Finished] assms(2) show ?thesis by (simp add: async_ok_def)
next
  case (step_terminate P k P')
  with tp_ok_terminate [of n c P k P'] assms(2) show ?thesis by (simp add: async_ok_def)
qed (simp add: async_ok_def)

section \<open>The way of the messages\<close>

definition apply_msg :: "log_env \<Rightarrow> fwrite \<Rightarrow> async_msg \<Rightarrow> log_world \<Rightarrow> log_world res" where
  "apply_msg env fw m W = bindR (process_msg env fw m W) (\<lambda>(goes_on, W). Inr W)"

text \<open>Through the queue: from the front, and nothing is lost if every logger blocks.\<close>

definition queue_flow :: "async_state \<Rightarrow> async_event \<Rightarrow> async_state \<Rightarrow> bool" where
  "queue_flow A e A' \<longleftrightarrow>
     subseq (taken e @ pool_queue A') (pool_queue A @ posted e) \<and>
     (blocking A \<longrightarrow> taken e @ pool_queue A' = pool_queue A @ posted e) \<and> a_policies A' = a_policies A"

text \<open>Through the threads; a single one processes what it takes in order.\<close>

definition thread_flow :: "nat \<Rightarrow> log_env \<Rightarrow> fwrite \<Rightarrow> async_state \<Rightarrow> async_event \<Rightarrow> async_state \<Rightarrow> bool" where
  "thread_flow n env fw A e A' \<longleftrightarrow>
     mset (processed e) + mset (pool_hands A') = mset (pool_hands A) + mset (taken e) \<and>
     (n = 1 \<longrightarrow> processed e @ pool_hands A' = pool_hands A @ taken e) \<and>
     push_all (apply_msg env fw) (processed e) (a_world A) = Inr (a_world A')"

lemma pool_queue_Some [simp]: "a_pool A = Some P \<Longrightarrow> pool_queue A = queued (tp_q P)"
  by (simp add: pool_queue_def)

lemma pool_hands_Some [simp]: "a_pool A = Some P \<Longrightarrow> pool_hands A = hands (tp_threads P)"
  by (simp add: pool_hands_def)

lemma pool_gone [simp]: "a_pool A = None \<Longrightarrow> pool_queue A = []" "a_pool A = None \<Longrightarrow> pool_hands A = []"
  by (simp_all add: pool_queue_def pool_hands_def)

lemma async_ok_queue: "async_ok n c A \<Longrightarrow> a_pool A = Some P \<Longrightarrow> mpmc_ok (tp_q P)"
  by (auto simp: async_ok_def tp_ok_def pool_shape_def)

lemma async_ok_threads: "async_ok n c A \<Longrightarrow> a_pool A = Some P \<Longrightarrow> length (tp_threads P) = n"
  by (auto simp: async_ok_def tp_ok_def pool_shape_def)

lemma blocking_policy: "blocking A \<Longrightarrow> a_policies A L = Some pol \<Longrightarrow> pol = block"
  by (auto simp: blocking_def intro: ranI)

lemma posted_flow:
  assumes "async_ok n c A" and "a_pool A = Some P" and "a_policies A L = Some pol"
    and p: "post_async_msg m pol P = Some (Inr P')" and "posted e = [m]" and "taken e = []" and "processed e = []"
  shows "queue_flow A e (A\<lparr>a_pool := Some P'\<rparr>) \<and> thread_flow n env fw A e (A\<lparr>a_pool := Some P'\<rparr>)"
proof -
  from post_async_msg_queue [OF p async_ok_queue [OF assms(1,2)]] obtain Q where Q: "P' = P\<lparr>tp_q := Q\<rparr>"
    "subseq (queued Q) (queued (tp_q P) @ [m])" "pol = block \<Longrightarrow> queued Q = queued (tp_q P) @ [m]" by auto
  with assms show ?thesis by (auto simp: queue_flow_def thread_flow_def dest: blocking_policy)
qed

lemma finished_endings: "\<forall>t\<in>set ts. t = Finished \<Longrightarrow> endings ts = length ts \<and> hands ts = []"
  by (induction ts) (simp_all add: endings_def hands_def)

text \<open>When the threads are joined nothing is left.\<close>

lemma joined_empty:
  assumes "async_ok n c A" and "a_pool A = Some P" and "tp_closing P = Some 0" and "\<forall>t\<in>set (tp_threads P). t = Finished"
  shows "pool_queue A = [] \<and> pool_hands A = []"
proof -
  from assms(1,2) obtain ms j where "pool_shape n c P ms j" by (auto simp: async_ok_def tp_ok_def)
  with assms(2,3) finished_endings [OF assms(4)] show ?thesis by (auto simp: pool_shape_def)
qed

lemma single_thread: "length ts = 1 \<Longrightarrow> i < length ts \<Longrightarrow> ts = [ts ! 0] \<and> i = 0"
  by (cases ts) auto

lemma exchange:
  fixes a a' x t p k :: "'a multiset"
  assumes "a' + x = a + t" and "x + k = p + t"
  shows "p + a' = a + k"
proof -
  have "(p + a') + (t + x) = (p + t) + (a' + x)" by (simp add: ac_simps)
  also have "\<dots> = (x + k) + (a + t)" using assms by simp
  also have "\<dots> = (a + k) + (t + x)" by (simp add: ac_simps)
  finally show ?thesis by (rule add_right_imp_eq)
qed

lemma thread_moves:
  assumes "async_ok n c A" and "a_pool A = Some P" and "i < length (tp_threads P)"
    and "in_hand (tp_threads P ! i) @ taken e = processed e @ in_hand t"
    and "tp_threads P' = (tp_threads P)[i := t]"
    and "push_all (apply_msg env fw) (processed e) (a_world A) = Inr (a_world A')" and "a_pool A' = Some P'"
  shows "thread_flow n env fw A e A'"
proof -
  let ?ts = "tp_threads P"
  have "mset (in_hand (?ts ! i)) + mset (taken e) = mset (processed e) + mset (in_hand t)"
    using assms(4) by (metis mset_append)
  with hands_update [OF assms(3), of t]
  have "mset (processed e) + mset (hands (?ts[i := t])) = mset (hands ?ts) + mset (taken e)" by (rule exchange)
  moreover have "processed e @ hands (?ts[i := t]) = hands ?ts @ taken e" if "n = 1"
  proof -
    from that assms(1-3) have "length ?ts = 1" by (simp add: async_ok_threads)
    from single_thread [OF this assms(3)] have "?ts = [?ts ! i]" "i = 0" by auto
    then obtain t0 where "?ts = [t0]" by metis
    with \<open>i = 0\<close> assms(4) show ?thesis by (simp add: hands_def)
  qed
  ultimately show ?thesis using assms by (simp add: thread_flow_def)
qed

lemma async_step_flow:
  assumes "async_step env fw A e A'" and "async_ok n c A"
  shows "queue_flow A e A' \<and> thread_flow n env fw A e A'"
  using assms(1)
proof (cases rule: async_step.cases)
  case (step_log L msg)
  from async_post_cases [OF step_log(2), of env L msg A' "new_async_msg (Some L) msg_log msg"] step_log(3)
  obtain P P' pol where P: "a_pool A = Some P" "a_policies A L = Some pol"
    "post_async_msg (new_async_msg (Some L) msg_log msg) pol P = Some (Inr P')" "A' = A\<lparr>a_pool := Some P'\<rparr>" by blast
  with posted_flow [OF assms(2) P(1-3), of e] step_log(1) show ?thesis by simp
next
  case (step_flush L)
  from async_post_cases [OF step_flush(2), of env L _ A' "request_msg (Some L) msg_flush"] step_flush(3)
  obtain P P' pol where P: "a_pool A = Some P" "a_policies A L = Some pol"
    "post_async_msg (request_msg (Some L) msg_flush) pol P = Some (Inr P')" "A' = A\<lparr>a_pool := Some P'\<rparr>" by blast
  with posted_flow [OF assms(2) P(1-3), of e] step_flush(1) show ?thesis by simp
next
  case (step_process P i m goes_on W)
  then show ?thesis
    using thread_moves [OF assms(2) step_process(3,4), of e "if goes_on then Waiting else Stopping" _ env fw A']
    by (auto simp: queue_flow_def apply_msg_def)
next
  case (step_release P)
  then show ?thesis by (simp add: queue_flow_def thread_flow_def)
next
  case (step_start P i)
  then show ?thesis
    using thread_moves [OF assms(2) step_start(3,4), of e Waiting _ env fw A'] by (auto simp: queue_flow_def)
next
  case (step_take P i m Q)
  with dequeue_queue [OF step_take(6) async_ok_queue [OF assms(2) step_take(3)]]
  have "queue_flow A e A'" by (simp add: queue_flow_def)
  moreover have "thread_flow n env fw A e A'"
    by (rule thread_moves [OF assms(2) step_take(3,4), of e "Handling m"]) (simp_all add: step_take)
  ultimately show ?thesis ..
next
  case (step_stop P i)
  then show ?thesis
    using thread_moves [OF assms(2) step_stop(3,4), of e Finished _ env fw A'] by (auto simp: queue_flow_def)
next
  case (step_terminate P k P')
  from post_async_msg_queue [OF step_terminate(5) async_ok_queue [OF assms(2) step_terminate(3)]]
  obtain Q where "P' = P\<lparr>tp_q := Q\<rparr>" "queued Q = queued (tp_q P) @ [terminate_msg]" by auto
  with step_terminate show ?thesis by (simp add: queue_flow_def thread_flow_def)
next
  case (step_join P)
  with joined_empty [OF assms(2) step_join(3-5)] show ?thesis by (simp add: queue_flow_def thread_flow_def)
qed

section \<open>Runs\<close>

lemma async_runs_append: "async_runs env fw A es A1 \<Longrightarrow> async_runs env fw A1 es' A2 \<Longrightarrow> async_runs env fw A (es @ es') A2"
proof (induction es' arbitrary: A2 rule: rev_induct)
  case Nil
  then show ?case by (auto elim: async_runs_nilE)
next
  case (snoc e es')
  from snoc.prems(2) obtain A' where "async_runs env fw A1 es' A'" "async_step env fw A' e A2"
    by (cases rule: async_runs.cases) auto
  with snoc.IH [OF snoc.prems(1), of A'] run_step [of env fw A "es @ es'" A' e A2] show ?case by simp
qed

lemma async_runs_ok: "async_runs env fw A es A' \<Longrightarrow> async_ok n c A \<Longrightarrow> async_ok n c A'"
  by (induction rule: async_runs.induct) (auto intro: async_step_ok)

lemma async_runs_queue:
  assumes "async_runs env fw A es A'" and "async_ok n c A"
  shows "subseq (all_taken es @ pool_queue A') (pool_queue A @ all_posted es) \<and>
    (blocking A \<longrightarrow> all_taken es @ pool_queue A' = pool_queue A @ all_posted es) \<and> a_policies A' = a_policies A"
  using assms
proof (induction rule: async_runs.induct)
  case (run_step A es A' e A'')
  have ok: "async_ok n c A'" using async_runs_ok [OF run_step.hyps(1) run_step.prems] .
  from async_step_flow [OF run_step.hyps(2) ok] have f: "queue_flow A' e A''" by simp
  note ih = run_step.IH [OF run_step.prems]
  from ih have "blocking A \<Longrightarrow> blocking A'" by (simp add: blocking_def)
  moreover have "subseq (all_taken es @ taken e @ pool_queue A'') (all_taken es @ pool_queue A' @ posted e)"
    using f by (simp add: queue_flow_def subseq_append')
  moreover have "subseq ((all_taken es @ pool_queue A') @ posted e) ((pool_queue A @ all_posted es) @ posted e)"
    using list_emb_append_mono [OF conjunct1 [OF ih] subseq_order.refl] .
  ultimately show ?case
    using ih f by (auto simp: queue_flow_def elim: subseq_order.trans)
qed simp

lemma async_runs_threads:
  assumes "async_runs env fw A es A'" and "async_ok n c A"
  shows "mset (all_processed es) + mset (pool_hands A') = mset (pool_hands A) + mset (all_taken es) \<and>
    (n = 1 \<longrightarrow> all_processed es @ pool_hands A' = pool_hands A @ all_taken es) \<and>
    push_all (apply_msg env fw) (all_processed es) (a_world A) = Inr (a_world A')"
  using assms
proof (induction rule: async_runs.induct)
  case (run_step A es A' e A'')
  have ok: "async_ok n c A'" using async_runs_ok [OF run_step.hyps(1) run_step.prems] .
  from async_step_flow [OF run_step.hyps(2) ok] have f: "thread_flow n env fw A' e A''" by simp
  note ih = run_step.IH [OF run_step.prems]
  have "mset (all_processed es) + mset (processed e) + mset (pool_hands A'') =
    mset (all_processed es) + mset (pool_hands A') + mset (taken e)"
    using f by (simp add: thread_flow_def add.assoc)
  moreover have "n = 1 \<Longrightarrow> all_processed es @ processed e @ pool_hands A'' = pool_hands A @ all_taken es @ taken e"
    using ih f by (metis append.assoc thread_flow_def)
  ultimately show ?case using ih f by (simp add: thread_flow_def push_all_append add.assoc)
qed simp

lemma init_thread_pool_ok:
  assumes "init_thread_pool q n A0 = Some A" and "q + 1 < 2 ^ 64"
  shows "async_ok n q A" and "pool_queue A = []" and "pool_hands A = []"
    and "a_world A = a_world A0" and "a_policies A = a_policies A0"
proof -
  from assms(1) obtain P where P: "P = \<lparr>tp_q = new_mpmc default_async_msg q, tp_threads = replicate n Starting, tp_closing = None\<rparr>"
    "0 < n" and A: "A = A0\<lparr>a_pool := Some P\<rparr>"
    by (auto simp: init_thread_pool_def new_thread_pool_def split: if_splits)
  have e: "endings (replicate n Starting) = 0" "hands (replicate n Starting) = []"
    by (simp_all add: endings_def hands_def sum_list_replicate concat_replicate_trivial)
  have q: "mpmc_ok (new_mpmc default_async_msg q)" "queued (new_mpmc default_async_msg q) = []"
    "capacity (mpmc_q (new_mpmc default_async_msg q)) = q"
    using assms(2) by (simp_all add: mpmc_ok_def new_mpmc_def new_circular_q_ok capacity_new)
      (simp add: new_circular_q_def Let_def)
  from P e q have "pool_shape n q P [] 0" by (simp add: pool_shape_def)
  then show "async_ok n q A" by (auto simp: A async_ok_def tp_ok_def)
  from A P e q show "pool_queue A = []" "pool_hands A = []" "a_world A = a_world A0" "a_policies A = a_policies A0"
    by simp_all
qed

text \<open>After the destructor every message has been taken and processed.\<close>

lemma destroyed_pool:
  assumes "init_thread_pool q n A0 = Some A" and "q + 1 < 2 ^ 64" and "async_runs env fw A es A'" and "a_pool A' = None"
  shows "subseq (all_taken es) (all_posted es)" and "blocking A0 \<Longrightarrow> all_taken es = all_posted es"
    and "mset (all_processed es) = mset (all_taken es)" and "n = 1 \<Longrightarrow> all_processed es = all_taken es"
    and "push_all (apply_msg env fw) (all_processed es) (a_world A0) = Inr (a_world A')"
proof -
  note i = init_thread_pool_ok [OF assms(1,2)]
  note r = async_runs_queue [OF assms(3) i(1)] async_runs_threads [OF assms(3) i(1)]
  have "blocking A = blocking A0" using i(5) by (simp add: blocking_def)
  with r i assms(4)
  show "subseq (all_taken es) (all_posted es)" "blocking A0 \<Longrightarrow> all_taken es = all_posted es"
    "mset (all_processed es) = mset (all_taken es)" "n = 1 \<Longrightarrow> all_processed es = all_taken es"
    "push_all (apply_msg env fw) (all_processed es) (a_world A0) = Inr (a_world A')" by auto
qed

section \<open>The synchronous logger\<close>

text \<open>What a \<open>logger\<close> does in the call that posts a message here.\<close>

primrec user_posted :: "async_event \<Rightarrow> async_msg list" where
  "user_posted (Posted m) = [m]"
| "user_posted (Started i) = []"
| "user_posted (Taken i m) = []"
| "user_posted (Processed i m) = []"
| "user_posted (Stopped i) = []"
| "user_posted Released = []"
| "user_posted Terminating = []"
| "user_posted Joined = []"

definition sync_call :: "log_env \<Rightarrow> fwrite \<Rightarrow> async_msg \<Rightarrow> log_world \<Rightarrow> log_world res" where
  "sync_call env fw m W =
     (case msg_type m of
        msg_log \<Rightarrow> (case worker_ptr m of None \<Rightarrow> Inl NullDeref | Some L \<Rightarrow> sink_it_only env fw L (log_msg.truncate m) W)
      | msg_flush \<Rightarrow> (case worker_ptr m of None \<Rightarrow> Inl NullDeref | Some L \<Rightarrow> logger_flush L W)
      | msg_terminate \<Rightarrow> Inr W)"

lemma log_to_sinks_loggers: "log_to_sinks env fw is msg W = Inr (msg', W') \<Longrightarrow> lw_loggers W' = lw_loggers W"
  by (induction env fw "is" msg W rule: log_to_sinks.induct) (fastforce simp: put_sink_def split: if_splits prod.splits)+

lemma backend_sink_it_sync: "backend_sink_it env fw L msg W = sink_it_only env fw L msg W"
proof (cases "get_logger L W")
  case (Inr l)
  then have "get_logger L W' = Inr l" if "lw_loggers W' = lw_loggers W" for W' using that by (simp add: get_logger_def)
  with Inr show ?thesis
    by (cases "log_to_sinks env fw (l_sinks l) msg W")
      (auto simp: backend_sink_it_def sink_it_only_def sink_it_def backend_flush_def bindR_assoc dest!: log_to_sinks_loggers)
qed (simp add: backend_sink_it_def sink_it_only_def sink_it_def)

lemma apply_msg_sync: "apply_msg env fw = sync_call env fw"
  by (intro ext) (simp add: apply_msg_def process_msg_def sync_call_def backend_sink_it_sync backend_flush_def logger_flush_def
      bindR_assoc split: async_msg_type.split option.split)

lemma user_posted_posted: "set (user_posted e) \<subseteq> set (posted e)"
  by (cases e) simp_all

lemma push_user_posted:
  "push_all (sync_call env fw) (all_posted es) W = push_all (sync_call env fw) (concat (map user_posted es)) W"
proof (induction es arbitrary: W)
  case (Cons e es)
  have "push_all (sync_call env fw) (posted e) W = push_all (sync_call env fw) (user_posted e) W" for W
    by (cases e) (simp_all add: sync_call_def)
  moreover have "push_all (sync_call env fw) (all_posted es) = push_all (sync_call env fw) (concat (map user_posted es))"
    by (rule ext) (rule Cons.IH)
  ultimately show ?case by (simp add: push_all_append)
qed simp

end
