(* ===== verification/AsyncStop.thy ===== *)
theory AsyncStop
  imports AsyncRuns
begin

text \<open>
  The destructor of the pool returns: after it has started, every step brings the pool nearer to its end and, as
  long as it is not there, some thread can take a step. A queue without room never lets it return.
\<close>

section \<open>The steps that are left\<close>

primrec worker_work :: "worker \<Rightarrow> nat" where
  "worker_work Starting = 3"
| "worker_work Waiting = 2"
| "worker_work (Handling m) = 3"
| "worker_work Stopping = 1"
| "worker_work Finished = 0"

text \<open>A bound on the steps that are left once the destructor runs.\<close>

definition pool_work :: "async_state \<Rightarrow> nat" where
  "pool_work A =
     (case a_pool A of
        None \<Rightarrow> 0
      | Some P \<Rightarrow> 1 + 3 * (case tp_closing P of None \<Rightarrow> 0 | Some k \<Rightarrow> k) + 2 * length (queued (tp_q P)) + sum_list (map worker_work (tp_threads P)))"

definition destroying :: "async_state \<Rightarrow> bool" where
  "destroying A \<longleftrightarrow> (case a_pool A of None \<Rightarrow> True | Some P \<Rightarrow> tp_closing P \<noteq> None)"

lemma worker_work_update:
  "i < length ts \<Longrightarrow>
   sum_list (map worker_work (ts[i := t])) + worker_work (ts ! i) = sum_list (map worker_work ts) + worker_work t"
proof (induction ts arbitrary: i)
  case (Cons a ts)
  then show ?case by (cases i) auto
qed simp

text \<open>Processing does not fail: the sinks of every logger are there, a console has the program's pattern.\<close>

primrec sink_fine :: "log_env \<Rightarrow> sink \<Rightarrow> bool" where
  "sink_fine env (Console s) \<longleftrightarrow> colors_ok s \<and> dwt_formatter env (a_formatter s)"
| "sink_fine env (Ring s) \<longleftrightarrow> circular_ok (r_q s)"

definition writable :: "log_env \<Rightarrow> log_world \<Rightarrow> bool" where
  "writable env W \<longleftrightarrow>
     (\<forall>L l. lw_loggers W L = Some l \<longrightarrow> (\<forall>i\<in>set (l_sinks l). lw_sinks W i \<noteq> None)) \<and>
     (\<forall>i s. lw_sinks W i = Some s \<longrightarrow> sink_fine env s)"

definition text_fine :: "log_env \<Rightarrow> log_msg \<Rightarrow> bool" where
  "text_fine env msg \<longleftrightarrow> message_ok env msg \<and> msg_secs msg \<noteq> 0"

definition message_fine :: "log_env \<Rightarrow> log_world \<Rightarrow> async_msg \<Rightarrow> bool" where
  "message_fine env W m \<longleftrightarrow>
     terminates m \<or>
     (\<exists>L. worker_ptr m = Some L \<and> lw_loggers W L \<noteq> None \<and> (msg_type m = msg_log \<longrightarrow> text_fine env (log_msg.truncate m)))"

lemma sink_log_fine:
  assumes "sink_fine env s" and "text_fine env msg" and "takes_all fw" and "clock_ok env"
  shows "\<exists>msg' s'. sink_log env fw msg s = Inr (msg', s') \<and> sink_fine env s' \<and> text_fine env msg'"
proof (cases s)
  case (Console a)
  with assms(1) have a: "colors_ok a" "dwt_formatter env (a_formatter a)" by simp_all
  let ?msg = "colored 0 0 msg"
  have m: "message_ok env ?msg" "msg_secs ?msg \<noteq> 0"
    using assms(2) by (simp_all add: text_fine_def message_ok_colored) (simp add: msg_secs_def colored_def)
  from dwt_format [OF a(2) assms(4) m] obtain pf where
    f: "format_message env (a_formatter a) ?msg [] = Inr (pf, ?msg, dwt_line env (msg_time ?msg) (msg_level ?msg) (msg_payload ?msg))"
    and pf: "dwt_formatter env pf" by (auto simp: colored_sel)
  from ansicolor_log_text [OF assms(3) a(1), of env msg pf 0 0] f
  have "ansicolor_log env fw msg a = Inr (?msg, a\<lparr>a_formatter := pf, target_file := target_file a @
      dwt_line env (msg_time ?msg) (msg_level ?msg) (msg_payload ?msg)\<rparr>)" by simp
  with Console a pf m show ?thesis by (simp add: colors_ok_def text_fine_def)
next
  case (Ring r)
  with ringbuffer_log_items [of r msg] assms(1,2) show ?thesis by auto
qed

lemma log_to_sinks_fine:
  assumes "takes_all fw" and "clock_ok env"
  shows "\<forall>i\<in>set is. lw_sinks W i \<noteq> None \<Longrightarrow> \<forall>i s. lw_sinks W i = Some s \<longrightarrow> sink_fine env s \<Longrightarrow> text_fine env msg \<Longrightarrow>
    \<exists>msg' W'. log_to_sinks env fw is msg W = Inr (msg', W') \<and> lw_loggers W' = lw_loggers W \<and>
      (\<forall>i s. lw_sinks W' i = Some s \<longrightarrow> sink_fine env s) \<and> (\<forall>i. lw_sinks W i \<noteq> None \<longrightarrow> lw_sinks W' i \<noteq> None)"
proof (induction "is" arbitrary: msg W)
  case (Cons i "is")
  from Cons.prems(1) obtain s where s: "lw_sinks W i = Some s" by auto
  show ?case
  proof (cases "sink_should_log (msg_level msg) s")
    case True
    from sink_log_fine [OF _ Cons.prems(3) assms, of s] Cons.prems(2) s obtain msg' s' where
      s': "sink_log env fw msg s = Inr (msg', s')" "sink_fine env s'" "text_fine env msg'" by blast
    have "\<forall>j\<in>set is. lw_sinks (put_sink i s' W) j \<noteq> None" "\<forall>j t. lw_sinks (put_sink i s' W) j = Some t \<longrightarrow> sink_fine env t"
      using Cons.prems s'(2) by (auto simp: put_sink_def)
    from Cons.IH [OF this s'(3)] True s s'(1) show ?thesis by (auto simp: get_sink_def put_sink_def)
  next
    case False
    from Cons.IH [of W msg] Cons.prems False s show ?thesis by (simp add: get_sink_def)
  qed
qed simp

lemma flush_sinks_fine: "\<forall>i\<in>set is. lw_sinks W i \<noteq> None \<Longrightarrow> flush_sinks is W = Inr W"
  by (induction "is") (auto simp: get_sink_def)

lemma process_msg_fine:
  assumes "takes_all fw" and "clock_ok env" and W: "writable env W" and m: "message_fine env W m"
  shows "\<exists>goes_on W'. process_msg env fw m W = Inr (goes_on, W') \<and> lw_loggers W' = lw_loggers W \<and> writable env W'"
proof (cases "terminates m")
  case True
  with W show ?thesis by (intro exI [of _ False] exI [of _ W]) (simp add: process_msg_def terminates_def)
next
  case False
  with m obtain L l where L: "worker_ptr m = Some L" "lw_loggers W L = Some l"
    "msg_type m = msg_log \<Longrightarrow> text_fine env (log_msg.truncate m)" by (auto simp: message_fine_def)
  from W L(2) have i: "\<forall>i\<in>set (l_sinks l). lw_sinks W i \<noteq> None" "\<forall>i s. lw_sinks W i = Some s \<longrightarrow> sink_fine env s"
    by (auto simp: writable_def)
  show ?thesis
  proof (cases "msg_type m")
    case msg_log
    from log_to_sinks_fine [OF assms(1,2) i L(3) [OF msg_log]] obtain msg' W' where
      W': "log_to_sinks env fw (l_sinks l) (log_msg.truncate m) W = Inr (msg', W')" "lw_loggers W' = lw_loggers W"
        "\<forall>i s. lw_sinks W' i = Some s \<longrightarrow> sink_fine env s" "\<forall>i. lw_sinks W i \<noteq> None \<longrightarrow> lw_sinks W' i \<noteq> None" by blast
    have "writable env W'" using W W' by (fastforce simp: writable_def)
    moreover have "backend_flush L W' = Inr W'"
      using flush_sinks_fine [of "l_sinks l" W'] i(1) W'(2,4) L(2) by (simp add: backend_flush_def get_logger_def)
    ultimately show ?thesis
      using msg_log L W' by (auto simp: process_msg_def backend_sink_it_def get_logger_def)
  next
    case msg_flush
    then show ?thesis
      using L W flush_sinks_fine [OF i(1)] by (auto simp: process_msg_def backend_flush_def get_logger_def)
  next
    case msg_terminate
    with False show ?thesis by (simp add: terminates_def)
  qed
qed

text \<open>In every reachable state the messages in the queue and in hand can be processed.\<close>

definition all_fine :: "log_env \<Rightarrow> (nat \<rightharpoonup> logger) \<Rightarrow> async_state \<Rightarrow> bool" where
  "all_fine env loggers A \<longleftrightarrow>
     lw_loggers (a_world A) = loggers \<and> writable env (a_world A) \<and>
     (\<forall>m\<in>set (pool_queue A @ pool_hands A). message_fine env (a_world A) m)"

lemma message_fine_loggers: "lw_loggers W' = lw_loggers W \<Longrightarrow> message_fine env W' m = message_fine env W m"
  by (simp add: message_fine_def)

lemma push_all_fine:
  assumes "takes_all fw" and "clock_ok env"
  shows "writable env W \<Longrightarrow> \<forall>m\<in>set ms. message_fine env W m \<Longrightarrow>
    \<exists>W'. push_all (apply_msg env fw) ms W = Inr W' \<and> lw_loggers W' = lw_loggers W \<and> writable env W'"
proof (induction ms arbitrary: W)
  case (Cons m ms)
  from process_msg_fine [OF assms Cons.prems(1), of m] Cons.prems(2) obtain goes_on W1 where
    W1: "process_msg env fw m W = Inr (goes_on, W1)" "lw_loggers W1 = lw_loggers W" "writable env W1" by auto
  from Cons.IH [OF W1(3)] Cons.prems(2) W1 show ?case
    by (auto simp: apply_msg_def message_fine_loggers [OF W1(2)])
qed simp

lemma reachable_fine:
  assumes i: "init_thread_pool q n A0 = Some A" "q + 1 < 2 ^ 64" and run: "async_runs env fw A es A'"
    and "takes_all fw" and "clock_ok env" and W: "writable env (a_world A0)"
    and posts: "\<forall>m\<in>set (all_posted es). message_fine env (a_world A0) m"
  shows "all_fine env (lw_loggers (a_world A0)) A'"
proof -
  note i = init_thread_pool_ok [OF i]
  from async_runs_queue [OF run i(1)] i(2) have "subseq (all_taken es @ pool_queue A') (all_posted es)" by simp
  from list_emb_set [OF this] have "set (all_taken es @ pool_queue A') \<subseteq> set (all_posted es)" by blast
  then have q: "set (all_taken es) \<subseteq> set (all_posted es)" "set (pool_queue A') \<subseteq> set (all_posted es)"
    by (simp_all del: set_concat)
  from async_runs_threads [OF run i(1)] i(3,4) have
    m: "mset (all_processed es) + mset (pool_hands A') = mset (all_taken es)"
    and p: "push_all (apply_msg env fw) (all_processed es) (a_world A0) = Inr (a_world A')" by simp_all
  from arg_cong [OF m, of set_mset] have "set (all_processed es) \<union> set (pool_hands A') = set (all_taken es)"
    by (simp del: set_concat)
  with q(1) have h: "set (all_processed es) \<subseteq> set (all_posted es)" "set (pool_hands A') \<subseteq> set (all_posted es)" by blast+
  from posts h(1) have "\<forall>m\<in>set (all_processed es). message_fine env (a_world A0) m" by blast
  from push_all_fine [OF assms(4,5) W this] p
  have W': "lw_loggers (a_world A') = lw_loggers (a_world A0)" "writable env (a_world A')" by auto
  with posts q(2) h(2) show ?thesis by (auto simp: all_fine_def message_fine_loggers [OF W'(1)])
qed

section \<open>Every step is one of them\<close>

lemma pool_work_Some:
  "a_pool A = Some P \<Longrightarrow> tp_closing P = Some k \<Longrightarrow>
   pool_work A = 1 + 3 * k + 2 * length (queued (tp_q P)) + sum_list (map worker_work (tp_threads P))"
  by (simp add: pool_work_def)

lemma thread_work:
  assumes "a_pool A = Some P" and "tp_closing P = Some k" and "i < length (tp_threads P)"
    and "worker_work t < worker_work (tp_threads P ! i)"
    and "a_pool A' = Some (P\<lparr>tp_threads := (tp_threads P)[i := t]\<rparr>)"
  shows "pool_work A' < pool_work A"
  using pool_work_Some [OF assms(1,2)] pool_work_Some [OF assms(5), of k] assms(2,4) worker_work_update [OF assms(3), of t] by simp

lemma destroying_step:
  assumes "async_step env fw A e A'" and "async_ok n c A" and "destroying A"
  shows "destroying A' \<and> pool_work A' < pool_work A \<and> set (posted e) \<subseteq> {terminate_msg}"
  using assms(1)
proof (cases rule: async_step.cases)
  case (step_log L msg)
  with assms(3) show ?thesis by (auto simp: destroying_def lock_pool_def split: option.splits)
next
  case (step_flush L)
  with assms(3) show ?thesis by (auto simp: destroying_def lock_pool_def split: option.splits)
next
  case (step_start P i)
  with assms(3) obtain k where k: "tp_closing P = Some k" by (auto simp: destroying_def)
  with thread_work [OF step_start(3) k step_start(4), of Waiting A'] step_start show ?thesis by (simp add: destroying_def)
next
  case (step_take P i m Q)
  with assms(3) obtain k where k: "tp_closing P = Some k" by (auto simp: destroying_def)
  from dequeue_queue [OF step_take(6) async_ok_queue [OF assms(2) step_take(3)]]
  have "length (queued (tp_q P)) = Suc (length (queued Q))" by simp
  with k step_take worker_work_update [OF step_take(4), of "Handling m"] show ?thesis
    by (simp add: destroying_def pool_work_def)
next
  case (step_process P i m goes_on W)
  with assms(3) obtain k where k: "tp_closing P = Some k" by (auto simp: destroying_def)
  with thread_work [OF step_process(3) k step_process(4), of "if goes_on then Waiting else Stopping" A'] step_process
  show ?thesis by (simp add: destroying_def)
next
  case (step_stop P i)
  with assms(3) obtain k where k: "tp_closing P = Some k" by (auto simp: destroying_def)
  with thread_work [OF step_stop(3) k step_stop(4), of Finished A'] step_stop show ?thesis by (simp add: destroying_def)
next
  case (step_release P)
  with assms(3) show ?thesis by (simp add: destroying_def)
next
  case (step_terminate P k P')
  from post_async_msg_queue [OF step_terminate(5) async_ok_queue [OF assms(2) step_terminate(3)]]
  obtain Q where "P' = P\<lparr>tp_q := Q\<rparr>" "queued Q = queued (tp_q P) @ [terminate_msg]" by auto
  with step_terminate show ?thesis by (simp add: destroying_def pool_work_def)
next
  case (step_join P)
  then show ?thesis by (simp add: destroying_def pool_work_def)
qed

lemma destroying_runs:
  assumes "async_runs env fw A es A'" and "async_ok n c A" and "destroying A"
  shows "destroying A' \<and> length es + pool_work A' \<le> pool_work A \<and> set (all_posted es) \<subseteq> {terminate_msg}"
  using assms
proof (induction rule: async_runs.induct)
  case (run_step A es A' e A'')
  from destroying_step [OF run_step.hyps(2) async_runs_ok [OF run_step.hyps(1) run_step.prems(1)]] run_step.IH [OF run_step.prems]
  show ?case by auto
qed simp

section \<open>Some thread can go on\<close>

lemma dequeue_not_empty:
  assumes "mpmc_ok Q" and "queued Q \<noteq> []"
  shows "\<exists>m Q'. dequeue Q = Some (Inr (m, Q'))"
proof -
  have e: "\<not> q_empty (mpmc_q Q)" using assms by (simp add: mpmc_ok_def q_empty_contents)
  from assms(1) e show ?thesis by (rule pop_item_items) (simp add: dequeue_def e)
qed

lemma room_to_post:
  assumes "mpmc_ok (tp_q P)" and "length (queued (tp_q P)) < capacity (mpmc_q (tp_q P))"
  shows "\<exists>P'. post_async_msg m block P = Some (Inr P')"
proof -
  have f: "\<not> q_full (mpmc_q (tp_q P))" using assms q_full_iff [of "mpmc_q (tp_q P)"] by (auto simp: mpmc_ok_def)
  from assms(1) f show ?thesis by (rule enqueue_room_items [of _ m]) (simp add: post_async_msg_def enqueue_def f)
qed

lemma idle_endings: "\<forall>t\<in>set ts. t = Finished \<or> t = Waiting \<Longrightarrow> Waiting \<in> set ts \<Longrightarrow> endings ts < length ts"
proof (induction ts)
  case (Cons t ts)
  have "endings ts \<le> length ts" if "\<forall>t\<in>set ts. t = Finished \<or> t = Waiting" for ts
    using that by (induction ts) (auto simp: endings_def)
  with Cons show ?case by (auto simp: endings_def less_Suc_eq_le)
qed simp

lemma busy_step:
  assumes P: "a_pool A = Some P" and i: "i < length (tp_threads P)" and "tp_threads P ! i \<noteq> Finished" and "tp_threads P ! i \<noteq> Waiting"
    and fine: "\<forall>m\<in>set (pool_hands A). \<exists>r. process_msg env fw m (a_world A) = Inr r"
  shows "\<exists>e A'. async_step env fw A e A'"
proof (cases "tp_threads P ! i")
  case Starting
  from step_start [OF P i this] show ?thesis by blast
next
  case (Handling m)
  then have "m \<in> set (pool_hands A)" using P nth_mem [OF i] by (force simp: hands_def)
  with fine obtain goes_on W where "process_msg env fw m (a_world A) = Inr (goes_on, W)" by fastforce
  from step_process [OF P i Handling this] show ?thesis by blast
next
  case Stopping
  from step_stop [OF P i this] show ?thesis by blast
qed (use assms in simp_all)

lemma destroying_progress:
  assumes ok: "async_ok n c A" and c: "0 < c" and P: "a_pool A = Some P" and k: "tp_closing P = Some k"
    and fine: "\<forall>m\<in>set (pool_hands A). \<exists>r. process_msg env fw m (a_world A) = Inr r"
  shows "\<exists>e A'. async_step env fw A e A'"
proof (cases "\<forall>t\<in>set (tp_threads P). t = Finished \<or> t = Waiting")
  case False
  then obtain i where "i < length (tp_threads P)" "tp_threads P ! i \<noteq> Finished" "tp_threads P ! i \<noteq> Waiting"
    by (metis in_set_conv_nth)
  then show ?thesis using busy_step [OF P] fine by blast
next
  case idle: True
  from ok P obtain ms j where sh: "pool_shape n c P ms j" by (auto simp: async_ok_def tp_ok_def)
  then have q: "mpmc_ok (tp_q P)" "capacity (mpmc_q (tp_q P)) = c" "length (tp_threads P) = n"
    "j + endings (tp_threads P) + k = n" "queued (tp_q P) = ms @ replicate j terminate_msg"
    using k by (simp_all add: pool_shape_def)
  show ?thesis
  proof (cases "Waiting \<in> set (tp_threads P)")
    case False
    with idle have f: "\<forall>t\<in>set (tp_threads P). t = Finished" by auto
    with finished_endings [OF f] q have "k = 0" by simp
    with step_join [OF P _ f] k show ?thesis by blast
  next
    case True
    then obtain i where i: "i < length (tp_threads P)" "tp_threads P ! i = Waiting" by (metis in_set_conv_nth)
    show ?thesis
    proof (cases "queued (tp_q P) = []")
      case False
      from dequeue_not_empty [OF q(1) this] obtain m Q where "dequeue (tp_q P) = Some (Inr (m, Q))" by blast
      from step_take [OF P i this] show ?thesis by blast
    next
      case empty: True
      with q(5) have "j = 0" by simp
      with idle_endings [OF idle True] q obtain k' where k': "k = Suc k'" by (cases k) auto
      from room_to_post [OF q(1), of terminate_msg] empty q(2) c obtain P' where
        "post_async_msg terminate_msg block P = Some (Inr P')" by auto
      from step_terminate [OF P _ this] k k' show ?thesis by blast
    qed
  qed
qed

lemma all_fine_processes:
  assumes "all_fine env loggers A" and "takes_all fw" and "clock_ok env"
  shows "\<forall>m\<in>set (pool_hands A). \<exists>r. process_msg env fw m (a_world A) = Inr r"
proof
  fix m assume "m \<in> set (pool_hands A)"
  with assms(1) have "writable env (a_world A)" "message_fine env (a_world A) m" by (auto simp: all_fine_def)
  from process_msg_fine [OF assms(2,3) this] show "\<exists>r. process_msg env fw m (a_world A) = Inr r" by blast
qed

text \<open>A run that has not come to the end of the pool goes on.\<close>

lemma destroying_enabled:
  assumes i: "init_thread_pool q n A0 = Some A" "0 < q" "q + 1 < 2 ^ 64" and run: "async_runs env fw A es A'"
    and "takes_all fw" and "clock_ok env" and "writable env (a_world A0)"
    and "\<forall>m\<in>set (all_posted es). message_fine env (a_world A0) m" and "destroying A'" and "a_pool A' \<noteq> None"
  shows "\<exists>e A''. async_step env fw A' e A''"
proof -
  from assms(9,10) obtain P k where P: "a_pool A' = Some P" "tp_closing P = Some k" by (auto simp: destroying_def)
  have "async_ok n q A'" by (rule async_runs_ok [OF run init_thread_pool_ok(1) [OF i(1,3)]])
  moreover from reachable_fine [OF i(1,3) run assms(5-8)]
  have "\<forall>m\<in>set (pool_hands A'). \<exists>r. process_msg env fw m (a_world A') = Inr r"
    by (rule all_fine_processes [OF _ assms(5,6)])
  ultimately show ?thesis using i(2) P by (intro destroying_progress)
qed

lemma destroying_completes:
  assumes i: "init_thread_pool q n A0 = Some A" "0 < q" "q + 1 < 2 ^ 64"
    and fw: "takes_all fw" and env: "clock_ok env" and W: "writable env (a_world A0)"
  shows "async_runs env fw A es A1 \<Longrightarrow> \<forall>m\<in>set (all_posted es). message_fine env (a_world A0) m \<Longrightarrow> destroying A1 \<Longrightarrow>
    \<exists>es' A2. async_runs env fw A (es @ es') A2 \<and> concat (map user_posted es') = [] \<and> a_pool A2 = None"
proof (induction "pool_work A1" arbitrary: es A1 rule: less_induct)
  case less
  show ?case
  proof (cases "a_pool A1 = None")
    case True
    with less.prems(1) show ?thesis by (intro exI [of _ "[]"]) auto
  next
    case False
    from destroying_enabled [OF i less.prems(1) fw env W less.prems(2,3) False] obtain e A2 where
      e: "async_step env fw A1 e A2" by blast
    have ok: "async_ok n q A1" by (rule async_runs_ok [OF less.prems(1) init_thread_pool_ok(1) [OF i(1,3)]])
    from destroying_step [OF e ok less.prems(3)] have d: "destroying A2" "pool_work A2 < pool_work A1"
      "set (posted e) \<subseteq> {terminate_msg}" by simp_all
    from run_step [OF less.prems(1) e] have r: "async_runs env fw A (es @ [e]) A2" .
    have "\<forall>m\<in>set (all_posted (es @ [e])). message_fine env (a_world A0) m"
      using less.prems(2) d(3) by (auto simp: message_fine_def)
    from less.hyps [OF d(2) r this d(1)] obtain es' A3 where
      "async_runs env fw A ((es @ [e]) @ es') A3" "concat (map user_posted es') = []" "a_pool A3 = None" by blast
    moreover have "user_posted e = []" using e less.prems(3) by (cases rule: async_step.cases)
      (auto simp: destroying_def lock_pool_def split: option.splits)
    ultimately show ?thesis by (intro exI [of _ "e # es'"] exI [of _ A3]) simp
  qed
qed

section \<open>A queue without room\<close>

text \<open>Nothing is ever in it, not even the messages of the destructor.\<close>

definition starved :: "nat \<Rightarrow> async_state \<Rightarrow> bool" where
  "starved n A \<longleftrightarrow> (\<exists>P. a_pool A = Some P \<and> tp_ok n 0 P \<and> set (tp_threads P) \<subseteq> {Starting, Waiting} \<and>
     (tp_closing P = None \<or> tp_closing P = Some n))"

lemma no_room:
  assumes "tp_ok n 0 P"
  shows "queued (tp_q P) = []" and "dequeue (tp_q P) = None" and "post_async_msg m block P = None"
proof -
  from assms have q: "circular_ok (mpmc_q (tp_q P))" "0 < max_items (mpmc_q (tp_q P))" "capacity (mpmc_q (tp_q P)) = 0"
    by (auto simp: tp_ok_def pool_shape_def mpmc_ok_def)
  with cq.bounded [OF q(1)] show e: "queued (tp_q P) = []" by (simp flip: length_0_conv)
  from e q q_full_iff [OF q(1)] have f: "q_full (mpmc_q (tp_q P))" by simp
  from e q q_empty_contents [OF q(1)] have "q_empty (mpmc_q (tp_q P))" by simp
  with f show "dequeue (tp_q P) = None" "post_async_msg m block P = None"
    by (simp_all add: dequeue_def post_async_msg_def enqueue_def)
qed

lemma starved_ok: "starved n A \<Longrightarrow> async_ok n 0 A"
  by (auto simp: starved_def async_ok_def)

lemma starved_post:
  assumes "starved n A" and "a_pool A = Some P" and "tp_closing P = None" and "post_async_msg m pol P = Some (Inr P')"
    and "\<not> terminates m"
  shows "starved n (A\<lparr>a_pool := Some P'\<rparr>) \<and> pol \<noteq> block"
proof -
  from assms(1,2) have P: "tp_ok n 0 P" "set (tp_threads P) \<subseteq> {Starting, Waiting}" by (auto simp: starved_def)
  from post_async_msg_exec [OF assms(4)] obtain Q where "P' = P\<lparr>tp_q := Q\<rparr>" by blast
  moreover have "tp_ok n 0 P'" by (rule tp_ok_post [OF P(1) assms(3-5)])
  moreover have "pol \<noteq> block" using no_room(3) [OF P(1), of m] assms(4) by auto
  ultimately show ?thesis using P assms(3) by (simp add: starved_def)
qed

lemma starved_step:
  assumes "async_step env fw A e A'" and "starved n A"
  shows "starved n A' \<and> taken e = [] \<and> (blocking A \<longrightarrow> posted e = []) \<and> a_policies A' = a_policies A"
  using assms(1)
proof (cases rule: async_step.cases)
  case (step_log L msg)
  from async_post_cases [OF step_log(2), of env L msg A' "new_async_msg (Some L) msg_log msg"] step_log(3)
  obtain P P' pol where P: "a_pool A = Some P" "tp_closing P = None" "a_policies A L = Some pol"
    "post_async_msg (new_async_msg (Some L) msg_log msg) pol P = Some (Inr P')" "A' = A\<lparr>a_pool := Some P'\<rparr>" by blast
  from starved_post [OF assms(2) P(1,2,4)] P(3,5) step_log(1) show ?thesis by (auto dest: blocking_policy)
next
  case (step_flush L)
  from async_post_cases [OF step_flush(2), of env L _ A' "request_msg (Some L) msg_flush"] step_flush(3)
  obtain P P' pol where P: "a_pool A = Some P" "tp_closing P = None" "a_policies A L = Some pol"
    "post_async_msg (request_msg (Some L) msg_flush) pol P = Some (Inr P')" "A' = A\<lparr>a_pool := Some P'\<rparr>" by blast
  from starved_post [OF assms(2) P(1,2,4)] P(3,5) step_flush(1) show ?thesis by (auto dest: blocking_policy)
next
  case (step_start P i)
  have "async_ok n 0 A'" by (rule async_step_ok [OF assms(1) starved_ok [OF assms(2)]])
  with step_start assms(2) show ?thesis
    using set_update_subset_insert [of "tp_threads P" i Waiting] by (auto simp: starved_def async_ok_def)
next
  case (step_take P i m Q)
  with assms(2) no_room(2) [of n P] show ?thesis by (auto simp: starved_def)
next
  case (step_process P i m goes_on W)
  with assms(2) nth_mem [OF step_process(4)] show ?thesis by (auto simp: starved_def)
next
  case (step_stop P i)
  with assms(2) nth_mem [OF step_stop(4)] show ?thesis by (auto simp: starved_def)
next
  case (step_release P)
  have "async_ok n 0 A'" by (rule async_step_ok [OF assms(1) starved_ok [OF assms(2)]])
  with step_release assms(2) async_ok_threads [OF starved_ok [OF assms(2)] step_release(3)] show ?thesis
    by (auto simp: starved_def async_ok_def)
next
  case (step_terminate P k P')
  with assms(2) no_room(3) [of n P] show ?thesis by (auto simp: starved_def)
next
  case (step_join P)
  from assms(2) step_join(3) have "tp_ok n 0 P" "tp_closing P \<noteq> None" "tp_closing P = None \<or> tp_closing P = Some n"
    using step_join(4) by (auto simp: starved_def)
  with step_join(4) show ?thesis by (auto simp: tp_ok_def pool_shape_def)
qed

lemma starved_runs:
  assumes "async_runs env fw A es A'" and "starved n A"
  shows "starved n A' \<and> all_taken es = [] \<and> (blocking A \<longrightarrow> all_posted es = []) \<and> a_policies A' = a_policies A"
  using assms
proof (induction rule: async_runs.induct)
  case (run_step A es A' e A'')
  from run_step.IH [OF run_step.prems] starved_step [OF run_step.hyps(2), of n] show ?case by (auto simp: blocking_def)
qed simp

lemma init_starved:
  assumes "init_thread_pool 0 n A0 = Some A"
  shows "starved n A"
proof -
  have "async_ok n 0 A" using init_thread_pool_ok(1) [OF assms] by simp
  then show ?thesis using assms
    by (auto simp: starved_def async_ok_def init_thread_pool_def new_thread_pool_def split: if_splits)
qed

end
