(* ===== verification/AsyncDemo.thy ===== *)
theory AsyncDemo
  imports AsyncStop LogDemo
begin

text \<open>An asynchronous logger over the ring buffer of LogDemo, and a run of its pool from the first message to the end.\<close>

definition demo_async :: async_state where
  "demo_async = \<lparr>a_world = ring_start new_backtracer, a_pool = None, a_policies = [4 \<mapsto> block]\<rparr>"

definition demo_all :: fwrite where
  "demo_all file bytes = length bytes"

lemma demo_takes_all: "takes_all demo_all"
  by (simp add: takes_all_def demo_all_def)

lemma demo_async_blocking: "blocking demo_async"
  by (simp add: blocking_def demo_async_def)

lemma demo_async_writable: "writable demo_env (a_world demo_async)"
  by (auto simp: writable_def demo_async_def ring_start_def new_logger_def new_circular_q_ok split: if_splits)

definition demo_post :: async_msg where
  "demo_post = new_async_msg (Some 4) msg_log (demo_msg ''hello'')"

lemma demo_post_fine: "message_fine demo_env (a_world demo_async) demo_post"
  by (simp add: message_fine_def demo_post_def demo_async_def ring_start_def text_fine_def demo_message_ok demo_msg_secs)

definition demo_tp :: "nat \<Rightarrow> nat \<Rightarrow> log_pool" where
  "demo_tp q n = \<lparr>tp_q = new_mpmc default_async_msg q, tp_threads = replicate n Starting, tp_closing = None\<rparr>"

lemma demo_init: "0 < n \<Longrightarrow> n \<le> 1000 \<Longrightarrow> init_thread_pool q n demo_async = Some (demo_async\<lparr>a_pool := Some (demo_tp q n)\<rparr>)"
  by (simp add: init_thread_pool_def new_thread_pool_def demo_tp_def)

text \<open>A message is posted and the pool released.\<close>

lemma demo_pool_released:
  assumes "0 < n" and "n \<le> 1000"
  shows "\<exists>A1. async_runs demo_env demo_all (demo_async\<lparr>a_pool := Some (demo_tp 1 n)\<rparr>) [Posted demo_post, Released] A1 \<and>
    destroying A1 \<and> a_pool A1 \<noteq> None \<and>
    (\<forall>m\<in>set (all_posted [Posted demo_post, Released]). message_fine demo_env (a_world demo_async) m)"
proof -
  let ?A = "demo_async\<lparr>a_pool := Some (demo_tp 1 n)\<rparr>"
  have q: "mpmc_ok (tp_q (demo_tp 1 n))" "length (queued (tp_q (demo_tp 1 n))) < capacity (mpmc_q (tp_q (demo_tp 1 n)))"
    using init_thread_pool_ok [OF demo_init [OF assms, of 1]]
    by (auto simp: async_ok_def tp_ok_def pool_shape_def)
  from room_to_post [OF q, of demo_post] obtain P where P: "post_async_msg demo_post block (demo_tp 1 n) = Some (Inr P)" by blast
  from post_async_msg_exec [OF P] have c: "tp_closing P = None" by (auto simp: demo_tp_def)
  have l: "lock_pool ?A = Some (demo_tp 1 n)" by (simp add: lock_pool_Some demo_tp_def)
  have "async_sink_it demo_env 4 (demo_msg ''hello'') ?A = Some (Inr (?A\<lparr>a_pool := Some P\<rparr>))"
    using P l by (simp add: async_sink_it_def demo_async_def post_log_def demo_post_def set_pool_def)
  with l have s1: "async_step demo_env demo_all ?A (Posted demo_post) (?A\<lparr>a_pool := Some P\<rparr>)"
    unfolding demo_post_def by (intro step_log) simp_all
  have s2: "async_step demo_env demo_all (?A\<lparr>a_pool := Some P\<rparr>) Released
      (?A\<lparr>a_pool := Some (P\<lparr>tp_closing := Some (length (tp_threads P))\<rparr>)\<rparr>)" (is "async_step _ _ _ _ ?B")
    using step_release [of "?A\<lparr>a_pool := Some P\<rparr>" P] c by simp
  from run_step [OF run_step [OF run_nil s1] s2] have r: "async_runs demo_env demo_all ?A [Posted demo_post, Released] ?B" by simp
  have d: "destroying ?B" by (simp add: destroying_def)
  have f: "\<forall>m\<in>set (all_posted [Posted demo_post, Released]). message_fine demo_env (a_world demo_async) m"
    by (simp add: demo_post_fine)
  with r d show ?thesis by (intro exI [of _ ?B]) simp
qed

lemma demo_pool_run:
  assumes "0 < n" and "n \<le> 1000"
  shows "\<exists>es A'. async_runs demo_env demo_all (demo_async\<lparr>a_pool := Some (demo_tp 1 n)\<rparr>) es A' \<and>
    concat (map user_posted es) = [demo_post] \<and> a_pool A' = None"
proof -
  let ?A = "demo_async\<lparr>a_pool := Some (demo_tp 1 n)\<rparr>"
  from demo_pool_released [OF assms] obtain A1 where r: "async_runs demo_env demo_all ?A [Posted demo_post, Released] A1"
    and d: "destroying A1" and f: "\<forall>m\<in>set (all_posted [Posted demo_post, Released]). message_fine demo_env (a_world demo_async) m"
    by blast
  from destroying_completes [OF demo_init [OF assms] _ _ demo_takes_all demo_clock demo_async_writable r f d] obtain es' A2 where
    "async_runs demo_env demo_all ?A ([Posted demo_post, Released] @ es') A2" "concat (map user_posted es') = []" "a_pool A2 = None"
    by auto
  then show ?thesis by (intro exI [of _ "[Posted demo_post, Released] @ es'"] exI [of _ A2]) simp
qed

end
