(* ===== verification/LogFiles.thy ===== *)
theory LogFiles
  imports LogConsole FmtTemplate
begin

text \<open>
  Files of the logging library: \<open>details/file_helper-inl.h\<close> with the functions of \<open>os-inl.h\<close> it uses, and
  \<open>sinks/basic_file_sink-inl.h\<close>. A disk maps names to contents. What the system decides (whether a file can be opened,
  renamed, removed or flushed, a directory made, how many bytes a write takes) is a parameter. No directory has the name of a log
  file, and two spellings of a directory are two names.
\<close>

section \<open>The disk\<close>

datatype file_event = Before_open | After_open | Before_close | After_close

text \<open>The calls of the event handlers are user code: they are recorded.\<close>

record disk =
  d_files :: "string \<rightharpoonup> string"
  d_dirs :: "string list"
  d_events :: "(file_event \<times> string) list"

text \<open>\<open>opens\<close> has the name, the mode and the number of the try, \<open>renames\<close> the two names and the number of the try.\<close>

record file_os =
  opens :: "disk \<Rightarrow> string \<Rightarrow> string \<Rightarrow> nat \<Rightarrow> bool"
  renames :: "disk \<Rightarrow> string \<Rightarrow> string \<Rightarrow> nat \<Rightarrow> bool"
  removes :: "disk \<Rightarrow> string \<Rightarrow> bool"
  flushes :: "disk \<Rightarrow> string \<Rightarrow> bool"
  syncs :: "disk \<Rightarrow> string \<Rightarrow> bool"
  writes :: "disk \<Rightarrow> string \<Rightarrow> string \<Rightarrow> nat"
  mkdirs :: "disk \<Rightarrow> string \<Rightarrow> bool"

datatype file_error =
    Failed_opening string
  | Not_opened
  | Failed_flush string
  | Failed_fsync string
  | Failed_writing string
  | Closed_file string
  | Failed_renaming string string
  | Failed_removing string
  | Invalid_argument string

text \<open>A file that has been removed while it is open takes what is written to it with it.\<close>

definition append_file :: "string \<Rightarrow> string \<Rightarrow> disk \<Rightarrow> disk" where
  "append_file f s D =
     (case d_files D f of None \<Rightarrow> D | Some c \<Rightarrow> D\<lparr>d_files := (d_files D)(f \<mapsto> c @ s)\<rparr>)"

definition truncate_file :: "string \<Rightarrow> disk \<Rightarrow> disk" where
  "truncate_file f D = D\<lparr>d_files := (d_files D)(f \<mapsto> [])\<rparr>"

definition create_file :: "string \<Rightarrow> disk \<Rightarrow> disk" where
  "create_file f D = (if d_files D f = None then truncate_file f D else D)"

definition path_exists :: "string \<Rightarrow> disk \<Rightarrow> bool" where
  "path_exists f D \<longleftrightarrow> d_files D f \<noteq> None"

definition os_remove :: "file_os \<Rightarrow> string \<Rightarrow> disk \<Rightarrow> bool \<times> disk" where
  "os_remove os f D =
     (if path_exists f D \<and> removes os D f then (True, D\<lparr>d_files := (d_files D)(f := None)\<rparr>) else (False, D))"

definition remove_if_exists :: "file_os \<Rightarrow> string \<Rightarrow> disk \<Rightarrow> bool \<times> disk" where
  "remove_if_exists os f D = (if path_exists f D then os_remove os f D else (True, D))"

definition os_rename :: "file_os \<Rightarrow> nat \<Rightarrow> string \<Rightarrow> string \<Rightarrow> disk \<Rightarrow> bool \<times> disk" where
  "os_rename os try f g D =
     (case d_files D f of
        Some c \<Rightarrow> if renames os D f g try then (True, D\<lparr>d_files := (d_files D)(f := None, g \<mapsto> c)\<rparr>) else (False, D)
      | None \<Rightarrow> (False, D))"

section \<open>Names of files\<close>

text \<open>\<open>rfind\<close> and \<open>find_last_of\<close>; the separator of folders is the slash.\<close>

definition last_index :: "(char \<Rightarrow> bool) \<Rightarrow> string \<Rightarrow> nat option" where
  "last_index P s = (let is = filter (\<lambda>i. P (s ! i)) [0..<length s] in if is = [] then None else Some (last is))"

definition dir_name :: "string \<Rightarrow> string" where
  "dir_name path = (case last_index (\<lambda>c. c = CHR ''/'') path of Some pos \<Rightarrow> take pos path | None \<Rightarrow> [])"

section \<open>Directories\<close>

definition dir_or_file :: "string \<Rightarrow> disk \<Rightarrow> bool" where
  "dir_or_file path D \<longleftrightarrow> path_exists path D \<or> path \<in> set (d_dirs D)"

definition os_mkdir :: "file_os \<Rightarrow> string \<Rightarrow> disk \<Rightarrow> bool \<times> disk" where
  "os_mkdir os path D = (if mkdirs os D path then (True, D\<lparr>d_dirs := path # d_dirs D\<rparr>) else (False, D))"

definition make_dir :: "file_os \<Rightarrow> string \<Rightarrow> disk \<Rightarrow> bool \<times> disk" where
  "make_dir os subdir D = (if subdir \<noteq> [] \<and> \<not> dir_or_file subdir D then os_mkdir os subdir D else (True, D))"

text \<open>The loop of \<open>create_dir\<close> from \<open>search_offset\<close> on, which is at most the length of the path.\<close>

function create_dir_loop :: "file_os \<Rightarrow> string \<Rightarrow> nat \<Rightarrow> disk \<Rightarrow> bool \<times> disk" where
  "create_dir_loop os path search_offset D =
     (let token_pos = search_offset + length (takeWhile (\<lambda>c. c \<noteq> CHR ''/'') (drop search_offset path));
          (ok, D) = make_dir os (take token_pos path) D
      in if \<not> ok then (False, D)
         else if token_pos + 1 < length path then create_dir_loop os path (token_pos + 1) D
         else (True, D))"
  by pat_completeness auto
termination
  by (relation "measure (\<lambda>(os, path, search_offset, D). length path - search_offset)") auto

declare create_dir_loop.simps [simp del]

definition create_dir :: "file_os \<Rightarrow> string \<Rightarrow> disk \<Rightarrow> bool \<times> disk" where
  "create_dir os path D =
     (if dir_or_file path D then (True, D) else if path = [] then (False, D) else create_dir_loop os path 0 D)"

definition split_by_extension :: "string \<Rightarrow> string \<times> string" where
  "split_by_extension fname =
     (case last_index (\<lambda>c. c = CHR ''.'') fname of
        None \<Rightarrow> (fname, [])
      | Some ext_index \<Rightarrow>
          if ext_index = 0 \<or> ext_index = length fname - 1 then (fname, [])
          else case last_index (\<lambda>c. c = CHR ''/'') fname of
              Some folder_index \<Rightarrow>
                if ext_index - 1 \<le> folder_index then (fname, []) else (take ext_index fname, drop ext_index fname)
            | None \<Rightarrow> (take ext_index fname, drop ext_index fname))"

section \<open>file_helper\<close>

text \<open>\<open>fh_fd\<close> is null or an open file with what its stream has not passed on to the disk.\<close>

record file_helper =
  fh_fd :: "string option"
  fh_filename :: string
  fh_handlers :: "file_event \<Rightarrow> bool"

definition new_file_helper :: "(file_event \<Rightarrow> bool) \<Rightarrow> file_helper" where
  "new_file_helper handlers = \<lparr>fh_fd = None, fh_filename = [], fh_handlers = handlers\<rparr>"

definition fire :: "file_event \<Rightarrow> file_helper \<Rightarrow> disk \<Rightarrow> disk" where
  "fire e h D = (if fh_handlers h e then D\<lparr>d_events := d_events D @ [(e, fh_filename h)]\<rparr> else D)"

definition fh_close :: "file_helper \<Rightarrow> disk \<Rightarrow> file_helper \<times> disk" where
  "fh_close h D =
     (case fh_fd h of
        None \<Rightarrow> (h, D)
      | Some buf \<Rightarrow>
          let D = fire Before_close h D;
              D = append_file (fh_filename h) buf D;
              h = h\<lparr>fh_fd := None\<rparr>
          in (h, fire After_close h D))"

definition open_tries :: nat where
  "open_tries = 5"

text \<open>The loop of \<open>open\<close>; when truncating it opens and closes the file once before.\<close>

fun open_loop :: "file_os \<Rightarrow> string \<Rightarrow> bool \<Rightarrow> nat list \<Rightarrow> disk \<Rightarrow> bool \<times> disk" where
  "open_loop os fname trunc [] D = (False, D)"
| "open_loop os fname trunc (try # tries) D =
     (let D = snd (create_dir os (dir_name fname) D)
      in if trunc \<and> \<not> opens os D fname ''wb'' try then open_loop os fname trunc tries D
         else let D = if trunc then truncate_file fname D else D
              in if opens os D fname ''ab'' try then (True, create_file fname D) else open_loop os fname trunc tries D)"

text \<open>An operation that throws leaves the state as it is at that point.\<close>

definition fh_open ::
    "file_os \<Rightarrow> string \<Rightarrow> bool \<Rightarrow> file_helper \<Rightarrow> disk \<Rightarrow> file_error option \<times> file_helper \<times> disk" where
  "fh_open os fname trunc h D =
     (let (h, D) = fh_close h D;
          h = h\<lparr>fh_filename := fname\<rparr>;
          D = fire Before_open h D;
          (ok, D) = open_loop os fname trunc [0..<open_tries] D
      in if ok then let h = h\<lparr>fh_fd := Some []\<rparr> in (None, h, fire After_open h D)
         else (Some (Failed_opening fname), h, D))"

definition fh_reopen :: "file_os \<Rightarrow> bool \<Rightarrow> file_helper \<Rightarrow> disk \<Rightarrow> file_error option \<times> file_helper \<times> disk" where
  "fh_reopen os trunc h D =
     (if fh_filename h = [] then (Some Not_opened, h, D) else fh_open os (fh_filename h) trunc h D)"

text \<open>\<open>fflush\<close> of a null pointer flushes the other streams.\<close>

definition fh_flush :: "file_os \<Rightarrow> file_helper \<Rightarrow> disk \<Rightarrow> file_error option \<times> file_helper \<times> disk" where
  "fh_flush os h D =
     (case fh_fd h of
        None \<Rightarrow> (None, h, D)
      | Some buf \<Rightarrow>
          if flushes os D (fh_filename h) then (None, h\<lparr>fh_fd := Some []\<rparr>, append_file (fh_filename h) buf D)
          else (Some (Failed_flush (fh_filename h)), h, D))"

definition fh_sync :: "file_os \<Rightarrow> file_helper \<Rightarrow> disk \<Rightarrow> file_error option" where
  "fh_sync os h D = (if syncs os D (fh_filename h) then None else Some (Failed_fsync (fh_filename h)))"

definition fh_write :: "file_os \<Rightarrow> string \<Rightarrow> file_helper \<Rightarrow> disk \<Rightarrow> file_error option \<times> file_helper" where
  "fh_write os data h D =
     (case fh_fd h of
        None \<Rightarrow> (None, h)
      | Some buf \<Rightarrow>
          let n = writes os D (fh_filename h) data; h = h\<lparr>fh_fd := Some (buf @ take n data)\<rparr>
          in (if n = length data then None else Some (Failed_writing (fh_filename h)), h))"

text \<open>The size of the file on the disk.\<close>

definition fh_size :: "file_helper \<Rightarrow> disk \<Rightarrow> file_error + nat" where
  "fh_size h D =
     (case fh_fd h of
        None \<Rightarrow> Inl (Closed_file (fh_filename h))
      | Some buf \<Rightarrow> Inr (case d_files D (fh_filename h) of None \<Rightarrow> 0 | Some c \<Rightarrow> length c))"

section \<open>basic_file_sink\<close>

record basic_file_sink =
  bf_level :: level_enum
  bf_formatter :: pattern_formatter
  bf_file :: file_helper

definition new_basic_file_sink ::
    "file_os \<Rightarrow> string \<Rightarrow> bool \<Rightarrow> (file_event \<Rightarrow> bool) \<Rightarrow> disk \<Rightarrow> file_error option \<times> basic_file_sink \<times> disk" where
  "new_basic_file_sink os fname trunc handlers D =
     (let (e, h, D) = fh_open os fname trunc (new_file_helper handlers) D
      in (e, \<lparr>bf_level = trace, bf_formatter = default_pattern_formatter local_time [CHR 0x0A], bf_file = h\<rparr>, D))"

definition basic_file_truncate :: "file_os \<Rightarrow> basic_file_sink \<Rightarrow> disk \<Rightarrow> file_error option \<times> basic_file_sink \<times> disk" where
  "basic_file_truncate os s D = (let (e, h, D) = fh_reopen os True (bf_file s) D in (e, s\<lparr>bf_file := h\<rparr>, D))"

definition basic_file_log ::
    "file_os \<Rightarrow> log_env \<Rightarrow> log_msg \<Rightarrow> basic_file_sink \<Rightarrow> disk \<Rightarrow> (log_msg \<times> file_error option \<times> basic_file_sink \<times> disk) res" where
  "basic_file_log os env msg s D =
     bindR (format_message env (bf_formatter s) msg []) (\<lambda>(pf, msg, formatted).
       let (e, h) = fh_write os formatted (bf_file s) D
       in Inr (msg, e, s\<lparr>bf_formatter := pf, bf_file := h\<rparr>, D))"

definition basic_file_flush :: "file_os \<Rightarrow> basic_file_sink \<Rightarrow> disk \<Rightarrow> file_error option \<times> basic_file_sink \<times> disk" where
  "basic_file_flush os s D = (let (e, h, D) = fh_flush os (bf_file s) D in (e, s\<lparr>bf_file := h\<rparr>, D))"

section \<open>What a helper has written\<close>

text \<open>The contents of the file of an open helper, with what is still in the stream.\<close>

definition fh_content :: "file_helper \<Rightarrow> disk \<Rightarrow> string option" where
  "fh_content h D =
     (case (fh_fd h, d_files D (fh_filename h)) of (Some buf, Some c) \<Rightarrow> Some (c @ buf) | _ \<Rightarrow> None)"

text \<open>A system in which nothing fails.\<close>

definition os_works :: "file_os \<Rightarrow> bool" where
  "os_works os \<longleftrightarrow>
     (\<forall>D f m i. opens os D f m i) \<and> (\<forall>D f g i. renames os D f g i) \<and> (\<forall>D f. removes os D f) \<and>
     (\<forall>D f. flushes os D f) \<and> (\<forall>D f. syncs os D f) \<and> (\<forall>D f s. writes os D f s = length s) \<and>
     (\<forall>D f. mkdirs os D f)"

lemma os_worksD [simp]:
  "os_works os \<Longrightarrow> opens os D f m i" "os_works os \<Longrightarrow> renames os D f g i" "os_works os \<Longrightarrow> removes os D f"
  "os_works os \<Longrightarrow> flushes os D f" "os_works os \<Longrightarrow> syncs os D f" "os_works os \<Longrightarrow> writes os D f s = length s"
  "os_works os \<Longrightarrow> mkdirs os D f"
  by (simp_all add: os_works_def)

lemma files_create_dir_loop [simp]: "d_files (snd (create_dir_loop os path k D)) = d_files D"
proof (induction os path k D rule: create_dir_loop.induct)
  case (1 os path k D)
  then show ?case by (subst create_dir_loop.simps) (auto simp: make_dir_def os_mkdir_def Let_def)
qed

lemma files_create_dir [simp]: "d_files (snd (create_dir os path D)) = d_files D"
  by (simp add: create_dir_def)

text \<open>Where every directory can be made, the path and all directories leading to it are there afterwards.\<close>

lemma find_slash:
  fixes path :: string
  defines "pos k \<equiv> k + length (takeWhile (\<lambda>c. c \<noteq> CHR ''/'') (drop k path))"
  assumes "k \<le> length path"
  shows "pos k \<le> length path" and "k \<le> j \<Longrightarrow> j < pos k \<Longrightarrow> path ! j \<noteq> CHR ''/''"
    and "pos k < length path \<Longrightarrow> path ! pos k = CHR ''/''"
proof -
  show "path ! pos k = CHR ''/''" if "pos k < length path"
    using nth_length_takeWhile [of "\<lambda>c. c \<noteq> CHR ''/''" "drop k path"] that assms(2) by (simp add: pos_def)
  show "pos k \<le> length path"
    using assms(2) length_takeWhile_le [of "\<lambda>c. c \<noteq> CHR ''/''" "drop k path"] by (simp add: pos_def)
  assume j: "k \<le> j" "j < pos k"
  then have l: "j - k < length (takeWhile (\<lambda>c. c \<noteq> CHR ''/'') (drop k path))" by (simp add: pos_def)
  with nth_mem [OF l] have "takeWhile (\<lambda>c. c \<noteq> CHR ''/'') (drop k path) ! (j - k) \<noteq> CHR ''/''" by (metis set_takeWhileD)
  then show "path ! j \<noteq> CHR ''/''" using j(1) l assms(2) by (simp add: takeWhile_nth)
qed

lemma create_dir_loop_works:
  assumes "os_works os" and "k \<le> length path"
  shows "\<exists>D'. create_dir_loop os path k D = (True, D') \<and> set (d_dirs D) \<subseteq> set (d_dirs D') \<and>
    (\<forall>j. k \<le> j \<and> 0 < j \<and> (j < length path \<and> path ! j = CHR ''/'' \<or> j = length path \<and> path ! (j - 1) \<noteq> CHR ''/'') \<longrightarrow>
       dir_or_file (take j path) D')"
  using assms(2)
proof (induction "length path - k" arbitrary: k D rule: less_induct)
  case less
  define p where "p = k + length (takeWhile (\<lambda>c. c \<noteq> CHR ''/'') (drop k path))"
  note pos = find_slash [OF less.prems, folded p_def]
  obtain D1 where D1: "make_dir os (take p path) D = (True, D1)" 
  proof -
    have "fst (make_dir os (take p path) D)" using assms(1) by (simp add: make_dir_def os_mkdir_def)
    with that show thesis by (cases "make_dir os (take p path) D") simp
  qed
  have step: "create_dir_loop os path k D = (if p + 1 < length path then create_dir_loop os path (p + 1) D1 else (True, D1))"
    by (subst create_dir_loop.simps) (simp only: Let_def p_def [symmetric] D1 prod.case not_True_eq_False if_False)
  have sub: "set (d_dirs D) \<subseteq> set (d_dirs D1)" using D1 by (auto simp: make_dir_def os_mkdir_def split: if_splits)
  have here: "dir_or_file (take p path) D1" if "0 < p" "path \<noteq> []"
    using D1 that by (auto simp: make_dir_def os_mkdir_def dir_or_file_def split: if_splits)
  have kp: "k \<le> p" by (simp add: p_def)
  show ?case
  proof (cases "p + 1 < length path")
    case True
    have "length path - (p + 1) < length path - k" "p + 1 \<le> length path" using True kp by simp_all
    from less.hyps [OF this, of D1] obtain D' where D': "create_dir_loop os path (p + 1) D1 = (True, D')"
      "set (d_dirs D1) \<subseteq> set (d_dirs D')"
      and later: "\<forall>j. p + 1 \<le> j \<and> 0 < j \<and> (j < length path \<and> path ! j = CHR ''/'' \<or> j = length path \<and> path ! (j - 1) \<noteq> CHR ''/'') \<longrightarrow>
        dir_or_file (take j path) D'" by blast
    have "d_files D' = d_files D1" using files_create_dir_loop [of os path "p + 1" D1] unfolding D'(1) by simp
    moreover have "path \<noteq> []" using True by auto
    ultimately have at_p: "0 < p \<Longrightarrow> dir_or_file (take p path) D'" using here D'(2) by (auto simp: dir_or_file_def path_exists_def)
    have "dir_or_file (take j path) D'"
      if j: "k \<le> j" "0 < j" "j < length path \<and> path ! j = CHR ''/'' \<or> j = length path \<and> path ! (j - 1) \<noteq> CHR ''/''" for j
    proof (cases j p rule: linorder_cases)
      case less
      with pos(2) [OF j(1)] j True show ?thesis by auto
    next
      case equal
      with at_p j(2) show ?thesis by simp
    next
      case greater
      then have "p + 1 \<le> j" by simp
      with later j show ?thesis by blast
    qed
    moreover have "create_dir_loop os path k D = (True, D')" using step True D'(1) by simp
    moreover have "set (d_dirs D) \<subseteq> set (d_dirs D')" using sub D'(2) by blast
    ultimately show ?thesis by blast
  next
    case False
    have "dir_or_file (take j path) D1"
      if j: "k \<le> j" "0 < j" "j < length path \<and> path ! j = CHR ''/'' \<or> j = length path \<and> path ! (j - 1) \<noteq> CHR ''/''" for j
    proof -
      have "j = p"
      proof (rule ccontr)
        assume "j \<noteq> p"
        with pos(1,2) j have "p < j" by (cases j p rule: linorder_cases) auto
        with False j have "j = length path" "j = p + 1" by auto
        then have "length path - 1 = p" "p < length path" by simp_all
        with pos(3) j(3) \<open>j = length path\<close> show False by simp
      qed
      moreover have "path \<noteq> []" using j(2,3) by auto
      ultimately show ?thesis using here j(2) by simp
    qed
    moreover have "create_dir_loop os path k D = (True, D1)" using step False by simp
    ultimately show ?thesis using sub by blast
  qed
qed

lemma create_dir_works:
  assumes "os_works os" and "path \<noteq> []" and "last path \<noteq> CHR ''/''"
  shows "\<exists>D'. create_dir os path D = (True, D') \<and> dir_or_file path D'"
  using create_dir_loop_works [OF assms(1), of 0 path D] assms(2,3) by (auto simp: create_dir_def last_conv_nth)

lemma files_fire [simp]: "d_files (fire e h D) = d_files D"
  by (simp add: fire_def)

lemma open_tries_upt: "[0..<open_tries] = 0 # [1..<open_tries]"
  by (simp add: open_tries_def upt_conv_Cons)

lemma files_append_file: "d_files (append_file f s D) = (case d_files D f of None \<Rightarrow> d_files D | Some c \<Rightarrow> (d_files D)(f \<mapsto> c @ s))"
  by (simp add: append_file_def split: option.split)

lemma fh_close_eq:
  "fh_close h D = (h\<lparr>fh_fd := None\<rparr>, snd (fh_close h D))"
  "d_files (snd (fh_close h D)) =
     (case fh_content h D of None \<Rightarrow> d_files D | Some c \<Rightarrow> (d_files D)(fh_filename h \<mapsto> c))"
  by (auto simp: fh_close_def fh_content_def files_append_file Let_def split: option.splits)

lemma fh_write_content:
  assumes "os_works os" and "fh_content h D = Some c"
  shows "\<exists>h'. fh_write os data h D = (None, h') \<and> fh_content h' D = Some (c @ data) \<and> fh_filename h' = fh_filename h"
  using assms by (auto simp: fh_write_def fh_content_def Let_def split: option.splits)

lemma fh_flush_content:
  assumes "os_works os" and "fh_content h D = Some c"
  shows "\<exists>h' D'. fh_flush os h D = (None, h', D') \<and> fh_content h' D' = Some c \<and> fh_filename h' = fh_filename h \<and>
    fh_fd h' = Some [] \<and> d_files D' = (d_files D)(fh_filename h \<mapsto> c)"
  using assms by (auto simp: fh_flush_def fh_content_def files_append_file split: option.splits)

lemma fh_open_content:
  assumes "os_works os"
  shows "\<exists>h' D'. fh_open os fname trunc h D = (None, h', D') \<and> fh_filename h' = fname \<and> fh_fd h' = Some [] \<and>
    d_files D' = (let F = d_files (snd (fh_close h D)) in
      F(fname \<mapsto> (if trunc then [] else case F fname of None \<Rightarrow> [] | Some c \<Rightarrow> c)))"
  using assms fh_close_eq(1) [of h D]
  by (cases "fh_close h D")
    (auto simp: fh_open_def Let_def open_tries_upt create_file_def truncate_file_def fun_upd_idem split: option.splits)

section \<open>Extensions\<close>

lemma last_index_None: "last_index P s = None \<longleftrightarrow> (\<forall>c\<in>set s. \<not> P c)"
  by (force simp: last_index_def Let_def filter_empty_conv in_set_conv_nth)

lemma last_index_Some:
  "last_index P s = Some i \<longleftrightarrow> i < length s \<and> P (s ! i) \<and> (\<forall>c\<in>set (drop (Suc i) s). \<not> P c)" (is "?l \<longleftrightarrow> ?r")
proof
  have *: "last_index P (s @ [c]) = (if P c then Some (length s) else last_index P s)" for s c
  proof -
    have "filter (\<lambda>i. P ((s @ [c]) ! i)) [0..<length s] = filter (\<lambda>i. P (s ! i)) [0..<length s]"
      by (rule filter_cong) (auto simp: nth_append)
    then show ?thesis by (simp add: last_index_def Let_def)
  qed
  show "?l \<Longrightarrow> ?r"
  proof (induction s rule: rev_induct)
    case Nil
    then show ?case by (simp add: last_index_def)
  next
    case (snoc c s)
    then show ?case by (auto simp: * nth_append split: if_splits)
  qed
  show "?r \<Longrightarrow> ?l"
  proof (induction s rule: rev_induct)
    case (snoc c s)
    then show ?case by (auto simp: * nth_append less_Suc_eq split: if_splits)
  qed simp
qed

lemma split_by_extension_join: "fst (split_by_extension fname) @ snd (split_by_extension fname) = fname"
  by (auto simp: split_by_extension_def split: option.splits)

text \<open>The extension, with its dot: what follows the last dot of the last part of the path, if that part does not start with it.\<close>

lemma split_by_extension_ext:
  assumes "CHR ''.'' \<notin> set x" and "CHR ''/'' \<notin> set x" and "x \<noteq> []" and "b \<noteq> []" and "last b \<noteq> CHR ''/''"
  shows "split_by_extension (b @ CHR ''.'' # x) = (b, CHR ''.'' # x)"
proof -
  let ?f = "b @ CHR ''.'' # x"
  have d: "last_index (\<lambda>c. c = CHR ''.'') ?f = Some (length b)"
    using assms(1) by (auto simp: last_index_Some)
  have "fo < length b - 1" if "last_index (\<lambda>c. c = CHR ''/'') ?f = Some fo" for fo
  proof -
    from that have f: "fo < length ?f" "?f ! fo = CHR ''/''" by (simp_all add: last_index_Some)
    have "fo < length b"
    proof (rule ccontr)
      assume "\<not> fo < length b"
      with f(1) have "?f ! fo = (CHR ''.'' # x) ! (fo - length b)" "fo - length b < length (CHR ''.'' # x)"
        by (simp_all add: nth_append)
      with f(2) have "CHR ''/'' \<in> set (CHR ''.'' # x)" by (metis nth_mem)
      with assms(2) show False by simp
    qed
    moreover from this f(2) assms(4,5) have "fo \<noteq> length b - 1" by (auto simp: nth_append last_conv_nth)
    ultimately show ?thesis by simp
  qed
  then show ?thesis
    using d assms(3,4) by (auto simp: split_by_extension_def split: option.split)
qed

lemma no_slash_after:
  assumes "case last_index (\<lambda>c. c = CHR ''/'') s of None \<Rightarrow> True | Some fo \<Rightarrow> fo < k" and "k \<le> i" and "i < length s"
  shows "s ! i \<noteq> CHR ''/''"
proof (cases "last_index (\<lambda>c. c = CHR ''/'') s")
  case None
  with assms(3) show ?thesis by (simp add: last_index_None)
next
  case (Some fo)
  with assms have "Suc fo \<le> i" by simp
  then have "drop (Suc fo) s ! (i - Suc fo) = s ! i" "i - Suc fo < length (drop (Suc fo) s)" using assms(3) by simp_all
  then have "s ! i \<in> set (drop (Suc fo) s)" by (metis nth_mem)
  with Some show ?thesis by (auto simp: last_index_Some)
qed

lemma split_by_extension_shape:
  assumes "split_by_extension fname = (b, e)" and "e \<noteq> []"
  obtains x where "e = CHR ''.'' # x" and "CHR ''.'' \<notin> set x" and "CHR ''/'' \<notin> set x" and "x \<noteq> []" and "b \<noteq> []"
    and "last b \<noteq> CHR ''/''"
proof -
  from assms obtain i where i: "last_index (\<lambda>c. c = CHR ''.'') fname = Some i" "i \<noteq> 0" "i \<noteq> length fname - 1"
    and fo: "case last_index (\<lambda>c. c = CHR ''/'') fname of None \<Rightarrow> True | Some fo \<Rightarrow> fo < i - 1"
    and b: "b = take i fname" "e = drop i fname"
    by (auto simp: split_by_extension_def split: option.splits if_splits)
  from i(1) have l: "i < length fname" "fname ! i = CHR ''.''" "CHR ''.'' \<notin> set (drop (Suc i) fname)"
    by (auto simp: last_index_Some)
  have ns: "fname ! j \<noteq> CHR ''/''" if "i - 1 \<le> j" "j < length fname" for j
    by (rule no_slash_after [OF fo that])
  show thesis
  proof
    show "e = CHR ''.'' # drop (Suc i) fname" using b l Cons_nth_drop_Suc [OF l(1)] by simp
    show "CHR ''/'' \<notin> set (drop (Suc i) fname)" using ns by (auto simp: in_set_conv_nth)
    show "b \<noteq> []" using b(1) l(1) i(2) by auto
    then have "last b = fname ! (i - 1)" using b(1) l(1) by (simp add: last_conv_nth)
    then show "last b \<noteq> CHR ''/''" using l(1) ns [of "i - 1"] by simp
    show "drop (Suc i) fname \<noteq> []" using l(1) i(3) by simp
  qed (rule l(3))
qed

end
