(* ===== verification/LogRotate.thy ===== *)
theory LogRotate
  imports LogFiles
begin

text \<open>
  \<open>sinks/rotating_file_sink.h\<close> and \<open>rotating_file_sink-inl.h\<close>: a file sink that moves its file out of the way before it grows
  beyond a size. The file of index 0 is the one that is written, the others are older the larger their index.
\<close>

section \<open>rotating_file_sink\<close>

record rotating_sink =
  rf_level :: level_enum
  rf_formatter :: pattern_formatter
  base_filename :: string
  max_size :: nat
  max_files :: nat
  current_size :: nat
  rf_file :: file_helper

definition MaxFiles :: nat where
  "MaxFiles = 200000"

definition calc_filename :: "string \<Rightarrow> nat \<Rightarrow> string" where
  "calc_filename fname index =
     (if index = 0 then fname
      else let (stem, suffix) = split_by_extension fname in stem @ ''.'' @ dec index @ suffix)"

text \<open>Deletes the target and renames the source to it.\<close>

definition rename_file :: "file_os \<Rightarrow> nat \<Rightarrow> string \<Rightarrow> string \<Rightarrow> disk \<Rightarrow> bool \<times> disk" where
  "rename_file os try src_filename target_filename D =
     (let (_, D) = os_remove os target_filename D in os_rename os try src_filename target_filename D)"

text \<open>The loop of \<open>rotate_\<close>: the names for which both tries failed, if any.\<close>

primrec rotate_loop :: "file_os \<Rightarrow> string \<Rightarrow> nat \<Rightarrow> disk \<Rightarrow> (string \<times> string) option \<times> disk" where
  "rotate_loop os base 0 D = (None, D)"
| "rotate_loop os base (Suc i) D =
     (let src = calc_filename base i
      in if \<not> path_exists src D then rotate_loop os base i D
         else let target = calc_filename base (Suc i);
                  (ok, D) = rename_file os 0 src target D;
                  (ok, D) = (if ok then (True, D) else rename_file os 1 src target D)
              in if ok then rotate_loop os base i D else (Some (src, target), D))"

definition rotate_files :: "file_os \<Rightarrow> rotating_sink \<Rightarrow> disk \<Rightarrow> file_error option \<times> rotating_sink \<times> disk" where
  "rotate_files os s D =
     (let (h, D) = fh_close (rf_file s) D;
          (failed, D) = rotate_loop os (base_filename s) (max_files s) D;
          (e, h, D) = fh_reopen os True h D
      in case failed of
          None \<Rightarrow> (e, s\<lparr>rf_file := h\<rparr>, D)
        | Some (src, target) \<Rightarrow>
            if e = None then (Some (Failed_renaming src target), s\<lparr>rf_file := h, current_size := 0\<rparr>, D)
            else (e, s\<lparr>rf_file := h\<rparr>, D))"

text \<open>The constructor; when it throws, the members that exist are destroyed, which closes the file.\<close>

definition new_rotating_sink ::
    "file_os \<Rightarrow> string \<Rightarrow> nat \<Rightarrow> nat \<Rightarrow> bool \<Rightarrow> (file_event \<Rightarrow> bool) \<Rightarrow> disk \<Rightarrow> (file_error + rotating_sink) \<times> disk" where
  "new_rotating_sink os base limit files rotate_on_open handlers D =
     (if limit = 0 then (Inl (Invalid_argument ''max_size''), D)
      else if MaxFiles < files then (Inl (Invalid_argument ''max_files''), D)
      else case fh_open os (calc_filename base 0) False (new_file_helper handlers) D of
          (Some e, h, D) \<Rightarrow> (Inl e, D)
        | (None, h, D) \<Rightarrow> (case fh_size h D of
              Inl e \<Rightarrow> (Inl e, snd (fh_close h D))
            | Inr current \<Rightarrow>
                let s = \<lparr>rf_level = trace, rf_formatter = default_pattern_formatter local_time [CHR 0x0A],
                         base_filename = base, max_size = limit, max_files = files, current_size = current, rf_file = h\<rparr>
                in if rotate_on_open \<and> 0 < current
                   then (case rotate_files os s D of
                       (Some e, s, D) \<Rightarrow> (Inl e, snd (fh_close (rf_file s) D))
                     | (None, s, D) \<Rightarrow> (Inr (s\<lparr>current_size := 0\<rparr>), D))
                   else (Inr s, D)))"

definition rotate_now :: "file_os \<Rightarrow> rotating_sink \<Rightarrow> disk \<Rightarrow> file_error option \<times> rotating_sink \<times> disk" where
  "rotate_now os s D = rotate_files os s D"

definition set_max_size :: "nat \<Rightarrow> rotating_sink \<Rightarrow> file_error option \<times> rotating_sink" where
  "set_max_size limit s = (if limit = 0 then (Some (Invalid_argument ''max_size''), s) else (None, s\<lparr>max_size := limit\<rparr>))"

definition set_max_files :: "nat \<Rightarrow> rotating_sink \<Rightarrow> file_error option \<times> rotating_sink" where
  "set_max_files files s =
     (if MaxFiles < files then (Some (Invalid_argument ''max_files''), s) else (None, s\<lparr>max_files := files\<rparr>))"

text \<open>\<open>sink_it_\<close> after formatting; sizes are \<open>size_t\<close>.\<close>

definition rotating_write :: "file_os \<Rightarrow> string \<Rightarrow> rotating_sink \<Rightarrow> disk \<Rightarrow> file_error option \<times> rotating_sink \<times> disk" where
  "rotating_write os formatted s D =
     (let new_size = (current_size s + length formatted) mod 2 ^ 64;
          put = (\<lambda>new_size s D.
            let (e, h) = fh_write os formatted (rf_file s) D
            in (e, if e = None then s\<lparr>rf_file := h, current_size := new_size\<rparr> else s\<lparr>rf_file := h\<rparr>, D))
      in if max_size s < new_size
         then (case fh_flush os (rf_file s) D of
             (Some e, h, D) \<Rightarrow> (Some e, s\<lparr>rf_file := h\<rparr>, D)
           | (None, h, D) \<Rightarrow>
               let s = s\<lparr>rf_file := h\<rparr>
               in case fh_size h D of
                   Inl e \<Rightarrow> (Some e, s, D)
                 | Inr n \<Rightarrow>
                     if 0 < n
                     then (case rotate_files os s D of
                         (Some e, s, D) \<Rightarrow> (Some e, s, D)
                       | (None, s, D) \<Rightarrow> put (length formatted) s D)
                     else put new_size s D)
         else put new_size s D)"

definition rotating_log ::
    "file_os \<Rightarrow> log_env \<Rightarrow> log_msg \<Rightarrow> rotating_sink \<Rightarrow> disk \<Rightarrow> (log_msg \<times> file_error option \<times> rotating_sink \<times> disk) res" where
  "rotating_log os env msg s D =
     bindR (format_message env (rf_formatter s) msg []) (\<lambda>(pf, msg, formatted).
       let (e, s, D) = rotating_write os formatted (s\<lparr>rf_formatter := pf\<rparr>) D in Inr (msg, e, s, D))"

definition rotating_flush :: "file_os \<Rightarrow> rotating_sink \<Rightarrow> disk \<Rightarrow> file_error option \<times> rotating_sink \<times> disk" where
  "rotating_flush os s D = (let (e, h, D) = fh_flush os (rf_file s) D in (e, s\<lparr>rf_file := h\<rparr>, D))"

section \<open>The names\<close>

text \<open>As \<open>fmt::format\<close> makes them.\<close>

lemma calc_filename_formats:
  assumes "0 < i" and "i < 2 ^ 64" and "split_by_extension fname = (b, e)"
  shows "vformat_to loc ''{}.{}{}'' (make_format_args [String_arg b, Ulong_long_arg (word_of_nat i), String_arg e]) =
    Inr (calc_filename fname i)"
proof -
  let ?ps = "[Field Next_arg None, Literal ''.'', Field Next_arg None, Field Next_arg None]"
  let ?a = "make_format_args [String_arg b, Ulong_long_arg (word_of_nat i), String_arg e]"
  have t: "template_text ?ps = ''{}.{}{}''" by (simp add: template_text_def double_braces_def)
  have "uint (word_of_nat i :: 64 word) = int i" using assms(2) by (simp add: unsigned_of_nat take_bit_nat_eq_self flip: of_nat_take_bit)
  then have "template_output ?a 0 ?ps = Some (calc_filename fname i)"
    using assms by (simp add: field_output_def get_arg_def make_format_args_def calc_filename_def show_int_def)
  from vformat_to_template [OF this, of loc] t show ?thesis by simp
qed

lemma calc_filename_inject:
  assumes "calc_filename base i = calc_filename base j"
  shows "i = j"
proof -
  obtain b e where be: "split_by_extension base = (b, e)" by fastforce
  with split_by_extension_join [of base] have base: "base = b @ e" by simp
  have pos: "0 < length (dec k)" for k using dec_nonempty [of k] by simp
  show ?thesis
  proof (cases "i = 0 \<or> j = 0")
    case True
    with assms be base pos show ?thesis by (auto simp: calc_filename_def split: if_splits dest: arg_cong [of _ _ length])
  next
    case False
    with assms be show ?thesis by (simp add: calc_filename_def dec_inject)
  qed
qed

section \<open>Rotation\<close>

text \<open>In a system in which nothing fails every file takes the place of the next older one.\<close>

lemma rename_file_works:
  assumes "os_works os" and "d_files D src = Some c" and "src \<noteq> target"
  shows "\<exists>D'. rename_file os try src target D = (True, D') \<and> d_files D' = (d_files D)(src := None, target \<mapsto> c)"
  using assms by (auto simp: rename_file_def os_remove_def os_rename_def path_exists_def Let_def fun_upd_twist)

definition shifted :: "string \<Rightarrow> nat \<Rightarrow> (string \<rightharpoonup> string) \<Rightarrow> (string \<rightharpoonup> string) \<Rightarrow> bool" where
  "shifted base k F F' \<longleftrightarrow>
     (\<forall>i. 0 < i \<and> i < k \<longrightarrow> F' (calc_filename base i) = F (calc_filename base (i - 1))) \<and>
     (0 < k \<longrightarrow> F' (calc_filename base k) = (case F (calc_filename base (k - 1)) of
        None \<Rightarrow> F (calc_filename base k) | Some c \<Rightarrow> Some c))"

lemma rotate_loop_shifts:
  assumes "os_works os"
  shows "\<exists>D'. rotate_loop os base k D = (None, D') \<and> shifted base k (d_files D) (d_files D') \<and>
    (0 < k \<longrightarrow> d_files D' (calc_filename base 0) = None) \<and>
    (\<forall>f. (\<forall>i\<le>k. f \<noteq> calc_filename base i) \<longrightarrow> d_files D' f = d_files D f) \<and> (k = 0 \<longrightarrow> D' = D)"
  unfolding shifted_def
proof (induction k arbitrary: D)
  case (Suc k)
  let ?n = "calc_filename base" and ?F = "d_files D"
  have inj: "?n i = ?n j \<longleftrightarrow> i = j" for i j using calc_filename_inject by blast
  obtain D1 where D1: "rotate_loop os base (Suc k) D = rotate_loop os base k D1"
    "d_files D1 = (case ?F (?n k) of None \<Rightarrow> ?F | Some c \<Rightarrow> ?F(?n k := None, ?n (Suc k) \<mapsto> c))"
  proof (cases "?F (?n k)")
    case None
    then show thesis by (intro that [of D]) (simp_all add: path_exists_def Let_def)
  next
    case (Some c)
    from rename_file_works [OF assms Some, of "?n (Suc k)" 0] obtain D1 where
      "rename_file os 0 (?n k) (?n (Suc k)) D = (True, D1)" "d_files D1 = ?F(?n k := None, ?n (Suc k) \<mapsto> c)"
      by (auto simp: inj)
    with Some show thesis by (intro that [of D1]) (simp_all add: path_exists_def Let_def)
  qed
  from Suc.IH [of D1] obtain D' where D': "rotate_loop os base k D1 = (None, D')"
    "\<And>i. 0 < i \<Longrightarrow> i < k \<Longrightarrow> d_files D' (?n i) = d_files D1 (?n (i - 1))"
    "0 < k \<Longrightarrow> d_files D' (?n 0) = None"
    "0 < k \<Longrightarrow> d_files D' (?n k) = (case d_files D1 (?n (k - 1)) of None \<Rightarrow> d_files D1 (?n k) | Some c \<Rightarrow> Some c)"
    "\<And>f. \<forall>i\<le>k. f \<noteq> ?n i \<Longrightarrow> d_files D' f = d_files D1 f" "k = 0 \<Longrightarrow> D' = D1" by blast
  have old: "d_files D1 (?n i) = ?F (?n i)" if "i < k" for i
    using that by (auto simp: D1(2) inj split: option.split)
  have gone: "d_files D1 (?n k) = None" by (auto simp: D1(2) inj split: option.split)
  have top: "d_files D1 (?n (Suc k)) = (case ?F (?n k) of None \<Rightarrow> ?F (?n (Suc k)) | Some c \<Rightarrow> Some c)"
    by (auto simp: D1(2) split: option.split)
  have 1: "d_files D' (?n i) = ?F (?n (i - 1))" if "0 < i" "i < Suc k" for i
  proof (cases "i < k")
    case True
    with that D'(2) [of i] old [of "i - 1"] show ?thesis by simp
  next
    case False
    with that have "i = k" by simp
    with that D'(4) gone old [of "k - 1"] show ?thesis by (auto split: option.split)
  qed
  have 2: "d_files D' (?n 0) = None" using D'(3,6) gone by (cases "k = 0") auto
  have 3: "d_files D' (?n (Suc k)) = (case ?F (?n k) of None \<Rightarrow> ?F (?n (Suc k)) | Some c \<Rightarrow> Some c)"
    using D'(5) [of "?n (Suc k)"] top by (simp add: inj)
  have 4: "d_files D' f = ?F f" if "\<forall>i\<le>Suc k. f \<noteq> ?n i" for f
  proof -
    from that have "f \<noteq> ?n k" "f \<noteq> ?n (Suc k)" by auto
    then have "d_files D1 f = ?F f" by (auto simp: D1(2) split: option.split)
    with D'(5) [of f] that show ?thesis by simp
  qed
  show ?case using D1(1) D'(1) 1 2 3 4 by (intro exI [of _ D']) simp
qed simp

section \<open>The log\<close>

definition file_text :: "string \<Rightarrow> nat \<Rightarrow> (string \<rightharpoonup> string) \<Rightarrow> string" where
  "file_text base i F = (case F (calc_filename base i) of None \<Rightarrow> [] | Some c \<Rightarrow> c)"

text \<open>The texts of the older files, from the oldest to the file of index 1.\<close>

primrec older_log :: "string \<Rightarrow> nat \<Rightarrow> (string \<rightharpoonup> string) \<Rightarrow> string" where
  "older_log base 0 F = []"
| "older_log base (Suc i) F = file_text base (Suc i) F @ older_log base i F"

text \<open>The sink is open on its file and knows how long it is.\<close>

definition rotating_ok :: "rotating_sink \<Rightarrow> disk \<Rightarrow> bool" where
  "rotating_ok s D \<longleftrightarrow>
     fh_filename (rf_file s) = base_filename s \<and> base_filename s \<noteq> [] \<and>
     (\<exists>c. fh_content (rf_file s) D = Some c \<and> current_size s = length c)"

definition current_text :: "rotating_sink \<Rightarrow> disk \<Rightarrow> string" where
  "current_text s D = (case fh_content (rf_file s) D of None \<Rightarrow> [] | Some c \<Rightarrow> c)"

definition whole_log :: "rotating_sink \<Rightarrow> disk \<Rightarrow> string" where
  "whole_log s D = older_log (base_filename s) (max_files s) (d_files D) @ current_text s D"

text \<open>Every file is at most \<open>B\<close> long.\<close>

definition files_bounded :: "nat \<Rightarrow> rotating_sink \<Rightarrow> disk \<Rightarrow> bool" where
  "files_bounded B s D \<longleftrightarrow>
     length (current_text s D) \<le> B \<and>
     (\<forall>i. 0 < i \<and> i \<le> max_files s \<longrightarrow> length (file_text (base_filename s) i (d_files D)) \<le> B)"

abbreviation same_limits :: "rotating_sink \<Rightarrow> rotating_sink \<Rightarrow> bool" where
  "same_limits s s' \<equiv> base_filename s' = base_filename s \<and> max_size s' = max_size s \<and> max_files s' = max_files s"

lemma calc_filename_0 [simp]: "calc_filename base 0 = base"
  by (simp add: calc_filename_def)

lemma calc_filename_base: "calc_filename base i = base \<longleftrightarrow> i = 0"
  using calc_filename_inject [of base i 0] by auto

lemma older_log_cong:
  "(\<And>i. 0 < i \<Longrightarrow> i \<le> k \<Longrightarrow> file_text base i F = file_text base i F') \<Longrightarrow> older_log base k F = older_log base k F'"
  by (induction k) simp_all

text \<open>A rotation drops the oldest file, or nothing, and leaves the current one empty.\<close>

lemma shifted_log:
  assumes "\<And>i. 0 < i \<Longrightarrow> i < k \<Longrightarrow> F' (calc_filename base i) = F (calc_filename base (i - 1))"
  shows "older_log base (k - 1) F' = (if k \<le> 1 then [] else older_log base (k - 2) F @ file_text base 0 F)"
  using assms
proof (induction k)
  case (Suc k)
  show ?case
  proof (cases "k \<le> 1")
    case True
    then consider "k = 0" | "k = 1" by linarith
    then show ?thesis using Suc.prems [of 1] by cases (simp_all add: file_text_def)
  next
    case False
    then obtain k' where k: "k = Suc (Suc k')" by (metis One_nat_def Suc_le_mono le0 not0_implies_Suc)
    from Suc.IH Suc.prems have "older_log base (k - 1) F' = older_log base (k - 2) F @ file_text base 0 F" using False by simp
    moreover have "F' (calc_filename base k) = F (calc_filename base (k - 1))" using Suc.prems [of k] k by simp
    ultimately show ?thesis using k by (simp add: file_text_def)
  qed
qed simp

lemma shifted_older_log:
  assumes "shifted base k F F'" and "F base \<noteq> None"
  shows "\<exists>dropped. (dropped = [] \<or> dropped = file_text base k F) \<and>
    dropped @ older_log base k F' = older_log base k F @ file_text base 0 F"
proof (cases k)
  case 0
  then show ?thesis by (intro exI [of _ "file_text base k F"]) simp
next
  case (Suc k')
  from assms(1) Suc have lo: "older_log base k' F' = (if k' = 0 then [] else older_log base (k' - 1) F @ file_text base 0 F)"
    using shifted_log [of k F' base F] by (simp add: shifted_def numeral_2_eq_2)
  from assms(1) Suc have top: "F' (calc_filename base (Suc k')) = (case F (calc_filename base k') of
      None \<Rightarrow> F (calc_filename base (Suc k')) | Some c \<Rightarrow> Some c)" by (simp add: shifted_def)
  show ?thesis
  proof (cases "F (calc_filename base k')")
    case None
    with assms(2) obtain k'' where k'': "k' = Suc k''" by (cases k') auto
    from None k'' have "file_text base k' F = []" by (simp add: file_text_def)
    with None top lo Suc k'' have "[] @ older_log base k F' = older_log base k F @ file_text base 0 F"
      by (simp add: file_text_def)
    then show ?thesis by blast
  next
    case (Some c)
    with top have t: "file_text base k F' = file_text base k' F" using Suc by (simp add: file_text_def)
    have "older_log base k F' = older_log base k' F @ file_text base 0 F"
    proof (cases k')
      case 0
      with t lo Suc show ?thesis by simp
    next
      case (Suc k'')
      with t lo \<open>k = Suc k'\<close> show ?thesis by simp
    qed
    then have "file_text base k F @ older_log base k F' = older_log base k F @ file_text base 0 F" using Suc by simp
    then show ?thesis by blast
  qed
qed

lemma shifted_bounded:
  assumes "shifted base k F F'" and "\<forall>i\<le>k. length (file_text base i F) \<le> B" and "0 < i" and "i \<le> k"
  shows "length (file_text base i F') \<le> B"
proof (cases "i < k")
  case True
  with assms show ?thesis by (auto simp: shifted_def file_text_def dest: spec [of _ "i - 1"])
next
  case False
  with assms have "i = k" by simp
  with assms(1,3) have "file_text base i F' = file_text base (k - 1) F \<or> file_text base i F' = file_text base k F"
    by (auto simp: shifted_def file_text_def split: option.splits)
  with assms(2) \<open>i = k\<close> show ?thesis by auto
qed

lemma file_text_upd:
  "file_text base i (F(base \<mapsto> c)) = (if i = 0 then c else file_text base i F)"
  by (simp add: file_text_def calc_filename_base)

lemma older_log_upd [simp]: "older_log base k (F(base \<mapsto> c)) = older_log base k F"
  by (rule older_log_cong) (simp add: file_text_upd)

lemma rotate_works:
  assumes os: "os_works os" and c: "fh_content (rf_file s) D = Some c" and n: "fh_filename (rf_file s) = base_filename s" "base_filename s \<noteq> []"
    and B: "length c \<le> B" "\<forall>i. 0 < i \<and> i \<le> max_files s \<longrightarrow> length (file_text (base_filename s) i (d_files D)) \<le> B"
  shows "\<exists>s' D' dropped. rotate_files os s D = (None, s', D') \<and> same_limits s s' \<and> current_size s' = current_size s \<and>
    fh_filename (rf_file s') = base_filename s \<and> fh_content (rf_file s') D' = Some [] \<and>
    (dropped = [] \<or> dropped = file_text (base_filename s) (max_files s) ((d_files D)(base_filename s \<mapsto> c))) \<and>
    dropped @ older_log (base_filename s) (max_files s) (d_files D') = older_log (base_filename s) (max_files s) (d_files D) @ c \<and>
    (\<forall>i. 0 < i \<and> i \<le> max_files s \<longrightarrow> length (file_text (base_filename s) i (d_files D')) \<le> B)"
proof -
  let ?b = "base_filename s" and ?k = "max_files s"
  obtain h1 D1 where cl: "fh_close (rf_file s) D = (h1, D1)" by fastforce
  with fh_close_eq [of "rf_file s" D] c n have 1: "fh_filename h1 = ?b" "fh_fd h1 = None" "d_files D1 = (d_files D)(?b \<mapsto> c)"
    by auto
  from rotate_loop_shifts [OF os, of ?b ?k D1] obtain D2 where 2: "rotate_loop os ?b ?k D1 = (None, D2)"
    "shifted ?b ?k (d_files D1) (d_files D2)" by blast
  from fh_open_content [OF os, of ?b True h1 D2] obtain h3 D3 where 3: "fh_open os ?b True h1 D2 = (None, h3, D3)"
    "fh_filename h3 = ?b" "fh_fd h3 = Some []" "d_files D3 = (d_files D2)(?b \<mapsto> [])"
    using 1(2) by (auto simp: fh_close_def Let_def)
  have r: "rotate_files os s D = (None, s\<lparr>rf_file := h3\<rparr>, D3)"
    using cl 2(1) 3(1) 1(1) n(2) by (simp add: rotate_files_def fh_reopen_def)
  have "fh_content h3 D3 = Some []" using 3 by (simp add: fh_content_def)
  moreover from shifted_older_log [OF 2(2)] 1(3) obtain dropped where
    "dropped = [] \<or> dropped = file_text ?b ?k (d_files D1)"
    "dropped @ older_log ?b ?k (d_files D2) = older_log ?b ?k (d_files D) @ c"
    by (auto simp: file_text_upd)
  moreover have "length (file_text ?b i (d_files D3)) \<le> B" if "0 < i" "i \<le> ?k" for i
  proof -
    have "\<forall>i\<le>?k. length (file_text ?b i (d_files D1)) \<le> B" using B 1(3) by (simp add: file_text_upd)
    from shifted_bounded [OF 2(2) this that] 3(4) that show ?thesis by (simp add: file_text_upd)
  qed
  ultimately show ?thesis
    using r 3(2,4) 1(3) by (intro exI [of _ "s\<lparr>rf_file := h3\<rparr>"] exI [of _ D3] exI [of _ dropped]) auto
qed

section \<open>Writing\<close>

text \<open>What a write does to the log: it gets the text and loses nothing or the oldest file.\<close>

lemma put_works:
  assumes "os_works os" and "fh_content (rf_file s) D = Some c" and "fh_filename (rf_file s) = base_filename s"
  shows "\<exists>h. fh_write os text1 (rf_file s) D = (None, h) \<and> fh_content h D = Some (c @ text1) \<and> fh_filename h = base_filename s"
  using fh_write_content [OF assms(1,2), of text1] assms(3) by auto

lemma rotating_write_works:
  assumes os: "os_works os" and ok: "rotating_ok s D" and small: "current_size s + length t < 2 ^ 64"
    and B: "files_bounded B s D" "max_size s \<le> B" "length t \<le> B"
  shows "\<exists>s' D' dropped. rotating_write os t s D = (None, s', D') \<and> rotating_ok s' D' \<and> same_limits s s' \<and> files_bounded B s' D' \<and>
    dropped @ whole_log s' D' = whole_log s D @ t \<and>
    (dropped = [] \<or> max_size s < current_size s + length t \<and> (max_files s = 0 \<and> dropped = current_text s D \<or>
       dropped = file_text (base_filename s) (max_files s) (d_files D)))"
proof -
  from ok obtain c where c: "fh_content (rf_file s) D = Some c" "current_size s = length c"
    and n: "fh_filename (rf_file s) = base_filename s" "base_filename s \<noteq> []" by (auto simp: rotating_ok_def)
  have m: "(current_size s + length t) mod 2 ^ 64 = length c + length t" using small c(2) by simp
  have ct: "current_text s D = c" using c by (simp add: current_text_def)
  show ?thesis
  proof (cases "max_size s < length c + length t")
    case False
    from put_works [OF os c(1) n(1), of t] obtain h where h: "fh_write os t (rf_file s) D = (None, h)"
      "fh_content h D = Some (c @ t)" "fh_filename h = base_filename s" by blast
    let ?s = "s\<lparr>rf_file := h, current_size := length c + length t\<rparr>"
    have "rotating_write os t s D = (None, ?s, D)" using h(1) False unfolding rotating_write_def m by (simp add: Let_def)
    moreover have "rotating_ok ?s D" "current_text ?s D = c @ t" using h n by (simp_all add: rotating_ok_def current_text_def)
    moreover from this(2) have "files_bounded B ?s D" using B(1,2) False by (simp add: files_bounded_def)
    ultimately show ?thesis
      using ct by (intro exI [of _ ?s] exI [of _ D] exI [of _ "[]"]) (simp add: whole_log_def)
  next
    case True
    from fh_flush_content [OF os c(1)] obtain h1 D1 where 1: "fh_flush os (rf_file s) D = (None, h1, D1)"
      "fh_content h1 D1 = Some c" "fh_filename h1 = base_filename s" "fh_fd h1 = Some []"
      "d_files D1 = (d_files D)(base_filename s \<mapsto> c)" using n by auto
    have size1: "fh_size h1 D1 = Inr (length c)" using 1(3-5) by (simp add: fh_size_def)
    let ?s1 = "s\<lparr>rf_file := h1\<rparr>"
    show ?thesis
    proof (cases "c = []")
      case empty: True
      from put_works [of os ?s1 D1 c t] os 1 obtain h where h: "fh_write os t h1 D1 = (None, h)"
        "fh_content h D1 = Some (c @ t)" "fh_filename h = base_filename s" by auto
      let ?s = "s\<lparr>rf_file := h, current_size := length c + length t\<rparr>"
      have "rotating_write os t s D = (None, ?s, D1)"
        using h(1) True 1(1) size1 empty unfolding rotating_write_def m by (simp add: Let_def)
      moreover have "rotating_ok ?s D1" "current_text ?s D1 = c @ t" using h n by (simp_all add: rotating_ok_def current_text_def)
      moreover from this(2) have "files_bounded B ?s D1" using B(1,3) empty 1(5) by (simp add: files_bounded_def file_text_upd)
      ultimately show ?thesis
        using ct 1(5) by (intro exI [of _ ?s] exI [of _ D1] exI [of _ "[]"]) (simp add: whole_log_def)
    next
      case False
      have b1: "length c \<le> B" "\<forall>i. 0 < i \<and> i \<le> max_files ?s1 \<longrightarrow> length (file_text (base_filename ?s1) i (d_files D1)) \<le> B"
        using B(1) ct 1(5) by (simp_all add: files_bounded_def file_text_upd)
      from rotate_works [of os ?s1 D1 c B, OF os _ _ _ b1] 1 n obtain s2 D2 dropped where
        2: "rotate_files os ?s1 D1 = (None, s2, D2)" "same_limits s s2" "fh_filename (rf_file s2) = base_filename s"
          "fh_content (rf_file s2) D2 = Some []"
          "dropped = [] \<or> dropped = file_text (base_filename s) (max_files s) ((d_files D)(base_filename s \<mapsto> c))"
          "dropped @ older_log (base_filename s) (max_files s) (d_files D2) = older_log (base_filename s) (max_files s) (d_files D) @ c"
          "\<forall>i. 0 < i \<and> i \<le> max_files s \<longrightarrow> length (file_text (base_filename s) i (d_files D2)) \<le> B"
        by auto
      from put_works [OF os 2(4), of t] 2(2,3) obtain h where h: "fh_write os t (rf_file s2) D2 = (None, h)"
        "fh_content h D2 = Some t" "fh_filename h = base_filename s" by auto
      let ?s = "s2\<lparr>rf_file := h, current_size := length t\<rparr>"
      have "rotating_write os t s D = (None, ?s, D2)"
        using h(1) True 1(1) size1 False 2(1) unfolding rotating_write_def m by (simp add: Let_def)
      moreover have "rotating_ok ?s D2" "current_text ?s D2 = t" using h n 2(2) by (simp_all add: rotating_ok_def current_text_def)
      moreover from this(2) have "files_bounded B ?s D2" using B(3) 2(2,7) by (simp add: files_bounded_def)
      moreover have "dropped @ whole_log ?s D2 = whole_log s D @ t"
        using 2(2,6) \<open>current_text ?s D2 = t\<close> ct by (simp add: whole_log_def)
      ultimately show ?thesis
        using 2(2,5) True c(2) ct
        by (intro exI [of _ ?s] exI [of _ D2] exI [of _ dropped]) (cases "max_files s = 0"; auto simp: file_text_upd)
    qed
  qed
qed

primrec rotating_writes :: "file_os \<Rightarrow> string list \<Rightarrow> rotating_sink \<Rightarrow> disk \<Rightarrow> file_error option \<times> rotating_sink \<times> disk" where
  "rotating_writes os [] s D = (None, s, D)"
| "rotating_writes os (t # ts) s D =
     (case rotating_write os t s D of
        (Some e, s, D) \<Rightarrow> (Some e, s, D)
      | (None, s, D) \<Rightarrow> rotating_writes os ts s D)"

lemma drop_keeps_enough:
  assumes "dropped @ log' = whole_log s D @ t" and "0 < max_files s"
    and "dropped = file_text (base_filename s) (max_files s) (d_files D)" and "max_size s < length (current_text s D) + length t"
  shows "max_size s < length log'"
proof -
  obtain k where k: "max_files s = Suc k" using assms(2) by (cases "max_files s") auto
  have "log' = older_log (base_filename s) k (d_files D) @ current_text s D @ t"
    using assms(1,3) k by (simp add: whole_log_def)
  with assms(4) show ?thesis by simp
qed

lemma rotating_writes_work:
  assumes os: "os_works os"
  shows "rotating_ok s D \<Longrightarrow> files_bounded B s D \<Longrightarrow> max_size s \<le> B \<Longrightarrow> \<forall>t\<in>set ts. length t \<le> B \<Longrightarrow> 2 * B < 2 ^ 64 \<Longrightarrow>
    \<exists>s' D' dropped. rotating_writes os ts s D = (None, s', D') \<and> rotating_ok s' D' \<and> same_limits s s' \<and> files_bounded B s' D' \<and>
      dropped @ whole_log s' D' = whole_log s D @ concat ts \<and>
      (0 < max_files s \<longrightarrow> dropped = [] \<or> max_size s < length (whole_log s' D'))"
proof (induction ts arbitrary: s D)
  case Nil
  then show ?case by (intro exI [of _ s] exI [of _ D] exI [of _ "[]"]) simp
next
  case (Cons t ts)
  have cs: "current_size s = length (current_text s D)" using Cons.prems(1) by (auto simp: rotating_ok_def current_text_def)
  with Cons.prems have small: "current_size s + length t < 2 ^ 64" "length t \<le> B" by (simp_all add: files_bounded_def)
  from rotating_write_works [OF os Cons.prems(1) small(1) Cons.prems(2,3) small(2)] obtain s1 D1 d1 where
    1: "rotating_write os t s D = (None, s1, D1)" "rotating_ok s1 D1" "same_limits s s1" "files_bounded B s1 D1"
      "d1 @ whole_log s1 D1 = whole_log s D @ t"
    and d1: "d1 = [] \<or> max_size s < current_size s + length t \<and>
      (max_files s = 0 \<and> d1 = current_text s D \<or> d1 = file_text (base_filename s) (max_files s) (d_files D))" by blast
  from Cons.IH [OF 1(2,4)] 1(3) Cons.prems(3-5) obtain s2 D2 d2 where
    2: "rotating_writes os ts s1 D1 = (None, s2, D2)" "rotating_ok s2 D2" "same_limits s1 s2" "files_bounded B s2 D2"
      "d2 @ whole_log s2 D2 = whole_log s1 D1 @ concat ts"
      "0 < max_files s1 \<longrightarrow> d2 = [] \<or> max_size s1 < length (whole_log s2 D2)" by auto
  have "(d1 @ d2) @ whole_log s2 D2 = whole_log s D @ concat (t # ts)" using 1(5) 2(5) by (metis append.assoc concat.simps(2))
  moreover have "d1 @ d2 = [] \<or> max_size s < length (whole_log s2 D2)" if k: "0 < max_files s"
  proof (cases "d1 = []")
    case True
    with 2(6) 1(3) k show ?thesis by simp
  next
    case False
    with d1 k have "d1 = file_text (base_filename s) (max_files s) (d_files D)" "max_size s < current_size s + length t" by auto
    with drop_keeps_enough [OF 1(5) k] cs have "max_size s < length (whole_log s1 D1)" by simp
    moreover have "length (whole_log s2 D2) \<ge> length (whole_log s1 D1)" if "d2 = []" using 2(5) that by simp
    ultimately show ?thesis using 2(6) 1(3) k by (cases "d2 = []") auto
  qed
  ultimately show ?case using 1(1,3) 2 by (intro exI [of _ s2] exI [of _ D2] exI [of _ "d1 @ d2"]) simp
qed

text \<open>A new sink on a disk.\<close>

lemma new_rotating_sink_works:
  assumes "os_works os" and "base \<noteq> []" and "0 < limit" and "files \<le> MaxFiles" and "\<not> rotate_first"
  shows "\<exists>s D'. new_rotating_sink os base limit files rotate_first handlers D = (Inr s, D') \<and> rotating_ok s D' \<and>
    base_filename s = base \<and> max_size s = limit \<and> max_files s = files \<and>
    whole_log s D' = older_log base files (d_files D) @ file_text base 0 (d_files D) \<and>
    current_text s D' = file_text base 0 (d_files D) \<and> d_files D' = (d_files D)(base \<mapsto> file_text base 0 (d_files D))"
proof -
  from fh_open_content [OF assms(1), of base False "new_file_helper handlers" D] obtain h D' where
    h: "fh_open os base False (new_file_helper handlers) D = (None, h, D')" "fh_filename h = base" "fh_fd h = Some []"
      "d_files D' = (d_files D)(base \<mapsto> file_text base 0 (d_files D))"
    by (auto simp: fh_close_def new_file_helper_def file_text_def Let_def)
  then have "fh_size h D' = Inr (length (file_text base 0 (d_files D)))" "fh_content h D' = Some (file_text base 0 (d_files D))"
    by (simp_all add: fh_size_def fh_content_def)
  with h assms show ?thesis
    by (simp add: new_rotating_sink_def Let_def rotating_ok_def whole_log_def current_text_def)
qed

end
