(* ===== verification/PatternFull.thy ===== *)
theory PatternFull
  imports PatternTime
begin

text \<open>
  The formatter of the pattern \<open>%+\<close>, which a sink has until it is given another one: what \<open>full_formatter\<close> prints, and
  that the date it caches is that of the message, whatever has been formatted before.
\<close>

section \<open>The text\<close>

definition full_head :: "log_tm \<Rightarrow> string" where
  "full_head t =
     ''['' @ dec (nat (tm_year t + 1900)) @ ''-'' @ two (tm_mon t + 1) @ ''-'' @ two (tm_mday t) @ '' '' @
     clock_text [tm_hour t, tm_min t, tm_sec t] @ ''.''"

definition boxed :: "string \<Rightarrow> string" where
  "boxed s = ''['' @ s @ ''] ''"

definition full_before_level :: "log_msg \<Rightarrow> log_tm \<Rightarrow> string" where
  "full_before_level msg t =
     full_head t @ zero_padded 3 (nat (msg_time msg mod ns_per_sec div 1000000)) @ ''] '' @
     (if msg_logger_name msg = [] then [] else boxed (msg_logger_name msg)) @ ''[''"

definition full_after_level :: "log_env \<Rightarrow> log_msg \<Rightarrow> string" where
  "full_after_level env msg =
     ''] '' @
     (if source_empty (msg_source msg) then []
      else boxed (basename (the (filename (msg_source msg))) @ '':'' @ dec (nat (line (msg_source msg))))) @
     (if mdc_context env = [] then [] else boxed (concat (mdc_fields (mdc_context env)))) @ msg_payload msg"

definition full_text :: "log_env \<Rightarrow> log_msg \<Rightarrow> log_tm \<Rightarrow> string" where
  "full_text env msg t = full_before_level msg t @ to_string_view (msg_level msg) @ full_after_level env msg"

lemma full_datetime_text: "calendar_ok t \<Longrightarrow> full_datetime t = Inr (full_head t)"
proof -
  assume "calendar_ok t"
  note t = calendar_okD [OF this]
  then have "append_int 32 (tm_year t + 1900) d = Inr (d @ dec (nat (tm_year t + 1900)))" for d
    by (intro append_int_nat) simp_all
  with t show ?thesis by (simp add: full_datetime_def full_head_def clock_text_def)
qed

lemma full_source_text:
  assumes "message_ok env msg" and "\<not> source_empty (msg_source msg)"
  shows "bindR (c_str (filename (msg_source msg))) (\<lambda>f. in_order
      [push_back CHR ''['', view (basename f), push_back CHR '':'', append_int 32 (line (msg_source msg)),
       push_back CHR '']'', push_back CHR '' ''] dest) =
    Inr (dest @ boxed (basename (the (filename (msg_source msg))) @ '':'' @ dec (nat (line (msg_source msg)))))"
proof -
  from message_okD(4) [OF assms(1)] assms(2) obtain f where "filename (msg_source msg) = Some f" by auto
  then show ?thesis using line_text(1) [OF assms] by (simp add: c_str_def boxed_def)
qed

lemma full_mdc_text:
  "in_order [push_back CHR ''['', format_mdc NullPadder no_padding ctx, push_back CHR '']'', push_back CHR '' ''] dest =
    Inr (dest @ boxed (concat (mdc_fields ctx)))"
proof -
  have "padded NullPadder no_padding = (\<lambda>s. s)" by (simp add: padded_def fun_eq_iff)
  then show ?thesis by (simp add: format_mdc_text no_padding_def boxed_def)
qed

section \<open>The date that is cached\<close>

text \<open>The object's members are the second and the text of the date of a message that was printed.\<close>

definition full_cached :: "(int \<Rightarrow> log_tm) \<Rightarrow> int \<times> string \<Rightarrow> bool" where
  "full_cached time c \<longleftrightarrow> snd c = [] \<or> snd c = full_head (time (fst c))"

lemma full_formatter_text:
  assumes "calendar_ok t" and "message_ok env msg" and "full_cached time c" and "t = time (msg_secs msg)"
  shows "\<exists>i j. full_formatter env msg t c dest =
    Inr ((msg_secs msg, full_head t), colored i j msg, dest @ full_text env msg t) \<and>
    i = length (dest @ full_before_level msg t) \<and> j = i + length (to_string_view (msg_level msg))"
proof -
  let ?s = "msg_secs msg" and ?i = "length (dest @ full_before_level msg t)"
    and ?j = "length (dest @ full_before_level msg t) + length (to_string_view (msg_level msg))"
  have ne: "full_head t \<noteq> []" by (simp add: full_head_def)
  have 1: "(if fst c \<noteq> ?s \<or> snd c = [] then bindR (full_datetime t) (\<lambda>s. Inr (?s, s)) else Inr c) = Inr (?s, full_head t)"
    using assms(3,4) full_datetime_text [OF assms(1)] by (cases c) (auto simp: full_cached_def)
  have "0 \<le> msg_time msg" using assms(2) by (simp add: message_ok_def)
  then have 2: "pad3 32 (nat (time_fraction 1000000 (msg_time msg) mod 4294967296)) d =
      Inr (d @ zero_padded 3 (nat (msg_time msg mod ns_per_sec div 1000000)))" for d
    using fraction_ms [of "msg_time msg"] pad3_eq [of "nat (msg_time msg mod ns_per_sec div 1000000)" 32] by simp
  have 3: "in_order ([view (full_head t), pad3 32 (nat (time_fraction 1000000 (msg_time msg) mod 2 ^ 32)), push_back CHR '']'',
      push_back CHR '' ''] @ (if msg_logger_name msg \<noteq> []
        then [push_back CHR ''['', view (msg_logger_name msg), push_back CHR '']'', push_back CHR '' ''] else []) @
      [push_back CHR ''['']) dest = Inr (dest @ full_before_level msg t)"
    by (simp add: 2 full_before_level_def boxed_def)
  have 4: "?j = length ((dest @ full_before_level msg t) @ to_string_view (msg_level msg))" by simp
  have 5: "(if source_empty (msg_source msg) then Inr d
      else bindR (c_str (filename (msg_source msg))) (\<lambda>f. in_order
        [push_back CHR ''['', view (basename f), push_back CHR '':'', append_int 32 (line (msg_source msg)),
         push_back CHR '']'', push_back CHR '' ''] d)) =
    Inr (d @ (if source_empty (msg_source msg) then []
      else boxed (basename (the (filename (msg_source msg))) @ '':'' @ dec (nat (line (msg_source msg))))))" for d
    using full_source_text [OF assms(2)] by simp
  have 6: "(if mdc_context env = [] then Inr d
      else in_order [push_back CHR ''['', format_mdc NullPadder no_padding (mdc_context env), push_back CHR '']'',
        push_back CHR '' ''] d) = Inr (d @ (if mdc_context env = [] then [] else boxed (concat (mdc_fields (mdc_context env)))))" for d
    using full_mdc_text by simp
  have 7: "in_order [push_back CHR '']'', push_back CHR '' ''] d = Inr (d @ ''] '')" for d by simp
  have 8: "msg_source (m\<lparr>color_range_start := k\<rparr>) = msg_source m" "msg_source (m\<lparr>color_range_end := k\<rparr>) = msg_source m"
    "msg_level (m\<lparr>color_range_start := k\<rparr>) = msg_level m" for m k by simp_all
  have "full_formatter env msg t c dest =
    Inr ((?s, full_head t), colored ?i ?j msg, dest @ full_text env msg t)"
    unfolding 4
    by (simp only: full_formatter_def Let_def msg_secs_def [symmetric] 1 3 bindR_Inr snd_conv view_eq 8 5 6 7)
      (simp add: colored_def full_text_def full_after_level_def)
  then show ?thesis by blast
qed

section \<open>A formatter of the default pattern\<close>

definition default_ok :: "log_env \<Rightarrow> pattern_formatter \<Rightarrow> bool" where
  "default_ok env pf \<longleftrightarrow>
     need_localtime pf \<and> tm_cached env pf \<and> (\<exists>ts s. formatters pf = [Full ts s] \<and> full_cached (time_at env pf) (ts, s))"

lemma default_ok_new: "default_ok env (default_pattern_formatter ty eol)"
  by (simp add: default_ok_def default_pattern_formatter_def tm_cached_def full_cached_def)

lemma default_format:
  assumes "default_ok env pf" and "clock_ok env" and "message_ok env msg" and "msg_secs msg \<noteq> 0"
  shows "\<exists>pf' i j. format_message env pf msg dest = Inr (pf', colored i j msg, dest @ full_text env msg (get_time env pf msg) @ pf_eol pf) \<and>
    default_ok env pf' \<and> pf_eol pf' = pf_eol pf \<and> time_type pf' = time_type pf \<and>
    i = length (dest @ full_before_level msg (get_time env pf msg)) \<and> j = i + length (to_string_view (msg_level msg))"
proof -
  let ?r = "refresh_tm env msg pf" and ?t = "get_time env pf msg"
  from assms(1) obtain ts s where pf: "need_localtime pf" "tm_cached env pf" "formatters pf = [Full ts s]"
    "full_cached (time_at env pf) (ts, s)" by (auto simp: default_ok_def)
  have t: "cached_tm ?r = ?t" using refresh_tm_cached [OF pf(2,1) assms(4)] by (simp add: get_time_at)
  have at: "time_at env ?r = time_at env pf" by (simp add: time_at_def refresh_tm_def fun_eq_iff)
  from full_formatter_text [OF calendar_ok_get_time [OF assms(2)] assms(3) pf(4) get_time_at, of dest] obtain i j where
    f: "full_formatter env msg ?t (ts, s) dest = Inr ((msg_secs msg, full_head ?t), colored i j msg, dest @ full_text env msg ?t)"
    and ij: "i = length (dest @ full_before_level msg ?t)" "j = i + length (to_string_view (msg_level msg))" by blast
  let ?pf = "?r\<lparr>formatters := [Full (msg_secs msg) (full_head ?t)]\<rparr>"
  have "format_message env pf msg dest = Inr (?pf, colored i j msg, dest @ full_text env msg ?t @ pf_eol pf)"
    using f t pf(3) by (simp add: format_message_def Let_def refresh_tm_def append_string_view_def)
  moreover have "default_ok env ?pf"
    using pf(1) tm_cached_refresh [OF pf(2), of msg] at
    by (simp add: default_ok_def full_cached_def get_time_at tm_cached_def time_at_def refresh_tm_def split: if_splits)
  ultimately show ?thesis using ij by (intro exI [of _ ?pf] exI [of _ i] exI [of _ j]) (simp add: refresh_tm_def)
qed

end
