(* ===== verification/LogDaily.thy ===== *)
theory LogDaily
  imports LogRotate LogDemo NetFormat PatternFull
begin

text \<open>
  \<open>sinks/daily_file_sink.h\<close> and \<open>sinks/hourly_file_sink.h\<close>: file sinks that go on to a file of another name at a time of the day,
  or every hour, and keep at most a number of files. The generator of the names is a parameter of both classes; the
  default ones put the date behind the name. The clock stands still during a call; \<open>mktime\<close> is a parameter.
\<close>

section \<open>Names with a date\<close>

type_synonym filename_calc = "string \<Rightarrow> log_tm \<Rightarrow> string res"

definition daily_filename :: "write_loc \<Rightarrow> filename_calc" where
  "daily_filename loc fname t =
     (let (stem, suffix) = split_by_extension fname
      in vformat_to loc ''{}_{:04d}-{:02d}-{:02d}{}'' (make_format_args
           [String_arg stem, Int_arg (word_of_int (tm_year t + 1900)), Int_arg (word_of_int (tm_mon t + 1)),
            Int_arg (word_of_int (tm_mday t)), String_arg suffix]))"

definition hourly_filename :: "write_loc \<Rightarrow> filename_calc" where
  "hourly_filename loc fname t =
     (let (stem, suffix) = split_by_extension fname
      in vformat_to loc ''{}_{:04d}-{:02d}-{:02d}_{:02d}{}'' (make_format_args
           [String_arg stem, Int_arg (word_of_int (tm_year t + 1900)), Int_arg (word_of_int (tm_mon t + 1)),
            Int_arg (word_of_int (tm_mday t)), Int_arg (word_of_int (tm_hour t)), String_arg suffix]))"

section \<open>The files that are kept\<close>

definition ns_per_hour :: int where
  "ns_per_hour = 3600 * ns_per_sec"

definition to_tm :: "log_env \<Rightarrow> int \<Rightarrow> log_tm" where
  "to_tm env tp = os_localtime env (duration_cast ns_per_sec tp)"

text \<open>The files of the last periods that exist, from the newest on, at most \<open>n\<close>.\<close>

primrec existing_files :: "filename_calc \<Rightarrow> log_env \<Rightarrow> string \<Rightarrow> int \<Rightarrow> disk \<Rightarrow> nat \<Rightarrow> int \<Rightarrow> string list res" where
  "existing_files calc env base step D 0 now = Inr []"
| "existing_files calc env base step D (Suc n) now =
     bindR (calc base (to_tm env now)) (\<lambda>fname.
       if \<not> path_exists fname D then Inr []
       else bindR (existing_files calc env base step D n (now - step)) (\<lambda>fs. Inr (fname # fs)))"

definition init_filenames_q ::
    "filename_calc \<Rightarrow> log_env \<Rightarrow> string \<Rightarrow> int \<Rightarrow> disk \<Rightarrow> nat \<Rightarrow> string circular_q res" where
  "init_filenames_q calc env base step D n =
     bindR (existing_files calc env base step D n (os_now env)) (\<lambda>fs. push_all q_push_back (rev fs) (new_circular_q [] n))"

definition delete_old ::
    "file_os \<Rightarrow> string \<Rightarrow> string circular_q \<Rightarrow> disk \<Rightarrow> (file_error option \<times> string circular_q \<times> disk) res" where
  "delete_old os current_file q D =
     (if q_full q
      then bindR (q_front q) (\<lambda>old_filename. bindR (q_pop_front q) (\<lambda>q.
           let (ok, D) = remove_if_exists os old_filename D
           in bindR (q_push_back current_file q) (\<lambda>q.
                Inr (if ok then None else Some (Failed_removing old_filename), q, D))))
      else bindR (q_push_back current_file q) (\<lambda>q. Inr (None, q, D)))"

section \<open>daily_file_sink\<close>

record dated_sink =
  df_level :: level_enum
  df_formatter :: pattern_formatter
  df_base :: string
  rotation_tp :: int
  df_file :: file_helper
  df_truncate :: bool
  df_max_files :: nat
  filenames_q :: "string circular_q"

record daily_sink = dated_sink +
  rotation_h :: int
  rotation_m :: int

definition daily_next_rotation :: "(log_tm \<Rightarrow> int) \<Rightarrow> log_env \<Rightarrow> int \<Rightarrow> int \<Rightarrow> int" where
  "daily_next_rotation mktime env h m =
     (let date = (to_tm env (os_now env))\<lparr>tm_hour := h, tm_min := m, tm_sec := 0\<rparr>;
          rotation_time = mktime date * ns_per_sec
      in if os_now env < rotation_time then rotation_time else rotation_time + 24 * ns_per_hour)"

text \<open>
  The constructor. \<open>max_files_\<close> is an \<open>uint16_t\<close>; without a limit the queue stays the disabled one. An exception of \<open>open\<close> is
  the first component; the sink is then not made.
\<close>

definition new_daily_sink ::
    "filename_calc \<Rightarrow> (log_tm \<Rightarrow> int) \<Rightarrow> file_os \<Rightarrow> log_env \<Rightarrow> string \<Rightarrow> int \<Rightarrow> int \<Rightarrow> bool \<Rightarrow> 16 word \<Rightarrow> (file_event \<Rightarrow> bool) \<Rightarrow> disk
     \<Rightarrow> ((file_error + daily_sink) \<times> disk) res" where
  "new_daily_sink calc mktime os env base h m trunc limit handlers D =
     (if h < 0 \<or> 23 < h \<or> m < 0 \<or> 59 < m then Inr (Inl (Invalid_argument ''rotation time''), D)
      else bindR (calc base (to_tm env (os_now env))) (\<lambda>fname.
        case fh_open os fname trunc (new_file_helper handlers) D of
          (Some e, f, D) \<Rightarrow> Inr (Inl e, D)
        | (None, f, D) \<Rightarrow>
            bindR (if 0 < unat limit then init_filenames_q calc env base (24 * ns_per_hour) D (unat limit) else Inr disabled_q) (\<lambda>q.
              Inr (Inr \<lparr>df_level = trace, df_formatter = default_pattern_formatter local_time [CHR 0x0A], df_base = base,
                        rotation_tp = daily_next_rotation mktime env h m, df_file = f, df_truncate = trunc,
                        df_max_files = unat limit, filenames_q = q, rotation_h = h, rotation_m = m\<rparr>, D))))"

text \<open>What \<open>sink_it_\<close> does before and after it writes; \<open>clean\<close> is the deletion of the oldest file.\<close>

definition clean_old :: "file_os \<Rightarrow> bool \<Rightarrow> 'a dated_sink_scheme \<Rightarrow> disk \<Rightarrow> (file_error option \<times> 'a dated_sink_scheme \<times> disk) res" where
  "clean_old os should_rotate s D =
     (if should_rotate \<and> 0 < df_max_files s
      then bindR (delete_old os (fh_filename (df_file s)) (filenames_q s) D) (\<lambda>(e, q, D). Inr (e, s\<lparr>filenames_q := q\<rparr>, D))
      else Inr (None, s, D))"

definition write_and_clean ::
    "file_os \<Rightarrow> log_env \<Rightarrow> log_msg \<Rightarrow> bool \<Rightarrow> 'a dated_sink_scheme \<Rightarrow> disk
     \<Rightarrow> (log_msg \<times> file_error option \<times> 'a dated_sink_scheme \<times> disk) res" where
  "write_and_clean os env msg should_rotate s D =
     bindR (format_message env (df_formatter s) msg []) (\<lambda>(pf, msg, formatted).
       let (e, f) = fh_write os formatted (df_file s) D; s = s\<lparr>df_formatter := pf, df_file := f\<rparr>
       in if e \<noteq> None then Inr (msg, e, s, D)
          else bindR (clean_old os should_rotate s D) (\<lambda>(e, s, D). Inr (msg, e, s, D)))"

definition daily_log ::
    "filename_calc \<Rightarrow> (log_tm \<Rightarrow> int) \<Rightarrow> file_os \<Rightarrow> log_env \<Rightarrow> log_msg \<Rightarrow> daily_sink \<Rightarrow> disk
     \<Rightarrow> (log_msg \<times> file_error option \<times> daily_sink \<times> disk) res" where
  "daily_log calc mktime os env msg s D =
     (let should_rotate = rotation_tp s \<le> msg_time msg
      in if should_rotate
         then bindR (calc (df_base s) (to_tm env (msg_time msg))) (\<lambda>fname.
           case fh_open os fname (df_truncate s) (df_file s) D of
             (Some e, f, D) \<Rightarrow> Inr (msg, Some e, s\<lparr>df_file := f\<rparr>, D)
           | (None, f, D) \<Rightarrow>
               write_and_clean os env msg should_rotate
                 (s\<lparr>df_file := f, rotation_tp := daily_next_rotation mktime env (rotation_h s) (rotation_m s)\<rparr>) D)
         else write_and_clean os env msg should_rotate s D)"

section \<open>hourly_file_sink\<close>

record hourly_sink = dated_sink +
  remove_init_file :: bool

definition hourly_next_rotation :: "(log_tm \<Rightarrow> int) \<Rightarrow> log_env \<Rightarrow> int" where
  "hourly_next_rotation mktime env =
     (let date = (to_tm env (os_now env))\<lparr>tm_min := 0, tm_sec := 0\<rparr>;
          rotation_time = mktime date * ns_per_sec
      in if os_now env < rotation_time then rotation_time else rotation_time + ns_per_hour)"

definition new_hourly_sink ::
    "filename_calc \<Rightarrow> (log_tm \<Rightarrow> int) \<Rightarrow> file_os \<Rightarrow> log_env \<Rightarrow> string \<Rightarrow> bool \<Rightarrow> 16 word \<Rightarrow> (file_event \<Rightarrow> bool) \<Rightarrow> disk
     \<Rightarrow> ((file_error + hourly_sink) \<times> disk) res" where
  "new_hourly_sink calc mktime os env base trunc limit handlers D =
     bindR (calc base (to_tm env (os_now env))) (\<lambda>fname.
       case fh_open os fname trunc (new_file_helper handlers) D of
         (Some e, f, D) \<Rightarrow> Inr (Inl e, D)
       | (None, f, D) \<Rightarrow>
           (case fh_size f D of
              Inl e \<Rightarrow> Inr (Inl e, snd (fh_close f D))
            | Inr n \<Rightarrow>
                bindR (if 0 < unat limit then init_filenames_q calc env base ns_per_hour D (unat limit) else Inr disabled_q) (\<lambda>q.
                  Inr (Inr \<lparr>df_level = trace, df_formatter = default_pattern_formatter local_time [CHR 0x0A], df_base = base,
                            rotation_tp = hourly_next_rotation mktime env, df_file = f, df_truncate = trunc,
                            df_max_files = unat limit, filenames_q = q, remove_init_file = (n = 0)\<rparr>, D))))"

definition hourly_log ::
    "filename_calc \<Rightarrow> (log_tm \<Rightarrow> int) \<Rightarrow> file_os \<Rightarrow> log_env \<Rightarrow> log_msg \<Rightarrow> hourly_sink \<Rightarrow> disk
     \<Rightarrow> (log_msg \<times> file_error option \<times> hourly_sink \<times> disk) res" where
  "hourly_log calc mktime os env msg s D =
     (let should_rotate = rotation_tp s \<le> msg_time msg
      in if should_rotate
         then let (f, D) = (if remove_init_file s
                            then let (f, D) = fh_close (df_file s) D in (f, snd (os_remove os (fh_filename f) D))
                            else (df_file s, D))
              in bindR (calc (df_base s) (to_tm env (msg_time msg))) (\<lambda>fname.
                   case fh_open os fname (df_truncate s) f D of
                     (Some e, f, D) \<Rightarrow> Inr (msg, Some e, s\<lparr>df_file := f\<rparr>, D)
                   | (None, f, D) \<Rightarrow>
                       write_and_clean os env msg should_rotate
                         (s\<lparr>df_file := f, rotation_tp := hourly_next_rotation mktime env, remove_init_file := False\<rparr>) D)
         else write_and_clean os env msg should_rotate (s\<lparr>remove_init_file := False\<rparr>) D)"

definition dated_flush ::
    "file_os \<Rightarrow> 'a dated_sink_scheme \<Rightarrow> disk \<Rightarrow> file_error option \<times> 'a dated_sink_scheme \<times> disk" where
  "dated_flush os s D = (let (e, f, D) = fh_flush os (df_file s) D in (e, s\<lparr>df_file := f\<rparr>, D))"

section \<open>The text of a date\<close>

definition date_pad :: "nat \<Rightarrow> spec_desc" where
  "date_pad w = (zero_pad w)\<lparr>d_type := Some CHR ''d''\<rparr>"

lemma date_pad_text: "0 < w \<Longrightarrow> w < 10 \<Longrightarrow> desc_text (date_pad w) = [CHR ''0'', ascii_digit w, CHR ''d'']"
  by (simp add: desc_text_def date_pad_def zero_pad_def flag_text_def precision_text_def dec.simps [of w])

lemma date_pad_ok: "0 < w \<Longrightarrow> w \<le> int_max \<Longrightarrow> desc_ok int_type (date_pad w)"
  by (simp add: desc_ok_def date_pad_def zero_pad_def integral_types_def type_table_def)

lemma int_output_date:
  assumes "spec_view sp = desc_view (date_pad w)" and "0 \<le> i"
  shows "int_output i sp = zero_padded w (nat i)"
proof -
  have v: "spec_align sp = align_numeric" "spec_sign sp = sign_none" "\<not> spec_alt sp" "specs_width sp = int w"
    "specs_precision sp = -1" "spec_type sp = pres_dec"
    using assms(1) by (simp_all add: spec_view_def desc_view_def date_pad_def zero_pad_def desc_alignment_def desc_sign_def desc_type_def type_table_def)
  show ?thesis
    using assms(2)
    by (simp add: int_output_def v Let_def aligned_def pad_left_of_def int_body_def sign_text_def base_prefix_def
        zeros_text_def digits_text_def zero_padded_def)
qed

text \<open>\<open>{:0wd}\<close> with an \<open>int\<close>.\<close>

lemma date_field:
  assumes "0 < w" "w \<le> int_max" and "0 \<le> i" "i < 2 ^ 31" and "0 \<le> n" and "get_arg args n = Some (Int_arg (word_of_int i))"
  shows "field_output args n Next_arg (Some (date_pad w)) = Some (zero_padded w (nat i), n + 1)"
proof -
  obtain sp where a: "apply_desc (date_pad w) default_dynamic_specs (n + 1) = Inr (sp, n + 1)"
    and v: "spec_view sp = desc_view (date_pad w)"
    using apply_desc_static [OF date_pad_ok [OF assms(1,2)], of "n + 1"] by (auto simp: date_pad_def zero_pad_def)
  have k: "dynamic_width sp = id_none" "dynamic_precision sp = id_none"
    using v by (simp_all add: spec_view_def desc_view_def)
  have r: "resolve_dynamic sp args = Inr sp" by (simp add: resolve_dynamic_def handle_dynamic_spec_def k)
  have "sint (word_of_int i :: 32 word) = i"
    using assms(3,4) by (simp add: sint_sbintrunc' signed_take_bit_int_eq_self)
  then show ?thesis
    using date_pad_ok [OF assms(1,2)] assms(5,6) a r int_output_date [OF v assms(3)]
    by (simp add: field_output_def) (simp add: date_pad_def zero_pad_def)
qed

definition date_text :: "log_tm \<Rightarrow> string" where
  "date_text t = zero_padded 4 (nat (tm_year t + 1900)) @ ''-'' @ two (tm_mon t + 1) @ ''-'' @ two (tm_mday t)"

lemma daily_filename_text:
  assumes "calendar_ok t" and "split_by_extension fname = (b, e)"
  shows "daily_filename loc fname t = Inr (b @ ''_'' @ date_text t @ e)"
proof -
  let ?ps = "[Field Next_arg None, Literal ''_'', Field Next_arg (Some (date_pad 4)), Literal ''-'',
    Field Next_arg (Some (date_pad 2)), Literal ''-'', Field Next_arg (Some (date_pad 2)), Field Next_arg None]"
  let ?a = "make_format_args [String_arg b, Int_arg (word_of_int (tm_year t + 1900)), Int_arg (word_of_int (tm_mon t + 1)),
    Int_arg (word_of_int (tm_mday t)), String_arg e]"
  have t: "template_text ?ps = ''{}_{:04d}-{:02d}-{:02d}{}''"
    by (simp add: template_text_def double_braces_def date_pad_text ascii_digit_def char_digits)
  have 0: "field_output ?a 0 Next_arg None = Some (b, 1)" "field_output ?a 4 Next_arg None = Some (e, 5)"
    by (simp_all add: field_output_def get_arg_def make_format_args_def)
  have f: "field_output ?a 1 Next_arg (Some (date_pad 4)) = Some (zero_padded 4 (nat (tm_year t + 1900)), 2)"
    "field_output ?a 2 Next_arg (Some (date_pad 2)) = Some (two (tm_mon t + 1), 3)"
    "field_output ?a 3 Next_arg (Some (date_pad 2)) = Some (two (tm_mday t), 4)"
    using assms(1) date_field [of 4 "tm_year t + 1900" 1 ?a] date_field [of 2 "tm_mon t + 1" 2 ?a] date_field [of 2 "tm_mday t" 3 ?a]
    by (simp_all add: calendar_ok_def two_def get_arg_def make_format_args_def int_max_def)
  have "template_output ?a 0 ?ps = Some (b @ ''_'' @ date_text t @ e)"
    by (simp only: template_output.simps 0 f option.case prod.case option.map append_Nil2 date_text_def append.assoc)
  from vformat_to_template [OF this, of loc] t assms(2) show ?thesis by (simp add: daily_filename_def)
qed

lemma zero_padded_inject: "zero_padded w m = zero_padded w n \<longleftrightarrow> m = n"
  by (metis undec_zero_padded)

lemma two_inject: "0 \<le> i \<Longrightarrow> 0 \<le> j \<Longrightarrow> two i = two j \<longleftrightarrow> i = j"
  by (simp add: two_def zero_padded_inject eq_nat_nat_iff)

text \<open>Files of different days have different names.\<close>

lemma date_text_inject:
  assumes "calendar_ok t" and "calendar_ok t'"
  shows "date_text t = date_text t' \<longleftrightarrow> (tm_year t, tm_mon t, tm_mday t) = (tm_year t', tm_mon t', tm_mday t')"
proof
  note b = assms [unfolded calendar_ok_def]
  have l: "length (two (tm_mon t + 1)) = 2" "length (two (tm_mday t)) = 2" "length (two (tm_mon t' + 1)) = 2" "length (two (tm_mday t')) = 2"
    using b by (simp_all add: length_two)
  assume "date_text t = date_text t'"
  then have "zero_padded 4 (nat (tm_year t + 1900)) = zero_padded 4 (nat (tm_year t' + 1900))"
    "two (tm_mon t + 1) = two (tm_mon t' + 1)" "two (tm_mday t) = two (tm_mday t')"
    using l by (simp_all add: date_text_def append_eq_append_conv)
  with b have "tm_year t = tm_year t'" "tm_mon t = tm_mon t'" "tm_mday t = tm_mday t'"
    by (simp_all add: zero_padded_inject two_inject eq_nat_nat_iff)
  then show "(tm_year t, tm_mon t, tm_mday t) = (tm_year t', tm_mon t', tm_mday t')" by simp
qed (simp add: date_text_def)

section \<open>A rotation\<close>

lemma delete_old_works:
  assumes os: "os_works os" and ok: "circular_ok q" and cap: "0 < capacity q"
  shows "\<exists>q' D'. delete_old os f q D = Inr (None, q', D') \<and> circular_ok q' \<and> capacity q' = capacity q \<and>
    q_contents q' = keep_last (capacity q) (q_contents q @ [f]) \<and>
    d_files D' = (if length (q_contents q) = capacity q then (d_files D)(hd (q_contents q) := None) else d_files D)"
proof -
  have m: "0 < max_items q" using cap by (simp add: capacity_def)
  show ?thesis
  proof (cases "length (q_contents q) = capacity q")
    case False
    with q_full_iff [OF ok] have nf: "\<not> q_full q" by simp
    from q_push_contents [OF ok, of f] nf False show ?thesis by (auto simp: delete_old_def)
  next
    case True
    with cap obtain x xs where c: "q_contents q = x # xs" by (cases "q_contents q") auto
    from q_pop_contents [OF ok c] obtain q1 where q1: "q_pop_front q = Inr q1" "circular_ok q1" "capacity q1 = capacity q"
      "q_contents q1 = xs" by blast
    from q_push_contents [OF q1(2), of f] obtain q2 where q2: "q_push_back f q1 = Inr q2" "circular_ok q2" "capacity q2 = capacity q"
      "q_contents q2 = keep_last (capacity q) (xs @ [f])" using q1 by auto
    have k: "keep_last (capacity q) (xs @ [f]) = keep_last (capacity q) (q_contents q @ [f])"
      using True c by (simp add: keep_last_def)
    have r: "fst (remove_if_exists os x D)" "d_files (snd (remove_if_exists os x D)) = (d_files D)(x := None)"
      using os by (auto simp: remove_if_exists_def os_remove_def path_exists_def)
    have "q_full q" using True m q_full_iff [OF ok] by simp
    then show ?thesis
      using q_front_contents [OF ok c] q1(1) q2 k r True c m
      by (cases "remove_if_exists os x D") (simp add: delete_old_def)
  qed
qed

definition dated_ok :: "'a dated_sink_scheme \<Rightarrow> bool" where
  "dated_ok s \<longleftrightarrow> circular_ok (filenames_q s) \<and> capacity (filenames_q s) = df_max_files s"

lemma clean_old_works:
  assumes "os_works os" and "dated_ok s"
  shows "\<exists>s' D'. clean_old os True s D = Inr (None, s', D') \<and> dated_ok s' \<and> s' = s\<lparr>filenames_q := filenames_q s'\<rparr> \<and>
    q_contents (filenames_q s') = keep_last (df_max_files s) (q_contents (filenames_q s) @ [fh_filename (df_file s)]) \<and>
    d_files D' = (if 0 < df_max_files s \<and> length (q_contents (filenames_q s)) = df_max_files s
      then (d_files D)(hd (q_contents (filenames_q s)) := None) else d_files D)"
proof (cases "0 < df_max_files s")
  case True
  with delete_old_works [OF assms(1), of "filenames_q s" "fh_filename (df_file s)" D] assms(2) show ?thesis
    by (auto simp: dated_ok_def clean_old_def)
next
  case False
  with assms(2) have "q_contents (filenames_q s) = []"
    using capacity_bound [of "filenames_q s"] by (simp add: dated_ok_def flip: length_0_conv)
  with False assms(2) show ?thesis by (simp add: clean_old_def keep_last_def)
qed

text \<open>The disk after a rotation to the file \<open>f\<close>, up to the deletion.\<close>

definition rotated_files :: "'a dated_sink_scheme \<Rightarrow> string \<Rightarrow> disk \<Rightarrow> (string \<rightharpoonup> string)" where
  "rotated_files s f D =
     (let F = d_files (snd (fh_close (df_file s) D))
      in F(f \<mapsto> (if df_truncate s then [] else case F f of None \<Rightarrow> [] | Some c \<Rightarrow> c)))"

lemma daily_log_rotates:
  assumes os: "os_works os" and ok: "dated_ok s" and tp: "rotation_tp s \<le> msg_time msg"
    and f: "calc (df_base s) (to_tm env (msg_time msg)) = Inr f"
    and t: "format_message env (df_formatter s) msg [] = Inr (pf, msg', t)"
  shows "\<exists>s' D'. daily_log calc mktime os env msg s D = Inr (msg', None, s', D') \<and> dated_ok s' \<and>
    fh_filename (df_file s') = f \<and> fh_fd (df_file s') = Some t \<and> df_max_files s' = df_max_files s \<and>
    df_formatter s' = pf \<and> df_base s' = df_base s \<and> df_truncate s' = df_truncate s \<and>
    q_contents (filenames_q s') = keep_last (df_max_files s) (q_contents (filenames_q s) @ [f]) \<and>
    d_files D' = (if 0 < df_max_files s \<and> length (q_contents (filenames_q s)) = df_max_files s
      then (rotated_files s f D)(hd (q_contents (filenames_q s)) := None) else rotated_files s f D)"
proof -
  from fh_open_content [OF os, of f "df_truncate s" "df_file s" D] obtain h D1 where
    h: "fh_open os f (df_truncate s) (df_file s) D = (None, h, D1)" "fh_filename h = f" "fh_fd h = Some []"
      "d_files D1 = rotated_files s f D" by (auto simp: rotated_files_def)
  from h(2,3) os have w: "fh_write os t h D1 = (None, h\<lparr>fh_fd := Some t\<rparr>)" by (simp add: fh_write_def)
  let ?s = "s\<lparr>rotation_tp := daily_next_rotation mktime env (rotation_h s) (rotation_m s), df_formatter := pf, df_file := h\<lparr>fh_fd := Some t\<rparr>\<rparr>"
  have "dated_ok ?s" using ok by (simp add: dated_ok_def)
  from clean_old_works [OF os this, of D1] h(2) obtain s' D' where
    c: "clean_old os True ?s D1 = Inr (None, s', D')" "dated_ok s'" "s' = ?s\<lparr>filenames_q := filenames_q s'\<rparr>"
      "q_contents (filenames_q s') = keep_last (df_max_files s) (q_contents (filenames_q s) @ [f])"
      "d_files D' = (if 0 < df_max_files s \<and> length (q_contents (filenames_q s)) = df_max_files s
        then (d_files D1)(hd (q_contents (filenames_q s)) := None) else d_files D1)" by auto
  have "daily_log calc mktime os env msg s D = Inr (msg', None, s', D')"
    using tp f t h(1) w c(1) by (simp add: daily_log_def write_and_clean_def)
  moreover have "df_file s' = h\<lparr>fh_fd := Some t\<rparr>" "df_max_files s' = df_max_files s" "df_formatter s' = pf" "df_base s' = df_base s"
    "df_truncate s' = df_truncate s" by (subst c(3), simp)+
  ultimately show ?thesis using c(2,4,5) h(2,4) by (intro exI [of _ s'] exI [of _ D']) simp
qed

lemma daily_log_stays:
  assumes os: "os_works os" and tp: "msg_time msg < rotation_tp s" and c: "fh_content (df_file s) D = Some c"
    and t: "format_message env (df_formatter s) msg [] = Inr (pf, msg', t)"
  shows "\<exists>h. daily_log calc mktime os env msg s D = Inr (msg', None, s\<lparr>df_formatter := pf, df_file := h\<rparr>, D) \<and>
    fh_content h D = Some (c @ t) \<and> fh_filename h = fh_filename (df_file s)"
proof -
  from fh_write_content [OF os c, of t] obtain h where "fh_write os t (df_file s) D = (None, h)" "fh_content h D = Some (c @ t)"
    "fh_filename h = fh_filename (df_file s)" by blast
  with tp t show ?thesis by (intro exI [of _ h]) (simp add: daily_log_def write_and_clean_def clean_old_def)
qed

section \<open>The files that are kept\<close>

text \<open>Of the names \<open>ns\<close> the sink has had, the last \<open>n\<close> are in its queue and are files; without a limit all are.\<close>

definition kept :: "nat \<Rightarrow> string list \<Rightarrow> string list" where
  "kept n ns = (if n = 0 then ns else keep_last n ns)"

definition retention :: "string list \<Rightarrow> 'a dated_sink_scheme \<Rightarrow> disk \<Rightarrow> bool" where
  "retention ns s D \<longleftrightarrow>
     dated_ok s \<and> ns \<noteq> [] \<and> distinct ns \<and> last ns = fh_filename (df_file s) \<and> fh_fd (df_file s) \<noteq> None \<and>
     q_contents (filenames_q s) = keep_last (df_max_files s) ns \<and>
     (\<forall>x\<in>set ns. d_files D x \<noteq> None \<longleftrightarrow> x \<in> set (kept (df_max_files s) ns))"

lemma last_kept: "ns \<noteq> [] \<Longrightarrow> last ns \<in> set (kept n ns)"
proof -
  assume ns: "ns \<noteq> []"
  show ?thesis
  proof (cases "n = 0")
    case False
    with ns have "length ns - n < length ns" by (cases ns) auto
    with ns have "drop (length ns - n) ns \<noteq> []" "last (drop (length ns - n) ns) = last ns" by (simp_all add: last_drop)
    with False show ?thesis by (metis kept_def keep_last_def last_in_set)
  qed (use ns in \<open>simp add: kept_def\<close>)
qed

lemma retention_content:
  assumes "retention ns s D"
  obtains c where "fh_content (df_file s) D = Some c"
proof -
  from assms have ns: "ns \<noteq> []" "last ns = fh_filename (df_file s)" "fh_fd (df_file s) \<noteq> None"
    "\<forall>x\<in>set ns. d_files D x \<noteq> None \<longleftrightarrow> x \<in> set (kept (df_max_files s) ns)" by (simp_all add: retention_def)
  have "d_files D (fh_filename (df_file s)) \<noteq> None"
    using ns(4) last_kept [OF ns(1)] last_in_set [OF ns(1)] unfolding ns(2) by blast
  with ns(3) that show thesis by (auto simp: fh_content_def)
qed

text \<open>The name that leaves.\<close>

lemma kept_append:
  assumes "distinct (ns @ [f])" and "x \<in> set (ns @ [f])"
  shows "x \<in> set (kept n (ns @ [f])) \<longleftrightarrow>
    (x = f \<or> x \<in> set (kept n ns)) \<and> \<not> (0 < n \<and> length (keep_last n ns) = n \<and> x = hd (keep_last n ns))"
proof (cases "n = 0 \<or> length ns < n")
  case True
  then show ?thesis by (auto simp: kept_def keep_last_def)
next
  case False
  then have l: "length (keep_last n ns) = n" by (simp add: length_keep_last)
  with False obtain y ys where k: "keep_last n ns = y # ys" by (cases "keep_last n ns") auto
  with l have n: "n = Suc (length ys)" by simp
  have "keep_last n (ns @ [f]) = keep_last n (keep_last n ns @ [f])" by (simp add: keep_last_append)
  also have "\<dots> = ys @ [f]" 
    unfolding k using n by (simp add: keep_last_def)
  finally have e: "kept n (ns @ [f]) = ys @ [f]" "kept n ns = y # ys" using False k by (simp_all add: kept_def)
  have s: "set (y # ys) \<subseteq> set ns" using k by (metis keep_last_def set_drop_subset)
  have "distinct (y # ys)" using k assms(1) by (metis distinct_append distinct_drop keep_last_def)
  with s assms(1) show ?thesis using False l k e by auto
qed

text \<open>The log of the current file, with what the stream holds.\<close>

definition daily_text :: "'a dated_sink_scheme \<Rightarrow> disk \<Rightarrow> string" where
  "daily_text s D = (case fh_content (df_file s) D of None \<Rightarrow> [] | Some c \<Rightarrow> c)"

lemma retention_rotates:
  assumes os: "os_works os" and r: "retention ns s D" and tp: "rotation_tp s \<le> msg_time msg"
    and f: "calc (df_base s) (to_tm env (msg_time msg)) = Inr f" "f \<notin> set ns"
    and t: "format_message env (df_formatter s) msg [] = Inr (pf, msg', t)"
  shows "\<exists>s' D'. daily_log calc mktime os env msg s D = Inr (msg', None, s', D') \<and> retention (ns @ [f]) s' D' \<and>
    daily_text s' D' = (if df_truncate s then [] else case d_files D f of None \<Rightarrow> [] | Some c \<Rightarrow> c) @ t \<and>
    (df_max_files s \<noteq> 1 \<longrightarrow> d_files D' (last ns) = fh_content (df_file s) D) \<and> df_formatter s' = pf \<and>
    df_max_files s' = df_max_files s \<and> df_base s' = df_base s"
proof -
  let ?n = "df_max_files s" and ?F = "rotated_files s f D" and ?old = "if df_truncate s then [] else case d_files D f of None \<Rightarrow> [] | Some c \<Rightarrow> c"
  let ?q = "keep_last ?n ns"
  from r have q: "dated_ok s" "ns \<noteq> []" "last ns = fh_filename (df_file s)" "q_contents (filenames_q s) = ?q" "distinct (ns @ [f])"
    and ex: "\<forall>x\<in>set ns. d_files D x \<noteq> None \<longleftrightarrow> x \<in> set (kept ?n ns)" using f(2) by (simp_all add: retention_def)
  from retention_content [OF r] obtain c where c: "fh_content (df_file s) D = Some c" .
  have nf: "last ns \<noteq> f" using f(2) last_in_set [OF q(2)] by blast
  then have F: "?F = (d_files D)(last ns \<mapsto> c, f \<mapsto> ?old)"
    using fh_close_eq(2) [of "df_file s" D] c q(3) by (simp add: rotated_files_def Let_def)
  from daily_log_rotates [of os s msg calc env f pf msg' t mktime D, OF os q(1) tp f(1) t] obtain s' D' where
    l: "daily_log calc mktime os env msg s D = Inr (msg', None, s', D')" "dated_ok s'" "fh_filename (df_file s') = f"
      "fh_fd (df_file s') = Some t" "df_max_files s' = ?n" "df_formatter s' = pf" "df_base s' = df_base s"
      "q_contents (filenames_q s') = keep_last ?n (ns @ [f])"
    and files: "d_files D' = (if 0 < ?n \<and> length ?q = ?n then ?F(hd ?q := None) else ?F)"
    using q(4) by (auto simp: keep_last_append simp del: length_q_contents)
  have qs: "set ?q \<subseteq> set ns" by (simp add: keep_last_def set_drop_subset)
  have hd: "hd ?q \<noteq> f" if "0 < ?n" "length ?q = ?n"
    using that qs f(2) by (cases ?q) auto
  have hd2: "hd ?q \<noteq> last ns" if "0 < ?n" "length ?q = ?n" "?n \<noteq> 1"
  proof -
    from that obtain y z zs where k: "?q = y # z # zs" by (cases ?q; cases "tl ?q") auto
    then have "last ns = last (z # zs)" by (metis keep_last_def last_ConsR last_drop last_snoc length_drop list.distinct(1) drop_eq_Nil linorder_not_less)
    moreover have "distinct ?q" using q(5) by (simp add: keep_last_def)
    ultimately show ?thesis using k by (metis distinct.simps(2) last_in_set list.distinct(1) list.sel(1))
  qed
  have F1: "?F x \<noteq> None \<longleftrightarrow> x = f \<or> x \<in> set (kept ?n ns)" if "x \<in> set (ns @ [f])" for x
    using that ex last_kept [OF q(2), of ?n] F by auto
  have "d_files D' x \<noteq> None \<longleftrightarrow> x \<in> set (kept ?n (ns @ [f]))" if x: "x \<in> set (ns @ [f])" for x
    using F1 [OF x] kept_append [OF q(5) x, of ?n] files by auto
  then have "retention (ns @ [f]) s' D'" using l(2-5,8) q(5) by (simp add: retention_def)
  moreover have "d_files D' f = Some ?old" using files hd F by auto
  then have "daily_text s' D' = ?old @ t" using l(3,4) by (simp add: daily_text_def fh_content_def)
  moreover have "d_files D' (last ns) = Some c" if "?n \<noteq> 1" using files hd2 F nf that by auto
  ultimately show ?thesis using l c by (intro exI [of _ s'] exI [of _ D']) simp
qed

lemma retention_stays:
  assumes os: "os_works os" and r: "retention ns s D" and tp: "msg_time msg < rotation_tp s"
    and t: "format_message env (df_formatter s) msg [] = Inr (pf, msg', t)"
  shows "\<exists>s'. daily_log calc mktime os env msg s D = Inr (msg', None, s', D) \<and> retention ns s' D \<and>
    daily_text s' D = daily_text s D @ t \<and> df_formatter s' = pf \<and> df_max_files s' = df_max_files s \<and> df_base s' = df_base s"
proof -
  from retention_content [OF r] obtain c where c: "fh_content (df_file s) D = Some c" .
  from daily_log_stays [OF os tp c t, of calc mktime] obtain h where
    h: "daily_log calc mktime os env msg s D = Inr (msg', None, s\<lparr>df_formatter := pf, df_file := h\<rparr>, D)"
      "fh_content h D = Some (c @ t)" "fh_filename h = fh_filename (df_file s)" by blast
  moreover from h(2) have "fh_fd h \<noteq> None" by (auto simp: fh_content_def split: option.splits)
  ultimately show ?thesis using r c
    by (intro exI [of _ "s\<lparr>df_formatter := pf, df_file := h\<rparr>"]) (simp add: retention_def dated_ok_def daily_text_def)
qed

section \<open>A new sink\<close>

lemma existing_files_names:
  "existing_files calc env base step D n now = Inr fs \<Longrightarrow>
     length fs \<le> n \<and> (\<forall>x\<in>set fs. d_files D x \<noteq> None) \<and>
     (0 < n \<longrightarrow> calc base (to_tm env now) = Inr f \<longrightarrow> d_files D f \<noteq> None \<longrightarrow> fs \<noteq> [] \<and> hd fs = f)"
proof (induction n arbitrary: now fs)
  case (Suc n)
  from Suc.prems obtain g where g: "calc base (to_tm env now) = Inr g" by (auto simp: bindR_eq_Inr)
  show ?case
  proof (cases "path_exists g D")
    case False
    with Suc.prems g have "fs = []" "d_files D g = None" by (simp_all add: path_exists_def)
    with g show ?thesis by auto
  next
    case True
    with Suc.prems g obtain r where r: "existing_files calc env base step D n (now - step) = Inr r" "fs = g # r"
      by (auto simp: bindR_eq_Inr)
    from Suc.IH [OF r(1)] r(2) True g show ?thesis by (simp add: path_exists_def)
  qed
qed simp

lemma init_filenames_works:
  assumes "init_filenames_q calc env base step D n = Inr q" and "n + 1 < 2 ^ 64"
  shows "\<exists>fs. existing_files calc env base step D n (os_now env) = Inr fs \<and> circular_ok q \<and> capacity q = n \<and> q_contents q = rev fs"
proof -
  from assms(1) obtain fs where fs: "existing_files calc env base step D n (os_now env) = Inr fs"
    "push_all q_push_back (rev fs) (new_circular_q [] n) = Inr q"
    by (auto simp: init_filenames_q_def bindR_eq_Inr)
  have "length fs \<le> n" using existing_files_names [of calc env base step D n "os_now env" fs "[]"] fs(1) by simp
  moreover from cq.push_all_keeps [OF new_circular_q_ok(1), of "rev fs" "[]" n] fs(2)
  have "circular_ok q" "capacity q = n" "q_contents q = keep_last n (rev fs)"
    by (auto simp: new_circular_q_ok capacity_new [OF assms(2)])
  ultimately show ?thesis using fs(1) by (simp add: keep_last_short)
qed

lemma new_daily_sink_works:
  assumes os: "os_works os" and new: "new_daily_sink calc mktime os env base h m trunc limit handlers D = Inr (Inr s, D')"
  shows "\<exists>ns f. calc base (to_tm env (os_now env)) = Inr f \<and> ns \<noteq> [] \<and> last ns = f \<and> length ns \<le> max 1 (unat limit) \<and>
    (distinct ns \<longrightarrow> retention ns s D') \<and> q_contents (filenames_q s) = keep_last (unat limit) ns \<and> dated_ok s \<and>
    df_max_files s = unat limit \<and> df_base s = base \<and> df_truncate s = trunc \<and>
    df_formatter s = default_pattern_formatter local_time [CHR 0x0A] \<and> rotation_tp s = daily_next_rotation mktime env h m"
proof -
  let ?n = "unat limit"
  have n: "?n + 1 < 2 ^ 64" using unsigned_less [of limit, where 'a = nat] by simp
  from new obtain f where f: "calc base (to_tm env (os_now env)) = Inr f"
    by (auto simp: new_daily_sink_def bindR_eq_Inr split: if_splits)
  from fh_open_content [OF os, of f trunc "new_file_helper handlers" D] obtain fh where
    h: "fh_open os f trunc (new_file_helper handlers) D = (None, fh, D')" "fh_filename fh = f" "fh_fd fh = Some []" "d_files D' f \<noteq> None"
    and s: "s = \<lparr>df_level = trace, df_formatter = default_pattern_formatter local_time [CHR 0x0A], df_base = base,
        rotation_tp = daily_next_rotation mktime env h m, df_file = fh, df_truncate = trunc, df_max_files = ?n,
        filenames_q = filenames_q s, rotation_h = h, rotation_m = m\<rparr>"
    and q: "(if 0 < ?n then init_filenames_q calc env base (24 * ns_per_hour) D' ?n else Inr disabled_q) = Inr (filenames_q s)"
    using new f by (auto simp: new_daily_sink_def bindR_eq_Inr Let_def split: if_splits)
  have sel: "df_file s = fh" "df_max_files s = ?n" "df_base s = base" "df_truncate s = trunc"
    "df_formatter s = default_pattern_formatter local_time [CHR 0x0A]" "rotation_tp s = daily_next_rotation mktime env h m"
    by (subst s, simp)+
  obtain ns where ns: "ns \<noteq> []" "last ns = f" "length ns \<le> max 1 ?n" "q_contents (filenames_q s) = keep_last ?n ns"
    "circular_ok (filenames_q s)" "capacity (filenames_q s) = ?n" "\<forall>x\<in>set ns. d_files D' x \<noteq> None" "kept ?n ns = ns"
  proof (cases "?n = 0")
    case True
    with q have "filenames_q s = disabled_q" by simp
    with True h(4) show thesis by (intro that [of "[f]"]) (simp_all add: disabled_q_ok keep_last_def kept_def)
  next
    case False
    with q init_filenames_works [OF _ n] obtain fs where
      fs: "existing_files calc env base (24 * ns_per_hour) D' ?n (os_now env) = Inr fs" "circular_ok (filenames_q s)"
        "capacity (filenames_q s) = ?n" "q_contents (filenames_q s) = rev fs" by fastforce
    from existing_files_names [OF fs(1), of f] f h(4) False
    have "length fs \<le> ?n" "\<forall>x\<in>set fs. d_files D' x \<noteq> None" "fs \<noteq> []" "hd fs = f" by simp_all
    with fs False show thesis
      by (intro that [of "rev fs"]) (simp_all add: keep_last_short kept_def last_rev max_def)
  qed
  then have "dated_ok s" using sel by (simp add: dated_ok_def)
  moreover have "distinct ns \<longrightarrow> retention ns s D'" using ns sel h(2,3) calculation by (simp add: retention_def)
  ultimately show ?thesis using f ns sel by (intro exI [of _ ns] exI [of _ f]) simp
qed

section \<open>A system, a clock and a sink for the witnesses\<close>

definition demo_os :: file_os where
  "demo_os = \<lparr>opens = \<lambda>D f m i. True, renames = \<lambda>D f g i. True, removes = \<lambda>D f. True, flushes = \<lambda>D f. True,
     syncs = \<lambda>D f. True, writes = \<lambda>D f s. length s, mkdirs = \<lambda>D f. True\<rparr>"

lemma demo_os_works: "os_works demo_os"
  by (simp add: os_works_def demo_os_def)

definition empty_disk :: disk where
  "empty_disk = \<lparr>d_files = Map.empty, d_dirs = [], d_events = []\<rparr>"

definition two_days :: log_env where
  "two_days = demo_env\<lparr>os_localtime := \<lambda>secs. demo_tm\<lparr>tm_mday := if secs < 86400 then 2 else 3\<rparr>\<rparr>"

definition hour_of :: "log_tm \<Rightarrow> int" where
  "hour_of t = 3600 * tm_hour t + 60 * tm_min t + tm_sec t"

definition late_msg :: "int \<Rightarrow> log_msg" where
  "late_msg secs = new_log_msg 7 (secs * ns_per_sec) no_source ''net'' info ''hello''"

lemma two_days_clock: "clock_ok two_days"
  by (simp add: clock_ok_def two_days_def demo_calendar calendar_ok_def)

lemma late_msg_ok: "0 \<le> secs \<Longrightarrow> secs < 1000000 \<Longrightarrow> message_ok two_days (late_msg secs) \<and> msg_secs (late_msg secs) = secs \<and>
    msg_time (late_msg secs) = secs * ns_per_sec"
  by (simp add: message_ok_def late_msg_def new_log_msg_def two_days_def no_source_def source_empty_def ns_per_sec_def
      msg_secs_def duration_cast_def)

lemma late_msg_formats:
  assumes "0 < secs" and "secs < 1000000"
  shows "\<exists>pf' m t. format_message two_days (default_pattern_formatter local_time [CHR 0x0A]) (late_msg secs) [] = Inr (pf', m, t)"
  using default_format [OF default_ok_new two_days_clock, of "late_msg secs" local_time "[CHR 0x0A]" "[]"] late_msg_ok [of secs] assms
  by fastforce

definition demo_calc :: filename_calc where
  "demo_calc = daily_filename (\<lambda>a s. None)"

definition log_name :: "int \<Rightarrow> string" where
  "log_name day = ''log_'' @ date_text (demo_tm\<lparr>tm_mday := day\<rparr>) @ ''.txt''"

lemma demo_calc_name:
  assumes "0 \<le> secs"
  shows "demo_calc ''log.txt'' (to_tm two_days (secs * ns_per_sec)) = Inr (log_name (if secs < 86400 then 2 else 3))"
proof -
  have s: "split_by_extension ''log.txt'' = (''log'', ''.txt'')" using split_by_extension_ext [of "''txt''" "''log''"] by simp
  have t: "to_tm two_days (secs * ns_per_sec) = demo_tm\<lparr>tm_mday := if secs < 86400 then 2 else 3\<rparr>" (is "_ = ?t")
    using assms by (simp add: to_tm_def two_days_def duration_cast_def ns_per_sec_def)
  have "calendar_ok ?t" using demo_calendar by (simp add: calendar_ok_def)
  from daily_filename_text [OF this s] show ?thesis unfolding demo_calc_def t by (simp add: log_name_def)
qed

lemma log_names_differ: "log_name 2 \<noteq> log_name 3"
proof -
  have "calendar_ok (demo_tm\<lparr>tm_mday := 2\<rparr>)" "calendar_ok (demo_tm\<lparr>tm_mday := 3\<rparr>)" using demo_calendar by (simp_all add: calendar_ok_def)
  from date_text_inject [OF this] show ?thesis by (simp add: log_name_def)
qed

text \<open>A sink for one file.\<close>

lemma demo_daily_sink:
  assumes "0 \<le> h" and "h \<le> 23"
  shows "\<exists>s D'. new_daily_sink demo_calc hour_of demo_os two_days ''log.txt'' h 0 False 1 (\<lambda>e. False) empty_disk = Inr (Inr s, D')"
proof -
  let ?f = "log_name 2"
  have now: "os_now two_days = 0" by (simp add: two_days_def demo_env_def)
  have f: "demo_calc ''log.txt'' (to_tm two_days 0) = Inr ?f" using demo_calc_name [of 0] by simp
  from fh_open_content [OF demo_os_works, of ?f False "new_file_helper (\<lambda>e. False)" empty_disk] obtain fh D' where
    h: "fh_open demo_os ?f False (new_file_helper (\<lambda>e. False)) empty_disk = (None, fh, D')" "d_files D' ?f \<noteq> None"
    by (auto simp: Let_def)
  obtain q where q: "push_all q_push_back [?f] (new_circular_q [] 1) = Inr q"
    using cq.push_all_keeps [OF new_circular_q_ok(1), of "[?f]" "[]" 1] by blast
  have "existing_files demo_calc two_days ''log.txt'' (24 * ns_per_hour) D' (Suc 0) 0 = Inr [?f]"
    using f h(2) by (simp add: path_exists_def)
  then have "init_filenames_q demo_calc two_days ''log.txt'' (24 * ns_per_hour) D' 1 = Inr q"
    using q now by (simp add: init_filenames_q_def)
  with h(1) f now assms show ?thesis by (simp add: new_daily_sink_def)
qed

lemma demo_rotation:
  assumes "0 < h" shows "daily_next_rotation hour_of two_days h 0 = 3600 * h * ns_per_sec"
    and "daily_next_rotation hour_of two_days 0 0 = 86400 * ns_per_sec"
  using assms
  by (simp_all add: daily_next_rotation_def hour_of_def to_tm_def two_days_def demo_env_def ns_per_sec_def ns_per_hour_def Let_def)

end
