(* ===== verification/LogConfig.thy ===== *)
theory LogConfig
  imports LogRegistry "HOL-Library.AList" "HOL-Library.Sublist"
begin

text \<open>
  \<open>spdlog/cfg\<close>: levels of the loggers from a text \<open>name=level,...\<close> of the command line (\<open>argv.h\<close>) or the environment
  (\<open>env.h\<close>), read by \<open>helpers-inl.h\<close>. What the tables of the code hold is kept as association lists; the code's order of
  traversal does not matter as every key occurs once.
\<close>

section \<open>helpers\<close>

definition to_lower_char :: "char \<Rightarrow> char" where
  "to_lower_char ch = (if 65 \<le> (of_char ch :: nat) \<and> (of_char ch :: nat) \<le> 90 then char_of ((of_char ch :: nat) + 32) else ch)"

definition to_lower :: "string \<Rightarrow> string" where
  "to_lower = map to_lower_char"

definition is_space :: "char \<Rightarrow> bool" where
  "is_space ch \<longleftrightarrow> ch \<in> {CHR '' '', CHR 0x0A, CHR 0x0D, CHR 0x09}"

definition trim :: "string \<Rightarrow> string" where
  "trim str = dropWhile is_space (rev (dropWhile is_space (rev str)))"

definition extract_kv :: "char \<Rightarrow> string \<Rightarrow> string \<times> string" where
  "extract_kv sep str =
     (case dropWhile (\<lambda>c. c \<noteq> sep) str of
        [] \<Rightarrow> (trim [], trim str)
      | _ # v \<Rightarrow> (trim (takeWhile (\<lambda>c. c \<noteq> sep) str), trim v))"

text \<open>\<open>std::getline\<close> until the stream is empty.\<close>

function getlines :: "char \<Rightarrow> string \<Rightarrow> string list" where
  "getlines sep s =
     (if s = [] then []
      else takeWhile (\<lambda>c. c \<noteq> sep) s #
        (case dropWhile (\<lambda>c. c \<noteq> sep) s of [] \<Rightarrow> [] | _ # r \<Rightarrow> getlines sep r))"
  by pat_completeness auto
termination
proof (relation "measure (\<lambda>(sep, s). length s)")
  fix sep c s r
  assume "dropWhile (\<lambda>c. c \<noteq> sep) s = c # r"
  then have "Suc (length r) \<le> length s" using length_dropWhile_le [of "\<lambda>c. c \<noteq> sep" s] by simp
  then show "((sep, r), (sep, s)) \<in> measure (\<lambda>(sep, s). length s)" by simp
qed simp

declare getlines.simps [simp del]

definition extract_key_vals :: "string \<Rightarrow> (string \<times> string) list" where
  "extract_key_vals str =
     foldl (\<lambda>rv token. if token = [] then rv else let (k, v) = extract_kv CHR ''='' token in AList.update k v rv)
       [] (getlines CHR '','' str)"

text \<open>The loop of \<open>load_levels\<close>: the levels of names, and the level without a name.\<close>

fun name_levels ::
    "(string \<times> string) list \<Rightarrow> (string \<rightharpoonup> level_enum) \<times> level_enum option \<Rightarrow> (string \<rightharpoonup> level_enum) \<times> level_enum option" where
  "name_levels [] (levels, global_level) = (levels, global_level)"
| "name_levels ((logger_name, v) # rest) (levels, global_level) =
     (let level_name = to_lower v; level = from_str level_name
      in if level = off \<and> level_name \<noteq> ''off'' then name_levels rest (levels, global_level)
         else if logger_name = [] then name_levels rest (levels, Some level)
         else name_levels rest (levels(logger_name \<mapsto> level), global_level))"

definition load_levels :: "string \<Rightarrow> registry \<Rightarrow> log_world \<Rightarrow> (registry \<times> log_world) res" where
  "load_levels input R W =
     (if input = [] \<or> 32768 \<le> length input then Inr (R, W)
      else let (levels, global_level) = name_levels (extract_key_vals input) (Map.empty, None)
           in set_levels levels global_level R W)"

section \<open>argv and env\<close>

definition level_prefix :: string where
  "level_prefix = ''SPDLOG_LEVEL=''"

fun argv_loop :: "string list \<Rightarrow> registry \<Rightarrow> log_world \<Rightarrow> (registry \<times> log_world) res" where
  "argv_loop [] R W = Inr (R, W)"
| "argv_loop (arg # args) R W =
     (if prefix level_prefix arg
      then bindR (load_levels (drop (length level_prefix) arg) R W) (\<lambda>(R, W). argv_loop args R W)
      else argv_loop args R W)"

definition load_argv_levels :: "string list \<Rightarrow> registry \<Rightarrow> log_world \<Rightarrow> (registry \<times> log_world) res" where
  "load_argv_levels argv = argv_loop (tl argv)"

definition os_getenv :: "(string \<rightharpoonup> string) \<Rightarrow> string \<Rightarrow> string" where
  "os_getenv environ var = (case environ var of Some v \<Rightarrow> v | None \<Rightarrow> [])"

definition load_env_levels ::
    "(string \<rightharpoonup> string) \<Rightarrow> string \<Rightarrow> registry \<Rightarrow> log_world \<Rightarrow> (registry \<times> log_world) res" where
  "load_env_levels environ var R W =
     (let env_val = os_getenv environ var in if env_val \<noteq> [] then load_levels env_val R W else Inr (R, W))"

section \<open>Reading a text\<close>

primrec join :: "string list \<Rightarrow> string" where
  "join [] = []"
| "join (t # ts) = (if ts = [] then t else t @ '','' @ join ts)"

lemma takeWhile_sep: "c \<notin> set t \<Longrightarrow> takeWhile (\<lambda>x. x \<noteq> c) (t @ c # r) = t \<and> dropWhile (\<lambda>x. x \<noteq> c) (t @ c # r) = c # r"
  by (induction t) auto

lemma takeWhile_no_sep: "c \<notin> set t \<Longrightarrow> takeWhile (\<lambda>x. x \<noteq> c) t = t \<and> dropWhile (\<lambda>x. x \<noteq> c) t = []"
  by (induction t) auto

lemma getlines_join:
  "\<forall>t\<in>set ts. CHR '','' \<notin> set t \<and> t \<noteq> [] \<Longrightarrow> getlines CHR '','' (join ts) = ts"
proof (induction ts)
  case (Cons t ts)
  then have t: "CHR '','' \<notin> set t" "t \<noteq> []" by auto
  show ?case
  proof (cases "ts = []")
    case True
    with t takeWhile_no_sep [OF t(1)] show ?thesis by (simp add: getlines.simps del: dropWhile_eq_Nil_conv)
  next
    case False
    with t takeWhile_sep [OF t(1), of "join ts"] Cons show ?thesis by (simp add: getlines.simps [of _ "t @ CHR '','' # join ts"])
  qed
qed (simp add: getlines.simps)

text \<open>A name is what is left after trimming.\<close>

definition trimmed :: "string \<Rightarrow> bool" where
  "trimmed s \<longleftrightarrow> s = [] \<or> \<not> is_space (hd s) \<and> \<not> is_space (last s)"

lemma dropWhile_spaces: "\<forall>c\<in>set a. is_space c \<Longrightarrow> dropWhile is_space (a @ s) = dropWhile is_space s"
  by (induction a) auto

lemma dropWhile_hd: "s = [] \<or> \<not> P (hd s) \<Longrightarrow> dropWhile P s = s"
  by (cases s) auto

lemma trim_padded:
  assumes "\<forall>c\<in>set a. is_space c" and "\<forall>c\<in>set b. is_space c" and "trimmed s"
  shows "trim (a @ s @ b) = s"
proof (cases "s = []")
  case True
  have "dropWhile is_space (rev (a @ b)) = []" using assms(1,2) by auto
  with True show ?thesis by (simp add: trim_def del: dropWhile_eq_Nil_conv rev_append)
next
  case False
  have "dropWhile is_space (rev b @ rev (a @ s)) = rev (a @ s)"
    using dropWhile_spaces [of "rev b" "rev (a @ s)"] dropWhile_hd [of "rev (a @ s)" is_space] assms(2,3) False
    by (simp add: trimmed_def hd_append hd_rev)
  with dropWhile_spaces [OF assms(1), of s] dropWhile_hd [of s is_space] assms(3) False show ?thesis
    by (simp add: trim_def trimmed_def)
qed

section \<open>Spellings\<close>

text \<open>A level may be written in any case; two levels have a short name as well.\<close>

definition spells :: "string \<Rightarrow> level_enum \<Rightarrow> bool" where
  "spells v l \<longleftrightarrow> to_lower v \<in> {to_string_view l} \<union> (if l = warn then {''warn''} else if l = err then {''err''} else {})"

lemma spells_cases:
  assumes "spells v l"
  obtains "to_lower v = to_string_view l" | "l = warn" "to_lower v = ''warn''" | "l = err" "to_lower v = ''err''"
  using assms by (auto simp: spells_def split: if_splits)

lemma spells_level:
  assumes "spells v l"
  shows "from_str (to_lower v) = l" and "l = off \<Longrightarrow> to_lower v = ''off''"
proof -
  have "to_string_view off = ''off''" by (simp add: to_string_view_def level_string_views_def)
  with assms show "l = off \<Longrightarrow> to_lower v = ''off''" by (cases rule: spells_cases) simp_all
  have "from_str ''warn'' = warn" "from_str ''err'' = err"
    by (simp_all add: from_str_def level_string_views_def all_levels_def Let_def)
  with assms show "from_str (to_lower v) = l" by (cases rule: spells_cases) (simp_all add: from_str_to_string)
qed

text \<open>Characters that are not letters are in no spelling.\<close>

lemma to_lower_char_same: "of_char c < (65::nat) \<Longrightarrow> to_lower_char c = c"
  by (simp add: to_lower_char_def)

lemma spells_letters:
  assumes "spells v l" and "c \<in> set v"
  shows "\<not> is_space c \<and> c \<noteq> CHR '','' \<and> c \<noteq> CHR ''=''"
proof -
  have "\<forall>x\<in>set (to_lower v). 65 \<le> (of_char x :: nat)"
    using assms(1) by (cases l) (auto simp: spells_def to_string_view_def level_string_views_def)
  with assms(2) have "65 \<le> (of_char (to_lower_char c) :: nat)" by (simp add: to_lower_def)
  then have "65 \<le> (of_char c :: nat)" using to_lower_char_same [of c] by (metis linorder_not_less)
  then show ?thesis by (auto simp: is_space_def)
qed

lemma spells_trimmed: "spells v l \<Longrightarrow> trimmed v \<and> v \<noteq> [] \<and> CHR '','' \<notin> set v \<and> CHR ''='' \<notin> set v"
proof -
  assume s: "spells v l"
  have "v \<noteq> []" using s to_string_nonempty [of l] by (auto simp: spells_def to_lower_def split: if_splits)
  then show ?thesis using spells_letters [OF s] by (auto simp: trimmed_def)
qed

text \<open>What sets the level of a name, the empty one for all loggers, with blanks around the words.\<close>

definition blank :: "string \<Rightarrow> bool" where
  "blank a \<longleftrightarrow> (\<forall>c\<in>set a. is_space c)"

definition sets_level :: "string \<Rightarrow> string \<times> level_enum \<Rightarrow> bool" where
  "sets_level token e \<longleftrightarrow>
     (\<exists>a b c d v. blank a \<and> blank b \<and> blank c \<and> blank d \<and> spells v (snd e) \<and> trimmed (fst e) \<and>
        CHR '','' \<notin> set (fst e) \<and> CHR ''='' \<notin> set (fst e) \<and>
        (token = a @ fst e @ b @ ''='' @ c @ v @ d \<or> fst e = [] \<and> token = a @ v @ d))"

lemma sets_level_named:
  "blank a \<Longrightarrow> blank b \<Longrightarrow> blank c \<Longrightarrow> blank d \<Longrightarrow> spells v l \<Longrightarrow> trimmed n \<Longrightarrow> CHR '','' \<notin> set n \<Longrightarrow> CHR ''='' \<notin> set n \<Longrightarrow>
   sets_level (a @ n @ b @ ''='' @ c @ v @ d) (n, l)"
  unfolding sets_level_def fst_conv snd_conv by blast

lemma sets_level_global: "blank a \<Longrightarrow> blank d \<Longrightarrow> spells v l \<Longrightarrow> sets_level (a @ v @ d) ([], l)"
  unfolding sets_level_def fst_conv snd_conv by (intro exI [of _ a] exI [of _ d] exI [of _ v]) (simp add: trimmed_def)

lemma blank_chars: "blank a \<Longrightarrow> CHR '','' \<notin> set a \<and> CHR ''='' \<notin> set a"
proof -
  assume a: "blank a"
  have "\<not> is_space CHR '',''" "\<not> is_space CHR ''=''" by (simp_all add: is_space_def)
  with a show ?thesis unfolding blank_def by blast
qed

lemma sets_level_kv:
  assumes "sets_level token e"
  shows "\<exists>v. extract_kv CHR ''='' token = (fst e, v) \<and> spells v (snd e) \<and> token \<noteq> [] \<and> CHR '','' \<notin> set token"
proof -
  from assms obtain a b c d v where s: "blank a" "blank b" "blank c" "blank d" "spells v (snd e)" "trimmed (fst e)"
    "CHR '','' \<notin> set (fst e)" "CHR ''='' \<notin> set (fst e)"
    and "token = a @ fst e @ b @ ''='' @ c @ v @ d \<or> fst e = [] \<and> token = a @ v @ d"
    unfolding sets_level_def by blast
  then have t: "token = (a @ fst e @ b) @ CHR ''='' # (c @ v @ d) \<or> fst e = [] \<and> token = a @ v @ d" by simp
  note v = spells_trimmed [OF s(5)]
  have no: "CHR ''='' \<notin> set (a @ fst e @ b)" "CHR ''='' \<notin> set (a @ v @ d)" "CHR '','' \<notin> set (a @ fst e @ b)" "CHR '','' \<notin> set (c @ v @ d)"
    "CHR '','' \<notin> set (a @ v @ d)"
    using s(7,8) v blank_chars [OF s(1)] blank_chars [OF s(2)] blank_chars [OF s(3)] blank_chars [OF s(4)] by simp_all
  have tr: "trim (a @ fst e @ b) = fst e" "trim (c @ v @ d) = v" "trim (a @ v @ d) = v"
    using trim_padded s v by (simp_all add: blank_def)
  from t show ?thesis
  proof
    assume t: "token = (a @ fst e @ b) @ CHR ''='' # (c @ v @ d)"
    from takeWhile_sep [OF no(1), of "c @ v @ d"] tr s(5) no(3,4) show ?thesis
      unfolding t extract_kv_def by simp
  next
    assume t: "fst e = [] \<and> token = a @ v @ d"
    have "trim [] = []" by (simp add: trim_def)
    with takeWhile_no_sep [OF no(2)] tr(3) s(5) no(5) v t show ?thesis
      by (simp add: extract_kv_def del: dropWhile_eq_Nil_conv)
  qed
qed

section \<open>The levels of a text\<close>

lemma foldl_update:
  "map_of (foldl (\<lambda>rv (k, v). AList.update k v rv) al kvs) = map_of al ++ map_of (rev kvs) \<and>
   (distinct (map fst al) \<longrightarrow> distinct (map fst (foldl (\<lambda>rv (k, v). AList.update k v rv) al kvs)))"
proof (induction kvs arbitrary: al)
  case (Cons kv kvs)
  obtain k v where kv: "kv = (k, v)" by fastforce
  have "map_of (AList.update k v al) ++ m = map_of al ++ ([k \<mapsto> v] ++ m)" for m
    by (simp add: update_conv' map_add_assoc map_add_upd)
  with Cons [of "AList.update k v al"] show ?case by (simp add: kv distinct_update)
qed simp

definition reads_kv :: "string \<Rightarrow> string \<times> string \<Rightarrow> bool" where
  "reads_kv token kv \<longleftrightarrow> extract_kv CHR ''='' token = kv \<and> token \<noteq> [] \<and> CHR '','' \<notin> set token"

lemma extract_key_vals_join:
  assumes "list_all2 reads_kv tokens kvs"
  shows "map_of (extract_key_vals (join tokens)) = map_of (rev kvs)" and "distinct (map fst (extract_key_vals (join tokens)))"
proof -
  have "foldl (\<lambda>rv token. if token = [] then rv else let (k, v) = extract_kv CHR ''='' token in AList.update k v rv) al tokens =
      foldl (\<lambda>rv (k, v). AList.update k v rv) al kvs" for al
    using assms by (induction tokens kvs arbitrary: al rule: list_all2_induct) (auto simp: reads_kv_def)
  moreover have "\<forall>t\<in>set tokens. CHR '','' \<notin> set t \<and> t \<noteq> []"
    using assms by (induction tokens kvs rule: list_all2_induct) (auto simp: reads_kv_def)
  ultimately have "extract_key_vals (join tokens) = foldl (\<lambda>rv (k, v). AList.update k v rv) [] kvs"
    by (simp add: extract_key_vals_def getlines_join)
  with foldl_update [of "[]" kvs] show "map_of (extract_key_vals (join tokens)) = map_of (rev kvs)"
    "distinct (map fst (extract_key_vals (join tokens)))" by simp_all
qed

definition level_of :: "string \<Rightarrow> level_enum option" where
  "level_of v = (let l = to_lower v in if from_str l = off \<and> l \<noteq> ''off'' then None else Some (from_str l))"

lemma level_of_spells: "spells v l \<Longrightarrow> level_of v = Some l"
  using spells_level [of v l] by (auto simp: level_of_def Let_def)

lemma name_levels_eq:
  "distinct (map fst al) \<Longrightarrow> name_levels al (levels, g) =
    ((\<lambda>n. if n = [] then levels n else case Option.bind (map_of al n) level_of of None \<Rightarrow> levels n | Some l \<Rightarrow> Some l),
     case Option.bind (map_of al []) level_of of None \<Rightarrow> g | Some l \<Rightarrow> Some l)"
proof (induction al arbitrary: levels g)
  case (Cons kv al)
  obtain k v where kv: "kv = (k, v)" by fastforce
  with Cons.prems have d: "distinct (map fst al)" "map_of al k = None" by (auto simp: map_of_eq_None_iff)
  from Cons.IH [OF d(1)] d(2) kv show ?case
    by (cases "level_of v"; cases "k = []") (auto simp: level_of_def Let_def fun_eq_iff split: if_splits option.splits)
qed (simp add: fun_eq_iff)

text \<open>A later entry for a name overrides an earlier one.\<close>

definition named_levels :: "(string \<times> level_enum) list \<Rightarrow> string \<rightharpoonup> level_enum" where
  "named_levels es n = (if n = [] then None else map_of (rev es) n)"

definition global_level_of :: "(string \<times> level_enum) list \<Rightarrow> level_enum option" where
  "global_level_of es = map_of (rev es) []"

definition denotes :: "string \<times> string \<Rightarrow> string \<times> level_enum \<Rightarrow> bool" where
  "denotes kv e \<longleftrightarrow> fst kv = fst e \<and> level_of (snd kv) = Some (snd e)"

lemma map_of_rel:
  "list_all2 denotes kvs es \<Longrightarrow>
   rel_option (\<lambda>v l. level_of v = Some l) (map_of (rev kvs) n) (map_of (rev es) n)"
proof (induction kvs es rule: list_all2_induct)
  case (Cons kv kvs e es)
  obtain k v l where e: "kv = (k, v)" "e = (k, l)" "level_of v = Some l" using Cons.hyps(1) by (cases kv; cases e) (auto simp: denotes_def)
  from Cons.IH show ?case by (cases rule: option.rel_cases) (simp_all add: e map_add_def)
qed simp

lemma map_of_bind:
  "list_all2 denotes kvs es \<Longrightarrow> Option.bind (map_of (rev kvs) n) level_of = map_of (rev es) n"
  using map_of_rel [of kvs es n] by (auto elim: option.rel_cases)

lemma load_levels_join:
  assumes "list_all2 sets_level tokens es" and "tokens \<noteq> []" and "length (join tokens) < 32768"
  shows "load_levels (join tokens) R W = set_levels (named_levels es) (global_level_of es) R W"
proof -
  obtain kvs where k: "list_all2 reads_kv tokens kvs"
    and e: "list_all2 denotes kvs es"
  proof -
    from assms(1) have "\<exists>kvs. list_all2 reads_kv tokens kvs \<and>
      list_all2 denotes kvs es"
    proof (induction tokens es rule: list_all2_induct)
      case (Cons token tokens e es)
      then obtain kvs v where "list_all2 reads_kv tokens kvs"
        "list_all2 denotes kvs es"
        "extract_kv CHR ''='' token = (fst e, v)" "spells v (snd e)" "token \<noteq> []" "CHR '','' \<notin> set token"
        using sets_level_kv by blast
      moreover from this level_of_spells have "reads_kv token (fst e, v)" "denotes (fst e, v) e" by (simp_all add: reads_kv_def denotes_def)
      ultimately show ?case by (intro exI [of _ "(fst e, v) # kvs"]) simp
    qed simp
    with that show thesis by blast
  qed
  from assms(1,2) have "join tokens \<noteq> []"
    by (cases tokens) (auto simp: list_all2_Cons1 dest: sets_level_kv)
  then show ?thesis
    using assms(3) extract_key_vals_join [OF k] map_of_bind [OF e]
    by (simp add: load_levels_def name_levels_eq named_levels_def [abs_def] global_level_of_def)
      (simp add: option.case_eq_if cong: if_cong)
qed

section \<open>What setting levels does\<close>

definition level_after :: "(string \<rightharpoonup> level_enum) \<Rightarrow> level_enum option \<Rightarrow> string \<Rightarrow> level_enum \<Rightarrow> level_enum" where
  "level_after levels g n old = (case levels n of Some l \<Rightarrow> l | None \<Rightarrow> (case g of Some l \<Rightarrow> l | None \<Rightarrow> old))"

lemma set_levels_effect:
  assumes "distinct (map snd (r_loggers R))" and "\<forall>L\<in>set (map snd (r_loggers R)). lw_loggers W L \<noteq> None"
  shows "\<exists>W'. set_levels levels g R W = Inr (R\<lparr>r_log_levels := levels,
      r_global_log_level := (case g of Some l \<Rightarrow> l | None \<Rightarrow> r_global_log_level R)\<rparr>, W') \<and>
    (\<forall>(n, L)\<in>set (r_loggers R). \<forall>l. lw_loggers W L = Some l \<longrightarrow>
       lw_loggers W' L = Some (l\<lparr>l_level := level_after levels g n (l_level l)\<rparr>)) \<and>
    (\<forall>L. L \<notin> set (map snd (r_loggers R)) \<longrightarrow> lw_loggers W' L = lw_loggers W L)"
proof -
  let ?step = "\<lambda>r (name, L). bindR r (\<lambda>W. case levels name of
      Some l \<Rightarrow> LogCore.set_level L l W
    | None \<Rightarrow> (case g of Some l \<Rightarrow> LogCore.set_level L l W | None \<Rightarrow> Inr W))"
  have "\<exists>W'. foldl ?step (Inr W) ls = Inr W' \<and>
    (\<forall>(n, L)\<in>set ls. \<forall>l. lw_loggers W L = Some l \<longrightarrow> lw_loggers W' L = Some (l\<lparr>l_level := level_after levels g n (l_level l)\<rparr>)) \<and>
    (\<forall>L. L \<notin> set (map snd ls) \<longrightarrow> lw_loggers W' L = lw_loggers W L)"
    if "distinct (map snd ls)" "\<forall>L\<in>set (map snd ls). lw_loggers W L \<noteq> None" for ls
    using that
  proof (induction ls arbitrary: W)
    case (Cons nL ls)
    obtain n L where nL: "nL = (n, L)" by fastforce
    with Cons.prems obtain l where l: "lw_loggers W L = Some l" by auto
    obtain W1 where W1: "?step (Inr W) nL = Inr W1" "lw_loggers W1 = (lw_loggers W)(L \<mapsto> l\<lparr>l_level := level_after levels g n (l_level l)\<rparr>)"
    proof (cases "levels n"; cases g)
      assume "levels n = None" "g = None"
      with l nL show thesis by (intro that [of W]) (auto simp: level_after_def)
    qed (use l nL in \<open>auto simp: level_after_def LogCore.set_level_def modify_logger_def get_logger_def intro!: that\<close>)
    from Cons.prems nL W1(2) have "distinct (map snd ls)" "\<forall>L\<in>set (map snd ls). lw_loggers W1 L \<noteq> None" "L \<notin> set (map snd ls)" by auto
    with Cons.IH [of W1] obtain W' where W': "foldl ?step (Inr W1) ls = Inr W'"
      "\<forall>(n, L)\<in>set ls. \<forall>l. lw_loggers W1 L = Some l \<longrightarrow> lw_loggers W' L = Some (l\<lparr>l_level := level_after levels g n (l_level l)\<rparr>)"
      "\<forall>L. L \<notin> set (map snd ls) \<longrightarrow> lw_loggers W' L = lw_loggers W1 L" by blast
    with W1 nL l \<open>L \<notin> set (map snd ls)\<close> show ?case by (intro exI [of _ W']) (force simp: image_iff)
  qed simp
  from this [OF assms] show ?thesis by (auto simp: set_levels_def Let_def)
qed

end
