(* ===== verification/LogAdmin.thy ===== *)
theory LogAdmin
  imports LogRegistry LogAsync
begin

text \<open>
  The rest of \<open>logger.h\<close>, \<open>registry-inl.h\<close> and \<open>spdlog-inl.h\<close>: copying and swapping loggers, logging a text as it is, making
  a logger with \<open>synchronous_factory.h\<close>, what the registry does to all loggers, and the periodic flusher
  (\<open>periodic_worker.h\<close>).
\<close>

section \<open>Copies of loggers\<close>

text \<open>
  The copy constructor and the one from a temporary. A moved-from string, vector and function is some value of its
  type: \<open>left\<close> is what the standard library leaves of the three.
\<close>

definition copy_logger :: "nat \<Rightarrow> nat \<Rightarrow> log_world \<Rightarrow> log_world res" where
  "copy_logger other L W = bindR (get_logger other W) (\<lambda>l. Inr (W\<lparr>lw_loggers := (lw_loggers W)(L \<mapsto> l)\<rparr>))"

definition bt_move :: "backtracer \<Rightarrow> backtracer \<times> backtracer" where
  "bt_move other =
     (let (q, rest) = copy_moveable (bt_messages other)
      in (\<lparr>bt_enabled = bt_enabled other, bt_messages = q\<rparr>, other\<lparr>bt_messages := rest\<rparr>))"

definition move_logger :: "(logger \<Rightarrow> logger) \<Rightarrow> nat \<Rightarrow> nat \<Rightarrow> log_world \<Rightarrow> log_world res" where
  "move_logger left other L W =
     bindR (get_logger other W) (\<lambda>l.
       let (bt, rest) = bt_move (tracer l); gone = left l
       in Inr (W\<lparr>lw_loggers := (lw_loggers W)
            (other \<mapsto> l\<lparr>l_name := l_name gone, l_sinks := l_sinks gone, custom_err_handler := custom_err_handler gone, tracer := rest\<rparr>,
             L \<mapsto> l\<lparr>tracer := bt\<rparr>)\<rparr>))"

text \<open>\<open>std::swap\<close> of the tracers moves three times; two loggers, or one with itself.\<close>

definition bt_assign :: "backtracer \<Rightarrow> backtracer \<times> backtracer" where
  "bt_assign other = (let (arg, rest) = bt_move other in (fst (bt_move arg), rest))"

definition bt_swap :: "backtracer \<Rightarrow> backtracer \<Rightarrow> backtracer \<times> backtracer" where
  "bt_swap a b =
     (let (tmp, a) = bt_move a;
          (a, b) = bt_assign b;
          (b, tmp) = bt_assign tmp
      in (a, b))"

definition swap_members :: "logger \<Rightarrow> logger \<Rightarrow> logger \<times> logger" where
  "swap_members l other =
     (let (t, t') = bt_swap (tracer l) (tracer other)
      in (\<lparr>l_name = l_name other, l_sinks = l_sinks other, l_level = l_level other, l_flush_level = l_flush_level other,
           custom_err_handler = custom_err_handler other, tracer = t\<rparr>,
          \<lparr>l_name = l_name l, l_sinks = l_sinks l, l_level = l_level l, l_flush_level = l_flush_level l,
           custom_err_handler = custom_err_handler l, tracer = t'\<rparr>))"

definition swap_loggers :: "nat \<Rightarrow> nat \<Rightarrow> log_world \<Rightarrow> log_world res" where
  "swap_loggers L other W =
     bindR (get_logger L W) (\<lambda>l. bindR (get_logger other W) (\<lambda>l'.
       if L = other then Inr W
       else let (l, l') = swap_members l l' in Inr (W\<lparr>lw_loggers := (lw_loggers W)(L \<mapsto> l, other \<mapsto> l')\<rparr>)))"

text \<open>The assignment swaps with its argument, a copy.\<close>

definition assign_logger :: "nat \<Rightarrow> nat \<Rightarrow> log_world \<Rightarrow> log_world res" where
  "assign_logger L other W =
     bindR (get_logger L W) (\<lambda>l. bindR (get_logger other W) (\<lambda>arg.
       Inr (W\<lparr>lw_loggers := (lw_loggers W)(L \<mapsto> fst (swap_members l arg))\<rparr>)))"

section \<open>Logging a text\<close>

definition log_at ::
    "log_env \<Rightarrow> fwrite \<Rightarrow> nat \<Rightarrow> nat \<Rightarrow> int \<Rightarrow> source_loc \<Rightarrow> level_enum \<Rightarrow> string \<Rightarrow> log_world \<Rightarrow> log_world res" where
  "log_at env fw tid L log_time loc lvl msg W =
     bindR (get_logger L W) (\<lambda>l.
       let log_enabled = should_log lvl l; traceback_enabled = bt_enabled (tracer l)
       in if \<not> log_enabled \<and> \<not> traceback_enabled then Inr W
          else log_it env fw L (new_log_msg tid log_time loc (l_name l) lvl msg) log_enabled traceback_enabled W)"

definition log_string ::
    "log_env \<Rightarrow> fwrite \<Rightarrow> nat \<Rightarrow> nat \<Rightarrow> source_loc \<Rightarrow> level_enum \<Rightarrow> string \<Rightarrow> log_world \<Rightarrow> log_world res" where
  "log_string env fw tid L loc lvl msg W =
     bindR (get_logger L W) (\<lambda>l.
       let log_enabled = should_log lvl l; traceback_enabled = bt_enabled (tracer l)
       in if \<not> log_enabled \<and> \<not> traceback_enabled then Inr W
          else log_it env fw L (new_log_msg tid (os_now env) loc (l_name l) lvl msg) log_enabled traceback_enabled W)"

section \<open>Making a logger\<close>

text \<open>The sink gets the address \<open>i\<close>, the logger \<open>L\<close>; no registry is the exception of \<open>register_logger\<close>.\<close>

definition sync_create ::
    "log_env \<Rightarrow> string \<Rightarrow> sink \<Rightarrow> nat \<Rightarrow> nat \<Rightarrow> registry \<Rightarrow> log_world \<Rightarrow> (registry option \<times> log_world) res" where
  "sync_create env logger_name sink i L R W =
     initialize_logger env L R
       (W\<lparr>lw_sinks := (lw_sinks W)(i \<mapsto> sink), lw_loggers := (lw_loggers W)(L \<mapsto> new_logger logger_name [i])\<rparr>)"

section \<open>The periodic worker\<close>

record periodic_worker =
  pw_active :: bool
  pw_joinable :: bool

definition new_periodic_worker :: "int \<Rightarrow> periodic_worker" where
  "new_periodic_worker interval = \<lparr>pw_active = 0 < interval, pw_joinable = 0 < interval\<rparr>"

text \<open>One round of the thread's loop, after the interval or a notification: whether the loop goes on.\<close>

definition worker_round ::
    "(log_world \<Rightarrow> log_world res) \<Rightarrow> periodic_worker \<Rightarrow> log_world \<Rightarrow> (bool \<times> log_world) res" where
  "worker_round callback_fun pw W =
     (if \<not> pw_active pw then Inr (False, W) else bindR (callback_fun W) (\<lambda>W. Inr (True, W)))"

text \<open>The destructor until it waits for the thread; the thread's next round is its last one, see \<open>stopped_round\<close>.\<close>

definition stop_worker :: "periodic_worker \<Rightarrow> periodic_worker" where
  "stop_worker pw = (if pw_joinable pw then pw\<lparr>pw_active := False\<rparr> else pw)"

section \<open>The registry\<close>

text \<open>The registry with the members other than the table of loggers; \<open>sv_tp\<close> is the pool's address.\<close>

record services =
  sv_registry :: registry
  sv_flusher :: "periodic_worker option"
  sv_tp :: "nat option"

definition flush_all :: "registry \<Rightarrow> log_world \<Rightarrow> log_world res" where
  "flush_all R = for_loggers logger_flush (r_loggers R)"

definition apply_all :: "(nat \<Rightarrow> log_world \<Rightarrow> log_world res) \<Rightarrow> registry \<Rightarrow> log_world \<Rightarrow> log_world res" where
  "apply_all fn R = for_loggers fn (r_loggers R)"

definition set_automatic_registration :: "bool \<Rightarrow> registry \<Rightarrow> registry" where
  "set_automatic_registration automatic_registration R = R\<lparr>r_automatic_registration := automatic_registration\<rparr>"

definition set_tp :: "nat option \<Rightarrow> services \<Rightarrow> services" where
  "set_tp tp S = S\<lparr>sv_tp := tp\<rparr>"

text \<open>The old worker is destroyed when the new one is there.\<close>

definition flush_every :: "int \<Rightarrow> services \<Rightarrow> services" where
  "flush_every interval S = S\<lparr>sv_flusher := Some (new_periodic_worker interval)\<rparr>"

definition registry_shutdown :: "services \<Rightarrow> services" where
  "registry_shutdown S =
     (let S = S\<lparr>sv_flusher := None\<rparr>;
          S = S\<lparr>sv_registry := registry_drop_all (sv_registry S)\<rparr>
      in S\<lparr>sv_tp := None\<rparr>)"

text \<open>Functions of \<open>spdlog-inl.h\<close> on the default logger.\<close>

definition default_get_level :: "registry \<Rightarrow> log_world \<Rightarrow> level_enum res" where
  "default_get_level R W =
     (case r_default_logger R of None \<Rightarrow> Inl NullDeref | Some L \<Rightarrow> bindR (get_logger L W) (\<lambda>l. Inr (l_level l)))"

definition default_should_log :: "level_enum \<Rightarrow> registry \<Rightarrow> log_world \<Rightarrow> bool res" where
  "default_should_log lvl R W =
     (case r_default_logger R of None \<Rightarrow> Inl NullDeref | Some L \<Rightarrow> bindR (get_logger L W) (\<lambda>l. Inr (should_log lvl l)))"

definition default_dump_backtrace :: "log_env \<Rightarrow> fwrite \<Rightarrow> nat \<Rightarrow> registry \<Rightarrow> log_world \<Rightarrow> log_world res option" where
  "default_dump_backtrace env fw tid R W =
     (case r_default_logger R of None \<Rightarrow> Some (Inl NullDeref) | Some L \<Rightarrow> dump_backtrace env fw tid L W)"

section \<open>What these do\<close>

text \<open>Swapping exchanges all members, the backtraces included.\<close>

lemma bt_swap_eq: "bt_swap a b = (b, a)"
  by (simp add: bt_swap_def bt_assign_def bt_move_def copy_moveable_def)

lemma swap_members_eq: "swap_members l l' = (l', l)"
  by (simp add: swap_members_def bt_swap_eq)

lemma swap_loggers_eq:
  assumes "lw_loggers W L = Some l" and "lw_loggers W L' = Some l'"
  shows "swap_loggers L L' W = Inr (W\<lparr>lw_loggers := (lw_loggers W)(L \<mapsto> l', L' \<mapsto> l)\<rparr>)"
  using assms by (auto simp: swap_loggers_def get_logger_def swap_members_eq fun_upd_idem)

lemma swap_loggers_twice:
  assumes "swap_loggers L L' W = Inr W'"
  shows "swap_loggers L L' W' = Inr W"
proof -
  from assms obtain l l' where l: "lw_loggers W L = Some l" "lw_loggers W L' = Some l'"
    by (auto simp: swap_loggers_def get_logger_def split: option.splits)
  with assms have W': "W' = W\<lparr>lw_loggers := (lw_loggers W)(L \<mapsto> l', L' \<mapsto> l)\<rparr>" by (simp add: swap_loggers_eq)
  have same: "(lw_loggers W)(L \<mapsto> l, L' \<mapsto> l') = lw_loggers W" using l by (auto simp: fun_eq_iff)
  show ?thesis
  proof (cases "L = L'")
    case True
    with l W' show ?thesis by (simp add: swap_loggers_def get_logger_def fun_upd_idem)
  next
    case False
    then have "lw_loggers W' L = Some l'" "lw_loggers W' L' = Some l" using W' by simp_all
    from swap_loggers_eq [OF this] False same W' show ?thesis by (simp add: fun_upd_twist)
  qed
qed

lemma assign_logger_copies:
  "lw_loggers W L \<noteq> None \<Longrightarrow> assign_logger L L' W = copy_logger L' L W"
  by (auto simp: assign_logger_def copy_logger_def get_logger_def swap_members_eq split: option.splits)

text \<open>A text is logged as formatting it would be.\<close>

lemma log_string_is_log_message: "log_string env fw tid L loc lvl msg W = log_message env fw tid L loc lvl (Inr msg) W"
  by (cases "get_logger L W") (simp_all add: log_string_def log_message_def Let_def)

lemma log_string_now: "log_string env fw tid L loc lvl msg W = log_at env fw tid L (os_now env) loc lvl msg W"
  by (simp add: log_string_def log_at_def)

text \<open>A worker that is stopped calls nothing any more.\<close>

lemma stopped_round:
  "pw_active pw \<longrightarrow> pw_joinable pw \<Longrightarrow> worker_round fn (stop_worker pw) W = Inr (False, W)"
  by (auto simp: worker_round_def stop_worker_def)

text \<open>A new logger has the settings of the registry; a name that is taken is an error.\<close>

lemma sync_create_configured:
  assumes "r_automatic_registration R"
  shows "\<exists>W'. sync_create env name sink i L R W =
      Inr (if map_of (r_loggers R) name \<noteq> None then None else Some (R\<lparr>r_loggers := (name, L) # r_loggers R\<rparr>), W') \<and>
    lw_loggers W' L = Some \<lparr>l_name = name, l_sinks = [i], l_level = configured_level name R,
      l_flush_level = r_registry_flush_level R, custom_err_handler = r_err_handler R,
      tracer = (if 0 < r_backtrace_n_messages R then bt_enable (r_backtrace_n_messages R) new_backtracer else new_backtracer)\<rparr> \<and>
    lw_sinks W' i = Some (sink_set_formatter (clone_formatter env (r_registry_formatter R)) sink)"
  using assms
  by (cases "r_err_handler R"; cases "0 < r_backtrace_n_messages R")
    (simp_all add: sync_create_def initialize_logger_def get_logger_def new_logger_def LogCore.set_formatter_def get_sink_def put_sink_def
      set_error_handler_def LogCore.set_level_def flush_on_def enable_backtrace_def modify_logger_def register_logger_def)

end
