(* ===== verification/LogDist.thy ===== *)
theory LogDist
  imports LogCore Decimal
begin

text \<open>
  Sinks in front of other sinks: \<open>sinks/dist_sink.h\<close> hands every message to its sinks, \<open>sinks/dup_filter_sink.h\<close> leaves out
  messages that repeat the last one. And three that need no other: \<open>null_sink.h\<close>, \<open>ostream_sink.h\<close>, \<open>callback_sink.h\<close>.
\<close>

section \<open>dist_sink\<close>

record dist_sink =
  ds_level :: level_enum
  ds_formatter :: pattern_formatter
  ds_sinks :: "nat list"

definition new_dist_sink :: "nat list \<Rightarrow> dist_sink" where
  "new_dist_sink sinks =
     \<lparr>ds_level = trace, ds_formatter = default_pattern_formatter local_time [CHR 0x0A], ds_sinks = sinks\<rparr>"

definition add_sink :: "nat \<Rightarrow> 'a dist_sink_scheme \<Rightarrow> 'a dist_sink_scheme" where
  "add_sink sub_sink s = s\<lparr>ds_sinks := ds_sinks s @ [sub_sink]\<rparr>"

definition remove_sink :: "nat \<Rightarrow> 'a dist_sink_scheme \<Rightarrow> 'a dist_sink_scheme" where
  "remove_sink sub_sink s = s\<lparr>ds_sinks := removeAll sub_sink (ds_sinks s)\<rparr>"

definition set_sinks :: "nat list \<Rightarrow> 'a dist_sink_scheme \<Rightarrow> 'a dist_sink_scheme" where
  "set_sinks sinks s = s\<lparr>ds_sinks := sinks\<rparr>"

fun dist_to_sinks :: "log_env \<Rightarrow> fwrite \<Rightarrow> nat list \<Rightarrow> log_msg \<Rightarrow> log_world \<Rightarrow> (log_msg \<times> log_world) res" where
  "dist_to_sinks env fw [] msg W = Inr (msg, W)"
| "dist_to_sinks env fw (i # is) msg W =
     bindR (get_sink i W) (\<lambda>sub_sink.
       if sink_should_log (msg_level msg) sub_sink
       then bindR (sink_log env fw msg sub_sink) (\<lambda>(msg, sub_sink). dist_to_sinks env fw is msg (put_sink i sub_sink W))
       else dist_to_sinks env fw is msg W)"

definition dist_sink_it ::
    "log_env \<Rightarrow> fwrite \<Rightarrow> log_msg \<Rightarrow> 'a dist_sink_scheme \<Rightarrow> log_world \<Rightarrow> (log_msg \<times> log_world) res" where
  "dist_sink_it env fw msg s W = dist_to_sinks env fw (ds_sinks s) msg W"

definition dist_flush :: "'a dist_sink_scheme \<Rightarrow> log_world \<Rightarrow> log_world res" where
  "dist_flush s W = flush_sinks (ds_sinks s) W"

primrec give_formatter :: "log_env \<Rightarrow> nat list \<Rightarrow> pattern_formatter \<Rightarrow> log_world \<Rightarrow> log_world res" where
  "give_formatter env [] f W = Inr W"
| "give_formatter env (i # is) f W =
     bindR (get_sink i W) (\<lambda>s. give_formatter env is f (put_sink i (sink_set_formatter (clone_formatter env f) s) W))"

definition dist_set_formatter ::
    "log_env \<Rightarrow> pattern_formatter \<Rightarrow> 'a dist_sink_scheme \<Rightarrow> log_world \<Rightarrow> ('a dist_sink_scheme \<times> log_world) res" where
  "dist_set_formatter env pf s W =
     (let s = s\<lparr>ds_formatter := pf\<rparr>
      in bindR (give_formatter env (ds_sinks s) (ds_formatter s) W) (\<lambda>W. Inr (s, W)))"

definition dist_set_pattern ::
    "log_env \<Rightarrow> string \<Rightarrow> 'a dist_sink_scheme \<Rightarrow> log_world \<Rightarrow> ('a dist_sink_scheme \<times> log_world) res" where
  "dist_set_pattern env pat = dist_set_formatter env (new_pattern_formatter env pat local_time [CHR 0x0A] Map.empty)"

section \<open>dup_filter_sink\<close>

text \<open>Times are nanoseconds; the limit is in microseconds.\<close>

record dup_filter_sink = dist_sink +
  max_skip_duration :: int
  last_msg_time :: int
  last_msg_payload :: string
  skip_counter :: nat
  skipped_msg_log_level :: level_enum

definition new_dup_filter_sink :: "int \<Rightarrow> dup_filter_sink" where
  "new_dup_filter_sink limit =
     \<lparr>ds_level = trace, ds_formatter = default_pattern_formatter local_time [CHR 0x0A], ds_sinks = [],
      max_skip_duration = limit, last_msg_time = 0, last_msg_payload = [], skip_counter = 0, skipped_msg_log_level = off\<rparr>"

definition dup_filter :: "log_msg \<Rightarrow> dup_filter_sink \<Rightarrow> bool" where
  "dup_filter msg s \<longleftrightarrow>
     max_skip_duration s * 1000 < msg_time msg - last_msg_time s \<or> msg_payload msg \<noteq> last_msg_payload s"

text \<open>\<open>snprintf\<close> with \<open>%u\<close>; the text has at most 39 of the 64 characters.\<close>

definition skipped_text :: "nat \<Rightarrow> string" where
  "skipped_text n = ''Skipped '' @ dec (n mod 2 ^ 32) @ '' duplicate messages..''"

definition skipped_note :: "log_env \<Rightarrow> nat \<Rightarrow> nat \<Rightarrow> level_enum \<Rightarrow> log_msg \<Rightarrow> log_msg" where
  "skipped_note env tid n lvl msg =
     new_log_msg tid (os_now env) (msg_source msg) (msg_logger_name msg) lvl (skipped_text n)"

definition dup_filter_sink_it ::
    "log_env \<Rightarrow> fwrite \<Rightarrow> nat \<Rightarrow> log_msg \<Rightarrow> dup_filter_sink \<Rightarrow> log_world \<Rightarrow> (log_msg \<times> dup_filter_sink \<times> log_world) res" where
  "dup_filter_sink_it env fw tid msg s W =
     (if \<not> dup_filter msg s
      then Inr (msg, s\<lparr>skip_counter := (skip_counter s + 1) mod 2 ^ 64, skipped_msg_log_level := msg_level msg\<rparr>, W)
      else bindR (if 0 < skip_counter s
                  then bindR (dist_sink_it env fw (skipped_note env tid (skip_counter s) (skipped_msg_log_level s) msg) s W)
                         (\<lambda>(_, W). Inr W)
                  else Inr W) (\<lambda>W.
           bindR (dist_sink_it env fw msg s W) (\<lambda>(msg', W).
             Inr (msg', s\<lparr>last_msg_time := msg_time msg, skip_counter := 0, last_msg_payload := msg_payload msg\<rparr>, W))))"

section \<open>Sinks of their own\<close>

definition null_sink_it :: "log_msg \<Rightarrow> 's \<Rightarrow> 's" where
  "null_sink_it msg s = s"

text \<open>A stream is what has been written and what of it is flushed.\<close>

record out_stream =
  os_text :: string
  os_flushed :: nat

definition stream_flush :: "out_stream \<Rightarrow> out_stream" where
  "stream_flush out = out\<lparr>os_flushed := length (os_text out)\<rparr>"

record ostream_sink =
  o_level :: level_enum
  o_formatter :: pattern_formatter
  force_flush :: bool

definition ostream_sink_it ::
    "log_env \<Rightarrow> log_msg \<Rightarrow> ostream_sink \<Rightarrow> out_stream \<Rightarrow> (log_msg \<times> ostream_sink \<times> out_stream) res" where
  "ostream_sink_it env msg s out =
     bindR (format_message env (o_formatter s) msg []) (\<lambda>(pf, msg, formatted).
       let out = out\<lparr>os_text := os_text out @ formatted\<rparr>
       in Inr (msg, s\<lparr>o_formatter := pf\<rparr>, if force_flush s then stream_flush out else out))"

definition callback_sink_it :: "(log_msg \<Rightarrow> log_world \<Rightarrow> log_world res) \<Rightarrow> log_msg \<Rightarrow> log_world \<Rightarrow> log_world res" where
  "callback_sink_it callback msg W = callback msg W"

section \<open>What a filter passes on\<close>

lemma skipped_text_fits: "length (skipped_text n) \<le> 39"
proof -
  have "n mod 2 ^ 32 < 10 ^ 10" by (rule less_trans [OF mod_less_divisor]) simp_all
  then have "length (dec (n mod 2 ^ 32)) \<le> 10" by (rule length_dec_le) simp
  then show ?thesis by (simp add: skipped_text_def)
qed

text \<open>A message repeats the one that was shown at \<open>t\<close> with the text \<open>p\<close>.\<close>

definition repeats :: "int \<Rightarrow> int \<Rightarrow> string \<Rightarrow> log_msg \<Rightarrow> bool" where
  "repeats limit t p m \<longleftrightarrow> msg_time m - t \<le> limit * 1000 \<and> msg_payload m = p"

text \<open>
  The messages in groups: those that repeat the last one shown are replaced by one note, with their number and the level
  of the last of them, in front of the next message that is shown.
\<close>

function without_repeats :: "log_env \<Rightarrow> nat \<Rightarrow> int \<Rightarrow> int \<Rightarrow> string \<Rightarrow> log_msg list \<Rightarrow> log_msg list" where
  "without_repeats env tid limit t p ms =
     (case dropWhile (repeats limit t p) ms of
        [] \<Rightarrow> []
      | m # rest \<Rightarrow>
          (let skipped = takeWhile (repeats limit t p) ms
           in if skipped = [] then [] else [skipped_note env tid (length skipped) (msg_level (last skipped)) m]) @
          m # without_repeats env tid limit (msg_time m) (msg_payload m) rest)"
  by pat_completeness auto
termination
proof (relation "measure (\<lambda>(env, tid, limit, t, p, ms). length ms)")
  fix env :: log_env and tid :: nat and limit t :: int and p :: string and ms :: "log_msg list" and m :: log_msg and rest :: "log_msg list"
  assume "dropWhile (repeats limit t p) ms = m # rest"
  then have "Suc (length rest) \<le> length ms" using length_dropWhile_le [of "repeats limit t p" ms] by simp
  then show "((env, tid, limit, msg_time m, msg_payload m, rest), env, tid, limit, t, p, ms)
    \<in> measure (\<lambda>(env, tid, limit, t, p, ms). length ms)" by simp
qed simp

declare without_repeats.simps [simp del]

primrec dist_all :: "log_env \<Rightarrow> fwrite \<Rightarrow> nat list \<Rightarrow> log_msg list \<Rightarrow> log_world \<Rightarrow> log_world res" where
  "dist_all env fw is [] W = Inr W"
| "dist_all env fw is (m # ms) W = bindR (dist_to_sinks env fw is m W) (\<lambda>(_, W). dist_all env fw is ms W)"

primrec dup_filter_run ::
    "log_env \<Rightarrow> fwrite \<Rightarrow> nat \<Rightarrow> log_msg list \<Rightarrow> dup_filter_sink \<Rightarrow> log_world \<Rightarrow> (dup_filter_sink \<times> log_world) res" where
  "dup_filter_run env fw tid [] s W = Inr (s, W)"
| "dup_filter_run env fw tid (m # ms) s W =
     bindR (dup_filter_sink_it env fw tid m s W) (\<lambda>(_, s, W). dup_filter_run env fw tid ms s W)"

text \<open>The same with \<open>n\<close> messages skipped before, the last of them of level \<open>lvl\<close>.\<close>

definition pending_repeats ::
    "log_env \<Rightarrow> nat \<Rightarrow> int \<Rightarrow> int \<Rightarrow> string \<Rightarrow> nat \<Rightarrow> level_enum \<Rightarrow> log_msg list \<Rightarrow> log_msg list" where
  "pending_repeats env tid limit t p n lvl ms =
     (case dropWhile (repeats limit t p) ms of
        [] \<Rightarrow> []
      | m # rest \<Rightarrow>
          (let skipped = takeWhile (repeats limit t p) ms
           in if n + length skipped = 0 then []
              else [skipped_note env tid (n + length skipped) (if skipped = [] then lvl else msg_level (last skipped)) m]) @
          m # without_repeats env tid limit (msg_time m) (msg_payload m) rest)"

lemma pending_none: "pending_repeats env tid limit t p 0 lvl ms = without_repeats env tid limit t p ms"
  by (subst without_repeats.simps; cases "takeWhile (repeats limit t p) ms"; cases "dropWhile (repeats limit t p) ms")
    (simp_all add: pending_repeats_def del: dropWhile_eq_Nil_conv)

lemma pending_skip:
  "repeats limit t p m \<Longrightarrow> pending_repeats env tid limit t p n lvl (m # ms) = pending_repeats env tid limit t p (n + 1) (msg_level m) ms"
  by (cases "dropWhile (repeats limit t p) ms"; cases "takeWhile (repeats limit t p) ms")
    (simp_all add: pending_repeats_def Let_def del: dropWhile_eq_Nil_conv)

lemma pending_show:
  "\<not> repeats limit t p m \<Longrightarrow> pending_repeats env tid limit t p n lvl (m # ms) =
     (if 0 < n then [skipped_note env tid n lvl m] else []) @ m # without_repeats env tid limit (msg_time m) (msg_payload m) ms"
  by (simp add: pending_repeats_def)

lemma dist_all_append:
  "dist_all env fw is (ms @ ms') W = bindR (dist_all env fw is ms W) (dist_all env fw is ms')"
proof (induction ms arbitrary: W)
  case (Cons m ms)
  then show ?case by (cases "dist_to_sinks env fw is m W") (auto split: prod.split)
qed simp

lemma dup_filter_run_eq:
  "skip_counter s + length ms < 2 ^ 64 \<Longrightarrow>
   bindR (dup_filter_run env fw tid ms s W) (\<lambda>(s, W). Inr W) =
     dist_all env fw (ds_sinks s)
       (pending_repeats env tid (max_skip_duration s) (last_msg_time s) (last_msg_payload s) (skip_counter s) (skipped_msg_log_level s) ms) W"
proof (induction ms arbitrary: s W)
  case Nil
  then show ?case by (simp add: pending_repeats_def)
next
  case (Cons m ms)
  let ?n = "skip_counter s"
  show ?case
  proof (cases "repeats (max_skip_duration s) (last_msg_time s) (last_msg_payload s) m")
    case True
    then have f: "\<not> dup_filter m s" by (simp add: dup_filter_def repeats_def)
    let ?s = "s\<lparr>skip_counter := ?n + 1, skipped_msg_log_level := msg_level m\<rparr>"
    have "(?n + 1) mod 2 ^ 64 = ?n + 1" using Cons.prems by simp
    with f have "dup_filter_sink_it env fw tid m s W = Inr (m, ?s, W)" by (simp add: dup_filter_sink_it_def)
    with Cons.IH [of ?s W] Cons.prems pending_skip [OF True] show ?thesis by simp
  next
    case False
    then have f: "dup_filter m s" by (auto simp: dup_filter_def repeats_def)
    let ?s = "s\<lparr>last_msg_time := msg_time m, skip_counter := 0, last_msg_payload := msg_payload m\<rparr>"
    have ih: "bindR (dup_filter_run env fw tid ms ?s W') (\<lambda>(s, W). Inr W) = dist_all env fw (ds_sinks s)
        (without_repeats env tid (max_skip_duration s) (msg_time m) (msg_payload m) ms) W'" for W'
      using Cons.IH [of ?s W'] Cons.prems by (simp add: pending_none)
    show ?thesis
    proof (cases "0 < ?n")
      case True
      let ?note = "skipped_note env tid ?n (skipped_msg_log_level s) m"
      show ?thesis
      proof (cases "dist_to_sinks env fw (ds_sinks s) ?note W")
        case (Inr r)
        obtain m1 W1 where r: "r = (m1, W1)" by fastforce
        show ?thesis
          using f True Inr r ih pending_show [OF False]
          by (cases "dist_to_sinks env fw (ds_sinks s) m W1") (auto simp: dup_filter_sink_it_def dist_sink_it_def)
      qed (use f True pending_show [OF False] in \<open>simp add: dup_filter_sink_it_def dist_sink_it_def\<close>)
    next
      case n: False
      show ?thesis
        using f n ih pending_show [OF False]
        by (cases "dist_to_sinks env fw (ds_sinks s) m W") (auto simp: dup_filter_sink_it_def dist_sink_it_def)
    qed
  qed
qed

end
