(* ===== verification/LogHex.thy ===== *)
theory LogHex
  imports NetFormat
begin

text \<open>
  Dumps of bytes in hexadecimal (\<open>spdlog/fmt/bin_to_hex.h\<close>): the flags of a replacement field, the loop that prints the bytes,
  and the text as lines of bytes.
\<close>

section \<open>The formatter\<close>

record dump_info =
  di_bytes :: string
  size_per_line :: nat

definition to_hex :: "string \<Rightarrow> nat \<Rightarrow> dump_info" where
  "to_hex bytes n = \<lparr>di_bytes = bytes, size_per_line = n\<rparr>"

record hex_formatter =
  delimiter :: char
  put_newlines :: bool
  put_delimiters :: bool
  use_uppercase :: bool
  put_positions :: bool
  show_ascii :: bool

definition new_hex_formatter :: hex_formatter where
  "new_hex_formatter = \<lparr>delimiter = CHR '' '', put_newlines = True, put_delimiters = True, use_uppercase = False,
     put_positions = True, show_ascii = False\<rparr>"

text \<open>The rest of the format string, from the closing brace on.\<close>

fun hex_parse :: "string \<Rightarrow> hex_formatter \<Rightarrow> hex_formatter \<times> string" where
  "hex_parse [] h = (h, [])"
| "hex_parse (c # cs) h =
     (if c = CHR ''}'' then (h, c # cs)
      else hex_parse cs
        (if c = CHR ''X'' then h\<lparr>use_uppercase := True\<rparr>
         else if c = CHR ''s'' then h\<lparr>put_delimiters := False\<rparr>
         else if c = CHR ''p'' then h\<lparr>put_positions := False\<rparr>
         else if c = CHR ''n'' then h\<lparr>put_newlines := False, show_ascii := False\<rparr>
         else if c = CHR ''a'' then (if put_newlines h then h\<lparr>show_ascii := True\<rparr> else h)
         else h))"

definition hex_chars :: "hex_formatter \<Rightarrow> string" where
  "hex_chars h = (if use_uppercase h then ''0123456789ABCDEF'' else ''0123456789abcdef'')"

definition hex_byte :: "hex_formatter \<Rightarrow> char \<Rightarrow> string" where
  "hex_byte h c =
     (let ch = (word_of_nat (of_char c) :: 8 word)
      in [hex_chars h ! unat (drop_bit 4 ch AND 0x0F), hex_chars h ! unat (ch AND 0x0F)])"

text \<open>\<open>std::isprint\<close> in the C locale.\<close>

definition isprint :: "char \<Rightarrow> bool" where
  "isprint c \<longleftrightarrow> 32 \<le> (of_char c :: nat) \<and> (of_char c :: nat) < 127"

definition printable :: "string \<Rightarrow> string" where
  "printable = map (\<lambda>c. if isprint c then c else CHR ''.'')"

definition put_newline :: "write_loc \<Rightarrow> hex_formatter \<Rightarrow> nat \<Rightarrow> string \<Rightarrow> string res" where
  "put_newline loc h pos out =
     (let out = out @ [CHR 0x0A]
      in if put_positions h
         then bindR (vformat_to loc ''{:04X}: '' (make_format_args [Ulong_long_arg (word_of_nat pos)])) (\<lambda>s. Inr (out @ s))
         else Inr out)"

text \<open>The loop over the bytes: what is left of them, where it is, where the line starts.\<close>

primrec hex_loop ::
    "write_loc \<Rightarrow> hex_formatter \<Rightarrow> int \<Rightarrow> string \<Rightarrow> string \<Rightarrow> nat \<Rightarrow> nat \<Rightarrow> string \<Rightarrow> (nat \<times> string) res" where
  "hex_loop loc h n bytes [] i start_of_line out = Inr (start_of_line, out)"
| "hex_loop loc h n bytes (c # cs) i start_of_line out =
     (if put_newlines h \<and> (i = 0 \<or> n \<le> int i - int start_of_line)
      then let out = (if show_ascii h \<and> i \<noteq> 0
                      then out @ [delimiter h, delimiter h] @ printable (take (i - start_of_line) (drop start_of_line bytes)) else out)
           in bindR (put_newline loc h i out) (\<lambda>out. hex_loop loc h n bytes cs (i + 1) i (out @ hex_byte h c))
      else hex_loop loc h n bytes cs (i + 1) start_of_line
             (out @ (if put_delimiters h \<and> i \<noteq> 0 then [delimiter h] else []) @ hex_byte h c))"

definition hex_format :: "write_loc \<Rightarrow> hex_formatter \<Rightarrow> dump_info \<Rightarrow> string \<Rightarrow> string res" where
  "hex_format loc h the_range out =
     (let n = sint (word_of_nat (size_per_line the_range) :: 32 word); bytes = di_bytes the_range
      in bindR (hex_loop loc h n bytes bytes 0 0 out) (\<lambda>(start_of_line, out).
           if show_ascii h
           then let blanks = (if n < int (length bytes)
                              then replicate (nat (n - (int (length bytes) - int start_of_line)))
                                     (if put_delimiters h then [delimiter h, delimiter h, delimiter h] else [delimiter h, delimiter h])
                              else [])
                in Inr (out @ concat blanks @ [delimiter h, delimiter h] @ printable (drop start_of_line bytes))
           else Inr out))"

section \<open>Positions\<close>

definition pos_text :: "nat \<Rightarrow> string" where
  "pos_text pos = (let ds = base_digits 4 True pos in replicate (4 - length ds) CHR ''0'' @ ds) @ '': ''"

definition pos_pad :: spec_desc where
  "pos_pad = (zero_pad 4)\<lparr>d_type := Some CHR ''X''\<rparr>"

lemma pos_pad_ok: "desc_ok ulong_long_type pos_pad"
  by (simp add: desc_ok_def pos_pad_def zero_pad_def integral_types_def type_table_def int_max_def)

lemma int_output_pos:
  assumes "spec_view sp = desc_view pos_pad" and "0 \<le> i"
  shows "int_output i sp @ '': '' = pos_text (nat i)"
proof -
  have v: "spec_align sp = align_numeric" "spec_sign sp = sign_none" "\<not> spec_alt sp" "specs_width sp = 4"
    "specs_precision sp = -1" "spec_type sp = pres_hex" "spec_upper sp"
    using assms(1) by (simp_all add: spec_view_def desc_view_def pos_pad_def zero_pad_def desc_alignment_def desc_sign_def desc_type_def type_table_def)
  show ?thesis
    using assms(2)
    by (simp add: int_output_def v Let_def aligned_def pad_left_of_def int_body_def sign_text_def base_prefix_def
        zeros_text_def digits_text_def pos_text_def)
qed

lemma pos_formats:
  assumes "pos < 2 ^ 64"
  shows "vformat_to loc ''{:04X}: '' (make_format_args [Ulong_long_arg (word_of_nat pos)]) = Inr (pos_text pos)"
proof -
  let ?a = "make_format_args [Ulong_long_arg (word_of_nat pos)]" and ?ps = "[Field Next_arg (Some pos_pad), Literal '': '']"
  have t: "template_text ?ps = ''{:04X}: ''"
    by (simp add: template_text_def double_braces_def desc_text_def pos_pad_def zero_pad_def flag_text_def precision_text_def
        dec.simps ascii_digit_def char_digits)
  obtain sp where a: "apply_desc pos_pad default_dynamic_specs 1 = Inr (sp, 1)" and v: "spec_view sp = desc_view pos_pad"
    using apply_desc_static [OF pos_pad_ok, of 1] by (auto simp: pos_pad_def zero_pad_def)
  have k: "dynamic_width sp = id_none" "dynamic_precision sp = id_none" using v by (simp_all add: spec_view_def desc_view_def)
  have r: "resolve_dynamic sp ?a = Inr sp" by (simp add: resolve_dynamic_def handle_dynamic_spec_def k)
  have u: "uint (word_of_nat pos :: 64 word) = int pos" using assms by (simp add: unsigned_of_nat take_bit_nat_eq_self flip: of_nat_take_bit)
  have g: "get_arg ?a 0 = Some (Ulong_long_arg (word_of_nat pos))" by (simp add: get_arg_def make_format_args_def)
  have "field_output ?a 0 Next_arg (Some pos_pad) = Some (int_output (int pos) sp, 1)"
    using pos_pad_ok a r u g by (simp add: field_output_def) (simp add: pos_pad_def zero_pad_def)
  then have "template_output ?a 0 ?ps = Some (pos_text pos)"
    using int_output_pos [OF v, of "int pos"] by simp
  from vformat_to_template [OF this, of loc] show ?thesis unfolding t .
qed

definition newline_text :: "hex_formatter \<Rightarrow> nat \<Rightarrow> string" where
  "newline_text h pos = CHR 0x0A # (if put_positions h then pos_text pos else [])"

lemma put_newline_eq: "pos < 2 ^ 64 \<Longrightarrow> put_newline loc h pos out = Inr (out @ newline_text h pos)"
  by (simp add: put_newline_def newline_text_def pos_formats)

section \<open>The text as lines\<close>

fun chunks :: "nat \<Rightarrow> 'a list \<Rightarrow> 'a list list" where
  "chunks n xs = (if n = 0 \<or> xs = [] then [] else take n xs # chunks n (drop n xs))"

declare chunks.simps [simp del]

definition more_bytes :: "hex_formatter \<Rightarrow> string \<Rightarrow> string" where
  "more_bytes h cs = concat (map (\<lambda>c. (if put_delimiters h then [delimiter h] else []) @ hex_byte h c) cs)"

definition line_bytes :: "hex_formatter \<Rightarrow> string \<Rightarrow> string" where
  "line_bytes h cs = (case cs of [] \<Rightarrow> [] | c # cs \<Rightarrow> hex_byte h c @ more_bytes h cs)"

definition line_ascii :: "hex_formatter \<Rightarrow> string \<Rightarrow> string" where
  "line_ascii h cs = (if show_ascii h then [delimiter h, delimiter h] @ printable cs else [])"

text \<open>Lines of \<open>n\<close> bytes from the position \<open>pos\<close> on; the last one without its characters.\<close>

fun lines_text :: "hex_formatter \<Rightarrow> nat \<Rightarrow> nat \<Rightarrow> string list \<Rightarrow> string" where
  "lines_text h n pos [] = []"
| "lines_text h n pos [l] = newline_text h pos @ line_bytes h l"
| "lines_text h n pos (l # ls) = newline_text h pos @ line_bytes h l @ line_ascii h l @ lines_text h n (pos + n) ls"

text \<open>The last of several lines is filled up in front of its characters.\<close>

definition last_ascii :: "hex_formatter \<Rightarrow> nat \<Rightarrow> string list \<Rightarrow> string" where
  "last_ascii h n ls =
     (if show_ascii h
      then (if 1 < length ls then replicate ((n - length (last ls)) * (if put_delimiters h then 3 else 2)) (delimiter h) else []) @
        line_ascii h (if ls = [] then [] else last ls)
      else [])"

lemma more_bytes_Cons: "more_bytes h (c # cs) = (if put_delimiters h then [delimiter h] else []) @ hex_byte h c @ more_bytes h cs"
  by (simp add: more_bytes_def)

text \<open>Within a line.\<close>

lemma hex_loop_line:
  "0 < i \<Longrightarrow> start < i \<Longrightarrow> put_newlines h \<longrightarrow> int i - int start + int (length xs) \<le> n \<Longrightarrow>
   hex_loop loc h n bytes (xs @ rest) i start out = hex_loop loc h n bytes rest (i + length xs) start (out @ more_bytes h xs)"
proof (induction xs arbitrary: i out)
  case (Cons x xs)
  then have "\<not> (put_newlines h \<and> (i = 0 \<or> n \<le> int i - int start))" by auto
  then have "hex_loop loc h n bytes ((x # xs) @ rest) i start out = hex_loop loc h n bytes (xs @ rest) (i + 1) start
      (out @ (if put_delimiters h \<and> i \<noteq> 0 then [delimiter h] else []) @ hex_byte h x)"
    by (simp only: append_Cons hex_loop.simps if_not_P if_False)
  moreover have "hex_loop loc h n bytes (xs @ rest) (i + 1) start out' = hex_loop loc h n bytes rest (i + 1 + length xs) start (out' @ more_bytes h xs)" for out'
    using Cons.prems by (intro Cons.IH) auto
  ultimately show ?case using Cons.prems(1) by (simp add: more_bytes_Cons)
qed (simp add: more_bytes_def)

text \<open>From the start of a line on.\<close>

lemma hex_loop_lines:
  assumes "put_newlines h" and "0 < n"
  shows "cs \<noteq> [] \<Longrightarrow> bytes = pre @ cs \<Longrightarrow> length bytes \<le> 2 ^ 64 \<Longrightarrow> start \<le> length pre \<Longrightarrow>
    pre = [] \<or> length pre - start = n \<Longrightarrow>
    hex_loop loc h (int n) bytes cs (length pre) start out =
      Inr (length bytes - length (last (chunks n cs)),
        out @ (if pre = [] then [] else line_ascii h (drop start pre)) @ lines_text h n (length pre) (chunks n cs))"
proof (induction "length cs" arbitrary: cs pre start out rule: less_induct)
  case less
  obtain c cs' where cs: "cs = c # cs'" using less.prems(1) by (cases cs) auto
  let ?i = "length pre" and ?l = "take n cs"
  have i: "?i < 2 ^ 64" using less.prems(2,3) cs by simp
  have head: "put_newlines h \<and> (?i = 0 \<or> int n \<le> int ?i - int start)" using assms less.prems(4,5) by auto
  have mid: "take (?i - start) (drop start bytes) = drop start pre" using less.prems(2,4) by simp
  let ?out = "out @ (if pre = [] then [] else line_ascii h (drop start pre)) @ newline_text h ?i @ hex_byte h c"
  have 1: "hex_loop loc h (int n) bytes cs ?i start out = hex_loop loc h (int n) bytes cs' (?i + 1) ?i ?out"
    using head i by (simp add: cs put_newline_eq mid line_ascii_def Let_def)
  define xs where "xs = take (n - 1) cs'"
  define rest where "rest = drop n cs"
  obtain k where n: "n = Suc k" using assms(2) by (cases n) auto
  have l: "?l = c # xs" "cs' = xs @ rest" by (simp_all add: xs_def rest_def cs n)
  have "hex_loop loc h (int n) bytes (xs @ rest) (?i + 1) ?i ?out =
      hex_loop loc h (int n) bytes rest (?i + 1 + length xs) ?i (?out @ more_bytes h xs)"
    by (rule hex_loop_line) (simp_all add: xs_def n)
  with 1 l have 2: "hex_loop loc h (int n) bytes cs ?i start out =
      hex_loop loc h (int n) bytes rest (length (pre @ ?l)) ?i (?out @ more_bytes h xs)" by simp
  have ch: "chunks n cs = ?l # chunks n rest" using assms(2) less.prems(1) by (simp add: chunks.simps [of n cs] rest_def)
  have lb: "line_bytes h ?l = hex_byte h c @ more_bytes h xs" by (simp add: line_bytes_def l(1))
  show ?case
  proof (cases "rest = []")
    case True
    then have "chunks n rest = []" by (simp add: chunks.simps)
    moreover have "length bytes - length ?l = ?i" using True less.prems(2) l cs by simp
    ultimately show ?thesis using 2 True ch lb by simp
  next
    case False
    have full: "length ?l = n" using False by (auto simp: rest_def)
    have b: "bytes = (pre @ ?l) @ rest" using less.prems(2) l cs by simp
    have ne: "pre @ ?l \<noteq> []" using l by simp
    have "length rest < length cs" using assms(2) cs by (simp add: rest_def n)
    from less.hyps [OF this False b less.prems(3), of ?i "?out @ more_bytes h xs"] full ne assms(2) less.prems(1)
    have 3: "hex_loop loc h (int n) bytes rest (length (pre @ ?l)) ?i (?out @ more_bytes h xs) =
      Inr (length bytes - length (last (chunks n rest)),
        (?out @ more_bytes h xs) @ line_ascii h ?l @ lines_text h n (?i + n) (chunks n rest))" by simp
    have "chunks n rest \<noteq> []" using False assms(2) by (simp add: chunks.simps [of n rest])
    then obtain a as where "chunks n rest = a # as" by (cases "chunks n rest") auto
    with 2 3 ch lb show ?thesis by simp
  qed
qed

text \<open>Without line breaks.\<close>

lemma hex_loop_one_line:
  assumes "\<not> put_newlines h"
  shows "hex_loop loc h n bytes cs 0 start out = Inr (start, out @ line_bytes h cs)"
proof (cases cs)
  case (Cons c xs)
  have more: "0 < i \<Longrightarrow> hex_loop loc h n bytes xs i start out = Inr (start, out @ more_bytes h xs)" for i out
    using assms by (induction xs arbitrary: i out) (simp_all add: more_bytes_Cons, simp_all add: more_bytes_def)
  from assms more [of 1] show ?thesis by (simp add: Cons line_bytes_def)
qed (simp add: line_bytes_def)

definition dump_text :: "hex_formatter \<Rightarrow> nat \<Rightarrow> string \<Rightarrow> string" where
  "dump_text h n bytes =
     (if put_newlines h then lines_text h n 0 (chunks n bytes) @ last_ascii h n (chunks n bytes) else line_bytes h bytes)"

lemma chunks_last:
  "0 < n \<Longrightarrow> cs \<noteq> [] \<Longrightarrow> last (chunks n cs) = drop (length cs - length (last (chunks n cs))) cs \<and>
     length (last (chunks n cs)) \<le> length cs \<and> length (last (chunks n cs)) \<le> n \<and> chunks n cs \<noteq> []"
proof (induction "length cs" arbitrary: cs rule: less_induct)
  case less
  then have ch: "chunks n cs = take n cs # chunks n (drop n cs)" by (simp add: chunks.simps [of n cs])
  show ?case
  proof (cases "drop n cs = []")
    case True
    with ch show ?thesis by (simp add: chunks.simps [of n "[]"])
  next
    case False
    have "length (drop n cs) < length cs" using less.prems by simp
    from less.hyps [OF this less.prems(1) False] have ih: "last (chunks n (drop n cs)) = drop (length (drop n cs) - length (last (chunks n (drop n cs)))) (drop n cs)"
      "length (last (chunks n (drop n cs))) \<le> length (drop n cs)" "length (last (chunks n (drop n cs))) \<le> n" "chunks n (drop n cs) \<noteq> []" by simp_all
    have "length (drop n cs) - length (last (chunks n (drop n cs))) + n = length cs - length (last (chunks n (drop n cs)))"
      using ih(2) False by simp
    with ih ch show ?thesis by simp
  qed
qed

lemma chunks_several: "0 < n \<Longrightarrow> 1 < length (chunks n cs) \<longleftrightarrow> n < length cs"
  by (cases "cs = []"; cases "drop n cs = []") (simp_all add: chunks.simps [of n cs] chunks.simps [of n "drop n cs"] chunks.simps [of n "[]"])

lemma concat_replicate_blanks: "concat (replicate k (replicate m c)) = replicate (k * m) c"
  by (induction k) (simp_all add: replicate_add)

lemma hex_format_text:
  assumes "0 < size_per_line d" and "size_per_line d < 2 ^ 31" and "length (di_bytes d) \<le> 2 ^ 64"
    and "show_ascii h \<longrightarrow> put_newlines h"
  shows "hex_format loc h d out = Inr (out @ dump_text h (size_per_line d) (di_bytes d))"
proof -
  let ?n = "size_per_line d" and ?b = "di_bytes d"
  have s: "sint (word_of_nat ?n :: 32 word) = int ?n" 
  proof -
    have "(word_of_nat ?n :: 32 word) = word_of_int (int ?n)" by simp
    then show ?thesis using assms(2) by (simp only: sint_sbintrunc') (simp add: signed_take_bit_int_eq_self)
  qed
  show ?thesis
  proof (cases "put_newlines h")
    case False
    with assms(4) have "\<not> show_ascii h" by simp
    with False show ?thesis by (simp add: hex_format_def hex_loop_one_line dump_text_def)
  next
    case True
    show ?thesis
    proof (cases "?b = []")
      case empty: True
      with True show ?thesis by (simp add: hex_format_def s dump_text_def chunks.simps last_ascii_def line_ascii_def printable_def)
    next
      case False
      let ?l = "last (chunks ?n ?b)"
      have l: "hex_loop loc h (int ?n) ?b ?b 0 0 out = Inr (length ?b - length ?l, out @ lines_text h ?n 0 (chunks ?n ?b))"
        using hex_loop_lines [OF True assms(1) False, of ?b "[]" 0 loc out] assms(3) by simp
      note c = chunks_last [OF assms(1) False]
      have d: "drop (length ?b - length ?l) ?b = ?l" "int (length ?b) - int (length ?b - length ?l) = int (length ?l)"
        using c by auto
      have r: "[delimiter h, delimiter h, delimiter h] = replicate 3 (delimiter h)" "[delimiter h, delimiter h] = replicate 2 (delimiter h)"
        by (simp_all add: numeral_3_eq_3 numeral_2_eq_2)
      have k: "nat (int ?n - int (length ?l)) = ?n - length ?l" by simp
      show ?thesis
      proof (cases "show_ascii h")
        case False
        with True l show ?thesis by (simp add: hex_format_def s dump_text_def last_ascii_def)
      next
        case sa: True
        have "(if int ?n < int (length ?b) then replicate (?n - length ?l) (if put_delimiters h then replicate 3 (delimiter h) else replicate 2 (delimiter h)) else []) =
          replicate (if ?n < length ?b then ?n - length ?l else 0) (replicate (if put_delimiters h then 3 else 2) (delimiter h))" by simp
        then show ?thesis
          using True sa l c chunks_several [OF assms(1), of ?b]
          by (simp add: hex_format_def s d k r(1) dump_text_def last_ascii_def line_ascii_def)
            (simp add: r(2) concat_replicate_blanks Let_def)
      qed
    qed
  qed
qed

section \<open>Reading a dump\<close>

definition hex_value :: "char \<Rightarrow> nat" where
  "hex_value c = (let v = (of_char c :: nat) in if v < 58 then v - 48 else if v < 71 then v - 55 else v - 87)"

lemma hex_value_digit: "d < 16 \<Longrightarrow> hex_value (hex_chars h ! d) = d"
proof -
  assume "d < 16"
  then have "d \<in> set [0..<16]" by simp
  then show ?thesis by (cases "use_uppercase h") (auto simp: hex_chars_def hex_value_def upt_rec Let_def)
qed

lemma hex_byte_value:
  assumes "hex_byte h c = [x, y]"
  shows "char_of (16 * hex_value x + hex_value y) = c"
proof -
  let ?w = "word_of_nat (of_char c) :: 8 word"
  have b: "(of_char c :: nat) < 256" by (rule nat_of_char_less_256)
  then have u: "unat ?w = of_char c" by (simp add: unat_of_nat)
  have m: "(k::nat) AND 15 = k mod 16" for k
    using take_bit_eq_mask [of 4 k] by (simp add: take_bit_eq_mod mask_eq_exp_minus_1)
  have "unat (drop_bit 4 ?w AND 0x0F) = of_char c div 16 mod 16" "unat (?w AND 0x0F) = of_char c mod 16"
    by (simp_all add: unsigned_and_eq unsigned_drop_bit_eq u m drop_bit_eq_div unat_div)
  moreover have lt: "(of_char c :: nat) div 16 < 16" using b by (simp add: less_mult_imp_div_less)
  ultimately have d: "unat (drop_bit 4 ?w AND 0x0F) = of_char c div 16" "unat (?w AND 0x0F) = of_char c mod 16" by simp_all
  from d assms hex_value_digit [OF lt, of h] hex_value_digit [of "of_char c mod 16" h]
  show ?thesis by (auto simp: hex_byte_def Let_def)
qed

fun unhex :: "string \<Rightarrow> string" where
  "unhex (x # y # ds) = char_of (16 * hex_value x + hex_value y) # unhex ds"
| "unhex _ = []"

lemma unhex_bytes:
  assumes "\<not> put_delimiters h"
  shows "unhex (line_bytes h cs) = cs"
proof -
  have "unhex (more_bytes h cs) = cs"
  proof (induction cs)
    case (Cons c cs)
    obtain x y where xy: "hex_byte h c = [x, y]" by (simp add: hex_byte_def Let_def)
    with Cons hex_byte_value [OF xy] assms show ?case by (simp add: more_bytes_Cons)
  qed (simp add: more_bytes_def)
  with assms show ?thesis by (cases cs) (simp_all add: line_bytes_def more_bytes_Cons)
qed

end
