(* ===== verification/LogNet.thy ===== *)
theory LogNet
  imports LogConsole Net "HOL-Library.Signed_Division"
begin

text \<open>
  Sinks that send the log over the network: \<open>details/tcp_client.h\<close>, \<open>sinks/tcp_sink.h\<close>, \<open>details/udp_client.h\<close>,
  \<open>sinks/udp_sink.h\<close>. The system calls are parameters over an abstract state, which holds \<open>errno\<close> as well; what the proofs
  rely on are the contracts below.
\<close>

section \<open>System calls\<close>

record addrinfo =
  ai_family :: int
  ai_socktype :: int
  ai_protocol :: int
  ai_addr :: string

record timeval =
  tv_sec :: int
  tv_usec :: int

datatype net_option = SO_RCVTIMEO timeval | SO_SNDTIMEO timeval | NODELAY int | SO_SNDBUF int

text \<open>\<open>errno\<close> can be read and set. A call with a result returns it with the next state.\<close>

record 'k net_os =
  get_errno :: "'k \<Rightarrow> errno"
  put_errno :: "errno \<Rightarrow> 'k \<Rightarrow> 'k"
  net_getaddrinfo :: "string \<Rightarrow> string \<Rightarrow> 'k \<Rightarrow> (int \<times> addrinfo list) \<times> 'k"
  net_socket :: "int \<Rightarrow> int \<Rightarrow> int \<Rightarrow> 'k \<Rightarrow> fd \<times> 'k"
  net_connect :: "fd \<Rightarrow> string \<Rightarrow> 'k \<Rightarrow> int \<times> 'k"
  net_getfl :: "fd \<Rightarrow> 'k \<Rightarrow> int \<times> 'k"
  net_setfl :: "fd \<Rightarrow> int \<Rightarrow> 'k \<Rightarrow> int \<times> 'k"
  net_setfd :: "fd \<Rightarrow> int \<Rightarrow> 'k \<Rightarrow> int \<times> 'k"
  net_select :: "fd \<Rightarrow> timeval \<Rightarrow> 'k \<Rightarrow> int \<times> 'k"
  net_so_error :: "fd \<Rightarrow> 'k \<Rightarrow> (int \<times> int) \<times> 'k"
  net_setsockopt :: "fd \<Rightarrow> net_option \<Rightarrow> 'k \<Rightarrow> int \<times> 'k"
  net_send :: "fd \<Rightarrow> string \<Rightarrow> 'k \<Rightarrow> int \<times> 'k"
  net_sendto :: "fd \<Rightarrow> sockaddr_in \<Rightarrow> string \<Rightarrow> 'k \<Rightarrow> int \<times> 'k"
  net_close :: "fd \<Rightarrow> 'k \<Rightarrow> 'k"
  net_aton :: "string \<Rightarrow> u32 option"

definition EISCONN :: errno where "EISCONN = 106"
definition ETIMEDOUT :: errno where "ETIMEDOUT = 110"
definition EINPROGRESS :: errno where "EINPROGRESS = 115"
definition O_NONBLOCK :: int where "O_NONBLOCK = 2048"
definition SOCK_CLOEXEC :: int where "SOCK_CLOEXEC = 524288"
definition FD_CLOEXEC :: int where "FD_CLOEXEC = 1"

text \<open>An \<open>fd_set\<close> has bits for the descriptors below \<open>FD_SETSIZE\<close>.\<close>

definition FD_SETSIZE :: fd where "FD_SETSIZE = 1024"

datatype net_error =
    Getaddrinfo_failed int
  | Connect_failed errno
  | Write_failed errno
  | Create_socket_failed
  | Setsockopt_failed
  | Invalid_address
  | Sendto_failed errno

section \<open>tcp_client\<close>

record tcp_client =
  tcp_socket :: fd

definition new_tcp_client :: tcp_client where
  "new_tcp_client = \<lparr>tcp_socket = -1\<rparr>"

definition is_connected :: "tcp_client \<Rightarrow> bool" where
  "is_connected c \<longleftrightarrow> tcp_socket c \<noteq> -1"

definition tcp_close :: "'k net_os \<Rightarrow> tcp_client \<Rightarrow> 'k \<Rightarrow> tcp_client \<times> 'k" where
  "tcp_close N c k =
     (if is_connected c then let k = net_close N (tcp_socket c) k in (c\<lparr>tcp_socket := -1\<rparr>, k) else (c, k))"

definition connect_with_timeout :: "'k net_os \<Rightarrow> fd \<Rightarrow> string \<Rightarrow> timeval \<Rightarrow> 'k \<Rightarrow> (int \<times> 'k) res" where
  "connect_with_timeout N sockfd addr tv k =
     (if tv_sec tv = 0 \<and> tv_usec tv = 0
      then let (rv, k) = net_connect N sockfd addr k
           in if rv < 0 \<and> get_errno N k = EISCONN then Inr (0, k) else Inr (rv, k)
      else let (orig_flags, k) = net_getfl N sockfd k
           in if orig_flags < 0 then Inr (-1, k)
              else let (r, k) = net_setfl N sockfd (orig_flags OR O_NONBLOCK) k
                   in if r < 0 then Inr (-1, k)
                      else let (rv, k) = net_connect N sockfd addr k
                           in if rv = 0 \<or> rv < 0 \<and> get_errno N k = EISCONN then Inr (0, snd (net_setfl N sockfd orig_flags k))
                              else if get_errno N k \<noteq> EINPROGRESS then Inr (-1, snd (net_setfl N sockfd orig_flags k))
                              else if FD_SETSIZE \<le> sockfd then Inl OutOfBounds
                              else let (rv, k) = net_select N sockfd tv k
                                   in if rv \<le> 0
                                      then let k = snd (net_setfl N sockfd orig_flags k)
                                           in Inr (-1, if rv = 0 then put_errno N ETIMEDOUT k else k)
                                      else let ((r, so_error), k) = net_so_error N sockfd k;
                                               k = snd (net_setfl N sockfd orig_flags k)
                                           in if r < 0 then Inr (-1, k)
                                              else if so_error \<noteq> 0 \<and> so_error \<noteq> EISCONN then Inr (-1, put_errno N so_error k)
                                              else Inr (0, k))"

text \<open>The loop over the addresses; the result is the socket, or -1 with the last error.\<close>

fun connect_loop :: "'k net_os \<Rightarrow> timeval \<Rightarrow> addrinfo list \<Rightarrow> errno \<Rightarrow> 'k \<Rightarrow> (fd \<times> errno \<times> 'k) res" where
  "connect_loop N tv [] last_errno k = Inr (-1, last_errno, k)"
| "connect_loop N tv (rp # rps) last_errno k =
     (let (s, k) = net_socket N (ai_family rp) (ai_socktype rp OR SOCK_CLOEXEC) (ai_protocol rp) k
      in if s = -1 then connect_loop N tv rps (get_errno N k) k
         else let k = snd (net_setfd N s FD_CLOEXEC k)
              in bindR (connect_with_timeout N s (ai_addr rp) tv k) (\<lambda>(rv, k).
                   if rv = 0 then Inr (s, 0, k)
                   else let last_errno = get_errno N k in connect_loop N tv rps last_errno (net_close N s k)))"

definition int_dec :: "int \<Rightarrow> string" where
  "int_dec n = (if n < 0 then CHR ''-'' # dec (nat (- n)) else dec (nat n))"

definition timeout_of :: "int \<Rightarrow> timeval" where
  "timeout_of timeout_ms = \<lparr>tv_sec = timeout_ms sdiv 1000, tv_usec = (timeout_ms smod 1000) * 1000\<rparr>"

definition tcp_connect ::
    "'k net_os \<Rightarrow> string \<Rightarrow> int \<Rightarrow> int \<Rightarrow> tcp_client \<Rightarrow> 'k \<Rightarrow> (net_error option \<times> tcp_client \<times> 'k) res" where
  "tcp_connect N host port timeout_ms c k =
     (let (c, k) = tcp_close N c k; tv = timeout_of timeout_ms; ((rv, addrs), k) = net_getaddrinfo N host (int_dec port) k
      in if rv \<noteq> 0 then Inr (Some (Getaddrinfo_failed rv), c, k)
         else bindR (connect_loop N tv addrs 0 k) (\<lambda>(s, last_errno, k).
                if s = -1 then Inr (Some (Connect_failed last_errno), c, k)
                else let c = c\<lparr>tcp_socket := s\<rparr>;
                         k = (if 0 < timeout_ms
                              then snd (net_setsockopt N s (SO_SNDTIMEO tv) (snd (net_setsockopt N s (SO_RCVTIMEO tv) k)))
                              else k)
                     in Inr (None, c, snd (net_setsockopt N s (NODELAY 1) k))))"

text \<open>The loop of \<open>send\<close> over what is left to send.\<close>

function tcp_send :: "'k net_os \<Rightarrow> string \<Rightarrow> tcp_client \<Rightarrow> 'k \<Rightarrow> net_error option \<times> tcp_client \<times> 'k" where
  "tcp_send N data c k =
     (if data = [] then (None, c, k)
      else let (write_result, k) = net_send N (tcp_socket c) data k
           in if write_result < 0 then let (c, k) = tcp_close N c k in (Some (Write_failed (get_errno N k)), c, k)
              else if write_result = 0 then (None, c, k)
              else tcp_send N (drop (nat write_result) data) c k)"
  by pat_completeness auto
termination
  by (relation "measure (\<lambda>(N, data, c, k). length data)") auto

declare tcp_send.simps [simp del]

section \<open>tcp_sink\<close>

record tcp_sink_config =
  server_host :: string
  server_port :: int
  timeout_ms :: int
  lazy_connect :: bool

definition new_tcp_sink_config :: "string \<Rightarrow> int \<Rightarrow> tcp_sink_config" where
  "new_tcp_sink_config host port = \<lparr>server_host = host, server_port = port, timeout_ms = 0, lazy_connect = False\<rparr>"

record tcp_sink =
  ts_level :: level_enum
  ts_formatter :: pattern_formatter
  ts_config :: tcp_sink_config
  ts_client :: tcp_client

definition tcp_sink_connect :: "'k net_os \<Rightarrow> tcp_sink \<Rightarrow> 'k \<Rightarrow> (net_error option \<times> tcp_sink \<times> 'k) res" where
  "tcp_sink_connect N s k =
     bindR (tcp_connect N (server_host (ts_config s)) (server_port (ts_config s)) (timeout_ms (ts_config s)) (ts_client s) k)
       (\<lambda>(e, c, k). Inr (e, s\<lparr>ts_client := c\<rparr>, k))"

definition new_tcp_sink :: "'k net_os \<Rightarrow> tcp_sink_config \<Rightarrow> 'k \<Rightarrow> (net_error option \<times> tcp_sink \<times> 'k) res" where
  "new_tcp_sink N cfg k =
     (let s = \<lparr>ts_level = trace, ts_formatter = default_pattern_formatter local_time [CHR 0x0A], ts_config = cfg,
               ts_client = new_tcp_client\<rparr>
      in if lazy_connect cfg then Inr (None, s, k) else tcp_sink_connect N s k)"

definition tcp_sink_send :: "'k net_os \<Rightarrow> string \<Rightarrow> tcp_sink \<Rightarrow> 'k \<Rightarrow> (net_error option \<times> tcp_sink \<times> 'k) res" where
  "tcp_sink_send N formatted s k =
     bindR (if is_connected (ts_client s) then Inr (None, s, k) else tcp_sink_connect N s k) (\<lambda>(e, s, k).
       if e \<noteq> None then Inr (e, s, k)
       else let (e, c, k) = tcp_send N formatted (ts_client s) k in Inr (e, s\<lparr>ts_client := c\<rparr>, k))"

definition tcp_sink_log ::
    "'k net_os \<Rightarrow> log_env \<Rightarrow> log_msg \<Rightarrow> tcp_sink \<Rightarrow> 'k \<Rightarrow> (log_msg \<times> net_error option \<times> tcp_sink \<times> 'k) res" where
  "tcp_sink_log N env msg s k =
     bindR (format_message env (ts_formatter s) msg []) (\<lambda>(pf, msg, formatted).
     bindR (tcp_sink_send N formatted (s\<lparr>ts_formatter := pf\<rparr>) k) (\<lambda>(e, s, k). Inr (msg, e, s, k)))"

text \<open>The destructor of the client.\<close>

definition destroy_tcp_sink :: "'k net_os \<Rightarrow> tcp_sink \<Rightarrow> 'k \<Rightarrow> 'k" where
  "destroy_tcp_sink N s k = snd (tcp_close N (ts_client s) k)"

section \<open>udp_client and udp_sink\<close>

record udp_client =
  udp_socket :: fd
  sockAddr :: sockaddr_in

definition TX_BUFFER_SIZE :: int where
  "TX_BUFFER_SIZE = 1024 * 10"

definition PF_INET :: int where "PF_INET = 2"
definition SOCK_DGRAM :: int where "SOCK_DGRAM = 2"

definition udp_cleanup :: "'k net_os \<Rightarrow> fd \<Rightarrow> 'k \<Rightarrow> 'k" where
  "udp_cleanup N s k = (if s \<noteq> -1 then net_close N s k else k)"

definition new_udp_client :: "'k net_os \<Rightarrow> string \<Rightarrow> u16 \<Rightarrow> 'k \<Rightarrow> (net_error + udp_client) \<times> 'k" where
  "new_udp_client N host port k =
     (let (s, k) = net_socket N PF_INET SOCK_DGRAM 0 k
      in if s < 0 then (Inl Create_socket_failed, k)
         else let (r, k) = net_setsockopt N s (SO_SNDBUF TX_BUFFER_SIZE) k
              in if r < 0 then (Inl Setsockopt_failed, udp_cleanup N s k)
                 else case net_aton N host of
                     None \<Rightarrow> (Inl Invalid_address, udp_cleanup N s k)
                   | Some a \<Rightarrow> (Inr \<lparr>udp_socket = s, sockAddr = \<lparr>sin_family = AF_INET, sin_port = htons port, s_addr = a\<rparr>\<rparr>, k))"

definition udp_send :: "'k net_os \<Rightarrow> string \<Rightarrow> udp_client \<Rightarrow> 'k \<Rightarrow> net_error option \<times> 'k" where
  "udp_send N data c k =
     (let (toslen, k) = net_sendto N (udp_socket c) (sockAddr c) data k
      in (if toslen = -1 then Some (Sendto_failed (get_errno N k)) else None, k))"

record udp_sink =
  us_level :: level_enum
  us_formatter :: pattern_formatter
  us_client :: udp_client

definition new_udp_sink :: "'k net_os \<Rightarrow> string \<Rightarrow> u16 \<Rightarrow> 'k \<Rightarrow> (net_error + udp_sink) \<times> 'k" where
  "new_udp_sink N host port k =
     (case new_udp_client N host port k of
        (Inl e, k) \<Rightarrow> (Inl e, k)
      | (Inr c, k) \<Rightarrow>
          (Inr \<lparr>us_level = trace, us_formatter = default_pattern_formatter local_time [CHR 0x0A], us_client = c\<rparr>, k))"

definition udp_sink_log ::
    "'k net_os \<Rightarrow> log_env \<Rightarrow> log_msg \<Rightarrow> udp_sink \<Rightarrow> 'k \<Rightarrow> (log_msg \<times> net_error option \<times> udp_sink \<times> 'k) res" where
  "udp_sink_log N env msg s k =
     bindR (format_message env (us_formatter s) msg []) (\<lambda>(pf, msg, formatted).
       let (e, k) = udp_send N formatted (us_client s) k in Inr (msg, e, s\<lparr>us_formatter := pf\<rparr>, k))"

definition destroy_udp_sink :: "'k net_os \<Rightarrow> udp_sink \<Rightarrow> 'k \<Rightarrow> 'k" where
  "destroy_udp_sink N s k = udp_cleanup N (udp_socket (us_client s)) k"

section \<open>Contracts\<close>

text \<open>
  The descriptors of the process: \<open>socket(2)\<close> gives one that was not open, \<open>close(2)\<close> takes it back, no other call changes them.
  The bytes the peers of the process have been sent: \<open>send(2)\<close> appends the prefix it took, no other call does.
\<close>

definition silent :: "('k \<Rightarrow> 'a) \<Rightarrow> 'k net_os \<Rightarrow> bool" where
  "silent obs N \<longleftrightarrow>
     (\<forall>e k. obs (put_errno N e k) = obs k) \<and> (\<forall>h p k. obs (snd (net_getaddrinfo N h p k)) = obs k) \<and>
     (\<forall>s a k. obs (snd (net_connect N s a k)) = obs k) \<and> (\<forall>s k. obs (snd (net_getfl N s k)) = obs k) \<and>
     (\<forall>s fl k. obs (snd (net_setfl N s fl k)) = obs k) \<and> (\<forall>s fl k. obs (snd (net_setfd N s fl k)) = obs k) \<and>
     (\<forall>s tv k. obs (snd (net_select N s tv k)) = obs k) \<and> (\<forall>s k. obs (snd (net_so_error N s k)) = obs k) \<and>
     (\<forall>s opt k. obs (snd (net_setsockopt N s opt k)) = obs k)"

definition fds_contract :: "'k net_os \<Rightarrow> ('k \<Rightarrow> fd set) \<Rightarrow> bool" where
  "fds_contract N opened \<longleftrightarrow>
     silent opened N \<and>
     (\<forall>fam ty p k s k'. net_socket N fam ty p k = (s, k') \<longrightarrow>
        s = -1 \<and> opened k' = opened k \<or> 0 \<le> s \<and> s \<notin> opened k \<and> opened k' = insert s (opened k)) \<and>
     (\<forall>s k. opened (net_close N s k) = opened k - {s}) \<and>
     (\<forall>s d k. opened (snd (net_send N s d k)) = opened k)"

definition sent_contract :: "'k net_os \<Rightarrow> ('k \<Rightarrow> string) \<Rightarrow> bool" where
  "sent_contract N sent \<longleftrightarrow>
     silent sent N \<and>
     (\<forall>fam ty p k. sent (snd (net_socket N fam ty p k)) = sent k) \<and> (\<forall>s k. sent (net_close N s k) = sent k) \<and>
     (\<forall>s d k r k'. net_send N s d k = (r, k') \<longrightarrow>
        r < 0 \<and> sent k' = sent k \<or>
        0 \<le> r \<and> nat r \<le> length d \<and> (d \<noteq> [] \<longrightarrow> r \<noteq> 0) \<and> sent k' = sent k @ take (nat r) d)"

lemma silentD:
  assumes "silent obs N"
  shows "obs (put_errno N e k) = obs k" "obs (snd (net_getaddrinfo N h p k)) = obs k"
    "obs (snd (net_connect N s a k)) = obs k" "obs (snd (net_getfl N s k)) = obs k"
    "obs (snd (net_setfl N s fl k)) = obs k" "obs (snd (net_setfd N s fl k)) = obs k"
    "obs (snd (net_select N s tv k)) = obs k" "obs (snd (net_so_error N s k)) = obs k"
    "obs (snd (net_setsockopt N s opt k)) = obs k"
  using assms by (simp_all add: silent_def)

lemma fds_send: "fds_contract N opened \<Longrightarrow> opened (snd (net_send N s d k)) = opened k"
  by (simp add: fds_contract_def)

lemma sent_send:
  assumes "sent_contract N sent" and "net_send N s d k = (r, k')" and "d \<noteq> []"
  shows "r < 0 \<and> sent k' = sent k \<or> 0 \<le> r \<and> nat r \<le> length d \<and> r \<noteq> 0 \<and> sent k' = sent k @ take (nat r) d"
  using assms(1) [unfolded sent_contract_def, THEN conjunct2, THEN conjunct2, THEN conjunct2, rule_format, OF assms(2)] assms(3)
  by simp

section \<open>Connecting\<close>

lemma connect_with_timeout_silent:
  assumes "silent obs N" and "connect_with_timeout N s a tv k = Inr (rv, k')"
  shows "obs k' = obs k"
  using assms(2) silentD(3) [OF assms(1), of s a k]
  by (simp add: connect_with_timeout_def Let_def split_beta split: if_splits) (auto simp: silentD [OF assms(1)])

lemma connect_loop_silent:
  assumes "silent obs N" and "\<And>fam ty p k. obs (snd (net_socket N fam ty p k)) = obs k" and "\<And>s k. obs (net_close N s k) = obs k"
  shows "connect_loop N tv rps e k = Inr (s, e', k') \<Longrightarrow> obs k' = obs k"
proof (induction rps arbitrary: e k)
  case (Cons rp rps)
  obtain s1 k1 where so: "net_socket N (ai_family rp) (ai_socktype rp OR SOCK_CLOEXEC) (ai_protocol rp) k = (s1, k1)" by force
  have k1: "obs k1 = obs k" using assms(2) [of "ai_family rp" "ai_socktype rp OR SOCK_CLOEXEC" "ai_protocol rp" k] so by simp
  show ?case
  proof (cases "s1 = -1")
    case True
    with Cons.prems so have "connect_loop N tv rps (get_errno N k1) k1 = Inr (s, e', k')" by simp
    with Cons.IH k1 show ?thesis by simp
  next
    case False
    let ?k2 = "snd (net_setfd N s1 FD_CLOEXEC k1)"
    from False Cons.prems so obtain rv k3 where c: "connect_with_timeout N s1 (ai_addr rp) tv ?k2 = Inr (rv, k3)"
      by (cases "connect_with_timeout N s1 (ai_addr rp) tv ?k2") (auto simp: Let_def)
    have k3: "obs k3 = obs k" using connect_with_timeout_silent [OF assms(1) c] silentD(6) [OF assms(1)] k1 by simp
    from False Cons.prems so c consider "k' = k3"
      | "connect_loop N tv rps (get_errno N k3) (net_close N s1 k3) = Inr (s, e', k')"
      by (auto simp: Let_def split: if_splits)
    then show ?thesis using Cons.IH assms(3) k3 by cases simp_all
  qed
qed simp

lemma connect_loop_opened:
  assumes "fds_contract N opened"
  shows "connect_loop N tv rps e k = Inr (s, e', k') \<Longrightarrow>
    s = -1 \<and> opened k' = opened k \<or> s \<noteq> -1 \<and> s \<notin> opened k \<and> opened k' = insert s (opened k)"
proof (induction rps arbitrary: e k)
  case (Cons rp rps)
  have sil: "silent opened N" using assms by (simp add: fds_contract_def)
  obtain s1 k1 where so: "net_socket N (ai_family rp) (ai_socktype rp OR SOCK_CLOEXEC) (ai_protocol rp) k = (s1, k1)" by force
  with assms consider "s1 = -1" "opened k1 = opened k" | "s1 \<noteq> -1" "s1 \<notin> opened k" "opened k1 = insert s1 (opened k)"
    unfolding fds_contract_def by fastforce
  then show ?case
  proof cases
    case 1
    with Cons.prems so have "connect_loop N tv rps (get_errno N k1) k1 = Inr (s, e', k')" by simp
    from Cons.IH [OF this] 1 show ?thesis by simp
  next
    case 2
    let ?k2 = "snd (net_setfd N s1 FD_CLOEXEC k1)"
    from 2 Cons.prems so obtain rv k3 where c: "connect_with_timeout N s1 (ai_addr rp) tv ?k2 = Inr (rv, k3)"
      by (cases "connect_with_timeout N s1 (ai_addr rp) tv ?k2") (auto simp: Let_def)
    have k3: "opened k3 = insert s1 (opened k)" using connect_with_timeout_silent [OF sil c] silentD(6) [OF sil] 2 by simp
    from 2 Cons.prems so c consider "s = s1" "k' = k3"
      | "connect_loop N tv rps (get_errno N k3) (net_close N s1 k3) = Inr (s, e', k')"
      by (auto simp: Let_def split: if_splits)
    then show ?thesis
    proof cases
      case 1
      with 2 k3 show ?thesis by simp
    next
      case next_addr: 2
      have "opened (net_close N s1 k3) = opened k" using assms k3 2 by (simp add: fds_contract_def)
      with Cons.IH [OF next_addr] show ?thesis by simp
    qed
  qed
qed simp

section \<open>The socket of a client\<close>

text \<open>Beside the descriptors \<open>B\<close> the client's socket is the only one that is open.\<close>

definition owns :: "('k \<Rightarrow> fd set) \<Rightarrow> fd set \<Rightarrow> tcp_client \<Rightarrow> 'k \<Rightarrow> bool" where
  "owns opened B c k \<longleftrightarrow>
     opened k = B \<union> (if is_connected c then {tcp_socket c} else {}) \<and> (is_connected c \<longrightarrow> tcp_socket c \<notin> B)"

lemma tcp_close_owns:
  assumes "fds_contract N opened" and "owns opened B c k"
  shows "owns opened B (fst (tcp_close N c k)) (snd (tcp_close N c k))" "\<not> is_connected (fst (tcp_close N c k))"
  using assms by (auto simp: tcp_close_def owns_def fds_contract_def is_connected_def Let_def)

lemma tcp_connect_owns:
  assumes "fds_contract N opened" and "owns opened B c k" and "tcp_connect N host p timeout c k = Inr (e, c', k')"
  shows "owns opened B c' k' \<and> (e = None \<longleftrightarrow> is_connected c')"
proof -
  have sil: "silent opened N" using assms(1) by (simp add: fds_contract_def)
  obtain c1 k1 where cl: "tcp_close N c k = (c1, k1)" by force
  with tcp_close_owns [OF assms(1,2)] have c1: "opened k1 = B" "\<not> is_connected c1" by (simp_all add: owns_def)
  obtain rv addrs k2 where ga: "net_getaddrinfo N host (int_dec p) k1 = ((rv, addrs), k2)" by (metis surj_pair)
  have k2: "opened k2 = B" using silentD(2) [OF sil, of host "int_dec p" k1] ga c1 by simp
  show ?thesis
  proof (cases "rv = 0")
    case False
    with assms(3) cl ga have "c' = c1" "k' = k2" "e \<noteq> None" by (auto simp: tcp_connect_def Let_def)
    with c1 k2 show ?thesis by (simp add: owns_def)
  next
    case True
    with assms(3) cl ga obtain s le k3 where lo: "connect_loop N (timeout_of timeout) addrs 0 k2 = Inr (s, le, k3)"
      by (cases "connect_loop N (timeout_of timeout) addrs 0 k2") (auto simp: tcp_connect_def Let_def)
    show ?thesis
    proof (cases "s = -1")
      case failed: True
      with assms(3) cl ga True lo have "c' = c1" "k' = k3" "e \<noteq> None" by (auto simp: tcp_connect_def Let_def)
      with c1 k2 failed connect_loop_opened [OF assms(1) lo] show ?thesis by (simp add: owns_def)
    next
      case False
      with assms(3) cl ga True lo have "c' = c1\<lparr>tcp_socket := s\<rparr>" "opened k' = opened k3" "e = None"
        by (cases "0 < timeout"; auto simp: tcp_connect_def Let_def silentD(9) [OF sil])+
      with k2 False connect_loop_opened [OF assms(1) lo] show ?thesis by (auto simp: owns_def is_connected_def)
    qed
  qed
qed

lemma tcp_send_owns:
  "fds_contract N opened \<Longrightarrow> owns opened B c k \<Longrightarrow> tcp_send N data c k = (e, c', k') \<Longrightarrow> owns opened B c' k' \<and> (e \<noteq> None \<longrightarrow> \<not> is_connected c')"
proof (induction N data c k rule: tcp_send.induct)
  case (1 N data c k)
  show ?case
  proof (cases "data = []")
    case True
    with 1(3,4) show ?thesis by (simp add: tcp_send.simps)
  next
    case False
    obtain r k1 where s: "net_send N (tcp_socket c) data k = (r, k1)" by force
    have "opened k1 = opened k" using fds_send [OF 1(2), of "tcp_socket c" data k] s by simp
    with 1(3) have o: "owns opened B c k1" by (simp add: owns_def)
    consider "r < 0" | "r = 0" | "0 < r" by linarith
    then show ?thesis
    proof cases
      case r: 1
      with False s 1(4) have "c' = fst (tcp_close N c k1)" "k' = snd (tcp_close N c k1)"
        by (auto simp: tcp_send.simps split_beta)
      with tcp_close_owns [OF 1(2) o] show ?thesis by simp
    next
      case 2
      with False s 1(4) o show ?thesis by (simp add: tcp_send.simps)
    next
      case 3
      with False s 1(4) have "tcp_send N (drop (nat r) data) c k1 = (e, c', k')" by (subst (asm) tcp_send.simps) simp
      with 1(1) [OF False refl s [symmetric] _ _ 1(2) o] 3 show ?thesis by simp
    qed
  qed
qed

lemma tcp_send_sends:
  "sent_contract N sent \<Longrightarrow> tcp_send N data c k = (e, c', k') \<Longrightarrow> \<exists>p r. data = p @ r \<and> sent k' = sent k @ p \<and> (e = None \<longrightarrow> r = [])"
proof (induction N data c k rule: tcp_send.induct)
  case (1 N data c k)
  show ?case
  proof (cases "data = []")
    case True
    with 1(3) show ?thesis by (simp add: tcp_send.simps)
  next
    case False
    obtain r k1 where s: "net_send N (tcp_socket c) data k = (r, k1)" by force
    with sent_send [OF 1(2) s False]
    have "r < 0 \<and> sent k1 = sent k \<or> 0 \<le> r \<and> nat r \<le> length data \<and> r \<noteq> 0 \<and> sent k1 = sent k @ take (nat r) data" by simp
    then show ?thesis
    proof
      assume r: "r < 0 \<and> sent k1 = sent k"
      with False s 1(3) have "e \<noteq> None" "k' = snd (tcp_close N c k1)" by (auto simp: tcp_send.simps split_beta)
      moreover have "sent (snd (tcp_close N c k1)) = sent k" using 1(2) r by (simp add: tcp_close_def sent_contract_def Let_def)
      ultimately show ?thesis by auto
    next
      assume r: "0 \<le> r \<and> nat r \<le> length data \<and> r \<noteq> 0 \<and> sent k1 = sent k @ take (nat r) data"
      with False s 1(3) have "tcp_send N (drop (nat r) data) c k1 = (e, c', k')" by (subst (asm) tcp_send.simps) simp
      with 1(1) [OF False refl s [symmetric] _ _ 1(2)] r obtain p q
        where pq: "drop (nat r) data = p @ q" "sent k' = sent k1 @ p" "e = None \<longrightarrow> q = []" by auto
      have "data = (take (nat r) data @ p) @ q" using append_take_drop_id [of "nat r" data] pq(1) by simp
      moreover have "sent k' = sent k @ take (nat r) data @ p" using r pq(2) by simp
      ultimately show ?thesis using pq(3) by blast
    qed
  qed
qed

section \<open>Runs of a sink\<close>

fun tcp_sink_run ::
    "'k net_os \<Rightarrow> string list \<Rightarrow> tcp_sink \<Rightarrow> 'k \<Rightarrow> (net_error option list \<times> tcp_sink \<times> 'k) res" where
  "tcp_sink_run N [] s k = Inr ([], s, k)"
| "tcp_sink_run N (t # ts) s k =
     bindR (tcp_sink_send N t s k) (\<lambda>(e, s, k).
     bindR (tcp_sink_run N ts s k) (\<lambda>(es, s, k). Inr (e # es, s, k)))"

text \<open>A connection with a timeout is waited for in an \<open>fd_set\<close>.\<close>

definition fits_fd_set :: "'k net_os \<Rightarrow> int \<Rightarrow> bool" where
  "fits_fd_set N timeout \<longleftrightarrow> timeout = 0 \<or> (\<forall>fam ty p k. fst (net_socket N fam ty p k) < FD_SETSIZE)"

lemma connect_with_timeout_returns:
  "timeout = 0 \<or> s < FD_SETSIZE \<Longrightarrow> \<exists>rv k'. connect_with_timeout N s a (timeout_of timeout) k = Inr (rv, k')"
  by (auto simp: connect_with_timeout_def timeout_of_def Let_def split_beta)

lemma connect_loop_returns:
  "fits_fd_set N timeout \<Longrightarrow> \<exists>s e' k'. connect_loop N (timeout_of timeout) rps e k = Inr (s, e', k')"
proof (induction rps arbitrary: e k)
  case (Cons rp rps)
  obtain s k1 where so: "net_socket N (ai_family rp) (ai_socktype rp OR SOCK_CLOEXEC) (ai_protocol rp) k = (s, k1)" by force
  then have "timeout = 0 \<or> s < FD_SETSIZE" using Cons.prems unfolding fits_fd_set_def by (metis fst_conv)
  from connect_with_timeout_returns [OF this, of N "ai_addr rp" "snd (net_setfd N s FD_CLOEXEC k1)"] obtain rv k2
    where "connect_with_timeout N s (ai_addr rp) (timeout_of timeout) (snd (net_setfd N s FD_CLOEXEC k1)) = Inr (rv, k2)" by blast
  with so Cons show ?case by (simp add: Let_def)
qed simp

lemma tcp_connect_returns:
  assumes "fits_fd_set N timeout"
  shows "\<exists>e c' k'. tcp_connect N host p timeout c k = Inr (e, c', k')"
proof -
  obtain c1 k1 where cl: "tcp_close N c k = (c1, k1)" by force
  obtain rv addrs k2 where ga: "net_getaddrinfo N host (int_dec p) k1 = ((rv, addrs), k2)" by (metis surj_pair)
  obtain s e' k' where "connect_loop N (timeout_of timeout) addrs 0 k2 = Inr (s, e', k')"
    using connect_loop_returns [OF assms] by blast
  with cl ga show ?thesis by (simp add: tcp_connect_def Let_def)
qed

lemma tcp_sink_connect_returns:
  assumes "fits_fd_set N (timeout_ms (ts_config s))" and "fds_contract N opened" and "owns opened B (ts_client s) k"
  shows "\<exists>e s' k'. tcp_sink_connect N s k = Inr (e, s', k') \<and> ts_config s' = ts_config s \<and> owns opened B (ts_client s') k' \<and>
    (e = None \<longleftrightarrow> is_connected (ts_client s'))"
proof -
  obtain e c' k' where c: "tcp_connect N (server_host (ts_config s)) (server_port (ts_config s)) (timeout_ms (ts_config s)) (ts_client s) k =
    Inr (e, c', k')" using tcp_connect_returns [OF assms(1)] by blast
  with tcp_connect_owns [OF assms(2,3) c] show ?thesis by (simp add: tcp_sink_connect_def)
qed

lemma tcp_connect_sends_nothing:
  assumes "sent_contract N sent" and "tcp_connect N host p timeout c k = Inr (e, c', k')"
  shows "sent k' = sent k"
proof -
  have sil: "silent sent N" and so: "\<And>fam ty p k. sent (snd (net_socket N fam ty p k)) = sent k"
    and cs: "\<And>s k. sent (net_close N s k) = sent k" using assms(1) by (simp_all add: sent_contract_def)
  obtain c1 k1 where cl: "tcp_close N c k = (c1, k1)" by force
  then have k1: "sent k1 = sent k" using cs by (auto simp: tcp_close_def Let_def split: if_splits)
  obtain rv addrs k2 where ga: "net_getaddrinfo N host (int_dec p) k1 = ((rv, addrs), k2)" by (metis surj_pair)
  have k2: "sent k2 = sent k" using silentD(2) [OF sil, of host "int_dec p" k1] ga k1 by simp
  show ?thesis
  proof (cases "rv = 0")
    case False
    with assms(2) cl ga k2 show ?thesis by (auto simp: tcp_connect_def Let_def)
  next
    case True
    with assms(2) cl ga obtain s le k3 where lo: "connect_loop N (timeout_of timeout) addrs 0 k2 = Inr (s, le, k3)"
      by (cases "connect_loop N (timeout_of timeout) addrs 0 k2") (auto simp: tcp_connect_def Let_def)
    have "sent k' = sent k3" using assms(2) cl ga True lo
      by (cases "0 < timeout"; auto simp: tcp_connect_def Let_def silentD(9) [OF sil] split: if_splits)
    with k2 connect_loop_silent [OF sil so cs lo] show ?thesis by simp
  qed
qed

lemma tcp_sink_send_step:
  assumes "fits_fd_set N (timeout_ms (ts_config s))" and "fds_contract N opened" and "sent_contract N sent"
    and "owns opened B (ts_client s) k"
  shows "\<exists>e s' k' p r. tcp_sink_send N t s k = Inr (e, s', k') \<and> ts_config s' = ts_config s \<and> owns opened B (ts_client s') k' \<and>
    t = p @ r \<and> sent k' = sent k @ p \<and> (e = None \<longrightarrow> r = [])"
proof -
  obtain e s1 k1 where c: "(if is_connected (ts_client s) then Inr (None, s, k) else tcp_sink_connect N s k) = Inr (e, s1, k1)"
      "ts_config s1 = ts_config s" "owns opened B (ts_client s1) k1"
    using tcp_sink_connect_returns [OF assms(1,2,4)] assms(4) by (cases "is_connected (ts_client s)") auto
  have k1: "sent k1 = sent k"
  proof (cases "is_connected (ts_client s)")
    case True
    with c show ?thesis by simp
  next
    case False
    with c(1) have "tcp_sink_connect N s k = Inr (e, s1, k1)" by simp
    then obtain c' where "tcp_connect N (server_host (ts_config s)) (server_port (ts_config s)) (timeout_ms (ts_config s)) (ts_client s) k =
      Inr (e, c', k1)" by (auto simp: tcp_sink_connect_def)
    from tcp_connect_sends_nothing [OF assms(3) this] show ?thesis .
  qed
  show ?thesis
  proof (cases e)
    case (Some x)
    with c k1 show ?thesis by (simp add: tcp_sink_send_def)
  next
    case None
    obtain e2 c2 k2 where sd: "tcp_send N t (ts_client s1) k1 = (e2, c2, k2)" by (metis surj_pair)
    with None c have "tcp_sink_send N t s k = Inr (e2, s1\<lparr>ts_client := c2\<rparr>, k2)" by (simp add: tcp_sink_send_def)
    with tcp_send_owns [OF assms(2) c(3) sd] tcp_send_sends [OF assms(3) sd] c(2) k1 show ?thesis by auto
  qed
qed

text \<open>What has been sent of each text: all of it, where no exception was thrown.\<close>

definition sent_part :: "string \<times> net_error option \<Rightarrow> string \<Rightarrow> bool" where
  "sent_part te p \<longleftrightarrow> (\<exists>r. fst te = p @ r \<and> (snd te = None \<longrightarrow> r = []))"

lemma tcp_sink_run_sends:
  assumes "fds_contract N opened" and "sent_contract N sent"
  shows "fits_fd_set N (timeout_ms (ts_config s)) \<Longrightarrow> owns opened B (ts_client s) k \<Longrightarrow>
    \<exists>es s' k' parts. tcp_sink_run N ts s k = Inr (es, s', k') \<and> owns opened B (ts_client s') k' \<and> length es = length ts \<and>
      list_all2 sent_part (zip ts es) parts \<and> sent k' = sent k @ concat parts"
proof (induction ts arbitrary: s k)
  case (Cons t ts)
  from tcp_sink_send_step [OF Cons.prems(1) assms Cons.prems(2), of t] obtain e s1 k1 p r
    where 1: "tcp_sink_send N t s k = Inr (e, s1, k1)" "ts_config s1 = ts_config s" "owns opened B (ts_client s1) k1"
      "t = p @ r" "sent k1 = sent k @ p" "e = None \<longrightarrow> r = []" by blast
  from Cons.IH [of s1 k1] Cons.prems(1) 1(2,3) obtain es s' k' parts
    where 2: "tcp_sink_run N ts s1 k1 = Inr (es, s', k')" "owns opened B (ts_client s') k'" "length es = length ts"
      "list_all2 sent_part (zip ts es) parts" "sent k' = sent k1 @ concat parts" by auto
  have "sent_part (t, e) p" using 1 by (auto simp: sent_part_def)
  with 1 2 show ?case by (intro exI [of _ "e # es"] exI [of _ s'] exI [of _ k'] exI [of _ "p # parts"]) simp
qed simp

lemma new_tcp_sink_owns:
  assumes "fds_contract N opened" and "sent_contract N sent" and "fits_fd_set N (timeout_ms cfg)"
  shows "\<exists>e s k'. new_tcp_sink N cfg k = Inr (e, s, k') \<and> ts_config s = cfg \<and> owns opened (opened k) (ts_client s) k' \<and>
    sent k' = sent k \<and> (e \<noteq> None \<longrightarrow> \<not> is_connected (ts_client s))"
proof -
  let ?s = "\<lparr>ts_level = trace, ts_formatter = default_pattern_formatter local_time [CHR 0x0A], ts_config = cfg,
    ts_client = new_tcp_client\<rparr>"
  have o: "owns opened (opened k) (ts_client ?s) k" by (simp add: owns_def new_tcp_client_def is_connected_def)
  show ?thesis
  proof (cases "lazy_connect cfg")
    case True
    with o show ?thesis by (simp add: new_tcp_sink_def)
  next
    case False
    obtain e s k' where c: "tcp_sink_connect N ?s k = Inr (e, s, k')" "ts_config s = cfg" "owns opened (opened k) (ts_client s) k'"
      "e = None \<longleftrightarrow> is_connected (ts_client s)"
      using tcp_sink_connect_returns [of N ?s, OF _ assms(1) o] assms(3) by auto
    then have "sent k' = sent k"
      using tcp_connect_sends_nothing [OF assms(2), of "server_host cfg" "server_port cfg" "timeout_ms cfg" new_tcp_client k]
      by (auto simp: tcp_sink_connect_def)
    with c False show ?thesis by (auto simp: new_tcp_sink_def)
  qed
qed

lemma destroy_tcp_sink_owns:
  "fds_contract N opened \<Longrightarrow> owns opened B (ts_client s) k \<Longrightarrow> opened (destroy_tcp_sink N s k) = B"
  using tcp_close_owns [of N opened B "ts_client s" k] by (simp add: destroy_tcp_sink_def owns_def)

section \<open>A network for examples\<close>

text \<open>Every address can be reached; a call of \<open>send\<close> takes at most three bytes.\<close>

record net_state =
  n_fds :: "fd list"
  n_sent :: string
  n_errno :: errno

definition demo_net :: "net_state net_os" where
  "demo_net =
     \<lparr>get_errno = n_errno, put_errno = (\<lambda>e k. k\<lparr>n_errno := e\<rparr>),
      net_getaddrinfo = (\<lambda>h p k. ((0, [\<lparr>ai_family = 2, ai_socktype = 1, ai_protocol = 6, ai_addr = h\<rparr>]), k)),
      net_socket = (\<lambda>fam ty p k. let s = foldr max (n_fds k) 0 + 1 in (s, k\<lparr>n_fds := s # n_fds k\<rparr>)),
      net_connect = (\<lambda>s a k. (0, k)), net_getfl = (\<lambda>s k. (0, k)), net_setfl = (\<lambda>s fl k. (0, k)),
      net_setfd = (\<lambda>s fl k. (0, k)), net_select = (\<lambda>s tv k. (1, k)), net_so_error = (\<lambda>s k. ((0, 0), k)),
      net_setsockopt = (\<lambda>s opt k. (0, k)),
      net_send = (\<lambda>s d k. (int (min 3 (length d)), k\<lparr>n_sent := n_sent k @ take 3 d\<rparr>)),
      net_sendto = (\<lambda>s a d k. (int (length d), k)), net_close = (\<lambda>s k. k\<lparr>n_fds := removeAll s (n_fds k)\<rparr>),
      net_aton = (\<lambda>h. None)\<rparr>"

definition demo_net_state :: net_state where
  "demo_net_state = \<lparr>n_fds = [0, 1, 2], n_sent = [], n_errno = 0\<rparr>"

lemma fresh_socket: "0 \<le> foldr max (fds :: int list) 0 \<and> (\<forall>s\<in>set fds. s \<le> foldr max fds 0)"
  by (induction fds) auto

lemma demo_net_ok: "fds_contract demo_net (\<lambda>k. set (n_fds k))" "sent_contract demo_net n_sent"
proof -
  have "foldr max fds 0 + 1 \<notin> set fds" for fds :: "int list" using fresh_socket [of fds] by fastforce
  then show "fds_contract demo_net (\<lambda>k. set (n_fds k))"
    using fresh_socket by (auto simp: fds_contract_def silent_def demo_net_def Let_def)
  show "sent_contract demo_net n_sent"
    by (auto simp: sent_contract_def silent_def demo_net_def Let_def min_def)
qed

end
