(* ===== verification/LogSystem.thy ===== *)
theory LogSystem
  imports LogConsole "HOL-Library.Char_ord" "HOL-Library.List_Lexorder"
begin

text \<open>
  Sinks that hand their text to the system: \<open>sinks/syslog_sink.h\<close>, \<open>sinks/systemd_sink.h\<close>, \<open>sinks/stdout_sinks-inl.h\<close>. And the
  diagnostic context of a thread, \<open>mdc.h\<close>, which the pattern flag \<open>%&\<close> prints.
\<close>

section \<open>syslog_sink\<close>

definition LOG_CRIT :: int where "LOG_CRIT = 2"
definition LOG_ERR :: int where "LOG_ERR = 3"
definition LOG_WARNING :: int where "LOG_WARNING = 4"
definition LOG_INFO :: int where "LOG_INFO = 6"
definition LOG_DEBUG :: int where "LOG_DEBUG = 7"

definition syslog_levels :: "int list" where
  "syslog_levels = [LOG_DEBUG, LOG_DEBUG, LOG_INFO, LOG_WARNING, LOG_ERR, LOG_CRIT, LOG_INFO]"

text \<open>
  The conversion \<open>%.*s\<close>: it ends at a null character or after \<open>n\<close> characters; a negative \<open>n\<close> is no limit.
\<close>

definition percent_s :: "int \<Rightarrow> string \<Rightarrow> string" where
  "percent_s n s = takeWhile (\<lambda>c. c \<noteq> CHR 0x00) (if n < 0 then s else take (nat n) s)"

definition int_of_size :: "nat \<Rightarrow> int" where
  "int_of_size n = sint (word_of_nat n :: 32 word)"

definition limit_to_int :: "nat \<Rightarrow> nat" where
  "limit_to_int n = (if 2 ^ 31 - 1 < n then 2 ^ 31 - 1 else n)"

record syslog_sink =
  sl_level :: level_enum
  sl_formatter :: pattern_formatter
  enable_formatting :: bool
  sl_ident :: string

text \<open>The calls of the system: \<open>openlog\<close> with the name, option and facility, \<open>syslog\<close> with the priority and the text, \<open>closelog\<close>.\<close>

datatype syslog_call = Openlog "string option" int int | Syslog int string | Closelog

definition new_syslog_sink :: "string \<Rightarrow> int \<Rightarrow> int \<Rightarrow> bool \<Rightarrow> syslog_call list \<Rightarrow> syslog_sink \<times> syslog_call list" where
  "new_syslog_sink ident syslog_option syslog_facility formatting calls =
     (\<lparr>sl_level = trace, sl_formatter = default_pattern_formatter local_time [CHR 0x0A], enable_formatting = formatting,
       sl_ident = ident\<rparr>,
      calls @ [Openlog (if ident = [] then None else Some ident) syslog_option syslog_facility])"

definition destroy_syslog_sink :: "syslog_call list \<Rightarrow> syslog_call list" where
  "destroy_syslog_sink calls = calls @ [Closelog]"

definition syslog_prio_from_level :: "level_enum \<Rightarrow> int res" where
  "syslog_prio_from_level l = array_at syslog_levels (level_value l)"

definition syslog_payload ::
    "log_env \<Rightarrow> bool \<Rightarrow> pattern_formatter \<Rightarrow> log_msg \<Rightarrow> (pattern_formatter \<times> log_msg \<times> string) res" where
  "syslog_payload env formatting pf msg = (if formatting then format_message env pf msg [] else Inr (pf, msg, msg_payload msg))"

definition syslog_sink_it ::
    "log_env \<Rightarrow> log_msg \<Rightarrow> syslog_sink \<Rightarrow> syslog_call list \<Rightarrow> (log_msg \<times> syslog_sink \<times> syslog_call list) res" where
  "syslog_sink_it env msg s calls =
     bindR (syslog_payload env (enable_formatting s) (sl_formatter s) msg) (\<lambda>(pf, msg, payload).
       let len = limit_to_int (length payload)
       in bindR (syslog_prio_from_level (msg_level msg)) (\<lambda>prio.
            Inr (msg, s\<lparr>sl_formatter := pf\<rparr>, calls @ [Syslog prio (percent_s (int_of_size len) payload)])))"

section \<open>systemd_sink\<close>

record systemd_sink =
  sd_level :: level_enum
  sd_formatter :: pattern_formatter
  sd_ident :: string
  sd_formatting :: bool

definition new_systemd_sink :: "string \<Rightarrow> bool \<Rightarrow> systemd_sink" where
  "new_systemd_sink ident formatting =
     \<lparr>sd_level = trace, sd_formatter = default_pattern_formatter local_time [CHR 0x0A], sd_ident = ident,
      sd_formatting = formatting\<rparr>"

definition syslog_level :: "level_enum \<Rightarrow> int res" where
  "syslog_level l = array_at syslog_levels (level_value l)"

definition percent_d :: "int \<Rightarrow> string" where
  "percent_d n = (if n < 0 then CHR ''-'' # dec (nat (- n)) else dec (nat n))"

text \<open>The fields of an entry of the journal; a name that is not given is \<open>(null)\<close>.\<close>

definition journal_name :: "string option \<Rightarrow> string" where
  "journal_name s = (case s of None \<Rightarrow> ''(null)'' | Some s \<Rightarrow> percent_s (-1) s)"

definition journal_fields :: "systemd_sink \<Rightarrow> log_msg \<Rightarrow> string \<Rightarrow> int \<Rightarrow> string list" where
  "journal_fields s msg payload prio =
     (let len = limit_to_int (length payload);
          syslog_identifier = (if sd_ident s = [] then msg_logger_name msg else sd_ident s)
      in [''MESSAGE='' @ percent_s (int_of_size len) payload, ''PRIORITY='' @ percent_d prio, ''TID='' @ dec (msg_thread_id msg),
          ''SYSLOG_IDENTIFIER='' @ percent_s (int_of_size (length syslog_identifier)) syslog_identifier] @
         (if source_empty (msg_source msg) then []
          else [''CODE_FILE='' @ journal_name (filename (msg_source msg)), ''CODE_LINE='' @ percent_d (line (msg_source msg)),
                ''CODE_FUNC='' @ journal_name (funcname (msg_source msg))]))"

text \<open>\<open>sd_journal_send\<close> is the parameter \<open>journal\<close>; the sink throws when it fails.\<close>

definition systemd_sink_it ::
    "(string list \<Rightarrow> 'k \<Rightarrow> int \<times> 'k) \<Rightarrow> log_env \<Rightarrow> log_msg \<Rightarrow> systemd_sink \<Rightarrow> 'k \<Rightarrow> (log_msg \<times> bool \<times> systemd_sink \<times> 'k) res" where
  "systemd_sink_it journal env msg s k =
     bindR (syslog_payload env (sd_formatting s) (sd_formatter s) msg) (\<lambda>(pf, msg, payload).
     bindR (syslog_level (msg_level msg)) (\<lambda>prio.
       let s = s\<lparr>sd_formatter := pf\<rparr>; (e, k) = journal (journal_fields s msg payload prio) k in Inr (msg, e = 0, s, k)))"

section \<open>stdout_sink\<close>

text \<open>A file with what has been written to it and how much of it is flushed.\<close>

record c_file =
  cf_text :: string
  cf_flushed :: nat

definition c_fflush :: "c_file \<Rightarrow> c_file" where
  "c_fflush f = f\<lparr>cf_flushed := length (cf_text f)\<rparr>"

record stdout_sink =
  so_level :: level_enum
  so_formatter :: pattern_formatter

definition new_stdout_sink :: stdout_sink where
  "new_stdout_sink = \<lparr>so_level = trace, so_formatter = default_pattern_formatter local_time [CHR 0x0A]\<rparr>"

definition stdout_log :: "log_env \<Rightarrow> fwrite \<Rightarrow> log_msg \<Rightarrow> stdout_sink \<Rightarrow> c_file \<Rightarrow> (log_msg \<times> stdout_sink \<times> c_file) res" where
  "stdout_log env fw msg s f =
     bindR (format_message env (so_formatter s) msg []) (\<lambda>(pf, msg, formatted).
       let f = f\<lparr>cf_text := snd (fwrite_bytes fw formatted (cf_text f))\<rparr>
       in Inr (msg, s\<lparr>so_formatter := pf\<rparr>, c_fflush f))"

definition stdout_set_pattern :: "log_env \<Rightarrow> string \<Rightarrow> stdout_sink \<Rightarrow> stdout_sink" where
  "stdout_set_pattern env pat s = s\<lparr>so_formatter := new_pattern_formatter env pat local_time [CHR 0x0A] Map.empty\<rparr>"

definition stdout_set_formatter :: "pattern_formatter \<Rightarrow> stdout_sink \<Rightarrow> stdout_sink" where
  "stdout_set_formatter pf s = s\<lparr>so_formatter := pf\<rparr>"

section \<open>mdc\<close>

text \<open>The map of a thread, a \<open>std::map\<close>: its entries in the order of their keys.\<close>

type_synonym mdc_map = "(string \<times> string) list"

fun mdc_put :: "string \<Rightarrow> string \<Rightarrow> mdc_map \<Rightarrow> mdc_map" where
  "mdc_put key val [] = [(key, val)]"
| "mdc_put key val ((k, v) # m) =
     (if key < k then (key, val) # (k, v) # m else if key = k then (key, val) # m else (k, v) # mdc_put key val m)"

definition mdc_get :: "string \<Rightarrow> mdc_map \<Rightarrow> string" where
  "mdc_get key m = (case map_of m key of Some val \<Rightarrow> val | None \<Rightarrow> [])"

definition mdc_remove :: "string \<Rightarrow> mdc_map \<Rightarrow> mdc_map" where
  "mdc_remove key m = filter (\<lambda>e. fst e \<noteq> key) m"

definition mdc_clear :: "mdc_map \<Rightarrow> mdc_map" where
  "mdc_clear m = []"

datatype mdc_op = Mdc_put string string | Mdc_remove string | Mdc_clear

primrec mdc_step :: "mdc_op \<Rightarrow> mdc_map \<Rightarrow> mdc_map" where
  "mdc_step (Mdc_put key val) m = mdc_put key val m"
| "mdc_step (Mdc_remove key) m = mdc_remove key m"
| "mdc_step Mdc_clear m = mdc_clear m"

text \<open>What the operations do to the mapping.\<close>

primrec mdc_abs_step :: "mdc_op \<Rightarrow> (string \<rightharpoonup> string) \<Rightarrow> (string \<rightharpoonup> string)" where
  "mdc_abs_step (Mdc_put key val) M = M(key \<mapsto> val)"
| "mdc_abs_step (Mdc_remove key) M = M(key := None)"
| "mdc_abs_step Mdc_clear M = Map.empty"

definition mdc_inv :: "mdc_map \<Rightarrow> bool" where
  "mdc_inv m \<longleftrightarrow> sorted_wrt (<) (map fst m)"

lemma mdc_put_keys: "fst ` set (mdc_put key val m) = insert key (fst ` set m)"
  by (induction key val m rule: mdc_put.induct) auto

lemma mdc_put_inv: "mdc_inv m \<Longrightarrow> mdc_inv (mdc_put key val m)"
proof (induction key val m rule: mdc_put.induct)
  case (2 key val k v m)
  then have s: "\<forall>x\<in>fst ` set m. k < x" "mdc_inv m" by (auto simp: mdc_inv_def)
  show ?case
  proof (cases "key < k \<or> key = k")
    case True
    with s show ?thesis by (auto simp: mdc_inv_def intro: less_trans)
  next
    case False
    then have "k < key" "mdc_inv (mdc_put key val m)" using 2 s by auto
    with False s(1) mdc_put_keys [of key val m] show ?thesis by (simp add: mdc_inv_def)
  qed
qed (simp add: mdc_inv_def)

lemma mdc_put_map: "mdc_inv m \<Longrightarrow> map_of (mdc_put key val m) = (map_of m)(key \<mapsto> val)"
proof (induction key val m rule: mdc_put.induct)
  case (2 key val k v m)
  then have m: "mdc_inv m" by (simp add: mdc_inv_def)
  consider "key < k" | "key = k" | "\<not> key < k" "key \<noteq> k" by blast
  then show ?case
  proof cases
    case 3
    with 2 m show ?thesis by (simp add: fun_eq_iff)
  qed (auto simp: fun_eq_iff)
qed simp

lemma mdc_step_abs: "mdc_inv m \<Longrightarrow> mdc_inv (mdc_step op m) \<and> map_of (mdc_step op m) = mdc_abs_step op (map_of m)"
proof (induction op)
  case (Mdc_put key val)
  then show ?case by (simp add: mdc_put_inv mdc_put_map)
next
  case (Mdc_remove key)
  then have "mdc_inv (mdc_remove key m)" by (simp add: mdc_inv_def mdc_remove_def sorted_wrt_map sorted_wrt_filter)
  moreover have "map_of (mdc_remove key m) = (map_of m)(key := None)"
    by (induction m) (auto simp: mdc_remove_def)
  ultimately show ?case by simp
qed (simp add: mdc_clear_def mdc_inv_def)

lemma mdc_steps_abs:
  "mdc_inv m \<Longrightarrow> mdc_inv (fold mdc_step ops m) \<and> map_of (fold mdc_step ops m) = fold mdc_abs_step ops (map_of m)"
proof (induction ops arbitrary: m)
  case (Cons op ops)
  from mdc_step_abs [OF Cons.prems, of op] Cons.IH [of "mdc_step op m"] show ?case by simp
qed simp

section \<open>The text of a priority\<close>

definition c_text :: "string \<Rightarrow> string" where
  "c_text s = takeWhile (\<lambda>c. c \<noteq> CHR 0x00) (take (2 ^ 31 - 1) s)"

lemma percent_s_limited: "percent_s (int_of_size (limit_to_int (length s))) s = c_text s"
proof -
  let ?n = "limit_to_int (length s)"
  have n: "?n < 2 ^ 31" "take ?n s = take (2 ^ 31 - 1) s" by (simp_all add: limit_to_int_def)
  have "(word_of_nat ?n :: 32 word) = word_of_int (int ?n)" by simp
  then have "int_of_size ?n = int ?n"
    unfolding int_of_size_def using n(1) by (simp only: sint_sbintrunc') (simp add: signed_take_bit_int_eq_self)
  with n(2) show ?thesis by (simp add: percent_s_def c_text_def)
qed

lemma syslog_levels_at: "syslog_prio_from_level l = Inr (syslog_levels ! nat (level_value l))"
  by (cases l) (simp_all add: syslog_prio_from_level_def array_at_def syslog_levels_def)

text \<open>Smaller numbers are more urgent.\<close>

lemma syslog_levels_urgent:
  "l \<le> l' \<Longrightarrow> l' \<noteq> off \<Longrightarrow> syslog_levels ! nat (level_value l') \<le> syslog_levels ! nat (level_value l)"
  by (cases l; cases l') (simp_all add: syslog_levels_def LOG_DEBUG_def LOG_INFO_def LOG_WARNING_def LOG_ERR_def LOG_CRIT_def less_eq_level_enum_def)

end
