(* ===== verification/Spec2Isabelle.thy ===== *)
theory Spec2Isabelle
  imports Dwt_Prelude Buffer LoopProtocol TcpServer Demo LogDemo LogFormat NetFormat AsyncDemo LogDaily LogConfig LogAdmin LogDist LogHex LogNet LogSystem
begin

text \<open>
  A verification of dwt_muduo, a C++ TCP server library in the reactor style of muduo (\<open>src/src\<close>), and of
  the parts of the logging library it is built with (\<open>src/src/include/spdlog\<close>).

  \<^bold>\<open>The program.\<close> A \<open>TcpServer\<close> owns an \<open>Acceptor\<close>, an \<open>EventLoopThreadPool\<close> and a map of
  \<open>TcpConnection\<close>s. Every thread runs one \<open>EventLoop\<close>: it waits in \<open>EpollPoller::poll\<close>, lets the active
  \<open>Channel\<close>s dispatch their events to the callbacks of their owners, then runs the functors other code
  queued for it. Other threads hand work to a loop with \<open>queueInLoop\<close>, which wakes it through an eventfd.
  A connection reads into and writes from \<open>Buffer\<close>s.

  \<^bold>\<open>State and errors.\<close> Objects live in maps from addresses to records (\<open>chans\<close>, \<open>pollers\<close>, \<open>loops\<close>, \<open>conns\<close>,
  the caller's memory \<open>mem\<close>); a world record is extended theory by theory, in the order in which the
  classes use each other. The address of a new object is an argument (\<open>alloc\<close>, \<open>thread_env\<close>). An operation
  returns \<open>Inr\<close> the new world, or \<open>Inl\<close> a \<open>fault\<close>: an abort of \<open>LOG_FATAL\<close>, an exception, or undefined
  behaviour (null or dangling pointer, access outside an object). The system calls are a record \<open>'k kernel\<close>
  of functions on an abstract kernel state, a parameter; what the code relies on of them is stated by
  the contracts of theory Kernel, named hypotheses, and theory Demo has a kernel that satisfies all of
  them. User callbacks are the parameter \<open>U\<close>, user functors \<open>user\<close>.

  \<^bold>\<open>The theories.\<close>
  \<^item> Dwt_Prelude: faults and their monad, reading and writing bytes of objects, \<open>std::vector\<close> growth, the
    locale of invariants of step relations.
  \<^item> Kernel: system calls, their constants and contracts.
  \<^item> Buffer: \<open>Buffer.h\<close>, \<open>Buffer.cpp\<close>. Vector and indices as in the code, 64-bit words for \<open>size_t\<close>; refined to
    the byte list \<open>contents\<close> (locale \<open>byte_queue\<close>).
  \<^item> Channel: \<open>Channel.h\<close>, \<open>Channel.cpp\<close>, event masks and dispatch.
  \<^item> Poller: \<open>Poller.cpp\<close>, \<open>DefaultPoller.cpp\<close>, \<open>EpollPoller.cpp\<close> and the updates of \<open>Channel.cpp\<close> that reach them;
    the invariant \<open>poller_inv\<close> ties the map, the indices of channels and the kernel's interest list together
    (locale \<open>interest_set\<close>).
  \<^item> EventLoop: \<open>EventLoop.h\<close>, \<open>EventLoop.cpp\<close>: queueing (locale \<open>functor_queue\<close>), wake-up, draining, the loop.
  \<^item> LoopProtocol: the interleaving of a loop with threads that queue functors for it, as a step
    relation, and its invariant.
  \<^item> Decimal: how \<open>fmt\<close> prints integers (\<open>fmt/bundled/format.h\<close>), refined to the schoolbook digits.
  \<^item> ThreadPool: \<open>CurrentThread\<close>, \<open>Thread\<close>, \<open>EventLoopThread\<close>, \<open>EventLoopThreadPool\<close> (locale \<open>loop_selector\<close>).
  \<^item> Net: \<open>InetAddress\<close>, \<open>Timestamp\<close>, \<open>Socket\<close>, \<open>Acceptor\<close>.
  \<^item> TcpConnection: \<open>TcpConnection.h\<close>, \<open>TcpConnection.cpp\<close>; the invariant \<open>conn_at\<close>, the byte stream
    (\<open>stream_run\<close>), the life cycle (\<open>life\<close>) and what callbacks may do (locale \<open>conn_frame\<close>).
  \<^item> TcpServer: \<open>TcpServer.h\<close>, \<open>TcpServer.cpp\<close>; the meaning of functors and callbacks (\<open>exec\<close>,
    \<open>run_chan_cb\<close>), ownership of connections by \<open>shared_ptr\<close>s.
  \<^item> Demo: the example kernel and worlds of the witnesses.
  \<^item> LogLevel, FmtHelper: levels and messages (\<open>spdlog/common.h\<close>, \<open>log_msg.h\<close>), printing and padding numbers
    (\<open>fmt_helper.h\<close>, \<open>fmt::format_int\<close>), down to the digits of Decimal.
  \<^item> PatternFlags, PatternFormatter: \<open>pattern_formatter.h\<close>, \<open>pattern_formatter-inl.h\<close>: one definition per formatter
    class, the compiler of patterns and the formatter with its caches. PatternText: the text of every class
    as a specification; PatternCompile: patterns as lists of items; PatternTime: the caches.
    PatternFull: the default pattern.
  \<^item> CircularQ: \<open>circular_q.h\<close>, refined to a bounded queue (locale \<open>bounded_queue\<close>). LogQueues:
    \<open>mpmc_blocking_q.h\<close> as operations under its mutex, \<open>backtracer-inl.h\<close>.
  \<^item> LogSink, LogCore, LogRegistry: the console and the ring buffer sink, \<open>logger-inl.h\<close>, \<open>registry-inl.h\<close>
    and \<open>dwt::Logger\<close> of \<open>Logger.h\<close>. LogConsole: what the console shows; LogDemo: the witnesses' environment.
  \<^item> FmtSpecs, FmtParse: the packed format specifiers and their parser (\<open>fmt/bundled/base.h\<close>); FmtBase, FmtUtf8,
    FmtWrite: digits in a power-of-two base, UTF-8, escapes, padding and the writers of every built-in type
    (\<open>format.h\<close>, \<open>format-inl.h\<close>); FmtFormat: arguments, replacement fields and \<open>vformat_to\<close>. Utf8Text, FmtInt,
    FmtRender: texts of code points, integers and arguments as specifications; FmtSafe: formatting never
    leaves its buffers. FmtDesc, FmtTemplate: specifiers and format strings as data, and what the parser makes of them.
  \<^item> LogFormat: \<open>logger::log_\<close> with its formatting and the macros of \<open>Logger.h\<close>; NetFormat: the texts of the server as
    format strings.
  \<^item> LogAsync: \<open>thread_pool-inl.h\<close>, \<open>async_logger-inl.h\<close>, \<open>async.h\<close>. AsyncRuns: the threads that log, the threads of the pool
    and the destructor as a step relation, and the way of the messages through it; AsyncStop: the destructor
    returns; AsyncDemo: a run for the witnesses.
  \<^item> LogFiles: a disk and \<open>file_helper-inl.h\<close>, \<open>basic_file_sink-inl.h\<close>; LogRotate: \<open>rotating_file_sink-inl.h\<close> and the log its
    files hold; LogDaily: \<open>daily_file_sink.h\<close>, \<open>hourly_file_sink.h\<close>, the names with a date and the files that are kept.
  \<^item> LogAdmin: copies of loggers, \<open>synchronous_factory.h\<close>, \<open>periodic_worker.h\<close>, the rest of the registry; LogConfig:
    \<open>cfg/helpers-inl.h\<close>, \<open>argv.h\<close>, \<open>env.h\<close>; LogDist: \<open>dist_sink.h\<close>, \<open>dup_filter_sink.h\<close> and what the filter passes on.
  \<^item> LogHex: \<open>fmt/bin_to_hex.h\<close>, dumps of bytes and what they look like.
  \<^item> LogNet: \<open>tcp_client.h\<close>, \<open>tcp_sink.h\<close>, \<open>udp_client.h\<close>, \<open>udp_sink.h\<close>, with the sockets they hold and the bytes they
    send; LogSystem: \<open>syslog_sink.h\<close>, \<open>systemd_sink.h\<close>, \<open>stdout_sinks-inl.h\<close>, \<open>mdc.h\<close>.

  \<^bold>\<open>What is shown.\<close> The properties below, numbered C1, C2, ..., each with a witness where it has
  hypotheses: byte streams and their shutdown (C1, C2), interest lists, the wake-up protocol and the queue (C3 to
  C5), the pool (C6, C7), names and release of connections, their reads and writes (C8 to C11), dispatch and
  the loop (C12 to C14), buffers (C15, C16), format strings, specifiers and arguments (C17 to C21), logging
  from the statement to the console, patterns, the backtrace and the levels (C22 to C29), asynchronous logging (C30 to C33),
  log files (C34 to C36), the life of a thread (C37), and three places where the code does not do what it means to
  (C38 to C40; C33 and C36 are others).
  Further theorems of the same kind follow them.

  \<^bold>\<open>Bounds.\<close> \<open>size_t\<close>, ports and event masks are words and wrap; file descriptors, thread ids and \<open>int\<close> counters
  are integers, with the 31-bit bound stated where it matters. \<open>loop_while\<close> has fuel, since a server loop need
  not end; C14 says exactly when some fuel is enough.

  \<^bold>\<open>Not modelled.\<close> Weak memory and data races other than the interleavings of LoopProtocol; logging calls
  inside the modelled functions of the server (they change no state of the server, except that \<open>LOG_FATAL\<close> aborts and
  that a pointer dereferenced only to be logged is dereferenced in the model); the \<open>USE_COMPOSIZTION\<close> variant of
  \<open>EventLoopThread\<close>, which the build excludes; the examples and tests. Of \<open>fmt\<close>: the digits of floating-point numbers (an argument
  \<open>Float_arg\<close> carries its texts), user-defined formatters (\<open>Custom_arg\<close> carries the function), 128-bit integers,
  grouping by locales (the parameter \<open>loc\<close>), compile-time checks of format strings, and the headers the program does
  not use (\<open>chrono.h\<close>, \<open>ranges.h\<close>, \<open>std.h\<close>, \<open>color.h\<close>, \<open>printf.h\<close>, ...). Of spdlog: the sinks
  for Kafka, MongoDB, Qt, Android and Windows, and \<open>stopwatch.h\<close>.
\<close>

section \<open>The byte stream of a connection\<close>

text \<open>
  C1: in any sequence of \<open>sendInLoop\<close> calls and writable events on an open connection whose writes do not
  fail, the bytes on the wire followed by those in the output buffer are exactly the bytes that were
  there before, followed by the messages in the order they were sent: nothing is lost, repeated or
  reordered.
\<close>

theorem stream_is_preserved:
  assumes "conn_kernel K reg wire (conn_fd co)" and "conn_at reg x co ch w"
    and "m_state co \<noteq> kDisconnected" and "stream_run K x w msgs w'"
  shows "\<exists>co' ch'. conn_at reg x co' ch' w' \<and>
    wire (kst w') @ contents (m_outputBuffer co') =
      (wire (kst w) @ contents (m_outputBuffer co)) @ concat msgs"
  using stream_run_ok [OF assms(4,1,2,3)] by (auto simp: outgoing_def)

theorem stream_is_preserved_witness:
  "\<exists>w' (co' :: tcp_conn). stream_run demo_kernel 5 demo_world [[104, 101, 108, 108, 111]] w' \<and>
    d_wire (kst w') 7 @ contents (m_outputBuffer co') = [104, 101, 108, 108, 111]"
proof -
  obtain w' where r: "stream_run demo_kernel 5 demo_world [[104, 101, 108, 108, 111]] w'"
    using demo_run by blast
  from stream_is_preserved [OF demo_K demo_conn_at demo_open(1) r]
  obtain co' :: tcp_conn where "d_wire (kst w') 7 @ contents (m_outputBuffer co') = [104, 101, 108, 108, 111]"
    by (auto simp: demo_conn_def demo_kst0_def)
  with r show ?thesis by blast
qed

text \<open>
  C2: when the last of the output has been written, the write interest is dropped, the write-complete
  functor is queued, and a connection that is shutting down closes its writing side, at a point where
  every byte it buffered is on the wire.
\<close>

theorem drained_then_shut_down:
  assumes "conn_kernel K reg wire (conn_fd co)" and "conn_at reg x co ch w"
    and "isWriting ch" and "contents (m_outputBuffer co) \<noteq> []"
    and "sys_write K (conn_fd co) (contents (m_outputBuffer co)) (kst w) = ((n, e), k)" and "n \<noteq> -1"
    and "unat n = length (contents (m_outputBuffer co))"
  shows "\<exists>w' co' ch' k2. conn_handleWrite K x w = Inr w' \<and> conn_at reg x co' ch' w' \<and>
    contents (m_outputBuffer co') = [] \<and> \<not> isWriting ch' \<and>
    wire k2 = wire (kst w) @ contents (m_outputBuffer co) \<and>
    kst w' = (if m_state co = kDisconnecting then shutdownWrite K (conn_fd co) k2 else k2) \<and>
    pendings w' = (pendings w)(conn_loop co := pendings w (conn_loop co) @
      (case writeCompleteCallback co of Some i \<Rightarrow> [WriteCompleteCb i x] | None \<Rightarrow> []))"
  using handleWrite_all [OF assms] by blast

theorem drained_then_shut_down_witness:
  "\<exists>w' k2. conn_handleWrite demo_kernel 5 (busy_world kDisconnecting) = Inr w' \<and>
    d_wire k2 7 = [111, 112] \<and> kst w' = shutdownWrite demo_kernel 7 k2"
proof -
  have "sys_write demo_kernel (conn_fd (busy_conn kDisconnecting))
      (contents (m_outputBuffer (busy_conn kDisconnecting))) (kst (busy_world kDisconnecting)) =
    ((2, 0), busy_kst\<lparr>d_wire := (d_wire busy_kst)(7 := [111, 112])\<rparr>)"
    using busy_write by simp
  from drained_then_shut_down [OF busy_K busy_conn_at busy_writing _ this]
  show ?thesis by (auto simp: busy_kst_def demo_kst0_def)
qed

section \<open>Interest registered with the kernel, the functor queue\<close>

text \<open>
  C3: whatever edit a channel makes to its event mask (\<open>enableReading\<close>, \<open>disableWriting\<close>, \<open>disableAll\<close>,
  ...), the call succeeds, the poller's books still agree with the kernel's interest list, the kernel
  now watches the channel with exactly the new mask, and no other channel's registration changes. The
  one exception is a registered channel whose new mask is empty, which the kernel stops watching.
\<close>

theorem interest_follows_mask:
  assumes "epoll_contract K reg" and "poller_inv reg L w" and "usable L w c"
  shows "\<exists>w'. update_events K c f w = Inr w' \<and> poller_inv reg L w' \<and>
    chan_mask w' c = f (chan_mask w c) \<and>
    kernel_watch reg L w' c =
      (if f (chan_mask w c) = kNoneEvent \<and> kernel_watch reg L w c \<noteq> None then None
       else Some (f (chan_mask w c))) \<and>
    (\<forall>d. d \<noteq> c \<longrightarrow> usable L w d \<longrightarrow> kernel_watch reg L w' d = kernel_watch reg L w d)"
  using epoll.change_ok [OF conjI [OF assms(1,2)] assms(3), of f] by auto

theorem interest_follows_mask_witness:
  "\<exists>w'. enableWriting demo_kernel 2 demo_world = Inr w' \<and> kernel_watch d_reg 0 w' 2 = Some 7"
  using interest_follows_mask [OF demo_epoll demo_poller_inv demo_usable, of "\<lambda>e. e OR kWriteEvent"]
  by (auto simp: enableWriting_def chan_mask_def demo_chan_def kWriteEvent_val kNoneEvent_def)



text \<open>
  C5: one drain of a loop's queue runs exactly the functors that were pending when it began, in the
  order in which they were queued, with the queue already emptied and the calling flag set; and nothing
  that is queued meanwhile is lost: what a prefix of them left in the queue is still at its front when
  the drain is over.
\<close>

theorem drain_runs_the_pending:
  assumes "user_keeps queues_grow U" and "\<forall>i v v'. user i v = Inr v' \<longrightarrow> queues_grow v v'"
    and "loops w L = Some l" and "m_pendingFunctors l = fs @ gs"
    and "doPendingFunctors (exec K U user) L w = Inr w'"
  shows "\<exists>w1. run_functors (exec K U user) fs
      (w\<lparr>loops := (loops w)(L \<mapsto> l\<lparr>m_callingPendingFunctors := True, m_pendingFunctors := []\<rparr>)\<rparr>) = Inr w1 \<and>
    (\<exists>w2. run_functors (exec K U user) gs w1 = Inr w2 \<and> set_calling False L w2 = Inr w') \<and>
    (\<exists>new. pendings w' L = pendings w1 L @ new)"
proof -
  have app: "appending (exec K U user) L" using exec_appending [OF assms(1)] assms(2) by blast
  let ?w = "w\<lparr>loops := (loops w)(L \<mapsto> l\<lparr>m_callingPendingFunctors := True, m_pendingFunctors := []\<rparr>)\<rparr>"
  from assms(4) have "pendings w L = fs @ gs" by (simp add: pendings_def assms(3))
  with assms(5) obtain w1 w2 where w: "run_functors (exec K U user) fs ?w = Inr w1"
    "run_functors (exec K U user) gs w1 = Inr w2" "set_calling False L w2 = Inr w'"
    by (auto simp: doPendingFunctors_eq [OF assms(3)] run_functors_append)
  have "loops w1 L \<noteq> None" using run_functors_appending [OF app w(1)] by simp
  then obtain new where "pendings w2 L = pendings w1 L @ new"
    using run_functors_appending [OF app w(2)] by blast
  moreover have "pendings w' = pendings w2" using w(3) by (auto simp: set_calling_def)
  ultimately show ?thesis using w by auto
qed

theorem drain_runs_the_pending_witness:
  "\<exists>w'. doPendingFunctors (exec demo_kernel idle_user (\<lambda>i. Inr)) 0
      (demo_world\<lparr>loops := [0 \<mapsto> demo_loop\<lparr>m_pendingFunctors := [UserFunctor 3, ShutdownInLoop 5]\<rparr>]\<rparr>) = Inr w' \<and>
    pendings w' 0 = [] \<and> d_fin (kst w') = [7]"
proof -
  let ?l = "demo_loop\<lparr>m_pendingFunctors := [UserFunctor 3, ShutdownInLoop 5]\<rparr>"
  let ?w = "demo_world\<lparr>loops := [0 \<mapsto> ?l]\<rparr>"
  let ?e = "exec demo_kernel idle_user (\<lambda>i. Inr :: (demo_kst, unit) server_world_scheme \<Rightarrow> _)"
  have k: "user_keeps queues_grow idle_user" by (rule idle_user_keeps) (simp add: queues_grow_same)
  have l: "loops ?w 0 = Some ?l" by simp
  have "\<exists>w'. doPendingFunctors ?e 0 ?w = Inr w' \<and> d_fin (kst w') = [7] \<and> pendings w' 0 = []"
    by (simp add: doPendingFunctors_eq [OF l] pendings_def exec_def shutdownInLoop_def demo_conn_def
        demo_chan_def isWriting_def kWriteEvent_val shutdownWrite_def set_calling_def
        modify_loop_def demo_kst0_def)
  then obtain w' where w': "doPendingFunctors ?e 0 ?w = Inr w'" and f: "d_fin (kst w') = [7]"
    and p: "pendings w' 0 = []" by blast
  from drain_runs_the_pending [OF k _ l _ w', of "[UserFunctor 3]" "[ShutdownInLoop 5]"]
  have "\<exists>new. pendings w' 0 = pendings w' 0 @ new" by (auto simp: queues_grow_same)
  with w' f p show ?thesis by blast
qed

section \<open>Threads and loops\<close>

text \<open>
  C6: successive calls of \<open>getNextLoop\<close> hand the worker loops out round robin: as many calls as there are
  loops to choose from return each of them once, in a rotation of their order, and leave the pool at the
  same position. The base loop is chosen only when the pool has no worker.
\<close>

theorem round_robin:
  assumes "pool_ok p"
  shows "\<exists>p'. next_loops (length (pool_targets p)) p =
      Inr (map Some (rotate (pool_pos p) (pool_targets p)), p') \<and>
    pool_ok p' \<and> pool_targets p' = pool_targets p \<and>
    pool_pos p' mod length (pool_targets p) = pool_pos p mod length (pool_targets p)"
  unfolding next_loops_picks by (rule pool.picks_round [OF assms])

theorem round_robin_witness:
  "\<exists>p'. next_loops 3 (demo_pool\<lparr>pool_loops := [0, 11, 12, 13], pool_next := 2\<rparr>) =
      Inr ([Some 12, Some 13, Some 11], p')"
proof -
  let ?p = "demo_pool\<lparr>pool_loops := [0, 11, 12, 13], pool_next := 2\<rparr>"
  have ok: "pool_ok ?p" and ts: "pool_targets ?p = [11, 12, 13]" and pos: "pool_pos ?p = Suc 0"
    by (simp_all add: pool_ok_def pool_targets_def pool_pos_def)
  have r: "length [11, 12, 13 :: loop_ptr] = 3" "map Some (rotate (Suc 0) [11, 12, 13 :: loop_ptr]) = [Some 12, Some 13, Some 11]"
    by simp_all
  from round_robin [OF ok] obtain p' where
    "next_loops (length (pool_targets ?p)) ?p = Inr (map Some (rotate (pool_pos ?p) (pool_targets ?p)), p')"
    by blast
  then show ?thesis unfolding ts pos r by (rule exI)
qed

text \<open>
  C7: starting a pool of \<open>n\<close> threads, with a thread-initialisation callback that leaves the loops alone,
  succeeds and returns only when every worker has its loop: the loops are the base loop followed by one
  loop per thread, each owned by the thread that runs it, and the \<open>i\<close>-th thread is named after the pool
  and \<open>i\<close> and has not been joined.
\<close>

theorem pool_starts_every_worker:
  assumes "epoll_contract K reg" and "startup_contract K reg" and "quiet_init cb"
    and "pool_loops p = []" and "numThreads p = int n" and "n < 2 ^ 31" and "fresh_env env {..<n} w"
  shows "\<exists>p' w'. pool_start K False cb env p num w = Inr (p', num + int n, w') \<and> pool_started p' \<and>
    pool_loops p' = baseLoop p # map (env_loop env) [0..<n] \<and>
    pool_threads p' = pool_threads p @ map (worker_thread p env) [0..<n] \<and>
    (\<forall>k < n. runs_worker env w' k)"
  using pool_start_ok [OF assms, of num] by blast

theorem pool_starts_every_worker_witness:
  "\<exists>p' w'. pool_start demo_kernel False None (\<lambda>i. (int i + 200, i + 20, i + 40))
      (setThreadNum 2 (newThreadPool 0 ''demo'')) 0 demo_world = Inr (p', 2, w') \<and>
    pool_loops p' = [0, 20, 21] \<and> map thr_name (pool_threads p') = [''EventLoopThread_demo-0'', ''EventLoopThread_demo-1'']"
proof -
  let ?p = "setThreadNum 2 (newThreadPool 0 ''demo'')"
  let ?env = "\<lambda>i. (int i + 200, i + 20, i + 40)"
  have q: "quiet_init (None :: (demo_kst, unit) server_world_scheme init_cb)" by (simp add: quiet_init_def)
  have p: "pool_loops ?p = []" "numThreads ?p = int 2" "(2 :: nat) < 2 ^ 31"
    by (simp_all add: setThreadNum_def newThreadPool_def)
  have e: "fresh_env ?env {..<2} demo_world"
    by (auto simp: fresh_env_def inj_on_def demo_world_def demo_chan_def)
  from pool_starts_every_worker [OF demo_epoll demo_startup q p e, of 0] show ?thesis
    by (auto simp: setThreadNum_def newThreadPool_def worker_thread_def worker_name_def show_int_def
        upt_rec dec.simps ascii_digit_def char_digits)
qed

section \<open>The life of a connection\<close>





text \<open>
  C10: a readable event appends the bytes the socket delivered to the input buffer, behind those that
  were there, and then calls the message callback; at the end of the stream it takes the closing path
  instead. This holds for every split of the bytes between the buffer and the 64 KiB of the stack.
\<close>

theorem read_event_appends_input:
  assumes "io_contract K reg" and "readv_contract (sys_readv K (conn_fd co))"
    and "conn_at reg x co ch w" and "in_room (m_inputBuffer co)"
    and "sys_readv K (conn_fd co) (readFd_iov (m_inputBuffer co)) (kst w) = ((n, d, e), k)" and "n \<noteq> -1"
  shows "\<exists>w1 b. conn_handleRead K U x t w =
      (if d = [] then conn_handleClose K U x w1
       else call_fn (messageCallback co) (\<lambda>i. on_message U i x t w1)) \<and>
    conn_at reg x (co\<lparr>m_inputBuffer := b\<rparr>) ch w1 \<and>
    contents b = contents (m_inputBuffer co) @ d \<and> kst w1 = k \<and> loops w1 = loops w"
  using handleRead_ok [OF assms, of U t] by blast

theorem read_event_appends_input_witness:
  "\<exists>w1 b. conn_handleRead demo_kernel idle_user 5 0 demo_world = Inr w1 \<and>
    conns w1 5 = Some (demo_conn\<lparr>m_inputBuffer := b\<rparr>) \<and> contents b = [104, 105]"
proof -
  have b: "m_inputBuffer demo_conn = newBuffer kInitialSize" by (simp add: demo_conn_def)
  have i: "sum_list (map unat (readFd_iov (newBuffer kInitialSize))) \<ge> 2"
    by (simp add: readFd_iov_def newBuffer_def writableBytes_def kCheapPrepend_def kInitialSize_def
        extrabuf_size_def)
  then have r: "sys_readv demo_kernel (conn_fd demo_conn) (readFd_iov (m_inputBuffer demo_conn)) (kst demo_world) =
      ((2, [104, 105], 0), demo_kst0\<lparr>d_input := []\<rparr>)"
    unfolding b by (simp add: demo_readv_def demo_kst0_def Let_def min_def)
  have "in_room (m_inputBuffer demo_conn)"
    unfolding b in_room_def newBuffer_def by (simp add: max_object_def kCheapPrepend_def kInitialSize_def extrabuf_size_def)
  from read_event_appends_input [OF demo_io demo_readv_ok demo_conn_at this r, of idle_user 0]
  obtain w1 b where w1: "conn_handleRead demo_kernel idle_user 5 0 demo_world = Inr w1"
    "conn_at d_reg 5 (demo_conn\<lparr>m_inputBuffer := b\<rparr>) demo_chan w1" "contents b = [104, 105]"
    by (auto simp: call_fn_def idle_user_def demo_conn_def)
  with conn_at_conns [OF w1(2)] show ?thesis by blast
qed

text \<open>
  C11: what cannot be written at once goes to the end of the output buffer; the high-water functor is
  queued exactly when this send takes the buffer from below the mark to the mark or above, with the new
  length as its argument; and nothing else is queued.
\<close>

theorem high_water_mark_crossed_once:
  assumes "conn_kernel K reg wire (conn_fd co)" and "conn_at reg x co ch w"
    and "message_at w a msg" and "unat nwrote + unat remaining = length msg" and "0 < remaining"
    and "fits (unat remaining) (m_outputBuffer co)"
  shows "\<exists>w' co' ch'. send_buffered K x a nwrote remaining co w = Inr w' \<and> conn_at reg x co' ch' w' \<and>
    contents (m_outputBuffer co') = contents (m_outputBuffer co) @ drop (unat nwrote) msg \<and>
    pendings w' = (pendings w)(conn_loop co := pendings w (conn_loop co) @
      (case highWaterMarkCallback co of
         Some i \<Rightarrow> if m_highWaterMark co \<le> readableBytes (m_outputBuffer co) + remaining \<and>
                     readableBytes (m_outputBuffer co) < m_highWaterMark co
                  then [HighWaterMarkCb i x (readableBytes (m_outputBuffer co) + remaining)] else []
       | None \<Rightarrow> []))"
  using send_buffered_ok [OF assms] by blast

theorem high_water_mark_crossed_once_witness:
  "\<exists>w' (co' :: tcp_conn). send_buffered demo_kernel 5 9 4 1 demo_conn demo_world = Inr w' \<and>
    contents (m_outputBuffer co') = [111] \<and> pendings w' 0 = []"
proof -
  have u: "unat (4 :: size_t) + unat (1 :: size_t) = length [104, 101, 108, 108, 111 :: byte]" "(0 :: size_t) < 1"
    by simp_all
  have f: "fits (unat (1 :: size_t)) (m_outputBuffer demo_conn)" by (rule demo_room) simp
  from high_water_mark_crossed_once [OF demo_K demo_conn_at demo_message u f]
  obtain w' and co' :: tcp_conn where "send_buffered demo_kernel 5 9 4 1 demo_conn demo_world = Inr w'"
    "contents (m_outputBuffer co') = contents (m_outputBuffer demo_conn) @ drop (unat (4 :: size_t)) [104, 101, 108, 108, 111]"
    "pendings w' = (pendings demo_world)(conn_loop demo_conn := pendings demo_world (conn_loop demo_conn) @ [])"
    by (auto simp: demo_conn_def)
  then show ?thesis by (intro exI [of _ w'] exI [of _ co']) (simp add: demo_conn_def pendings_def demo_loop_def)
qed

section \<open>Dispatch and the loop\<close>

text \<open>
  C12: an event on a channel runs exactly the callbacks its reported mask selects, of those that are
  set, in the order close, error, read, write: hang-up without input selects close, \<open>EPOLLIN\<close> or
  \<open>EPOLLPRI\<close> read, \<open>EPOLLOUT\<close> write; the first failure ends the sequence.
\<close>

theorem dispatch_order:
  assumes "keeps_dispatch run c" and "chans w c = Some ch"
  shows "handelEventWithGuard run c t w = run_all run t
    (pick (m_revents ch AND EPOLLHUP \<noteq> 0 \<and> m_revents ch AND EPOLLIN = 0) (m_closeCallback ch) @
     pick (m_revents ch AND EPOLLERR \<noteq> 0) (m_errorCallback ch) @
     pick (m_revents ch AND (EPOLLIN OR EPOLLPRI) \<noteq> 0) (m_readCallback ch) @
     pick (m_revents ch AND EPOLLOUT \<noteq> 0) (m_writeCallback ch)) w"
  using handelEventWithGuard_selected [OF assms, of t]
  by (simp add: selected_def closeCond_def errorCond_def readCond_def writeCond_def)

theorem dispatch_order_witness:
  "handelEventWithGuard (\<lambda>f t. Inr) 2 0 (demo_world\<lparr>chans := [2 \<mapsto> demo_chan\<lparr>m_revents := 5\<rparr>]\<rparr>) =
    run_all (\<lambda>f t. Inr) 0 [ConnHandleRead 5, ConnHandleWrite 5]
      (demo_world\<lparr>chans := [2 \<mapsto> demo_chan\<lparr>m_revents := 5\<rparr>]\<rparr>)"
proof -
  let ?w = "demo_world\<lparr>chans := [2 \<mapsto> demo_chan\<lparr>m_revents := 5\<rparr>]\<rparr>"
  have k: "keeps_dispatch (\<lambda>f t. Inr) 2" by (simp add: keeps_dispatch_def)
  have c: "chans ?w 2 = Some (demo_chan\<lparr>m_revents := 5\<rparr>)" by simp
  have bits: "(5 :: u32) AND EPOLLHUP = 0" "(5 :: u32) AND EPOLLERR = 0"
    "(5 :: u32) AND (EPOLLIN OR EPOLLPRI) \<noteq> 0" "(5 :: u32) AND EPOLLOUT \<noteq> 0"
    by (simp_all add: epoll_bits)
  have cbs: "m_revents (demo_chan\<lparr>m_revents := 5\<rparr>) = 5"
    "m_readCallback (demo_chan\<lparr>m_revents := 5\<rparr>) = Some (ConnHandleRead 5)"
    "m_writeCallback (demo_chan\<lparr>m_revents := 5\<rparr>) = Some (ConnHandleWrite 5)"
    by (simp_all add: demo_chan_def)
  show ?thesis
    unfolding dispatch_order [where run = "\<lambda>f t. Inr" and t = 0, OF k c] cbs pick_def
    by (simp only: bits if_False if_True simp_thms option.case append.simps)
qed

text \<open>
  C13: a poll returns the channels of the events the kernel reported, in its order, with each one's
  \<open>m_revents\<close> set to the reported mask; the books are untouched and still agree with the kernel, and the
  event array doubles exactly when the kernel filled it.
\<close>

theorem poll_reports_kernel_events:
  assumes "epoll_wait_contract K reg" and "poller_inv reg L w" and "pollers w L = Some p"
    and "sys_epoll_wait K (m_epfd p) (length (m_evlist p)) t (kst w) = ((r, evs, e), k1)"
  shows "\<exists>now w' p'. poll K L t active w = Inr (now, active @ map snd evs, w') \<and>
    poller_inv reg L w' \<and> chans w' = set_revents_all evs (chans w) \<and>
    pollers w' = (pollers w)(L \<mapsto> p') \<and> m_channels p' = m_channels p \<and>
    events_capacity p' = (if evs \<noteq> [] \<and> length evs = events_capacity p then 2 * events_capacity p
                          else events_capacity p)"
  using poll_ok [OF assms, of active] by blast

theorem poll_reports_kernel_events_witness:
  "\<exists>now w'. poll demo_kernel 0 kPollTimeMs [] demo_world = Inr (now, [2], w') \<and>
    chans w' 2 = Some (demo_chan\<lparr>m_revents := 1\<rparr>)"
proof -
  let ?p = "\<lparr>m_epfd = 3, m_evlist = replicate 16 (0, 0), m_channels = [7 \<mapsto> 2]\<rparr>"
  have p: "pollers demo_world 0 = Some ?p" by simp
  have "sys_epoll_wait demo_kernel (m_epfd ?p) (length (m_evlist ?p)) kPollTimeMs (kst demo_world) =
      ((1, [(1, 2)], 0), demo_kst0\<lparr>d_ready := []\<rparr>)"
    by (simp add: demo_wait_def demo_kst0_def List.map_filter_simps)
  from poll_reports_kernel_events [OF demo_wait_ok demo_poller_inv p this, of "[]"] show ?thesis by auto
qed



section \<open>Buffers\<close>

text \<open>
  C15: \<open>append\<close> adds the bytes behind the readable ones, growing or compacting the vector as needed, and
  keeps the buffer well formed; it fails, by \<open>std::length_error\<close> and with nothing written, exactly when
  neither the free space nor the largest possible vector has room.
\<close>

theorem append_or_length_error:
  assumes "buffer_inv b" and "length obj \<le> max_object" and "unat pos + unat len \<le> length obj"
  shows "if fits (unat len) b
    then \<exists>b'. append_data obj pos len b = Inr b' \<and> buffer_inv b' \<and>
           contents b' = contents b @ take (unat len) (drop (unat pos) obj)
    else append_data obj pos len b = Inl LengthError"
  using append_ok [OF assms] append_too_long [OF assms] by auto

theorem append_or_length_error_witness:
  "\<exists>b'. append_data [1, 2, 3] 1 2 demo_out = Inr b' \<and> contents b' = [111, 112, 2, 3]"
proof -
  have "fits (unat (2 :: size_t)) demo_out" by (simp add: fits_def demo_out_def writableBytes_def)
  with append_or_length_error [of demo_out "[1, 2, 3]" 1 2] show ?thesis by (auto simp: max_object_def)
qed

text \<open>
  C16: what is appended as a string is what \<open>retrieveAllAsString\<close> returns, behind the bytes that were
  already there, and the buffer is then empty.
\<close>

theorem append_retrieve_roundtrip:
  assumes "buffer_inv b" and "length s \<le> max_object" and "fits (length s) b"
  shows "\<exists>b' b''. appendStr s b = Inr b' \<and> retrieveAllAsString b' = Inr (contents b @ s, b'') \<and>
    buffer_inv b'' \<and> contents b'' = []"
proof -
  from appendStr_ok [OF assms] obtain b' where b': "appendStr s b = Inr b'" "buffer_inv b'"
    "contents b' = contents b @ s" by blast
  with retrieveAllAsString_ok [OF b'(2)] show ?thesis by auto
qed

theorem append_retrieve_roundtrip_witness:
  "\<exists>b' b''. appendStr [7, 8] demo_out = Inr b' \<and> retrieveAllAsString b' = Inr ([111, 112, 7, 8], b'')"
proof -
  have "fits (length [7, 8 :: byte]) demo_out" by (simp add: fits_def demo_out_def writableBytes_def)
  with append_retrieve_roundtrip [of demo_out "[7, 8]"] show ?thesis by (auto simp: max_object_def)
qed

section \<open>Formatting\<close>

text \<open>
  C17: formatting never faults: whatever the format string, the arguments and the locale, \<open>vformat_to\<close> ends with a
  text or throws \<open>format_error\<close>. It never reads outside the string, a table or a digit buffer, never fails an
  assertion and never reads the wrong member of a union; user-defined formatters are assumed to be as well
  behaved.
\<close>

theorem formatting_never_faults:
  assumes "args_ok args"
  shows "(\<exists>out. vformat_to loc fmt args = Inr out) \<or> (\<exists>what. vformat_to loc fmt args = Inl (FormatError what))"
  using vformat_to_safe [OF assms, of loc fmt] by (cases "vformat_to loc fmt args") simp_all

theorem formatting_never_faults_witness:
  "\<exists>what. vformat_to (\<lambda>a s. None) ''{:5'' (make_format_args [String_arg ''x'']) = Inl (FormatError what)"
proof -
  let ?a = "make_format_args [String_arg ''x'']"
  have ok: "args_ok ?a" by (simp add: args_ok_def make_format_args_def)
  have d: "parse_nonnegative_int ''5'' (-1) = Inr (5, [])"
    using parse_nonnegative_int_dec [of 5 "[]" "-1"] by (simp add: int_max_def dec.simps ascii_digit_def char_digits)
  have "parse_format_specs ''5'' default_dynamic_specs 1 string_type =
      Inr (set_dynamic_width id_none (default_dynamic_specs\<lparr>specs_width := 5\<rparr>), 1, [])"
    by (simp add: parse_format_specs_def specs_loop.simps spec_step_def Let_def enter_state_def parse_width_def
        parse_dynamic_spec_def fmt_digit_def d)
  then have "format_builtin (\<lambda>a s. None) ?a (String_arg ''x'') 1 ''5'' \<noteq> Inr (t, m, c # rest)" for t m c rest
    by (auto simp: format_builtin_def bindR_eq_Inr)
  then have "vformat_to (\<lambda>a s. None) ''{:5'' ?a \<noteq> Inr out" for out
    by (auto simp: vformat_to_loop parse_replacement_field_def next_arg_id_def finish_specs_def on_format_specs_def
        get_arg_def make_format_args_def bindR_eq_Inr neq_Nil_conv split: if_splits)
  then show ?thesis using formatting_never_faults [OF ok, of "\<lambda>a s. None" "''{:5''"] by blast
qed

text \<open>
  C18: format strings mean what they say: a template is literal texts (with their braces doubled) and fields
  with an automatic, numbered or named argument and optional specifiers, whose width and precision may be
  arguments themselves. Formatting its text prints its literal texts and, for each field, the text of the
  argument by the specifiers.
\<close>

theorem templates_format:
  assumes "template_output args 0 ps = Some out"
  shows "vformat_to loc (template_text ps) args = Inr out"
  using assms by (rule vformat_to_template)

theorem templates_format_witness:
  "vformat_to (\<lambda>a s. None) ''{{{:04}}} {who}'' \<lparr>arg_list = [Int_arg 7, String_arg ''bob''], named_args = [(''who'', 1)]\<rparr> =
    Inr ''{0007} bob''"
proof -
  let ?a = "\<lparr>arg_list = [Int_arg 7, String_arg ''bob''], named_args = [(''who'', 1)]\<rparr>"
  let ?ps = "[Literal ''{'', Field Next_arg (Some (zero_pad 4)), Literal ''} '', Field (Arg_named ''who'') None]"
  have p: "fmt_pad 4 7 = Inr ''0007''"
    by (simp add: fmt_pad_def fmt_uint_eq dec.simps [of 7] ascii_digit_def char_digits numeral_3_eq_3)
  have "field_output ?a 0 Next_arg (Some (zero_pad 4)) = Some (''0007'', 1)"
    using zero_pad_field [of 4 7 0 ?a] p by (simp add: int_max_def get_arg_def)
  then have "template_output ?a 0 ?ps = Some ''{0007} bob''"
    by (simp add: field_output_def [of _ _ "Arg_named _"] get_named_id_def get_arg_def name_ok_def is_name_start_def)
  moreover have "template_text ?ps = ''{{{:04}}} {who}''"
    by (simp add: template_text_def double_braces_def zero_pad_text ascii_digit_def char_digits)
  ultimately show ?thesis using templates_format [of ?a ?ps "''{0007} bob''" "\<lambda>a s. None"] by simp
qed



text \<open>
  C20: every built-in argument prints its text by the specifiers: integers in every base with sign, prefix, zeros
  and padding, texts cut and padded by code points, booleans, characters and pointers, in the place the alignment
  gives them; the packed prefix word, the digit buffers and the padding shifts hold nothing else. The digits in
  base 2, 8 and 16 determine the number.
\<close>

theorem arguments_print_their_text:
  assumes "layout_ok specs" and "presentation_ok (arg_type a) (spec_type specs)" and "spec_printable a specs"
  shows "write_arg loc a specs = Inr (spec_output a specs) \<and>
    (\<forall>k upper v. k \<in> {1, 3, 4} \<longrightarrow> from_base k (base_digits k upper v) = v)"
  using write_arg_eq [OF assms] from_base_digits by blast

theorem arguments_print_their_text_witness:
  "write_arg (\<lambda>a s. None) (Int_arg (- 255)) (set_type pres_hex default_specs) = Inr ''-ff''"
proof -
  let ?s = "set_type pres_hex default_specs"
  have v: "spec_type ?s = pres_hex" "spec_align ?s = align_none" "fill_size ?s = 1" "length (fill_data ?s) = 4"
    "spec_sign ?s = sign_none" "\<not> spec_alt ?s" "\<not> spec_upper ?s" "\<not> spec_localized ?s"
    "specs_width ?s = 0" "specs_precision ?s = -1"
    by (simp_all add: spec_fields) (simp_all add: default_specs_def spec_getters masks sign_cast_def)
  have "layout_ok ?s" by (simp add: layout_ok_def v)
  moreover have "presentation_ok (arg_type (Int_arg (- 255))) (spec_type ?s)"
    by (simp add: presentation_ok_def v)
  moreover have "base_digits 4 False 255 = ''ff''"
    by (simp add: base_digits.simps [of 4 False 255] base_digits.simps [of 4 False 15] digit_char_def)
  then have "spec_output (Int_arg (- 255)) ?s = ''-ff''"
    by (simp add: int_output_def v aligned_none int_body_def sign_text_def base_prefix_def zeros_text_def digits_text_def)
  ultimately show ?thesis
    using arguments_print_their_text [of ?s "Int_arg (- 255)" "\<lambda>a s. None"] by simp
qed

text \<open>
  C21: parsed specifiers are well typed: from the default specifiers, whatever the text and the argument type, the
  parser leaves a suffix and specifiers with width and precision in the range of \<open>int\<close>, a fill of one to four
  code units, argument references whose kind says which member of the union was written, and a presentation the
  argument type has; with these, once resolved, writing any argument of the type gives a text or a format error.
\<close>

theorem parsed_specifiers_are_well_typed:
  assumes "parse_format_specs s default_dynamic_specs n t = Inr (sp, m, rest)"
  shows "specs_ok sp \<and> presentation_ok t (spec_type sp) \<and> (\<exists>ps. s = ps @ rest) \<and>
    (\<forall>args sp' a loc. resolve_dynamic sp args = Inr sp' \<longrightarrow> arg_type a = t \<longrightarrow> format_safe (\<lambda>_. True) (write_arg loc a sp'))"
proof -
  from parse_format_specs_ok [of s t n] assms
  have ok: "specs_ok sp" "presentation_ok t (spec_type sp)" "\<exists>ps. s = ps @ rest" by simp_all
  moreover have "format_safe (\<lambda>_. True) (write_arg loc a sp')" if "resolve_dynamic sp args = Inr sp'" "arg_type a = t"
    for args sp' a loc
    using write_arg_safe [of a sp' loc] resolve_dynamic_safe [OF ok(1), of args] ok(2) that by simp
  ultimately show ?thesis by blast
qed

theorem parsed_specifiers_are_well_typed_witness:
  "\<exists>sp m rest. parse_format_specs ''*^+#12x}'' default_dynamic_specs 0 int_type = Inr (sp, m, rest) \<and>
    specs_ok sp \<and> presentation_ok int_type (spec_type sp)"
proof -
  have ok: "desc_ok int_type demo_desc"
    by (simp add: desc_ok_def demo_desc_def scalar_value_def signed_types_def integral_types_def float_types_def int_max_def
        type_table_def)
  have "desc_text demo_desc = ''*^+#12x''"
    by (simp add: desc_text_def demo_desc_def utf8_encode_def flag_text_def precision_text_def dec.simps ascii_digit_def
        char_digits prefix_codes) code_simp
  then obtain sp where p: "parse_format_specs ''*^+#12x}'' default_dynamic_specs 0 int_type = Inr (sp, 0, ''}'')"
    using parse_format_specs_desc [OF ok, of "[]" default_dynamic_specs 0] apply_desc_static [OF ok, of 0]
    by (auto simp: demo_desc_def)
  from parsed_specifiers_are_well_typed [OF this] p show ?thesis by blast
qed

section \<open>Logging\<close>

text \<open>
  C22: after \<open>dwt::Logger::init\<close> the logging statements of the program show on the console, one line per statement
  of at least the level given to \<open>init\<close>, in the order of the statements and with the time of each:
  \<open>[date time.ms] [level] file:line text\<close>, where the text is what the statement's format string prints for its
  arguments. Nothing else is shown and nothing fails.
\<close>

theorem init_then_log_statements:
  assumes "new_registry terminal i L W0 = (R0, W1)" and "takes_all fw" and "clock_ok env" and "os_pid env < 2 ^ 32"
    and "here \<noteq> 0" and "\<forall>s\<in>set ss. statement_output here s \<noteq> None \<and> call_ok (statement_call here s)"
  shows "\<exists>R W W'. Logger_init env h min_level R0 W1 = Inr (R, W) \<and> run_statements env loc fw here ss R W = Inr W' \<and>
    console_text i W' = concat (map (\<lambda>s. if min_level \<le> s_level s
      then dwt_line env (s_now s) (s_level s) (macro_text (s_file s) (s_line s) (the (statement_output here s))) else []) ss)"
proof -
  from Logger_init_ready [OF assms(1)] obtain R W where R: "Logger_init env h min_level R0 W1 = Inr (R, W)"
    "console_ready env i L min_level R W" "console_text i W = []" by blast
  have ok: "\<forall>e\<in>set (map (statement_call here) ss). call_ok e" using assms(6) by simp
  from console_log_calls [OF R(2) assms(2-4) ok] obtain W' where
    "log_calls env fw (map (statement_call here) ss) R W = Inr W'"
    "console_text i W' = concat (map (call_line env min_level) (map (statement_call here) ss))" using R(3) by auto
  moreover have "call_line env min_level (statement_call here s) = (if min_level \<le> s_level s
      then dwt_line env (s_now s) (s_level s) (macro_text (s_file s) (s_line s) (the (statement_output here s))) else [])" for s
    by (simp add: statement_call_def)
  ultimately show ?thesis using R(1) run_statements_calls [OF assms(5)] assms(6) by (auto simp: comp_def)
qed

theorem init_then_log_statements_witness:
  "\<exists>R W W'. Logger_init demo_env 0 info (fst (new_registry False 3 4 empty_log_world)) (snd (new_registry False 3 4 empty_log_world)) =
      Inr (R, W) \<and>
    run_statements demo_env (\<lambda>a s. None) (\<lambda>file bytes. length bytes) 8
      [\<lparr>s_now = 3000000000, s_tid = 7, s_level = info, s_file = ''Thread.cpp'', s_line = 39,
        s_template = [Literal ''creating thread '', Field Next_arg None], s_args = [String_arg ''io'']\<rparr>] R W = Inr W' \<and>
    console_text 3 W' = ''[2024-01-02 13:04:05.000] [info] Thread.cpp:39 creating thread io'' @ [CHR 0x0A]"
proof -
  let ?r = "new_registry False 3 4 empty_log_world" and ?fw = "\<lambda>(file :: string) (bytes :: string). length bytes"
  let ?s = "\<lparr>s_now = 3000000000, s_tid = 7, s_level = info, s_file = ''Thread.cpp'', s_line = 39,
        s_template = [Literal ''creating thread '', Field Next_arg None], s_args = [String_arg ''io'']\<rparr>"
  have r: "new_registry False 3 4 empty_log_world = (fst ?r, snd ?r)" by simp
  have fw: "takes_all ?fw" by (simp add: takes_all_def)
  have o: "statement_output 8 ?s = Some ''creating thread io''"
    by (simp add: statement_output_def field_output_def get_arg_def macro_args_def make_format_args_def)
  then have c: "\<forall>s\<in>set [?s]. statement_output 8 s \<noteq> None \<and> call_ok (statement_call 8 s)"
    by (simp add: statement_call_def ns_per_sec_def)
  have "dec 39 = ''39''" by (simp add: dec.simps [of 39] dec.simps [of 3] ascii_digit_def char_digits)
  then have m: "macro_text ''Thread.cpp'' 39 ''creating thread io'' = ''Thread.cpp:39 creating thread io''"
    by (simp add: macro_text_def show_int_def)
  have line: "dwt_line demo_env 3000000000 info ''Thread.cpp:39 creating thread io'' =
      ''[2024-01-02 13:04:05.000] [info] Thread.cpp:39 creating thread io'' @ [CHR 0x0A]"
    by (simp add: dwt_line_def Let_def dec_2024 two_small ns_per_sec_def zero_padded_3 ascii_digit_def
        char_digits to_string_view_def level_string_views_def)
  have "os_pid demo_env < 2 ^ 32" by simp
  from init_then_log_statements [OF r fw demo_clock this _ c, of 0 info "\<lambda>a s. None"] o m line show ?thesis by simp
qed

text \<open>
  C23: a logging statement with a wrong format string (unmatched brace, unknown specifier, missing argument, an
  argument numbered by hand) does no harm: after \<open>dwt::Logger::init\<close> it returns, shows nothing, and hands the
  message of the exception to the handler \<open>init\<close> has set.
\<close>

theorem wrong_format_reaches_handler:
  assumes "new_registry terminal i L W0 = (R0, W1)" and "min_level \<le> lvl"
    and "vformat_to loc (''{}:{} '' @ fmt) (macro_args here file line_no args) = Inl (FormatError what)"
  shows "\<exists>R W W'. Logger_init env h min_level R0 W1 = Inr (R, W) \<and>
    LOG env loc fw thr lvl here file line_no fmt args R W = Inr W' \<and>
    err_calls W' = err_calls W @ [(h, what)] \<and> console_text i W' = []"
proof -
  from Logger_init_ready [OF assms(1)] Logger_init_handler [OF assms(1), of env h min_level] obtain R W where
    R: "Logger_init env h min_level R0 W1 = Inr (R, W)" "console_ready env i L min_level R W" "console_text i W = []"
    and h: "handler_set L h W" by fastforce
  from LOG_error [OF R(2) h assms(2,3)] R show ?thesis by metis
qed

theorem wrong_format_reaches_handler_witness:
  "\<exists>R W W'. Logger_init demo_env 5 info (fst (new_registry False 3 4 empty_log_world)) (snd (new_registry False 3 4 empty_log_world)) =
      Inr (R, W) \<and>
    LOG demo_env (\<lambda>a s. None) (\<lambda>file bytes. length bytes) 7 err 8 ''a.cpp'' 3 ''{0}'' [Int_arg 1] R W = Inr W' \<and>
    err_calls W' = err_calls W @ [(5, ''cannot switch from automatic to manual argument indexing'')] \<and> console_text 3 W' = []"
proof -
  let ?r = "new_registry False 3 4 empty_log_world"
  have r: "new_registry False 3 4 empty_log_world = (fst ?r, snd ?r)" by simp
  have "vformat_to (\<lambda>a s. None) (''{}:{} '' @ ''{0}'') (macro_args 8 ''a.cpp'' 3 [Int_arg 1]) =
      Inl (FormatError ''cannot switch from automatic to manual argument indexing'')"
    using macro_manual_index [of 8 0 "CHR ''}''" "\<lambda>a s. None" "[]" "''a.cpp''" 3 "[Int_arg 1]"] by (simp add: dec_0)
  moreover have "info \<le> err" by (simp add: less_eq_level_enum_def)
  ultimately show ?thesis using wrong_format_reaches_handler [OF r] by blast
qed



text \<open>
  C25: the default pattern prints every message at its own time: a formatter made without a pattern, whatever it has formatted
  before, appends \<open>[date.ms] [name] [level] [file:line] [context] payload\<close> for the calendar time of
  the message, and marks the level as the range to be coloured.
\<close>

theorem default_pattern_prints:
  assumes "clock_ok env" and "\<forall>m\<in>set (msg # msgs). message_ok env m \<and> msg_secs m \<noteq> 0"
  shows "\<exists>pf pf' i j. format_all env (default_pattern_formatter ty eol) msgs = Inr pf \<and>
    format_message env pf msg dest = Inr (pf', colored i j msg, dest @ full_text env msg (get_time env pf msg) @ eol) \<and>
    time_type pf = ty \<and> i = length (dest @ full_before_level msg (get_time env pf msg)) \<and> j = i + length (to_string_view (msg_level msg))"
proof -
  have "\<exists>pf'. format_all env pf ms = Inr pf' \<and> default_ok env pf' \<and> pf_eol pf' = pf_eol pf \<and> time_type pf' = time_type pf"
    if "default_ok env pf" "\<forall>m\<in>set ms. message_ok env m \<and> msg_secs m \<noteq> 0" for pf ms
    using that
  proof (induction ms arbitrary: pf)
    case (Cons m ms)
    from default_format [OF Cons.prems(1) assms(1), of m "[]"] Cons.prems(2) obtain pf1 i j where
      f: "format_message env pf m [] = Inr (pf1, colored i j m, full_text env m (get_time env pf m) @ pf_eol pf)"
      "default_ok env pf1" "pf_eol pf1 = pf_eol pf" "time_type pf1 = time_type pf" by auto
    from Cons.IH [OF f(2)] Cons.prems(2) f show ?case by auto
  qed simp
  from this [OF default_ok_new, of msgs ty eol] assms(2) obtain pf where
    pf: "format_all env (default_pattern_formatter ty eol) msgs = Inr pf" "default_ok env pf" "pf_eol pf = eol" "time_type pf = ty"
    by (auto simp: default_pattern_formatter_def)
  from default_format [OF pf(2) assms(1), of msg dest] assms(2) pf show ?thesis by fastforce
qed

theorem default_pattern_prints_witness:
  "\<exists>pf pf' i j. format_all two_days (default_pattern_formatter local_time []) [late_msg 5] = Inr pf \<and>
    format_message two_days pf (late_msg 90000) [] =
      Inr (pf', colored i j (late_msg 90000), full_text two_days (late_msg 90000) (get_time two_days pf (late_msg 90000)))"
proof -
  have "\<forall>m\<in>set [late_msg 90000, late_msg 5]. message_ok two_days m \<and> msg_secs m \<noteq> 0"
    using late_msg_ok [of 5] late_msg_ok [of 90000] by simp
  from default_pattern_prints [OF two_days_clock this, of local_time "[]" "[]"] show ?thesis
    by (simp only: append_Nil append_Nil2) blast
qed

text \<open>
  C26: the compiler of patterns reads back what a pattern says: the text of any list of raw strings and
  flags with optional padding specifications compiles to exactly the formatters these items ask for,
  in order.
\<close>

theorem pattern_compiles_to_its_items:
  assumes "items_ok its"
  shows "compile_pattern env (pattern_text its) pf = fold (apply_item env) its (pf\<lparr>formatters := []\<rparr>)"
  using assms by (rule compile_pattern_items)

theorem pattern_compiles_to_its_items_witness:
  "formatters (compile_pattern demo_env ''a%-8!v'' (default_pattern_formatter local_time [])) =
    [Aggregate ''a'', Padded V_f ScopedPadder (new_padding 8 pad_right True)]"
proof -
  let ?items = "[Raw ''a'', Flag (Some (pad_right, 8, True)) CHR ''v'']"
  have "items_ok ?items" by (simp add: max_width_def is_digit_def less_eq_char_def)
  moreover have "pattern_text ?items = ''a%-8!v''"
    by (simp add: pattern_text_def dec.simps ascii_digit_def char_digits)
  ultimately show ?thesis
    using pattern_compiles_to_its_items [of ?items demo_env "default_pattern_formatter local_time []"]
    by (simp add: default_pattern_formatter_def handle_flag_def builtin_flags_def add_formatter_def Let_def)
qed



text \<open>
  C28: a backtrace is the recent past: \<open>dump_backtrace\<close> of a logger whose backtrace was enabled for \<open>n\<close> messages
  and was given \<open>msgs\<close> returns, hands the sinks the start line, the last \<open>n\<close> of \<open>msgs\<close> from the oldest to the
  newest, and the end line, and leaves an empty backtrace that is still enabled.
\<close>

theorem backtrace_is_the_recent_past:
  assumes "lw_loggers W L = Some l" and "push_all bt_push_back msgs (bt_enable n bt0) = Inr (tracer l)"
    and "0 < n" and "n + 1 < 2 ^ 64" and "msgs \<noteq> []"
    and "push_all (sink_it_only env fw L)
      (new_log_msg thr (os_now env) no_source (l_name l) info backtrace_start # keep_last n msgs) W = Inr W1"
  shows "\<exists>bt. backtracer_ok bt \<and> bt_enabled bt \<and> traced bt = [] \<and>
    dump_backtrace env fw thr L W =
      Some (bindR (modify_logger L (\<lambda>l. l\<lparr>tracer := bt\<rparr>) W1)
        (sink_it_only env fw L (new_log_msg thr (os_now env) no_source (l_name l) info backtrace_end)))"
proof -
  note h = bt_enabled_history [OF assms(2,4)]
  have "keep_last n msgs \<noteq> []" using assms(3,5) length_keep_last [of n msgs] by (cases msgs) force+
  then show ?thesis using dump_backtrace_outputs [OF assms(1) h(1,2)] assms(6) h(3) by simp
qed

theorem backtrace_is_the_recent_past_witness:
  "\<exists>bt W' start stop. push_all bt_push_back [demo_msg ''a'', demo_msg ''b'', demo_msg ''c''] (bt_enable 2 new_backtracer) = Inr bt \<and>
    dump_backtrace demo_env (\<lambda>file bytes. length bytes) 7 4 (ring_start bt) = Some (Inr W') \<and>
    ring_items W' = [start, demo_msg ''b'', demo_msg ''c'', stop] \<and>
    msg_payload start = backtrace_start \<and> msg_payload stop = backtrace_end"
proof -
  let ?ms = "[demo_msg ''a'', demo_msg ''b'', demo_msg ''c'']" and ?fw = "\<lambda>(file :: string) (bytes :: string). length bytes"
  let ?note = "new_log_msg 7 (os_now demo_env) no_source ''net'' info"
  obtain bt where bt: "push_all bt_push_back ?ms (bt_enable 2 new_backtracer) = Inr bt"
    using bt_push_all [OF bt_enable_ok(1)] by blast
  let ?l = "(new_logger ''net'' [3])\<lparr>tracer := bt\<rparr>" and ?W = "ring_start bt"
  have k: "keep_last 2 ?ms = [demo_msg ''b'', demo_msg ''c'']" by (simp add: keep_last_def)
  have l: "lw_loggers ?W 4 = Some ?l" "l_name ?l = ''net''" "tracer ?l = bt"
    by (simp_all add: ring_start_def new_logger_def)
  from ring_sink_all [OF ring_start_world(1), of bt "?note backtrace_start # keep_last 2 ?ms" demo_env ?fw] ring_start_world(2) [of bt]
  obtain W1 where W1: "push_all (sink_it_only demo_env ?fw 4) (?note backtrace_start # keep_last 2 ?ms) ?W = Inr W1"
    "ring_world 8 ?l W1" "ring_items W1 = ?note backtrace_start # keep_last 2 ?ms" by (auto simp: k)
  from backtrace_is_the_recent_past [OF l(1), of ?ms 2 new_backtracer demo_env ?fw 7 W1] bt W1(1)
  obtain bt' where d: "dump_backtrace demo_env ?fw 7 4 ?W =
      Some (bindR (modify_logger 4 (\<lambda>l. l\<lparr>tracer := bt'\<rparr>) W1) (sink_it_only demo_env ?fw 4 (?note backtrace_end)))"
    by (auto simp: l(2,3))
  let ?W2 = "W1\<lparr>lw_loggers := (lw_loggers W1)(4 \<mapsto> ?l\<lparr>tracer := bt'\<rparr>)\<rparr>"
  have m: "modify_logger 4 (\<lambda>l. l\<lparr>tracer := bt'\<rparr>) W1 = Inr ?W2"
    using W1(2) by (auto simp: modify_logger_def get_logger_def ring_world_def)
  have "ring_world 8 (?l\<lparr>tracer := bt'\<rparr>) ?W2" "ring_items ?W2 = ring_items W1"
    using W1(2) by (auto simp: ring_world_def ring_items_def)
  from ring_sink_it [OF this(1), of demo_env ?fw "?note backtrace_end"] this(2) W1(3) obtain W3 where
    "sink_it_only demo_env ?fw 4 (?note backtrace_end) ?W2 = Inr W3"
    "ring_items W3 = [?note backtrace_start, demo_msg ''b'', demo_msg ''c'', ?note backtrace_end]"
    by (auto simp: k keep_last_short)
  with bt d m show ?thesis
    by (intro exI [of _ bt] exI [of _ W3] exI [of _ "?note backtrace_start"] exI [of _ "?note backtrace_end"])
      (simp add: new_log_msg_def)
qed

text \<open>
  C29: a text of levels sets the levels it spells: entries \<open>name=level\<close> and \<open>level\<close>, joined by commas, in any case and with
  any blanks around the words, give every registered logger the level of the last entry with its name, the others that of
  the last entry without a name, and change nothing else.
\<close>

theorem levels_text_is_read:
  assumes "list_all2 sets_level tokens es" and "tokens \<noteq> []" and "length (join tokens) < 32768"
    and "distinct (map snd (r_loggers R))" and "\<forall>L\<in>set (map snd (r_loggers R)). lw_loggers W L \<noteq> None"
  shows "\<exists>R' W'. load_levels (join tokens) R W = Inr (R', W') \<and> r_loggers R' = r_loggers R \<and> r_log_levels R' = named_levels es \<and>
    (\<forall>(n, L)\<in>set (r_loggers R). \<forall>l. lw_loggers W L = Some l \<longrightarrow>
       lw_loggers W' L = Some (l\<lparr>l_level := level_after (named_levels es) (global_level_of es) n (l_level l)\<rparr>)) \<and>
    (\<forall>L. L \<notin> set (map snd (r_loggers R)) \<longrightarrow> lw_loggers W' L = lw_loggers W L)"
proof -
  from set_levels_effect [OF assms(4,5), of "named_levels es" "global_level_of es"] load_levels_join [OF assms(1-3), of R W]
  show ?thesis by (elim exE conjE) simp
qed

theorem levels_text_is_read_witness:
  "\<exists>R' W'. load_levels '' net = DEBUG ,off'' (fst (new_registry True 0 1 empty_log_world)) (snd (new_registry True 0 1 empty_log_world)) =
      Inr (R', W') \<and> lw_loggers W' 1 = Some ((new_logger [] [0])\<lparr>l_level := off\<rparr>) \<and> r_log_levels R' ''net'' = Some debug"
proof -
  let ?R = "fst (new_registry True 0 1 empty_log_world)" and ?W = "snd (new_registry True 0 1 empty_log_world)"
  let ?es = "[(''net'', debug), ([], off)]"
  have "char_of (100::nat) = CHR ''d''" "char_of (101::nat) = CHR ''e''" "char_of (98::nat) = CHR ''b''" "char_of (117::nat) = CHR ''u''"
    "char_of (103::nat) = CHR ''g''"
    by code_simp+
  then have sp: "spells ''DEBUG'' debug" "spells ''off'' off"
    by (simp_all add: spells_def to_lower_def to_lower_char_def to_string_view_def level_string_views_def)
  have bl: "blank '' ''" "blank []" by (simp_all add: blank_def is_space_def)
  have "trimmed ''net''" "trimmed []" by (simp_all add: trimmed_def is_space_def)
  with sets_level_named [OF bl(1) bl(1) bl(1) bl(1) sp(1), of "''net''"] sets_level_global [OF bl(2) bl(2) sp(2)]
  have "sets_level '' net = DEBUG '' (''net'', debug)" "sets_level ''off'' ([], off)" by simp_all
  then have "list_all2 sets_level ['' net = DEBUG '', ''off''] ?es" by simp
  from levels_text_is_read [OF this, of ?R ?W] show ?thesis
    by (auto simp: new_registry_def named_levels_def global_level_of_def level_after_def)
qed

section \<open>Asynchronous logging\<close>

text \<open>
  C30: with one thread and loggers that block, asynchronous logging writes what synchronous logging would: when the
  destructor of the pool is through, the sinks are as if every call had been made, in the order of the calls, on
  a synchronous logger, whatever the interleaving of the threads was.
\<close>

theorem async_writes_what_sync_would:
  assumes "init_thread_pool q_items 1 A0 = Some A" and "q_items + 1 < 2 ^ 64" and "blocking A0"
    and "async_runs env fw A es A'" and "a_pool A' = None"
  shows "push_all (sync_call env fw) (concat (map user_posted es)) (a_world A0) = Inr (a_world A')"
proof -
  note d = destroyed_pool [OF assms(1,2,4,5)]
  from d(2) [OF assms(3)] d(4) have "all_processed es = all_posted es" by simp
  with d(5) show ?thesis by (simp only: apply_msg_sync push_user_posted)
qed

theorem async_writes_what_sync_would_witness:
  "\<exists>W'. push_all (sync_call demo_env demo_all) [demo_post] (ring_start new_backtracer) = Inr W'"
proof -
  from demo_pool_run [of 1] obtain es A' where r: "async_runs demo_env demo_all (demo_async\<lparr>a_pool := Some (demo_tp 1 1)\<rparr>) es A'"
    "concat (map user_posted es) = [demo_post]" "a_pool A' = None" by (metis le_numeral_extra(4) one_le_numeral zero_less_one)
  have "init_thread_pool 1 1 demo_async = Some (demo_async\<lparr>a_pool := Some (demo_tp 1 1)\<rparr>)" by (rule demo_init) simp_all
  from async_writes_what_sync_would [OF this _ demo_async_blocking r(1,3)] r(2) show ?thesis by (auto simp: demo_async_def)
qed

text \<open>
  C31: the destructor of the pool returns: once it has started, the threads can take no more than a number of steps
  fixed by the pool's state, and as long as the pool is not destroyed some thread can take one. Writing a message has to be
  possible for that: the sinks are there, a console has the program's pattern, times and calendar are in range.
\<close>

theorem destructor_returns:
  assumes "init_thread_pool q_items n A0 = Some A" and "0 < q_items" and "q_items + 1 < 2 ^ 64"
    and "async_runs env fw A es A1" and "destroying A1" and "async_runs env fw A1 es' A2"
    and "takes_all fw" and "clock_ok env" and "writable env (a_world A0)"
    and "\<forall>m\<in>set (all_posted es). message_fine env (a_world A0) m"
  shows "length es' \<le> pool_work A1 \<and> (a_pool A2 = None \<or> (\<exists>e A3. async_step env fw A2 e A3))"
proof -
  have ok: "async_ok n q_items A1" by (rule async_runs_ok [OF assms(4) init_thread_pool_ok(1) [OF assms(1,3)]])
  from destroying_runs [OF assms(6) ok assms(5)] have d: "destroying A2" "length es' \<le> pool_work A1"
    "set (all_posted es') \<subseteq> {terminate_msg}" by simp_all
  from assms(10) d(3) have "\<forall>m\<in>set (all_posted (es @ es')). message_fine env (a_world A0) m"
    by (auto simp: message_fine_def)
  with destroying_enabled [OF assms(1-3) async_runs_append [OF assms(4,6)] assms(7-9) _ d(1)] d(2) show ?thesis by blast
qed

theorem destructor_returns_witness:
  "\<exists>A. destroying A \<and> 0 < pool_work A \<and> (\<exists>e A'. async_step demo_env demo_all A e A')"
proof -
  have i: "init_thread_pool 1 2 demo_async = Some (demo_async\<lparr>a_pool := Some (demo_tp 1 2)\<rparr>)" by (rule demo_init) simp_all
  from demo_pool_released [of 2] obtain es A1 where r: "async_runs demo_env demo_all (demo_async\<lparr>a_pool := Some (demo_tp 1 2)\<rparr>) es A1"
    "destroying A1" "a_pool A1 \<noteq> None" "\<forall>m\<in>set (all_posted es). message_fine demo_env (a_world demo_async) m" by auto
  from destructor_returns [OF i _ _ r(1,2) run_nil demo_takes_all demo_clock demo_async_writable r(4)] r(3)
  obtain e A' where "async_step demo_env demo_all A1 e A'" by auto
  moreover have "0 < pool_work A1" using r(3) by (auto simp: pool_work_def)
  ultimately show ?thesis using r(2) by blast
qed



text \<open>
  C33: a pool whose queue has no room, which the constructor accepts, hangs: no message is ever taken, a logger that blocks
  never gets to post one, and its destructor never returns.
\<close>

theorem pool_without_room_hangs:
  assumes "init_thread_pool 0 n A0 = Some A" and "async_runs env fw A es A'"
  shows "a_pool A' \<noteq> None \<and> all_taken es = [] \<and> (ran (a_policies A0) \<subseteq> {block} \<longrightarrow> all_posted es = [])"
  using starved_runs [OF assms(2) init_starved [OF assms(1)]] init_thread_pool_ok(5) [OF assms(1)]
  by (auto simp: starved_def blocking_def)

theorem pool_without_room_hangs_witness:
  "\<nexists>es. async_runs demo_env demo_all (demo_async\<lparr>a_pool := Some (demo_tp 0 1)\<rparr>) es (demo_async\<lparr>a_pool := None\<rparr>)"
proof
  assume "\<exists>es. async_runs demo_env demo_all (demo_async\<lparr>a_pool := Some (demo_tp 0 1)\<rparr>) es (demo_async\<lparr>a_pool := None\<rparr>)"
  then obtain es where
    r: "async_runs demo_env demo_all (demo_async\<lparr>a_pool := Some (demo_tp 0 1)\<rparr>) es (demo_async\<lparr>a_pool := None\<rparr>)" by blast
  have "init_thread_pool 0 1 demo_async = Some (demo_async\<lparr>a_pool := Some (demo_tp 0 1)\<rparr>)" by (rule demo_init) simp_all
  from pool_without_room_hangs [OF this r] show False by simp
qed

section \<open>Log files\<close>

text \<open>
  C34: a rotating log keeps its end: where no call of the system fails, no call throws, and what the files hold, from the
  oldest to the current one, is what had been there followed by all that was written, less a part cut off in front. With
  files to rotate to nothing is cut off before they hold more than the limit, and no file is longer than
  the limit, or than the longest text or file there was.
\<close>

theorem rotating_log_keeps_its_end:
  assumes "os_works os" and "new_rotating_sink os base limit files False handlers D = (Inr s, D1)" and "base \<noteq> []"
    and "\<forall>i\<le>files. length (file_text base i (d_files D)) \<le> B" and "\<forall>t\<in>set ts. length t \<le> B" and "limit \<le> B" and "2 * B < 2 ^ 64"
  shows "\<exists>s' D' dropped. rotating_writes os ts s D1 = (None, s', D') \<and>
    dropped @ whole_log s' D' = older_log base files (d_files D) @ file_text base 0 (d_files D) @ concat ts \<and>
    (0 < files \<and> limit \<ge> length (whole_log s' D') \<longrightarrow> dropped = []) \<and> files_bounded B s' D'"
proof -
  have a: "0 < limit" "files \<le> MaxFiles" using assms(2) by (auto simp: new_rotating_sink_def split: if_splits)
  from new_rotating_sink_works [OF assms(1,3) a, of False handlers D] assms(2) have s: "rotating_ok s D1" "base_filename s = base"
    "max_size s = limit" "max_files s = files" "whole_log s D1 = older_log base files (d_files D) @ file_text base 0 (d_files D)"
    "current_text s D1 = file_text base 0 (d_files D)" "d_files D1 = (d_files D)(base \<mapsto> file_text base 0 (d_files D))" by auto
  then have "files_bounded B s D1" using assms(4) by (simp add: files_bounded_def file_text_upd)
  from rotating_writes_work [OF assms(1) s(1) this _ assms(5,7)] s(3-5) assms(6) obtain s' D' dropped where
    "rotating_writes os ts s D1 = (None, s', D')" "files_bounded B s' D'"
    "dropped @ whole_log s' D' = older_log base files (d_files D) @ file_text base 0 (d_files D) @ concat ts"
    "0 < files \<longrightarrow> dropped = [] \<or> limit < length (whole_log s' D')" by (auto simp del: set_concat)
  then show ?thesis by (intro exI [of _ s'] exI [of _ D'] exI [of _ dropped]) auto
qed

theorem rotating_log_keeps_its_end_witness:
  "\<exists>s D1 s' D' dropped. new_rotating_sink demo_os ''log.txt'' 4 1 False (\<lambda>e. False) empty_disk = (Inr s, D1) \<and>
    rotating_writes demo_os [''abc'', ''def'', ''ghi''] s D1 = (None, s', D') \<and> dropped @ whole_log s' D' = ''abcdefghi''"
proof -
  have none: "file_text ''log.txt'' i (d_files empty_disk) = []" for i by (simp add: file_text_def empty_disk_def)
  have older: "older_log ''log.txt'' k (d_files empty_disk) = []" for k by (induction k) (simp_all add: none)
  from new_rotating_sink_works [OF demo_os_works, of "''log.txt''" 4 1 False "\<lambda>e. False" empty_disk] obtain s D1 where
    n: "new_rotating_sink demo_os ''log.txt'' 4 1 False (\<lambda>e. False) empty_disk = (Inr s, D1)" by (auto simp: MaxFiles_def)
  from rotating_log_keeps_its_end [OF demo_os_works n, of 4 "[''abc'', ''def'', ''ghi'']"] n show ?thesis
    by (auto simp: none older)
qed

text \<open>
  C35: a daily sink keeps the last files: as long as a rotation goes to a new name, every message is in the current
  file after what had been there, the names the sink has had are files exactly where they are among the last
  \<open>max_files\<close> (all of them without a limit), and logging does not throw.
\<close>

theorem daily_sink_keeps_last_files:
  assumes "os_works os" and "retention ns s D" and "calc (df_base s) (to_tm env (msg_time msg)) = Inr f"
    and "rotation_tp s \<le> msg_time msg \<Longrightarrow> f \<notin> set ns" and "format_message env (df_formatter s) msg [] = Inr (pf, msg', t)"
  shows "\<exists>s' D'. daily_log calc mktime os env msg s D = Inr (msg', None, s', D') \<and>
    (if rotation_tp s \<le> msg_time msg
     then retention (ns @ [f]) s' D' \<and>
       daily_text s' D' = (if df_truncate s then [] else case d_files D f of None \<Rightarrow> [] | Some c \<Rightarrow> c) @ t
     else retention ns s' D' \<and> D' = D \<and> daily_text s' D' = daily_text s D @ t)"
proof (cases "rotation_tp s \<le> msg_time msg")
  case True
  from retention_rotates [of os ns s D msg calc env f pf msg' t mktime, OF assms(1,2) True assms(3) assms(4) [OF True] assms(5)] True
  show ?thesis by fastforce
next
  case False
  then have "msg_time msg < rotation_tp s" by simp
  from retention_stays [OF assms(1,2) this assms(5), of calc mktime] False show ?thesis by fastforce
qed

theorem daily_sink_keeps_last_files_witness:
  "\<exists>s D s' D' m'. new_daily_sink demo_calc hour_of demo_os two_days ''log.txt'' 0 0 False 1 (\<lambda>e. False) empty_disk = Inr (Inr s, D) \<and>
    daily_log demo_calc hour_of demo_os two_days (late_msg 90000) s D = Inr (m', None, s', D') \<and>
    retention [log_name 2, log_name 3] s' D'"
proof -
  from demo_daily_sink [of 0] obtain s D where new: "new_daily_sink demo_calc hour_of demo_os two_days ''log.txt'' 0 0 False 1 (\<lambda>e. False)
      empty_disk = Inr (Inr s, D)" by auto
  from new_daily_sink_works [OF demo_os_works new] obtain ns where ns: "ns \<noteq> []" "last ns = log_name 2" "length ns \<le> 1"
    "distinct ns \<longrightarrow> retention ns s D" and s: "df_base s = ''log.txt''" "df_formatter s = default_pattern_formatter local_time [CHR 0x0A]"
    "rotation_tp s = 86400 * ns_per_sec"
    using demo_calc_name [of 0] demo_rotation(2) [of 1] by (auto simp: two_days_def demo_env_def)
  from ns(1-3) have "ns = [log_name 2]" by (cases ns) auto
  with ns(4) have r: "retention [log_name 2] s D" by simp
  have m: "msg_time (late_msg 90000) = 90000 * ns_per_sec" using late_msg_ok [of 90000] by simp
  obtain pf' m' t where t: "format_message two_days (df_formatter s) (late_msg 90000) [] = Inr (pf', m', t)"
    using late_msg_formats [of 90000] s(2) by auto
  have f: "demo_calc (df_base s) (to_tm two_days (msg_time (late_msg 90000))) = Inr (log_name 3)"
    using demo_calc_name [of 90000] s(1) m by simp
  have tp: "rotation_tp s \<le> msg_time (late_msg 90000)" using s(3) m by (simp add: ns_per_sec_def)
  from daily_sink_keeps_last_files [of demo_os "[log_name 2]" s D demo_calc two_days "late_msg 90000" "log_name 3" pf' m' t hour_of,
      OF demo_os_works r f _ t] log_names_differ tp new
  show ?thesis by (simp; blast)
qed

text \<open>
  C36: a daily sink for one file that is made before the hour of its rotation deletes the file it writes at that hour: the rotation
  goes to the name of the same day, which is the oldest in the queue, and the message it has just written, and all that
  was logged before, are in no file.
\<close>

theorem daily_sink_deletes_its_file:
  assumes "os_works os" and "new_daily_sink calc mktime os env base h m trunc 1 handlers D = Inr (Inr s, D1)"
    and "calc base (to_tm env (os_now env)) = Inr f" and "calc base (to_tm env' (msg_time msg)) = Inr f"
    and "daily_next_rotation mktime env h m \<le> msg_time msg" and "format_message env' (df_formatter s) msg [] = Inr (pf, msg', t)"
  shows "\<exists>s' D'. daily_log calc mktime os env' msg s D1 = Inr (msg', None, s', D') \<and>
    fh_filename (df_file s') = f \<and> fh_fd (df_file s') = Some t \<and> d_files D' f = None"
proof -
  from new_daily_sink_works [OF assms(1,2)] assms(3) obtain ns where ns: "ns \<noteq> []" "last ns = f" "length ns \<le> 1"
    "q_contents (filenames_q s) = keep_last 1 ns" "dated_ok s" and s: "df_max_files s = 1" "df_base s = base"
    "rotation_tp s = daily_next_rotation mktime env h m" by auto
  from ns(1-3) have "ns = [f]" by (cases ns) auto
  with ns(4) have q: "q_contents (filenames_q s) = [f]" by (simp add: keep_last_def)
  have tp: "rotation_tp s \<le> msg_time msg" and f: "calc (df_base s) (to_tm env' (msg_time msg)) = Inr f" using assms(4,5) s by simp_all
  from daily_log_rotates [of os s msg calc env' f pf msg' t mktime D1, OF assms(1) ns(5) tp f assms(6)] q s(1) show ?thesis
    by (auto simp del: length_q_contents)
qed

theorem daily_sink_deletes_its_file_witness:
  "\<exists>s D s' D' m'. new_daily_sink demo_calc hour_of demo_os two_days ''log.txt'' 2 0 False 1 (\<lambda>e. False) empty_disk = Inr (Inr s, D) \<and>
    daily_log demo_calc hour_of demo_os two_days (late_msg 8000) s D = Inr (m', None, s', D') \<and>
    fh_filename (df_file s') = log_name 2 \<and> d_files D' (log_name 2) = None"
proof -
  from demo_daily_sink [of 2] obtain s D where new: "new_daily_sink demo_calc hour_of demo_os two_days ''log.txt'' 2 0 False 1 (\<lambda>e. False)
      empty_disk = Inr (Inr s, D)" by auto
  from new_daily_sink_works [OF demo_os_works new] have s: "df_formatter s = default_pattern_formatter local_time [CHR 0x0A]" by blast
  have now: "os_now two_days = 0" by (simp add: two_days_def demo_env_def)
  have m: "msg_time (late_msg 8000) = 8000 * ns_per_sec" using late_msg_ok [of 8000] by simp
  obtain pf' m' t where t: "format_message two_days (df_formatter s) (late_msg 8000) [] = Inr (pf', m', t)"
    using late_msg_formats [of 8000] s by auto
  have f: "demo_calc ''log.txt'' (to_tm two_days (os_now two_days)) = Inr (log_name 2)"
    "demo_calc ''log.txt'' (to_tm two_days (msg_time (late_msg 8000))) = Inr (log_name 2)"
    using demo_calc_name [of 0] demo_calc_name [of 8000] m now by simp_all
  have tp: "daily_next_rotation hour_of two_days 2 0 \<le> msg_time (late_msg 8000)"
    using demo_rotation(1) [of 2] m by (simp add: ns_per_sec_def)
  from daily_sink_deletes_its_file [of demo_os demo_calc hour_of two_days "''log.txt''" 2 0 False _ _ s D "log_name 2" two_days,
      OF demo_os_works new f tp t] new
  show ?thesis by blast
qed

section \<open>Ends of threads\<close>



section \<open>Where the code does not do what it means to\<close>

text \<open>
  C38: a failing \<open>readv\<close> is not seen: its \<open>-1\<close> is stored in a \<open>size_t\<close>, the test for a negative result is
  never true, and the handler appends \<open>-1 - writable\<close> bytes of a 64 KiB array instead of reporting the
  error.
\<close>

theorem failed_read_overruns:
  assumes "conn_at reg x co ch w"
    and "sys_readv K (conn_fd co) (readFd_iov (m_inputBuffer co)) (kst w) = ((-1, [], e), k)"
  shows "conn_handleRead K U x t w = Inl OutOfBounds"
  by (rule handleRead_minus_one [OF assms])

theorem failed_read_overruns_witness:
  "conn_handleRead (demo_kernel\<lparr>sys_readv := \<lambda>f iov k. ((-1, [], 104), k)\<rparr>) idle_user 5 0 demo_world =
    Inl OutOfBounds"
  by (rule failed_read_overruns [OF demo_conn_at]) (simp add: demo_kernel_def)

text \<open>
  C39: a failing \<open>write\<close> in \<open>handleWrite\<close> is taken for a complete one: everything still to be sent is
  dropped, with nothing of it on the wire.
\<close>

theorem failed_write_loses_output:
  assumes "conn_kernel K reg wire (conn_fd co)" and "conn_at reg x co ch w" and "isWriting ch"
    and "m_state co \<noteq> kDisconnecting" and "writeCompleteCallback co = None"
    and "sys_write K (conn_fd co) (contents (m_outputBuffer co)) (kst w) = ((-1, e), k)"
    and "wire k = wire (kst w)"
  shows "\<exists>w' co'. conn_handleWrite K x w = Inr w' \<and> conns w' x = Some co' \<and>
    contents (m_outputBuffer co') = [] \<and> wire (kst w') = wire (kst w)"
  by (rule handleWrite_minus_one [OF assms])

theorem failed_write_loses_output_witness:
  "\<exists>w' (co' :: tcp_conn). conn_handleWrite stuck_kernel 5 (silent_world (busy_conn kConnected) (busy_world kConnected)) = Inr w' \<and>
    contents demo_out = [111, 112] \<and> contents (m_outputBuffer co') = [] \<and> conns w' 5 = Some co' \<and> d_wire (kst w') 7 = []"
proof -
  let ?co = "silent_conn (busy_conn kConnected)"
  have f: "conn_fd ?co = 7" "m_state ?co \<noteq> kDisconnecting" "writeCompleteCallback ?co = None"
    "d_wire (kst (silent_world (busy_conn kConnected) (busy_world kConnected))) 7 = []"
    by (simp_all add: silent_conn_def silent_world_def busy_kst_def demo_kst0_def)
  have K: "conn_kernel stuck_kernel d_reg (\<lambda>k. d_wire k 7) (conn_fd ?co)" unfolding f by (rule stuck_K)
  have r: "sys_write stuck_kernel (conn_fd ?co) xs k = ((-1, EWOULDBLOCK), k)" for xs k
    by (simp add: stuck_kernel_def)
  from failed_write_loses_output [OF K silent_conn_at [OF busy_conn_at] busy_writing f(2,3) r refl] f(4)
  show ?thesis by auto
qed

text \<open>
  C40: \<open>send\<close> called from another thread only queues the address of the message. When the loop gets to it
  after the caller has released the message, the bytes are read through a dangling pointer.
\<close>

theorem cross_thread_send_dangles:
  assumes "conn_at reg x co ch w" and "m_state co = kConnected" and "loops w (conn_loop co) = Some l"
    and "\<not> isInLoopThread l w" and "highWaterMarkCallback co = None" and "len \<noteq> 0"
  shows "send K x a len w = queueInLoop K (conn_loop co) (SendInLoop x a len) w \<and>
    exec K U user (SendInLoop x a len) (w\<lparr>cur_tid := m_threadId l, mem := (mem w)(a := None)\<rparr>) =
      Inl UseAfterFree"
proof
  show "send K x a len w = queueInLoop K (conn_loop co) (SendInLoop x a len) w"
    using send_other_thread [OF conjunct1 [OF conn_at_conns [OF assms(1)]] assms(2,3,4)] .
  let ?w = "w\<lparr>cur_tid := m_threadId l, mem := (mem w)(a := None)\<rparr>"
  have "conn_at reg x co ch ?w"
    by (rule conn_at_same [OF assms(1)]) (simp_all add: conn_at_conns [OF assms(1)])
  then show "exec K U user (SendInLoop x a len) ?w = Inl UseAfterFree"
    using sendInLoop_dangling [of reg x co ch ?w a len K] assms(2,5,6) by (simp add: exec_def)
qed

theorem cross_thread_send_dangles_witness:
  "exec demo_kernel idle_user (\<lambda>i. Inr) (SendInLoop 5 9 5)
     ((demo_world\<lparr>cur_tid := 200\<rparr>)\<lparr>cur_tid := 100, mem := Map.empty\<rparr>) = Inl UseAfterFree"
proof -
  let ?w = "demo_world\<lparr>cur_tid := 200\<rparr>"
  have at: "conn_at d_reg 5 demo_conn demo_chan ?w"
    by (rule conn_at_same [OF demo_conn_at]) simp_all
  have l: "loops ?w (conn_loop demo_conn) = Some demo_loop" "\<not> isInLoopThread demo_loop ?w"
    "highWaterMarkCallback demo_conn = None" "(5 :: size_t) \<noteq> 0"
    by (simp_all add: demo_conn_def isInLoopThread_def demo_loop_def)
  have m: "(mem ?w)(9 := None) = Map.empty" by (simp add: fun_eq_iff)
  from cross_thread_send_dangles [OF at demo_open(2) l, of demo_kernel 9 idle_user "\<lambda>i. Inr"] show ?thesis
    unfolding m by (simp add: demo_loop_def)
qed

section \<open>Further theorems\<close>

text \<open>
  \<open>connectEstablished\<close> on a connection that has not been closed makes it connected, ties its channel
  to it and registers the read interest with the kernel before it calls the user's connection callback,
  which is the only thing it does afterwards.
\<close>

theorem established_before_callback:
  assumes "epoll_contract K reg" and "conn_at reg x co ch w" and "m_state co \<noteq> kDisconnected"
  shows "\<exists>w1 ch1. connectEstablished K U x w =
      call_fn (connectionCallback co) (\<lambda>i. on_connection U i x w1) \<and>
    conn_at reg x (co\<lparr>m_state := kConnected\<rparr>) ch1 w1 \<and> isReading ch1 \<and>
    m_tied ch1 \<and> m_tie ch1 = Some x \<and>
    kernel_watch reg (conn_loop co) w1 (conn_chan co) = Some (m_events ch OR kReadEvent)"
  using connectEstablished_ok [OF assms, of U] by blast

theorem established_before_callback_witness:
  "\<exists>w1. connectEstablished demo_kernel idle_user 5 demo_world = Inr w1 \<and>
    kernel_watch d_reg 0 w1 2 = Some 3"
  using established_before_callback [OF demo_epoll demo_conn_at demo_open(1), of idle_user]
  by (auto simp: demo_conn_def demo_chan_def kReadEvent_val call_fn_def idle_user_def)

text \<open>
  \<open>shutdown\<close> of a connected connection, called in its loop's thread, makes it disconnecting and
  closes the writing side at once if nothing is left to write; otherwise it sends nothing and leaves
  the FIN to the writable event that drains the output (C2).
\<close>

theorem shutdown_waits_for_output:
  assumes "conn_at reg x co ch w" and "m_state co = kConnected"
    and "loops w (conn_loop co) = Some l" and "isInLoopThread l w"
  shows "\<exists>w1. conn_at reg x (co\<lparr>m_state := kDisconnecting\<rparr>) ch w1 \<and> kst w1 = kst w \<and>
    conn_shutdown K x w =
      Inr (if contents (m_outputBuffer co) = [] then w1\<lparr>kst := shutdownWrite K (conn_fd co) (kst w)\<rparr> else w1)"
  by (rule conn_shutdown_ok [OF assms])

theorem shutdown_waits_for_output_witness:
  "\<exists>w1. conn_shutdown demo_kernel 5 (busy_world kConnected) = Inr w1 \<and> d_fin (kst w1) = []"
proof -
  have l: "loops (busy_world kConnected) (conn_loop (busy_conn kConnected)) = Some demo_loop"
    "isInLoopThread demo_loop (busy_world kConnected)"
    by (simp_all add: isInLoopThread_def demo_loop_def)
  from shutdown_waits_for_output [OF busy_conn_at _ l, of demo_kernel] show ?thesis
    by (auto simp: busy_kst_def demo_kst0_def)
qed

text \<open>
  Constructing a loop in a thread that has none gives a loop that belongs to the thread, with an
  empty queue, whose wake-up channel is the only channel of a fresh poller, reads from the loop's event
  descriptor and is registered for reading, and the thread now has this loop.
\<close>

theorem new_loop_is_ready:
  assumes "epoll_contract K reg" and "startup_contract K reg" and "fresh_loop L c w"
  shows "\<exists>w' l ch. newEventLoop K False name L c w = Inr w' \<and>
    loops w' = (loops w)(L \<mapsto> l) \<and> m_threadId l = cur_tid w \<and> \<not> m_quit l \<and>
    m_pendingFunctors l = [] \<and> m_wakeupChannel l = c \<and>
    chans w' = (chans w)(c \<mapsto> ch) \<and> m_fd ch = m_wakeupFd l \<and> m_events ch = kReadEvent \<and>
    m_readCallback ch = Some (WakeupHandleRead L) \<and> poller_inv reg L w' \<and>
    t_loopInThisThread w' = (t_loopInThisThread w)(cur_tid w := Some L)"
  using newEventLoop_ok [OF assms, of name] by blast

theorem new_loop_is_ready_witness:
  "\<exists>w' l. newEventLoop demo_kernel False ''worker'' 11 12 (demo_world\<lparr>cur_tid := 200\<rparr>) = Inr w' \<and>
    loops w' 11 = Some l \<and> m_threadId l = 200"
proof -
  have "fresh_loop 11 12 (demo_world\<lparr>cur_tid := 200\<rparr>)"
    by (simp add: fresh_loop_def demo_world_def demo_chan_def)
  from new_loop_is_ready [OF demo_epoll demo_startup this, of "''worker''"] show ?thesis by auto
qed

text \<open>
  One loop per thread: constructing a loop in a thread that already has one aborts the program,
  whatever else happens; and asking for the unimplemented \<open>poll\<close> back end leaves the loop with a null
  poller, through which the registration of its wake-up channel goes.
\<close>

theorem second_loop_never_constructed:
  "(t_loopInThisThread w (cur_tid w) \<noteq> None \<longrightarrow> newEventLoop K use_poll name L c w = Inl Aborted) \<and>
   (t_loopInThisThread w (cur_tid w) = None \<and> 0 \<le> fst (sys_eventfd K (kst w)) \<longrightarrow>
      newEventLoop K True name L c w = Inl NullDeref)"
proof (intro conjI impI)
  assume "t_loopInThisThread w (cur_tid w) \<noteq> None"
  then show "newEventLoop K use_poll name L c w = Inl Aborted"
    by (auto simp: newEventLoop_def newDefaultPoller_def newEpollPoller_def createEventFd_def Let_def
        split: prod.splits)
next
  assume a: "t_loopInThisThread w (cur_tid w) = None \<and> 0 \<le> fst (sys_eventfd K (kst w))"
  obtain f k where f: "sys_eventfd K (kst w) = (f, k)" by (cases "sys_eventfd K (kst w)")
  from a f show "newEventLoop K True name L c w = Inl NullDeref"
    by (simp add: newEventLoop_def newDefaultPoller_def createEventFd_def enableReading_def
        update_events_def updateChannel_def the_poller_def modify_chan_def newChannel_def)
qed

theorem second_loop_never_constructed_witness:
  "newEventLoop demo_kernel False ''again'' 11 12 demo_world = Inl Aborted \<and>
   newEventLoop demo_kernel True ''poll'' 11 12 (demo_world\<lparr>cur_tid := 200\<rparr>) = Inl NullDeref"
  using second_loop_never_constructed [of demo_world demo_kernel False "''again''" 11 12]
    second_loop_never_constructed [of "demo_world\<lparr>cur_tid := 200\<rparr>" demo_kernel True "''poll''" 11 12]
  by (simp add: demo_world_def demo_eventfd_def)

text \<open>
  \<open>quit\<close> from another thread reaches a sleeping loop: the flag is set and the loop's event counter is
  positive afterwards, so the \<open>epoll_wait\<close> it is in, or the next one, returns. In the loop's own thread
  the flag is set and nothing is written.
\<close>

theorem quit_wakes_sleeping_loop:
  assumes "eventfd_contract K cnt (m_wakeupFd l)" and "loops w L = Some l"
  shows "\<exists>w'. quit K L w = Inr w' \<and> loops w' = (loops w)(L \<mapsto> l\<lparr>m_quit := True\<rparr>) \<and>
    (if m_threadId l = cur_tid w then kst w' = kst w else 0 < cnt (kst w'))"
proof (cases "m_threadId l = cur_tid w")
  case True
  then show ?thesis using assms(2) by (simp add: quit_def isInLoopThread_def modify_loop_some)
next
  case False
  then show ?thesis using assms(2) eventfd_write_positive [OF assms(1), of "kst w"]
    by (auto simp: quit_def isInLoopThread_def modify_loop_some wakeup_def split: prod.splits)
qed

theorem quit_wakes_sleeping_loop_witness:
  "\<exists>w'. quit demo_kernel 0 (demo_world\<lparr>cur_tid := 200\<rparr>) = Inr w' \<and> 0 < d_count (kst w')"
proof -
  have "eventfd_contract demo_kernel d_count (m_wakeupFd demo_loop)"
    using demo_eventfd_ok by (simp add: demo_loop_def)
  moreover have "loops (demo_world\<lparr>cur_tid := 200\<rparr>) 0 = Some demo_loop" by simp
  ultimately show ?thesis
    using quit_wakes_sleeping_loop [of demo_kernel d_count demo_loop "demo_world\<lparr>cur_tid := 200\<rparr>" 0]
    by (auto simp: demo_loop_def)
qed

text \<open>
  A \<open>quit\<close> that comes before \<open>loop\<close> is lost: \<open>loop\<close> clears the flag on entry, so the first iteration
  runs all the same, and if it does not set the flag again \<open>loop\<close> does not return after it.
\<close>

theorem early_quit_is_lost:
  assumes "loops w L = Some l" and "quit K L w = Inr w1"
  shows "loop (Suc fuel) K h run L w1 =
    (case loop_iteration K h run L (loop_start L w1) of
       Inl e \<Rightarrow> Some (Inl e)
     | Inr w2 \<Rightarrow> map_option (\<lambda>r. bindR r (\<lambda>w. Inr (modify_loop L (\<lambda>l. l\<lparr>m_looping := False\<rparr>) w)))
                  (loop_while fuel L (loop_iteration K h run L) w2))"
proof -
  have "loops w1 L = Some (l\<lparr>m_quit := True\<rparr>)"
    using assms by (auto simp: quit_def modify_loop_some isInLoopThread_def wakeup_def Let_def
      split: if_splits prod.splits)
  then have "loops (loop_start L w1) L = Some (l\<lparr>m_quit := False, m_looping := True\<rparr>)"
    by (simp add: loop_start_def modify_loop_some)
  then show ?thesis by (simp add: loop_def split: sum.splits)
qed

theorem early_quit_is_lost_witness:
  "\<exists>w1 w2. quit demo_kernel 0 demo_world = Inr w1 \<and>
    loop_iteration demo_kernel (\<lambda>c t. Inr) (\<lambda>f. Inr) 0 (loop_start 0 w1) = Inr w2 \<and>
    loop 1 demo_kernel (\<lambda>c t. Inr) (\<lambda>f. Inr) 0 w1 = None"
proof -
  have l: "loops demo_world 0 = Some demo_loop" by simp
  let ?w1 = "demo_world\<lparr>loops := [0 \<mapsto> demo_loop\<lparr>m_quit := True\<rparr>]\<rparr>"
  have q: "quit demo_kernel 0 demo_world = Inr ?w1"
    by (simp add: quit_def isInLoopThread_def demo_loop_def modify_loop_some)
  have "\<exists>w2. loop_iteration demo_kernel (\<lambda>c t. Inr) (\<lambda>f. Inr) 0 (loop_start 0 ?w1) = Inr w2"
    by (simp add: loop_iteration_def poll_phase_def poll_def the_poller_def demo_wait_def demo_kst0_def
        List.map_filter_simps fillActiveChannels_def loop_start_def modify_loop_def modify_chan_def
        doPendingFunctors_def set_calling_def swap_pending_def demo_loop_def Let_def)
  then obtain w2 where w2: "loop_iteration demo_kernel (\<lambda>c t. Inr) (\<lambda>f. Inr) 0 (loop_start 0 ?w1) = Inr w2" ..
  from early_quit_is_lost [OF l q, of 0 "\<lambda>c t. Inr" "\<lambda>f. Inr"] w2 q show ?thesis by auto
qed

text \<open>
  The destructor of the server queues, in the loop of every connection that is still open, exactly
  one \<open>connectDestoryed\<close> for it, in the order of the map, behind what is queued there already, and drops
  every entry.
\<close>

theorem destructor_queues_each_connection:
  assumes "\<forall>(name, x) \<in> set items. \<exists>co. conns w x = Some co \<and> loops w (conn_loop co) \<noteq> None"
  shows "\<exists>w'. destroy_conns K items w = Inr w' \<and>
    (\<forall>L. pendings w' L = pendings w L @
       map (\<lambda>(name, x). ConnectDestoryed x)
         (filter (\<lambda>(name, x). map_option conn_loop (conns w x) = Some L) items)) \<and>
    (\<forall>(name, x) \<in> set items. connections (server w') name = None)"
  by (rule destroy_conns_ok [OF assms])

theorem destructor_queues_each_connection_witness:
  "\<exists>w'. destroy_conns demo_kernel [(''127.0.0.1:80#1'', 5)] demo_world = Inr w' \<and>
    pendings w' 0 = [ConnectDestoryed 5]"
proof -
  have "\<forall>(name, x) \<in> set [(''127.0.0.1:80#1'', 5)].
      \<exists>co. conns demo_world x = Some co \<and> loops demo_world (conn_loop co) \<noteq> None"
    by (simp add: demo_conn_def)
  from destructor_queues_each_connection [OF this, of demo_kernel] show ?thesis
    by (auto simp: pendings_def demo_conn_def demo_loop_def)
qed

text \<open>
  The three digit counters agree with each other and with the number of decimal digits: the table
  driven 32-bit and 64-bit versions, which look the bit length up, and the portable loop.
\<close>

theorem digit_counters_agree:
  assumes "n < 2 ^ 32"
  shows "do_count_digits32 n = length (dec n) \<and> do_count_digits64 n = length (dec n) \<and>
    count_digits_fallback n 1 = length (dec n)"
proof -
  have "n < 2 ^ 64" using assms by simp
  then show ?thesis
    using do_count_digits32_eq [OF assms] do_count_digits64_eq count_digits_fallback_eq [of n 1] by simp
qed

theorem digit_counters_agree_witness: "do_count_digits32 4294967295 = 10 \<and> count_digits_fallback 4294967295 1 = 10"
  using digit_counters_agree [of 4294967295] by (simp add: dec.simps)

text \<open>
  \<open>toIpPort\<close> identifies the end point: it always succeeds, and two addresses with the same text have
  the same IP and the same port.
\<close>

theorem ip_port_identifies:
  "(\<exists>s. toIpPort m = Inr s) \<and> (toIpPort m = toIpPort n \<longrightarrow> s_addr m = s_addr n \<and> toPort m = toPort n)"
proof (intro conjI impI)
  show "\<exists>s. toIpPort m = Inr s" by (simp add: toIpPort_eq)
  assume "toIpPort m = toIpPort n"
  then have "toIp m @ CHR '':'' # dec (unat (toPort m)) = toIp n @ CHR '':'' # dec (unat (toPort n))"
    by (simp add: toIpPort_eq)
  from colon_split [OF this] have "toIp m = toIp n" "dec (unat (toPort m)) = dec (unat (toPort n))"
    using ntop_no_colon by (auto simp: toIp_def)
  then show "s_addr m = s_addr n" "toPort m = toPort n"
    by (simp_all add: toIp_def inet_ntop_inject dec_inject unsigned_word_eqI)
qed

theorem ip_port_identifies_witness:
  "toPort (newInetAddress ''10.0.0.1'' 80) = 80"
proof -
  have "toIpPort (newInetAddress ''10.0.0.1'' 80) = toIpPort (newInetAddress ''10.0.0.1'' 80)" ..
  then have "toPort (newInetAddress ''10.0.0.1'' 80) = toPort (newInetAddress ''10.0.0.1'' 80)"
    using ip_port_identifies by blast
  then show ?thesis by (simp add: toPort_new)
qed

text \<open>
  After \<open>dwt::Logger::init\<close> the default logger writes to the standard output exactly one line of the form
  \<open>[date time.ms] [level] text\<close> per logging call of at least the level given to \<open>init\<close>, in the order of the
  calls and with the time of each, and nothing for the other calls. It never fails.
\<close>

theorem init_then_log_lines:
  assumes "new_registry terminal i L W0 = (R0, W1)" and "takes_all fw" and "clock_ok env" and "os_pid env < 2 ^ 32"
    and "\<forall>e\<in>set calls. call_ok e"
  shows "\<exists>R W W'. Logger_init env h min_level R0 W1 = Inr (R, W) \<and> log_calls env fw calls R W = Inr W' \<and>
    console_text i W' = concat (map (call_line env min_level) calls)"
proof -
  from Logger_init_ready [OF assms(1)] obtain R W where "Logger_init env h min_level R0 W1 = Inr (R, W)"
    "console_ready env i L min_level R W" "console_text i W = []" by blast
  with console_log_calls [OF _ assms(2-5)] show ?thesis by force
qed

theorem init_then_log_lines_witness:
  "\<exists>R W W'. Logger_init demo_env 0 warn (fst (new_registry False 3 4 empty_log_world)) (snd (new_registry False 3 4 empty_log_world)) =
      Inr (R, W) \<and>
    log_calls demo_env (\<lambda>file bytes. length bytes)
      [(3000000000, 7, info, ''up''), (4000000000, 8, err, ''down'')] R W = Inr W' \<and>
    console_text 3 W' = ''[2024-01-02 13:04:05.000] [error] down'' @ [CHR 0x0A]"
proof -
  let ?r = "new_registry False 3 4 empty_log_world" and ?fw = "\<lambda>(file :: string) (bytes :: string). length bytes"
  let ?calls = "[(3000000000, 7, info, ''up''), (4000000000, 8, err, ''down'')] :: log_call list"
  have r: "new_registry False 3 4 empty_log_world = (fst ?r, snd ?r)" by simp
  have fw: "takes_all ?fw" by (simp add: takes_all_def)
  have c: "\<forall>e\<in>set ?calls. call_ok e" by (simp add: ns_per_sec_def)
  have line: "dwt_line demo_env 4000000000 err ''down'' = ''[2024-01-02 13:04:05.000] [error] down'' @ [CHR 0x0A]"
    by (simp add: dwt_line_def Let_def dec_2024 two_small ns_per_sec_def zero_padded_3 ascii_digit_def
        char_digits to_string_view_def level_string_views_def)
  have "concat (map (call_line demo_env warn) ?calls) = dwt_line demo_env 4000000000 err ''down''"
    by (simp add: less_eq_level_enum_def)
  moreover have "os_pid demo_env < 2 ^ 32" by simp
  note init_then_log_lines [OF r fw demo_clock this c, of 0 warn]
  ultimately show ?thesis unfolding line by simp
qed

text \<open>
  \<open>EventLoop::wakeup\<close> and \<open>EventLoop::handleRead\<close> report a short transfer with conversions of \<open>printf\<close>; the number
  of bytes is not in the message, whatever it is.
\<close>

theorem event_loop_messages_lose_the_count:
  assumes "here \<noteq> 0"
  shows "vformat_to loc (''{}:{} '' @ wakeup_message) (macro_args here file line_no [n]) = Inr (macro_text file line_no wakeup_message)"
    and "vformat_to loc (''{}:{} '' @ handleRead_message) (macro_args here file line_no [n]) =
      Inr (macro_text file line_no handleRead_message)"
  using literal_message [OF assms] event_loop_messages_literal by blast+

text \<open>
  The queue between logging and writing threads keeps the order: whatever operations run on it, in
  whatever order the threads take its mutex, none fails, what has been taken out and what is still in it are
  a subsequence of what was in it and was put in; and they are all of it when no operation is used
  that may drop an item.
\<close>

theorem mpmc_queue_keeps_order:
  assumes "mpmc_runs Q as outs Q'" and "mpmc_ok Q"
  shows "mpmc_ok Q' \<and> length (q_contents (mpmc_q Q')) \<le> capacity (mpmc_q Q) \<and>
    subseq (outs @ q_contents (mpmc_q Q')) (q_contents (mpmc_q Q) @ concat (map given as)) \<and>
    ((\<forall>a\<in>set as. lossless a) \<longrightarrow>
       outs @ q_contents (mpmc_q Q') = q_contents (mpmc_q Q) @ concat (map given as))"
  using mpmc_runs_order [OF assms] capacity_bound [of "mpmc_q Q'"] by (simp add: mpmc_ok_def)

theorem mpmc_queue_keeps_order_witness:
  "\<exists>outs Q. mpmc_runs (new_mpmc 0 1) [Enqueue (5 :: int), Enqueue_nowait 6, Dequeue] outs Q \<and>
    subseq (outs @ q_contents (mpmc_q Q)) [5, 6]"
proof -
  have ok: "mpmc_ok (new_mpmc (0 :: int) 1)"
    by (simp add: mpmc_ok_def new_mpmc_def new_circular_q_ok) (simp add: new_circular_q_def)
  have "\<exists>outs Q. mpmc_runs (new_mpmc 0 1) [Enqueue (5 :: int), Enqueue_nowait 6, Dequeue] outs Q"
    by (rule exI)+ (rule runs_step runs_nil |
      simp add: enqueue_def enqueue_nowait_def dequeue_def pop_item_def new_mpmc_def new_circular_q_def q_push_back_def
        q_front_def q_pop_front_def q_empty_def q_full_def q_next_def Let_def)+
  then obtain outs Q where "mpmc_runs (new_mpmc 0 1) [Enqueue (5 :: int), Enqueue_nowait 6, Dequeue] outs Q" by blast
  moreover from mpmc_queue_keeps_order [OF this ok]
  have "subseq (outs @ q_contents (mpmc_q Q)) [5, 6]"
    by (simp add: new_mpmc_def new_circular_q_ok)
  ultimately show ?thesis by blast
qed

text \<open>
  \<open>fmt::format("{}", i)\<close> of an \<open>int\<close> (connection ids, thread numbers, ports) succeeds, so its two
  digits at a time never leave the buffer, and gives the decimal digits of \<open>i\<close> with a sign if it is
  negative; distinct numbers give distinct texts.
\<close>

theorem format_int_is_decimal:
  assumes "- (2 ^ 31) \<le> i" and "i < 2 ^ 31"
  shows "fmt_int i = Inr ((if i < 0 then ''-'' else '''') @ dec (nat \<bar>i\<bar>)) \<and>
    (\<forall>j. - (2 ^ 31) \<le> j \<longrightarrow> j < 2 ^ 31 \<longrightarrow> fmt_int j = fmt_int i \<longrightarrow> j = i)"
  using fmt_int_eq assms show_int_inject by (auto simp: show_int_def)

theorem format_int_is_decimal_witness: "fmt_int (- 42) = Inr ''-42''"
  using format_int_is_decimal [of "- 42"] by (simp add: dec.simps ascii_digit_def char_digits)

text \<open>
  The loop over UTF-8, which decodes four bytes at a time and copies the last ones to a padded block, visits on
  the encoding of any scalar values exactly these, with their positions and lengths; so the display width is
  that of the code points, and the index of the n-th code point is where it starts.
\<close>

theorem utf8_visits_code_points:
  assumes "list_all scalar_value cps"
  shows "for_each_codepoint f st (utf8_text cps) = Inr (visit f st 0 cps) \<and>
    compute_width (utf8_text cps) = Inr (display_width cps) \<and>
    code_point_index (utf8_text cps) n = Inr (length (utf8_text (take n cps)))"
  using assms by (simp add: for_each_codepoint_text compute_width_text code_point_index_text)

theorem utf8_visits_code_points_witness:
  "compute_width (utf8_text [0x41, 0xE9, 0x4E2D, 0x1F600]) = Inr 6 \<and>
    code_point_index (utf8_text [0x41, 0xE9, 0x4E2D, 0x1F600]) 3 = Inr 6"
proof -
  have "list_all scalar_value [0x41, 0xE9, 0x4E2D, 0x1F600]" by (simp add: scalar_value_def)
  note v = utf8_visits_code_points [OF this, of "\<lambda>s c p l. (s, True)" "()" 3]
  have "display_width [0x41, 0xE9, 0x4E2D, 0x1F600] = 6" by (simp add: display_width_def is_wide_def)
  moreover have "take 3 [0x41, 0xE9, 0x4E2D, 0x1F600] = [0x41, 0xE9, 0x4E2D :: nat]" by (simp add: take_Cons')
  moreover have "length (utf8_text [0x41, 0xE9, 0x4E2D]) = 6" by (simp add: utf8_text_def utf8_encode_def)
  ultimately show ?thesis using v by (simp only: simp_thms)
qed

text \<open>
  For every calendar time with a four-digit year, \<open>Timestamp::toString\<close> yields 19 characters from
  which year, month, day, hour, minute and second are read back at fixed positions.
\<close>

theorem timestamp_fields_readable:
  assumes "tm_ok (localtime t)"
  shows "\<exists>s. timestamp_toString localtime t = Inr s \<and> length s = 19 \<and>
    int (undec (take 4 s)) = tm_year (localtime t) + 1900 \<and>
    int (undec (take 2 (drop 5 s))) = tm_mon (localtime t) + 1 \<and>
    int (undec (take 2 (drop 8 s))) = tm_mday (localtime t) \<and>
    int (undec (take 2 (drop 11 s))) = tm_hour (localtime t) \<and>
    int (undec (take 2 (drop 14 s))) = tm_min (localtime t) \<and>
    int (undec (take 2 (drop 17 s))) = tm_sec (localtime t)"
  by (rule timestamp_toString_ok [where localtime = localtime, OF assms])

theorem timestamp_fields_readable_witness:
  "\<exists>s. timestamp_toString (\<lambda>t. \<lparr>tm_year = 123, tm_mon = 10, tm_mday = 14, tm_hour = 22, tm_min = 13, tm_sec = 20\<rparr>)
      1700000000 = Inr s \<and> undec (take 4 s) = 2023 \<and> undec (take 2 (drop 5 s)) = 11"
proof -
  let ?lt = "\<lambda>t :: timestamp. \<lparr>tm_year = 123, tm_mon = 10, tm_mday = 14, tm_hour = 22, tm_min = 13, tm_sec = 20\<rparr>"
  have "tm_ok (?lt 1700000000)" by (simp add: tm_ok_def)
  from timestamp_fields_readable [where localtime = ?lt, OF this] show ?thesis by auto
qed

text \<open>
  Numbers in format strings cannot overflow: any run of digits is read as its value if that is at most
  \<open>INT_MAX\<close>, and as the error value otherwise, although the 32-bit accumulator wraps around; the rest of
  the text is left.
\<close>

theorem numbers_do_not_overflow:
  assumes "list_all fmt_digit ds" and "ds \<noteq> []" and "rest = [] \<or> \<not> fmt_digit (hd rest)"
  shows "parse_nonnegative_int (ds @ rest) e =
    Inr (if length ds \<le> 10 \<and> undec ds \<le> int_max then int (undec ds) else e, rest)"
  using assms by (rule parse_nonnegative_int_eq)

theorem numbers_do_not_overflow_witness:
  "parse_nonnegative_int ''4294967297}'' (- 1) = Inr (- 1, ''}'') \<and> parse_nonnegative_int ''2147483647}'' (- 1) = Inr (2147483647, ''}'')"
proof -
  have d: "list_all fmt_digit ''4294967297''" "list_all fmt_digit ''2147483647''" by (simp_all add: fmt_digit_def)
  have r: "''}'' = [] \<or> \<not> fmt_digit (hd ''}'')" by (simp add: fmt_digit_def)
  show ?thesis
    using numbers_do_not_overflow [OF d(1) _ r, of "- 1"] numbers_do_not_overflow [OF d(2) _ r, of "- 1"]
    by (simp add: undec_def digit_value_def int_max_def)
qed

text \<open>
  No functor the library queues takes a connection back: every connection that exists stays, and
  its state moves only along connecting, connected, disconnecting, disconnected, provided that
  \<open>connectEstablished\<close> is given a connection that is still connecting, as \<open>newConnection\<close> does.
\<close>

theorem functors_only_advance:
  assumes "user_keeps advances U" and "\<forall>i v v'. user i v = Inr v' \<longrightarrow> advances v v'"
    and "\<forall>y. g = ConnectEstablished y \<longrightarrow> conn_state w y = Some kConnecting"
    and "exec K U user g w = Inr w'" and "conn_state w x = Some s"
  shows "\<exists>s'. conn_state w' x = Some s' \<and> life\<^sup>*\<^sup>* s s' \<and> (s = kDisconnected \<longrightarrow> s' = kDisconnected)"
proof -
  have "advances w w'" using exec_advances [OF assms(1) _ _ assms(4)] assms(2,3) by blast
  with assms(5) obtain s' where s': "conn_state w' x = Some s'" "life\<^sup>*\<^sup>* s s'"
    unfolding advances_def by blast
  moreover have "s' = kDisconnected" if "s = kDisconnected" using life_disconnected_stays s'(2) that by simp
  ultimately show ?thesis by blast
qed

theorem functors_only_advance_witness:
  "\<exists>w'. exec demo_kernel idle_user (\<lambda>i. Inr) (ShutdownInLoop 5) (busy_world kDisconnected) = Inr w' \<and>
    conn_state w' 5 = Some kDisconnected"
proof -
  let ?e = "exec demo_kernel idle_user (\<lambda>i. Inr :: (demo_kst, unit) server_world_scheme \<Rightarrow> _)"
  have "\<exists>w'. ?e (ShutdownInLoop 5) (busy_world kDisconnected) = Inr w'"
    using conn_at_conns [OF busy_conn_at, of kDisconnected] by (simp add: exec_def shutdownInLoop_def)
  then obtain w' where w': "?e (ShutdownInLoop 5) (busy_world kDisconnected) = Inr w'" ..
  have k: "user_keeps advances idle_user" by (rule idle_user_keeps) (simp add: advances_same)
  have s: "conn_state (busy_world kDisconnected) 5 = Some kDisconnected"
    using conn_at_conns [OF busy_conn_at, of kDisconnected] by (simp add: conn_state_def)
  from functors_only_advance [OF k _ _ w' s] w' show ?thesis by (auto simp: advances_same)
qed

text \<open>
  A failing \<open>write\<close> in \<open>sendInLoop\<close> (a full socket buffer, \<open>EWOULDBLOCK\<close>, is one) is not seen either:
  the code then appends one byte more than the message has, from one byte before it.
\<close>

theorem failed_send_reads_outside:
  assumes "conn_at reg x co ch w" and "m_state co \<noteq> kDisconnected" and "direct co ch"
    and "message_at w a msg" and "unat len = length msg"
    and "highWaterMarkCallback co = None" and "writeCompleteCallback co = None"
    and "sys_write K (conn_fd co) msg (kst w) = ((-1, e), k)"
    and "fits (length msg + 1) (m_outputBuffer co)"
  shows "sendInLoop K x a len w = Inl OutOfBounds"
  by (rule sendInLoop_minus_one [OF assms])

theorem failed_send_reads_outside_witness:
  "sendInLoop stuck_kernel 5 9 5 (silent_world demo_conn demo_world) = Inl OutOfBounds"
proof (rule failed_send_reads_outside [OF silent_conn_at [OF demo_conn_at]])
  show "direct (silent_conn demo_conn) demo_chan" using demo_direct by (simp add: direct_def silent_conn_def)
  show "message_at (silent_world demo_conn demo_world) 9 [104, 101, 108, 108, 111]"
    using demo_message by (simp add: message_at_def silent_world_def)
  show "sys_write stuck_kernel (conn_fd (silent_conn demo_conn)) [104, 101, 108, 108, 111]
      (kst (silent_world demo_conn demo_world)) = ((-1, EWOULDBLOCK), demo_kst0)"
    by (simp add: stuck_kernel_def silent_world_def)
  show "fits (length [104, 101, 108, 108, 111 :: byte] + 1) (m_outputBuffer (silent_conn demo_conn))"
    using demo_room [of "length [104, 101, 108, 108, 111 :: byte] + 1"] by (simp add: silent_conn_def)
qed (simp_all add: silent_conn_def demo_open)

text \<open>
  The texts of the server are what \<open>fmt::format\<close> makes of the format strings in the sources: time stamps
  (\<open>Timestamp::toString\<close>), addresses (\<open>InetAddress::toIpPort\<close>), names of connections and of threads.
\<close>

theorem server_texts_are_formatted:
  assumes "list_all (\<lambda>i. - (2 ^ 31) \<le> i \<and> i < 2 ^ 31) (tm_args (localtime t))"
    and "- (2 ^ 31) \<le> i" and "i < 2 ^ 31" and "0 \<le> k" and "k + 1 < 2 ^ 31"
  shows "vformat_to loc ''{:04}/{:02}/{:02} {:02}:{:02}:{:02}''
      (make_format_args (map (\<lambda>i. Int_arg (word_of_int i)) (tm_args (localtime t)))) = timestamp_toString localtime t \<and>
    vformat_to loc ''{}:{}'' (make_format_args [String_arg (toIp a), Uint_arg (ucast (toPort a))]) = toIpPort a \<and>
    vformat_to loc ''{}#{}'' (make_format_args [String_arg ip, Int_arg (word_of_int i)]) = connection_name ip i \<and>
    bindR (vformat_to loc ''Thread-{}'' (make_format_args [Int_arg (word_of_int (k + 1))])) (\<lambda>s. Inr (s, k + 1)) =
      setDefaultName k []"
  using timestamp_formats [of localtime t, OF assms(1)] toIpPort_formats connection_name_formats [OF assms(2,3)]
    thread_name_formats [OF assms(4,5)] by blast

theorem server_texts_are_formatted_witness:
  "vformat_to (\<lambda>a s. None) ''{}#{}'' (make_format_args [String_arg ''1.2.3.4:80'', Int_arg 7]) = connection_name ''1.2.3.4:80'' 7"
proof -
  let ?tm = "\<lambda>t :: timestamp. tm.make 124 0 2 3 4 5"
  have "list_all (\<lambda>i. - (2 ^ 31) \<le> i \<and> i < 2 ^ 31) (tm_args (?tm 0))" by (simp add: tm_args_def tm.make_def)
  from server_texts_are_formatted [of ?tm 0, OF this, where i = 7 and k = 0 and ip = "''1.2.3.4:80''" and loc = "\<lambda>a s. None"]
  show ?thesis by simp
qed

text \<open>
  Rotating by hand leaves the size of the file that was put away: after \<open>rotate_now\<close> the current file is empty and the
  sink counts on from the length of the old one, so the next file is rotated too early.
\<close>

theorem rotate_now_keeps_the_size:
  assumes "os_works os" and "rotating_ok s D"
  shows "\<exists>s' D'. rotate_now os s D = (None, s', D') \<and> current_text s' D' = [] \<and> current_size s' = length (current_text s D)"
proof -
  let ?l = "\<lambda>i. length (file_text (base_filename s) i (d_files D))"
  from assms(2) obtain c where c: "fh_content (rf_file s) D = Some c" "current_size s = length c"
    and n: "fh_filename (rf_file s) = base_filename s" "base_filename s \<noteq> []" by (auto simp: rotating_ok_def)
  have B: "?l i \<le> length c + (\<Sum>i\<le>max_files s. ?l i)" if "i \<le> max_files s" for i
    using member_le_sum [of i "{..max_files s}" ?l] that by simp
  from rotate_works [OF assms(1) c(1) n, of "length c + (\<Sum>i\<le>max_files s. ?l i)"] B c show ?thesis
    by (auto simp: rotate_now_def current_text_def)
qed

theorem rotate_now_keeps_the_size_witness:
  "\<exists>s D s' D'. rotate_now demo_os s D = (None, s', D') \<and> current_text s' D' = [] \<and> current_size s' = 2"
proof -
  let ?D = "empty_disk\<lparr>d_files := [''log.txt'' \<mapsto> ''ab'']\<rparr>"
  from new_rotating_sink_works [OF demo_os_works, of "''log.txt''" 4 1 False "\<lambda>e. False" ?D] obtain s D1 where
    n: "rotating_ok s D1" "current_text s D1 = file_text ''log.txt'' 0 (d_files ?D)" by (auto simp: MaxFiles_def)
  from rotate_now_keeps_the_size [OF demo_os_works n(1)] n(2) show ?thesis by (simp add: file_text_def numeral_2_eq_2) blast
qed

text \<open>
  An \<open>InetAddress\<close> made from the text of an address and a port gives back that text and that port,
  through the conversion to network byte order, for every address and port.
\<close>

theorem inet_address_roundtrip:
  "toIp (newInetAddress (inet_ntop a) port) = inet_ntop a \<and>
   toPort (newInetAddress (inet_ntop a) port) = port \<and> s_addr (newInetAddress (inet_ntop a) port) = a"
proof -
  have "s_addr (newInetAddress (inet_ntop a) port) = a" by (simp add: newInetAddress_def inet_pton_ntop)
  then show ?thesis by (simp add: toIp_new [OF inet_pton_ntop] toPort_new)
qed

text \<open>
  A filter of duplicates hands its sinks the messages in groups: those that repeat the last one shown, within the time it
  is given, are left out, and one note with their number comes before the next message that is shown.
\<close>

theorem dup_filter_groups_repeats:
  assumes "skip_counter s = 0" and "length ms < 2 ^ 64"
  shows "bindR (dup_filter_run env fw n ms s W) (\<lambda>(s, W). Inr W) =
    dist_all env fw (ds_sinks s) (without_repeats env n (max_skip_duration s) (last_msg_time s) (last_msg_payload s) ms) W"
  using dup_filter_run_eq [of s ms env fw n W] assms by (simp add: pending_none)

theorem dup_filter_groups_repeats_witness:
  "bindR (dup_filter_run demo_env demo_all 7 [demo_msg ''a'', demo_msg ''a'', demo_msg ''b''] (new_dup_filter_sink 5000000) empty_log_world)
     (\<lambda>(s, W). Inr W) =
   dist_all demo_env demo_all []
     [demo_msg ''a'', skipped_note demo_env 7 1 info (demo_msg ''b''), demo_msg ''b''] empty_log_world"
proof -
  have r: "repeats 5000000 0 [] (demo_msg s) \<longleftrightarrow> s = []" "repeats 5000000 3000000000 p (demo_msg s) \<longleftrightarrow> s = p" for s p
    by (simp_all add: repeats_def)
  have "without_repeats demo_env 7 5000000 0 [] [demo_msg ''a'', demo_msg ''a'', demo_msg ''b''] =
      [demo_msg ''a'', skipped_note demo_env 7 1 info (demo_msg ''b''), demo_msg ''b'']"
    by (simp add: without_repeats.simps r)
  with dup_filter_groups_repeats [of "new_dup_filter_sink 5000000" "[demo_msg ''a'', demo_msg ''a'', demo_msg ''b'']" demo_env demo_all 7]
  show ?thesis by (simp add: new_dup_filter_sink_def)
qed

text \<open>
  A dump of bytes is its lines: every line has the position of its first byte, two digits for each byte and, with the
  flag \<open>a\<close>, the printable characters, for which the last of several lines is filled up; with the flags \<open>ns\<close> the digits
  alone are printed, and they read back as the bytes.
\<close>

theorem hex_dump_is_its_lines:
  assumes "hex_parse flags new_hex_formatter = (h, rest)" and "0 < n" and "n < 2 ^ 31" and "length bytes \<le> 2 ^ 64"
  shows "hex_format loc h (to_hex bytes n) out = Inr (out @ dump_text h n bytes) \<and>
    (\<not> put_newlines h \<and> \<not> put_delimiters h \<longrightarrow> unhex (dump_text h n bytes) = bytes)"
proof -
  have "show_ascii h' \<longrightarrow> put_newlines h'" if "hex_parse fs h0 = (h', rest')" "show_ascii h0 \<longrightarrow> put_newlines h0" for fs h0 h' rest'
    using that by (induction fs h0 rule: hex_parse.induct) (auto split: if_splits)
  from this [OF assms(1)] have "show_ascii h \<longrightarrow> put_newlines h" by (simp add: new_hex_formatter_def)
  with hex_format_text [of "to_hex bytes n" h loc out] assms(2-4) unhex_bytes [of h bytes] show ?thesis
    by (simp add: to_hex_def dump_text_def)
qed

theorem hex_dump_is_its_lines_witness:
  "\<exists>h. hex_parse ''ns}'' new_hex_formatter = (h, ''}'') \<and> hex_format (\<lambda>a s. None) h (to_hex ''AZ'' 32) [] = Inr ''415a''"
proof -
  obtain h where h: "hex_parse ''ns}'' new_hex_formatter = (h, ''}'')" "\<not> put_newlines h" "\<not> put_delimiters h" "\<not> use_uppercase h"
    by (simp add: new_hex_formatter_def)
  have "hex_byte h CHR ''A'' = ''41''" "hex_byte h CHR ''Z'' = ''5a''"
    using h(4) by (simp_all add: hex_byte_def hex_chars_def)
  then have "dump_text h 32 ''AZ'' = ''415a''" using h(2,3) by (simp add: dump_text_def line_bytes_def more_bytes_def)
  with hex_dump_is_its_lines [OF h(1), of 32 "''AZ''" "\<lambda>a s. None" "[]"] h(1) show ?thesis by auto
qed

text \<open>
  Whatever the network does, a TCP sink that could be made delivers in order: for every text it is given, all of it has been
  sent unless it threw an exception, and then only a beginning of it. It never holds more than its one socket:
  after its destructor, as after a constructor that threw, the descriptors of the process are those it began with. (A
  connection with a timeout needs descriptors that fit an \<open>fd_set\<close>.)
\<close>

theorem tcp_sink_sends_its_lines:
  assumes "fds_contract N opened" and "sent_contract N sent" and "fits_fd_set N (timeout_ms cfg)"
  shows "\<exists>e s k1. new_tcp_sink N cfg k = Inr (e, s, k1) \<and>
    (if e \<noteq> None then opened k1 = opened k \<and> sent k1 = sent k
     else \<exists>es s' k2 parts. tcp_sink_run N ts s k1 = Inr (es, s', k2) \<and> length es = length ts \<and>
       list_all2 sent_part (zip ts es) parts \<and> sent k2 = sent k @ concat parts \<and>
       opened (destroy_tcp_sink N s' k2) = opened k)"
proof -
  obtain e s k1 where s: "new_tcp_sink N cfg k = Inr (e, s, k1)" "ts_config s = cfg" "owns opened (opened k) (ts_client s) k1"
    "sent k1 = sent k" "e \<noteq> None \<longrightarrow> \<not> is_connected (ts_client s)"
    using new_tcp_sink_owns [OF assms, of k] by blast
  show ?thesis
  proof (cases "e = None")
    case False
    with s show ?thesis by (simp add: owns_def)
  next
    case True
    from tcp_sink_run_sends [OF assms(1,2), of s "opened k" k1 ts] assms(3) s(2,3) obtain es s' k2 parts
      where "tcp_sink_run N ts s k1 = Inr (es, s', k2)" "owns opened (opened k) (ts_client s') k2" "length es = length ts"
        "list_all2 sent_part (zip ts es) parts" "sent k2 = sent k1 @ concat parts" by auto
    with True s(1,4) destroy_tcp_sink_owns [OF assms(1)] show ?thesis by auto
  qed
qed

theorem tcp_sink_sends_its_lines_witness:
  "\<exists>e s k1. new_tcp_sink demo_net (new_tcp_sink_config ''log'' 514) demo_net_state = Inr (e, s, k1) \<and>
    (if e \<noteq> None then set (n_fds k1) = set (n_fds demo_net_state) \<and> n_sent k1 = n_sent demo_net_state
     else \<exists>es s' k2 parts. tcp_sink_run demo_net [''first'', ''second''] s k1 = Inr (es, s', k2) \<and> length es = length [''first'', ''second''] \<and>
       list_all2 sent_part (zip [''first'', ''second''] es) parts \<and> n_sent k2 = n_sent demo_net_state @ concat parts \<and>
       set (n_fds (destroy_tcp_sink demo_net s' k2)) = set (n_fds demo_net_state))"
proof -
  have f: "fits_fd_set demo_net (timeout_ms (new_tcp_sink_config ''log'' 514))" by (simp add: fits_fd_set_def new_tcp_sink_config_def)
  show ?thesis by (rule tcp_sink_sends_its_lines [OF demo_net_ok f])
qed

text \<open>
  A socket whose number does not fit an \<open>fd_set\<close> makes a connection with a timeout write outside of it, as soon as
  the connection is not made at once.
\<close>

theorem late_socket_overruns_fd_set:
  assumes "FD_SETSIZE \<le> sockfd" and "tv_sec tv \<noteq> 0 \<or> tv_usec tv \<noteq> 0"
    and "net_getfl N sockfd k = (fl, ka)" and "0 \<le> fl" and "net_setfl N sockfd (fl OR O_NONBLOCK) ka = (0, kb)"
    and "net_connect N sockfd address kb = (-1, kc)" and "get_errno N kc = EINPROGRESS"
  shows "connect_with_timeout N sockfd address tv k = Inl OutOfBounds"
  using assms by (auto simp: connect_with_timeout_def EINPROGRESS_def EISCONN_def)

theorem late_socket_overruns_fd_set_witness:
  "connect_with_timeout (demo_net\<lparr>net_connect := \<lambda>s a k. (-1, k\<lparr>n_errno := EINPROGRESS\<rparr>)\<rparr>) 1024 ''log'' (timeout_of 500)
    demo_net_state = Inl OutOfBounds"
proof -
  let ?k = "demo_net_state\<lparr>n_errno := EINPROGRESS\<rparr>"
  have t: "tv_sec (timeout_of 500) \<noteq> 0 \<or> tv_usec (timeout_of 500) \<noteq> 0" by (simp add: timeout_of_def)
  show ?thesis
    by (rule late_socket_overruns_fd_set [where fl = 0 and ka = demo_net_state and kb = demo_net_state and kc = ?k, OF _ t])
      (simp_all add: demo_net_def FD_SETSIZE_def)
qed

text \<open>
  The system log gets a text that is not formatted up to its first null character (and at most what an \<open>int\<close> can count), one
  entry for each call, with a priority that is the more urgent the higher the level of the message is.
\<close>

theorem syslog_gets_the_text:
  assumes "\<not> enable_formatting s"
  shows "\<exists>prio. (\<forall>msg calls. syslog_sink_it env msg s calls = Inr (msg, s, calls @ [Syslog (prio (msg_level msg)) (c_text (msg_payload msg))])) \<and>
    (\<forall>l l'. l \<le> l' \<and> l' \<noteq> off \<longrightarrow> prio l' \<le> prio l)"
proof (intro exI [of _ "\<lambda>l. syslog_levels ! nat (level_value l)"] conjI allI impI)
  fix msg calls
  show "syslog_sink_it env msg s calls =
    Inr (msg, s, calls @ [Syslog (syslog_levels ! nat (level_value (msg_level msg))) (c_text (msg_payload msg))])"
    using assms by (simp add: syslog_sink_it_def syslog_payload_def syslog_levels_at percent_s_limited)
qed (auto intro: syslog_levels_urgent)

theorem syslog_gets_the_text_witness:
  "\<exists>prio. \<forall>msg calls. syslog_sink_it demo_env msg (fst (new_syslog_sink ''dwt'' 0 8 False [])) calls =
    Inr (msg, fst (new_syslog_sink ''dwt'' 0 8 False []), calls @ [Syslog (prio (msg_level msg)) (c_text (msg_payload msg))])"
  using syslog_gets_the_text [of "fst (new_syslog_sink ''dwt'' 0 8 False [])" demo_env] by (auto simp: new_syslog_sink_def)

text \<open>
  The diagnostic context of a thread is a map: after any sequence of its operations a key has the value it was last put
  with, unless it was removed since, and the empty text otherwise, and the entries are printed in the order of their keys.
\<close>

theorem mdc_is_a_map:
  "sorted_wrt (<) (map fst (fold mdc_step ops [])) \<and>
   mdc_get key (fold mdc_step ops []) = (case fold mdc_abs_step ops Map.empty key of Some val \<Rightarrow> val | None \<Rightarrow> [])"
  using mdc_steps_abs [of "[]" ops] by (simp add: mdc_inv_def mdc_get_def)

end
